(* ===== verification/Prelude.thy ===== *)
theory Prelude
  imports Main "HOL-Library.Word" "HOL-Library.Sublist"
begin

section \<open>Shared types, clocks and list facts\<close>

text \<open>
  The types and generic lemmas every component of the development uses.

  A Go \<open>string\<close> is a sequence of bytes, modelled as a \<open>string\<close> (a char list).  A
  \<open>uuid.UUID\<close> is sixteen bytes, modelled as a 128-bit word; its printed form comes from
  a third-party package and is therefore an argument (\<open>us\<close>) of every definition that
  prints one, with what the callers rely on collected in \<open>uuid_spelling\<close>.

  A Go \<open>time.Time\<close> is read as the number of nanoseconds since Go's zero time, so that
  \<open>IsZero\<close> is equality with 0, and a \<open>time.Duration\<close> as a number of nanoseconds.
  \<open>Time.Sub\<close> saturates at the ends of a 64-bit duration, which the model keeps.
\<close>

type_synonym uuid = "128 word"
type_synonym time = int
type_synonym duration = int

abbreviation uuid_nil :: uuid where
  "uuid_nil \<equiv> 0"

named_theorems uuid_facts \<open>what callers know of a printed identifier\<close>

subsection \<open>Instants and durations\<close>

definition nanosecond :: duration where "nanosecond = 1"
definition microsecond :: duration where "microsecond = 1000"
definition millisecond :: duration where "millisecond = 1000000"
definition second :: duration where "second = 1000000000"
definition minute :: duration where "minute = 60 * second"
definition hour :: duration where "hour = 60 * minute"

lemmas duration_defs = nanosecond_def microsecond_def millisecond_def second_def minute_def hour_def

definition max_duration :: duration where "max_duration = 2 ^ 63 - 1"
definition min_duration :: duration where "min_duration = - (2 ^ 63)"

text \<open>\<open>Time.Sub\<close>, with the saturation Go documents.\<close>

definition time_sub :: "time \<Rightarrow> time \<Rightarrow> duration" where
  "time_sub a b = max min_duration (min max_duration (a - b))"

text \<open>\<open>Time.Truncate(time.Microsecond)\<close> rounds down to a multiple since the zero time.\<close>

definition trunc_us :: "time \<Rightarrow> time" where
  "trunc_us t = t - t mod microsecond"

lemma time_sub_ge_iff:
  assumes "min_duration < d" and "d \<le> max_duration"
  shows "d \<le> time_sub a b \<longleftrightarrow> b + d \<le> a"
  using assms by (auto simp: time_sub_def min_def max_def)

lemma time_sub_less_iff:
  assumes "min_duration < d" and "d \<le> max_duration"
  shows "time_sub a b < d \<longleftrightarrow> a < b + d"
  using time_sub_ge_iff [OF assms, of a b] by linarith

lemma trunc_us_le: "trunc_us t \<le> t"
  by (simp add: trunc_us_def microsecond_def)

lemma trunc_us_mono: "a \<le> b \<Longrightarrow> trunc_us a \<le> trunc_us b"
proof -
  have eq: "trunc_us t = 1000 * (t div 1000)" for t
    by (simp add: trunc_us_def microsecond_def minus_mod_eq_mult_div)
  assume "a \<le> b"
  then show ?thesis by (simp add: eq zdiv_mono1)
qed

lemma trunc_us_idem [simp]: "trunc_us (trunc_us t) = trunc_us t"
  by (simp add: trunc_us_def microsecond_def mod_diff_eq [symmetric])

subsection \<open>Printed identifiers\<close>

text \<open>
  What the code relies on of \<open>uuid.UUID.String\<close>: thirty-six characters, hexadecimal
  digits and dashes only, and two identifiers never print alike.
\<close>

definition uuid_char :: "char \<Rightarrow> bool" where
  "uuid_char c \<longleftrightarrow> c \<in> set ''0123456789abcdef-''"

definition uuid_spelling :: "(uuid \<Rightarrow> string) \<Rightarrow> bool" where
  "uuid_spelling us \<longleftrightarrow> (\<forall>u. length (us u) = 36 \<and> list_all uuid_char (us u)) \<and> inj us"

lemma uuid_spelling_length [uuid_facts]: "uuid_spelling us \<Longrightarrow> length (us u) = 36"
  by (simp add: uuid_spelling_def)

lemma uuid_spelling_inj [uuid_facts]: "uuid_spelling us \<Longrightarrow> us u = us v \<longleftrightarrow> u = v"
  by (auto simp: uuid_spelling_def dest: injD)

lemma uuid_spelling_char:
  "uuid_spelling us \<Longrightarrow> c \<in> set (us u) \<Longrightarrow> uuid_char c"
  by (auto simp: uuid_spelling_def list_all_iff)

lemma uuid_spelling_no_sep [uuid_facts]:
  assumes "uuid_spelling us"
  shows "CHR ''/'' \<notin> set (us u)" "CHR ''.'' \<notin> set (us u)"
    "CHR '':'' \<notin> set (us u)" "CHR '' '' \<notin> set (us u)"
  using uuid_spelling_char [OF assms] by (auto simp: uuid_char_def)

subsection \<open>Splitting at a separator\<close>

text \<open>Two texts with the same separator agree piecewise when the first pieces lack it.\<close>

lemma append_sep_eq:
  assumes "c \<notin> set a" and "c \<notin> set b" and "a @ c # x = b @ c # y"
  shows "a = b \<and> x = y"
  using assms
proof (induction a arbitrary: b)
  case Nil
  then show ?case by (cases b) auto
next
  case (Cons d a)
  then obtain b' where "b = d # b'" by (cases b) auto
  with Cons show ?case by auto
qed

lemma append_len_sep_eq:
  assumes "length a = length b" and "a @ c # x = b @ c # y"
  shows "a = b \<and> x = y"
  using assms by simp

subsection \<open>The first that holds\<close>

lemma find_SomeD: "List.find P xs = Some x \<Longrightarrow> x \<in> set xs \<and> P x"
  by (induction xs) (auto split: if_splits)

lemma find_None_all: "List.find P xs = None \<longleftrightarrow> list_all (\<lambda>x. \<not> P x) xs"
  by (induction xs) auto

lemma find_only:
  assumes "u \<in> set xs" "P u" "\<And>v. v \<in> set xs \<Longrightarrow> P v \<Longrightarrow> v = u"
  shows "List.find P xs = Some u"
proof (cases "List.find P xs")
  case None
  with assms(1,2) show ?thesis by (auto simp: find_None_all list_all_iff)
next
  case (Some v)
  with find_SomeD [OF Some] assms(3) show ?thesis by simp
qed

subsection \<open>Counting with filters\<close>

lemma card_filter_mono: "(\<And>x. P x \<Longrightarrow> Q x) \<Longrightarrow> length (filter P xs) \<le> length (filter Q xs)"
  by (induction xs) auto

lemma length_filter_strict:
  assumes "\<And>x. P x \<Longrightarrow> Q x" and "y \<in> set xs" and "Q y" and "\<not> P y"
  shows "length (filter P xs) < length (filter Q xs)"
  using assms(2)
proof (induction xs)
  case Nil
  then show ?case by simp
next
  case (Cons x xs)
  have le: "length (filter P xs) \<le> length (filter Q xs)"
    using assms(1) by (rule card_filter_mono)
  show ?case
  proof (cases "y = x")
    case True
    with le assms(3,4) show ?thesis by simp
  next
    case False
    with Cons have "length (filter P xs) < length (filter Q xs)" by simp
    with assms(1) show ?thesis by auto
  qed
qed

subsection \<open>The canonical spelling of an identifier\<close>

text \<open>
  The lower-case 8-4-4-4-12 form: it has the properties assumed of \<open>uuid.UUID.String\<close>, so
  what is proved from them is about something.
\<close>

fun hex_digits :: "nat \<Rightarrow> nat \<Rightarrow> nat list" where
  "hex_digits 0 n = []"
| "hex_digits (Suc k) n = n mod 16 # hex_digits k (n div 16)"

definition hex_char :: "nat \<Rightarrow> char" where
  "hex_char d = ''0123456789abcdef'' ! d"

definition dashed :: "string \<Rightarrow> string" where
  "dashed xs = take 8 xs @ ''-'' @ take 4 (drop 8 xs) @ ''-'' @ take 4 (drop 12 xs) @ ''-''
     @ take 4 (drop 16 xs) @ ''-'' @ drop 20 xs"

definition uuid_text :: "uuid \<Rightarrow> string" where
  "uuid_text u = dashed (rev (map hex_char (hex_digits 32 (unat u))))"

lemma length_hex_digits [simp]: "length (hex_digits k n) = k"
  by (induction k arbitrary: n) auto

lemma hex_digits_less: "d \<in> set (hex_digits k n) \<Longrightarrow> d < 16"
  by (induction k arbitrary: n) auto

lemma hex_digits_inj: "hex_digits k n = hex_digits k m \<Longrightarrow> n < 16 ^ k \<Longrightarrow> m < 16 ^ k \<Longrightarrow> n = m"
proof (induction k arbitrary: n m)
  case (Suc k)
  then have "n div 16 = m div 16" by (simp add: less_mult_imp_div_less mult.commute)
  moreover have "n mod 16 = m mod 16" using Suc.prems by simp
  ultimately show ?case by (metis mult_div_mod_eq)
qed simp

lemma hex_char_char:
  assumes "d < 16"
  shows "uuid_char (hex_char d)"
proof -
  have "hex_char d \<in> set ''0123456789abcdef''" unfolding hex_char_def using assms by (intro nth_mem) simp
  then show ?thesis by (auto simp: uuid_char_def)
qed

lemma hex_char_inj: "inj_on hex_char {..<16}"
proof -
  have "distinct ''0123456789abcdef''" by simp
  then show ?thesis unfolding inj_on_def hex_char_def by (simp add: nth_eq_iff_index_eq)
qed

lemma dashed_inj:
  assumes "dashed xs = dashed ys" "length xs = 32" "length ys = 32"
  shows "xs = ys"
proof -
  have "take 8 xs = take 8 ys" "take 4 (drop 8 xs) = take 4 (drop 8 ys)" "take 4 (drop 12 xs) = take 4 (drop 12 ys)"
    "take 4 (drop 16 xs) = take 4 (drop 16 ys)" "drop 20 xs = drop 20 ys"
    using assms by (auto simp: dashed_def)
  moreover have "zs = take 8 zs @ take 4 (drop 8 zs) @ take 4 (drop 12 zs) @ take 4 (drop 16 zs) @ drop 20 zs" for zs :: string
  proof -
    have "drop 8 zs = take 4 (drop 8 zs) @ drop 12 zs" "drop 12 zs = take 4 (drop 12 zs) @ drop 16 zs"
      "drop 16 zs = take 4 (drop 16 zs) @ drop 20 zs"
      using append_take_drop_id [of 4 "drop 8 zs"] append_take_drop_id [of 4 "drop 12 zs"]
        append_take_drop_id [of 4 "drop 16 zs"] by simp_all
    then show ?thesis using append_take_drop_id [of 8 zs] by metis
  qed
  ultimately show ?thesis by metis
qed

lemma uuid_text_spelling: "uuid_spelling uuid_text"
  unfolding uuid_spelling_def
proof (intro conjI allI)
  fix u :: uuid
  let ?xs = "rev (map hex_char (hex_digits 32 (unat u)))"
  show "length (uuid_text u) = 36" by (simp add: uuid_text_def dashed_def)
  have "\<forall>c \<in> set ?xs. uuid_char c" using hex_digits_less hex_char_char by auto
  then have "c \<in> set (take n (drop k ?xs)) \<Longrightarrow> uuid_char c" "c \<in> set (drop k ?xs) \<Longrightarrow> uuid_char c" for c n k
    by (meson in_set_dropD in_set_takeD)+
  from this(1) [of _ 8 0] this show "list_all uuid_char (uuid_text u)"
    by (auto simp: uuid_text_def dashed_def list_all_iff uuid_char_def [of "CHR ''-''"])
next
  show "inj uuid_text"
  proof (rule injI)
    fix u v
    assume "uuid_text u = uuid_text v"
    then have "rev (map hex_char (hex_digits 32 (unat u))) = rev (map hex_char (hex_digits 32 (unat v)))"
      unfolding uuid_text_def by (rule dashed_inj) simp_all
    then have "map hex_char (hex_digits 32 (unat u)) = map hex_char (hex_digits 32 (unat v))" by simp
    moreover have "inj_on hex_char (set (hex_digits 32 (unat u)) \<union> set (hex_digits 32 (unat v)))"
      using hex_digits_less by (intro inj_on_subset [OF hex_char_inj]) auto
    ultimately have h: "hex_digits 32 (unat u) = hex_digits 32 (unat v)" by (simp add: inj_on_map_eq_map)
    have "unat x < 16 ^ 32" for x :: uuid
      using unsigned_less [of x] by simp
    with hex_digits_inj [OF h] show "u = v" by (simp add: word_unat_eq_iff)
  qed
qed

end
