(* ===== verification/Composition.thy ===== *)
theory Composition
  imports Prelude
begin

section \<open>Modules, declarations and the resolver's vocabulary\<close>

text \<open>
  \<open>pkit/declare.go\<close> and the small functions of \<open>pkit/resolve.go\<close>.  A module is a pointer in
  the source: \<open>m_ptr\<close> is its address, so that two modules of equal content stay two modules.
  A contract is a \<open>reflect.Type\<close>, read through its name, package path and printed form; the
  printed form is not unique among types, as Go documents.  A refusal's sentence is a value
  of \<open>sentence\<close> carrying what the formatted text is made of.
\<close>

datatype rtype =
    TPointer rtype
  | TType (rt_path: string) (rt_ident: string) (rt_text: string)

fun type_name :: "rtype \<Rightarrow> string" where
  "type_name (TPointer t) = ''''"
| "type_name (TType p n s) = n"

fun type_string :: "rtype \<Rightarrow> string" where
  "type_string (TPointer t) = ''*'' @ type_string t"
| "type_string (TType p n s) = s"

text \<open>\<open>strings.Split(s, "/")\<close>: never empty.\<close>

fun split_slash :: "string \<Rightarrow> string list" where
  "split_slash [] = [[]]"
| "split_slash (c # cs) =
     (if c = CHR ''/'' then [] # split_slash cs
      else (case split_slash cs of [] \<Rightarrow> [[c]] | w # ws \<Rightarrow> (c # w) # ws))"

definition owner :: "string \<Rightarrow> string \<times> string" where
  "owner path =
     (let parts = split_slash path;
          pkg = last parts;
          dir = (if length parts > 1 then parts ! (length parts - 2) else '''')
      in (dir, pkg))"

fun contract :: "rtype \<Rightarrow> string" where
  "contract (TPointer t) = ''*'' @ contract t"
| "contract (TType path ident text) =
     (if ident = '''' \<or> path = '''' then text
      else case owner path of (dir, pkg) \<Rightarrow>
        if pkg = ''contracts'' \<and> dir \<noteq> '''' then dir @ ''contracts.'' @ ident
        else pkg @ ''.'' @ ident)"

subsection \<open>Declarations and modules\<close>

datatype kind = Provides | Needs | Optional | Contributes | After | FromDeployment | Describes

record implementation =
  i_name :: string
  i_inputs :: "string list"
  i_simulated :: bool

record decl =
  dl_kind :: kind
  dl_key :: rtype
  dl_many :: bool
  dl_impls :: "implementation list"

record module =
  m_ptr :: nat
  m_name :: string
  m_decls :: "decl list"

text \<open>
  A needed type: a slice without a name is a need of every contribution of its element.
  Go's zero \<open>reflect.Type\<close> of the declarations that name no contract is \<open>no_type\<close>.
\<close>

datatype needed = Plain rtype | UnnamedSlice rtype

definition no_type :: rtype where
  "no_type = TType '''' '''' ''''"

definition provides_decl :: "rtype \<Rightarrow> decl" where
  "provides_decl t = \<lparr>dl_kind = Provides, dl_key = t, dl_many = False, dl_impls = []\<rparr>"

definition need_decl :: "kind \<Rightarrow> needed \<Rightarrow> decl" where
  "need_decl k n = (case n of
     UnnamedSlice e \<Rightarrow> \<lparr>dl_kind = k, dl_key = e, dl_many = True, dl_impls = []\<rparr>
   | Plain t \<Rightarrow> \<lparr>dl_kind = k, dl_key = t, dl_many = False, dl_impls = []\<rparr>)"

definition contributes_decl :: "rtype \<Rightarrow> decl" where
  "contributes_decl t = \<lparr>dl_kind = Contributes, dl_key = t, dl_many = False, dl_impls = []\<rparr>"

definition after_decl :: decl where
  "after_decl = \<lparr>dl_kind = After, dl_key = no_type, dl_many = False, dl_impls = []\<rparr>"

definition from_deployment_decl :: "implementation list \<Rightarrow> decl" where
  "from_deployment_decl impls = \<lparr>dl_kind = FromDeployment, dl_key = no_type, dl_many = False, dl_impls = impls\<rparr>"

definition contract_of :: "decl \<Rightarrow> string" where
  "contract_of dl =
     (let noun = contract (dl_key dl)
      in if dl_kind dl = Needs \<and> dl_many dl then ''takes every '' @ noun
         else if dl_kind dl = Optional \<and> dl_many dl then ''uses every '' @ noun
         else if dl_kind dl = Optional then ''uses '' @ noun
         else noun)"

subsection \<open>The application and its deployment\<close>

datatype environment = Development | Staging | Production | OtherEnvironment string

record application =
  a_name :: string
  a_uses :: "module list"
  a_chosen :: "module list"

record deployment =
  de_env :: environment
  de_inputs :: "string \<Rightarrow> string"

subsection \<open>Sentences\<close>

datatype sentence =
    NotAnEnvironment string
  | InUseTwice string
  | ChosenNotInUse string
  | ChoosesNothing string
  | TakesOwnContribution string rtype
  | NeedsOwnProvision string rtype
  | NeedsOwnContribution string rtype
  | ProvidesAndContributes string rtype
  | DeclaredTwice string string
  | TwoAfterEverything string string
  | ManyAfterEverything string
  | ProvidedAndContributed rtype string string
  | MissingProvider string rtype string
  | ProviderWithdrawn string rtype string string
  | TakesOneOfMany string rtype string
  | HasMany rtype string
  | TakesFromLast string rtype string
  | DependsOnLast string string rtype string
  | NoImplementationDeclared string
  | InputMissing string string environment
  | OnlySimulated string environment
  | CycleOf "string list" string
  | Unplaced string string
  | CloudSentence string

record issue =
  is_method :: string
  is_text :: sentence

definition an_issue :: "string \<Rightarrow> sentence \<Rightarrow> issue" where
  "an_issue m s = \<lparr>is_method = m, is_text = s\<rparr>"

subsection \<open>Readings of the modules in use\<close>

definition has_decl :: "module \<Rightarrow> kind \<Rightarrow> bool" where
  "has_decl m k \<longleftrightarrow> (\<exists>dl \<in> set (m_decls m). dl_kind dl = k)"

definition has_decl_key :: "module \<Rightarrow> kind \<Rightarrow> rtype \<Rightarrow> bool" where
  "has_decl_key m k key \<longleftrightarrow> (\<exists>dl \<in> set (m_decls m). dl_kind dl = k \<and> dl_key dl = key)"

definition supplies :: "module \<Rightarrow> rtype \<Rightarrow> bool" where
  "supplies m key \<longleftrightarrow>
     (\<exists>dl \<in> set (m_decls m). (dl_kind dl = Provides \<or> dl_kind dl = Contributes) \<and> dl_key dl = key)"

definition suppliers_of :: "module list \<Rightarrow> rtype \<Rightarrow> module list" where
  "suppliers_of lives key = filter (\<lambda>m. supplies m key) lives"

fun first_seen :: "'a list \<Rightarrow> 'a list \<Rightarrow> 'a list" where
  "first_seen seen [] = []"
| "first_seen seen (x # xs) = (if x \<in> set seen then first_seen seen xs else x # first_seen (x # seen) xs)"

definition declared_keys :: "module list \<Rightarrow> rtype list" where
  "declared_keys lives =
     first_seen [] (concat (map (\<lambda>m. map dl_key
        (filter (\<lambda>dl. dl_kind dl = Provides \<or> dl_kind dl = Contributes) (m_decls m))) lives))"

definition surviving_of :: "module list \<Rightarrow> module list \<Rightarrow> module list" where
  "surviving_of cand dead = filter (\<lambda>m. m \<notin> set dead) cand"

definition all_contributors :: "module list \<Rightarrow> bool" where
  "all_contributors cand \<longleftrightarrow> (\<forall>m \<in> set cand. has_decl m Contributes)"

fun first_taker :: "module list \<Rightarrow> rtype \<Rightarrow> string" where
  "first_taker [] key = ''''"
| "first_taker (m # ms) key =
     (if \<exists>dl \<in> set (m_decls m). dl_kind dl = Needs \<and> \<not> dl_many dl \<and> dl_key dl = key
      then m_name m else first_taker ms key)"

definition names :: "module list \<Rightarrow> string list" where
  "names ms = map m_name ms"

definition module_names :: "module list \<Rightarrow> string list" where
  "module_names ms = map (\<lambda>m. m_name m @ ''.Module'') ms"

fun join_comma :: "string list \<Rightarrow> string" where
  "join_comma [] = ''''"
| "join_comma [x] = x"
| "join_comma (x # y # xs) = x @ '', '' @ join_comma (y # xs)"

definition and_list :: "string list \<Rightarrow> string" where
  "and_list ss =
     (case ss of
        [] \<Rightarrow> ''''
      | [a] \<Rightarrow> a
      | [a, b] \<Rightarrow> a @ '' and '' @ b
      | _ \<Rightarrow> join_comma (butlast ss) @ '' and '' @ last ss)"

definition who_or_nobody :: "string list \<Rightarrow> string" where
  "who_or_nobody ss = (if ss = [] then ''no module'' else and_list ss)"

definition contributors_say :: "module list \<Rightarrow> string" where
  "contributors_say cand =
     (case cand of
        [a, b] \<Rightarrow> m_name a @ '' and '' @ m_name b @ '' both contribute one''
      | _ \<Rightarrow> and_list (module_names cand) @ '' contribute one each'')"

text \<open>\<open>fixFor\<close> reads the owner off the package path of the type itself: a pointer has none.\<close>

definition fix_for :: "string \<Rightarrow> rtype \<Rightarrow> string" where
  "fix_for app key =
     (case owner (case key of TPointer _ \<Rightarrow> '''' | TType p n s \<Rightarrow> p) of (dir, pkg) \<Rightarrow>
        if pkg = ''contracts'' \<and> dir \<noteq> '''' then ''add '' @ dir @ ''.Module to '' @ app
        else ''add a module that provides it'')"

subsection \<open>Facts\<close>

lemma split_slash_not_Nil [simp]: "split_slash s \<noteq> []"
  by (cases s) (auto split: list.splits)

lemma set_suppliers_of: "m \<in> set (suppliers_of lives key) \<longleftrightarrow> m \<in> set lives \<and> supplies m key"
  by (auto simp: suppliers_of_def)

lemma set_first_seen: "set (first_seen seen xs) = set xs - set seen"
  by (induction seen xs rule: first_seen.induct) auto

lemma distinct_first_seen: "distinct (first_seen seen xs)"
  by (induction seen xs rule: first_seen.induct) (auto simp: set_first_seen)

lemma set_declared_keys: "key \<in> set (declared_keys lives) \<longleftrightarrow> (\<exists>m \<in> set lives. supplies m key)"
  by (auto simp: declared_keys_def set_first_seen supplies_def)

lemma set_surviving_of [simp]: "m \<in> set (surviving_of cand dead) \<longleftrightarrow> m \<in> set cand \<and> m \<notin> set dead"
  by (auto simp: surviving_of_def)

lemma surviving_of_mono: "set dead \<subseteq> set dead' \<Longrightarrow> surviving_of (surviving_of cand dead) dead' = surviving_of cand dead'"
  by (auto simp: surviving_of_def intro: filter_cong)

lemma supplies_kinds: "supplies m key \<longleftrightarrow> has_decl_key m Provides key \<or> has_decl_key m Contributes key"
  by (auto simp: supplies_def has_decl_key_def)

end
