(* ===== verification/BuildOrder.thy ===== *)
theory BuildOrder
  imports Prelude
begin

section \<open>The build order and the first cycle\<close>

text \<open>
  \<open>order\<close> and \<open>cycleThrough\<close> of \<open>pkit/resolve.go\<close>, over any node type: \<open>alive\<close> are the living
  modules in Use order, \<open>deps\<close> each one's dependencies and \<open>lst\<close> the module that runs after
  everything.  The worklist is a function with a termination proof; the depth-first walk
  takes fuel, and \<open>visit_enough\<close> shows that one unit per node and one more is enough.

  The lemmas show that the worklist places exactly the modules a build order can place,
  each after its dependencies, and that a module left over always has a cycle behind it,
  which the walk returns.
\<close>

subsection \<open>The worklist\<close>

function kahn :: "'m list \<Rightarrow> 'm option \<Rightarrow> ('m \<Rightarrow> 'm list) \<Rightarrow> 'm list \<Rightarrow> 'm list \<Rightarrow> 'm list" where
  "kahn alive lst deps [] out = out"
| "kahn alive lst deps (m # queue) out =
     (if m \<in> set out then kahn alive lst deps queue out
      else if \<not> list_all (\<lambda>d. d \<in> set out) (deps m) then kahn alive lst deps queue out
      else let out' = out @ [m];
               ready = filter (\<lambda>c. c \<notin> set out' \<and> Some c \<noteq> lst \<and> m \<in> set (deps c)
                                 \<and> list_all (\<lambda>d. d \<in> set out') (deps c)) alive
           in kahn alive lst deps (queue @ ready) out')"
  by pat_completeness auto
termination
proof (relation "measures [\<lambda>(alive, lst, deps, q, out). card ((set alive \<union> set q) - set out),
    \<lambda>(alive, lst, deps, q, out). length q]", goal_cases)
  case 1
  show ?case by simp
next
  case (2 alive lst deps m q out)
  have "card ((set alive \<union> set q) - set out) \<le> card ((set alive \<union> set (m # q)) - set out)"
    by (rule card_mono) auto
  then show ?case by auto
next
  case (3 alive lst deps m q out)
  have "card ((set alive \<union> set q) - set out) \<le> card ((set alive \<union> set (m # q)) - set out)"
    by (rule card_mono) auto
  then show ?case by auto
next
  case (4 alive lst deps m q out out' ready)
  have "card ((set alive \<union> set (q @ ready)) - set out') < card ((set alive \<union> set (m # q)) - set out)"
    using 4 by (intro psubset_card_mono) auto
  then show ?case by simp
qed

declare kahn.simps(2) [simp del]

subsection \<open>The walk\<close>

text \<open>
  The loop of \<open>walk\<close> over the dependencies still to be looked at.  A node is on the walk
  (state 1) when it is in \<open>stack\<close>, done (state 2) when it is in \<open>done\<close>.  \<open>None\<close> is out of
  fuel; \<open>Inl\<close> the cycle that closed, \<open>Inr\<close> the nodes done.
\<close>

fun visit :: "nat \<Rightarrow> ('m \<Rightarrow> 'm list) \<Rightarrow> 'm list \<Rightarrow> 'm list \<Rightarrow> 'm list \<Rightarrow> ('m list + 'm list) option" where
  "visit 0 deps ds stack done = None"
| "visit (Suc n) deps [] stack done = Some (Inr done)"
| "visit (Suc n) deps (d # ds) stack done =
     (if d \<in> set stack then Some (Inl (dropWhile (\<lambda>x. x \<noteq> d) stack @ [d]))
      else if d \<in> set done then visit (Suc n) deps ds stack done
      else (case visit n deps (deps d) (stack @ [d]) done of
              None \<Rightarrow> None
            | Some (Inl c) \<Rightarrow> Some (Inl c)
            | Some (Inr done') \<Rightarrow> visit (Suc n) deps ds stack (d # done')))"

definition cycle_through :: "nat \<Rightarrow> ('m \<Rightarrow> 'm list) \<Rightarrow> 'm \<Rightarrow> 'm list option" where
  "cycle_through fuel deps start =
     (case visit fuel deps [start] [] [] of
        Some (Inl c) \<Rightarrow> Some c
      | _ \<Rightarrow> None)"

text \<open>\<open>order\<close>: what was placed, the first cycle, and what no order places when there is none.\<close>

definition build_order :: "'m list \<Rightarrow> 'm option \<Rightarrow> ('m \<Rightarrow> 'm list) \<Rightarrow> 'm list \<times> 'm list option \<times> 'm list" where
  "build_order alive lst deps =
     (let queue = filter (\<lambda>m. Some m \<noteq> lst \<and> deps m = []) alive;
          out = kahn alive lst deps queue [];
          out' = (case lst of None \<Rightarrow> out | Some l \<Rightarrow> if l \<in> set alive then out @ [l] else out);
          left = filter (\<lambda>m. m \<notin> set out') alive
      in case left of
           [] \<Rightarrow> (out', None, [])
         | x # _ \<Rightarrow>
             (case cycle_through (length alive + 2) deps x of
                Some c \<Rightarrow> (out', Some c, [])
              | None \<Rightarrow> (out', None, left)))"

subsection \<open>Orders in which everything a node waits for comes first\<close>

fun topo_from :: "('m \<Rightarrow> 'm list) \<Rightarrow> 'm set \<Rightarrow> 'm list \<Rightarrow> bool" where
  "topo_from deps seen [] = True"
| "topo_from deps seen (x # xs) = (set (deps x) \<subseteq> seen \<and> topo_from deps (insert x seen) xs)"

lemma topo_from_append:
  "topo_from deps seen (xs @ ys) \<longleftrightarrow> topo_from deps seen xs \<and> topo_from deps (seen \<union> set xs) ys"
  by (induction xs arbitrary: seen) auto

lemma topo_from_before:
  "topo_from deps {} (pre @ m # post) \<Longrightarrow> set (deps m) \<subseteq> set pre"
  by (simp add: topo_from_append)

text \<open>In such an order no nonempty part of it can wait for itself.\<close>

lemma topo_no_blocked:
  assumes "topo_from deps seen xs" "\<forall>x \<in> set xs. P x \<longrightarrow> (\<exists>d \<in> set (deps x). P d)" "\<forall>x \<in> seen. \<not> P x"
  shows "\<forall>x \<in> set xs. \<not> P x"
  using assms by (induction xs arbitrary: seen) auto

text \<open>A closed walk along dependencies, its head repeated at its tail.\<close>

definition is_cycle :: "('m \<Rightarrow> 'm list) \<Rightarrow> 'm list \<Rightarrow> bool" where
  "is_cycle deps c \<longleftrightarrow> length c \<ge> 2 \<and> hd c = last c \<and> successively (\<lambda>a b. b \<in> set (deps a)) c"

subsection \<open>The worklist places what can be placed\<close>

definition kahn_inv :: "'m list \<Rightarrow> 'm option \<Rightarrow> ('m \<Rightarrow> 'm list) \<Rightarrow> 'm list \<Rightarrow> 'm list \<Rightarrow> bool" where
  "kahn_inv alive lst deps q out \<longleftrightarrow>
     distinct out \<and> topo_from deps {} out
   \<and> (\<forall>m \<in> set out \<union> set q. m \<in> set alive \<and> Some m \<noteq> lst)
   \<and> (\<forall>c \<in> set alive. Some c \<noteq> lst \<longrightarrow> c \<notin> set out \<longrightarrow> set (deps c) \<subseteq> set out \<longrightarrow> c \<in> set q)"

lemma kahn_inv_skip:
  "kahn_inv alive lst deps (m # q) out \<Longrightarrow> m \<in> set out \<or> \<not> set (deps m) \<subseteq> set out \<Longrightarrow> kahn_inv alive lst deps q out"
  by (auto simp: kahn_inv_def)

lemma kahn_inv_place:
  assumes inv: "kahn_inv alive lst deps (m # q) out" and m: "m \<notin> set out" "set (deps m) \<subseteq> set out"
  shows "kahn_inv alive lst deps (q @ filter (\<lambda>c. c \<notin> set (out @ [m]) \<and> Some c \<noteq> lst \<and> m \<in> set (deps c)
           \<and> list_all (\<lambda>d. d \<in> set (out @ [m])) (deps c)) alive) (out @ [m])"
  unfolding kahn_inv_def
proof (intro conjI ballI impI)
  show "distinct (out @ [m])" "topo_from deps {} (out @ [m])"
    using inv m by (auto simp: kahn_inv_def topo_from_append)
next
  fix c
  assume c: "c \<in> set alive" "Some c \<noteq> lst" "c \<notin> set (out @ [m])" "set (deps c) \<subseteq> set (out @ [m])"
  show "c \<in> set (q @ filter (\<lambda>c. c \<notin> set (out @ [m]) \<and> Some c \<noteq> lst \<and> m \<in> set (deps c)
           \<and> list_all (\<lambda>d. d \<in> set (out @ [m])) (deps c)) alive)"
  proof (cases "m \<in> set (deps c)")
    case True
    with c show ?thesis by (auto simp: list_all_iff)
  next
    case False
    with c have "set (deps c) \<subseteq> set out" by auto
    with c inv show ?thesis by (auto simp: kahn_inv_def)
  qed
qed (use inv in \<open>auto simp: kahn_inv_def\<close>)

lemma kahn_invariant: "kahn_inv alive lst deps q out \<Longrightarrow> kahn_inv alive lst deps [] (kahn alive lst deps q out)"
proof (induction alive lst deps q out rule: kahn.induct)
  case (1 alive lst deps out)
  then show ?case by simp
next
  case (2 alive lst deps m q out)
  show ?case
  proof (cases "m \<in> set out \<or> \<not> set (deps m) \<subseteq> set out")
    case True
    have "kahn alive lst deps (m # q) out = kahn alive lst deps q out"
      using True by (auto simp: kahn.simps(2) list_all_iff)
    then show ?thesis using "2.IH"(1,2) kahn_inv_skip [OF "2.prems" True] True
      by (cases "m \<in> set out") (auto simp: list_all_iff)
  next
    case False
    then have l: "list_all (\<lambda>d. d \<in> set out) (deps m)" by (auto simp: list_all_iff)
    from False l "2.IH"(3) [OF _ _ refl refl] kahn_inv_place [OF "2.prems"]
    show ?thesis by (simp add: kahn.simps(2) Let_def)
  qed
qed

lemma kahn_inv_start:
  "kahn_inv alive lst deps (filter (\<lambda>m. Some m \<noteq> lst \<and> deps m = []) alive) []"
  by (auto simp: kahn_inv_def)

subsection \<open>The walk returns a cycle, or an order of everything it saw\<close>

lemma dropWhile_hd: "d \<in> set xs \<Longrightarrow> \<exists>ys. dropWhile (\<lambda>x. x \<noteq> d) xs = d # ys"
  by (induction xs) auto

lemma successively_dropWhile: "successively P xs \<Longrightarrow> successively P (dropWhile Q xs)"
proof (induction xs)
  case (Cons x xs)
  then show ?case by (cases xs) auto
qed simp

lemma visit_cycle:
  assumes "visit n deps ds stack done = Some (Inl c)"
    "successively (\<lambda>a b. b \<in> set (deps a)) stack"
    "stack \<noteq> [] \<Longrightarrow> set ds \<subseteq> set (deps (last stack))"
  shows "is_cycle deps c"
  using assms
proof (induction n deps ds stack "done" rule: visit.induct)
  case (3 n deps d ds stack "done")
  show ?case
  proof (cases "d \<in> set stack")
    case True
    then obtain ys where ys: "dropWhile (\<lambda>x. x \<noteq> d) stack = d # ys" using dropWhile_hd by metis
    from True have "stack \<noteq> []" by auto
    then have "d \<in> set (deps (last stack))" using 3 by auto
    moreover have "last stack = last (d # ys)"
      using ys by (metis last_appendR list.distinct(1) takeWhile_dropWhile_id)
    moreover have "successively (\<lambda>a b. b \<in> set (deps a)) (d # ys)"
      using successively_dropWhile [OF "3.prems"(2), of "\<lambda>x. x \<noteq> d"] ys by simp
    ultimately have "successively (\<lambda>a b. b \<in> set (deps a)) ((d # ys) @ [d])"
      by (subst successively_append_iff) simp
    moreover have "c = (d # ys) @ [d]" using "3.prems"(1) True ys by simp
    ultimately show ?thesis by (simp only: is_cycle_def) simp
  next
    case out: False
    show ?thesis
    proof (cases "d \<in> set done")
      case True
      with out 3 show ?thesis by auto
    next
      case False
      have st: "successively (\<lambda>a b. b \<in> set (deps a)) (stack @ [d])"
        using "3.prems"(2,3) by (cases "stack = []") (auto simp: successively_append_iff)
      from "3.prems"(1) out False consider
          "visit n deps (deps d) (stack @ [d]) done = Some (Inl c)"
        | done' where "visit n deps (deps d) (stack @ [d]) done = Some (Inr done')"
            "visit (Suc n) deps ds stack (d # done') = Some (Inl c)"
        by (auto split: option.splits sum.splits)
      then show ?thesis
      proof cases
        case 1
        then show ?thesis using "3.IH"(2) [OF out False _ st] by simp
      next
        case 2
        then show ?thesis using "3.IH"(3) [OF out False] "3.prems"(2,3) by auto
      qed
    qed
  qed
qed auto

lemma visit_settled:
  assumes "visit n deps ds stack done = Some (Inr done')" "topo_from deps {} (rev done)"
  shows "topo_from deps {} (rev done') \<and> set ds \<subseteq> set done' \<and> set done \<subseteq> set done'"
  using assms
proof (induction n deps ds stack "done" arbitrary: done' rule: visit.induct)
  case (3 n deps d ds stack "done")
  from "3.prems"(1) have out: "d \<notin> set stack" by auto
  show ?case
  proof (cases "d \<in> set done")
    case True
    with out 3 show ?thesis by auto
  next
    case False
    with out "3.prems"(1) obtain d1 where d1: "visit n deps (deps d) (stack @ [d]) done = Some (Inr d1)"
      "visit (Suc n) deps ds stack (d # d1) = Some (Inr done')"
      by (auto split: option.splits sum.splits)
    from "3.IH"(2) [OF out False d1(1) "3.prems"(2)]
    have "topo_from deps {} (rev d1)" "set (deps d) \<subseteq> set d1" "set done \<subseteq> set d1" by auto
    then have "topo_from deps {} (rev (d # d1))" by (simp add: topo_from_append)
    with "3.IH"(3) [OF out False d1(1) _ d1(2)] \<open>set done \<subseteq> set d1\<close> show ?thesis by auto
  qed
qed auto

lemma visit_enough:
  assumes "finite N" "\<And>x. x \<in> N \<Longrightarrow> set (deps x) \<subseteq> N" "set ds \<subseteq> N" "distinct stack" "set stack \<subseteq> N"
    "card N < n + length stack"
  shows "visit n deps ds stack done \<noteq> None"
  using assms
proof (induction n deps ds stack "done" rule: visit.induct)
  case (1 deps ds stack "done")
  then have "length stack \<le> card N" by (metis card_mono distinct_card)
  with 1 show ?case by simp
next
  case (2 n deps stack "done")
  then show ?case by simp
next
  case (3 n deps d ds stack "done")
  show ?case
  proof (cases "d \<in> set stack \<or> d \<in> set done")
    case True
    with 3 show ?thesis by auto
  next
    case False
    then have f: "d \<notin> set stack" "d \<notin> set done" by auto
    have d: "d \<in> N" using 3 by auto
    have "visit n deps (deps d) (stack @ [d]) done \<noteq> None"
      using "3.IH"(2) [OF f] "3.prems" d f by simp
    moreover have "visit (Suc n) deps ds stack (d # d') \<noteq> None"
      if "visit n deps (deps d) (stack @ [d]) done = Some (Inr d')" for d'
      using "3.IH"(3) [OF f that] "3.prems" by simp
    ultimately show ?thesis using f by (auto split: option.splits sum.splits)
  qed
qed

lemma cycle_through_cycle: "cycle_through fuel deps start = Some c \<Longrightarrow> is_cycle deps c"
  using visit_cycle [of fuel deps "[start]" "[]" "[]" c]
  by (auto simp: cycle_through_def split: option.splits sum.splits)

text \<open>A node every relevant step from which stays relevant has a cycle behind it.\<close>

lemma cycle_through_found:
  assumes N: "finite N" "\<And>x. x \<in> N \<Longrightarrow> set (deps x) \<subseteq> N" "start \<in> N" "card N < fuel"
    and P: "P start" "\<And>x. x \<in> N \<Longrightarrow> P x \<Longrightarrow> \<exists>d \<in> set (deps x). P d"
  shows "\<exists>c. cycle_through fuel deps start = Some c"
proof -
  obtain r where r: "visit fuel deps [start] [] [] = Some r"
    using visit_enough [of N deps "[start]" "[]" fuel "[]"] N by auto
  show ?thesis
  proof (cases r)
    case (Inl c)
    with r show ?thesis by (simp add: cycle_through_def)
  next
    case (Inr ds)
    from visit_settled [of fuel deps "[start]" "[]" "[]" ds] r Inr
    have t: "topo_from deps {} (rev ds)" "start \<in> set ds" by auto
    let ?Q = "\<lambda>x. x \<in> N \<and> P x"
    have "\<forall>x \<in> set (rev ds). ?Q x \<longrightarrow> (\<exists>d \<in> set (deps x). ?Q d)"
      using N(2) P(2) by (meson subsetD)
    from topo_no_blocked [OF t(1) this] t(2) N(3) P(1) have False by auto
    then show ?thesis ..
  qed
qed

subsection \<open>The order\<close>

definition deps_within :: "'m list \<Rightarrow> 'm option \<Rightarrow> ('m \<Rightarrow> 'm list) \<Rightarrow> bool" where
  "deps_within alive lst deps \<longleftrightarrow>
     (\<forall>m \<in> set alive. set (deps m) \<subseteq> set alive \<and> (Some m \<noteq> lst \<longrightarrow> (\<forall>d \<in> set (deps m). Some d \<noteq> lst))
        \<and> m \<notin> set (deps m))"

lemma build_order_left:
  assumes dw: "deps_within alive lst deps"
    and out: "out = kahn alive lst deps (filter (\<lambda>m. Some m \<noteq> lst \<and> deps m = []) alive) []"
    and x: "x \<in> set alive" "Some x \<noteq> lst" "x \<notin> set out"
  shows "\<exists>c. cycle_through (length alive + 2) deps x = Some c"
proof (rule cycle_through_found [where N = "set alive" and P = "\<lambda>m. Some m \<noteq> lst \<and> m \<notin> set out"])
  show "card (set alive) < length alive + 2" using card_length [of alive] by simp
  fix m
  assume m: "m \<in> set alive" "Some m \<noteq> lst \<and> m \<notin> set out"
  have "kahn_inv alive lst deps [] out" unfolding out by (rule kahn_invariant [OF kahn_inv_start])
  with m have "\<not> set (deps m) \<subseteq> set out" by (auto simp: kahn_inv_def)
  then obtain d where "d \<in> set (deps m)" "d \<notin> set out" by auto
  with dw m show "\<exists>d \<in> set (deps m). Some d \<noteq> lst \<and> d \<notin> set out"
    by (auto simp: deps_within_def)
next
  show "set (deps m) \<subseteq> set alive" if "m \<in> set alive" for m
    using dw that by (simp add: deps_within_def)
  show "Some x \<noteq> lst \<and> x \<notin> set out" "x \<in> set alive" "finite (set alive)" using x by simp_all
qed

lemma build_order_result:
  assumes dw: "deps_within alive lst deps" and d: "distinct alive"
    and r: "build_order alive lst deps = (out, cyc, unplaced)"
  shows "unplaced = []" and "cyc = Some c \<Longrightarrow> is_cycle deps c"
    and "distinct out" and "set out \<subseteq> set alive"
    and "cyc = None \<Longrightarrow> set out = set alive \<and> topo_from deps {} out
      \<and> (\<forall>l. lst = Some l \<longrightarrow> l \<in> set alive \<longrightarrow> last out = l)"
proof -
  define ks where "ks = kahn alive lst deps (filter (\<lambda>m. Some m \<noteq> lst \<and> deps m = []) alive) []"
  have inv: "kahn_inv alive lst deps [] ks" unfolding ks_def by (rule kahn_invariant [OF kahn_inv_start])
  define left where "left = filter (\<lambda>m. m \<notin> set out) alive"
  have out: "out = (case lst of None \<Rightarrow> ks | Some l \<Rightarrow> if l \<in> set alive then ks @ [l] else ks)"
    using r by (auto simp: build_order_def ks_def Let_def split: list.splits option.splits)
  have res: "(cyc, unplaced) = (case left of [] \<Rightarrow> (None, [])
      | x # _ \<Rightarrow> (case cycle_through (length alive + 2) deps x of Some c \<Rightarrow> (Some c, []) | None \<Rightarrow> (None, left)))"
    using r by (auto simp: build_order_def ks_def left_def out Let_def split: list.splits option.splits)
  have found: "\<exists>c. cycle_through (length alive + 2) deps x = Some c" if "x \<in> set left" for x
    using that build_order_left [OF dw ks_def, of x] by (auto simp: left_def out split: option.splits if_splits)
  have cases: "left = [] \<and> cyc = None \<and> unplaced = []
      \<or> (\<exists>x c. cycle_through (length alive + 2) deps x = Some c \<and> cyc = Some c \<and> unplaced = [])"
  proof (cases left)
    case Nil
    with res show ?thesis by simp
  next
    case (Cons x xs)
    then obtain c where "cycle_through (length alive + 2) deps x = Some c" using found [of x] by auto
    with res Cons show ?thesis by auto
  qed
  then show "unplaced = []" by auto
  show "is_cycle deps c" if "cyc = Some c"
    using cases that cycle_through_cycle by auto
  show "distinct out" "set out \<subseteq> set alive"
    using inv by (auto simp: out kahn_inv_def split: option.splits)
  assume "cyc = None"
  then have "left = []" using cases by auto
  then have "set alive \<subseteq> set out" by (auto simp: left_def filter_empty_conv)
  moreover have "topo_from deps {} out"
  proof (cases "\<exists>l. lst = Some l \<and> l \<in> set alive")
    case True
    then obtain l where l: "lst = Some l" "l \<in> set alive" "out = ks @ [l]" by (auto simp: out)
    have "set (deps l) \<subseteq> set ks"
      using dw l \<open>set alive \<subseteq> set out\<close> by (fastforce simp: deps_within_def)
    with inv l show ?thesis by (simp add: kahn_inv_def topo_from_append)
  next
    case False
    with inv show ?thesis by (auto simp: out kahn_inv_def split: option.splits)
  qed
  ultimately show "set out = set alive \<and> topo_from deps {} out
      \<and> (\<forall>l. lst = Some l \<longrightarrow> l \<in> set alive \<longrightarrow> last out = l)"
    using \<open>set out \<subseteq> set alive\<close> by (auto simp: out)
qed

end
