(* ===== verification/Resolver.thy ===== *)
theory Resolver
  imports Composition BuildOrder
begin

section \<open>Resolving a composition\<close>

text \<open>
  \<open>resolve\<close>, \<open>dependsOnLast\<close>, \<open>pickImplementation\<close> and \<open>cycleReasons\<close> of \<open>pkit/resolve.go\<close>, stage by
  stage in the source's order.  Every stage returns the issues it appends; the sentences that
  are said once are remembered by the identifier the source forms for them.  The problems of
  the deployment's cloud profile (\<open>resolveCloud\<close>, \<open>pkit/cloud.go\<close>) are an argument of \<open>resolve\<close>.
\<close>

subsection \<open>Use, Choose and the survivors\<close>

text \<open>The environment is the deployment's: checked once.\<close>

definition env_issues :: "environment \<Rightarrow> issue list" where
  "env_issues e = (case e of
     OtherEnvironment s \<Rightarrow> [an_issue ''Deployment'' (NotAnEnvironment s)]
   | _ \<Rightarrow> [])"

definition env_known :: "environment \<Rightarrow> bool" where
  "env_known e = (case e of OtherEnvironment s \<Rightarrow> False | _ \<Rightarrow> True)"

text \<open>\<open>lives\<close> so far, in order; a name met again is refused and left out.\<close>

fun dedupe :: "module list \<Rightarrow> module list \<Rightarrow> module list \<times> issue list" where
  "dedupe lives [] = (lives, [])"
| "dedupe lives (m # ms) =
     (if m_name m \<in> set (map m_name lives)
      then (case dedupe lives ms of (ls, is) \<Rightarrow> (ls, an_issue ''Use'' (InUseTwice (m_name m)) # is))
      else dedupe (lives @ [m]) ms)"

definition contested :: "module list \<Rightarrow> module \<Rightarrow> bool" where
  "contested lives c \<longleftrightarrow>
     (\<exists>dl \<in> set (m_decls c). (dl_kind dl = Provides \<or> dl_kind dl = Contributes)
        \<and> length (suppliers_of lives (dl_key dl)) > 1)"

definition choose_issues :: "module list \<Rightarrow> module list \<Rightarrow> issue list" where
  "choose_issues lives chosen =
     concat (map (\<lambda>c. if c \<notin> set lives then [an_issue ''Choose'' (ChosenNotInUse (m_name c))]
                      else if \<not> contested lives c then [an_issue ''Choose'' (ChoosesNothing (m_name c))]
                      else []) chosen)"

definition chosen_in :: "module list \<Rightarrow> module list \<Rightarrow> module list" where
  "chosen_in lives chosen = filter (\<lambda>c. c \<in> set lives) chosen"

record choice =
  ch_key :: rtype
  ch_picked :: module
  ch_passed :: "string list"

text \<open>What the choices leave: the survivors per contract, who is withdrawn and for whom.\<close>

record survivors =
  sv_of :: "rtype \<Rightarrow> module list"
  sv_withdrawn :: "module list"
  sv_over :: "module \<Rightarrow> string"
  sv_choices :: "choice list"

definition choose_key :: "module list \<Rightarrow> module list \<Rightarrow> rtype \<Rightarrow> survivors \<Rightarrow> survivors" where
  "choose_key lives chosen key sv =
     (let cand = suppliers_of lives key;
          picked = filter (\<lambda>m. m \<in> set chosen) cand;
          losers = filter (\<lambda>m. m \<notin> set chosen) cand
      in if picked = [] then sv\<lparr>sv_of := (sv_of sv)(key := cand)\<rparr>
         else let sv1 = sv\<lparr>sv_of := (sv_of sv)(key := picked),
                           sv_choices := sv_choices sv
                             @ map (\<lambda>c. \<lparr>ch_key = key, ch_picked = c, ch_passed = names losers\<rparr>) picked\<rparr>
              in if length cand > 1
                 then sv1\<lparr>sv_withdrawn := sv_withdrawn sv1 @ losers,
                          sv_over := (\<lambda>m. if m \<in> set losers then and_list (module_names picked) else sv_over sv1 m)\<rparr>
                 else sv1)"

definition choose_survivors :: "module list \<Rightarrow> module list \<Rightarrow> survivors" where
  "choose_survivors lives chosen =
     fold (choose_key lives chosen) (declared_keys lives)
       \<lparr>sv_of = (\<lambda>_. []), sv_withdrawn = [], sv_over = (\<lambda>_. ''''), sv_choices = []\<rparr>"

subsection \<open>What a module says about itself\<close>

fun self_issues :: "module \<Rightarrow> (kind \<times> rtype \<times> bool) list \<Rightarrow> decl list \<Rightarrow> issue list" where
  "self_issues m once [] = []"
| "self_issues m once (dl # dls) =
     (if dl_kind dl \<notin> {Provides, Needs, Optional, Contributes} then self_issues m once dls
      else if (dl_kind dl = Needs \<or> dl_kind dl = Optional) \<and> dl_many dl \<and> has_decl_key m Contributes (dl_key dl)
        then an_issue ''Use'' (TakesOwnContribution (m_name m) (dl_key dl)) # self_issues m once dls
      else if (dl_kind dl = Needs \<or> dl_kind dl = Optional) \<and> \<not> dl_many dl \<and> has_decl_key m Provides (dl_key dl)
        then an_issue ''Use'' (NeedsOwnProvision (m_name m) (dl_key dl)) # self_issues m once dls
      else if (dl_kind dl = Needs \<or> dl_kind dl = Optional) \<and> \<not> dl_many dl \<and> has_decl_key m Contributes (dl_key dl)
        then an_issue ''Use'' (NeedsOwnContribution (m_name m) (dl_key dl)) # self_issues m once dls
      else if dl_kind dl = Provides \<and> has_decl_key m Contributes (dl_key dl)
        then an_issue ''Use'' (ProvidesAndContributes (m_name m) (dl_key dl)) # self_issues m once dls
      else let said = (dl_kind dl, dl_key dl, (dl_kind dl = Needs \<or> dl_kind dl = Optional) \<and> dl_many dl)
           in if said \<in> set once
              then an_issue ''Use'' (DeclaredTwice (m_name m) (contract_of dl)) # self_issues m once dls
              else self_issues m (said # once) dls)"

definition self_sweep :: "module list \<Rightarrow> issue list" where
  "self_sweep lives = concat (map (\<lambda>m. self_issues m [] (m_decls m)) lives)"

subsection \<open>After everything\<close>

definition after_modules :: "module list \<Rightarrow> module list" where
  "after_modules lives = filter (\<lambda>m. has_decl m After) lives"

definition after_issues :: "module list \<Rightarrow> issue list" where
  "after_issues lives =
     (case after_modules lives of
        [] \<Rightarrow> []
      | [a] \<Rightarrow> []
      | [a, b] \<Rightarrow> [an_issue ''Use'' (TwoAfterEverything (m_name a) (m_name b))]
      | as \<Rightarrow> [an_issue ''Use'' (ManyAfterEverything (and_list (names as)))])"

definition after_last :: "module list \<Rightarrow> module option" where
  "after_last lives = (case after_modules lives of [] \<Rightarrow> None | a # _ \<Rightarrow> Some a)"

definition after_refused :: "module list \<Rightarrow> module list" where
  "after_refused lives = tl (after_modules lives)"

subsection \<open>One contract, one answer\<close>

text \<open>What \<open>failOnce\<close> remembers: the identifiers the source builds from the printed type.\<close>

datatype said = SaidMixed string | SaidMissing string string | SaidAmbiguous string

definition key_providers :: "module list \<Rightarrow> rtype \<Rightarrow> module list" where
  "key_providers lives key = filter (\<lambda>m. has_decl_key m Provides key) (suppliers_of lives key)"

definition key_contributors :: "module list \<Rightarrow> rtype \<Rightarrow> module list" where
  "key_contributors lives key = filter (\<lambda>m. has_decl_key m Contributes key) (suppliers_of lives key)"

definition is_mixed :: "module list \<Rightarrow> rtype \<Rightarrow> bool" where
  "is_mixed lives key \<longleftrightarrow>
     (let ps = key_providers lives key; cs = key_contributors lives key
      in \<not> (ps = [] \<or> cs = [] \<or> (length ps = 1 \<and> length cs = 1 \<and> hd ps = hd cs)))"

definition mixed_keys :: "module list \<Rightarrow> rtype list" where
  "mixed_keys lives = filter (is_mixed lives) (declared_keys lives)"

fun mixed_issues :: "module list \<Rightarrow> rtype list \<Rightarrow> said list \<Rightarrow> issue list \<times> said list" where
  "mixed_issues lives [] said = ([], said)"
| "mixed_issues lives (key # keys) said =
     (if SaidMixed (type_string key) \<in> set said then mixed_issues lives keys said
      else case mixed_issues lives keys (SaidMixed (type_string key) # said) of (is, said') \<Rightarrow>
        (an_issue ''Use'' (ProvidedAndContributed key (and_list (module_names (key_providers lives key)))
            (and_list (module_names (key_contributors lives key)))) # is, said'))"

subsection \<open>Settling the single needs\<close>

record rcontext =
  cx_app :: string
  cx_lives :: "module list"
  cx_surviving :: "rtype \<Rightarrow> module list"
  cx_over :: "module \<Rightarrow> string"
  cx_mixed :: "rtype list"
  cx_last :: "module option"

record settling =
  st_from :: "module \<times> rtype \<Rightarrow> module option"
  st_dead :: "module list"
  st_refused :: "module list"
  st_issues :: "issue list"
  st_said :: "said list"

definition fail :: "string \<Rightarrow> sentence \<Rightarrow> settling \<Rightarrow> settling" where
  "fail method text st = st\<lparr>st_issues := st_issues st @ [an_issue method text]\<rparr>"

definition fail_once :: "said \<Rightarrow> string \<Rightarrow> sentence \<Rightarrow> settling \<Rightarrow> settling" where
  "fail_once i method text st =
     (if i \<in> set (st_said st) then st
      else fail method text (st\<lparr>st_said := i # st_said st\<rparr>))"

text \<open>\<open>dead[m], refused[m] = true, true\<close>.\<close>

definition refuse :: "module \<Rightarrow> settling \<Rightarrow> settling" where
  "refuse m st = st\<lparr>st_dead := m # st_dead st, st_refused := m # st_refused st\<rparr>"

definition missing_need :: "rcontext \<Rightarrow> module \<Rightarrow> decl \<Rightarrow> settling \<Rightarrow> settling" where
  "missing_need cx m dl st =
     (let sup = cx_surviving cx (dl_key dl);
          i = SaidMissing (m_name m) (type_string (dl_key dl))
      in if sup = []
         then fail_once i ''Use'' (MissingProvider (m_name m) (dl_key dl) (fix_for (cx_app cx) (dl_key dl))) st
         else case filter (\<lambda>s. s \<notin> set (st_refused st)) sup of
                [] \<Rightarrow> st
              | s # _ \<Rightarrow> fail_once i ''Use''
                  (ProviderWithdrawn (m_name m) (dl_key dl) (m_name s) (cx_over cx s)) st)"

definition ambiguous :: "rcontext \<Rightarrow> decl \<Rightarrow> module list \<Rightarrow> settling \<Rightarrow> settling" where
  "ambiguous cx dl cand st =
     (let i = SaidAmbiguous (type_string (dl_key dl))
      in if dl_key dl \<in> set (cx_mixed cx) then st
         else if all_contributors cand \<and> dl_kind dl = Needs
         then fail_once i ''Choose''
                (TakesOneOfMany (first_taker (cx_lives cx) (dl_key dl)) (dl_key dl) (contributors_say cand)) st
         else fail_once i ''Choose'' (HasMany (dl_key dl) (and_list (module_names cand))) st)"

text \<open>One declaration: the state, whether anything changed, and whether the loop is left.\<close>

definition settle_decl :: "rcontext \<Rightarrow> module \<Rightarrow> decl \<Rightarrow> settling \<Rightarrow> settling \<times> bool \<times> bool" where
  "settle_decl cx m dl st =
     (if dl_many dl \<or> dl_kind dl \<notin> {Needs, Optional} then (st, False, False)
      else case st_from st (m, dl_key dl) of
        Some s \<Rightarrow>
          if s \<notin> set (st_dead st) then (st, False, False)
          else if dl_kind dl = Needs then (refuse m st, True, True)
          else (st\<lparr>st_from := (st_from st)((m, dl_key dl) := None)\<rparr>, True, True)
      | None \<Rightarrow>
          (case surviving_of (cx_surviving cx (dl_key dl)) (st_dead st) of
             [s] \<Rightarrow> (st\<lparr>st_from := (st_from st)((m, dl_key dl) := Some s)\<rparr>, False, False)
           | [] \<Rightarrow> if dl_kind dl = Optional
                   then (st\<lparr>st_from := (st_from st)((m, dl_key dl) := None)\<rparr>, False, False)
                   else (refuse m (missing_need cx m dl st), True, False)
           | cand \<Rightarrow> (refuse m (ambiguous cx dl cand st), True, False)))"

fun settle_decls :: "rcontext \<Rightarrow> module \<Rightarrow> decl list \<Rightarrow> settling \<Rightarrow> settling \<times> bool" where
  "settle_decls cx m [] st = (st, False)"
| "settle_decls cx m (dl # dls) st =
     (case settle_decl cx m dl st of (st', changed, left) \<Rightarrow>
        if left then (st', changed)
        else case settle_decls cx m dls st' of (st'', changed') \<Rightarrow> (st'', changed \<or> changed'))"

text \<open>\<open>dependsOnLast\<close>: the ways a module would be placed after the last one.\<close>

definition last_issue :: "module \<Rightarrow> (module \<times> rtype \<Rightarrow> module option) \<Rightarrow> module \<Rightarrow> decl \<Rightarrow> sentence option" where
  "last_issue l wired m dl =
     (if dl_kind dl \<noteq> Needs \<and> dl_kind dl \<noteq> Optional then None
      else if dl_many dl then
        (if has_decl_key l Contributes (dl_key dl)
         then Some (TakesFromLast (m_name m) (dl_key dl) (m_name l)) else None)
      else if wired (m, dl_key dl) = Some l
        then Some (DependsOnLast (m_name m) (if dl_kind dl = Optional then ''uses'' else ''needs'')
                     (dl_key dl) (m_name l))
      else None)"

definition depends_on_last :: "module \<Rightarrow> (module \<times> rtype \<Rightarrow> module option) \<Rightarrow> module \<Rightarrow> issue list" where
  "depends_on_last l wired m =
     concat (map (\<lambda>dl. case last_issue l wired m dl of None \<Rightarrow> [] | Some s \<Rightarrow> [an_issue ''Use'' s]) (m_decls m))"

definition settle_module :: "rcontext \<Rightarrow> module \<Rightarrow> settling \<Rightarrow> settling \<times> bool" where
  "settle_module cx m st =
     (if m \<in> set (st_dead st) then (st, False)
      else case settle_decls cx m (m_decls m) st of (st1, changed) \<Rightarrow>
        (case cx_last cx of
           None \<Rightarrow> (st1, changed)
         | Some l \<Rightarrow>
             if m \<in> set (st_dead st1) \<or> m = l then (st1, changed)
             else (let is = depends_on_last l (st_from st1) m
                   in if is = [] then (st1, changed)
                      else (refuse m (st1\<lparr>st_issues := st_issues st1 @ is\<rparr>), True))))"

fun settle_sweep :: "rcontext \<Rightarrow> module list \<Rightarrow> settling \<Rightarrow> settling \<times> bool" where
  "settle_sweep cx [] st = (st, False)"
| "settle_sweep cx (m # ms) st =
     (case settle_module cx m st of (st', changed) \<Rightarrow>
        case settle_sweep cx ms st' of (st'', changed') \<Rightarrow> (st'', changed \<or> changed'))"

text \<open>
  What a sweep that changes something makes smaller: the modules still alive, and, with the
  same modules alive, the settled edges whose supplier has died.
\<close>

definition alive_in :: "module list \<Rightarrow> settling \<Rightarrow> module list" where
  "alive_in ms st = filter (\<lambda>m. m \<notin> set (st_dead st)) ms"

definition stale :: "settling \<Rightarrow> module \<times> rtype \<Rightarrow> bool" where
  "stale st e \<longleftrightarrow> (\<exists>s. st_from st e = Some s \<and> s \<in> set (st_dead st))"

definition stale_edges :: "module list \<Rightarrow> settling \<Rightarrow> (module \<times> rtype) list" where
  "stale_edges ms st = filter (stale st) (concat (map (\<lambda>m. map (\<lambda>dl. (m, dl_key dl)) (m_decls m)) ms))"

subsection \<open>Every change brings the sweep closer to its end\<close>

text \<open>\<open>st'\<close> is reached from \<open>st\<close> by steps of the sweep.\<close>

definition grows :: "settling \<Rightarrow> settling \<Rightarrow> bool" where
  "grows st st' \<longleftrightarrow> set (st_dead st) \<subseteq> set (st_dead st')
     \<and> (set (st_dead st') = set (st_dead st) \<longrightarrow> (\<forall>e. stale st' e \<longrightarrow> stale st e))"

lemma grows_refl [simp]: "grows st st"
  by (simp add: grows_def)

lemma grows_trans: "grows a b \<Longrightarrow> grows b c \<Longrightarrow> grows a c"
  unfolding grows_def by blast

lemma fail_once_frame [simp]:
  "st_dead (fail_once i mth txt st) = st_dead st" "st_refused (fail_once i mth txt st) = st_refused st"
  "st_from (fail_once i mth txt st) = st_from st"
  by (simp_all add: fail_once_def fail_def)

lemma missing_need_frame [simp]:
  "st_dead (missing_need cx m dl st) = st_dead st" "st_refused (missing_need cx m dl st) = st_refused st"
  "st_from (missing_need cx m dl st) = st_from st"
  by (simp_all add: missing_need_def Let_def split: list.split)

lemma ambiguous_frame [simp]:
  "st_dead (ambiguous cx dl cand st) = st_dead st" "st_refused (ambiguous cx dl cand st) = st_refused st"
  "st_from (ambiguous cx dl cand st) = st_from st"
  by (simp_all add: ambiguous_def Let_def)

lemma refuse_frame [simp]:
  "st_dead (refuse m st) = m # st_dead st" "st_refused (refuse m st) = m # st_refused st"
  "st_from (refuse m st) = st_from st" "st_issues (refuse m st) = st_issues st" "st_said (refuse m st) = st_said st"
  by (simp_all add: refuse_def)

text \<open>The ways one declaration ends, as the proofs below case on them.\<close>

lemma settle_decl_cases:
  obtains (skip) "dl_many dl \<or> dl_kind dl \<notin> {Needs, Optional}" "settle_decl cx m dl st = (st, False, False)"
  | (kept) s where "\<not> dl_many dl" "dl_kind dl \<in> {Needs, Optional}" "st_from st (m, dl_key dl) = Some s" "s \<notin> set (st_dead st)"
      "settle_decl cx m dl st = (st, False, False)"
  | (orphan) s where "\<not> dl_many dl" "dl_kind dl = Needs" "st_from st (m, dl_key dl) = Some s" "s \<in> set (st_dead st)"
      "settle_decl cx m dl st = (refuse m st, True, True)"
  | (reset) s where "\<not> dl_many dl" "dl_kind dl = Optional" "st_from st (m, dl_key dl) = Some s" "s \<in> set (st_dead st)"
      "settle_decl cx m dl st = (st\<lparr>st_from := (st_from st)((m, dl_key dl) := None)\<rparr>, True, True)"
  | (wired) s where "\<not> dl_many dl" "dl_kind dl \<in> {Needs, Optional}" "st_from st (m, dl_key dl) = None"
      "surviving_of (cx_surviving cx (dl_key dl)) (st_dead st) = [s]"
      "settle_decl cx m dl st = (st\<lparr>st_from := (st_from st)((m, dl_key dl) := Some s)\<rparr>, False, False)"
  | (absent) "\<not> dl_many dl" "dl_kind dl = Optional" "st_from st (m, dl_key dl) = None"
      "surviving_of (cx_surviving cx (dl_key dl)) (st_dead st) = []"
      "settle_decl cx m dl st = (st\<lparr>st_from := (st_from st)((m, dl_key dl) := None)\<rparr>, False, False)"
  | (missing) "\<not> dl_many dl" "dl_kind dl = Needs" "st_from st (m, dl_key dl) = None"
      "surviving_of (cx_surviving cx (dl_key dl)) (st_dead st) = []"
      "settle_decl cx m dl st = (refuse m (missing_need cx m dl st), True, False)"
  | (many) a b cand where "\<not> dl_many dl" "dl_kind dl \<in> {Needs, Optional}" "st_from st (m, dl_key dl) = None"
      "surviving_of (cx_surviving cx (dl_key dl)) (st_dead st) = a # b # cand"
      "settle_decl cx m dl st = (refuse m (ambiguous cx dl (a # b # cand) st), True, False)"
proof (cases "dl_many dl \<or> dl_kind dl \<notin> {Needs, Optional}")
  case True
  then show thesis by (intro skip) (auto simp: settle_decl_def)
next
  case False
  then have k: "\<not> dl_many dl" "dl_kind dl \<in> {Needs, Optional}" by auto
  show thesis
  proof (cases "st_from st (m, dl_key dl)")
    case (Some s)
    show thesis
    proof (cases "s \<in> set (st_dead st)")
      case True
      with k Some show thesis by (cases "dl_kind dl = Needs") (auto simp: settle_decl_def intro: orphan reset)
    next
      case False
      with k Some show thesis by (intro kept) (auto simp: settle_decl_def)
    qed
  next
    case None
    define cand where "cand = surviving_of (cx_surviving cx (dl_key dl)) (st_dead st)"
    consider "cand = []" | s where "cand = [s]" | a b rest where "cand = a # b # rest"
      by (metis list.exhaust)
    then show thesis
    proof cases
      case 1
      with k None show thesis
        by (cases "dl_kind dl = Needs") (auto simp: settle_decl_def cand_def intro: absent missing)
    next
      case 2
      with k None show thesis by (intro wired [of s]) (auto simp: settle_decl_def cand_def)
    next
      case 3
      with k None show thesis by (intro many [of a b rest]) (auto simp: settle_decl_def cand_def)
    qed
  qed
qed

text \<open>A step of the sweep: a change kills a living module or clears a stale edge.\<close>

definition progress :: "module \<Rightarrow> settling \<Rightarrow> settling \<Rightarrow> bool" where
  "progress m st st' \<longleftrightarrow>
     (m \<notin> set (st_dead st) \<and> m \<in> set (st_dead st'))
   \<or> (\<exists>dl \<in> set (m_decls m). stale st (m, dl_key dl) \<and> \<not> stale st' (m, dl_key dl))"

lemma surviving_single: "surviving_of xs dead = [s] \<Longrightarrow> s \<in> set xs \<and> s \<notin> set dead"
  by (metis list.set_intros(1) set_surviving_of)

lemma settle_decl_grows: "settle_decl cx m dl st = (st', changed, left) \<Longrightarrow> grows st st'"
  by (rule settle_decl_cases [of dl cx m st])
    (auto simp: grows_def stale_def dest: surviving_single split: if_splits)

lemma settle_decls_grows: "settle_decls cx m dls st = (st', changed) \<Longrightarrow> grows st st'"
proof (induction dls arbitrary: st st' changed)
  case (Cons dl dls)
  obtain s1 c l where s1: "settle_decl cx m dl st = (s1, c, l)" by (cases "settle_decl cx m dl st") auto
  from settle_decl_grows [OF s1] Cons s1 show ?case
    by (auto split: if_splits prod.splits intro: grows_trans)
qed simp

lemma progress_later: "progress m s1 s2 \<Longrightarrow> grows st s1 \<Longrightarrow> set (st_dead s1) = set (st_dead st) \<Longrightarrow> progress m st s2"
  by (auto simp: progress_def grows_def)

lemma progress_first: "progress m st s1 \<Longrightarrow> grows s1 s2 \<Longrightarrow> set (st_dead s2) = set (st_dead s1) \<Longrightarrow> progress m st s2"
  by (fastforce simp: progress_def grows_def)

lemma settle_decl_progress:
  assumes "settle_decl cx m dl st = (st', True, left)" "dl \<in> set (m_decls m)" "m \<notin> set (st_dead st)"
  shows "progress m st st'"
  using assms by (cases rule: settle_decl_cases [of dl cx m st]) (auto simp: progress_def stale_def)

lemma settle_decl_dead:
  "settle_decl cx m dl st = (st', changed, left) \<Longrightarrow> set (st_dead st') \<subseteq> insert m (set (st_dead st))"
  by (rule settle_decl_cases [of dl cx m st]) auto

lemma settle_decl_quiet: "settle_decl cx m dl st = (st', False, left) \<Longrightarrow> st_dead st' = st_dead st \<and> \<not> left"
  by (rule settle_decl_cases [of dl cx m st]) auto

lemma settle_decls_dead:
  "settle_decls cx m dls st = (st', changed) \<Longrightarrow> set (st_dead st') \<subseteq> insert m (set (st_dead st))"
proof (induction dls arbitrary: st st' changed)
  case (Cons dl dls)
  obtain s1 c l where s1: "settle_decl cx m dl st = (s1, c, l)" by (cases "settle_decl cx m dl st") auto
  from settle_decl_dead [OF s1] Cons s1 show ?case by (fastforce split: if_splits prod.splits)
qed auto

lemma settle_decls_progress:
  assumes "settle_decls cx m dls st = (st', True)" "set dls \<subseteq> set (m_decls m)" "m \<notin> set (st_dead st)"
  shows "progress m st st'"
proof (cases "m \<in> set (st_dead st')")
  case True
  with assms show ?thesis by (simp add: progress_def)
next
  case False
  with assms show ?thesis
  proof (induction dls arbitrary: st)
    case (Cons dl dls)
    obtain s1 c l where s1: "settle_decl cx m dl st = (s1, c, l)" by (cases "settle_decl cx m dl st") auto
    show ?case
    proof (cases l)
      case True
      with s1 Cons.prems show ?thesis using settle_decl_progress [of cx m dl st st' True] by auto
    next
      case l: False
      obtain c2 where s2: "settle_decls cx m dls s1 = (st', c2)" and c: "c \<or> c2"
        using Cons.prems(1) s1 l by (auto split: prod.splits)
      have g1: "grows st s1" and g2: "grows s1 st'"
        using settle_decl_grows [OF s1] settle_decls_grows [OF s2] by auto
      have m1: "m \<notin> set (st_dead s1)" using g2 Cons.prems(4) by (auto simp: grows_def)
      have d1: "set (st_dead s1) = set (st_dead st)"
        using g1 settle_decl_dead [OF s1] m1 by (auto simp: grows_def)
      have d2: "set (st_dead st') = set (st_dead s1)"
        using g2 settle_decls_dead [OF s2] Cons.prems(4) by (auto simp: grows_def)
      show ?thesis
      proof (cases c)
        case True
        with s1 Cons.prems have "progress m st s1" by (auto intro: settle_decl_progress)
        then show ?thesis by (rule progress_first [OF _ g2 d2])
      next
        case False
        with c Cons.IH [of s1] s2 Cons.prems m1 have "progress m s1 st'" by auto
        then show ?thesis by (rule progress_later [OF _ g1 d1])
      qed
    qed
  qed simp
qed

lemma settle_module_frame:
  assumes "settle_module cx m st = (st', changed)"
  shows "grows st st'" and "set (st_dead st') \<subseteq> insert m (set (st_dead st))" and "changed \<Longrightarrow> progress m st st'"
proof -
  obtain s1 c where s1: "settle_decls cx m (m_decls m) st = (s1, c)" by (cases "settle_decls cx m (m_decls m) st")
  note f = settle_decls_grows [OF s1] settle_decls_dead [OF s1] settle_decls_progress [of cx m "m_decls m" st s1]
  have g: "grows st (refuse m (s1\<lparr>st_issues := is\<rparr>))" if "m \<notin> set (st_dead s1)" for "is"
    using f(1) that by (auto simp: grows_def)
  show "grows st st'" "set (st_dead st') \<subseteq> insert m (set (st_dead st))"
    using assms s1 f g by (auto simp: settle_module_def Let_def split: if_splits option.splits)
  show "progress m st st'" if changed
    using assms s1 f that by (auto simp: settle_module_def Let_def progress_def split: if_splits option.splits)
qed

lemma settle_sweep_frame:
  "settle_sweep cx ms st = (st', changed) \<Longrightarrow> grows st st' \<and> set (st_dead st') \<subseteq> set ms \<union> set (st_dead st)"
proof (induction ms arbitrary: st st' changed)
  case (Cons m ms)
  obtain s1 c where s1: "settle_module cx m st = (s1, c)" by (cases "settle_module cx m st")
  obtain s2 c2 where s2: "settle_sweep cx ms s1 = (s2, c2)" by (cases "settle_sweep cx ms s1")
  from settle_module_frame [OF s1] Cons.IH [OF s2] Cons.prems s1 s2 show ?case
    by (auto intro: grows_trans)
qed simp

lemma settle_sweep_progress:
  assumes "settle_sweep cx ms st = (st', True)"
  shows "\<exists>m \<in> set ms. progress m st st'"
proof (cases "\<exists>m \<in> set ms. m \<notin> set (st_dead st) \<and> m \<in> set (st_dead st')")
  case True
  then show ?thesis by (auto simp: progress_def)
next
  case False
  with assms show ?thesis
  proof (induction ms arbitrary: st)
    case (Cons m ms)
    obtain s1 c where s1: "settle_module cx m st = (s1, c)" by (cases "settle_module cx m st")
    obtain c2 where s2: "settle_sweep cx ms s1 = (st', c2)" and c: "c \<or> c2"
      using Cons.prems(1) s1 by (auto split: prod.splits)
    note f1 = settle_module_frame [OF s1] and f2 = settle_sweep_frame [OF s2]
    have d1: "set (st_dead s1) = set (st_dead st)"
      using f1(1,2) f2 Cons.prems(2) by (auto simp: grows_def)
    have d2: "set (st_dead st') = set (st_dead s1)"
      using f2 d1 Cons.prems(2) by (auto simp: grows_def)
    show ?case
    proof (cases c)
      case True
      with f1(3) have "progress m st s1" by simp
      with f2 d2 show ?thesis by (auto intro: progress_first)
    next
      case False
      with c Cons.IH [of s1] s2 Cons.prems d1 obtain m' where "m' \<in> set ms" "progress m' s1 st'" by auto
      with f1(1) d1 show ?thesis by (auto intro: progress_later)
    qed
  qed simp
qed

lemma settle_sweep_decreases:
  assumes "settle_sweep cx ms st = (st', True)"
  shows "length (alive_in ms st') < length (alive_in ms st)
    \<or> (length (alive_in ms st') = length (alive_in ms st) \<and> length (stale_edges ms st') < length (stale_edges ms st))"
proof -
  from settle_sweep_frame [OF assms] have g: "grows st st'" "set (st_dead st') \<subseteq> set ms \<union> set (st_dead st)" by auto
  from settle_sweep_progress [OF assms] obtain m where m: "m \<in> set ms" "progress m st st'" by auto
  show ?thesis
  proof (cases "set (st_dead st') = set (st_dead st)")
    case True
    then have a: "alive_in ms st' = alive_in ms st" by (simp add: alive_in_def)
    from True m obtain dl where dl: "dl \<in> set (m_decls m)" "stale st (m, dl_key dl)" "\<not> stale st' (m, dl_key dl)"
      by (auto simp: progress_def)
    have "length (stale_edges ms st') < length (stale_edges ms st)"
      unfolding stale_edges_def
      by (rule length_filter_strict [where y = "(m, dl_key dl)"]) (use g True m dl in \<open>auto simp: grows_def\<close>)
    with a show ?thesis by simp
  next
    case False
    with g obtain x where x: "x \<in> set ms" "x \<in> set (st_dead st')" "x \<notin> set (st_dead st)" by (auto simp: grows_def)
    have "length (alive_in ms st') < length (alive_in ms st)"
      unfolding alive_in_def
      by (rule length_filter_strict [where y = x]) (use g x in \<open>auto simp: grows_def\<close>)
    then show ?thesis by simp
  qed
qed

subsection \<open>The loop\<close>

function settle_loop :: "rcontext \<Rightarrow> settling \<Rightarrow> settling" where
  "settle_loop cx st =
     (case settle_sweep cx (cx_lives cx) st of (st', changed) \<Rightarrow>
        if changed then settle_loop cx st' else st')"
  by pat_completeness auto
termination
proof (relation "measures [\<lambda>(cx, st). length (alive_in (cx_lives cx) st), \<lambda>(cx, st). length (stale_edges (cx_lives cx) st)]", goal_cases)
  case (2 cx st st' changed)
  then have "settle_sweep cx (cx_lives cx) st = (st', True)" by (cases changed) auto
  from settle_sweep_decreases [OF this] show ?case by auto
qed simp

declare settle_loop.simps [simp del]

end
