(* ===== verification/SweepFacts.thy ===== *)
theory SweepFacts
  imports Resolver
begin

section \<open>What the sweep settles\<close>

text \<open>
  The invariant of the settling loop (an edge to a living supplier is the one living supplier;
  a module is dead because Choose withdrew it or because a refusal was said) and its last
  state: every living module's single needs answered by the one living supplier, and
  nobody but the last module placed after it.
\<close>

subsection \<open>Whatever the steps keep, the loop keeps\<close>

locale sweep_keeps =
  fixes cx :: rcontext and P :: "settling \<Rightarrow> bool"
  assumes decl: "P st \<Longrightarrow> settle_decl cx m dl st = (st', changed, left) \<Longrightarrow> P st'"
    and placed_last: "P st \<Longrightarrow> depends_on_last l (st_from st) m \<noteq> [] \<Longrightarrow>
      P (refuse m (st\<lparr>st_issues := st_issues st @ depends_on_last l (st_from st) m\<rparr>))"
begin

lemma decls: "P st \<Longrightarrow> settle_decls cx m dls st = (st', changed) \<Longrightarrow> P st'"
proof (induction dls arbitrary: st st' changed)
  case (Cons dl dls)
  obtain s1 c l where s1: "settle_decl cx m dl st = (s1, c, l)" by (cases "settle_decl cx m dl st") auto
  from decl [OF Cons.prems(1) s1] Cons s1 show ?case
    by (auto split: if_splits prod.splits)
qed simp

lemma module:
  assumes "P st" and r: "settle_module cx m st = (st', changed)"
  shows "P st'"
proof -
  obtain s1 c where s1: "settle_decls cx m (m_decls m) st = (s1, c)" by (cases "settle_decls cx m (m_decls m) st")
  have "P s1" by (rule decls [OF assms(1) s1])
  then show ?thesis
    using r s1 assms(1) placed_last by (auto simp: settle_module_def Let_def split: if_splits option.splits)
qed

lemma sweep: "P st \<Longrightarrow> settle_sweep cx ms st = (st', changed) \<Longrightarrow> P st'"
proof (induction ms arbitrary: st st' changed)
  case (Cons m ms)
  obtain s1 c where s1: "settle_module cx m st = (s1, c)" by (cases "settle_module cx m st")
  from module [OF Cons.prems(1) s1] Cons s1 show ?case
    by (auto split: prod.splits)
qed simp

lemma loop: "P st \<Longrightarrow> P (settle_loop cx st)"
proof -
  have "c = cx \<longrightarrow> P s \<longrightarrow> P (settle_loop c s)" for c s
  proof (induction c s rule: settle_loop.induct)
    case (1 c s)
    obtain s1 ch where s1: "settle_sweep c (cx_lives c) s = (s1, ch)" by (cases "settle_sweep c (cx_lives c) s")
    from s1 "1.IH" [OF s1 [symmetric]] sweep [of s "cx_lives c" s1 ch] show ?case
      by (subst settle_loop.simps) auto
  qed
  then show "P st \<Longrightarrow> P (settle_loop cx st)" by simp
qed

end

subsection \<open>The invariant\<close>

text \<open>\<open>told\<close>: something refusing the composition has been said, before the sweep or in it.\<close>

definition told :: "bool \<Rightarrow> settling \<Rightarrow> bool" where
  "told before st \<longleftrightarrow> before \<or> st_issues st \<noteq> []"

definition edges_ok :: "rcontext \<Rightarrow> settling \<Rightarrow> bool" where
  "edges_ok cx st \<longleftrightarrow> (\<forall>m key s. st_from st (m, key) = Some s \<longrightarrow>
     (s \<notin> set (st_dead st) \<longrightarrow> surviving_of (cx_surviving cx key) (st_dead st) = [s])
   \<and> (s \<in> set (st_dead st) \<longrightarrow> s \<in> set (st_refused st)))"

definition deaths_ok :: "module list \<Rightarrow> bool \<Rightarrow> settling \<Rightarrow> bool" where
  "deaths_ok withdrawn before st \<longleftrightarrow>
     set (st_dead st) = set withdrawn \<union> set (st_refused st)
   \<and> (st_refused st \<noteq> [] \<longrightarrow> told before st) \<and> (st_said st \<noteq> [] \<longrightarrow> told before st)"

definition sweep_inv :: "rcontext \<Rightarrow> module list \<Rightarrow> bool \<Rightarrow> settling \<Rightarrow> bool" where
  "sweep_inv cx withdrawn before st \<longleftrightarrow>
     edges_ok cx st \<and> deaths_ok withdrawn before st \<and> (cx_mixed cx \<noteq> [] \<longrightarrow> told before st)"

lemma surviving_of_more:
  "surviving_of xs dead = [s] \<Longrightarrow> set dead \<subseteq> set dead' \<Longrightarrow> s \<notin> set dead' \<Longrightarrow> surviving_of xs dead' = [s]"
  using surviving_of_mono [of dead dead' xs] by (simp add: surviving_of_def)

lemma told_mono: "told before st \<Longrightarrow> st_issues st' = st_issues st @ is \<Longrightarrow> told before st'"
  by (auto simp: told_def)

lemma fail_once_told:
  "(st_said st \<noteq> [] \<longrightarrow> told before st) \<Longrightarrow> told before (fail_once i mth txt st)"
  by (auto simp: fail_once_def fail_def told_def)

lemma fail_once_keeps: "told before st \<Longrightarrow> told before (fail_once i mth txt st)"
  by (auto simp: fail_once_def fail_def told_def)

lemma refuse_told [simp]: "told before (refuse m st) = told before st"
  by (simp add: told_def)

lemma missing_need_told:
  assumes "deaths_ok withdrawn before st" "surviving_of (cx_surviving cx (dl_key dl)) (st_dead st) = []"

  shows "told before (missing_need cx m dl st)"
proof (cases "cx_surviving cx (dl_key dl) = []")
  case True
  with assms show ?thesis by (auto simp: missing_need_def deaths_ok_def intro: fail_once_told)
next
  case False
  show ?thesis
  proof (cases "filter (\<lambda>s. s \<notin> set (st_refused st)) (cx_surviving cx (dl_key dl))")
    case Nil
    with False have "st_refused st \<noteq> []" by (cases "cx_surviving cx (dl_key dl)") (auto split: if_splits)
    with assms False Nil show ?thesis by (auto simp: missing_need_def deaths_ok_def)
  next
    case (Cons a list)
    with assms False show ?thesis by (auto simp: missing_need_def deaths_ok_def intro: fail_once_told)
  qed
qed

lemma ambiguous_told:
  assumes "sweep_inv cx withdrawn before st"
  shows "told before (ambiguous cx dl cand st)"
  using assms by (auto simp: ambiguous_def Let_def sweep_inv_def deaths_ok_def intro: fail_once_told)

text \<open>Killing a module keeps the edges and, once something is told, the deaths accounted for.\<close>

lemma edges_ok_refuse:
  assumes "edges_ok cx st" "st_from st' = st_from st" "st_dead st' = m # st_dead st" "st_refused st' = m # st_refused st"
  shows "edges_ok cx st'"
  unfolding edges_ok_def
proof (intro allI impI)
  fix n key s
  assume e: "st_from st' (n, key) = Some s"
  have sub: "set (st_dead st) \<subseteq> set (st_dead st')" using assms by auto
  from e assms have old: "s \<notin> set (st_dead st) \<Longrightarrow> surviving_of (cx_surviving cx key) (st_dead st) = [s]"
    "s \<in> set (st_dead st) \<Longrightarrow> s \<in> set (st_refused st)"
    by (auto simp: edges_ok_def)
  have "s \<notin> set (st_dead st') \<Longrightarrow> surviving_of (cx_surviving cx key) (st_dead st') = [s]"
    using surviving_of_more [OF old(1) sub] sub by blast
  moreover have "s \<in> set (st_dead st') \<Longrightarrow> s \<in> set (st_refused st')"
    using old(2) assms by auto
  ultimately show "(s \<notin> set (st_dead st') \<longrightarrow> surviving_of (cx_surviving cx key) (st_dead st') = [s])
    \<and> (s \<in> set (st_dead st') \<longrightarrow> s \<in> set (st_refused st'))" by blast
qed

lemma sweep_inv_refuse:
  assumes "sweep_inv cx withdrawn before st" "told before st'"
    "st_from st' = st_from st" "st_dead st' = m # st_dead st" "st_refused st' = m # st_refused st"
  shows "sweep_inv cx withdrawn before st'"
  using assms edges_ok_refuse [of cx st st' m] by (auto simp: sweep_inv_def deaths_ok_def)

lemma sweep_inv_wire:
  assumes "sweep_inv cx withdrawn before st" "r = None \<or> (\<exists>s. r = Some s \<and> surviving_of (cx_surviving cx key) (st_dead st) = [s])"
  shows "sweep_inv cx withdrawn before (st\<lparr>st_from := (st_from st)((m, key) := r)\<rparr>)"
  using assms by (auto simp: sweep_inv_def edges_ok_def deaths_ok_def told_def dest: surviving_single split: if_splits)

lemma settle_decl_inv:
  assumes inv: "sweep_inv cx withdrawn before st" and r: "settle_decl cx m dl st = (st', changed, left)"
  shows "sweep_inv cx withdrawn before st'"
proof (cases rule: settle_decl_cases [of dl cx m st])
  case (orphan s)
  then have "s \<in> set (st_refused st)" using inv by (auto simp: sweep_inv_def edges_ok_def)
  then have "told before st" using inv by (auto simp: sweep_inv_def deaths_ok_def)
  with orphan r inv show ?thesis by (auto intro: sweep_inv_refuse)
next
  case missing
  with inv have "told before (missing_need cx m dl st)" by (auto simp: sweep_inv_def intro: missing_need_told)
  with missing r inv show ?thesis by (auto intro: sweep_inv_refuse)
next
  case (many a b cand)
  with ambiguous_told [OF inv] r inv show ?thesis by (auto intro: sweep_inv_refuse)
qed (use r inv in \<open>auto intro: sweep_inv_wire\<close>)

lemma settle_last_inv:
  assumes inv: "sweep_inv cx withdrawn before st" and ne: "is \<noteq> []"
  shows "sweep_inv cx withdrawn before (refuse m (st\<lparr>st_issues := st_issues st @ is\<rparr>))"
  by (rule sweep_inv_refuse [OF inv]) (use ne in \<open>auto simp: told_def\<close>)

interpretation inv: sweep_keeps cx "sweep_inv cx withdrawn before" for cx withdrawn before
  by unfold_locales (auto intro: settle_decl_inv settle_last_inv)

text \<open>The sentences about cycles and places are the order's: the sweep says neither.\<close>

definition order_sentence :: "sentence \<Rightarrow> bool" where
  "order_sentence s \<longleftrightarrow> (case s of CycleOf ns r \<Rightarrow> True | Unplaced n w \<Rightarrow> True | _ \<Rightarrow> False)"

definition no_order_sentence :: "issue list \<Rightarrow> bool" where
  "no_order_sentence is \<longleftrightarrow> (\<forall>i \<in> set is. \<not> order_sentence (is_text i))"

lemma no_order_sentence_simps [simp]:
  "no_order_sentence []" "no_order_sentence (i # is) \<longleftrightarrow> \<not> order_sentence (is_text i) \<and> no_order_sentence is"
  "no_order_sentence (is @ is') \<longleftrightarrow> no_order_sentence is \<and> no_order_sentence is'"
  "no_order_sentence (concat xss) \<longleftrightarrow> (\<forall>xs \<in> set xss. no_order_sentence xs)"
  by (auto simp: no_order_sentence_def)

lemma order_sentence_an_issue [simp]: "is_text (an_issue mth s) = s"
  by (simp add: an_issue_def)

lemma fail_once_no_order: "\<not> order_sentence s \<Longrightarrow> no_order_sentence (st_issues st)
    \<Longrightarrow> no_order_sentence (st_issues (fail_once i mth s st))"
  by (simp add: fail_once_def fail_def)

lemma settle_decl_no_order:
  assumes "settle_decl cx m dl st = (st', changed, left)" "no_order_sentence (st_issues st)"
  shows "no_order_sentence (st_issues st')"
  using assms
  by (cases rule: settle_decl_cases [of dl cx m st])
    (auto simp: missing_need_def ambiguous_def Let_def order_sentence_def intro!: fail_once_no_order split: list.split)

lemma depends_on_last_no_order: "no_order_sentence (depends_on_last l wired m)"
  by (auto simp: depends_on_last_def last_issue_def order_sentence_def split: option.split)

interpretation unordered: sweep_keeps cx "\<lambda>st. no_order_sentence (st_issues st)" for cx
  by unfold_locales (auto intro: settle_decl_no_order simp: depends_on_last_no_order)

subsection \<open>A sweep without a change\<close>

text \<open>Such a sweep kills nobody and only adds edges to the one living supplier.\<close>

definition quiet :: "rcontext \<Rightarrow> settling \<Rightarrow> settling \<Rightarrow> bool" where
  "quiet cx st st' \<longleftrightarrow> st_dead st' = st_dead st
     \<and> (\<forall>e s. st_from st e = Some s \<longrightarrow> st_from st' e = Some s)
     \<and> (\<forall>m key s. st_from st' (m, key) = Some s \<longrightarrow>
          st_from st (m, key) = Some s \<or> surviving_of (cx_surviving cx key) (st_dead st) = [s])"

lemma quiet_refl [simp]: "quiet cx st st"
  by (simp add: quiet_def)

lemma quiet_trans: "quiet cx a b \<Longrightarrow> quiet cx b c \<Longrightarrow> quiet cx a c"
  unfolding quiet_def by metis

text \<open>A single need is answered by the one living supplier, an optional one perhaps by none.\<close>

definition answered :: "rcontext \<Rightarrow> settling \<Rightarrow> module \<Rightarrow> decl \<Rightarrow> bool" where
  "answered cx st m dl \<longleftrightarrow> dl_many dl \<or> dl_kind dl \<notin> {Needs, Optional}
     \<or> (\<exists>s. surviving_of (cx_surviving cx (dl_key dl)) (st_dead st) = [s] \<and> st_from st (m, dl_key dl) = Some s)
     \<or> (dl_kind dl = Optional \<and> surviving_of (cx_surviving cx (dl_key dl)) (st_dead st) = []
          \<and> st_from st (m, dl_key dl) = None)"

lemma answered_quiet: "answered cx st m dl \<Longrightarrow> quiet cx st st' \<Longrightarrow> answered cx st' m dl"
  unfolding answered_def quiet_def by (cases "st_from st' (m, dl_key dl)") fastforce+

text \<open>Two states that answer the same declaration with the same dead wire it alike.\<close>

lemma answered_same:
  assumes "answered cx st m dl" "quiet cx st st'" "\<not> dl_many dl" "dl_kind dl \<in> {Needs, Optional}"
  shows "st_from st' (m, dl_key dl) = st_from st (m, dl_key dl)"
  using assms answered_quiet [OF assms(1,2)] by (auto simp: answered_def quiet_def)

lemma settle_decl_quiet_step:
  assumes "sweep_inv cx withdrawn before st" "settle_decl cx m dl st = (st', False, left)"
  shows "quiet cx st st' \<and> answered cx st' m dl"
  using assms
  by (cases rule: settle_decl_cases [of dl cx m st])
    (auto simp: quiet_def answered_def sweep_inv_def edges_ok_def split: if_splits)

lemma settle_decls_quiet_step:
  assumes "sweep_inv cx withdrawn before st" "settle_decls cx m dls st = (st', False)"
  shows "quiet cx st st' \<and> (\<forall>dl \<in> set dls. answered cx st' m dl)"
  using assms
proof (induction dls arbitrary: st)
  case (Cons dl dls)
  obtain s1 c l where s1: "settle_decl cx m dl st = (s1, c, l)" by (cases "settle_decl cx m dl st") auto
  have c: "\<not> c" using s1 Cons.prems(2) by (auto split: if_splits prod.splits)
  with s1 have "\<not> l" by (auto dest: settle_decl_quiet)
  with s1 c Cons.prems(2) have s2: "settle_decls cx m dls s1 = (st', False)" by (auto split: prod.splits)
  have q1: "quiet cx st s1" "answered cx s1 m dl"
    using settle_decl_quiet_step [OF Cons.prems(1)] s1 c by auto
  have q2: "quiet cx s1 st'" "\<forall>dl \<in> set dls. answered cx st' m dl"
    using Cons.IH [OF settle_decl_inv [OF Cons.prems(1) s1] s2] by auto
  show ?case using q1 q2 quiet_trans [OF q1(1) q2(1)] answered_quiet [OF q1(2) q2(1)] by auto
qed simp

definition module_settled :: "rcontext \<Rightarrow> settling \<Rightarrow> module \<Rightarrow> bool" where
  "module_settled cx st m \<longleftrightarrow> m \<in> set (st_dead st)
     \<or> ((\<forall>dl \<in> set (m_decls m). answered cx st m dl)
        \<and> (\<forall>l. cx_last cx = Some l \<longrightarrow> m \<noteq> l \<longrightarrow> depends_on_last l (st_from st) m = []))"

lemma last_issue_cong:
  assumes "\<not> dl_many dl \<Longrightarrow> dl_kind dl \<in> {Needs, Optional} \<Longrightarrow> w' (m, dl_key dl) = w (m, dl_key dl)"
  shows "last_issue l w' m dl = last_issue l w m dl"
  using assms by (auto simp: last_issue_def)

lemma module_settled_quiet:
  assumes "module_settled cx st m" "quiet cx st st'"
  shows "module_settled cx st' m"
proof (cases "m \<in> set (st_dead st)")
  case True
  with assms(2) show ?thesis by (simp add: module_settled_def quiet_def)
next
  case False
  with assms(1) have a: "\<forall>dl \<in> set (m_decls m). answered cx st m dl"
    and d: "\<And>l. cx_last cx = Some l \<Longrightarrow> m \<noteq> l \<Longrightarrow> depends_on_last l (st_from st) m = []"
    by (auto simp: module_settled_def)
  have "map (last_issue l (st_from st') m) (m_decls m) = map (last_issue l (st_from st) m) (m_decls m)" for l
    using a answered_same [OF _ assms(2)] by (auto intro: last_issue_cong)
  then have same: "last_issue l (st_from st') m dl = last_issue l (st_from st) m dl" if "dl \<in> set (m_decls m)" for l dl
    using that by simp
  have "depends_on_last l (st_from st') m = depends_on_last l (st_from st) m" for l
    unfolding depends_on_last_def by (rule arg_cong [where f = concat]) (simp add: same cong: map_cong)
  with a d answered_quiet [OF _ assms(2)] show ?thesis by (auto simp: module_settled_def)
qed

lemma settle_module_quiet_step:
  assumes inv: "sweep_inv cx withdrawn before st" and r: "settle_module cx m st = (st', False)"
  shows "quiet cx st st' \<and> module_settled cx st' m"
proof (cases "m \<in> set (st_dead st)")
  case True
  with r show ?thesis by (simp add: settle_module_def module_settled_def)
next
  case False
  obtain s1 c where s1: "settle_decls cx m (m_decls m) st = (s1, c)" by (cases "settle_decls cx m (m_decls m) st")
  with r False have c: "\<not> c" and st': "st' = s1"
    by (auto simp: settle_module_def Let_def split: if_splits option.splits)
  with settle_decls_quiet_step [OF inv] s1
  have q: "quiet cx st s1" "\<forall>dl \<in> set (m_decls m). answered cx s1 m dl" by auto
  have d: "depends_on_last l (st_from s1) m = []" if "cx_last cx = Some l" "m \<noteq> l" for l
    using r s1 False that q(1)
    by (auto simp: settle_module_def Let_def quiet_def split: if_splits)
  with q st' show ?thesis by (auto simp: module_settled_def)
qed

lemma settle_sweep_quiet_step:
  assumes "sweep_inv cx withdrawn before st" "settle_sweep cx ms st = (st', False)"
  shows "quiet cx st st' \<and> (\<forall>m \<in> set ms. module_settled cx st' m)"
  using assms
proof (induction ms arbitrary: st)
  case (Cons m ms)
  obtain s1 c where s1: "settle_module cx m st = (s1, c)" by (cases "settle_module cx m st")
  with Cons.prems(2) have c: "\<not> c" and s2: "settle_sweep cx ms s1 = (st', False)"
    by (auto split: prod.splits)
  have q1: "quiet cx st s1" "module_settled cx s1 m"
    using settle_module_quiet_step [OF Cons.prems(1)] s1 c by auto
  have q2: "quiet cx s1 st'" "\<forall>m \<in> set ms. module_settled cx st' m"
    using Cons.IH [OF inv.module [OF Cons.prems(1) s1] s2] by auto
  show ?case using q1 q2 quiet_trans [OF q1(1) q2(1)] module_settled_quiet [OF q1(2) q2(1)] by auto
qed simp

text \<open>The loop ends in a state with the invariant in which every module in use is settled.\<close>

lemma settle_loop_settled:
  "sweep_inv cx withdrawn before st \<Longrightarrow>
   sweep_inv cx withdrawn before (settle_loop cx st)
   \<and> (\<forall>m \<in> set (cx_lives cx). module_settled cx (settle_loop cx st) m)"
proof (induction cx st rule: settle_loop.induct)
  case (1 cx st)
  obtain s1 c where s1: "settle_sweep cx (cx_lives cx) st = (s1, c)" by (cases "settle_sweep cx (cx_lives cx) st")
  have i1: "sweep_inv cx withdrawn before s1" by (rule inv.sweep [OF "1.prems" s1])
  show ?case
  proof (cases c)
    case True
    with s1 "1.IH" [OF s1 [symmetric] True i1] show ?thesis by (subst (1 2) settle_loop.simps) simp
  next
    case False
    with settle_sweep_quiet_step [OF "1.prems"] s1 have "\<forall>m \<in> set (cx_lives cx). module_settled cx s1 m" by auto
    with i1 s1 False show ?thesis by (subst (1 2) settle_loop.simps) simp
  qed
qed

end
