(* ===== verification/Resolution.thy ===== *)
theory Resolution
  imports SweepFacts
begin

section \<open>The plan\<close>

text \<open>
  The rest of \<open>resolve\<close>: \<open>pickImplementation\<close>, the contributors and takers read off the
  survivors, the dependencies, the order, the cycle's reasons, and \<open>resolve\<close> itself as the
  composition of the stages.  The lemmas carry the sweep's invariant to its last state and
  from there to the order: who is alive, what each living module is wired to, and that
  nobody is left out without a sentence.
\<close>

subsection \<open>What the deployment picks\<close>

text \<open>The first input the deployment leaves empty, \<open>''\<close> when there is none.\<close>

definition missing_input :: "(string \<Rightarrow> string) \<Rightarrow> string list \<Rightarrow> string" where
  "missing_input inputs ins =
     (case List.find (\<lambda>i. inputs i = '''') ins of None \<Rightarrow> '''' | Some i \<Rightarrow> i)"

definition wanted :: "environment \<Rightarrow> implementation \<Rightarrow> bool" where
  "wanted e i \<longleftrightarrow> e = Development \<or> \<not> i_simulated i"

text \<open>\<open>Inr\<close> the picked name, \<open>Inl\<close> the first missing input.\<close>

fun pick_loop :: "deployment \<Rightarrow> implementation list \<Rightarrow> string \<Rightarrow> string + string" where
  "pick_loop d [] first_missing = Inl first_missing"
| "pick_loop d (i # is) first_missing =
     (if \<not> wanted (de_env d) i then pick_loop d is first_missing
      else let missing = missing_input (de_inputs d) (i_inputs i)
           in if missing = '''' then Inr (i_name i)
              else pick_loop d is (if first_missing = '''' then missing else first_missing))"

definition pick_implementation ::
    "deployment \<Rightarrow> module \<Rightarrow> decl \<Rightarrow> (module \<Rightarrow> string option) \<Rightarrow> (module \<Rightarrow> string option) \<times> issue list" where
  "pick_implementation d m dl impl =
     (if dl_impls dl = [] then (impl, [an_issue ''Deployment'' (NoImplementationDeclared (m_name m))])
      else case pick_loop d (dl_impls dl) '''' of
        Inr name \<Rightarrow> (impl(m := Some name), [])
      | Inl first_missing \<Rightarrow>
          if first_missing \<noteq> '''' then (impl, [an_issue ''Deployment'' (InputMissing (m_name m) first_missing (de_env d))])
          else (impl, [an_issue ''Deployment'' (OnlySimulated (m_name m) (de_env d))]))"

fun pick_decls :: "deployment \<Rightarrow> (module \<times> decl) list \<Rightarrow> (module \<Rightarrow> string option)
    \<Rightarrow> (module \<Rightarrow> string option) \<times> issue list" where
  "pick_decls d [] impl = (impl, [])"
| "pick_decls d ((m, dl) # rest) impl =
     (case pick_implementation d m dl impl of (impl', is) \<Rightarrow>
        case pick_decls d rest impl' of (impl'', is') \<Rightarrow> (impl'', is @ is'))"

definition pick_all :: "deployment \<Rightarrow> module list \<Rightarrow> (module \<Rightarrow> string option) \<times> issue list" where
  "pick_all d alive =
     pick_decls d (concat (map (\<lambda>m. map (\<lambda>dl. (m, dl)) (filter (\<lambda>dl. dl_kind dl = FromDeployment) (m_decls m))) alive))
       (\<lambda>_. None)"

subsection \<open>Contributors, takers and dependencies\<close>

definition contributors_of :: "module list \<Rightarrow> rtype \<Rightarrow> module list" where
  "contributors_of alive key = concat (map (\<lambda>m. map (\<lambda>_. m)
     (filter (\<lambda>dl. dl_kind dl = Contributes \<and> dl_key dl = key) (m_decls m))) alive)"

definition takers_of :: "module list \<Rightarrow> rtype \<Rightarrow> module list" where
  "takers_of alive key = concat (map (\<lambda>m. map (\<lambda>_. m)
     (filter (\<lambda>dl. (dl_kind dl = Needs \<or> dl_kind dl = Optional) \<and> dl_key dl = key) (m_decls m))) alive)"

definition depends :: "(rtype \<Rightarrow> module list) \<Rightarrow> (module \<times> rtype \<Rightarrow> module option) \<Rightarrow> module list \<Rightarrow> module \<Rightarrow> module \<Rightarrow> bool" where
  "depends contributors wired dead m c \<longleftrightarrow> c \<noteq> m \<and>
     (\<exists>dl \<in> set (m_decls m). (dl_kind dl = Needs \<or> dl_kind dl = Optional) \<and>
        (if dl_many dl then c \<in> set (surviving_of (contributors (dl_key dl)) dead)
         else wired (m, dl_key dl) = Some c))"

definition deps_of :: "module list \<Rightarrow> (rtype \<Rightarrow> module list) \<Rightarrow> (module \<times> rtype \<Rightarrow> module option) \<Rightarrow> module list
    \<Rightarrow> module \<Rightarrow> module list" where
  "deps_of lives contributors wired dead m =
     (if m \<in> set dead then [] else filter (depends contributors wired dead m) lives)"

subsection \<open>The sentence of a cycle\<close>

definition reason_of :: "(rtype \<Rightarrow> module list) \<Rightarrow> (module \<times> rtype \<Rightarrow> module option)
    \<Rightarrow> module \<Rightarrow> module \<Rightarrow> decl \<Rightarrow> string list" where
  "reason_of contributors wired consumer supplier dl =
     (if dl_kind dl \<noteq> Needs \<and> dl_kind dl \<noteq> Optional then []
      else if dl_many dl \<and> supplier \<notin> set (contributors (dl_key dl)) then []
      else if \<not> dl_many dl \<and> wired (consumer, dl_key dl) \<noteq> Some supplier then []
      else [m_name consumer @ '' ''
              @ (if dl_many dl then ''takes'' else if dl_kind dl = Optional then ''uses'' else ''needs'')
              @ '' '' @ contract (dl_key dl) @ '' from '' @ m_name supplier])"

fun edge_reasons :: "(rtype \<Rightarrow> module list) \<Rightarrow> (module \<times> rtype \<Rightarrow> module option) \<Rightarrow> module list \<Rightarrow> string list" where
  "edge_reasons contributors wired (consumer # supplier # rest) =
     join_comma (first_seen [] (concat (map (reason_of contributors wired consumer supplier) (m_decls consumer))))
       # edge_reasons contributors wired (supplier # rest)"
| "edge_reasons contributors wired _ = []"

fun join_semicolon :: "string list \<Rightarrow> string" where
  "join_semicolon [] = ''''"
| "join_semicolon [x] = x"
| "join_semicolon (x # y # xs) = x @ ''; '' @ join_semicolon (y # xs)"

definition cycle_reasons :: "(rtype \<Rightarrow> module list) \<Rightarrow> (module \<times> rtype \<Rightarrow> module option) \<Rightarrow> module list \<Rightarrow> string" where
  "cycle_reasons contributors wired cycle = join_semicolon (edge_reasons contributors wired cycle)"

subsection \<open>Resolve\<close>

record plan =
  pl_order :: "module list"
  pl_deps :: "module \<Rightarrow> module list"
  pl_from :: "module \<times> rtype \<Rightarrow> module option"
  pl_contributors :: "rtype \<Rightarrow> module list"
  pl_takers :: "rtype \<Rightarrow> module list"
  pl_impl :: "module \<Rightarrow> string option"
  pl_choices :: "choice list"
  pl_last :: "module option"

text \<open>The state the sweep starts in: what Choose withdrew and who may not also be last.\<close>

definition settling_start :: "module list \<Rightarrow> survivors \<Rightarrow> said list \<Rightarrow> settling" where
  "settling_start lives sv said =
     \<lparr>st_from = (\<lambda>_. None), st_dead = sv_withdrawn sv @ after_refused lives, st_refused = after_refused lives,
      st_issues = [], st_said = said\<rparr>"

definition context_of :: "application \<Rightarrow> module list \<Rightarrow> survivors \<Rightarrow> rcontext" where
  "context_of a lives sv =
     \<lparr>cx_app = a_name a, cx_lives = lives, cx_surviving = sv_of sv, cx_over = sv_over sv,
      cx_mixed = mixed_keys lives, cx_last = after_last lives\<rparr>"

definition order_issues :: "(module \<Rightarrow> module list) \<Rightarrow> (rtype \<Rightarrow> module list) \<Rightarrow> (module \<times> rtype \<Rightarrow> module option)
    \<Rightarrow> module list option \<Rightarrow> module list \<Rightarrow> issue list" where
  "order_issues deps contributors wired cyc unplaced =
     (case cyc of None \<Rightarrow> [] | Some c \<Rightarrow> [an_issue ''Use'' (CycleOf (names c) (cycle_reasons contributors wired c))])
     @ map (\<lambda>m. an_issue ''Use'' (Unplaced (m_name m) (and_list (module_names (deps m))))) unplaced"

text \<open>The states resolve goes through, named once for the definition and for its proofs.\<close>

definition lives_of :: "application \<Rightarrow> module list" where
  "lives_of a = fst (dedupe [] (a_uses a))"

definition survivors_of :: "application \<Rightarrow> survivors" where
  "survivors_of a = choose_survivors (lives_of a) (chosen_in (lives_of a) (a_chosen a))"

definition settled_of :: "application \<Rightarrow> settling" where
  "settled_of a = settle_loop (context_of a (lives_of a) (survivors_of a))
     (settling_start (lives_of a) (survivors_of a) (snd (mixed_issues (lives_of a) (mixed_keys (lives_of a)) [])))"

definition resolve :: "application \<Rightarrow> deployment \<Rightarrow> (string \<times> string) list \<Rightarrow> plan \<times> issue list" where
  "resolve a d cloud =
     (let (lives, dup) = dedupe [] (a_uses a);
          sv = survivors_of a;
          (mixed, said) = mixed_issues lives (mixed_keys lives) [];
          st = settled_of a;
          alive = surviving_of lives (st_dead st);
          (impl, picks) = (if env_known (de_env d) then pick_all d alive else ((\<lambda>_. None), []));
          clouds = (if env_known (de_env d) then map (\<lambda>(m, s). an_issue m (CloudSentence s)) cloud else []);
          contributors = contributors_of alive;
          deps = deps_of lives contributors (st_from st) (st_dead st);
          (out, cyc, unplaced) = build_order alive (after_last lives) deps
      in (\<lparr>pl_order = out, pl_deps = deps, pl_from = st_from st, pl_contributors = contributors,
           pl_takers = takers_of alive, pl_impl = impl, pl_choices = sv_choices sv, pl_last = after_last lives\<rparr>,
          env_issues (de_env d) @ dup @ choose_issues lives (a_chosen a) @ self_sweep lives
            @ after_issues lives @ mixed @ st_issues st @ picks @ clouds
            @ order_issues deps contributors (st_from st) cyc unplaced))"

section \<open>The stages before the sweep\<close>

lemma dedupe_facts:
  assumes "dedupe lives ms = (ls, is)"
  shows "set ls \<subseteq> set lives \<union> set ms" and "set lives \<subseteq> set ls"
    and "distinct (map m_name lives) \<Longrightarrow> distinct (map m_name ls)"
    and "is = [] \<Longrightarrow> ls = lives @ ms"
proof -
  have "set ls \<subseteq> set lives \<union> set ms \<and> set lives \<subseteq> set ls
      \<and> (distinct (map m_name lives) \<longrightarrow> distinct (map m_name ls)) \<and> (is = [] \<longrightarrow> ls = lives @ ms)"
    using assms
  proof (induction lives ms arbitrary: ls "is" rule: dedupe.induct)
    case (2 lives m ms)
    then show ?case
      by (cases "m_name m \<in> set (map m_name lives)") (fastforce split: prod.splits)+
  qed auto
  then show "set ls \<subseteq> set lives \<union> set ms" "set lives \<subseteq> set ls"
    "distinct (map m_name lives) \<Longrightarrow> distinct (map m_name ls)" "is = [] \<Longrightarrow> ls = lives @ ms" by auto
qed

lemma lives_distinct: "distinct (lives_of a)"
proof -
  have "distinct (map m_name (lives_of a))"
    unfolding lives_of_def by (rule dedupe_facts(3) [of "[]" "a_uses a" _ "snd (dedupe [] (a_uses a))"]) auto
  then show ?thesis by (simp add: distinct_map)
qed

text \<open>Who survives a contract, and who is withdrawn, in closed form.\<close>

definition supplier_left :: "module list \<Rightarrow> module list \<Rightarrow> rtype \<Rightarrow> module list" where
  "supplier_left lives chosen key =
     (let cand = suppliers_of lives key; picked = filter (\<lambda>m. m \<in> set chosen) cand
      in if picked = [] then cand else picked)"

definition passed_over :: "module list \<Rightarrow> module list \<Rightarrow> module \<Rightarrow> bool" where
  "passed_over lives chosen m \<longleftrightarrow> m \<in> set lives \<and> m \<notin> set chosen
     \<and> (\<exists>key. supplies m key \<and> (\<exists>c \<in> set chosen. c \<in> set lives \<and> supplies c key))"

lemma choose_key_of: "sv_of (choose_key lives chosen key sv) = (sv_of sv)(key := supplier_left lives chosen key)"
  by (simp add: choose_key_def supplier_left_def Let_def)

lemma two_of:
  assumes "x \<in> set xs" "y \<in> set xs" "x \<noteq> y"
  shows "length xs > 1"
  using assms by (cases xs; cases "tl xs") auto

lemma choose_key_withdrawn:
  "set (sv_withdrawn (choose_key lives chosen key sv)) = set (sv_withdrawn sv)
     \<union> {m \<in> set lives. m \<notin> set chosen \<and> supplies m key \<and> (\<exists>c \<in> set chosen. c \<in> set lives \<and> supplies c key)}"
proof (cases "filter (\<lambda>m. m \<in> set chosen) (suppliers_of lives key) = []")
  case True
  then have "\<forall>c \<in> set chosen. \<not> (c \<in> set lives \<and> supplies c key)"
    by (auto simp: filter_empty_conv set_suppliers_of)
  with True show ?thesis by (auto simp: choose_key_def)
next
  case False
  then obtain c where c: "c \<in> set chosen" "c \<in> set lives" "supplies c key"
    by (auto simp: filter_empty_conv set_suppliers_of)
  show ?thesis
  proof (cases "length (suppliers_of lives key) > 1")
    case True
    with False c show ?thesis by (auto simp: choose_key_def Let_def set_suppliers_of)
  next
    case one: False
    have "\<not> (m \<in> set lives \<and> m \<notin> set chosen \<and> supplies m key)" for m
      using two_of [of m "suppliers_of lives key" c] one c by (auto simp: set_suppliers_of)
    with False one show ?thesis by (auto simp: choose_key_def Let_def)
  qed
qed

lemma choose_survivors_of: "sv_of (choose_survivors lives chosen) key = supplier_left lives chosen key"
proof -
  have "sv_of (fold (choose_key lives chosen) ks sv) key =
      (if key \<in> set ks then supplier_left lives chosen key else sv_of sv key)" for ks sv
    by (induction ks arbitrary: sv) (auto simp: choose_key_of)
  moreover have "supplier_left lives chosen key = []" if "key \<notin> set (declared_keys lives)"
    using that by (auto simp: supplier_left_def suppliers_of_def set_declared_keys filter_empty_conv)
  ultimately show ?thesis by (simp add: choose_survivors_def)
qed

lemma choose_survivors_withdrawn:
  "m \<in> set (sv_withdrawn (choose_survivors lives chosen)) \<longleftrightarrow> passed_over lives chosen m"
proof -
  have "set (sv_withdrawn (fold (choose_key lives chosen) ks sv)) = set (sv_withdrawn sv)
      \<union> {m \<in> set lives. m \<notin> set chosen \<and> (\<exists>key \<in> set ks. supplies m key \<and> (\<exists>c \<in> set chosen. c \<in> set lives \<and> supplies c key))}"
    for ks sv
  proof (induction ks arbitrary: sv)
    case (Cons k ks)
    show ?case unfolding fold_Cons o_apply Cons choose_key_withdrawn by auto
  qed simp
  then have w: "set (sv_withdrawn (choose_survivors lives chosen)) = {m \<in> set lives. m \<notin> set chosen
      \<and> (\<exists>key \<in> set (declared_keys lives). supplies m key \<and> (\<exists>c \<in> set chosen. c \<in> set lives \<and> supplies c key))}"
    by (simp add: choose_survivors_def)
  have k: "key \<in> set (declared_keys lives)" if "m \<in> set lives" "supplies m key" for key
    using that by (auto simp: set_declared_keys)
  show ?thesis unfolding w passed_over_def using k by blast
qed

text \<open>A living supplier of a contract is among the survivors: the others were withdrawn.\<close>

lemma supplier_left_alive:
  assumes "m \<in> set lives" "supplies m key" "\<not> passed_over lives chosen m"
  shows "m \<in> set (supplier_left lives chosen key)"
  using assms by (auto simp: supplier_left_def passed_over_def Let_def set_suppliers_of filter_empty_conv)

lemma supplier_left_supplies: "m \<in> set (supplier_left lives chosen key) \<Longrightarrow> m \<in> set lives \<and> supplies m key"
  by (auto simp: supplier_left_def Let_def set_suppliers_of split: if_splits)

subsection \<open>The sweep starts in its invariant\<close>

lemma mixed_issues_said: "snd (mixed_issues lives keys said) \<noteq> said \<Longrightarrow> fst (mixed_issues lives keys said) \<noteq> []"
  by (induction keys arbitrary: said) (auto split: prod.splits if_splits)

lemma mixed_issues_told: "keys \<noteq> [] \<Longrightarrow> fst (mixed_issues lives keys []) \<noteq> []"
  by (cases keys) (auto split: prod.splits)

lemma after_refused_told: "after_refused lives \<noteq> [] \<Longrightarrow> after_issues lives \<noteq> []"
  by (auto simp: after_refused_def after_issues_def split: list.splits)

lemma settling_start_inv:
  "sweep_inv (context_of a lives sv) (sv_withdrawn sv)
     (after_issues lives \<noteq> [] \<or> fst (mixed_issues lives (mixed_keys lives) []) \<noteq> [])
     (settling_start lives sv (snd (mixed_issues lives (mixed_keys lives) [])))"
  using mixed_issues_said [of lives "mixed_keys lives" "[]"] mixed_issues_told [of "mixed_keys lives" lives]
    after_refused_told [of lives]
  by (auto simp: sweep_inv_def edges_ok_def deaths_ok_def told_def settling_start_def context_of_def)

lemma settled_of_facts:
  shows "sweep_inv (context_of a (lives_of a) (survivors_of a)) (sv_withdrawn (survivors_of a))
     (after_issues (lives_of a) \<noteq> [] \<or> fst (mixed_issues (lives_of a) (mixed_keys (lives_of a)) []) \<noteq> []) (settled_of a)"
    and "\<forall>m \<in> set (lives_of a). module_settled (context_of a (lives_of a) (survivors_of a)) (settled_of a) m"
proof -
  note l = settle_loop_settled [OF settling_start_inv [of a "lives_of a" "survivors_of a"], folded settled_of_def]
  show "sweep_inv (context_of a (lives_of a) (survivors_of a)) (sv_withdrawn (survivors_of a))
     (after_issues (lives_of a) \<noteq> [] \<or> fst (mixed_issues (lives_of a) (mixed_keys (lives_of a)) []) \<noteq> []) (settled_of a)"
    using l by blast
  show "\<forall>m \<in> set (lives_of a). module_settled (context_of a (lives_of a) (survivors_of a)) (settled_of a) m"
    using l by (auto simp: context_of_def)
qed

section \<open>Who is alive and what they are wired to\<close>

definition alive_of :: "application \<Rightarrow> module list" where
  "alive_of a = surviving_of (lives_of a) (st_dead (settled_of a))"

definition deps_for :: "application \<Rightarrow> module \<Rightarrow> module list" where
  "deps_for a = deps_of (lives_of a) (contributors_of (alive_of a)) (st_from (settled_of a)) (st_dead (settled_of a))"

lemma set_contributors_of: "c \<in> set (contributors_of alive key) \<longleftrightarrow> c \<in> set alive \<and> has_decl_key c Contributes key"
  by (auto simp: contributors_of_def has_decl_key_def)

lemma set_alive_of: "m \<in> set (alive_of a) \<longleftrightarrow> m \<in> set (lives_of a) \<and> m \<notin> set (st_dead (settled_of a))"
  by (simp add: alive_of_def)

lemma alive_distinct: "distinct (alive_of a)"
  using lives_distinct by (simp add: alive_of_def surviving_of_def)

lemma chosen_in_lives: "set (chosen_in lives chosen) \<subseteq> set lives"
  by (auto simp: chosen_in_def)

lemma sv_of_survivors_of:
  "sv_of (survivors_of a) key = supplier_left (lives_of a) (chosen_in (lives_of a) (a_chosen a)) key"
  by (simp add: survivors_of_def choose_survivors_of)

lemma alive_not_passed_over:
  "m \<in> set (alive_of a) \<Longrightarrow> \<not> passed_over (lives_of a) (chosen_in (lives_of a) (a_chosen a)) m"
  using settled_of_facts(1) [of a]
  by (auto simp: set_alive_of sweep_inv_def deaths_ok_def survivors_of_def choose_survivors_withdrawn)

text \<open>What a living module's settled single edge says.\<close>

lemma survivors_are_suppliers:
  assumes s: "surviving_of (sv_of (survivors_of a) key) (st_dead (settled_of a)) = [s]"
  shows "s \<in> set (alive_of a) \<and> supplies s key \<and> (\<forall>s' \<in> set (alive_of a). supplies s' key \<longrightarrow> s' = s)"
proof -
  from s have "s \<in> set (sv_of (survivors_of a) key)" "s \<notin> set (st_dead (settled_of a))"
    by (auto dest: surviving_single)
  then have "s \<in> set (alive_of a)" "supplies s key"
    using supplier_left_supplies by (auto simp: sv_of_survivors_of set_alive_of)
  moreover have "s' = s" if "s' \<in> set (alive_of a)" "supplies s' key" for s'
  proof -
    from that have "s' \<in> set (sv_of (survivors_of a) key)"
      using supplier_left_alive alive_not_passed_over by (auto simp: sv_of_survivors_of set_alive_of)
    with that have "s' \<in> set (surviving_of (sv_of (survivors_of a) key) (st_dead (settled_of a)))"
      by (simp add: set_alive_of)
    with s show ?thesis by simp
  qed
  ultimately show ?thesis by metis
qed

lemma alive_answered:
  assumes "m \<in> set (alive_of a)" "dl \<in> set (m_decls m)" "\<not> dl_many dl" "dl_kind dl \<in> {Needs, Optional}"
  shows "(\<exists>s. st_from (settled_of a) (m, dl_key dl) = Some s \<and> s \<in> set (alive_of a) \<and> supplies s (dl_key dl)
            \<and> (\<forall>s' \<in> set (alive_of a). supplies s' (dl_key dl) \<longrightarrow> s' = s))
    \<or> (dl_kind dl = Optional \<and> st_from (settled_of a) (m, dl_key dl) = None
         \<and> (\<forall>s' \<in> set (alive_of a). \<not> supplies s' (dl_key dl)))"
proof -
  have "answered (context_of a (lives_of a) (survivors_of a)) (settled_of a) m dl"
    using settled_of_facts(2) [of a] assms by (auto simp: module_settled_def set_alive_of)
  with assms(3,4) have "(\<exists>s. surviving_of (sv_of (survivors_of a) (dl_key dl)) (st_dead (settled_of a)) = [s]
        \<and> st_from (settled_of a) (m, dl_key dl) = Some s)
    \<or> (dl_kind dl = Optional \<and> surviving_of (sv_of (survivors_of a) (dl_key dl)) (st_dead (settled_of a)) = []
        \<and> st_from (settled_of a) (m, dl_key dl) = None)"
    by (simp add: answered_def context_of_def)
  then show ?thesis
  proof (elim disjE exE conjE)
    fix s
    assume 1: "surviving_of (sv_of (survivors_of a) (dl_key dl)) (st_dead (settled_of a)) = [s]"
      "st_from (settled_of a) (m, dl_key dl) = Some s"
    with survivors_are_suppliers [OF 1(1)] show ?thesis by metis
  next
    assume 2: "dl_kind dl = Optional" "surviving_of (sv_of (survivors_of a) (dl_key dl)) (st_dead (settled_of a)) = []"
      "st_from (settled_of a) (m, dl_key dl) = None"
    have "\<not> supplies s' (dl_key dl)" if "s' \<in> set (alive_of a)" for s'
      using that 2(2) supplier_left_alive [of s' "lives_of a" "dl_key dl"] alive_not_passed_over [OF that]
      by (auto simp: surviving_of_def filter_empty_conv sv_of_survivors_of set_alive_of)
    with 2 show ?thesis by metis
  qed
qed

lemma alive_not_after_last:
  assumes m: "m \<in> set (alive_of a)" "after_last (lives_of a) = Some l" "m \<noteq> l"
    and dl: "dl \<in> set (m_decls m)" "dl_kind dl \<in> {Needs, Optional}"
  shows "\<not> dl_many dl \<Longrightarrow> st_from (settled_of a) (m, dl_key dl) \<noteq> Some l"
    and "dl_many dl \<Longrightarrow> \<not> has_decl_key l Contributes (dl_key dl)"
proof -
  have "depends_on_last l (st_from (settled_of a)) m = []"
    using settled_of_facts(2) [of a] m by (auto simp: module_settled_def set_alive_of context_of_def)
  with dl have "last_issue l (st_from (settled_of a)) m dl = None"
    by (fastforce simp: depends_on_last_def split: option.splits)
  with dl show "\<not> dl_many dl \<Longrightarrow> st_from (settled_of a) (m, dl_key dl) \<noteq> Some l"
    "dl_many dl \<Longrightarrow> \<not> has_decl_key l Contributes (dl_key dl)"
    by (auto simp: last_issue_def split: if_splits)
qed

lemma set_deps_for:
  assumes "m \<in> set (alive_of a)"
  shows "c \<in> set (deps_for a m) \<longleftrightarrow> c \<in> set (alive_of a) \<and> c \<noteq> m \<and>
     (\<exists>dl \<in> set (m_decls m). dl_kind dl \<in> {Needs, Optional} \<and>
        (if dl_many dl then has_decl_key c Contributes (dl_key dl)
         else st_from (settled_of a) (m, dl_key dl) = Some c))"
proof -
  have w: "c \<in> set (alive_of a)" if "st_from (settled_of a) (m, dl_key dl) = Some c" "dl \<in> set (m_decls m)"
    "dl_kind dl \<in> {Needs, Optional}" "\<not> dl_many dl" for dl
    using alive_answered [OF assms that(2) that(4) that(3)] that(1) by auto
  have "c \<in> set (deps_for a m) \<longleftrightarrow> c \<in> set (lives_of a) \<and> c \<noteq> m \<and>
     (\<exists>dl \<in> set (m_decls m). dl_kind dl \<in> {Needs, Optional} \<and>
        (if dl_many dl then c \<in> set (alive_of a) \<and> has_decl_key c Contributes (dl_key dl)
         else st_from (settled_of a) (m, dl_key dl) = Some c))"
    using assms
    by (simp add: deps_for_def deps_of_def depends_def set_contributors_of set_alive_of conj_ac cong: conj_cong)
  also have "\<dots> \<longleftrightarrow> c \<in> set (alive_of a) \<and> c \<noteq> m \<and>
     (\<exists>dl \<in> set (m_decls m). dl_kind dl \<in> {Needs, Optional} \<and>
        (if dl_many dl then has_decl_key c Contributes (dl_key dl)
         else st_from (settled_of a) (m, dl_key dl) = Some c))"
    using w by (auto simp: set_alive_of split: if_splits)
  finally show ?thesis .
qed

lemma deps_for_within: "deps_within (alive_of a) (after_last (lives_of a)) (deps_for a)"
  unfolding deps_within_def
proof (intro ballI conjI impI)
  fix m d
  assume m: "m \<in> set (alive_of a)"
  show "set (deps_for a m) \<subseteq> set (alive_of a)" "m \<notin> set (deps_for a m)"
    using set_deps_for [OF m] by auto
  assume l: "Some m \<noteq> after_last (lives_of a)" and d: "d \<in> set (deps_for a m)"
  show "Some d \<noteq> after_last (lives_of a)"
  proof
    assume "Some d = after_last (lives_of a)"
    with l have dl: "after_last (lives_of a) = Some d" "m \<noteq> d" by auto
    from d set_deps_for [OF m] obtain dcl where dcl: "dcl \<in> set (m_decls m)" "dl_kind dcl \<in> {Needs, Optional}"
      "if dl_many dcl then has_decl_key d Contributes (dl_key dcl) else st_from (settled_of a) (m, dl_key dcl) = Some d"
      by auto
    with alive_not_after_last [OF m dl dcl(1,2)] show False by (auto split: if_splits)
  qed
qed

subsection \<open>The plan in terms of the settled state\<close>

lemma resolve_plan:
  assumes "resolve a d cloud = (p, is)"
  shows "pl_deps p = deps_for a" and "pl_from p = st_from (settled_of a)"
    and "pl_last p = after_last (lives_of a)"
    and "pl_contributors p = contributors_of (alive_of a)"
    and "\<exists>cyc unplaced. build_order (alive_of a) (after_last (lives_of a)) (deps_for a) = (pl_order p, cyc, unplaced)
      \<and> is = env_issues (de_env d) @ snd (dedupe [] (a_uses a)) @ choose_issues (lives_of a) (a_chosen a)
            @ self_sweep (lives_of a) @ after_issues (lives_of a)
            @ fst (mixed_issues (lives_of a) (mixed_keys (lives_of a)) []) @ st_issues (settled_of a)
            @ (if env_known (de_env d) then snd (pick_all d (alive_of a)) else [])
            @ (if env_known (de_env d) then map (\<lambda>(m, s). an_issue m (CloudSentence s)) cloud else [])
            @ order_issues (deps_for a) (contributors_of (alive_of a)) (st_from (settled_of a)) cyc unplaced"
    and "pl_impl p = (if env_known (de_env d) then fst (pick_all d (alive_of a)) else (\<lambda>_. None))"
  using assms
  by (auto simp: resolve_def Let_def deps_for_def alive_of_def lives_of_def split: prod.splits if_splits)

subsection \<open>A resolution without an issue\<close>

lemma choose_issues_clean: "choose_issues lives chosen = [] \<Longrightarrow> chosen_in lives chosen = chosen"
  by (induction chosen) (auto simp: choose_issues_def chosen_in_def split: if_splits)

lemma order_issues_clean: "order_issues deps con w cyc unplaced = [] \<Longrightarrow> cyc = None \<and> unplaced = []"
  by (auto simp: order_issues_def split: option.splits)

definition self_clean :: "module \<Rightarrow> decl \<Rightarrow> bool" where
  "self_clean m dl \<longleftrightarrow> dl_kind dl \<in> {Needs, Optional} \<longrightarrow>
     (if dl_many dl then \<not> has_decl_key m Contributes (dl_key dl) else \<not> supplies m (dl_key dl))"

lemma self_issues_step:
  assumes "self_issues m once (dl # dls) = []"
  shows "self_clean m dl" and "\<exists>once'. self_issues m once' dls = []"
proof -
  show "self_clean m dl"
    using assms by (cases "dl_kind dl"; cases "dl_many dl") (simp_all add: self_clean_def supplies_kinds split: if_splits)
  show "\<exists>once'. self_issues m once' dls = []"
    using assms by (simp only: self_issues.simps Let_def split: if_splits) (metis list.distinct(1))+
qed

lemma self_issues_clean: "self_issues m once dls = [] \<Longrightarrow> dl \<in> set dls \<Longrightarrow> self_clean m dl"
proof (induction dls arbitrary: once)
  case (Cons d dls)
  from self_issues_step [OF Cons.prems(1)] Cons show ?case by auto
qed simp

lemma resolve_clean:
  assumes "resolve a d cloud = (p, [])"
  shows "lives_of a = a_uses a" and "chosen_in (lives_of a) (a_chosen a) = a_chosen a"
    and "self_sweep (lives_of a) = []" and "after_issues (lives_of a) = []" and "env_known (de_env d)"
    and "snd (pick_all d (alive_of a)) = []"
    and "st_refused (settled_of a) = []"
    and "build_order (alive_of a) (after_last (lives_of a)) (deps_for a) = (pl_order p, None, [])"
proof -
  from resolve_plan(5) [OF assms, unfolded Nil_is_append_conv append_is_Nil_conv] obtain cyc unplaced where
    b: "build_order (alive_of a) (after_last (lives_of a)) (deps_for a) = (pl_order p, cyc, unplaced)" and
    i: "env_issues (de_env d) = []" "snd (dedupe [] (a_uses a)) = []" "choose_issues (lives_of a) (a_chosen a) = []"
      "self_sweep (lives_of a) = []" "after_issues (lives_of a) = []"
      "fst (mixed_issues (lives_of a) (mixed_keys (lives_of a)) []) = []" "st_issues (settled_of a) = []"
      "(if env_known (de_env d) then snd (pick_all d (alive_of a)) else []) = []"
      "order_issues (deps_for a) (contributors_of (alive_of a)) (st_from (settled_of a)) cyc unplaced = []"
    by (elim exE conjE)
  show e: "env_known (de_env d)" using i(1) by (auto simp: env_issues_def env_known_def split: environment.splits)
  show "snd (pick_all d (alive_of a)) = []" using i(8) e by simp
  show "lives_of a = a_uses a"
    using dedupe_facts(4) [of "[]" "a_uses a" "lives_of a" "[]"] i(2) by (simp add: lives_of_def prod_eq_iff)
  show "chosen_in (lives_of a) (a_chosen a) = a_chosen a" by (rule choose_issues_clean [OF i(3)])
  show "self_sweep (lives_of a) = []" "after_issues (lives_of a) = []" by (fact i)+
  show "build_order (alive_of a) (after_last (lives_of a)) (deps_for a) = (pl_order p, None, [])"
    using b order_issues_clean [OF i(9)] by simp
  show "st_refused (settled_of a) = []"
    using settled_of_facts(1) [of a] i(5,6,7) by (auto simp: sweep_inv_def deaths_ok_def told_def)
qed

lemma resolve_clean_alive:
  assumes "resolve a d cloud = (p, [])"
  shows "set (pl_order p) = {m \<in> set (a_uses a). \<not> passed_over (a_uses a) (a_chosen a) m}"
    and "set (alive_of a) = set (pl_order p)" and "distinct (pl_order p)"
    and "topo_from (deps_for a) {} (pl_order p)"
    and "after_last (a_uses a) = Some l \<Longrightarrow> l \<in> set (pl_order p) \<Longrightarrow> last (pl_order p) = l"
proof -
  note c = resolve_clean [OF assms]
  note o = build_order_result [OF deps_for_within alive_distinct c(8)]
  have f: "set (alive_of a) = set (pl_order p)" "topo_from (deps_for a) {} (pl_order p)"
    "\<And>l. after_last (lives_of a) = Some l \<Longrightarrow> l \<in> set (alive_of a) \<Longrightarrow> last (pl_order p) = l"
    using o(5) by auto
  show "distinct (pl_order p)" by (rule o(3))
  show "set (alive_of a) = set (pl_order p)" "topo_from (deps_for a) {} (pl_order p)" by (fact f)+
  show "last (pl_order p) = l" if "after_last (a_uses a) = Some l" "l \<in> set (pl_order p)"
    using that f(3) [of l] f(1) c(1) by simp
  have "set (st_dead (settled_of a)) = set (sv_withdrawn (survivors_of a))"
    using settled_of_facts(1) [of a] c(7) by (auto simp: sweep_inv_def deaths_ok_def)
  then show "set (pl_order p) = {m \<in> set (a_uses a). \<not> passed_over (a_uses a) (a_chosen a) m}"
    using f(1) c(1,2) by (auto simp: set_alive_of survivors_of_def choose_survivors_withdrawn)
qed

lemma topo_from_split: "topo_from deps {} (pre @ m # post) \<Longrightarrow> set (deps m) \<subseteq> set pre"
  by (simp add: topo_from_append)

subsection \<open>What the deployment picks\<close>

lemma missing_input_none: "missing_input inputs ins = '''' \<Longrightarrow> '''' \<notin> set ins \<Longrightarrow> i \<in> set ins \<Longrightarrow> inputs i \<noteq> ''''"
  by (auto simp: missing_input_def find_None_iff find_Some_iff split: option.splits dest: nth_mem)

lemma pick_loop_picks:
  "pick_loop d impls fm = Inr name \<Longrightarrow>
     \<exists>pre i post. impls = pre @ i # post \<and> i_name i = name \<and> wanted (de_env d) i
       \<and> missing_input (de_inputs d) (i_inputs i) = ''''
       \<and> (\<forall>j \<in> set pre. \<not> wanted (de_env d) j \<or> missing_input (de_inputs d) (i_inputs j) \<noteq> '''')"
proof (induction d impls fm rule: pick_loop.induct)
  case (2 d i "is" fm)
  show ?case
  proof (cases "wanted (de_env d) i \<and> missing_input (de_inputs d) (i_inputs i) = ''''")
    case True
    with "2.prems" have "i_name i = name" by simp
    with True show ?thesis by (intro exI [of _ "[]"] exI [of _ i] exI [of _ "is"]) simp
  next
    case False
    with "2.prems" "2.IH" obtain pre j post where "is = pre @ j # post" "i_name j = name" "wanted (de_env d) j"
      "missing_input (de_inputs d) (i_inputs j) = ''''"
      "\<forall>j \<in> set pre. \<not> wanted (de_env d) j \<or> missing_input (de_inputs d) (i_inputs j) \<noteq> ''''"
      by (cases "wanted (de_env d) i") (auto simp: Let_def split: if_splits)
    with False show ?thesis by (intro exI [of _ "i # pre"] exI [of _ j] exI [of _ post]) auto
  qed
qed simp

lemma pick_decls_picks:
  assumes "pick_decls d mds impl = (impl', [])"
  shows "impl' m = (if \<exists>dl. (m, dl) \<in> set mds then impl' m else impl m)"
    and "(m, dl) \<in> set mds \<Longrightarrow> \<exists>dl'. (m, dl') \<in> set mds \<and> (\<exists>n. pick_loop d (dl_impls dl') '''' = Inr n \<and> impl' m = Some n)"
proof -
  have "((\<exists>dl. (m, dl) \<in> set mds) \<or> impl' m = impl m)
      \<and> ((\<exists>dl. (m, dl) \<in> set mds) \<longrightarrow> (\<exists>dl'. (m, dl') \<in> set mds \<and> (\<exists>n. pick_loop d (dl_impls dl') '''' = Inr n \<and> impl' m = Some n)))"
    using assms
  proof (induction mds arbitrary: impl)
    case (Cons md mds)
    obtain m1 dl1 where md: "md = (m1, dl1)" by force
    obtain i1 is1 where p1: "pick_implementation d m1 dl1 impl = (i1, is1)" by force
    with Cons.prems md have p2: "pick_decls d mds i1 = (impl', [])" and e: "is1 = []" by (auto split: prod.splits)
    from p1 e obtain n where n: "pick_loop d (dl_impls dl1) '''' = Inr n" "i1 = impl(m1 := Some n)"
      by (auto simp: pick_implementation_def split: sum.splits if_splits)
    show ?case using Cons.IH [OF p2] n md by (cases "\<exists>dl. (m, dl) \<in> set mds") (auto split: if_splits)
  qed simp
  then show "impl' m = (if \<exists>dl. (m, dl) \<in> set mds then impl' m else impl m)"
    "(m, dl) \<in> set mds \<Longrightarrow> \<exists>dl'. (m, dl') \<in> set mds \<and> (\<exists>n. pick_loop d (dl_impls dl') '''' = Inr n \<and> impl' m = Some n)"
    by auto
qed

subsection \<open>Only the order speaks of cycles\<close>

lemma dedupe_no_order: "dedupe lives ms = (ls, is) \<Longrightarrow> no_order_sentence is"
  by (induction lives ms arbitrary: ls "is" rule: dedupe.induct)
    (auto simp: order_sentence_def split: if_splits prod.splits)

lemma self_issues_no_order: "no_order_sentence (self_issues m once dls)"
  by (induction dls arbitrary: once) (simp_all add: order_sentence_def Let_def)

lemma mixed_issues_no_order: "no_order_sentence (fst (mixed_issues lives keys said))"
  by (induction keys arbitrary: said) (auto simp: order_sentence_def case_prod_unfold)

lemma pick_decls_no_order: "pick_decls d mds impl = (impl', is) \<Longrightarrow> no_order_sentence is"
  by (induction mds arbitrary: impl impl' "is")
    (auto simp: pick_implementation_def order_sentence_def split: prod.splits if_splits sum.splits)

lemma settled_no_order: "no_order_sentence (st_issues (settled_of a))"
  unfolding settled_of_def by (rule unordered.loop) (simp add: settling_start_def)

lemma stages_no_order:
  "no_order_sentence (env_issues e)" "no_order_sentence (snd (dedupe [] ms))"
  "no_order_sentence (choose_issues lives chosen)" "no_order_sentence (self_sweep lives)"
  "no_order_sentence (after_issues lives)" "no_order_sentence (snd (pick_all d alive))"
  "no_order_sentence (map (\<lambda>(m, s). an_issue m (CloudSentence s)) cloud)"
  by (auto simp: env_issues_def choose_issues_def self_sweep_def after_issues_def pick_all_def order_sentence_def
      self_issues_no_order no_order_sentence_def [of "map f xs" for f xs]
      intro: dedupe_no_order [where lives = "[]"] pick_decls_no_order prod.collapse [symmetric]
      split: environment.split list.split)

text \<open>Every order issue is the one the build order gives.\<close>

lemma resolve_order_issue:
  assumes r: "resolve a d cloud = (p, is)" and i: "i \<in> set is" "order_sentence (is_text i)"
  shows "\<exists>c. is_text i = CycleOf (names c) (cycle_reasons (pl_contributors p) (pl_from p) c) \<and> is_cycle (pl_deps p) c"
proof -
  from resolve_plan(5) [OF r] obtain cyc unplaced where
    b: "build_order (alive_of a) (after_last (lives_of a)) (deps_for a) = (pl_order p, cyc, unplaced)" and
    iss: "is = env_issues (de_env d) @ snd (dedupe [] (a_uses a)) @ choose_issues (lives_of a) (a_chosen a)
            @ self_sweep (lives_of a) @ after_issues (lives_of a)
            @ fst (mixed_issues (lives_of a) (mixed_keys (lives_of a)) []) @ st_issues (settled_of a)
            @ (if env_known (de_env d) then snd (pick_all d (alive_of a)) else [])
            @ (if env_known (de_env d) then map (\<lambda>(m, s). an_issue m (CloudSentence s)) cloud else [])
            @ order_issues (deps_for a) (contributors_of (alive_of a)) (st_from (settled_of a)) cyc unplaced"
    by (elim exE conjE)
  note o = build_order_result [OF deps_for_within alive_distinct b]
  have "i \<in> set (order_issues (deps_for a) (contributors_of (alive_of a)) (st_from (settled_of a)) cyc unplaced)"
    using i stages_no_order mixed_issues_no_order settled_no_order
    unfolding iss no_order_sentence_def set_append
    by (auto simp: order_sentence_def [of "CloudSentence s" for s] split: if_splits)
  then obtain c where "cyc = Some c"
    "is_text i = CycleOf (names c) (cycle_reasons (contributors_of (alive_of a)) (st_from (settled_of a)) c)"
    using o(1) by (auto simp: order_issues_def split: option.splits)
  with o(2) resolve_plan(1,2,4) [OF r] show ?thesis by auto
qed

subsection \<open>What a plan without an issue guarantees\<close>

lemma resolve_clean_needs:
  assumes r: "resolve a d cloud = (p, [])" "pl_order p = pre @ m # post" and dl: "dl \<in> set (m_decls m)"
    "dl_kind dl \<in> {Needs, Optional}"
  shows "if dl_many dl then \<forall>c \<in> set (pl_order p). has_decl_key c Contributes (dl_key dl) \<longrightarrow> c \<in> set pre
     else (\<exists>s \<in> set pre. pl_from p (m, dl_key dl) = Some s \<and> supplies s (dl_key dl)
             \<and> (\<forall>s' \<in> set (pl_order p). supplies s' (dl_key dl) \<longrightarrow> s' = s))
       \<or> (dl_kind dl = Optional \<and> pl_from p (m, dl_key dl) = None
             \<and> (\<forall>s' \<in> set (pl_order p). \<not> supplies s' (dl_key dl)))"
proof -
  note al = resolve_clean_alive(2) [OF r(1)]
  have m: "m \<in> set (alive_of a)" using al r(2) by simp
  have pre: "set (deps_for a m) \<subseteq> set pre"
    using resolve_clean_alive(4) [OF r(1)] r(2) topo_from_split by metis
  have "self_issues m [] (m_decls m) = []"
    using resolve_clean(3) [OF r(1)] m by (auto simp: self_sweep_def set_alive_of)
  from self_issues_clean [OF this dl(1)] dl(2)
  have self: "if dl_many dl then \<not> has_decl_key m Contributes (dl_key dl) else \<not> supplies m (dl_key dl)"
    unfolding self_clean_def by (rule mp)
  show ?thesis
  proof (cases "dl_many dl")
    case True
    have "c \<in> set pre" if "c \<in> set (alive_of a)" "has_decl_key c Contributes (dl_key dl)" for c
    proof -
      have "c \<noteq> m" using that(2) self True by auto
      then have "c \<in> set (deps_for a m)" using that dl True set_deps_for [OF m] by auto
      with pre show ?thesis by auto
    qed
    with True al show ?thesis by simp
  next
    case False
    have "s \<in> set pre" if "st_from (settled_of a) (m, dl_key dl) = Some s" "s \<in> set (alive_of a)" "supplies s (dl_key dl)" for s
    proof -
      have "s \<noteq> m" using that(3) self False by auto
      then have "s \<in> set (deps_for a m)" using that dl False set_deps_for [OF m] by auto
      with pre show ?thesis by auto
    qed
    with alive_answered [OF m dl(1) False dl(2)] al False resolve_plan(2) [OF r(1)] show ?thesis by auto
  qed
qed

lemma resolve_clean_last:
  assumes r: "resolve a d cloud = (p, [])" "m \<in> set (pl_order p)" "has_decl m After"
  shows "pl_last p = Some m \<and> last (pl_order p) = m"
proof -
  have "m \<in> set (after_modules (lives_of a))"
    using r resolve_clean_alive(2) [OF r(1)] by (auto simp: after_modules_def set_alive_of)
  with resolve_clean(4) [OF r(1)] have "after_modules (lives_of a) = [m]"
    by (auto simp: after_issues_def split: list.splits)
  then have l: "after_last (a_uses a) = Some m"
    using resolve_clean(1) [OF r(1)] by (simp add: after_last_def)
  with resolve_clean_alive(5) [OF r(1) l r(2)] resolve_plan(3) [OF r(1)] resolve_clean(1) [OF r(1)]
  show ?thesis by simp
qed

lemma resolve_clean_picks:
  assumes r: "resolve a d cloud = (p, [])" "m \<in> set (pl_order p)" and dl: "dl \<in> set (m_decls m)" "dl_kind dl = FromDeployment"
  shows "\<exists>dl' \<in> set (m_decls m). \<exists>i \<in> set (dl_impls dl'). dl_kind dl' = FromDeployment
     \<and> pl_impl p m = Some (i_name i) \<and> (i_simulated i \<longrightarrow> de_env d = Development)
     \<and> ('''' \<notin> set (i_inputs i) \<longrightarrow> (\<forall>x \<in> set (i_inputs i). de_inputs d x \<noteq> ''''))"
proof -
  define mds where "mds = concat (map (\<lambda>m. map (\<lambda>dl. (m, dl))
      (filter (\<lambda>dl. dl_kind dl = FromDeployment) (m_decls m))) (alive_of a))"
  have "pick_all d (alive_of a) = (pl_impl p, [])"
    using resolve_plan(6) [OF r(1)] resolve_clean(5,6) [OF r(1)] by (simp add: prod_eq_iff)
  then have pd: "pick_decls d mds (\<lambda>_. None) = (pl_impl p, [])" by (simp add: pick_all_def mds_def)
  have "(m, dl) \<in> set mds" using r(2) dl resolve_clean_alive(2) [OF r(1)] by (auto simp: mds_def)
  from pick_decls_picks(2) [OF pd this] obtain dl' n where
    n: "(m, dl') \<in> set mds" "pick_loop d (dl_impls dl') '''' = Inr n" "pl_impl p m = Some n" by auto
  from pick_loop_picks [OF n(2)] obtain i where
    i: "i \<in> set (dl_impls dl')" "i_name i = n" "wanted (de_env d) i" "missing_input (de_inputs d) (i_inputs i) = ''''"
    by (metis in_set_conv_decomp)
  have "dl' \<in> set (m_decls m)" "dl_kind dl' = FromDeployment" using n(1) by (auto simp: mds_def)
  with i n(3) missing_input_none [OF i(4)] show ?thesis by (intro bexI [of _ dl'] bexI [of _ i]) (auto simp: wanted_def)
qed

end
