(* ===== verification/ResolveProperties.thy ===== *)
theory ResolveProperties
  imports Resolution
begin

section \<open>What a resolved composition is worth\<close>

text \<open>
  The properties of \<open>resolve\<close> (\<open>pkit/resolve.go\<close>), over example compositions that show their
  hypotheses can hold: who is built, in which order, on which implementations, and what a
  refusal says.
\<close>

section \<open>Example compositions\<close>

text \<open>
  A shop: \<open>checkout\<close> needs the cart and takes every line the other modules contribute, two
  modules provide payments and the app chose one, the audit runs after everything.
\<close>

definition contract_named :: "string \<Rightarrow> string \<Rightarrow> rtype" where
  "contract_named m n = TType (''shop/'' @ m @ ''/contracts'') n (''contracts.'' @ n)"

definition cart_module :: module where
  "cart_module = \<lparr>m_ptr = 1, m_name = ''cart'', m_decls = [provides_decl (contract_named ''cart'' ''Service''),
     contributes_decl (contract_named ''checkout'' ''Line'')]\<rparr>"

definition stripe_module :: module where
  "stripe_module = \<lparr>m_ptr = 2, m_name = ''stripe'', m_decls = [provides_decl (contract_named ''pay'' ''Gateway''),
     from_deployment_decl [\<lparr>i_name = ''live'', i_inputs = [''STRIPE_KEY''], i_simulated = False\<rparr>,
                           \<lparr>i_name = ''fake'', i_inputs = [], i_simulated = True\<rparr>]]\<rparr>"

definition adyen_module :: module where
  "adyen_module = \<lparr>m_ptr = 3, m_name = ''adyen'', m_decls = [provides_decl (contract_named ''pay'' ''Gateway'')]\<rparr>"

definition checkout_module :: module where
  "checkout_module = \<lparr>m_ptr = 4, m_name = ''checkout'', m_decls = [need_decl Needs (Plain (contract_named ''cart'' ''Service'')),
     need_decl Needs (Plain (contract_named ''pay'' ''Gateway'')),
     need_decl Needs (UnnamedSlice (contract_named ''checkout'' ''Line''))]\<rparr>"

definition audit_module :: module where
  "audit_module = \<lparr>m_ptr = 5, m_name = ''audit'', m_decls = [after_decl]\<rparr>"

definition shop :: application where
  "shop = \<lparr>a_name = ''shop'', a_uses = [audit_module, checkout_module, cart_module, stripe_module, adyen_module],
     a_chosen = [stripe_module]\<rparr>"

definition live_deployment :: deployment where
  "live_deployment = \<lparr>de_env = Production, de_inputs = (\<lambda>k. if k = ''STRIPE_KEY'' then ''sk'' else '''')\<rparr>"

text \<open>Two modules that wait for each other.\<close>

definition looped :: application where
  "looped = \<lparr>a_name = ''looped'', a_uses =
     [\<lparr>m_ptr = 1, m_name = ''a'', m_decls = [provides_decl (contract_named ''a'' ''A''), need_decl Needs (Plain (contract_named ''b'' ''B''))]\<rparr>,
      \<lparr>m_ptr = 2, m_name = ''b'', m_decls = [provides_decl (contract_named ''b'' ''B''), need_decl Needs (Plain (contract_named ''a'' ''A''))]\<rparr>],
     a_chosen = []\<rparr>"

text \<open>A module that needs two contracts of one printed name that nobody provides.\<close>

definition twice_missing :: application where
  "twice_missing = \<lparr>a_name = ''app'', a_uses =
     [\<lparr>m_ptr = 1, m_name = ''checkout'', m_decls = [need_decl Needs (Plain (contract_named ''cart'' ''Service'')),
        need_decl Needs (Plain (contract_named ''user'' ''Service''))]\<rparr>], a_chosen = []\<rparr>"

lemma shop_resolved: "resolve shop live_deployment [] = (fst (resolve shop live_deployment []), [])"
proof -
  have "snd (resolve shop live_deployment []) = []" by code_simp
  then show ?thesis by (simp add: prod_eq_iff)
qed

lemma shop_order: "pl_order (fst (resolve shop live_deployment [])) = [cart_module, stripe_module, checkout_module, audit_module]"
  by code_simp

section \<open>Properties\<close>

text \<open>
  C1: A composition \<open>resolve\<close> has no issue with builds every module \<open>Use\<close> names, each once, except
  exactly those \<open>Choose\<close> passed over: the ones that were not chosen although they supply a
  contract a chosen module supplies.  Nobody is left out in silence.
\<close>

theorem resolve_builds_whom_use_names:
  assumes "resolve a d cloud = (p, [])"
  shows "distinct (pl_order p)
    \<and> set (pl_order p) = {m \<in> set (a_uses a). \<not> passed_over (a_uses a) (a_chosen a) m}"
  using resolve_clean_alive [OF assms] by simp

theorem resolve_builds_whom_use_names_witness:
  "set (pl_order (fst (resolve shop live_deployment []))) =
     {m \<in> set (a_uses shop). \<not> passed_over (a_uses shop) (a_chosen shop) m}
   \<and> adyen_module \<notin> set (pl_order (fst (resolve shop live_deployment [])))"
proof -
  have "adyen_module \<notin> set (pl_order (fst (resolve shop live_deployment [])))"
    unfolding shop_order by code_simp
  with resolve_builds_whom_use_names [OF shop_resolved] show ?thesis by blast
qed

text \<open>
  C2: In a composition without an issue every module comes after what it depends on: the one
  supplier of a single need, which is the only module built that supplies the contract; the
  supplier of a single optional need, or nobody when no module built supplies it; and every
  contributor of a contract it takes all of.
\<close>

theorem resolve_needs_come_first:
  assumes "resolve a d cloud = (p, [])" "pl_order p = pre @ m # post" "dl \<in> set (m_decls m)"
    "dl_kind dl \<in> {Needs, Optional}"
  shows "if dl_many dl then \<forall>c \<in> set (pl_order p). has_decl_key c Contributes (dl_key dl) \<longrightarrow> c \<in> set pre
     else (\<exists>s \<in> set pre. pl_from p (m, dl_key dl) = Some s \<and> supplies s (dl_key dl)
             \<and> (\<forall>s' \<in> set (pl_order p). supplies s' (dl_key dl) \<longrightarrow> s' = s))
       \<or> (dl_kind dl = Optional \<and> pl_from p (m, dl_key dl) = None
             \<and> (\<forall>s' \<in> set (pl_order p). \<not> supplies s' (dl_key dl)))"
  by (rule resolve_clean_needs [OF assms])

theorem resolve_needs_come_first_witness:
  "\<exists>s \<in> {cart_module, stripe_module}.
     pl_from (fst (resolve shop live_deployment [])) (checkout_module, contract_named ''cart'' ''Service'') = Some s"
proof -
  let ?dl = "need_decl Needs (Plain (contract_named ''cart'' ''Service''))"
  have dl: "?dl \<in> set (m_decls checkout_module)" "dl_kind ?dl \<in> {Needs, Optional}" "\<not> dl_many ?dl"
    "dl_kind ?dl \<noteq> Optional" "dl_key ?dl = contract_named ''cart'' ''Service''"
    by (simp_all add: checkout_module_def need_decl_def)
  have "pl_order (fst (resolve shop live_deployment [])) = [cart_module, stripe_module] @ checkout_module # [audit_module]"
    by (simp add: shop_order)
  from resolve_needs_come_first [OF shop_resolved this dl(1,2)] dl show ?thesis by auto
qed

text \<open>
  C3: At most one module runs after everything, and when it is built it is built last.
\<close>

theorem resolve_last_is_last:
  assumes "resolve a d cloud = (p, [])" "m \<in> set (pl_order p)" "has_decl m After"
  shows "pl_last p = Some m \<and> last (pl_order p) = m"
  by (rule resolve_clean_last [OF assms])

theorem resolve_last_is_last_witness:
  "pl_last (fst (resolve shop live_deployment [])) = Some audit_module"
proof -
  have m: "audit_module \<in> set (pl_order (fst (resolve shop live_deployment [])))" by (simp add: shop_order)
  have "has_decl audit_module After" by code_simp
  from resolve_last_is_last [OF shop_resolved m this] show ?thesis by simp
qed

text \<open>
  C4: A cycle \<open>resolve\<close> reports is a cycle: a closed walk along the plan's build dependencies,
  its head repeated at its tail, named in order; and no module is ever reported as one that
  no order places, since a composition that cannot be ordered has a cycle.
\<close>

theorem resolve_reports_real_cycles:
  assumes "resolve a d cloud = (p, is)" "i \<in> set is"
  shows "is_text i \<noteq> Unplaced x y
    \<and> (\<forall>ns why. is_text i = CycleOf ns why \<longrightarrow> (\<exists>c. ns = names c \<and> is_cycle (pl_deps p) c))"
proof (cases "order_sentence (is_text i)")
  case True
  with resolve_order_issue [OF assms] show ?thesis by auto
next
  case False
  then show ?thesis by (auto simp: order_sentence_def)
qed

theorem resolve_reports_real_cycles_witness:
  "\<exists>c. [''a'', ''b'', ''a''] = names c \<and> is_cycle (pl_deps (fst (resolve looped live_deployment []))) c"
proof -
  obtain i where i: "snd (resolve looped live_deployment []) = [i]"
    "is_text i = CycleOf [''a'', ''b'', ''a''] ''a needs bcontracts.B from b; b needs acontracts.A from a''"
  proof
    show "snd (resolve looped live_deployment []) = [an_issue ''Use''
       (CycleOf [''a'', ''b'', ''a''] ''a needs bcontracts.B from b; b needs acontracts.A from a'')]"
      by code_simp
  qed simp
  have "resolve looped live_deployment [] = (fst (resolve looped live_deployment []), [i])"
    using i(1) by (simp add: prod_eq_iff)
  from resolve_reports_real_cycles [OF this, of i] i(2) show ?thesis by simp
qed

text \<open>
  C5: What the deployment picks, it picks honestly: a module built that declares
  implementations runs on one it declared, a simulated one in development only, and every
  input that implementation reads is set (an input without a name aside).
\<close>

theorem resolve_picks_honestly:
  assumes "resolve a d cloud = (p, [])" "m \<in> set (pl_order p)" "dl \<in> set (m_decls m)" "dl_kind dl = FromDeployment"
  shows "\<exists>dl' \<in> set (m_decls m). \<exists>i \<in> set (dl_impls dl'). dl_kind dl' = FromDeployment
     \<and> pl_impl p m = Some (i_name i) \<and> (i_simulated i \<longrightarrow> de_env d = Development)
     \<and> ('''' \<notin> set (i_inputs i) \<longrightarrow> (\<forall>x \<in> set (i_inputs i). de_inputs d x \<noteq> ''''))"
  by (rule resolve_clean_picks [OF assms])

theorem resolve_picks_honestly_witness:
  "\<exists>n. pl_impl (fst (resolve shop live_deployment [])) stripe_module = Some n"
proof -
  let ?dl = "from_deployment_decl [\<lparr>i_name = ''live'', i_inputs = [''STRIPE_KEY''], i_simulated = False\<rparr>,
                           \<lparr>i_name = ''fake'', i_inputs = [], i_simulated = True\<rparr>]"
  have m: "stripe_module \<in> set (pl_order (fst (resolve shop live_deployment [])))" by (simp add: shop_order)
  have dl: "?dl \<in> set (m_decls stripe_module)" "dl_kind ?dl = FromDeployment"
    by (simp_all add: stripe_module_def from_deployment_decl_def)
  from resolve_picks_honestly [OF shop_resolved m dl] show ?thesis by auto
qed

text \<open>
  A sentence said once is remembered by the printed name of the contract, which packages
  share: a module that needs two services nobody provides, one of the cart's and one of the
  user's contracts, is told about the first alone.
\<close>

lemma resolve_hides_second_missing_service:
  "map is_text (snd (resolve twice_missing live_deployment [])) =
     [MissingProvider ''checkout'' (contract_named ''cart'' ''Service'') ''add cart.Module to app'']
   \<and> contract (contract_named ''cart'' ''Service'') \<noteq> contract (contract_named ''user'' ''Service'')"
  by code_simp

end
