(* ===== verification/AppNames.thy ===== *)
theory AppNames
  imports Prelude
begin

section \<open>Application names and the addresses formed from them\<close>

text \<open>
  \<open>kit/appname/appname.go\<close>: the slug grammar of an application's name and every address,
  key and path the kernel forms from it; and the check of a delivered message's address in
  \<open>kit/events/transport/subject.go\<close>.  The empty name is the deployment that names no
  application.  The lemmas show that the grammar is the one the pattern states, and that the
  formed keys can be read back, so no caller's text reaches another application's or
  another tenant's key.
\<close>

type_synonym app_name = string

subsection \<open>The slug grammar\<close>

definition is_lower :: "char \<Rightarrow> bool" where
  "is_lower c \<longleftrightarrow> c \<in> set ''abcdefghijklmnopqrstuvwxyz''"

definition is_alnum :: "char \<Rightarrow> bool" where
  "is_alnum c \<longleftrightarrow> c \<in> set ''abcdefghijklmnopqrstuvwxyz0123456789''"

text \<open>
  \<open>slugPattern\<close> is \<open>^[a-z][a-z0-9]*(-[a-z0-9]+)*$\<close>; the matcher is its automaton, the
  flag saying that the last character read was a dash.
\<close>

fun slug_tail :: "bool \<Rightarrow> string \<Rightarrow> bool" where
  "slug_tail dash [] = (\<not> dash)"
| "slug_tail dash (c # cs) =
     (if is_alnum c then slug_tail False cs
      else if c = CHR ''-'' \<and> \<not> dash then slug_tail True cs
      else False)"

fun slug_pattern :: "string \<Rightarrow> bool" where
  "slug_pattern [] = False"
| "slug_pattern (c # cs) = (is_lower c \<and> slug_tail False cs)"

definition valid_name :: "app_name \<Rightarrow> bool" where
  "valid_name n \<longleftrightarrow> slug_pattern n \<and> length n \<le> 32"

datatype name_error = NotAnAppName string

definition parse_name :: "string \<Rightarrow> name_error + app_name" where
  "parse_name v = (if \<not> slug_pattern v \<or> length v > 32 then Inl (NotAnAppName v) else Inr v)"

definition named :: "app_name \<Rightarrow> bool" where
  "named n \<longleftrightarrow> n \<noteq> ''''"

definition token :: "app_name \<Rightarrow> string" where
  "token n = (if \<not> valid_name n then '''' else n)"

subsection \<open>Addresses\<close>

definition prefix_ns :: string where
  "prefix_ns = ''platformkit''"

definition previous_subject :: "(uuid \<Rightarrow> string) \<Rightarrow> uuid \<Rightarrow> string \<Rightarrow> string" where
  "previous_subject us tenant name = prefix_ns @ ''.'' @ us tenant @ ''.'' @ name"

definition subject :: "(uuid \<Rightarrow> string) \<Rightarrow> app_name \<Rightarrow> uuid \<Rightarrow> string \<Rightarrow> string" where
  "subject us app tenant name =
     (if \<not> named app then previous_subject us tenant name
      else prefix_ns @ ''.'' @ token app @ ''.'' @ us tenant @ ''.'' @ name)"

definition oldest_subject :: "string \<Rightarrow> string" where
  "oldest_subject name = prefix_ns @ ''.'' @ name"

definition previous_filter :: "string \<Rightarrow> string" where
  "previous_filter name = prefix_ns @ ''.*.'' @ name"

definition filter_of :: "app_name \<Rightarrow> string \<Rightarrow> string" where
  "filter_of app name =
     (if \<not> named app then previous_filter name
      else prefix_ns @ ''.'' @ token app @ ''.*.'' @ name)"

definition filters_of :: "app_name \<Rightarrow> string \<Rightarrow> string list" where
  "filters_of app name =
     (if \<not> named app then [previous_filter name, oldest_subject name]
      else [filter_of app name, previous_filter name, oldest_subject name])"

definition space_of :: "app_name \<Rightarrow> string" where
  "space_of app =
     (if \<not> named app then prefix_ns @ ''.'' else prefix_ns @ ''.'' @ token app @ ''.'')"

definition durable_prefix :: "app_name \<Rightarrow> string" where
  "durable_prefix app = (if \<not> named app then '''' else token app @ ''+'')"

text \<open>\<open>strings.ReplaceAll(event, ".", "-")\<close>.\<close>

definition dots_to_dashes :: "string \<Rightarrow> string" where
  "dots_to_dashes e = map (\<lambda>c. if c = CHR ''.'' then CHR ''-'' else c) e"

definition durable :: "app_name \<Rightarrow> string \<Rightarrow> string \<Rightarrow> string" where
  "durable app module event = durable_prefix app @ module @ ''-'' @ dots_to_dashes event"

definition job_lock :: "app_name \<Rightarrow> string \<Rightarrow> string" where
  "job_lock app job = (if \<not> named app then ''job:'' @ job else token app @ ''/job:'' @ job)"

definition cookie :: "app_name \<Rightarrow> string \<Rightarrow> bool \<Rightarrow> string" where
  "cookie app base secure =
     (if \<not> named app then (if secure then ''__Host-'' @ base else base)
      else if secure then ''__Host-'' @ token app @ ''-'' @ base
      else token app @ ''-'' @ base)"

definition rate_limit_key :: "(uuid \<Rightarrow> string) \<Rightarrow> app_name \<Rightarrow> uuid \<Rightarrow> string \<Rightarrow> string" where
  "rate_limit_key us app tenant key =
     (if \<not> named app then us tenant @ ''/'' @ key
      else token app @ ''/'' @ us tenant @ ''/'' @ key)"

definition cache_key :: "(uuid \<Rightarrow> string) \<Rightarrow> app_name \<Rightarrow> uuid \<Rightarrow> string \<Rightarrow> string" where
  "cache_key us app tenant key = token app @ '':'' @ us tenant @ '':'' @ key"

definition storage_path :: "(uuid \<Rightarrow> string) \<Rightarrow> app_name \<Rightarrow> uuid \<Rightarrow> uuid \<Rightarrow> string" where
  "storage_path us app tenant key =
     (if \<not> named app then
        (let shard = take 2 (us key) in us tenant @ ''/'' @ shard @ ''/'' @ us key)
      else token app @ ''/'' @ us tenant @ ''/'' @ us key)"

definition source_of :: "app_name \<Rightarrow> string \<Rightarrow> string" where
  "source_of app module =
     (if \<not> named app then ''/'' @ module else ''/'' @ token app @ ''/'' @ module)"

fun join_with :: "string \<Rightarrow> string list \<Rightarrow> string" where
  "join_with sep [] = ''''"
| "join_with sep [x] = x"
| "join_with sep (x # y # xs) = x @ sep @ join_with sep (y # xs)"

definition connection_name :: "string \<Rightarrow> app_name list \<Rightarrow> string" where
  "connection_name process apps =
     (let process' = (if process = '''' then prefix_ns else process);
          tokens = map token (filter named apps)
      in if apps = [] then process'
         else if tokens = [] then process'
         else process' @ ''/'' @ join_with ''+'' tokens)"

subsection \<open>The check of a delivered message's address\<close>

record event =
  ev_app :: app_name
  ev_tenant :: uuid
  ev_name :: string

datatype mismatch =
    ReaderNotAName
  | DocumentNotAName
  | DocumentOfAnotherApp
  | DocumentNamesNoApp
  | WrongAddress

definition address_mismatch :: "(uuid \<Rightarrow> string) \<Rightarrow> app_name \<Rightarrow> string \<Rightarrow> event \<Rightarrow> mismatch option" where
  "address_mismatch us app subj ev =
     (if named app \<and> \<not> valid_name app then Some ReaderNotAName
      else if named (ev_app ev) \<and> \<not> valid_name (ev_app ev) then Some DocumentNotAName
      else if named (ev_app ev) \<and> ev_app ev \<noteq> app then Some DocumentOfAnotherApp
      else if \<not> named (ev_app ev) \<and> named app then Some DocumentNamesNoApp
      else if subj = subject us app (ev_tenant ev) (ev_name ev) then None
      else if \<not> named app \<and> subj = oldest_subject (ev_name ev) then None
      else Some WrongAddress)"

subsection \<open>The grammar, as the pattern spells it\<close>

lemma is_lower_alnum: "is_lower c \<Longrightarrow> is_alnum c"
  by (auto simp: is_lower_def is_alnum_def)

lemma alnum_seps [simp]:
  "\<not> is_alnum (CHR ''-'')" "\<not> is_alnum (CHR ''/'')" "\<not> is_alnum (CHR ''.'')"
  "\<not> is_alnum (CHR '':'')" "\<not> is_alnum (CHR ''+'')"
  by (simp_all add: is_alnum_def)

lemma slug_tail_chars: "slug_tail b cs \<Longrightarrow> c \<in> set cs \<Longrightarrow> is_alnum c \<or> c = CHR ''-''"
  by (induction b cs rule: slug_tail.induct) (auto split: if_splits)

lemma slug_tail_append:
  "list_all is_alnum x \<Longrightarrow> slug_tail b (x @ ys) = (if x = [] then slug_tail b ys else slug_tail False ys)"
  by (induction x arbitrary: b) auto

text \<open>A body of the pattern: words of the alphabet, none empty, joined by single dashes.\<close>

lemma slug_tail_join:
  assumes "list_all (\<lambda>w. w \<noteq> [] \<and> list_all is_alnum w) ws" and "list_all is_alnum x"
  shows "slug_tail False (x @ concat (map (\<lambda>w. CHR ''-'' # w) ws))"
  using assms
proof (induction ws arbitrary: x)
  case Nil
  then show ?case using slug_tail_append [of x False "[]"] by simp
next
  case (Cons w ws)
  have "slug_tail False (w @ concat (map (\<lambda>w. CHR ''-'' # w) ws))"
    using Cons by simp
  with Cons.prems show ?case by (auto simp: slug_tail_append)
qed

lemma slug_tail_split:
  "slug_tail b cs \<Longrightarrow>
     \<exists>x ws. cs = x @ concat (map (\<lambda>w. CHR ''-'' # w) ws) \<and> list_all is_alnum x \<and> (b \<longrightarrow> x \<noteq> [])
       \<and> list_all (\<lambda>w. w \<noteq> [] \<and> list_all is_alnum w) ws"
proof (induction b cs rule: slug_tail.induct)
  case (1 dash)
  then show ?case by (intro exI [of _ "[]"]) simp
next
  case (2 dash c cs)
  show ?case
  proof (cases "is_alnum c")
    case True
    with "2.prems" "2.IH"(1) obtain x ws where
      "cs = x @ concat (map (\<lambda>w. CHR ''-'' # w) ws)" "list_all is_alnum x"
      "list_all (\<lambda>w. w \<noteq> [] \<and> list_all is_alnum w) ws" by auto
    with True show ?thesis by (intro exI [of _ "c # x"] exI [of _ ws]) simp
  next
    case False
    with "2.prems" have c: "c = CHR ''-''" "\<not> dash" "slug_tail True cs"
      by (auto split: if_splits)
    with False "2.IH"(2) obtain x ws where
      "cs = x @ concat (map (\<lambda>w. CHR ''-'' # w) ws)" "list_all is_alnum x" "x \<noteq> []"
      "list_all (\<lambda>w. w \<noteq> [] \<and> list_all is_alnum w) ws" by auto
    with c show ?thesis by (intro exI [of _ "[]"] exI [of _ "x # ws"]) simp
  qed
qed

lemma slug_pattern_iff:
  "slug_pattern n \<longleftrightarrow>
     (\<exists>c x ws. n = c # x @ concat (map (\<lambda>w. CHR ''-'' # w) ws) \<and> is_lower c \<and> list_all is_alnum x
        \<and> list_all (\<lambda>w. w \<noteq> [] \<and> list_all is_alnum w) ws)"
proof (cases n)
  case Nil
  then show ?thesis by simp
next
  case (Cons c cs)
  show ?thesis
  proof
    assume "slug_pattern n"
    with Cons have "is_lower c" "slug_tail False cs" by auto
    with Cons slug_tail_split [of False cs]
    show "\<exists>c x ws. n = c # x @ concat (map (\<lambda>w. CHR ''-'' # w) ws) \<and> is_lower c \<and> list_all is_alnum x
        \<and> list_all (\<lambda>w. w \<noteq> [] \<and> list_all is_alnum w) ws" by blast
  next
    assume "\<exists>c x ws. n = c # x @ concat (map (\<lambda>w. CHR ''-'' # w) ws) \<and> is_lower c \<and> list_all is_alnum x
        \<and> list_all (\<lambda>w. w \<noteq> [] \<and> list_all is_alnum w) ws"
    then show "slug_pattern n" using slug_tail_join by auto
  qed
qed

lemma valid_name_chars:
  assumes "valid_name n"
  shows "n \<noteq> []" "length n \<le> 32" "\<And>c. c \<in> set n \<Longrightarrow> is_alnum c \<or> c = CHR ''-''"
proof -
  from assms obtain c cs where n: "n = c # cs" "is_lower c" "slug_tail False cs" "length n \<le> 32"
    by (cases n) (auto simp: valid_name_def)
  show "n \<noteq> []" "length n \<le> 32" using n by auto
  show "is_alnum d \<or> d = CHR ''-''" if "d \<in> set n" for d
    using that n slug_tail_chars [of False cs d] is_lower_alnum by auto
qed

lemma valid_name_no_sep:
  assumes "valid_name n"
  shows "CHR ''/'' \<notin> set n" "CHR ''.'' \<notin> set n" "CHR '':'' \<notin> set n" "CHR ''+'' \<notin> set n"
  using valid_name_chars(3) [OF assms, of "CHR ''/''"] valid_name_chars(3) [OF assms, of "CHR ''.''"]
    valid_name_chars(3) [OF assms, of "CHR '':''"] valid_name_chars(3) [OF assms, of "CHR ''+''"]
  by auto

text \<open>A name a process may run under: none, or a slug.\<close>

definition usable :: "app_name \<Rightarrow> bool" where
  "usable n \<longleftrightarrow> \<not> named n \<or> valid_name n"

lemma token_valid [simp]: "valid_name n \<Longrightarrow> token n = n"
  by (simp add: token_def)

lemma token_unnamed [simp]: "token [] = []"
  by (simp add: token_def)

lemma token_usable: "usable n \<Longrightarrow> token n = n"
  by (auto simp: usable_def named_def)

lemma parse_name_valid: "parse_name v = Inr n \<longleftrightarrow> n = v \<and> valid_name v"
  by (auto simp: parse_name_def valid_name_def)

subsection \<open>Keys and addresses can be read back\<close>

lemma rate_limit_key_named_unnamed:
  assumes us: "uuid_spelling us" and v: "valid_name a"
  shows "rate_limit_key us a t k \<noteq> us t' @ ''/'' @ k'"
proof
  assume eq: "rate_limit_key us a t k = us t' @ ''/'' @ k'"
  have na: "named a" using valid_name_chars(1) [OF v] by (simp add: named_def)
  from eq na v have "a @ CHR ''/'' # (us t @ ''/'' @ k) = us t' @ CHR ''/'' # k'"
    by (simp add: rate_limit_key_def)
  then have "a = us t'"
    using append_sep_eq [of "CHR ''/''" a "us t'"] valid_name_no_sep(1) [OF v]
      uuid_spelling_no_sep(1) [OF us] by blast
  with valid_name_chars(2) [OF v] uuid_spelling_length [OF us, of t'] show False by simp
qed

lemma rate_limit_key_eqD:
  assumes us: "uuid_spelling us" and u: "usable a" "usable a'"
    and eq: "rate_limit_key us a t k = rate_limit_key us a' t' k'"
  shows "a = a' \<and> t = t' \<and> k = k'"
proof (cases "named a")
  case True
  then have v: "valid_name a" using u by (simp add: usable_def)
  show ?thesis
  proof (cases "named a'")
    case True
    then have v': "valid_name a'" using u by (simp add: usable_def)
    from eq \<open>named a\<close> True v v'
    have "a @ CHR ''/'' # (us t @ CHR ''/'' # k) = a' @ CHR ''/'' # (us t' @ CHR ''/'' # k')"
      by (simp add: rate_limit_key_def)
    from append_sep_eq [OF valid_name_no_sep(1) [OF v] valid_name_no_sep(1) [OF v'] this]
    have "a = a'" "us t @ CHR ''/'' # k = us t' @ CHR ''/'' # k'" by auto
    with append_len_sep_eq [OF _ this(2)] uuid_spelling_length [OF us] uuid_spelling_inj [OF us]
    show ?thesis by auto
  next
    case False
    with eq rate_limit_key_named_unnamed [OF us v] show ?thesis by (auto simp: rate_limit_key_def)
  qed
next
  case False
  show ?thesis
  proof (cases "named a'")
    case True
    then have v': "valid_name a'" using u by (simp add: usable_def)
    from False eq rate_limit_key_named_unnamed [OF us v', of t' k' t k]
    show ?thesis by (auto simp: rate_limit_key_def)
  next
    case na': False
    from eq False na' have "us t @ CHR ''/'' # k = us t' @ CHR ''/'' # k'"
      by (simp add: rate_limit_key_def)
    with append_len_sep_eq [OF _ this] uuid_spelling_length [OF us] uuid_spelling_inj [OF us]
    show ?thesis using False na' by (auto simp: named_def)
  qed
qed

lemma cache_key_eqD:
  assumes us: "uuid_spelling us" and u: "usable a" "usable a'"
    and eq: "cache_key us a t k = cache_key us a' t' k'"
  shows "a = a' \<and> t = t' \<and> k = k'"
proof -
  have sep: "CHR '':'' \<notin> set (token b)" if "usable b" for b
    using that valid_name_no_sep(3) [of b] by (auto simp: usable_def named_def token_usable)
  from eq have "token a @ CHR '':'' # (us t @ CHR '':'' # k) = token a' @ CHR '':'' # (us t' @ CHR '':'' # k')"
    by (simp add: cache_key_def)
  from append_sep_eq [OF sep [OF u(1)] sep [OF u(2)] this]
  have "token a = token a'" "us t @ CHR '':'' # k = us t' @ CHR '':'' # k'" by auto
  with append_len_sep_eq [OF _ this(2)] uuid_spelling_length [OF us] uuid_spelling_inj [OF us] u
  show ?thesis by (auto simp: token_usable)
qed

lemma address_mismatch_None_iff:
  "address_mismatch us app subj ev = None \<longleftrightarrow>
     usable app \<and> ev_app ev = app \<and>
     (subj = subject us app (ev_tenant ev) (ev_name ev)
        \<or> \<not> named app \<and> subj = oldest_subject (ev_name ev))"
  by (auto simp: address_mismatch_def usable_def named_def)

text \<open>Under a named application one stored address is one tenant's one event.\<close>

lemma subject_named_eqD:
  assumes us: "uuid_spelling us" and v: "valid_name a"
    and eq: "subject us a t n = subject us a t' n'"
  shows "t = t' \<and> n = n'"
proof -
  have "named a" using valid_name_chars(1) [OF v] by (simp add: named_def)
  with eq v have "us t @ CHR ''.'' # n = us t' @ CHR ''.'' # n'"
    by (simp add: subject_def prefix_ns_def)
  with append_len_sep_eq [OF _ this] uuid_spelling_length [OF us] uuid_spelling_inj [OF us]
  show ?thesis by auto
qed

lemma subject_eqD:
  assumes us: "uuid_spelling us" and u: "usable a"
    and eq: "subject us a t n = subject us a t' n'"
  shows "t = t' \<and> n = n'"
proof (cases "named a")
  case True
  then have "valid_name a" using u by (simp add: usable_def)
  from subject_named_eqD [OF us this eq] show ?thesis .
next
  case False
  with eq have "us t @ CHR ''.'' # n = us t' @ CHR ''.'' # n'"
    by (simp add: subject_def previous_subject_def prefix_ns_def)
  with append_len_sep_eq [OF _ this] uuid_spelling_length [OF us] uuid_spelling_inj [OF us]
  show ?thesis by auto
qed

end
