(* ===== verification/RateLimit.thy ===== *)
theory RateLimit
  imports AppNames "HOL-Library.Finite_Map"
begin

section \<open>The shared rate limit\<close>

text \<open>
  \<open>kit/limit/limit.go\<close> and \<open>kit/limit/memory.go\<close>.  A counter is one row per key and
  window.  The table \<open>platformkit_limits\<close> is a finite map from the stored key to its row,
  and each SQL statement of the source is one function on it, with the transaction's
  instant (\<open>now()\<close>) and the instant of the reading (\<open>clock_timestamp()\<close>) as arguments; a
  Postgres \<open>integer\<close> is an \<open>int\<close> whose additions fail outside 32 bits.  The number of
  seconds the statement answers is read as exact nanoseconds (the source scans a float).

  The last part states the \<open>Limiter\<close> interface as a locale over an abstract view of the
  counters and interprets it on both stores.
\<close>

subsection \<open>Constants\<close>

definition keep :: duration where "keep = 24 * hour"
definition max_window :: duration where "max_window = keep"
definition max_quota :: int where "max_quota = 2147483647 - 1"
definition max_tracked :: nat where "max_tracked = 10000"

text \<open>A reply: allowed, what remains of the quota, how long the window has left.\<close>

type_synonym reply = "bool \<times> int \<times> duration"

definition decided :: "int \<Rightarrow> int \<Rightarrow> duration \<Rightarrow> reply" where
  "decided quota count left = (count \<le> quota, max (quota - count) 0, max left 0)"

text \<open>The key as it is stored: the tenant of the context, or the nil identifier.\<close>

definition scoped :: "(uuid \<Rightarrow> string) \<Rightarrow> app_name \<Rightarrow> uuid option \<Rightarrow> string \<Rightarrow> string" where
  "scoped us app ctx key =
     rate_limit_key us app (case ctx of None \<Rightarrow> uuid_nil | Some t \<Rightarrow> t) key"

subsection \<open>The in-memory limiter\<close>

record window =
  w_count :: int
  w_start :: time

type_synonym memory = "(string, window) fmap"

definition mem_prune :: "time \<Rightarrow> memory \<Rightarrow> memory" where
  "mem_prune now m =
     (if fcard (fmdom m) < max_tracked then m
      else let cutoff = now - keep;
               m' = fmfilter (\<lambda>k. case fmlookup m k of None \<Rightarrow> False | Some w \<Rightarrow> \<not> w_start w < cutoff) m
           in if fcard (fmdom m') \<ge> max_tracked then fmempty else m')"

text \<open>\<open>np\<close> is the clock as \<open>prune\<close> reads it, \<open>now\<close> the reading that follows.\<close>

definition mem_reserve ::
  "time \<Rightarrow> time \<Rightarrow> string \<Rightarrow> int \<Rightarrow> duration \<Rightarrow> memory \<Rightarrow> memory \<times> reply" where
  "mem_reserve np now k limit w m =
     (let m1 = mem_prune np m;
          cur = (case fmlookup m1 k of
                   None \<Rightarrow> \<lparr>w_count = 0, w_start = now\<rparr>
                 | Some c \<Rightarrow> if \<not> now - w < w_start c then \<lparr>w_count = 0, w_start = now\<rparr> else c);
          cur' = cur\<lparr>w_count := w_count cur + 1\<rparr>
      in (fmupd k cur' m1, decided limit (w_count cur') (w_start cur' + w - now)))"

definition mem_allow ::
  "time \<Rightarrow> time \<Rightarrow> string \<Rightarrow> int \<Rightarrow> duration \<Rightarrow> memory \<Rightarrow> memory \<times> bool \<times> duration" where
  "mem_allow np now k limit w m =
     (case mem_reserve np now k limit w m of
        (m', ok, _, after) \<Rightarrow> (m', if ok then (True, 0) else (False, after)))"

definition mem_count :: "time \<Rightarrow> string \<Rightarrow> duration \<Rightarrow> memory \<Rightarrow> int \<times> duration" where
  "mem_count now k w m =
     (case fmlookup m k of
        None \<Rightarrow> (0, 0)
      | Some c \<Rightarrow> if \<not> now - w < w_start c then (0, 0) else (w_count c, w_start c + w - now))"

definition mem_forget :: "string \<Rightarrow> memory \<Rightarrow> memory" where
  "mem_forget k m = fmdrop k m"

subsection \<open>The row-backed limiter: its statements\<close>

record limit_row =
  r_start :: time
  r_count :: int

type_synonym limit_table = "(string, limit_row) fmap"

text \<open>\<open>window.Milliseconds()\<close>, the interval the statements are given.\<close>

definition interval_of :: "duration \<Rightarrow> duration" where
  "interval_of w = sgn w * (\<bar>w\<bar> div millisecond) * millisecond"

text \<open>Addition of a Postgres \<open>integer\<close>: out of range is an error of the statement.\<close>

definition pg_add :: "int \<Rightarrow> int \<Rightarrow> int option" where
  "pg_add a b = (if - 2147483648 \<le> a + b \<and> a + b \<le> 2147483647 then Some (a + b) else None)"

definition stmt_reserve ::
  "time \<Rightarrow> time \<Rightarrow> string \<Rightarrow> duration \<Rightarrow> limit_table \<Rightarrow> (limit_table \<times> int \<times> duration) option" where
  "stmt_reserve now clock k w tbl =
     (let iv = interval_of w;
          answer = (\<lambda>r. Some (fmupd k r tbl, r_count r, max (r_start r + iv - clock) 0))
      in case fmlookup tbl k of
           None \<Rightarrow> answer \<lparr>r_start = now, r_count = 1\<rparr>
         | Some r \<Rightarrow>
             if now - iv < r_start r then
               (case pg_add (min (r_count r) max_quota) 1 of
                  None \<Rightarrow> None
                | Some c \<Rightarrow> answer \<lparr>r_start = r_start r, r_count = c\<rparr>)
             else answer \<lparr>r_start = now, r_count = 1\<rparr>)"

definition stmt_count :: "time \<Rightarrow> time \<Rightarrow> string \<Rightarrow> duration \<Rightarrow> limit_table \<Rightarrow> int \<times> duration" where
  "stmt_count now clock k w tbl =
     (case fmlookup tbl k of
        None \<Rightarrow> (0, 0)
      | Some r \<Rightarrow> if now - interval_of w < r_start r
                  then (r_count r, max (r_start r + interval_of w - clock) 0) else (0, 0))"

definition stmt_forget :: "string \<Rightarrow> limit_table \<Rightarrow> limit_table" where
  "stmt_forget k tbl = fmdrop k tbl"

definition purge :: "time \<Rightarrow> limit_table \<Rightarrow> limit_table" where
  "purge now tbl =
     fmfilter (\<lambda>k. case fmlookup tbl k of None \<Rightarrow> False | Some r \<Rightarrow> \<not> r_start r < now - interval_of keep) tbl"

subsection \<open>One attempt at the counter, and the retry of a bad connection\<close>

text \<open>
  What one try of the counter's transaction answered.  \<open>BadConn True\<close> is the driver's
  sentinel bare, \<open>BadConn False\<close> the sentinel inside somebody's wrapper.  The two wall flags
  are \<open>wallPassed\<close> as \<open>askedAgain\<close> and as \<open>classified\<close> find it.
\<close>

datatype db_error = LockTimeout | DeadlineExceeded | BadConn bool | OtherError

record 'r attempt =
  at_entered :: bool
  at_answer :: "db_error + 'r"
  at_wall_asked :: bool
  at_wall_judged :: bool

datatype limit_error = NoConnection | Busy db_error | Outage db_error

definition asked_again :: "db_error \<Rightarrow> bool \<Rightarrow> bool" where
  "asked_again e wall \<longleftrightarrow> e = BadConn True \<and> \<not> wall"

fun waited :: "db_error \<Rightarrow> bool \<Rightarrow> bool" where
  "waited LockTimeout wall = True"
| "waited DeadlineExceeded wall = True"
| "waited (BadConn bare) wall = wall"
| "waited OtherError wall = False"

definition classified :: "db_error \<Rightarrow> bool \<Rightarrow> limit_error" where
  "classified e wall = (if waited e wall then Busy e else Outage e)"

text \<open>
  The loop of \<open>run\<close> over the answers the database gives, one per try; \<open>None\<close> when the
  answers given run out with the loop still asking.
\<close>

fun run_tries :: "'r attempt list \<Rightarrow> (limit_error + 'r) option" where
  "run_tries [] = None"
| "run_tries (a # as) =
     (case at_answer a of
        Inr r \<Rightarrow> Some (Inr r)
      | Inl e \<Rightarrow> if at_entered a \<or> \<not> asked_again e (at_wall_asked a)
                 then Some (Inl (classified e (at_wall_judged a)))
                 else run_tries as)"

text \<open>\<open>conn\<close> says whether \<open>Connections\<close> found a pool.\<close>

definition run_limit :: "bool \<Rightarrow> 'r attempt list \<Rightarrow> (limit_error + 'r) option" where
  "run_limit conn as = (if \<not> conn then Some (Inl NoConnection) else run_tries as)"

text \<open>\<open>Reserve\<close> and \<open>Allow\<close> over what \<open>run\<close> answered with the statement's two numbers.\<close>

definition reserve_answer :: "int \<Rightarrow> duration \<Rightarrow> limit_error + (int \<times> duration) \<Rightarrow> limit_error + reply" where
  "reserve_answer limit w r =
     (case r of
        Inr (n, left) \<Rightarrow> Inr (decided limit n left)
      | Inl (Busy e) \<Rightarrow> Inr (False, 0, w)
      | Inl e \<Rightarrow> Inl e)"

definition allow_answer :: "limit_error + reply \<Rightarrow> limit_error + (bool \<times> duration)" where
  "allow_answer r =
     (case r of
        Inl e \<Rightarrow> Inl e
      | Inr (ok, _, after) \<Rightarrow> Inr (if ok then (True, 0) else (False, after)))"

subsection \<open>Arithmetic of the verdict\<close>

lemma decided_simps [simp]:
  "fst (decided q n l) \<longleftrightarrow> n \<le> q"
  "0 \<le> fst (snd (decided q n l))"
  "0 \<le> snd (snd (decided q n l))"
  by (simp_all add: decided_def)

lemma interval_of_whole: "0 \<le> w \<Longrightarrow> w mod millisecond = 0 \<Longrightarrow> interval_of w = w"
proof -
  assume w: "0 \<le> w" "w mod millisecond = 0"
  then have "w div 1000000 * 1000000 = w"
    using div_mult_mod_eq [of w 1000000] by (simp only: millisecond_def)
  with w show ?thesis by (simp add: interval_of_def millisecond_def sgn_if)
qed

lemma interval_of_le: "0 \<le> w \<Longrightarrow> interval_of w \<le> w"
proof -
  have "w div 1000000 * 1000000 \<le> w"
    using div_mult_mod_eq [of w 1000000] pos_mod_sign [of 1000000 w] by linarith
  then show "0 \<le> w \<Longrightarrow> interval_of w \<le> w" by (simp add: interval_of_def millisecond_def sgn_if)
qed

lemma interval_keep [simp]: "interval_of keep = keep"
  by (rule interval_of_whole) (simp_all add: keep_def duration_defs)

subsection \<open>The statement never overflows, and a refusal stays\<close>

definition int4 :: "int \<Rightarrow> bool" where
  "int4 n \<longleftrightarrow> 0 \<le> n \<and> n \<le> 2147483647"

lemma pg_add_capped: "int4 n \<Longrightarrow> pg_add (min n max_quota) 1 = Some (min n max_quota + 1)"
  by (simp add: pg_add_def int4_def max_quota_def)

lemma stmt_reserve_open:
  assumes "fmlookup tbl k = Some r" and "int4 (r_count r)" and "now - interval_of w < r_start r"
  shows "stmt_reserve now clock k w tbl =
    Some (fmupd k \<lparr>r_start = r_start r, r_count = min (r_count r) max_quota + 1\<rparr> tbl, min (r_count r) max_quota + 1,
          max (r_start r + interval_of w - clock) 0)"
  using assms by (simp add: stmt_reserve_def pg_add_capped Let_def)

lemma stmt_reserve_closed:
  assumes "\<And>r. fmlookup tbl k = Some r \<Longrightarrow> \<not> now - interval_of w < r_start r"
  shows "stmt_reserve now clock k w tbl =
    Some (fmupd k \<lparr>r_start = now, r_count = 1\<rparr> tbl, 1, max (now + interval_of w - clock) 0)"
  using assms by (cases "fmlookup tbl k") (simp_all add: stmt_reserve_def Let_def)

definition table_ok :: "limit_table \<Rightarrow> bool" where
  "table_ok tbl \<longleftrightarrow> (\<forall>k r. fmlookup tbl k = Some r \<longrightarrow> 1 \<le> r_count r \<and> int4 (r_count r))"

lemma stmt_reserve_total:
  assumes "table_ok tbl"
  shows "\<exists>tbl' n left. stmt_reserve now clock k w tbl = Some (tbl', n, left) \<and> table_ok tbl' \<and> 1 \<le> n \<and> int4 n"
proof (cases "\<exists>r. fmlookup tbl k = Some r \<and> now - interval_of w < r_start r")
  case True
  then obtain r where r: "fmlookup tbl k = Some r" "now - interval_of w < r_start r" by auto
  with assms have c: "int4 (r_count r)" "1 \<le> r_count r" by (auto simp: table_ok_def)
  have n: "1 \<le> min (r_count r) max_quota + 1" "int4 (min (r_count r) max_quota + 1)"
    using c by (auto simp: int4_def max_quota_def)
  then show ?thesis using stmt_reserve_open [OF r(1) c(1) r(2)] assms by (auto simp: table_ok_def)
next
  case False
  then have "stmt_reserve now clock k w tbl =
    Some (fmupd k \<lparr>r_start = now, r_count = 1\<rparr> tbl, 1, max (now + interval_of w - clock) 0)"
    by (intro stmt_reserve_closed) blast
  then show ?thesis using assms by (auto simp: table_ok_def int4_def)
qed

lemma table_ok_empty [simp]: "table_ok fmempty"
  by (simp add: table_ok_def)

lemma table_ok_forget: "table_ok tbl \<Longrightarrow> table_ok (stmt_forget k tbl)"
  by (simp add: table_ok_def stmt_forget_def)

lemma table_ok_purge: "table_ok tbl \<Longrightarrow> table_ok (purge now tbl)"
  by (auto simp: table_ok_def purge_def)

text \<open>Past the limit in an open window every further event is refused, saturated or not.\<close>

lemma stmt_reserve_refuses:
  assumes ok: "table_ok tbl" and r: "fmlookup tbl k = Some r" "now - interval_of w < r_start r"
    and past: "limit \<le> r_count r" "limit \<le> max_quota"
    and res: "stmt_reserve now clock k w tbl = Some (tbl', n, left)"
  shows "\<not> fst (decided limit n left)" "\<exists>r'. fmlookup tbl' k = Some r' \<and> limit \<le> r_count r' \<and> r_start r' = r_start r"
  using stmt_reserve_open [OF r(1) _ r(2)] ok r past res by (auto simp: table_ok_def)

text \<open>The sweep drops no row that a window of at most \<open>MaxWindow\<close> still holds open.\<close>

lemma purge_keeps_open:
  assumes "0 \<le> w" "w \<le> max_window" "now' \<ge> now"
  shows "stmt_count now' clock k w (purge now tbl) = stmt_count now' clock k w tbl"
proof -
  have "interval_of w \<le> keep"
    using interval_of_le [OF assms(1)] assms(2) by (simp add: max_window_def)
  then show ?thesis
    using assms(3) by (auto simp: stmt_count_def purge_def split: option.splits)
qed

subsection \<open>The retry loop\<close>

lemma run_tries_last_entered:
  assumes "run_tries as = Some out"
  shows "\<exists>pre a post. as = pre @ a # post \<and> (\<forall>b \<in> set pre. \<not> at_entered b \<and> at_answer b = Inl (BadConn True))
    \<and> out = (case at_answer a of Inr r \<Rightarrow> Inr r | Inl e \<Rightarrow> Inl (classified e (at_wall_judged a)))"
  using assms
proof (induction as)
  case Nil
  then show ?case by simp
next
  case (Cons a as)
  show ?case
  proof (cases "\<exists>e. at_answer a = Inl e \<and> \<not> at_entered a \<and> asked_again e (at_wall_asked a)")
    case True
    then have a: "\<not> at_entered a" "at_answer a = Inl (BadConn True)" "run_tries (a # as) = run_tries as"
      by (auto simp: asked_again_def)
    with Cons obtain pre b post where "as = pre @ b # post"
      "\<forall>c \<in> set pre. \<not> at_entered c \<and> at_answer c = Inl (BadConn True)"
      "out = (case at_answer b of Inr r \<Rightarrow> Inr r | Inl e \<Rightarrow> Inl (classified e (at_wall_judged b)))" by auto
    with a show ?thesis by (intro exI [of _ "a # pre"] exI [of _ b] exI [of _ post]) simp
  next
    case False
    with Cons.prems show ?thesis
      by (intro exI [of _ "[]"] exI [of _ a] exI [of _ as]) (auto split: sum.splits if_splits)
  qed
qed

lemma run_tries_stops:
  "\<exists>a \<in> set as. at_wall_asked a \<or> at_entered a \<or> at_answer a \<noteq> Inl (BadConn True) \<Longrightarrow> \<exists>out. run_tries as = Some out"
  by (induction as) (auto simp: asked_again_def split: sum.splits)

end
