(* ===== verification/CounterStore.thy ===== *)
theory CounterStore
  imports RateLimit
begin

section \<open>The limiter's interface and its two stores\<close>

text \<open>
  The \<open>Limiter\<close> interface of \<open>kit/limit/limit.go\<close> as a record of operations, the contract
  both stores keep as the locale \<open>counter_store\<close> over an abstract view (for each caller's
  key, the start and the count of its last window), and its interpretation on the map of
  \<open>memory.go\<close> and on the table of \<open>limit.go\<close>.  \<open>room s n\<close> says that the store can take \<open>n\<close>
  more events without reaching its bound (ten thousand keys, or the largest integer).
\<close>

record 's limiter_ops =
  op_reserve :: "time \<Rightarrow> string \<Rightarrow> int \<Rightarrow> duration \<Rightarrow> 's \<Rightarrow> 's \<times> reply option"
  op_allow :: "time \<Rightarrow> string \<Rightarrow> int \<Rightarrow> duration \<Rightarrow> 's \<Rightarrow> 's \<times> (bool \<times> duration) option"
  op_count :: "time \<Rightarrow> string \<Rightarrow> duration \<Rightarrow> 's \<Rightarrow> (int \<times> duration) option"
  op_forget :: "string \<Rightarrow> 's \<Rightarrow> 's option"

text \<open>The memory limiter of one tenant context; a store in memory answers every call.\<close>

definition mem_ops :: "(uuid \<Rightarrow> string) \<Rightarrow> uuid option \<Rightarrow> memory limiter_ops" where
  "mem_ops us ctx =
     \<lparr>op_reserve = (\<lambda>t k q w m. case mem_reserve t t (scoped us [] ctx k) q w m of (m', r) \<Rightarrow> (m', Some r)),
      op_allow = (\<lambda>t k q w m. case mem_allow t t (scoped us [] ctx k) q w m of (m', r) \<Rightarrow> (m', Some r)),
      op_count = (\<lambda>t k w m. Some (mem_count t (scoped us [] ctx k) w m)),
      op_forget = (\<lambda>k m. Some (mem_forget (scoped us [] ctx k) m))\<rparr>"

text \<open>
  The Postgres limiter over a database that answers at once: one committed try per call,
  read at the instant of its transaction.
\<close>

definition pg_reserve ::
  "time \<Rightarrow> string \<Rightarrow> int \<Rightarrow> duration \<Rightarrow> limit_table \<Rightarrow> limit_table \<times> reply option" where
  "pg_reserve t k q w tbl =
     (case stmt_reserve t t k w tbl of
        None \<Rightarrow> (tbl, None)
      | Some (tbl', n, left) \<Rightarrow>
          (tbl', (case reserve_answer q w (Inr (n, left)) of Inl _ \<Rightarrow> None | Inr r \<Rightarrow> Some r)))"

definition pg_ops :: "(uuid \<Rightarrow> string) \<Rightarrow> app_name \<Rightarrow> uuid option \<Rightarrow> limit_table limiter_ops" where
  "pg_ops us app ctx =
     \<lparr>op_reserve = (\<lambda>t k q w. pg_reserve t (scoped us app ctx k) q w),
      op_allow = (\<lambda>t k q w tbl. case pg_reserve t (scoped us app ctx k) q w tbl of
         (tbl', None) \<Rightarrow> (tbl', None)
       | (tbl', Some (ok, _, after)) \<Rightarrow> (tbl', Some (if ok then (True, 0) else (False, after)))),
      op_count = (\<lambda>t k w tbl. Some (stmt_count t t (scoped us app ctx k) w tbl)),
      op_forget = (\<lambda>k tbl. Some (stmt_forget (scoped us app ctx k) tbl))\<rparr>"

subsection \<open>The abstract counter\<close>

text \<open>A window Postgres can be asked about: positive, in whole milliseconds.\<close>

definition whole :: "duration \<Rightarrow> bool" where
  "whole w \<longleftrightarrow> 0 < w \<and> w mod millisecond = 0"

definition bump :: "(time \<times> int) option \<Rightarrow> duration \<Rightarrow> time \<Rightarrow> time \<times> int" where
  "bump v w t = (case v of None \<Rightarrow> (t, 1)
     | Some (st, c) \<Rightarrow> if t - w < st then (st, c + 1) else (t, 1))"

definition standing :: "(time \<times> int) option \<Rightarrow> duration \<Rightarrow> time \<Rightarrow> int \<times> duration" where
  "standing v w t = (case v of None \<Rightarrow> (0, 0)
     | Some (st, c) \<Rightarrow> if t - w < st then (c, st + w - t) else (0, 0))"

text \<open>The verdict on the event that made the counter what it is.\<close>

definition verdict_of :: "int \<Rightarrow> duration \<Rightarrow> time \<Rightarrow> time \<times> int \<Rightarrow> reply" where
  "verdict_of q w t b = decided q (snd b) (fst b + w - t)"

lemma bump_standing: "0 < w \<Longrightarrow> snd (bump v w t) = fst (standing v w t) + 1"
  by (auto simp: bump_def standing_def split: option.splits)

lemma standing_bump: "0 < w \<Longrightarrow> fst (standing (Some (bump v w t)) w t) = snd (bump v w t)"
  by (auto simp: bump_def standing_def split: option.splits)

locale counter_store =
  fixes ops :: "'s limiter_ops"
    and view :: "'s \<Rightarrow> string \<Rightarrow> (time \<times> int) option"
    and room :: "'s \<Rightarrow> nat \<Rightarrow> bool"
  assumes reserve_law: "room s (Suc n) \<Longrightarrow> whole w \<Longrightarrow> op_reserve ops t k q w s = (s', r) \<Longrightarrow>
      view s' = (view s)(k \<mapsto> bump (view s k) w t) \<and> room s' n
      \<and> r = Some (verdict_of q w t (bump (view s k) w t))"
    and allow_law: "op_allow ops t k q w s =
      (case op_reserve ops t k q w s of
         (s', None) \<Rightarrow> (s', None)
       | (s', Some (ok, _, after)) \<Rightarrow> (s', Some (if ok then (True, 0) else (False, after))))"
    and count_law: "whole w \<Longrightarrow> op_count ops t k w s = Some (standing (view s k) w t)"
    and room_mono: "room s (Suc n) \<Longrightarrow> room s n"
    and forget_law: "\<exists>s'. op_forget ops k s = Some s' \<and> view s' = (view s)(k := None) \<and> (\<forall>n. room s n \<longrightarrow> room s' n)"

subsection \<open>Events of one key, in order\<close>

text \<open>One event after another under a key, with the verdicts they were given.\<close>

fun reserves ::
  "'s limiter_ops \<Rightarrow> string \<Rightarrow> int \<Rightarrow> duration \<Rightarrow> time list \<Rightarrow> 's \<Rightarrow> 's \<times> reply option list" where
  "reserves ops k q w [] s = (s, [])"
| "reserves ops k q w (t # ts) s =
     (case op_reserve ops t k q w s of
        (s', r) \<Rightarrow> (case reserves ops k q w ts s' of (s'', rs) \<Rightarrow> (s'', r # rs)))"

context counter_store begin

lemma reserve_view:
  assumes "room s (Suc n)" "whole w"
  shows "view (fst (op_reserve ops t k q w s)) = (view s)(k \<mapsto> bump (view s k) w t)"
    and "room (fst (op_reserve ops t k q w s)) n"
    and "snd (op_reserve ops t k q w s) = Some (verdict_of q w t (bump (view s k) w t))"
  using reserve_law [OF assms, of t k q "fst (op_reserve ops t k q w s)" "snd (op_reserve ops t k q w s)"]
  by auto

text \<open>
  Within one window the events of a key are counted one by one: the first \<open>q\<close> of them
  are allowed and every later one is refused.
\<close>

lemma reserves_from:
  assumes "whole w" "room s (length ts)" "view s k = Some (t0, c)" "\<forall>t \<in> set ts. t - w < t0"
  shows "snd (reserves ops k q w ts s) =
      map (\<lambda>i. Some (decided q (c + 1 + int i) (t0 + w - ts ! i))) [0..<length ts]
    \<and> view (fst (reserves ops k q w ts s)) = (view s)(k \<mapsto> (t0, c + int (length ts)))"
  using assms
proof (induction ts arbitrary: s c)
  case Nil
  then show ?case by (simp add: fun_upd_idem)
next
  case (Cons t ts)
  define s1 where "s1 = fst (op_reserve ops t k q w s)"
  have r: "room s (Suc (length ts))" using Cons.prems by simp
  note v = reserve_view [OF r \<open>whole w\<close>, of t k q, folded s1_def]
  have b: "bump (view s k) w t = (t0, c + 1)" using Cons.prems by (simp add: bump_def)
  have "view s1 k = Some (t0, c + 1)" using v b by simp
  from Cons.IH [OF Cons.prems(1) v(2) this] Cons.prems(4) have IH:
    "snd (reserves ops k q w ts s1) =
      map (\<lambda>i. Some (decided q (c + 1 + 1 + int i) (t0 + w - ts ! i))) [0..<length ts]"
    "view (fst (reserves ops k q w ts s1)) = (view s1)(k \<mapsto> (t0, c + 1 + int (length ts)))" by auto
  have split: "reserves ops k q w (t # ts) s =
      (fst (reserves ops k q w ts s1), Some (decided q (c + 1) (t0 + w - t)) # snd (reserves ops k q w ts s1))"
    using v b by (cases "op_reserve ops t k q w s") (auto simp: s1_def verdict_of_def split: prod.splits)
  have idx: "map f [0..<length (t # ts)] = f 0 # map (\<lambda>i. f (Suc i)) [0..<length ts]" for f :: "nat \<Rightarrow> reply option"
    by (simp add: upt_conv_Cons map_Suc_upt [symmetric] comp_def del: upt_Suc)
  show ?case
    using v(1) IH unfolding split idx by (auto simp: b algebra_simps)
qed

lemma reserves_window:
  assumes "whole w" "room s (length (t0 # ts))" "view s k = None" "\<forall>t \<in> set ts. t - w < t0"
  shows "map (map_option fst) (snd (reserves ops k q w (t0 # ts) s)) =
    map (\<lambda>i. Some (int i < q)) [0..<Suc (length ts)]"
proof -
  define s1 where "s1 = fst (op_reserve ops t0 k q w s)"
  have r: "room s (Suc (length ts))" using assms by simp
  note v = reserve_view [OF r \<open>whole w\<close>, of t0 k q, folded s1_def]
  have b: "bump (view s k) w t0 = (t0, 1)" using assms by (simp add: bump_def)
  have "view s1 k = Some (t0, 1)" using v b by simp
  from reserves_from [OF assms(1) v(2) this assms(4), of q] have IH:
    "snd (reserves ops k q w ts s1) =
      map (\<lambda>i. Some (decided q (1 + 1 + int i) (t0 + w - ts ! i))) [0..<length ts]" by simp
  have split: "snd (reserves ops k q w (t0 # ts) s) =
      Some (decided q 1 w) # snd (reserves ops k q w ts s1)"
    using v b by (cases "op_reserve ops t0 k q w s") (auto simp: s1_def verdict_of_def split: prod.splits)
  have idx: "map f [0..<Suc n] = f 0 # map (\<lambda>i. f (Suc i)) [0..<n]" for f :: "nat \<Rightarrow> bool option" and n
    by (simp add: upt_conv_Cons map_Suc_upt [symmetric] comp_def del: upt_Suc)
  show ?thesis unfolding split idx IH by (auto simp: decided_def)
qed

end

subsection \<open>The memory store keeps the contract\<close>

definition mem_view :: "(uuid \<Rightarrow> string) \<Rightarrow> uuid option \<Rightarrow> memory \<Rightarrow> string \<Rightarrow> (time \<times> int) option" where
  "mem_view us ctx m k = map_option (\<lambda>w. (w_start w, w_count w)) (fmlookup m (scoped us [] ctx k))"

definition mem_room :: "memory \<Rightarrow> nat \<Rightarrow> bool" where
  "mem_room m n \<longleftrightarrow> fcard (fmdom m) + n \<le> max_tracked"

lemma scoped_inj [simp]: "scoped us app ctx k = scoped us app ctx k' \<longleftrightarrow> k = k'"
  by (auto simp: scoped_def rate_limit_key_def)

lemma mem_prune_room: "mem_room m (Suc n) \<Longrightarrow> mem_prune t m = m"
  by (simp add: mem_prune_def mem_room_def)

lemma mem_room_upd: "mem_room m (Suc n) \<Longrightarrow> mem_room (fmupd k v m) n"
  by (auto simp: mem_room_def fcard_finsert_if)

lemma fcard_fmdrop: "fcard (fmdom (fmdrop k m)) \<le> fcard (fmdom m)"
  by (rule fcard_mono) (auto simp: fmdom_drop)

lemma mem_room_drop: "mem_room m n \<Longrightarrow> mem_room (fmdrop k m) n"
  using fcard_fmdrop [of k m] by (simp add: mem_room_def)

lemma window_upd_count: "c\<lparr>w_count := n\<rparr> = \<lparr>w_count = n, w_start = w_start c\<rparr>"
  by (cases c) simp

lemma mem_reserve_room:
  assumes "mem_room m (Suc n)"
  shows "mem_reserve t t k q w m =
    (let b = bump (map_option (\<lambda>w. (w_start w, w_count w)) (fmlookup m k)) w t
     in (fmupd k \<lparr>w_count = snd b, w_start = fst b\<rparr> m, verdict_of q w t b))"
  using mem_prune_room [OF assms]
  by (auto simp: mem_reserve_def bump_def verdict_of_def Let_def window_upd_count split: option.splits)

lemma mem_reserve_law:
  assumes "mem_room m (Suc n)" "op_reserve (mem_ops us ctx) t k q w m = (m', r)"
  shows "mem_view us ctx m' = (mem_view us ctx m)(k \<mapsto> bump (mem_view us ctx m k) w t) \<and> mem_room m' n
    \<and> r = Some (verdict_of q w t (bump (mem_view us ctx m k) w t))"
  using assms mem_reserve_room [OF assms(1), of t "scoped us [] ctx k" q w]
  by (auto simp: mem_ops_def mem_view_def Let_def mem_room_upd fun_eq_iff)

interpretation mem: counter_store "mem_ops us ctx" "mem_view us ctx" mem_room for us ctx
proof (unfold_locales, goal_cases)
  case (1 s n w t k q s' r)
  show ?case by (rule mem_reserve_law [OF 1(1,3)])
next
  case (4 s n)
  then show ?case by (simp add: mem_room_def)
qed (auto simp: mem_ops_def mem_view_def mem_allow_def mem_count_def standing_def mem_forget_def
    mem_room_drop fun_eq_iff split: option.splits prod.splits)

subsection \<open>The table keeps the contract\<close>

definition pg_view :: "(uuid \<Rightarrow> string) \<Rightarrow> app_name \<Rightarrow> uuid option \<Rightarrow> limit_table \<Rightarrow> string \<Rightarrow> (time \<times> int) option" where
  "pg_view us app ctx tbl k = map_option (\<lambda>r. (r_start r, r_count r)) (fmlookup tbl (scoped us app ctx k))"

definition pg_room :: "limit_table \<Rightarrow> nat \<Rightarrow> bool" where
  "pg_room tbl n \<longleftrightarrow> int n \<le> max_quota + 1 \<and>
     (\<forall>k r. fmlookup tbl k = Some r \<longrightarrow> 0 \<le> r_count r \<and> r_count r + int n \<le> max_quota + 1)"

lemma pg_room_drop: "pg_room tbl n \<Longrightarrow> pg_room (stmt_forget k tbl) n"
  by (auto simp: pg_room_def stmt_forget_def)

lemma stmt_reserve_room:
  assumes "pg_room tbl (Suc n)" "whole w"
  shows "\<exists>b. b = bump (map_option (\<lambda>r. (r_start r, r_count r)) (fmlookup tbl k)) w t \<and>
    stmt_reserve t t k w tbl = Some (fmupd k \<lparr>r_start = fst b, r_count = snd b\<rparr> tbl, snd b, max (fst b + w - t) 0)
    \<and> pg_room (fmupd k \<lparr>r_start = fst b, r_count = snd b\<rparr> tbl) n"
proof (cases "\<exists>r. fmlookup tbl k = Some r \<and> t - w < r_start r")
  case True
  then obtain r where r: "fmlookup tbl k = Some r" "t - w < r_start r" by auto
  have iv: "interval_of w = w" using assms(2) by (simp add: interval_of_whole whole_def)
  from assms(1) r have c: "0 \<le> r_count r" "r_count r + int (Suc n) \<le> max_quota + 1"
    by (auto simp: pg_room_def)
  then have i: "int4 (r_count r)" "min (r_count r) max_quota = r_count r"
    by (auto simp: int4_def max_quota_def)
  show ?thesis
    using stmt_reserve_open [of tbl k r t w t, OF r(1) i(1)] r iv i c assms(1)
    by (fastforce simp: bump_def pg_room_def)
next
  case False
  have iv: "interval_of w = w" using assms(2) by (simp add: interval_of_whole whole_def)
  with False have "stmt_reserve t t k w tbl = Some (fmupd k \<lparr>r_start = t, r_count = 1\<rparr> tbl, 1, max (t + w - t) 0)"
    by (subst stmt_reserve_closed) auto
  with False assms(1) show ?thesis
    by (fastforce simp: bump_def pg_room_def split: option.splits)
qed

lemma pg_reserve_law:
  assumes "pg_room tbl (Suc n)" "whole w" "op_reserve (pg_ops us app ctx) t k q w tbl = (tbl', r)"
  shows "pg_view us app ctx tbl' = (pg_view us app ctx tbl)(k \<mapsto> bump (pg_view us app ctx tbl k) w t) \<and> pg_room tbl' n
    \<and> r = Some (verdict_of q w t (bump (pg_view us app ctx tbl k) w t))"
  using assms(3) stmt_reserve_room [OF assms(1,2), of "scoped us app ctx k" t]
  by (auto simp: pg_ops_def pg_view_def pg_reserve_def reserve_answer_def verdict_of_def decided_def fun_eq_iff)

interpretation pg: counter_store "pg_ops us app ctx" "pg_view us app ctx" pg_room for us app ctx
proof (unfold_locales, goal_cases)
  case (1 s n w t k q s' r)
  show ?case by (rule pg_reserve_law [OF 1])
next
  case (3 w t k s)
  then have "interval_of w = w" by (simp add: interval_of_whole whole_def)
  then show ?case by (auto simp: pg_ops_def pg_view_def stmt_count_def standing_def split: option.splits)
next
  case (4 s n)
  then show ?case by (fastforce simp: pg_room_def)
next
  case (5 k s)
  show ?case by (auto simp: pg_ops_def pg_view_def stmt_forget_def pg_room_def fun_eq_iff)
qed (auto simp: pg_ops_def split: option.splits prod.splits)

subsection \<open>A caller cannot tell the two stores apart\<close>

text \<open>The calls of the interface as data, what a store answers them, and what the counters say.\<close>

datatype ask =
    AskReserve time string int duration
  | AskAllow time string int duration
  | AskCount time string duration
  | AskForget string

datatype answer =
    ToldReserve "reply option"
  | ToldAllow "(bool \<times> duration) option"
  | ToldCount "(int \<times> duration) option"
  | ToldForget bool

fun ask_whole :: "ask \<Rightarrow> bool" where
  "ask_whole (AskReserve t k q w) = whole w"
| "ask_whole (AskAllow t k q w) = whole w"
| "ask_whole (AskCount t k w) = whole w"
| "ask_whole (AskForget k) = True"

fun answers :: "'s limiter_ops \<Rightarrow> ask list \<Rightarrow> 's \<Rightarrow> answer list" where
  "answers ops [] s = []"
| "answers ops (AskReserve t k q w # as) s =
     (case op_reserve ops t k q w s of (s', r) \<Rightarrow> ToldReserve r # answers ops as s')"
| "answers ops (AskAllow t k q w # as) s =
     (case op_allow ops t k q w s of (s', r) \<Rightarrow> ToldAllow r # answers ops as s')"
| "answers ops (AskCount t k w # as) s = ToldCount (op_count ops t k w s) # answers ops as s"
| "answers ops (AskForget k # as) s =
     (case op_forget ops k s of None \<Rightarrow> ToldForget False # answers ops as s
      | Some s' \<Rightarrow> ToldForget True # answers ops as s')"

fun counter_answers :: "ask list \<Rightarrow> (string \<Rightarrow> (time \<times> int) option) \<Rightarrow> answer list" where
  "counter_answers [] v = []"
| "counter_answers (AskReserve t k q w # as) v =
     (let b = bump (v k) w t in ToldReserve (Some (verdict_of q w t b)) # counter_answers as (v(k \<mapsto> b)))"
| "counter_answers (AskAllow t k q w # as) v =
     (let b = bump (v k) w t
      in ToldAllow (Some (if snd b \<le> q then (True, 0) else (False, max (fst b + w - t) 0))) # counter_answers as (v(k \<mapsto> b)))"
| "counter_answers (AskCount t k w # as) v = ToldCount (Some (standing (v k) w t)) # counter_answers as v"
| "counter_answers (AskForget k # as) v = ToldForget True # counter_answers as (v(k := None))"

context counter_store begin

lemma answers_counter:
  "room s (length as) \<Longrightarrow> list_all ask_whole as \<Longrightarrow> answers ops as s = counter_answers as (view s)"
proof (induction as arbitrary: s)
  case (Cons a as)
  show ?case
  proof (cases a)
    case (AskReserve t k q w)
    with Cons reserve_view [of s "length as" w t k q] show ?thesis
      by (cases "op_reserve ops t k q w s") (auto simp: Let_def)
  next
    case (AskAllow t k q w)
    obtain s' r where r: "op_reserve ops t k q w s = (s', r)" by (cases "op_reserve ops t k q w s")
    from AskAllow Cons reserve_view [of s "length as" w t k q] r
    have v: "view s' = (view s)(k \<mapsto> bump (view s k) w t)" "room s' (length as)"
      "r = Some (verdict_of q w t (bump (view s k) w t))" by auto
    have "op_allow ops t k q w s = (s', Some (if snd (bump (view s k) w t) \<le> q then (True, 0)
        else (False, max (fst (bump (view s k) w t) + w - t) 0)))"
      using r v(3) by (simp add: allow_law verdict_of_def decided_def)
    with AskAllow Cons v show ?thesis by (simp add: Let_def)
  next
    case (AskCount t k w)
    with Cons room_mono show ?thesis by (simp add: count_law)
  next
    case (AskForget k)
    from forget_law [of k s] obtain s' where s': "op_forget ops k s = Some s'"
      "view s' = (view s)(k := None)" "\<And>n. room s n \<Longrightarrow> room s' n" by auto
    with AskForget Cons room_mono show ?thesis by simp
  qed
qed simp

end

lemma mem_room_empty: "n \<le> max_tracked \<Longrightarrow> mem_room fmempty n"
  by (simp add: mem_room_def fcard.rep_eq)

lemma pg_room_empty: "int n \<le> max_quota + 1 \<Longrightarrow> pg_room fmempty n"
  by (simp add: pg_room_def)

lemma views_empty: "mem_view us ctx fmempty = (\<lambda>_. None)" "pg_view us app ctx fmempty = (\<lambda>_. None)"
  by (auto simp: mem_view_def pg_view_def)

end
