(* ===== verification/Lockout.thy ===== *)
theory Lockout
  imports CounterStore
begin

section \<open>The sign-in lockout\<close>

text \<open>
  \<open>modules/auth/contracts/limiter.go\<close>: the lockout counted over any store of the
  \<open>Limiter\<close> interface.  The store's operations are an argument; a reply of \<open>None\<close> is the
  store's error, which the lockout allows and logs.  One operation reads the clock once.
  \<open>dg\<close> is the hexadecimal SHA-256 digest; addresses are ASCII text.

  The main lemma, proved in the store's locale, says what the counters mean: after any
  failures inside one window, the verdict on an attempt is the one stated over the failures
  themselves (how many for the account, from how many places, how many from the machine).
\<close>

subsection \<open>Numbers and keys\<close>

definition max_attempts :: int where "max_attempts = 10"
definition attempt_window :: duration where "attempt_window = 15 * minute"
definition max_sources :: int where "max_sources = 3"
definition soft_delay :: duration where "soft_delay = 2 * second"
definition source_attempts :: int where "source_attempts = 50"
definition reset_requests :: int where "reset_requests = 10"
definition reset_redemptions :: int where "reset_redemptions = 20"
definition assertions_per_address :: int where "assertions_per_address = 60"
definition assertion_window :: duration where "assertion_window = minute"
definition passkey_prompts :: int where "passkey_prompts = 20"
definition mail_delivery_asks :: int where "mail_delivery_asks = 60"

definition ascii_space :: "char \<Rightarrow> bool" where
  "ascii_space c \<longleftrightarrow> of_char c \<in> {9, 10, 11, 12, 13, 32 :: nat}"

definition ascii_lower :: "char \<Rightarrow> char" where
  "ascii_lower c = (if 65 \<le> (of_char c :: nat) \<and> (of_char c :: nat) \<le> 90 then char_of (of_char c + 32 :: nat) else c)"

definition trim_space :: "string \<Rightarrow> string" where
  "trim_space s = rev (dropWhile ascii_space (rev (dropWhile ascii_space s)))"

definition email_key :: "string \<Rightarrow> string" where
  "email_key email = map ascii_lower (trim_space email)"

definition email_hash :: "(string \<Rightarrow> string) \<Rightarrow> string \<Rightarrow> string" where
  "email_hash dg email = dg (email_key email)"

definition account_key :: "(string \<Rightarrow> string) \<Rightarrow> string \<Rightarrow> string" where
  "account_key dg email = ''auth/account/'' @ email_hash dg email"

definition sources_key :: "(string \<Rightarrow> string) \<Rightarrow> string \<Rightarrow> string" where
  "sources_key dg email = ''auth/sources/'' @ email_hash dg email"

definition source_key :: "string \<Rightarrow> string" where
  "source_key ip = ''auth/source/'' @ ip"

definition pair_key :: "(string \<Rightarrow> string) \<Rightarrow> string \<Rightarrow> string \<Rightarrow> string" where
  "pair_key dg email ip = ''auth/pair/'' @ email_hash dg email @ '' '' @ ip"

definition forgot_key :: "string \<Rightarrow> string" where
  "forgot_key ip = ''auth/forgot/'' @ ip"

definition redeem_key :: "string \<Rightarrow> string" where
  "redeem_key ip = ''auth/redeem/'' @ ip"

definition mail_ask_key :: "string \<Rightarrow> string" where
  "mail_ask_key ip = ''auth/mail-ask/'' @ ip"

definition noted_key :: "(string \<Rightarrow> string) \<Rightarrow> string \<Rightarrow> string \<Rightarrow> string" where
  "noted_key dg email ip = ''auth/noted/'' @ email_hash dg email @ '' '' @ ip"

definition prompt_key :: "string \<Rightarrow> string" where
  "prompt_key ip = ''auth/passkey-prompt/'' @ ip"

definition acs_key :: "string \<Rightarrow> string" where
  "acs_key ip = ''auth/saml-acs/'' @ ip"

subsection \<open>The configured budget\<close>

record budget =
  b_quota :: int
  b_window :: duration

definition new_budget :: "budget \<Rightarrow> budget" where
  "new_budget b =
     (let b1 = (if b_quota b = 0 then b\<lparr>b_quota := reset_requests\<rparr> else b)
      in if b_window b1 = 0 then b1\<lparr>b_window := attempt_window\<rparr> else b1)"

datatype budget_error = NegativeQuota | QuotaTooLarge | NegativeWindow | WindowTooLong

definition check_budget :: "budget \<Rightarrow> budget_error option" where
  "check_budget b =
     (if b_quota b < 0 then Some NegativeQuota
      else if b_quota b > max_quota then Some QuotaTooLarge
      else if b_window b < 0 then Some NegativeWindow
      else if b_window b > max_window then Some WindowTooLong
      else None)"

subsection \<open>Counting through the store\<close>

record policy =
  p_name :: string
  p_quota :: int
  p_window :: duration

record decision =
  d_policy :: policy
  d_allowed :: bool
  d_remaining :: int
  d_left :: duration

definition zero_decision :: decision where
  "zero_decision = \<lparr>d_policy = \<lparr>p_name = '''', p_quota = 0, p_window = 0\<rparr>,
     d_allowed = False, d_remaining = 0, d_left = 0\<rparr>"

definition decided_at_all :: "decision \<Rightarrow> bool" where
  "decided_at_all d \<longleftrightarrow> p_name (d_policy d) \<noteq> ''''"

definition lk_read :: "'s limiter_ops \<Rightarrow> time \<Rightarrow> string \<Rightarrow> 's \<Rightarrow> int \<times> duration \<times> bool" where
  "lk_read ops t k s =
     (case op_count ops t k attempt_window s of None \<Rightarrow> (0, 0, False) | Some (n, left) \<Rightarrow> (n, left, True))"

definition lk_count :: "'s limiter_ops \<Rightarrow> time \<Rightarrow> string \<Rightarrow> 's \<Rightarrow> int" where
  "lk_count ops t k s = (case lk_read ops t k s of (n, _, _) \<Rightarrow> n)"

definition lk_within :: "'s limiter_ops \<Rightarrow> time \<Rightarrow> string \<Rightarrow> int \<Rightarrow> 's \<Rightarrow> 's \<times> bool" where
  "lk_within ops t k mx s =
     (case op_reserve ops t k mx attempt_window s of
        (s', None) \<Rightarrow> (s', True)
      | (s', Some (ok, _, _)) \<Rightarrow> (s', ok))"

definition lk_record :: "'s limiter_ops \<Rightarrow> time \<Rightarrow> string \<Rightarrow> int \<Rightarrow> 's \<Rightarrow> 's" where
  "lk_record ops t k mx s = fst (lk_within ops t k mx s)"

definition lk_reserve ::
  "'s limiter_ops \<Rightarrow> time \<Rightarrow> string \<Rightarrow> string \<Rightarrow> int \<Rightarrow> duration \<Rightarrow> 's \<Rightarrow> 's \<times> decision" where
  "lk_reserve ops t name k mx w s =
     (case op_reserve ops t k mx w s of
        (s', None) \<Rightarrow> (s', zero_decision)
      | (s', Some (ok, remaining, left)) \<Rightarrow>
          (s', \<lparr>d_policy = \<lparr>p_name = name, p_quota = mx, p_window = w\<rparr>,
                d_allowed = ok, d_remaining = remaining, d_left = left\<rparr>))"

subsection \<open>The operations\<close>

datatype verdict = Allow | Delay | Refuse

definition check ::
  "'s limiter_ops \<Rightarrow> (string \<Rightarrow> string) \<Rightarrow> time \<Rightarrow> string \<Rightarrow> string \<Rightarrow> 's \<Rightarrow> verdict \<times> decision" where
  "check ops dg t email ip s =
     (case lk_read ops t (account_key dg email) s of (attempts, left, counted) \<Rightarrow>
        let verdict =
          (if attempts \<ge> max_attempts then
             (if lk_count ops t (sources_key dg email) s > max_sources then Delay else Refuse)
           else if ip \<noteq> '''' \<and> lk_count ops t (source_key ip) s \<ge> source_attempts then Delay
           else Allow)
        in if \<not> counted then (verdict, zero_decision)
           else (verdict,
             \<lparr>d_policy = \<lparr>p_name = ''auth-login-attempts'', p_quota = max_attempts, p_window = attempt_window\<rparr>,
              d_allowed = (verdict \<noteq> Refuse),
              d_remaining = max (max_attempts - attempts) 0,
              d_left = left\<rparr>))"

definition failed ::
  "'s limiter_ops \<Rightarrow> (string \<Rightarrow> string) \<Rightarrow> time \<Rightarrow> string \<Rightarrow> string \<Rightarrow> 's \<Rightarrow> 's" where
  "failed ops dg t email ip s =
     (let s1 = lk_record ops t (account_key dg email) max_attempts s
      in if ip = '''' then s1
         else case lk_within ops t (pair_key dg email ip) 1 s1 of (s2, new_place) \<Rightarrow>
           let s3 = (if new_place then lk_record ops t (sources_key dg email) max_sources s2 else s2)
           in lk_record ops t (source_key ip) source_attempts s3)"

definition succeeded :: "'s limiter_ops \<Rightarrow> (string \<Rightarrow> string) \<Rightarrow> string \<Rightarrow> 's \<Rightarrow> 's" where
  "succeeded ops dg email s =
     (case op_forget ops (account_key dg email) s of None \<Rightarrow> s | Some s' \<Rightarrow> s')"

definition requested :: "'s limiter_ops \<Rightarrow> budget \<Rightarrow> time \<Rightarrow> string \<Rightarrow> 's \<Rightarrow> 's \<times> decision" where
  "requested ops b t ip s =
     lk_reserve ops t ''auth-account-requests'' (forgot_key ip) (b_quota b) (b_window b) s"

definition verification_resend_key :: "(string \<Rightarrow> string) \<Rightarrow> string \<Rightarrow> string" where
  "verification_resend_key dg email = ''auth/verification-mail/'' @ email_hash dg email"

text \<open>The one cap that fails closed: an error of the store (\<open>None\<close>) is an error of the call.\<close>

definition verification_mail ::
  "'s limiter_ops \<Rightarrow> (string \<Rightarrow> string) \<Rightarrow> duration \<Rightarrow> time \<Rightarrow> string \<Rightarrow> 's \<Rightarrow> 's \<times> bool option" where
  "verification_mail ops dg resend_interval t email s =
     (case op_reserve ops t (verification_resend_key dg email) 1 resend_interval s of
        (s', None) \<Rightarrow> (s', None)
      | (s', Some (ok, _, _)) \<Rightarrow> (s', Some ok))"

definition redeemed :: "'s limiter_ops \<Rightarrow> time \<Rightarrow> string \<Rightarrow> 's \<Rightarrow> 's \<times> decision" where
  "redeemed ops t ip s =
     lk_reserve ops t ''auth-reset-redemptions'' (redeem_key ip) reset_redemptions attempt_window s"

definition prompted :: "'s limiter_ops \<Rightarrow> time \<Rightarrow> string \<Rightarrow> 's \<Rightarrow> 's \<times> bool" where
  "prompted ops t ip s = lk_within ops t (prompt_key ip) passkey_prompts s"

definition asked_about_mail :: "'s limiter_ops \<Rightarrow> time \<Rightarrow> string \<Rightarrow> 's \<Rightarrow> 's \<times> bool" where
  "asked_about_mail ops t ip s = lk_within ops t (mail_ask_key ip) mail_delivery_asks s"

definition noted :: "'s limiter_ops \<Rightarrow> (string \<Rightarrow> string) \<Rightarrow> time \<Rightarrow> string \<Rightarrow> string \<Rightarrow> 's \<Rightarrow> 's \<times> bool" where
  "noted ops dg t email ip s = lk_within ops t (noted_key dg email ip) 1 s"

definition assertion_presented :: "'s limiter_ops \<Rightarrow> time \<Rightarrow> string \<Rightarrow> 's \<Rightarrow> 's \<times> bool" where
  "assertion_presented ops t ip s =
     (case op_allow ops t (acs_key ip) assertions_per_address assertion_window s of
        (s', None) \<Rightarrow> (s', True)
      | (s', Some (ok, _)) \<Rightarrow> (s', ok))"

subsection \<open>What the failures say\<close>

text \<open>A failure: when, against which account, from which address.\<close>

type_synonym failure = "time \<times> string \<times> string"

fun failures :: "'s limiter_ops \<Rightarrow> (string \<Rightarrow> string) \<Rightarrow> failure list \<Rightarrow> 's \<Rightarrow> 's" where
  "failures ops dg [] s = s"
| "failures ops dg ((t, email, ip) # xs) s = failures ops dg xs (failed ops dg t email ip s)"

definition attempts_on :: "(string \<Rightarrow> string) \<Rightarrow> failure list \<Rightarrow> string \<Rightarrow> nat" where
  "attempts_on dg xs h = length (filter (\<lambda>(t, e, i). email_hash dg e = h) xs)"

definition places_of :: "(string \<Rightarrow> string) \<Rightarrow> failure list \<Rightarrow> string \<Rightarrow> string set" where
  "places_of dg xs h = set (map (\<lambda>(t, e, i). i) (filter (\<lambda>(t, e, i). email_hash dg e = h \<and> i \<noteq> '''') xs))"

definition from_machine :: "failure list \<Rightarrow> string \<Rightarrow> nat" where
  "from_machine xs ip = length (filter (\<lambda>(t, e, i). i = ip \<and> i \<noteq> '''') xs)"

definition pairs_of :: "(string \<Rightarrow> string) \<Rightarrow> failure list \<Rightarrow> string \<Rightarrow> string \<Rightarrow> nat" where
  "pairs_of dg xs h ip = length (filter (\<lambda>(t, e, i). email_hash dg e = h \<and> i = ip \<and> i \<noteq> '''') xs)"

definition failure_verdict :: "(string \<Rightarrow> string) \<Rightarrow> failure list \<Rightarrow> string \<Rightarrow> string \<Rightarrow> verdict" where
  "failure_verdict dg xs email ip =
     (if attempts_on dg xs (email_hash dg email) \<ge> 10 then
        (if card (places_of dg xs (email_hash dg email)) > 3 then Delay else Refuse)
      else if ip \<noteq> '''' \<and> from_machine xs ip \<ge> 50 then Delay
      else Allow)"

text \<open>Every two instants of a set lie in one window.\<close>

definition one_window :: "time set \<Rightarrow> bool" where
  "one_window ts \<longleftrightarrow> (\<forall>t \<in> ts. \<forall>t' \<in> ts. t - attempt_window < t')"

definition times_of :: "failure list \<Rightarrow> time set" where
  "times_of xs = fst ` set xs"

subsection \<open>A counter that holds a tally\<close>

definition tally :: "time set \<Rightarrow> (time \<times> int) option \<Rightarrow> nat \<Rightarrow> bool" where
  "tally ts v n \<longleftrightarrow> (if n = 0 then v = None else \<exists>st \<in> ts. v = Some (st, int n))"

lemma tally_bump:
  assumes "tally ts v n" "\<forall>st \<in> ts. t - w < st"
  shows "tally (insert t ts) (Some (bump v w t)) (Suc n)"
  using assms by (auto simp: tally_def bump_def split: if_splits)

lemma tally_mono: "tally ts v n \<Longrightarrow> ts \<subseteq> us \<Longrightarrow> tally us v n"
  by (auto simp: tally_def split: if_splits)

lemma tally_standing:
  assumes "tally ts v n" "\<forall>st \<in> ts. t - w < st"
  shows "fst (standing v w t) = int n"
  using assms by (auto simp: tally_def standing_def split: if_splits)

lemma attempt_window_whole [simp]: "whole attempt_window"
  by (simp add: whole_def attempt_window_def duration_defs)

subsection \<open>Keys of different counters differ\<close>

lemma key_kinds [simp]:
  "account_key dg e \<noteq> sources_key dg' e'" "account_key dg e \<noteq> source_key ip" "account_key dg e \<noteq> pair_key dg' e' ip"
  "sources_key dg e \<noteq> account_key dg' e'" "sources_key dg e \<noteq> source_key ip" "sources_key dg e \<noteq> pair_key dg' e' ip"
  "source_key ip \<noteq> account_key dg e" "source_key ip \<noteq> sources_key dg e" "source_key ip \<noteq> pair_key dg e ip'"
  "pair_key dg e ip \<noteq> account_key dg' e'" "pair_key dg e ip \<noteq> sources_key dg' e'" "pair_key dg e ip \<noteq> source_key ip'"
  by (simp_all add: account_key_def sources_key_def source_key_def pair_key_def)

lemma key_same [simp]:
  "account_key dg e = account_key dg e' \<longleftrightarrow> email_hash dg e = email_hash dg e'"
  "sources_key dg e = sources_key dg e' \<longleftrightarrow> email_hash dg e = email_hash dg e'"
  "source_key ip = source_key ip' \<longleftrightarrow> ip = ip'"
  by (simp_all add: account_key_def sources_key_def source_key_def)

text \<open>A digest holds no space, so the pair's key reads back as the pair.\<close>

definition digest_plain :: "(string \<Rightarrow> string) \<Rightarrow> bool" where
  "digest_plain dg \<longleftrightarrow> (\<forall>x. CHR '' '' \<notin> set (dg x))"

lemma pair_key_same:
  assumes "digest_plain dg"
  shows "pair_key dg e ip = pair_key dg e' ip' \<longleftrightarrow> email_hash dg e = email_hash dg e' \<and> ip = ip'"
  using append_sep_eq [of "CHR '' ''" "email_hash dg e" "email_hash dg e'" ip ip'] assms
  by (auto simp: pair_key_def email_hash_def digest_plain_def)

text \<open>The counters as the failures so far have left them.\<close>

definition tracks :: "(string \<Rightarrow> string) \<Rightarrow> failure list \<Rightarrow> (string \<Rightarrow> (time \<times> int) option) \<Rightarrow> bool" where
  "tracks dg xs v \<longleftrightarrow>
     (\<forall>e. tally (times_of xs) (v (account_key dg e)) (attempts_on dg xs (email_hash dg e)))
   \<and> (\<forall>e. tally (times_of xs) (v (sources_key dg e)) (card (places_of dg xs (email_hash dg e))))
   \<and> (\<forall>ip. ip \<noteq> '''' \<longrightarrow> tally (times_of xs) (v (source_key ip)) (from_machine xs ip))
   \<and> (\<forall>e ip. ip \<noteq> '''' \<longrightarrow> tally (times_of xs) (v (pair_key dg e ip)) (pairs_of dg xs (email_hash dg e) ip))"

text \<open>The view one more failure leaves, every counter raised from the view before it.\<close>

definition failed_view ::
  "(string \<Rightarrow> string) \<Rightarrow> time \<Rightarrow> string \<Rightarrow> string \<Rightarrow> (string \<Rightarrow> (time \<times> int) option) \<Rightarrow> string \<Rightarrow> (time \<times> int) option" where
  "failed_view dg t email ip v =
     (let up = (\<lambda>k v'. v'(k \<mapsto> bump (v k) attempt_window t));
          v1 = up (account_key dg email) v
      in if ip = '''' then v1
         else let v2 = up (pair_key dg email ip) v1;
                  v3 = (if snd (bump (v (pair_key dg email ip)) attempt_window t) \<le> 1
                        then up (sources_key dg email) v2 else v2)
              in up (source_key ip) v3)"

lemma places_of_snoc:
  "places_of dg (xs @ [(t, e, i)]) h =
     (if email_hash dg e = h \<and> i \<noteq> '''' then insert i (places_of dg xs h) else places_of dg xs h)"
  by (auto simp: places_of_def)

lemma finite_places [simp]: "finite (places_of dg xs h)"
  by (simp add: places_of_def)

lemma places_of_iff: "i \<in> places_of dg xs h \<longleftrightarrow> i \<noteq> '''' \<and> (\<exists>t e. (t, e, i) \<in> set xs \<and> email_hash dg e = h)"
  by (force simp: places_of_def image_iff)

lemma pairs_of_zero: "i \<noteq> '''' \<Longrightarrow> pairs_of dg xs h i = 0 \<longleftrightarrow> i \<notin> places_of dg xs h"
  by (auto simp: pairs_of_def places_of_iff filter_empty_conv)

lemma times_of_snoc [simp]: "times_of (xs @ [(t, e, i)]) = insert t (times_of xs)"
  by (auto simp: times_of_def)

lemma tracks_empty: "tracks dg [] (\<lambda>_. None)"
  by (simp add: tracks_def tally_def attempts_on_def places_of_def from_machine_def pairs_of_def)

lemma tracks_failed:
  assumes tr: "tracks dg xs v" and w: "one_window (insert t (times_of xs))" and dg: "digest_plain dg"
  shows "tracks dg (xs @ [(t, email, ip)]) (failed_view dg t email ip v)"
proof -
  have started: "\<forall>st \<in> times_of xs. t - attempt_window < st" using w by (auto simp: one_window_def)
  have up: "tally (insert t (times_of xs)) (Some (bump (v k) attempt_window t)) (Suc n)"
    if "tally (times_of xs) (v k) n" for k n
    using tally_bump [OF that started] .
  have keep: "tally (insert t (times_of xs)) (v k) n" if "tally (times_of xs) (v k) n" for k n
    using that by (rule tally_mono) auto
  have new: "snd (bump (v (pair_key dg email ip)) attempt_window t) \<le> 1 \<longleftrightarrow> ip \<notin> places_of dg xs (email_hash dg email)"
    if "ip \<noteq> ''''"
  proof -
    have t: "tally (times_of xs) (v (pair_key dg email ip)) (pairs_of dg xs (email_hash dg email) ip)"
      using tr that by (simp add: tracks_def)
    have "0 < attempt_window" by (simp add: attempt_window_def duration_defs)
    from bump_standing [OF this] tally_standing [OF t started]
    have "snd (bump (v (pair_key dg email ip)) attempt_window t) = int (pairs_of dg xs (email_hash dg email) ip) + 1"
      by simp
    then show ?thesis using pairs_of_zero [OF that, of dg xs "email_hash dg email"] by simp
  qed
  have acc: "tally (insert t (times_of xs)) (failed_view dg t email ip v (account_key dg e))
      (attempts_on dg (xs @ [(t, email, ip)]) (email_hash dg e))" for e
  proof (cases "email_hash dg email = email_hash dg e")
    case True
    then have k: "account_key dg email = account_key dg e" by simp
    then have "failed_view dg t email ip v (account_key dg e) = Some (bump (v (account_key dg e)) attempt_window t)"
      by (simp add: failed_view_def Let_def k del: key_same)
    with True tr up show ?thesis by (auto simp: tracks_def attempts_on_def)
  next
    case False
    then have "failed_view dg t email ip v (account_key dg e) = v (account_key dg e)"
      by (simp add: failed_view_def Let_def)
    with False tr keep show ?thesis by (auto simp: tracks_def attempts_on_def)
  qed
  have src: "tally (insert t (times_of xs)) (failed_view dg t email ip v (sources_key dg e))
      (card (places_of dg (xs @ [(t, email, ip)]) (email_hash dg e)))" for e
  proof (cases "ip \<noteq> '''' \<and> email_hash dg email = email_hash dg e \<and> ip \<notin> places_of dg xs (email_hash dg email)")
    case True
    then have k: "sources_key dg email = sources_key dg e" by simp
    with True have "failed_view dg t email ip v (sources_key dg e) = Some (bump (v (sources_key dg e)) attempt_window t)"
      using new by (auto simp add: failed_view_def Let_def k simp del: key_same)
    with True tr up show ?thesis by (auto simp: places_of_snoc tracks_def)
  next
    case False
    then have "failed_view dg t email ip v (sources_key dg e) = v (sources_key dg e)"
      using new by (auto simp: failed_view_def Let_def)
    with False tr keep show ?thesis by (auto simp: places_of_snoc tracks_def insert_absorb)
  qed
  have mac: "tally (insert t (times_of xs)) (failed_view dg t email ip v (source_key i))
      (from_machine (xs @ [(t, email, ip)]) i)" if "i \<noteq> ''''" for i
  proof (cases "ip = i")
    case True
    with that have "failed_view dg t email ip v (source_key i) = Some (bump (v (source_key i)) attempt_window t)"
      by (simp add: failed_view_def Let_def)
    with True tr up that show ?thesis by (auto simp: tracks_def from_machine_def)
  next
    case False
    then have "failed_view dg t email ip v (source_key i) = v (source_key i)"
      by (simp add: failed_view_def Let_def)
    with False tr keep that show ?thesis by (auto simp: tracks_def from_machine_def)
  qed
  have par: "tally (insert t (times_of xs)) (failed_view dg t email ip v (pair_key dg e i))
      (pairs_of dg (xs @ [(t, email, ip)]) (email_hash dg e) i)" if "i \<noteq> ''''" for e i
  proof (cases "email_hash dg email = email_hash dg e \<and> ip = i")
    case True
    then have "pair_key dg email ip = pair_key dg e i" by (simp add: pair_key_def)
    with True that have "failed_view dg t email ip v (pair_key dg e i) = Some (bump (v (pair_key dg e i)) attempt_window t)"
      by (simp add: failed_view_def Let_def)
    with True tr up that show ?thesis by (auto simp: tracks_def pairs_of_def)
  next
    case False
    then have "failed_view dg t email ip v (pair_key dg e i) = v (pair_key dg e i)"
      by (auto simp: failed_view_def Let_def pair_key_same [OF dg])
    with False tr keep that show ?thesis by (auto simp: tracks_def pairs_of_def)
  qed
  show ?thesis using acc src mac par by (simp add: tracks_def)
qed

lemma failures_snoc: "failures ops dg (xs @ [(t, e, i)]) s = failed ops dg t e i (failures ops dg xs s)"
  by (induction ops dg xs s rule: failures.induct) auto

context counter_store begin

lemma lk_within_view:
  assumes "room s (Suc n)"
  shows "view (fst (lk_within ops t k mx s)) = (view s)(k \<mapsto> bump (view s k) attempt_window t)"
    and "room (fst (lk_within ops t k mx s)) n"
    and "snd (lk_within ops t k mx s) \<longleftrightarrow> snd (bump (view s k) attempt_window t) \<le> mx"
  using reserve_view [OF assms attempt_window_whole, of t k mx]
  by (cases "op_reserve ops t k mx attempt_window s"; auto simp: lk_within_def verdict_of_def decided_def)+

lemma lk_record_view:
  assumes "room s (Suc n)"
  shows "view (lk_record ops t k mx s) = (view s)(k \<mapsto> bump (view s k) attempt_window t)"
    and "room (lk_record ops t k mx s) n"
  using lk_within_view [OF assms] by (simp_all add: lk_record_def)

lemma failed_view_eq:
  assumes "room s (4 + n)"
  shows "view (failed ops dg t email ip s) = failed_view dg t email ip (view s) \<and> room (failed ops dg t email ip s) n"
proof (cases "ip = ''''")
  case True
  have "room s (Suc (3 + n))" using assms by simp
  from lk_record_view [OF this] True
  show ?thesis using room_mono by (auto simp: failed_def failed_view_def numeral_3_eq_3)
next
  case False
  define s1 where "s1 = lk_record ops t (account_key dg email) max_attempts s"
  define r2 where "r2 = lk_within ops t (pair_key dg email ip) 1 s1"
  define s3 where "s3 = (if snd r2 then lk_record ops t (sources_key dg email) max_sources (fst r2) else fst r2)"
  have r: "room s (Suc (3 + n))" using assms by simp
  note v1 = lk_record_view [OF r, of t "account_key dg email" max_attempts, folded s1_def]
  have "room s1 (Suc (2 + n))" using v1(2) by (simp add: numeral_3_eq_3)
  note v2 = lk_within_view [OF this, of t "pair_key dg email ip" 1, folded r2_def]
  have r2': "room (fst r2) (Suc (Suc n))" using v2(2) by simp
  note v3 = lk_record_view [OF r2', of t "sources_key dg email" max_sources]
  have s3: "room s3 (Suc n)"
    "view s3 = (if snd r2 then (view (fst r2))(sources_key dg email \<mapsto> bump (view (fst r2) (sources_key dg email)) attempt_window t)
       else view (fst r2))"
    using v3 room_mono [OF r2'] by (auto simp: s3_def)
  note v4 = lk_record_view [OF s3(1), of t "source_key ip" source_attempts]
  have f: "failed ops dg t email ip s = lk_record ops t (source_key ip) source_attempts s3"
    using False by (simp add: failed_def s3_def r2_def s1_def Let_def split: prod.splits)
  show ?thesis
    unfolding f using v4 False by (auto simp: s3(2) v2 v1 failed_view_def Let_def)
qed

lemma failures_track:
  assumes "room s (4 * length xs)" "\<And>k. view s k = None" "one_window (times_of xs)" "digest_plain dg"
  shows "tracks dg xs (view (failures ops dg xs s))"
proof -
  have "tracks dg xs (view (failures ops dg xs s)) \<and> room (failures ops dg xs s) n"
    if "room s (4 * length xs + n)" "one_window (times_of xs)" for n
    using that
  proof (induction xs arbitrary: n rule: rev_induct)
    case Nil
    have "view s = (\<lambda>_. None)" using assms(2) by auto
    with Nil show ?case by (simp add: tracks_empty)
  next
    case (snoc x xs)
    obtain t e i where x: "x = (t, e, i)" by (cases x) auto
    have w: "one_window (insert t (times_of xs))" using snoc.prems(2) by (simp add: x)
    have "one_window (times_of xs)" using w by (auto simp: one_window_def)
    with snoc.IH [of "4 + n"] snoc.prems(1) have
      "tracks dg xs (view (failures ops dg xs s))" "room (failures ops dg xs s) (4 + n)"
      by (auto simp: algebra_simps)
    then show ?case
      unfolding x failures_snoc using tracks_failed [OF _ w assms(4)] failed_view_eq by simp
  qed
  from this [of 0] assms show ?thesis by simp
qed

lemma tracks_check:
  assumes tr: "tracks dg xs (view s)" and w: "one_window (insert t (times_of xs))"
  shows "fst (check ops dg t email ip s) = failure_verdict dg xs email ip"
    and "d_remaining (snd (check ops dg t email ip s)) = max (10 - int (attempts_on dg xs (email_hash dg email))) 0"
proof -
  have started: "\<forall>st \<in> times_of xs. t - attempt_window < st" using w by (auto simp: one_window_def)
  have cnt: "lk_count ops t k s = int n" if "tally (times_of xs) (view s k) n" for k n
    using tally_standing [OF that started]
    by (cases "standing (view s k) attempt_window t") (simp add: lk_count_def lk_read_def count_law)
  have acc: "lk_read ops t (account_key dg email) s = (int (attempts_on dg xs (email_hash dg email)), left, True)"
    if "left = snd (standing (view s (account_key dg email)) attempt_window t)" for left
    using tally_standing [OF _ started, of "view s (account_key dg email)"] tr that
    by (auto simp: lk_read_def count_law tracks_def split: prod.splits)
  have "lk_count ops t (sources_key dg email) s = int (card (places_of dg xs (email_hash dg email)))"
    "ip \<noteq> '''' \<Longrightarrow> lk_count ops t (source_key ip) s = int (from_machine xs ip)"
    using tr by (auto intro!: cnt simp: tracks_def)
  then show "fst (check ops dg t email ip s) = failure_verdict dg xs email ip"
    "d_remaining (snd (check ops dg t email ip s)) = max (10 - int (attempts_on dg xs (email_hash dg email))) 0"
    using acc [OF refl] by (auto simp: check_def failure_verdict_def max_attempts_def max_sources_def source_attempts_def Let_def)
qed

end

end
