(* ===== verification/LimiterProperties.thy ===== *)
theory LimiterProperties
  imports Lockout
begin

section \<open>What the limiter, the lockout and the names promise\<close>

text \<open>
  The properties of \<open>kit/limit\<close>, of the attempt limiter of \<open>modules/auth\<close> and of the names of
  \<open>kit/appname\<close>, stated over the code's models; the proofs are the facts of the locale
  \<open>counter_store\<close> on its two interpretations and the lemmas of the name theories.
\<close>

text \<open>A digest without spaces to evaluate the witnesses with.\<close>

definition demo_digest :: "string \<Rightarrow> string" where
  "demo_digest s = filter (\<lambda>c. c \<noteq> CHR '' '') s"

lemma demo_digest_plain: "digest_plain demo_digest"
  by (simp add: digest_plain_def demo_digest_def)

definition ten_failures :: "failure list" where
  "ten_failures = replicate 10 (5, ''ann@shop'', ''10.0.0.1'')"

text \<open>
  C7: After any list of failed logins within one window, counted in Postgres from an empty table, the
  verdict on the next attempt is the one the failures call for: ten failures against the
  account refuse it, or delay it when more than three addresses made them; fifty from the
  address delay it; anything less allows it.  The remaining attempts shown are the ten less
  the failures against the account.
\<close>

theorem login_verdict_after_failures:
  assumes "4 * length xs \<le> 2147483647" "one_window (insert t (times_of xs))" "digest_plain dg"
  shows "fst (check (pg_ops us app ctx) dg t email ip (failures (pg_ops us app ctx) dg xs fmempty))
      = failure_verdict dg xs email ip
    \<and> d_remaining (snd (check (pg_ops us app ctx) dg t email ip (failures (pg_ops us app ctx) dg xs fmempty)))
      = max (10 - int (attempts_on dg xs (email_hash dg email))) 0"
proof -
  have "one_window (times_of xs)" using assms(2) by (auto simp: one_window_def)
  moreover have "pg_room fmempty (4 * length xs)" using assms(1) by (intro pg_room_empty) (simp add: max_quota_def)
  ultimately have "tracks dg xs (pg_view us app ctx (failures (pg_ops us app ctx) dg xs fmempty))"
    using assms(3) by (intro pg.failures_track) (simp_all add: views_empty)
  from pg.tracks_check [OF this assms(2)] show ?thesis by simp
qed

theorem login_verdict_after_failures_witness:
  "fst (check (pg_ops uuid_text ''shop'' None) demo_digest 6 ''ann@shop'' ''10.0.0.2''
     (failures (pg_ops uuid_text ''shop'' None) demo_digest ten_failures fmempty)) = Refuse"
proof -
  have "4 * length ten_failures \<le> 2147483647" by (simp add: ten_failures_def)
  moreover have "one_window (insert 6 (times_of ten_failures))"
    by (simp add: one_window_def times_of_def ten_failures_def attempt_window_def duration_defs)
  moreover have "failure_verdict demo_digest ten_failures ''ann@shop'' ''10.0.0.2'' = Refuse" by code_simp
  ultimately show ?thesis
    using login_verdict_after_failures [of ten_failures 6 demo_digest uuid_text "''shop''" None "''ann@shop''" "''10.0.0.2''"]
      demo_digest_plain by simp
qed

text \<open>
  C8: A caller cannot tell the limiter in memory from the one in Postgres: the same calls, on
  windows of whole milliseconds, are given the same answers, as long as memory does not have
  to drop a window to stay within its ten thousand.
\<close>

theorem limiter_stores_agree:
  assumes "length as \<le> max_tracked" "list_all ask_whole as"
  shows "answers (mem_ops us ctx) as fmempty = answers (pg_ops us app ctx) as fmempty"
proof -
  have "pg_room fmempty (length as)"
    using assms(1) by (intro pg_room_empty) (simp add: max_quota_def max_tracked_def)
  then show ?thesis
    using mem.answers_counter [OF mem_room_empty assms(2), of us ctx] pg.answers_counter [OF _ assms(2), of _ us app ctx] assms(1)
    by (simp add: views_empty)
qed

theorem limiter_stores_agree_witness:
  "answers (mem_ops uuid_text None) [AskReserve 1 ''k'' 1 second, AskReserve 2 ''k'' 1 second, AskForget ''k'', AskCount 3 ''k'' second] fmempty
   = answers (pg_ops uuid_text ''shop'' None) [AskReserve 1 ''k'' 1 second, AskReserve 2 ''k'' 1 second, AskForget ''k'', AskCount 3 ''k'' second] fmempty"
proof (rule limiter_stores_agree)
  show "list_all ask_whole [AskReserve 1 ''k'' 1 second, AskReserve 2 ''k'' 1 second, AskForget ''k'', AskCount 3 ''k'' second]"
    by (simp add: whole_def duration_defs)
qed (simp add: max_tracked_def)

text \<open>
  C9: Within one window a key is granted exactly its quota: of the events of one key that fall
  in the window the first one opens, the first \<open>q\<close> are allowed and every later one is refused.
\<close>

theorem limiter_grants_its_quota:
  assumes "whole w" "length ts < 2147483647" "\<forall>t \<in> set ts. t - w < t0"
  shows "map (map_option fst) (snd (reserves (pg_ops us app ctx) k q w (t0 # ts) fmempty)) =
    map (\<lambda>i. Some (int i < q)) [0..<Suc (length ts)]"
  using assms
  by (intro pg.reserves_window) (auto simp: views_empty max_quota_def intro!: pg_room_empty)

theorem limiter_grants_its_quota_witness:
  "map (map_option fst) (snd (reserves (pg_ops uuid_text ''shop'' None) ''k'' 2 second [1, 2, 3, 4] fmempty)) =
     [Some True, Some True, Some False, Some False]"
  using limiter_grants_its_quota [of second "[2, 3, 4]" 1 uuid_text "''shop''" None "''k''" 2]
  by (simp add: whole_def duration_defs upt_rec)

text \<open>
  C10: A full counter never overflows and never opens again within its window: the statement
  succeeds on every table whose counts fit the column, leaves such a table, and refuses an
  event whose row has reached its limit, even one that has stood at the largest count.
\<close>

theorem limiter_full_stays_full:
  assumes "table_ok tbl" "fmlookup tbl k = Some r" "now - interval_of w < r_start r" "limit \<le> r_count r" "limit \<le> max_quota"
  shows "\<exists>tbl' n left. stmt_reserve now clock k w tbl = Some (tbl', n, left) \<and> table_ok tbl'
    \<and> \<not> fst (decided limit n left)
    \<and> (\<exists>r'. fmlookup tbl' k = Some r' \<and> limit \<le> r_count r' \<and> r_start r' = r_start r)"
proof -
  from stmt_reserve_total [OF assms(1), of now clock k w] obtain tbl' n left where
    res: "stmt_reserve now clock k w tbl = Some (tbl', n, left)" "table_ok tbl'" by auto
  from stmt_reserve_refuses [OF assms res(1)] res show ?thesis by blast
qed

theorem limiter_full_stays_full_witness:
  "\<exists>tbl' n left. stmt_reserve 5 5 ''k'' second (fmupd ''k'' \<lparr>r_start = 1, r_count = 2147483647\<rparr> fmempty) = Some (tbl', n, left)
     \<and> \<not> fst (decided 3 n left)"
proof -
  have "table_ok (fmupd ''k'' \<lparr>r_start = 1, r_count = 2147483647\<rparr> fmempty)" by (simp add: table_ok_def int4_def)
  moreover have "interval_of second = second" by (rule interval_of_whole) (simp_all add: duration_defs)
  ultimately show ?thesis
    using limiter_full_stays_full [of "fmupd ''k'' \<lparr>r_start = 1, r_count = 2147483647\<rparr> fmempty" "''k''"
        "\<lparr>r_start = 1, r_count = 2147483647\<rparr>" 5 second 3 5]
    by (simp add: max_quota_def duration_defs) blast
qed

text \<open>
  C11: The sweep of old counters changes no answer: a window no longer than \<open>MaxWindow\<close>, asked
  about at the sweep or later, has the count it had.
\<close>

theorem limiter_purge_keeps_open_windows:
  assumes "0 \<le> w" "w \<le> max_window" "now' \<ge> now"
  shows "stmt_count now' clock k w (purge now tbl) = stmt_count now' clock k w tbl"
  by (rule purge_keeps_open [OF assms])

theorem limiter_purge_keeps_open_windows_witness:
  "stmt_count 9 9 ''k'' second (purge 8 (fmupd ''k'' \<lparr>r_start = 7, r_count = 3\<rparr> fmempty)) = (3, second - 2)"
proof -
  have "interval_of second = second" by (rule interval_of_whole) (simp_all add: duration_defs)
  then show ?thesis
    using limiter_purge_keeps_open_windows [of second 8 9 9 "''k''" "fmupd ''k'' \<lparr>r_start = 7, r_count = 3\<rparr> fmempty"]
    by (simp add: max_window_def keep_def duration_defs stmt_count_def)
qed

text \<open>
  C12: The transaction that counts an event is asked again only while it cannot have run: the
  answer is that of one try, every try before it failed on a dead connection without having
  entered the transaction, and so an event is never counted by two of them.
\<close>

theorem limiter_counts_an_event_once:
  assumes "run_limit True as = Some out"
  shows "\<exists>pre a post. as = pre @ a # post \<and> (\<forall>b \<in> set pre. \<not> at_entered b \<and> at_answer b = Inl (BadConn True))
    \<and> out = (case at_answer a of Inr r \<Rightarrow> Inr r | Inl e \<Rightarrow> Inl (classified e (at_wall_judged a)))"
  using assms by (intro run_tries_last_entered) (simp add: run_limit_def)

theorem limiter_counts_an_event_once_witness:
  "\<exists>pre a post. [\<lparr>at_entered = False, at_answer = Inl (BadConn True), at_wall_asked = False, at_wall_judged = False\<rparr>,
       \<lparr>at_entered = True, at_answer = Inr (7::nat), at_wall_asked = False, at_wall_judged = False\<rparr>] = pre @ a # post
     \<and> Inr 7 = (case at_answer a of Inr r \<Rightarrow> Inr r | Inl e \<Rightarrow> Inl (classified e (at_wall_judged a)))"
  using limiter_counts_an_event_once [of "[\<lparr>at_entered = False, at_answer = Inl (BadConn True), at_wall_asked = False, at_wall_judged = False\<rparr>,
       \<lparr>at_entered = True, at_answer = Inr (7::nat), at_wall_asked = False, at_wall_judged = False\<rparr>]" "Inr 7"]
  by (fastforce simp: run_limit_def asked_again_def)

text \<open>
  C13: Applications and tenants that share a server share no key: a limiter key, and a cache
  key, is one application's, one tenant's and one caller's key, whatever the last one holds.
\<close>

theorem shared_keys_are_one_tenants:
  assumes "uuid_spelling us" "usable a" "usable a'"
    "rate_limit_key us a t k = rate_limit_key us a' t' k' \<or> cache_key us a t k = cache_key us a' t' k'"
  shows "a = a' \<and> t = t' \<and> k = k'"
  using assms(4) rate_limit_key_eqD [OF assms(1-3)] cache_key_eqD [OF assms(1-3)] by blast

theorem shared_keys_are_one_tenants_witness:
  "rate_limit_key uuid_text ''shop'' 7 ''a/b'' \<noteq> rate_limit_key uuid_text '''' 7 ''a/b''
   \<and> cache_key uuid_text ''shop'' 7 ''k'' \<noteq> cache_key uuid_text ''shop'' 8 ''k''"
proof -
  have "usable ''shop''" "usable ''''" by code_simp+
  then show ?thesis
    using shared_keys_are_one_tenants [OF uuid_text_spelling, of "''shop''" "''''" 7 "''a/b''" 7 "''a/b''"]
      shared_keys_are_one_tenants [OF uuid_text_spelling, of "''shop''" "''shop''" 7 "''k''" 8 "''k''"] by auto
qed

text \<open>
  C14: A stored event is read only at its own address: two events a process accepts under one
  subject carry its application's name, and are one tenant's and have one name.  The one exception is
  the address of the oldest build, which holds no tenant and is read by an application that names
  itself nothing; a named application never reads it.
\<close>

theorem accepted_address_is_the_events:
  assumes "uuid_spelling us" "address_mismatch us app subj ev = None" "address_mismatch us app subj ev' = None"
  shows "ev_app ev = app \<and> ev_app ev' = app
    \<and> (ev_tenant ev = ev_tenant ev' \<and> ev_name ev = ev_name ev'
       \<or> \<not> named app \<and> (subj = oldest_subject (ev_name ev) \<or> subj = oldest_subject (ev_name ev')))"
proof -
  have s: "subj = subject us app (ev_tenant e) (ev_name e)"
    if "address_mismatch us app subj e = None" "\<not> (\<not> named app \<and> subj = oldest_subject (ev_name e))" for e
    using that by (auto simp: address_mismatch_None_iff)
  have u: "usable app" and a: "ev_app ev = app" "ev_app ev' = app"
    using assms by (auto simp: address_mismatch_None_iff)
  show ?thesis
  proof (cases "\<not> named app \<and> (subj = oldest_subject (ev_name ev) \<or> subj = oldest_subject (ev_name ev'))")
    case True
    with a show ?thesis by blast
  next
    case False
    then have "subject us app (ev_tenant ev) (ev_name ev) = subject us app (ev_tenant ev') (ev_name ev')"
      using s [OF assms(2)] s [OF assms(3)] by auto
    from subject_eqD [OF assms(1) u this] a show ?thesis by blast
  qed
qed

theorem accepted_address_is_the_events_witness:
  "address_mismatch uuid_text ''shop'' (subject uuid_text ''shop'' 7 ''order.placed'')
     \<lparr>ev_app = ''shop'', ev_tenant = 8, ev_name = ''order.placed''\<rparr> \<noteq> None"
proof -
  let ?e = "\<lambda>t. \<lparr>ev_app = ''shop'', ev_tenant = t, ev_name = ''order.placed''\<rparr>"
  have "usable ''shop''" by code_simp
  then have "address_mismatch uuid_text ''shop'' (subject uuid_text ''shop'' 7 ''order.placed'') (?e 7) = None"
    by (simp add: address_mismatch_None_iff)
  from accepted_address_is_the_events [OF uuid_text_spelling this, of "?e 8"] show ?thesis
    by (auto simp: named_def)
qed

end
