(* ===== verification/Receipts.thy ===== *)
theory Receipts
  imports Prelude "HOL-Library.Finite_Map" "HOL-Library.Char_ord"
begin

section \<open>Operation receipts\<close>

text \<open>
  \<open>kit/idempotency/operations.go\<close> and \<open>kit/operation\<close>: the receipt of an admitted operation,
  the decision shared by both stores (\<open>decideOutcome\<close>), the store in Postgres over its table
  \<open>platformkit_operations\<close> (keyed by tenant and reference; a transaction of one tenant sees
  that tenant's rows) and the store in memory.  Errors are the classes the callers test for.

  The locale \<open>receipt_store\<close> is what a caller may rely on, interpreted on both stores; inside
  it: a receipt that has a terminal outcome keeps it, and no receipt changes more than twice.
\<close>

subsection \<open>Outcomes, identities and receipts\<close>

datatype outcome = Unknown | Succeeded | Failed | PendingApproval | OtherOutcome string

definition outcome_valid :: "outcome \<Rightarrow> bool" where
  "outcome_valid out \<longleftrightarrow> out = Succeeded \<or> out = Failed \<or> out = PendingApproval"

definition max_token_length :: nat where "max_token_length = 128"

definition token_char :: "char \<Rightarrow> bool" where
  "token_char c \<longleftrightarrow>
     (CHR ''a'' \<le> c \<and> c \<le> CHR ''z'') \<or> (CHR ''A'' \<le> c \<and> c \<le> CHR ''Z'') \<or> (CHR ''0'' \<le> c \<and> c \<le> CHR ''9'')
     \<or> c \<in> set (''!#$%&'' @ [CHR 0x27] @ ''*+-.^_'' @ [CHR 0x60] @ ''|~'')"

definition valid_token :: "string \<Rightarrow> bool" where
  "valid_token i \<longleftrightarrow> \<not> (length i = 0 \<or> length i > max_token_length) \<and> list_all token_char i"

record operation =
  op_ident :: string
  op_ref :: string
  op_tenant :: string
  op_person :: string
  op_outcome :: outcome
  op_revision :: int

record receipt =
  rc_ref :: uuid
  rc_ident :: string
  rc_tenant :: uuid
  rc_caller :: uuid
  rc_person :: uuid
  rc_method :: string
  rc_route :: string
  rc_outcome :: outcome
  rc_revision :: int
  rc_started :: time
  rc_outcome_at :: time

text \<open>\<open>Receipt.Operation\<close>: identifiers printed, nobody printed as the empty text.\<close>

definition operation_of :: "(uuid \<Rightarrow> string) \<Rightarrow> receipt \<Rightarrow> operation" where
  "operation_of us r =
     \<lparr>op_ident = rc_ident r, op_ref = us (rc_ref r), op_tenant = us (rc_tenant r),
      op_person = (if rc_person r \<noteq> uuid_nil then us (rc_person r) else ''''),
      op_outcome = rc_outcome r, op_revision = rc_revision r\<rparr>"

subsection \<open>The decisions both stores share\<close>

datatype op_error = Invalid | Conflict | NotFound

definition retention :: duration where "retention = 24 * hour"

definition reservation_time :: "receipt \<Rightarrow> receipt" where
  "reservation_time r = r\<lparr>rc_started := trunc_us (rc_started r)\<rparr>"

definition valid_reservation :: "receipt \<Rightarrow> uuid \<Rightarrow> bool" where
  "valid_reservation r tenant \<longleftrightarrow>
     \<not> (tenant = uuid_nil \<or> rc_tenant r \<noteq> tenant \<or> rc_ref r = uuid_nil \<or> \<not> valid_token (rc_ident r)
        \<or> rc_method r = '''' \<or> rc_route r = '''' \<or> rc_started r = 0 \<or> rc_revision r \<noteq> 1
        \<or> rc_outcome r \<noteq> Unknown \<or> rc_outcome_at r \<noteq> 0)"

definition same_reservation :: "receipt \<Rightarrow> receipt \<Rightarrow> bool" where
  "same_reservation a b \<longleftrightarrow>
     rc_ref a = rc_ref b \<and> rc_ident a = rc_ident b \<and> rc_tenant a = rc_tenant b \<and> rc_caller a = rc_caller b
     \<and> rc_person a = rc_person b \<and> rc_method a = rc_method b \<and> rc_route a = rc_route b \<and> rc_started a = rc_started b"

definition expired :: "receipt \<Rightarrow> time \<Rightarrow> bool" where
  "expired r at \<longleftrightarrow> (rc_outcome r = Succeeded \<or> rc_outcome r = Failed)
     \<and> \<not> at < max (rc_started r) (rc_outcome_at r) + retention"

definition bound :: "(uuid \<Rightarrow> string) \<Rightarrow> receipt \<Rightarrow> operation \<Rightarrow> bool" where
  "bound us r op \<longleftrightarrow>
     op_ident (operation_of us r) = op_ident op \<and> op_ref (operation_of us r) = op_ref op
     \<and> op_tenant (operation_of us r) = op_tenant op \<and> op_person (operation_of us r) = op_person op"

definition decide_outcome :: "receipt \<Rightarrow> int \<Rightarrow> outcome \<Rightarrow> time \<Rightarrow> op_error + (receipt \<times> bool)" where
  "decide_outcome r expected out at =
     (if expected \<le> 0 \<or> \<not> outcome_valid out \<or> at = 0 \<or> at < rc_started r
         \<or> (rc_outcome_at r \<noteq> 0 \<and> at < rc_outcome_at r) then Inl Invalid
      else if rc_revision r \<noteq> expected then Inl Conflict
      else if rc_outcome r = out then Inr (r, False)
      else if rc_outcome r = Succeeded \<or> rc_outcome r = Failed then Inl Conflict
      else Inr (r\<lparr>rc_outcome := out, rc_outcome_at := trunc_us at, rc_revision := rc_revision r + 1\<rparr>, True))"

subsection \<open>The table\<close>

record operation_row =
  or_id :: uuid
  or_tenant :: uuid
  or_ident :: string
  or_caller :: uuid
  or_person :: "uuid option"
  or_method :: string
  or_route :: string
  or_outcome :: "outcome option"
  or_revision :: int
  or_started :: time
  or_outcome_at :: "time option"

type_synonym operation_table = "(uuid \<times> uuid, operation_row) fmap"

definition nullable_uuid :: "uuid \<Rightarrow> uuid option" where
  "nullable_uuid i = (if i = uuid_nil then None else Some i)"

definition receipt_of :: "operation_row \<Rightarrow> receipt" where
  "receipt_of r =
     \<lparr>rc_ref = or_id r, rc_ident = or_ident r, rc_tenant = or_tenant r, rc_caller = or_caller r,
      rc_person = (case or_person r of None \<Rightarrow> uuid_nil | Some p \<Rightarrow> p),
      rc_method = or_method r, rc_route = or_route r,
      rc_outcome = (case or_outcome r of None \<Rightarrow> Unknown | Some x \<Rightarrow> x),
      rc_revision = or_revision r, rc_started = or_started r,
      rc_outcome_at = (case or_outcome_at r of None \<Rightarrow> 0 | Some t \<Rightarrow> t)\<rparr>"

text \<open>The row the \<open>INSERT\<close> of \<open>Reserve\<close> writes.\<close>

definition reserved_row :: "receipt \<Rightarrow> operation_row" where
  "reserved_row r =
     \<lparr>or_id = rc_ref r, or_tenant = rc_tenant r, or_ident = rc_ident r, or_caller = rc_caller r,
      or_person = nullable_uuid (rc_person r), or_method = rc_method r, or_route = rc_route r,
      or_outcome = None, or_revision = 1, or_started = rc_started r, or_outcome_at = None\<rparr>"

definition sql_reserve :: "uuid \<Rightarrow> receipt \<Rightarrow> operation_table \<Rightarrow> operation_table \<times> op_error option" where
  "sql_reserve tenant r0 tbl =
     (let r = reservation_time r0
      in if \<not> valid_reservation r tenant then (tbl, Some Invalid)
         else let tbl' = (case fmlookup tbl (tenant, rc_ref r) of
                            None \<Rightarrow> fmupd (tenant, rc_ref r) (reserved_row r) tbl | Some _ \<Rightarrow> tbl)
              in case fmlookup tbl' (tenant, rc_ref r) of
                   None \<Rightarrow> (tbl', Some NotFound)
                 | Some row \<Rightarrow> if \<not> same_reservation (receipt_of row) r then (tbl', Some Conflict) else (tbl', None))"

definition sql_get :: "uuid \<Rightarrow> uuid \<Rightarrow> uuid \<Rightarrow> time \<Rightarrow> operation_table \<Rightarrow> op_error + receipt" where
  "sql_get tenant ref person at tbl =
     (if at = 0 then Inl Invalid
      else if person = uuid_nil then Inl NotFound
      else case fmlookup tbl (tenant, ref) of
        None \<Rightarrow> Inl NotFound
      | Some row \<Rightarrow>
          if or_person row \<noteq> Some person then Inl NotFound
          else if expired (receipt_of row) at then Inl NotFound
          else Inr (receipt_of row))"

text \<open>\<open>uuid.Parse\<close> is a parameter, as \<open>uuid.UUID.String\<close> is.\<close>

definition sql_current ::
    "(uuid \<Rightarrow> string) \<Rightarrow> (string \<Rightarrow> uuid option) \<Rightarrow> uuid \<Rightarrow> operation \<Rightarrow> operation_table \<Rightarrow> op_error + receipt" where
  "sql_current us parse tenant op tbl =
     (case parse (op_ref op) of
        None \<Rightarrow> Inl NotFound
      | Some ref \<Rightarrow>
          if op_tenant op \<noteq> us tenant then Inl NotFound
          else case fmlookup tbl (tenant, ref) of
            None \<Rightarrow> Inl NotFound
          | Some row \<Rightarrow> if \<not> bound us (receipt_of row) op then Inl NotFound else Inr (receipt_of row))"

definition sql_transition ::
    "(uuid \<Rightarrow> string) \<Rightarrow> (string \<Rightarrow> uuid option) \<Rightarrow> uuid \<Rightarrow> operation \<Rightarrow> int \<Rightarrow> outcome \<Rightarrow> time
     \<Rightarrow> operation_table \<Rightarrow> operation_table \<times> (op_error + (receipt \<times> bool))" where
  "sql_transition us parse tenant op expected out at tbl =
     (case parse (op_ref op) of
        None \<Rightarrow> (tbl, Inl NotFound)
      | Some ref \<Rightarrow>
          if op_tenant op \<noteq> us tenant then (tbl, Inl NotFound)
          else case fmlookup tbl (tenant, ref) of
            None \<Rightarrow> (tbl, Inl NotFound)
          | Some row \<Rightarrow>
              if \<not> bound us (receipt_of row) op \<or> expired (receipt_of row) at then (tbl, Inl NotFound)
              else case decide_outcome (receipt_of row) expected out at of
                Inl e \<Rightarrow> (tbl, Inl e)
              | Inr (r, changed) \<Rightarrow>
                  if \<not> changed then (tbl, Inr (r, False))
                  else if or_revision row \<noteq> expected then (tbl, Inl Conflict)
                  else (fmupd (tenant, ref) (row\<lparr>or_outcome := Some (rc_outcome r),
                          or_outcome_at := Some (rc_outcome_at r), or_revision := rc_revision r\<rparr>) tbl, Inr (r, True)))"

definition sql_origin :: "uuid \<Rightarrow> uuid \<Rightarrow> operation_table \<Rightarrow> op_error + receipt" where
  "sql_origin tenant ref tbl =
     (case fmlookup tbl (tenant, ref) of None \<Rightarrow> Inl NotFound | Some row \<Rightarrow> Inr (receipt_of row))"

text \<open>
  \<open>SucceedSystem\<close>: \<open>op\<close> is the operation of the context, \<open>None\<close> without one or when it was
  deferred.  The row is read by the parsed tenant and reference; a missing row is the
  database's own error, here \<open>NotFound\<close> as well.
\<close>

definition succeed_system ::
    "(uuid \<Rightarrow> string) \<Rightarrow> (string \<Rightarrow> uuid option) \<Rightarrow> operation option \<Rightarrow> time \<Rightarrow> operation_table
     \<Rightarrow> operation_table \<times> (op_error + (receipt \<times> bool) option)" where
  "succeed_system us parse opo at tbl =
     (case opo of
        None \<Rightarrow> (tbl, Inr None)
      | Some op \<Rightarrow>
          (case (parse (op_tenant op), parse (op_ref op)) of
             (Some tenant, Some ref) \<Rightarrow>
               (case fmlookup tbl (tenant, ref) of
                  None \<Rightarrow> (tbl, Inl NotFound)
                | Some row \<Rightarrow>
                    if \<not> bound us (receipt_of row) op then (tbl, Inl NotFound)
                    else if or_outcome row = Some Succeeded then (tbl, Inr (Some (receipt_of row, False)))
                    else case decide_outcome (receipt_of row) (or_revision row) Succeeded at of
                      Inl e \<Rightarrow> (tbl, Inl e)
                    | Inr (r, changed) \<Rightarrow>
                        if \<not> changed then (tbl, Inr (Some (r, False)))
                        else (fmupd (tenant, ref) (row\<lparr>or_outcome := Some (rc_outcome r),
                                or_outcome_at := Some (rc_outcome_at r), or_revision := rc_revision r\<rparr>) tbl,
                              Inr (Some (r, True))))
           | _ \<Rightarrow> (tbl, Inl NotFound)))"

subsection \<open>Memory\<close>

type_synonym operation_map = "(uuid \<times> uuid, receipt) fmap"

definition mem_op_reserve :: "uuid \<Rightarrow> receipt \<Rightarrow> operation_map \<Rightarrow> operation_map \<times> op_error option" where
  "mem_op_reserve tenant r0 m =
     (let r = reservation_time r0
      in if \<not> valid_reservation r tenant then (m, Some Invalid)
         else case fmlookup m (rc_tenant r, rc_ref r) of
           Some old \<Rightarrow> if \<not> same_reservation old r then (m, Some Conflict) else (m, None)
         | None \<Rightarrow> (fmupd (rc_tenant r, rc_ref r) r m, None))"

definition mem_op_get :: "uuid \<Rightarrow> uuid \<Rightarrow> uuid \<Rightarrow> time \<Rightarrow> operation_map \<Rightarrow> op_error + receipt" where
  "mem_op_get tenant ref person at m =
     (if at = 0 then Inl Invalid
      else case fmlookup m (tenant, ref) of
        None \<Rightarrow> Inl NotFound
      | Some r \<Rightarrow>
          if person = uuid_nil \<or> rc_person r \<noteq> person \<or> rc_tenant r \<noteq> tenant \<or> expired r at then Inl NotFound
          else Inr r)"

definition mem_op_current ::
    "(uuid \<Rightarrow> string) \<Rightarrow> (string \<Rightarrow> uuid option) \<Rightarrow> uuid \<Rightarrow> operation \<Rightarrow> operation_map \<Rightarrow> op_error + receipt" where
  "mem_op_current us parse tenant op m =
     (case parse (op_ref op) of
        None \<Rightarrow> Inl NotFound
      | Some ref \<Rightarrow>
          (case fmlookup m (tenant, ref) of
             None \<Rightarrow> Inl NotFound
           | Some r \<Rightarrow> if rc_tenant r \<noteq> tenant \<or> \<not> bound us r op then Inl NotFound else Inr r))"

definition mem_op_transition ::
    "(uuid \<Rightarrow> string) \<Rightarrow> (string \<Rightarrow> uuid option) \<Rightarrow> uuid \<Rightarrow> operation \<Rightarrow> int \<Rightarrow> outcome \<Rightarrow> time
     \<Rightarrow> operation_map \<Rightarrow> operation_map \<times> (op_error + (receipt \<times> bool))" where
  "mem_op_transition us parse tenant op expected out at m =
     (case mem_op_current us parse tenant op m of
        Inl e \<Rightarrow> (m, Inl e)
      | Inr r \<Rightarrow>
          if expired r at then (m, Inl NotFound)
          else case decide_outcome r expected out at of
            Inl e \<Rightarrow> (m, Inl e)
          | Inr (r', changed) \<Rightarrow>
              (if changed then fmupd (rc_tenant r', rc_ref r') r' m else m, Inr (r', changed)))"

section \<open>The interface and its contract\<close>

record 's receipt_ops =
  ro_reserve :: "uuid \<Rightarrow> receipt \<Rightarrow> 's \<Rightarrow> 's \<times> op_error option"
  ro_get :: "uuid \<Rightarrow> uuid \<Rightarrow> uuid \<Rightarrow> time \<Rightarrow> 's \<Rightarrow> op_error + receipt"
  ro_current :: "uuid \<Rightarrow> operation \<Rightarrow> 's \<Rightarrow> op_error + receipt"
  ro_transition :: "uuid \<Rightarrow> operation \<Rightarrow> int \<Rightarrow> outcome \<Rightarrow> time \<Rightarrow> 's \<Rightarrow> 's \<times> (op_error + (receipt \<times> bool))"

definition sql_receipts :: "(uuid \<Rightarrow> string) \<Rightarrow> (string \<Rightarrow> uuid option) \<Rightarrow> operation_table receipt_ops" where
  "sql_receipts us parse =
     \<lparr>ro_reserve = sql_reserve, ro_get = sql_get, ro_current = sql_current us parse,
      ro_transition = sql_transition us parse\<rparr>"

definition mem_receipts :: "(uuid \<Rightarrow> string) \<Rightarrow> (string \<Rightarrow> uuid option) \<Rightarrow> operation_map receipt_ops" where
  "mem_receipts us parse =
     \<lparr>ro_reserve = mem_op_reserve, ro_get = mem_op_get, ro_current = mem_op_current us parse,
      ro_transition = mem_op_transition us parse\<rparr>"

subsection \<open>What the receipts are, whoever holds them\<close>

type_synonym receipts = "uuid \<times> uuid \<Rightarrow> receipt option"

definition spec_reserve :: "uuid \<Rightarrow> receipt \<Rightarrow> receipts \<Rightarrow> receipts \<times> op_error option" where
  "spec_reserve tenant r0 v =
     (let r = reservation_time r0
      in if \<not> valid_reservation r tenant then (v, Some Invalid)
         else case v (tenant, rc_ref r) of
           None \<Rightarrow> (v((tenant, rc_ref r) \<mapsto> r), None)
         | Some old \<Rightarrow> (v, if same_reservation old r then None else Some Conflict))"

definition spec_get :: "uuid \<Rightarrow> uuid \<Rightarrow> uuid \<Rightarrow> time \<Rightarrow> receipts \<Rightarrow> op_error + receipt" where
  "spec_get tenant ref person at v =
     (if at = 0 then Inl Invalid
      else case v (tenant, ref) of
        None \<Rightarrow> Inl NotFound
      | Some r \<Rightarrow> if person = uuid_nil \<or> rc_person r \<noteq> person \<or> expired r at then Inl NotFound else Inr r)"

definition spec_current ::
    "(uuid \<Rightarrow> string) \<Rightarrow> (string \<Rightarrow> uuid option) \<Rightarrow> uuid \<Rightarrow> operation \<Rightarrow> receipts \<Rightarrow> op_error + receipt" where
  "spec_current us parse tenant op v =
     (case parse (op_ref op) of
        None \<Rightarrow> Inl NotFound
      | Some ref \<Rightarrow> (case v (tenant, ref) of
          None \<Rightarrow> Inl NotFound
        | Some r \<Rightarrow> if bound us r op then Inr r else Inl NotFound))"

definition spec_transition ::
    "(uuid \<Rightarrow> string) \<Rightarrow> (string \<Rightarrow> uuid option) \<Rightarrow> uuid \<Rightarrow> operation \<Rightarrow> int \<Rightarrow> outcome \<Rightarrow> time
     \<Rightarrow> receipts \<Rightarrow> receipts \<times> (op_error + (receipt \<times> bool))" where
  "spec_transition us parse tenant op expected out at v =
     (case spec_current us parse tenant op v of
        Inl e \<Rightarrow> (v, Inl e)
      | Inr r \<Rightarrow>
          if expired r at then (v, Inl NotFound)
          else case decide_outcome r expected out at of
            Inl e \<Rightarrow> (v, Inl e)
          | Inr (r', changed) \<Rightarrow> (if changed then v((tenant, rc_ref r) \<mapsto> r') else v, Inr (r', changed)))"

text \<open>A receipt's life: unknown at its first revision, then perhaps pending, then settled.\<close>

definition receipt_ok :: "receipt \<Rightarrow> bool" where
  "receipt_ok r \<longleftrightarrow>
     (case rc_outcome r of
        Unknown \<Rightarrow> rc_revision r = 1 \<and> rc_outcome_at r = 0
      | PendingApproval \<Rightarrow> rc_revision r = 2
      | OtherOutcome s \<Rightarrow> False
      | _ \<Rightarrow> rc_revision r \<in> {2, 3})"

definition receipts_ok :: "receipts \<Rightarrow> bool" where
  "receipts_ok v \<longleftrightarrow> (\<forall>tenant ref r. v (tenant, ref) = Some r \<longrightarrow>
     rc_tenant r = tenant \<and> rc_ref r = ref \<and> tenant \<noteq> uuid_nil \<and> receipt_ok r)"

lemma decide_outcome_ok:
  assumes "decide_outcome r expected out at = Inr (r', changed)" "receipt_ok r"
  shows "receipt_ok r' \<and> rc_tenant r' = rc_tenant r \<and> rc_ref r' = rc_ref r \<and> (\<not> changed \<longrightarrow> r' = r)
    \<and> (changed \<longrightarrow> rc_outcome r \<notin> {Succeeded, Failed} \<and> rc_revision r' = rc_revision r + 1 \<and> rc_outcome r' \<noteq> Unknown)"
  using assms by (auto simp: decide_outcome_def receipt_ok_def outcome_valid_def split: if_splits outcome.splits)

lemma receipts_ok_empty [simp]: "receipts_ok (\<lambda>_. None)"
  by (simp add: receipts_ok_def)

lemma spec_reserve_ok: "receipts_ok v \<Longrightarrow> receipts_ok (fst (spec_reserve tenant r v))"
  by (auto simp: spec_reserve_def receipts_ok_def valid_reservation_def receipt_ok_def reservation_time_def Let_def
      split: option.split)

lemma spec_current_found:
  "spec_current us parse tenant op v = Inr r \<Longrightarrow> \<exists>ref. v (tenant, ref) = Some r \<and> parse (op_ref op) = Some ref"
  by (auto simp: spec_current_def split: option.splits if_splits)

lemma spec_transition_ok:
  assumes "receipts_ok v"
  shows "receipts_ok (fst (spec_transition us parse tenant op expected out at v))"
proof (cases "spec_current us parse tenant op v")
  case (Inl e)
  with assms show ?thesis by (simp add: spec_transition_def)
next
  case (Inr r)
  from spec_current_found [OF Inr] obtain ref where ref: "v (tenant, ref) = Some r" by auto
  with assms have r: "rc_tenant r = tenant" "rc_ref r = ref" "tenant \<noteq> uuid_nil" "receipt_ok r"
    by (auto simp: receipts_ok_def)
  with assms Inr show ?thesis
    using decide_outcome_ok [of r expected out at]
    by (auto simp: spec_transition_def receipts_ok_def split: sum.splits)
qed

text \<open>A settled receipt is left as it is.\<close>

definition settled :: "receipt \<Rightarrow> bool" where
  "settled r \<longleftrightarrow> rc_outcome r = Succeeded \<or> rc_outcome r = Failed"

lemma spec_reserve_keeps: "v k = Some r \<Longrightarrow> fst (spec_reserve tenant r0 v) k = Some r"
  by (auto simp: spec_reserve_def Let_def split: option.split)

lemma spec_transition_keeps:
  assumes "receipts_ok v" "v k = Some r" "settled r"
  shows "fst (spec_transition us parse tenant op expected out at v) k = Some r"
proof (cases "spec_current us parse tenant op v")
  case (Inl e)
  with assms show ?thesis by (simp add: spec_transition_def)
next
  case (Inr r1)
  from spec_current_found [OF Inr] obtain ref where ref: "v (tenant, ref) = Some r1" by auto
  with assms(1) have r1: "rc_ref r1 = ref" "receipt_ok r1" by (auto simp: receipts_ok_def)
  have "decide_outcome r1 expected out at \<noteq> Inr (r', True)" if "k = (tenant, ref)" for r'
    using decide_outcome_ok [of r1 expected out at r' True] r1 that ref assms(2,3) by (auto simp: settled_def)
  with Inr ref r1 assms(2) show ?thesis
    by (cases "k = (tenant, ref)") (auto simp: spec_transition_def split: sum.splits)
qed

subsection \<open>Calls and answers\<close>

datatype receipt_call =
    CallReserve uuid receipt
  | CallGet uuid uuid uuid time
  | CallCurrent uuid operation
  | CallTransition uuid operation int outcome time

datatype receipt_answer =
    ReserveAnswer "op_error option"
  | GetAnswer "op_error + receipt"
  | TransitionAnswer "op_error + (receipt \<times> bool)"

fun receipt_step :: "'s receipt_ops \<Rightarrow> receipt_call \<Rightarrow> 's \<Rightarrow> 's \<times> receipt_answer" where
  "receipt_step ops (CallReserve tenant r) s = (case ro_reserve ops tenant r s of (s', e) \<Rightarrow> (s', ReserveAnswer e))"
| "receipt_step ops (CallGet tenant ref person at) s = (s, GetAnswer (ro_get ops tenant ref person at s))"
| "receipt_step ops (CallCurrent tenant op) s = (s, GetAnswer (ro_current ops tenant op s))"
| "receipt_step ops (CallTransition tenant op expected out at) s =
     (case ro_transition ops tenant op expected out at s of (s', a) \<Rightarrow> (s', TransitionAnswer a))"

fun receipt_run :: "'s receipt_ops \<Rightarrow> receipt_call list \<Rightarrow> 's \<Rightarrow> 's \<times> receipt_answer list" where
  "receipt_run ops [] s = (s, [])"
| "receipt_run ops (c # cs) s =
     (case receipt_step ops c s of (s', a) \<Rightarrow> case receipt_run ops cs s' of (s'', as) \<Rightarrow> (s'', a # as))"

definition spec_receipts :: "(uuid \<Rightarrow> string) \<Rightarrow> (string \<Rightarrow> uuid option) \<Rightarrow> receipts receipt_ops" where
  "spec_receipts us parse =
     \<lparr>ro_reserve = spec_reserve, ro_get = spec_get, ro_current = spec_current us parse,
      ro_transition = spec_transition us parse\<rparr>"

lemma receipt_step_fst:
  "fst (receipt_step ops (CallReserve tenant r) s) = fst (ro_reserve ops tenant r s)"
  "fst (receipt_step ops (CallGet tenant ref person at) s) = s"
  "fst (receipt_step ops (CallCurrent tenant op) s) = s"
  "fst (receipt_step ops (CallTransition tenant op expected out at) s) = fst (ro_transition ops tenant op expected out at s)"
  by (simp_all add: case_prod_unfold)

lemma receipt_step_snd:
  "snd (receipt_step ops (CallReserve tenant r) s) = ReserveAnswer (snd (ro_reserve ops tenant r s))"
  "snd (receipt_step ops (CallGet tenant ref person at) s) = GetAnswer (ro_get ops tenant ref person at s)"
  "snd (receipt_step ops (CallCurrent tenant op) s) = GetAnswer (ro_current ops tenant op s)"
  "snd (receipt_step ops (CallTransition tenant op expected out at) s) = TransitionAnswer (snd (ro_transition ops tenant op expected out at s))"
  by (simp_all add: case_prod_unfold)

declare receipt_step.simps [simp del]

lemma spec_receipts_sel [simp]:
  "ro_reserve (spec_receipts us parse) = spec_reserve" "ro_get (spec_receipts us parse) = spec_get"
  "ro_current (spec_receipts us parse) = spec_current us parse" "ro_transition (spec_receipts us parse) = spec_transition us parse"
  by (simp_all add: spec_receipts_def)

lemma spec_step_ok: "receipts_ok v \<Longrightarrow> receipts_ok (fst (receipt_step (spec_receipts us parse) c v))"
  by (cases c) (simp_all add: receipt_step_fst spec_reserve_ok spec_transition_ok)

lemma spec_step_keeps:
  "receipts_ok v \<Longrightarrow> v k = Some r \<Longrightarrow> settled r \<Longrightarrow> fst (receipt_step (spec_receipts us parse) c v) k = Some r"
  by (cases c) (simp_all add: receipt_step_fst spec_reserve_keeps spec_transition_keeps)

lemma receipt_run_Cons_fst:
  "fst (receipt_run ops (c # cs) s) = fst (receipt_run ops cs (fst (receipt_step ops c s)))"
  "snd (receipt_run ops (c # cs) s) = snd (receipt_step ops c s) # snd (receipt_run ops cs (fst (receipt_step ops c s)))"
  by (auto split: prod.splits)

lemma receipt_run_append: "fst (receipt_run ops (cs @ ds) s) = fst (receipt_run ops ds (fst (receipt_run ops cs s)))"
  by (induction cs arbitrary: s) (simp_all add: receipt_run_Cons_fst del: receipt_run.simps(2))

lemma spec_run_ok: "receipts_ok v \<Longrightarrow> receipts_ok (fst (receipt_run (spec_receipts us parse) cs v))"
  by (induction cs arbitrary: v) (simp_all add: receipt_run_Cons_fst spec_step_ok del: receipt_run.simps(2))

lemma spec_run_keeps:
  "receipts_ok v \<Longrightarrow> v k = Some r \<Longrightarrow> settled r \<Longrightarrow> fst (receipt_run (spec_receipts us parse) cs v) k = Some r"
  by (induction cs arbitrary: v) (simp_all add: receipt_run_Cons_fst spec_step_ok spec_step_keeps del: receipt_run.simps(2))

subsection \<open>The contract\<close>

locale receipt_store =
  fixes ops :: "'s receipt_ops"
    and view :: "'s \<Rightarrow> receipts"
    and us :: "uuid \<Rightarrow> string"
    and parse :: "string \<Rightarrow> uuid option"
  assumes step_law: "receipts_ok (view s) \<Longrightarrow>
     view (fst (receipt_step ops c s)) = fst (receipt_step (spec_receipts us parse) c (view s))
     \<and> snd (receipt_step ops c s) = snd (receipt_step (spec_receipts us parse) c (view s))"
begin

lemma run_spec:
  "receipts_ok (view s) \<Longrightarrow>
     view (fst (receipt_run ops cs s)) = fst (receipt_run (spec_receipts us parse) cs (view s))
     \<and> snd (receipt_run ops cs s) = snd (receipt_run (spec_receipts us parse) cs (view s))"
  by (induction cs arbitrary: s) (simp_all add: receipt_run_Cons_fst step_law spec_step_ok del: receipt_run.simps(2))

lemma run_keeps:
  assumes "receipts_ok (view s)" "view (fst (receipt_run ops cs s)) k = Some r" "settled r"
  shows "view (fst (receipt_run ops (cs @ ds) s)) k = Some r"
proof -
  have "fst (receipt_run (spec_receipts us parse) cs (view s)) k = Some r"
    using run_spec [OF assms(1)] assms(2) by simp
  from spec_run_keeps [OF spec_run_ok [OF assms(1)] this assms(3)] show ?thesis
    using run_spec [OF assms(1), of "cs @ ds"] by (simp add: receipt_run_append)
qed

lemma run_ok: "receipts_ok (view s) \<Longrightarrow> receipts_ok (view (fst (receipt_run ops cs s)))"
  by (simp add: run_spec spec_run_ok)

end

section \<open>Both stores keep the contract\<close>

definition sql_view :: "operation_table \<Rightarrow> receipts" where
  "sql_view tbl k = map_option receipt_of (fmlookup tbl k)"

lemma receipt_of_reserved: "valid_reservation r tenant \<Longrightarrow> receipt_of (reserved_row r) = r"
  by (cases r) (auto simp: receipt_of_def reserved_row_def nullable_uuid_def valid_reservation_def)

lemma receipt_of_update:
  "receipt_of (row\<lparr>or_outcome := Some x, or_outcome_at := Some t, or_revision := n\<rparr>) =
     (receipt_of row)\<lparr>rc_outcome := x, rc_outcome_at := t, rc_revision := n\<rparr>"
  by (simp add: receipt_of_def)

lemma decide_outcome_changed:
  "decide_outcome r expected out at = Inr (r', True) \<Longrightarrow>
     rc_revision r = expected
     \<and> r' = r\<lparr>rc_outcome := rc_outcome r', rc_outcome_at := rc_outcome_at r', rc_revision := rc_revision r'\<rparr>"
  by (auto simp: decide_outcome_def split: if_splits)

lemma decide_outcome_unchanged: "decide_outcome r expected out at = Inr (r', False) \<Longrightarrow> r' = r"
  by (auto simp: decide_outcome_def split: if_splits)

lemma receipt_of_sel [simp]: "rc_tenant (receipt_of row) = or_tenant row" "rc_ref (receipt_of row) = or_id row"
  "rc_revision (receipt_of row) = or_revision row"
  by (simp_all add: receipt_of_def)

lemma sql_reserve_spec:
  "sql_view (fst (sql_reserve tenant r tbl)) = fst (spec_reserve tenant r (sql_view tbl))
   \<and> snd (sql_reserve tenant r tbl) = snd (spec_reserve tenant r (sql_view tbl))"
proof (cases "valid_reservation (reservation_time r) tenant")
  case True
  have "same_reservation (reservation_time r) (reservation_time r)" by (simp add: same_reservation_def)
  with True receipt_of_reserved [OF True] show ?thesis
    by (cases "fmlookup tbl (tenant, rc_ref (reservation_time r))")
      (auto simp: sql_reserve_def spec_reserve_def sql_view_def Let_def fun_eq_iff)
next
  case False
  then show ?thesis by (simp add: sql_reserve_def spec_reserve_def Let_def)
qed

lemma sql_get_spec: "sql_get tenant ref person at tbl = spec_get tenant ref person at (sql_view tbl)"
  by (auto simp: sql_get_def spec_get_def sql_view_def receipt_of_def split: option.split)

lemma sql_current_spec:
  assumes "receipts_ok (sql_view tbl)"
  shows "sql_current us parse tenant op tbl = spec_current us parse tenant op (sql_view tbl)"
proof (cases "parse (op_ref op)")
  case (Some ref)
  show ?thesis
  proof (cases "fmlookup tbl (tenant, ref)")
    case (Some row)
    with assms have "sql_view tbl (tenant, ref) = Some (receipt_of row)" by (simp add: sql_view_def)
    with assms have "or_tenant row = tenant" by (force simp: receipts_ok_def)
    with Some \<open>parse (op_ref op) = Some ref\<close> show ?thesis
      by (auto simp: sql_current_def spec_current_def sql_view_def bound_def operation_of_def)
  qed (auto simp: sql_current_def spec_current_def sql_view_def Some)
qed (simp add: sql_current_def spec_current_def)

lemma sql_transition_current:
  "sql_transition us parse tenant op expected out at tbl =
     (case sql_current us parse tenant op tbl of
        Inl e \<Rightarrow> (tbl, Inl NotFound)
      | Inr r \<Rightarrow>
          (case parse (op_ref op) of None \<Rightarrow> (tbl, Inl NotFound) | Some ref \<Rightarrow>
           case fmlookup tbl (tenant, ref) of None \<Rightarrow> (tbl, Inl NotFound) | Some row \<Rightarrow>
             if expired r at then (tbl, Inl NotFound)
             else case decide_outcome r expected out at of
               Inl e \<Rightarrow> (tbl, Inl e)
             | Inr (r', changed) \<Rightarrow>
                 if \<not> changed then (tbl, Inr (r', False))
                 else (fmupd (tenant, ref) (row\<lparr>or_outcome := Some (rc_outcome r'),
                         or_outcome_at := Some (rc_outcome_at r'), or_revision := rc_revision r'\<rparr>) tbl, Inr (r', True))))"
  using decide_outcome_changed
  by (fastforce simp: sql_transition_def sql_current_def split: option.split sum.split prod.split)

lemma spec_current_error: "spec_current us parse tenant op v = Inl e \<Longrightarrow> e = NotFound"
  by (auto simp: spec_current_def split: option.splits if_splits)

lemma sql_transition_spec:
  assumes ok: "receipts_ok (sql_view tbl)"
  shows "sql_view (fst (sql_transition us parse tenant op expected out at tbl))
      = fst (spec_transition us parse tenant op expected out at (sql_view tbl))
    \<and> snd (sql_transition us parse tenant op expected out at tbl)
      = snd (spec_transition us parse tenant op expected out at (sql_view tbl))"
proof (cases "spec_current us parse tenant op (sql_view tbl)")
  case (Inl e)
  with sql_current_spec [OF ok, of us parse tenant op] spec_current_error [OF Inl] show ?thesis
    by (simp add: sql_transition_current spec_transition_def)
next
  case (Inr r)
  from spec_current_found [OF Inr] obtain ref where ref: "sql_view tbl (tenant, ref) = Some r" "parse (op_ref op) = Some ref"
    by auto
  then obtain row where row: "fmlookup tbl (tenant, ref) = Some row" "r = receipt_of row" by (auto simp: sql_view_def)
  have rr: "or_id row = ref" using ok ref(1) row(2) by (force simp: receipts_ok_def)
  show ?thesis
  proof (cases "decide_outcome r expected out at")
    case (Inl e)
    with Inr ref row sql_current_spec [OF ok, of us parse tenant op] show ?thesis
      by (auto simp: sql_transition_current spec_transition_def)
  next
    case d: (Inr p)
    obtain r' changed where p: "p = (r', changed)" by force
    show ?thesis
    proof (cases changed)
      case True
      with d p have "receipt_of (row\<lparr>or_outcome := Some (rc_outcome r'), or_outcome_at := Some (rc_outcome_at r'),
          or_revision := rc_revision r'\<rparr>) = r'"
        using decide_outcome_changed [of r expected out at r'] row(2) by (simp add: receipt_of_update)
      with True d p Inr ref row rr sql_current_spec [OF ok, of us parse tenant op] show ?thesis
        by (auto simp: sql_transition_current spec_transition_def sql_view_def fun_eq_iff)
    next
      case False
      with d p Inr ref row sql_current_spec [OF ok, of us parse tenant op] show ?thesis
        by (auto simp: sql_transition_current spec_transition_def)
    qed
  qed
qed

interpretation sql: receipt_store "sql_receipts us parse" sql_view us parse for us parse
proof (unfold_locales, goal_cases)
  case (1 s c)
  then show ?case
    by (cases c) (simp_all add: receipt_step_fst receipt_step_snd sql_receipts_def sql_reserve_spec sql_get_spec
        sql_current_spec sql_transition_spec)
qed

lemma mem_op_reserve_spec:
  "fmlookup (fst (mem_op_reserve tenant r m)) = fst (spec_reserve tenant r (fmlookup m))
   \<and> snd (mem_op_reserve tenant r m) = snd (spec_reserve tenant r (fmlookup m))"
  by (auto simp: mem_op_reserve_def spec_reserve_def Let_def valid_reservation_def split: option.split)

lemma mem_op_get_spec:
  "receipts_ok (fmlookup m) \<Longrightarrow> mem_op_get tenant ref person at m = spec_get tenant ref person at (fmlookup m)"
  by (auto simp: mem_op_get_def spec_get_def receipts_ok_def split: option.split)

lemma mem_op_current_spec:
  "receipts_ok (fmlookup m) \<Longrightarrow> mem_op_current us parse tenant op m = spec_current us parse tenant op (fmlookup m)"
  by (auto simp: mem_op_current_def spec_current_def receipts_ok_def split: option.split)

lemma mem_op_transition_spec:
  assumes ok: "receipts_ok (fmlookup m)"
  shows "fmlookup (fst (mem_op_transition us parse tenant op expected out at m))
      = fst (spec_transition us parse tenant op expected out at (fmlookup m))
    \<and> snd (mem_op_transition us parse tenant op expected out at m)
      = snd (spec_transition us parse tenant op expected out at (fmlookup m))"
proof (cases "spec_current us parse tenant op (fmlookup m)")
  case (Inl e)
  with mem_op_current_spec [OF ok] show ?thesis by (simp add: mem_op_transition_def spec_transition_def)
next
  case (Inr r)
  from spec_current_found [OF Inr] obtain ref where "fmlookup m (tenant, ref) = Some r" by auto
  with ok have "rc_tenant r = tenant" "receipt_ok r" by (auto simp: receipts_ok_def)
  note r = this and c = Inr mem_op_current_spec [OF ok, of us parse tenant op]
  show ?thesis
  proof (cases "decide_outcome r expected out at")
    case (Inl e)
    with c show ?thesis by (simp add: mem_op_transition_def spec_transition_def)
  next
    case d: (Inr p)
    obtain r' changed where p: "p = (r', changed)" by force
    with d r decide_outcome_ok [of r expected out at r' changed]
    have "rc_tenant r' = tenant" "rc_ref r' = rc_ref r" by auto
    with d p c show ?thesis by (simp add: mem_op_transition_def spec_transition_def fun_eq_iff)
  qed
qed

interpretation mem_rc: receipt_store "mem_receipts us parse" fmlookup us parse for us parse
proof (unfold_locales, goal_cases)
  case (1 s c)
  then show ?case
    by (cases c) (simp_all add: receipt_step_fst receipt_step_snd mem_receipts_def mem_op_reserve_spec mem_op_get_spec
        mem_op_current_spec mem_op_transition_spec)
qed

lemma views_empty_receipts: "sql_view fmempty = (\<lambda>_. None)" "fmlookup fmempty = (\<lambda>_. None)"
  by (auto simp: sql_view_def fun_eq_iff)

end
