(* ===== verification/Idempotency.thy ===== *)
theory Idempotency
  imports Receipts
begin

section \<open>Remembered writes\<close>

text \<open>
  \<open>kit/idempotency/idempotency.go\<close> and \<open>memory.go\<close>: the key claims.  A \<open>scope\<close> is what one write
  is remembered under; \<open>decide\<close> is the whole disposition of an attempt.  The Postgres store is
  its two tables and the receipts beside them, each operation the statements of its one
  transaction; the lock a claim tries and the identifiers it mints are arguments.  Times are
  instants, the columns of an answer hold the lists that the code spells as JSON.
\<close>

subsection \<open>Scopes, answers, verdicts\<close>

record scope =
  sc_tenant :: uuid
  sc_caller :: uuid
  sc_method :: string
  sc_route :: string
  sc_key :: string
  sc_fingerprint :: string
  sc_track :: bool

record ceiling_limit =
  li_name :: string
  li_quota :: int
  li_remaining :: int
  li_window :: duration
  li_resets_at :: time

record answer =
  an_status :: int
  an_content_type :: string
  an_body :: string
  an_headers :: "(string \<times> string) list"
  an_limits :: "ceiling_limit list"

definition no_answer :: answer where
  "no_answer = \<lparr>an_status = 0, an_content_type = '''', an_body = '''', an_headers = [], an_limits = []\<rparr>"

datatype verdict_kind = First | Replay | ConflictBody | InFlight | Spent

record verdict =
  v_ref :: uuid
  v_started :: time
  v_kind :: verdict_kind
  v_claim :: uuid
  v_stored :: answer
  v_lease :: duration

definition a_verdict :: "verdict_kind \<Rightarrow> verdict" where
  "a_verdict k = \<lparr>v_ref = uuid_nil, v_started = 0, v_kind = k, v_claim = uuid_nil, v_stored = no_answer, v_lease = 0\<rparr>"

datatype idem_error = InvalidClaim | NeedsInstant | LostClaim

definition lease :: duration where "lease = 5 * minute"

definition valid_claim :: "scope \<Rightarrow> time \<Rightarrow> bool" where
  "valid_claim s at \<longleftrightarrow> \<not> (sc_track s \<and> (sc_tenant s = uuid_nil \<or> \<not> valid_token (sc_key s)
     \<or> sc_method s = '''' \<or> sc_route s = '''' \<or> at = 0))"

subsection \<open>The record and the decision\<close>

record row =
  rw_ref :: uuid
  rw_started :: time
  rw_receipt :: "receipt option"
  rw_fingerprint :: string
  rw_claim :: uuid
  rw_claimed_at :: time
  rw_completed :: bool
  rw_recorded :: bool
  rw_began :: bool
  rw_effect :: bool
  rw_answer :: answer

definition claim_expired :: "row \<Rightarrow> time \<Rightarrow> duration \<Rightarrow> bool" where
  "claim_expired r at span \<longleftrightarrow>
     (if rw_ref r \<noteq> uuid_nil then (case rw_receipt r of None \<Rightarrow> False | Some rc \<Rightarrow> expired rc at)
      else span \<le> time_sub at (rw_claimed_at r))"

definition known_outcome :: "row \<Rightarrow> bool" where
  "known_outcome r \<longleftrightarrow> (case rw_receipt r of None \<Rightarrow> False | Some rc \<Rightarrow> rc_outcome rc \<noteq> Unknown)"

definition decide :: "row option \<Rightarrow> scope \<Rightarrow> time \<Rightarrow> uuid \<Rightarrow> duration \<Rightarrow> duration \<Rightarrow> verdict" where
  "decide existing want at claim lease' retention' =
     (case existing of
        None \<Rightarrow> (a_verdict First)\<lparr>v_claim := claim\<rparr>
      | Some r \<Rightarrow>
          if claim_expired r at retention' then (a_verdict First)\<lparr>v_claim := claim\<rparr>
          else let result = (\<lambda>v. v\<lparr>v_ref := rw_ref r, v_started := rw_started r\<rparr>);
                   held = time_sub at (rw_claimed_at r)
               in if rw_fingerprint r \<noteq> sc_fingerprint want then result (a_verdict ConflictBody)
                  else if rw_ref r \<noteq> uuid_nil \<and> retention' \<le> time_sub at (rw_started r) then result (a_verdict Spent)
                  else if rw_completed r then
                    (if \<not> rw_recorded r then result (a_verdict Spent)
                     else result ((a_verdict Replay)\<lparr>v_stored := rw_answer r\<rparr>))
                  else if held < lease' then result ((a_verdict InFlight)\<lparr>v_lease := lease' - held\<rparr>)
                  else if rw_began r \<and> (rw_effect r \<or> known_outcome r) then result (a_verdict Spent)
                  else result ((a_verdict First)\<lparr>v_claim := claim\<rparr>))"

subsection \<open>Postgres\<close>

datatype identity = Identity (id_tenant: uuid) (id_caller: uuid) (id_method: string) (id_route: string) (id_key: string)

definition identity_of :: "scope \<Rightarrow> identity" where
  "identity_of s = Identity (sc_tenant s) (sc_caller s) (sc_method s) (sc_route s) (sc_key s)"

definition effect_lock_target :: "(uuid \<Rightarrow> string) \<Rightarrow> scope \<Rightarrow> string" where
  "effect_lock_target us s =
     ''command-effect/'' @ us (sc_tenant s) @ ''/'' @ us (sc_caller s) @ ''/'' @ sc_method s @ '' '' @ sc_route s
       @ ''/'' @ sc_key s"

record key_row =
  kr_fingerprint :: string
  kr_claim :: uuid
  kr_claimed_at :: time
  kr_began :: bool
  kr_completed_at :: "time option"
  kr_recorded :: bool
  kr_status :: "int option"
  kr_content_type :: "string option"
  kr_body :: "string option"
  kr_headers :: "(string \<times> string) list option"
  kr_limits :: "ceiling_limit list option"
  kr_operation_ref :: "uuid option"
  kr_started_at :: "time option"

record effect_row =
  ef_claim :: uuid
  ef_committed :: bool
  ef_applied_at :: time

record idem_db =
  db_keys :: "(identity, key_row) fmap"
  db_effects :: "(identity, effect_row) fmap"
  db_operations :: operation_table

text \<open>What an attempt brings: the identifiers it mints, the clock of the server, the lock.\<close>

record attempt_env =
  ev_claim :: uuid
  ev_ref :: uuid
  ev_clock :: time
  ev_lock_free :: bool

definition encode_list :: "'a list \<Rightarrow> 'a list option" where
  "encode_list xs = (if xs = [] then None else Some xs)"

definition decode_list :: "'a list option \<Rightarrow> 'a list" where
  "decode_list o' = (case o' of None \<Rightarrow> [] | Some xs \<Rightarrow> xs)"

definition fresh_key_row :: "scope \<Rightarrow> uuid \<Rightarrow> time \<Rightarrow> uuid option \<Rightarrow> time option \<Rightarrow> key_row" where
  "fresh_key_row s claim at ref started =
     \<lparr>kr_fingerprint = sc_fingerprint s, kr_claim = claim, kr_claimed_at = at, kr_began = False,
      kr_completed_at = None, kr_recorded = False, kr_status = None, kr_content_type = None, kr_body = None,
      kr_headers = None, kr_limits = None, kr_operation_ref = ref, kr_started_at = started\<rparr>"

text \<open>\<open>readClaim\<close>: the stored columns as the record \<open>decide\<close> reads.\<close>

definition read_claim :: "key_row \<Rightarrow> row" where
  "read_claim k =
     \<lparr>rw_ref = (case kr_operation_ref k of None \<Rightarrow> uuid_nil | Some r \<Rightarrow> r),
      rw_started = (case kr_started_at k of None \<Rightarrow> 0 | Some t \<Rightarrow> t),
      rw_receipt = None,
      rw_fingerprint = kr_fingerprint k, rw_claim = kr_claim k, rw_claimed_at = kr_claimed_at k,
      rw_completed = (kr_completed_at k \<noteq> None), rw_recorded = kr_recorded k, rw_began = kr_began k,
      rw_effect = False,
      rw_answer = \<lparr>an_status = (case kr_status k of None \<Rightarrow> 0 | Some n \<Rightarrow> n),
                   an_content_type = (case kr_content_type k of None \<Rightarrow> '''' | Some c \<Rightarrow> c),
                   an_body = (case kr_body k of None \<Rightarrow> '''' | Some b \<Rightarrow> b),
                   an_headers = decode_list (kr_headers k), an_limits = decode_list (kr_limits k)\<rparr>\<rparr>"

definition fenced :: "scope \<Rightarrow> bool" where
  "fenced s \<longleftrightarrow> \<not> (sc_tenant s = uuid_nil \<or> (sc_track s \<and> sc_method s = ''COMMAND''))"

definition fence :: "scope \<Rightarrow> uuid \<Rightarrow> time \<Rightarrow> idem_db \<Rightarrow> idem_db" where
  "fence s claim clock db =
     (if \<not> fenced s then db
      else db\<lparr>db_effects := fmupd (identity_of s) \<lparr>ef_claim = claim, ef_committed = False, ef_applied_at = clock\<rparr> (db_effects db)\<rparr>)"

text \<open>Proved, and committed: a mark that is not there proves nothing and counts as committed.\<close>

definition resolve_effect :: "bool \<Rightarrow> scope \<Rightarrow> uuid \<Rightarrow> idem_db \<Rightarrow> bool \<times> bool" where
  "resolve_effect lock_free s claim db =
     (if \<not> lock_free then (False, False)
      else (True, (case fmlookup (db_effects db) (identity_of s) of
                     None \<Rightarrow> True
                   | Some e \<Rightarrow> if ef_claim e = claim then ef_committed e else True)))"

text \<open>What the claim reads of a record that is there: with its receipt, and its effect resolved.\<close>

definition existing_row :: "scope \<Rightarrow> idem_db \<Rightarrow> key_row \<Rightarrow> row" where
  "existing_row s db k =
     (let r = read_claim k
      in r\<lparr>rw_receipt := (if rw_ref r = uuid_nil then None
                         else map_option receipt_of (fmlookup (db_operations db) (sc_tenant s, rw_ref r)))\<rparr>)"

definition resolved_row :: "attempt_env \<Rightarrow> scope \<Rightarrow> time \<Rightarrow> idem_db \<Rightarrow> key_row \<Rightarrow> row option" where
  "resolved_row env s at db k =
     (let r = existing_row s db k
      in if rw_began r \<and> \<not> rw_completed r \<and> lease \<le> time_sub at (rw_claimed_at r)
         then (case resolve_effect (ev_lock_free env) s (rw_claim r) db of
                 (proved, committed) \<Rightarrow> if proved then Some (r\<lparr>rw_effect := committed\<rparr>) else None)
         else Some r)"

definition pg_claim :: "attempt_env \<Rightarrow> scope \<Rightarrow> time \<Rightarrow> idem_db \<Rightarrow> idem_db \<times> (idem_error + verdict)" where
  "pg_claim env s at0 db =
     (let at = trunc_us at0; claim = ev_claim env; i = identity_of s;
          ref = (if sc_track s then ev_ref env else uuid_nil);
          started = (if sc_track s then Some at else None);
          take = (\<lambda>ref started. fence s claim (ev_clock env)
                    (db\<lparr>db_keys := fmupd i (fresh_key_row s claim at (nullable_uuid ref) started) (db_keys db)\<rparr>));
          inserted = (a_verdict First)\<lparr>v_claim := claim, v_ref := ref, v_started := at\<rparr>
      in if \<not> valid_claim s at then (db, Inl InvalidClaim)
         else if at = 0 then (db, Inl NeedsInstant)
         else case fmlookup (db_keys db) i of
           None \<Rightarrow> (take ref started, Inr inserted)
         | Some k \<Rightarrow>
             if kr_claim k = claim then (fence s claim (ev_clock env) db, Inr inserted)
             else case resolved_row env s at db k of
               None \<Rightarrow> (db, Inr ((a_verdict InFlight)\<lparr>v_ref := rw_ref (read_claim k), v_started := rw_started (read_claim k)\<rparr>))
             | Some r \<Rightarrow>
                 let verdict = decide (Some r) s at claim lease retention
                 in if v_kind verdict \<noteq> First then (db, Inr verdict)
                    else
                      let fresh = claim_expired r at retention;
                          ref' = (if fresh then ref else rw_ref r);
                          started' = (if fresh then started
                                      else if rw_ref r = uuid_nil then None else Some (rw_started r))
                      in (take ref' started',
                          Inr (verdict\<lparr>v_ref := ref',
                            v_started := (case started' of None \<Rightarrow> v_started verdict | Some t \<Rightarrow> t)\<rparr>)))"

definition pg_begin :: "scope \<Rightarrow> uuid \<Rightarrow> idem_db \<Rightarrow> idem_db \<times> idem_error option" where
  "pg_begin s claim db =
     (case fmlookup (db_keys db) (identity_of s) of
        Some k \<Rightarrow>
          if kr_claim k = claim \<and> \<not> kr_began k \<and> kr_completed_at k = None
          then (db\<lparr>db_keys := fmupd (identity_of s) (k\<lparr>kr_began := True\<rparr>) (db_keys db)\<rparr>, None)
          else (db, Some LostClaim)
      | None \<Rightarrow> (db, Some LostClaim))"

definition completed_row :: "answer \<Rightarrow> time \<Rightarrow> key_row \<Rightarrow> key_row" where
  "completed_row a at k =
     k\<lparr>kr_completed_at := Some at, kr_recorded := (an_status a \<noteq> 0), kr_status := Some (an_status a),
       kr_content_type := Some (an_content_type a),
       kr_body := (if an_status a = 0 then None else Some (an_body a)),
       kr_headers := (if an_status a = 0 then None else encode_list (an_headers a)),
       kr_limits := (if an_status a = 0 then None else encode_list (an_limits a))\<rparr>"

definition pg_complete :: "scope \<Rightarrow> uuid \<Rightarrow> answer \<Rightarrow> time \<Rightarrow> idem_db \<Rightarrow> idem_db \<times> idem_error option" where
  "pg_complete s claim a at db =
     (case fmlookup (db_keys db) (identity_of s) of
        Some k \<Rightarrow>
          if kr_claim k = claim \<and> kr_completed_at k = None
          then (db\<lparr>db_keys := fmupd (identity_of s) (completed_row a at k) (db_keys db)\<rparr>, None)
          else (db, Some LostClaim)
      | None \<Rightarrow> (db, Some LostClaim))"

text \<open>The statement of \<open>Mark\<close>, in the tenant's transaction, which holds the lock by then.\<close>

definition pg_mark :: "scope \<Rightarrow> uuid \<Rightarrow> time \<Rightarrow> idem_db \<Rightarrow> idem_db \<times> idem_error option" where
  "pg_mark s claim clock db =
     (let marked = \<lparr>ef_claim = claim, ef_committed = True, ef_applied_at = clock\<rparr>
      in case fmlookup (db_effects db) (identity_of s) of
           None \<Rightarrow> (db\<lparr>db_effects := fmupd (identity_of s) marked (db_effects db)\<rparr>, None)
         | Some e \<Rightarrow>
             if ef_claim e = claim then (db\<lparr>db_effects := fmupd (identity_of s) marked (db_effects db)\<rparr>, None)
             else (db, Some LostClaim))"

text \<open>\<open>PurgeAt\<close>: the expired keys with their receipts, the orphaned receipts, the fences left.\<close>

definition key_purged :: "time \<Rightarrow> idem_db \<Rightarrow> identity \<Rightarrow> key_row \<Rightarrow> bool" where
  "key_purged at db i k \<longleftrightarrow>
     kr_claimed_at k \<le> at - retention
     \<and> claim_expired ((read_claim k)\<lparr>rw_receipt :=
           (case kr_operation_ref k of None \<Rightarrow> None
            | Some ref \<Rightarrow> map_option receipt_of (fmlookup (db_operations db) (id_tenant i, ref)))\<rparr>) at retention"

definition purge_at :: "time \<Rightarrow> idem_db \<Rightarrow> idem_db" where
  "purge_at at db =
     (let doomed = ffilter (\<lambda>i. case fmlookup (db_keys db) i of None \<Rightarrow> False | Some k \<Rightarrow> key_purged at db i k) (fmdom (db_keys db));
          refs = (\<lambda>i. (id_tenant i, case fmlookup (db_keys db) i of None \<Rightarrow> None | Some k \<Rightarrow> kr_operation_ref k)) |`| doomed;
          keys = fmdrop_fset doomed (db_keys db);
          ops1 = fmfilter (\<lambda>(tenant, ref). (tenant, Some ref) |\<notin>| refs) (db_operations db);
          held = (\<lambda>i. (id_tenant i, case fmlookup keys i of None \<Rightarrow> None | Some k \<Rightarrow> kr_operation_ref k)) |`| fmdom keys;
          ops2 = fmfilter (\<lambda>(tenant, ref). \<not> ((tenant, Some ref) |\<notin>| held
                   \<and> (case fmlookup ops1 (tenant, ref) of None \<Rightarrow> False | Some o' \<Rightarrow> expired (receipt_of o') at))) ops1;
          effects = fmfilter (\<lambda>i. \<not> (i |\<notin>| fmdom keys
                   \<and> (case fmlookup (db_effects db) i of None \<Rightarrow> False | Some e \<Rightarrow> ef_applied_at e < at - retention))) (db_effects db)
      in \<lparr>db_keys = keys, db_effects = effects, db_operations = ops2\<rparr>)"

subsection \<open>Memory\<close>

definition idem_max_tracked :: nat where "idem_max_tracked = 10000"

record mem_idem =
  mi_records :: "(string, uuid \<times> row) fmap"
  mi_operations :: operation_map
  mi_effects :: "(string, uuid) fmap"

definition mem_key :: "(uuid \<Rightarrow> string) \<Rightarrow> scope \<Rightarrow> string" where
  "mem_key us s = us (sc_tenant s) @ '' '' @ us (sc_caller s) @ '' '' @ sc_method s @ '' '' @ sc_route s @ '' '' @ sc_key s"

definition with_receipt :: "operation_map \<Rightarrow> uuid \<Rightarrow> row \<Rightarrow> row" where
  "with_receipt ops tenant r =
     (case fmlookup ops (tenant, rw_ref r) of None \<Rightarrow> r | Some rc \<Rightarrow> r\<lparr>rw_receipt := Some rc\<rparr>)"

definition mem_prune_keys :: "time \<Rightarrow> mem_idem \<Rightarrow> mem_idem" where
  "mem_prune_keys at m =
     (if fcard (fmdom (mi_records m)) < idem_max_tracked then m
      else let gone = ffilter (\<lambda>k. case fmlookup (mi_records m) k of None \<Rightarrow> False
                 | Some (tenant, r) \<Rightarrow> claim_expired (with_receipt (mi_operations m) tenant r) at retention) (fmdom (mi_records m))
           in m\<lparr>mi_records := fmdrop_fset gone (mi_records m), mi_effects := fmdrop_fset gone (mi_effects m)\<rparr>)"

definition mem_claim ::
    "(uuid \<Rightarrow> string) \<Rightarrow> time \<Rightarrow> attempt_env \<Rightarrow> scope \<Rightarrow> time \<Rightarrow> mem_idem \<Rightarrow> mem_idem \<times> (idem_error + verdict)" where
  "mem_claim us now env s at0 m0 =
     (if \<not> valid_claim s at0 then (m0, Inl InvalidClaim)
      else
        let at = trunc_us (if at0 = 0 then now else at0);
            m = mem_prune_keys at m0;
            k = mem_key us s;
            claim = ev_claim env;
            existing = (case fmlookup (mi_records m) k of
                None \<Rightarrow> None
              | Some (_, r) \<Rightarrow>
                  Some (with_receipt (mi_operations m) (sc_tenant s)
                    (r\<lparr>rw_effect := (fmlookup (mi_effects m) k = Some (rw_claim r)
                          \<or> fmlookup (mi_effects m) k = None \<and> rw_claim r = uuid_nil
                          \<or> sc_track s \<and> sc_method s = ''COMMAND'')\<rparr>)));
            v = decide existing s at claim lease retention
        in if v_kind v \<noteq> First then (m, Inr v)
           else
             let fresh = (case existing of None \<Rightarrow> True | Some r \<Rightarrow> claim_expired r at retention);
                 ref = (case existing of Some r \<Rightarrow> if \<not> fresh then rw_ref r else if sc_track s then ev_ref env else uuid_nil
                        | None \<Rightarrow> if sc_track s then ev_ref env else uuid_nil);
                 started = (case existing of Some r \<Rightarrow> if \<not> fresh then rw_started r else if sc_track s then at else 0
                            | None \<Rightarrow> if sc_track s then at else 0);
                 r' = \<lparr>rw_ref = ref, rw_started = started, rw_receipt = None, rw_fingerprint = sc_fingerprint s,
                       rw_claim = claim, rw_claimed_at = at, rw_completed = False, rw_recorded = False,
                       rw_began = False, rw_effect = False, rw_answer = no_answer\<rparr>
             in (m\<lparr>mi_records := fmupd k (sc_tenant s, r') (mi_records m)\<rparr>, Inr (v\<lparr>v_ref := ref, v_started := started\<rparr>)))"

definition mem_begin :: "(uuid \<Rightarrow> string) \<Rightarrow> scope \<Rightarrow> uuid \<Rightarrow> mem_idem \<Rightarrow> mem_idem \<times> idem_error option" where
  "mem_begin us s claim m =
     (case fmlookup (mi_records m) (mem_key us s) of
        Some (tenant, r) \<Rightarrow>
          if rw_claim r \<noteq> claim \<or> rw_completed r \<or> rw_began r then (m, Some LostClaim)
          else (m\<lparr>mi_records := fmupd (mem_key us s) (tenant, r\<lparr>rw_began := True\<rparr>) (mi_records m)\<rparr>, None)
      | None \<Rightarrow> (m, Some LostClaim))"

definition mem_complete :: "(uuid \<Rightarrow> string) \<Rightarrow> scope \<Rightarrow> uuid \<Rightarrow> answer \<Rightarrow> mem_idem \<Rightarrow> mem_idem \<times> idem_error option" where
  "mem_complete us s claim a m =
     (case fmlookup (mi_records m) (mem_key us s) of
        Some (tenant, r) \<Rightarrow>
          if rw_claim r \<noteq> claim \<or> rw_completed r then (m, Some LostClaim)
          else (m\<lparr>mi_records := fmupd (mem_key us s)
                  (tenant, r\<lparr>rw_completed := True, rw_recorded := (an_status a \<noteq> 0), rw_answer := a\<rparr>) (mi_records m)\<rparr>, None)
      | None \<Rightarrow> (m, Some LostClaim))"

definition mem_mark :: "(uuid \<Rightarrow> string) \<Rightarrow> scope \<Rightarrow> uuid \<Rightarrow> mem_idem \<Rightarrow> mem_idem \<times> idem_error option" where
  "mem_mark us s claim m =
     (case fmlookup (mi_records m) (mem_key us s) of
        Some (tenant, r) \<Rightarrow>
          if rw_claim r \<noteq> claim then (m, Some LostClaim)
          else (m\<lparr>mi_effects := fmupd (mem_key us s) claim (mi_effects m)\<rparr>, None)
      | None \<Rightarrow> (m\<lparr>mi_effects := fmupd (mem_key us s) claim (mi_effects m)\<rparr>, None))"

section \<open>Readings of the decision\<close>

text \<open>The sub-cases of \<open>decide\<close> that let an attempt run.\<close>

lemma decide_first_iff:
  "v_kind (decide (Some r) s at claim le re) = First \<longleftrightarrow>
     claim_expired r at re
   \<or> (rw_fingerprint r = sc_fingerprint s \<and> \<not> (rw_ref r \<noteq> uuid_nil \<and> re \<le> time_sub at (rw_started r))
       \<and> \<not> rw_completed r \<and> le \<le> time_sub at (rw_claimed_at r)
       \<and> \<not> (rw_began r \<and> (rw_effect r \<or> known_outcome r)))"
  by (auto simp: decide_def a_verdict_def Let_def not_less)

lemma decide_none [simp]: "v_kind (decide None s at claim le re) = First"
  by (simp add: decide_def a_verdict_def)

lemma decide_claim_first: "v_kind (decide ex s at claim le re) = First \<Longrightarrow> v_claim (decide ex s at claim le re) = claim"
  by (auto simp: decide_def a_verdict_def Let_def split: option.splits if_splits)

lemma read_claim_sel [simp]:
  "rw_claim (read_claim k) = kr_claim k" "rw_claimed_at (read_claim k) = kr_claimed_at k"
  "rw_began (read_claim k) = kr_began k" "rw_completed (read_claim k) = (kr_completed_at k \<noteq> None)"
  "rw_fingerprint (read_claim k) = kr_fingerprint k" "rw_recorded (read_claim k) = kr_recorded k"
  by (simp_all add: read_claim_def)

lemma existing_row_sel [simp]:
  "rw_claim (existing_row s db k) = kr_claim k" "rw_claimed_at (existing_row s db k) = kr_claimed_at k"
  "rw_began (existing_row s db k) = kr_began k" "rw_completed (existing_row s db k) = (kr_completed_at k \<noteq> None)"
  "rw_fingerprint (existing_row s db k) = kr_fingerprint k" "rw_recorded (existing_row s db k) = kr_recorded k"
  "rw_ref (existing_row s db k) = rw_ref (read_claim k)" "rw_started (existing_row s db k) = rw_started (read_claim k)"
  "rw_answer (existing_row s db k) = rw_answer (read_claim k)"
  by (simp_all add: existing_row_def Let_def)

text \<open>A claim that succeeds leaves the record it wrote; any other leaves the database alone.\<close>

definition lets_run :: "idem_error + verdict \<Rightarrow> bool" where
  "lets_run r \<longleftrightarrow> (case r of Inr v \<Rightarrow> v_kind v = First | Inl _ \<Rightarrow> False)"

lemma a_verdict_kind [simp]: "v_kind (a_verdict k) = k"
  by (simp add: a_verdict_def)

lemma fence_sel [simp]:
  "db_keys (fence s c t db) = db_keys db" "db_operations (fence s c t db) = db_operations db"
  "fenced s \<Longrightarrow> db_effects (fence s c t db) = fmupd (identity_of s) \<lparr>ef_claim = c, ef_committed = False, ef_applied_at = t\<rparr> (db_effects db)"
  by (simp_all add: fence_def)

lemma pg_claim_keeps: "pg_claim env s at db = (db', r) \<Longrightarrow> \<not> lets_run r \<Longrightarrow> db' = db"
  by (auto simp: pg_claim_def lets_run_def Let_def split: if_splits option.splits)

lemma pg_claim_runs:
  assumes "pg_claim env s at db = (db', r)" "lets_run r"
    "\<And>k. fmlookup (db_keys db) (identity_of s) = Some k \<Longrightarrow> kr_claim k \<noteq> ev_claim env"
  shows "\<exists>ref started. db' = fence s (ev_claim env) (ev_clock env)
        (db\<lparr>db_keys := fmupd (identity_of s) (fresh_key_row s (ev_claim env) (trunc_us at) ref started) (db_keys db)\<rparr>)
    \<and> (case fmlookup (db_keys db) (identity_of s) of None \<Rightarrow> True
       | Some k \<Rightarrow> (\<exists>row. resolved_row env s (trunc_us at) db k = Some row
           \<and> v_kind (decide (Some row) s (trunc_us at) (ev_claim env) lease retention) = First))"
  using assms
  by (auto simp: pg_claim_def lets_run_def Let_def split: if_splits option.splits)

section \<open>What an answered, and what an unmarked key is given\<close>

lemma decide_kind:
  "v_kind (decide (Some r) s at claim le re) =
     (if claim_expired r at re then First
      else if rw_fingerprint r \<noteq> sc_fingerprint s then ConflictBody
      else if rw_ref r \<noteq> uuid_nil \<and> re \<le> time_sub at (rw_started r) then Spent
      else if rw_completed r then (if rw_recorded r then Replay else Spent)
      else if time_sub at (rw_claimed_at r) < le then InFlight
      else if rw_began r \<and> (rw_effect r \<or> known_outcome r) then Spent else First)"
  by (auto simp: decide_def Let_def)

lemma decide_stored: "v_kind (decide (Some r) s at claim le re) = Replay \<Longrightarrow> v_stored (decide (Some r) s at claim le re) = rw_answer r"
  by (auto simp: decide_def Let_def split: if_splits)

text \<open>The answers a key that has a record gives an attempt of the same identity.\<close>

lemma pg_claim_existing:
  assumes "fmlookup (db_keys db) (identity_of s) = Some k" and "kr_claim k \<noteq> ev_claim env"
    and "valid_claim s (trunc_us at)" and "trunc_us at \<noteq> 0" and "resolved_row env s (trunc_us at) db k = Some r"
  shows "\<exists>db' v. pg_claim env s at db = (db', Inr v)
    \<and> v_kind v = v_kind (decide (Some r) s (trunc_us at) (ev_claim env) lease retention)
    \<and> (v_kind v = First \<longrightarrow> v_claim v = ev_claim env
         \<and> (\<not> claim_expired r (trunc_us at) retention \<longrightarrow> v_ref v = rw_ref r)
         \<and> (\<exists>k'. fmlookup (db_keys db') (identity_of s) = Some k' \<and> kr_claim k' = ev_claim env))
    \<and> (v_kind v \<noteq> First \<longrightarrow> db' = db \<and> v = decide (Some r) s (trunc_us at) (ev_claim env) lease retention)"
  using assms decide_claim_first [of "Some r" s "trunc_us at" "ev_claim env" lease retention]
  by (auto simp: pg_claim_def Let_def fresh_key_row_def)

lemma completed_key:
  assumes k: "fmlookup (db_keys db) (identity_of s) = Some k"
    and r: "pg_complete s c a at db = (db1, None)"
    and s': "identity_of s' = identity_of s" "ev_claim env \<noteq> c" "valid_claim s' (trunc_us at')" "trunc_us at' \<noteq> 0"
  shows "\<exists>db2 v. pg_claim env s' at' db1 = (db2, Inr v)
    \<and> (if claim_expired (existing_row s db k) (trunc_us at') retention then v_kind v = First
       else db2 = db1 \<and>
         (if sc_fingerprint s' \<noteq> kr_fingerprint k then v_kind v = ConflictBody
          else if rw_ref (read_claim k) \<noteq> uuid_nil \<and> retention \<le> time_sub (trunc_us at') (rw_started (read_claim k)) \<or> an_status a = 0
          then v_kind v = Spent
          else v_kind v = Replay \<and> v_stored v = a))"
proof -
  let ?k = "completed_row a at k"
  from r k have kc: "kr_claim k = c" and db1: "db1 = db\<lparr>db_keys := fmupd (identity_of s) ?k (db_keys db)\<rparr>"
    by (auto simp: pg_complete_def split: if_splits)
  have look: "fmlookup (db_keys db1) (identity_of s') = Some ?k" by (simp add: db1 s')
  have ck: "kr_claim ?k \<noteq> ev_claim env" using kc s'(2) by (simp add: completed_row_def)
  let ?r = "existing_row s' db1 ?k"
  have row: "resolved_row env s' (trunc_us at') db1 ?k = Some ?r"
    by (simp add: resolved_row_def Let_def completed_row_def)
  have ref: "rw_ref (read_claim ?k) = rw_ref (read_claim k)" "rw_started (read_claim ?k) = rw_started (read_claim k)"
    by (simp_all add: read_claim_def completed_row_def)
  have tenant: "sc_tenant s' = sc_tenant s" using s'(1) by (simp add: identity_of_def)
  have ex: "claim_expired ?r (trunc_us at') retention = claim_expired (existing_row s db k) (trunc_us at') retention"
    using ref tenant by (simp add: claim_expired_def existing_row_def Let_def db1 completed_row_def)
  have ans: "an_status a \<noteq> 0 \<Longrightarrow> rw_answer ?r = a"
    by (cases a) (simp add: read_claim_def completed_row_def decode_list_def encode_list_def)
  have fin: "rw_completed ?r" "rw_recorded ?r = (an_status a \<noteq> 0)" "rw_fingerprint ?r = kr_fingerprint k"
    by (simp_all add: completed_row_def)
  define r where "r = ?r"
  have d: "v_kind (decide (Some r) s' (trunc_us at') (ev_claim env) lease retention) =
      (if claim_expired (existing_row s db k) (trunc_us at') retention then First
       else if sc_fingerprint s' \<noteq> kr_fingerprint k then ConflictBody
       else if rw_ref (read_claim k) \<noteq> uuid_nil \<and> retention \<le> time_sub (trunc_us at') (rw_started (read_claim k)) \<or> an_status a = 0
       then Spent else Replay)"
    using fin ref ex unfolding decide_kind r_def [symmetric] by (simp add: r_def)
  have st: "v_stored (decide (Some r) s' (trunc_us at') (ev_claim env) lease retention) = a"
    if "v_kind (decide (Some r) s' (trunc_us at') (ev_claim env) lease retention) = Replay"
  proof -
    have "an_status a \<noteq> 0" using that unfolding d by (auto split: if_splits)
    then show ?thesis using decide_stored [OF that] ans by (simp add: r_def)
  qed
  from pg_claim_existing [OF look ck s'(3,4) row] obtain db2 v where
    c: "pg_claim env s' at' db1 = (db2, Inr v)" and
    v: "v_kind v = v_kind (decide (Some r) s' (trunc_us at') (ev_claim env) lease retention)"
      "v_kind v \<noteq> First \<Longrightarrow> db2 = db1 \<and> v = decide (Some r) s' (trunc_us at') (ev_claim env) lease retention"
    unfolding r_def by blast
  show ?thesis
    using v st unfolding d by (intro exI [of _ db2] exI [of _ v] conjI c) (simp split: if_splits)
qed

lemma unmarked_key:
  assumes k: "fmlookup (db_keys db) (identity_of s) = Some k" "kr_completed_at k = None" "kr_fingerprint k = sc_fingerprint s"
    and e: "fmlookup (db_effects db) (identity_of s) = Some e" "ef_claim e = kr_claim k" "\<not> ef_committed e"
    and env: "ev_lock_free env" "ev_claim env \<noteq> kr_claim k" "valid_claim s (trunc_us at)" "trunc_us at \<noteq> 0"
    and late: "lease \<le> time_sub (trunc_us at) (kr_claimed_at k)"
  shows "\<exists>db' v. pg_claim env s at db = (db', Inr v)
    \<and> (if \<not> claim_expired (existing_row s db k) (trunc_us at) retention
          \<and> (rw_ref (read_claim k) \<noteq> uuid_nil \<and> retention \<le> time_sub (trunc_us at) (rw_started (read_claim k))
             \<or> kr_began k \<and> known_outcome (existing_row s db k))
       then v_kind v = Spent \<and> db' = db
       else v_kind v = First \<and> v_claim v = ev_claim env
         \<and> (\<not> claim_expired (existing_row s db k) (trunc_us at) retention \<longrightarrow> v_ref v = rw_ref (read_claim k))
         \<and> (\<exists>k'. fmlookup (db_keys db') (identity_of s) = Some k' \<and> kr_claim k' = ev_claim env))"
proof -
  let ?r = "if kr_began k then (existing_row s db k)\<lparr>rw_effect := False\<rparr> else existing_row s db k"
  have row: "resolved_row env s (trunc_us at) db k = Some ?r"
    using k e env late by (simp add: resolved_row_def resolve_effect_def Let_def)
  have r: "rw_completed ?r = False" "rw_fingerprint ?r = sc_fingerprint s" "rw_ref ?r = rw_ref (read_claim k)"
      "rw_started ?r = rw_started (read_claim k)" "rw_claimed_at ?r = kr_claimed_at k" "rw_began ?r = kr_began k" "kr_began k \<longrightarrow> \<not> rw_effect ?r"
      "claim_expired ?r at' re = claim_expired (existing_row s db k) at' re" "known_outcome ?r = known_outcome (existing_row s db k)" for at' re
    using k by (simp_all add: claim_expired_def known_outcome_def)
  define r where "r = ?r"
  have d: "v_kind (decide (Some r) s (trunc_us at) (ev_claim env) lease retention) =
      (if \<not> claim_expired (existing_row s db k) (trunc_us at) retention
          \<and> (rw_ref (read_claim k) \<noteq> uuid_nil \<and> retention \<le> time_sub (trunc_us at) (rw_started (read_claim k))
             \<or> kr_began k \<and> known_outcome (existing_row s db k)) then Spent else First)"
    using r late unfolding decide_kind r_def [symmetric] by auto
  have ck: "kr_claim k \<noteq> ev_claim env" using env(2) by simp
  note row' = row [folded r_def] and r' = r(3,8) [folded r_def]
  from pg_claim_existing [OF k(1) ck env(3,4) row'] obtain db' v where c: "pg_claim env s at db = (db', Inr v)" and
    v: "v_kind v = v_kind (decide (Some r) s (trunc_us at) (ev_claim env) lease retention)"
      "v_kind v = First \<Longrightarrow> v_claim v = ev_claim env \<and> (\<not> claim_expired r (trunc_us at) retention \<longrightarrow> v_ref v = rw_ref r)
         \<and> (\<exists>k'. fmlookup (db_keys db') (identity_of s) = Some k' \<and> kr_claim k' = ev_claim env)"
      "v_kind v \<noteq> First \<Longrightarrow> db' = db" by blast
  show ?thesis
  proof (intro exI conjI)
    show "pg_claim env s at db = (db', Inr v)" by (rule c)
    show "if \<not> claim_expired (existing_row s db k) (trunc_us at) retention
          \<and> (rw_ref (read_claim k) \<noteq> uuid_nil \<and> retention \<le> time_sub (trunc_us at) (rw_started (read_claim k))
             \<or> kr_began k \<and> known_outcome (existing_row s db k))
       then v_kind v = Spent \<and> db' = db
       else v_kind v = First \<and> v_claim v = ev_claim env
         \<and> (\<not> claim_expired (existing_row s db k) (trunc_us at) retention \<longrightarrow> v_ref v = rw_ref (read_claim k))
         \<and> (\<exists>k'. fmlookup (db_keys db') (identity_of s) = Some k' \<and> kr_claim k' = ev_claim env)"
      using v unfolding d r' by (split if_split) (auto split: if_splits)
  qed
qed

end
