(* ===== verification/ClaimStore.thy ===== *)
theory ClaimStore
  imports Idempotency
begin

section \<open>The store of claims and its contract\<close>

text \<open>
  The \<open>Store\<close> interface of \<open>kit/idempotency\<close>: what Claim, Begin, Complete and Mark do to the
  records, whoever holds them, as a locale interpreted on the tables and on the map.  It
  covers the scopes \<open>kit/httpx\<close> claims in a tenant (a tenant, a method other than COMMAND for a
  tracked claim, no space in method or route) with attempts run one after another: each
  mark committed by its own transaction before the next call.
\<close>

subsection \<open>The records, whoever holds them\<close>

type_synonym key_records = "identity \<Rightarrow> row option"

text \<open>
  A record without what no answer depends on: the start of an untracked claim, the answer
  of a spent one, and the receipt, which is read where it is.
\<close>

definition plain_row :: "row \<Rightarrow> row" where
  "plain_row r = r\<lparr>rw_receipt := None, rw_started := (if rw_ref r = uuid_nil then 0 else rw_started r),
     rw_answer := (if rw_recorded r then rw_answer r else no_answer)\<rparr>"

definition good_identity :: "identity \<Rightarrow> bool" where
  "good_identity i \<longleftrightarrow> id_tenant i \<noteq> uuid_nil \<and> CHR '' '' \<notin> set (id_method i) \<and> CHR '' '' \<notin> set (id_route i)"

definition good_scope :: "scope \<Rightarrow> bool" where
  "good_scope s \<longleftrightarrow> good_identity (identity_of s) \<and> fenced s"

definition receipted :: "receipts \<Rightarrow> uuid \<Rightarrow> row \<Rightarrow> row" where
  "receipted R tenant r = r\<lparr>rw_receipt := (if rw_ref r = uuid_nil then None else R (tenant, rw_ref r))\<rparr>"

definition shown :: "verdict \<Rightarrow> verdict" where
  "shown v = v\<lparr>v_started := (if v_ref v = uuid_nil then 0 else v_started v)\<rparr>"

definition claimed_row :: "attempt_env \<Rightarrow> scope \<Rightarrow> time \<Rightarrow> uuid \<Rightarrow> time \<Rightarrow> row" where
  "claimed_row env s at ref started =
     \<lparr>rw_ref = ref, rw_started = started, rw_receipt = None, rw_fingerprint = sc_fingerprint s,
      rw_claim = ev_claim env, rw_claimed_at = at, rw_completed = False, rw_recorded = False,
      rw_began = False, rw_effect = False, rw_answer = no_answer\<rparr>"

definition spec_claim :: "receipts \<Rightarrow> attempt_env \<Rightarrow> scope \<Rightarrow> time \<Rightarrow> key_records \<Rightarrow> key_records \<times> verdict" where
  "spec_claim R env s at v =
     (let existing = map_option (receipted R (sc_tenant s)) (v (identity_of s));
          verdict = decide existing s at (ev_claim env) lease retention
      in if v_kind verdict \<noteq> First then (v, shown verdict)
         else
           let kept = (case existing of Some r \<Rightarrow> if claim_expired r at retention then None else Some r | None \<Rightarrow> None);
               ref = (case kept of Some r \<Rightarrow> rw_ref r | None \<Rightarrow> if sc_track s then ev_ref env else uuid_nil);
               started = (case kept of Some r \<Rightarrow> rw_started r | None \<Rightarrow> if sc_track s then at else 0)
           in (v(identity_of s \<mapsto> plain_row (claimed_row env s at ref started)),
               shown (verdict\<lparr>v_ref := ref, v_started := started\<rparr>)))"

definition spec_begin :: "scope \<Rightarrow> uuid \<Rightarrow> key_records \<Rightarrow> key_records \<times> idem_error option" where
  "spec_begin s c v =
     (case v (identity_of s) of
        Some r \<Rightarrow> if rw_claim r = c \<and> \<not> rw_began r \<and> \<not> rw_completed r
                  then (v(identity_of s \<mapsto> r\<lparr>rw_began := True\<rparr>), None) else (v, Some LostClaim)
      | None \<Rightarrow> (v, Some LostClaim))"

definition spec_complete :: "scope \<Rightarrow> uuid \<Rightarrow> answer \<Rightarrow> key_records \<Rightarrow> key_records \<times> idem_error option" where
  "spec_complete s c a v =
     (case v (identity_of s) of
        Some r \<Rightarrow> if rw_claim r = c \<and> \<not> rw_completed r
                  then (v(identity_of s \<mapsto> plain_row (r\<lparr>rw_completed := True, rw_recorded := (an_status a \<noteq> 0), rw_answer := a\<rparr>)), None)
                  else (v, Some LostClaim)
      | None \<Rightarrow> (v, Some LostClaim))"

definition spec_mark :: "scope \<Rightarrow> uuid \<Rightarrow> key_records \<Rightarrow> key_records \<times> idem_error option" where
  "spec_mark s c v =
     (case v (identity_of s) of
        Some r \<Rightarrow> if rw_claim r = c then (v(identity_of s \<mapsto> r\<lparr>rw_effect := True\<rparr>), None) else (v, Some LostClaim)
      | None \<Rightarrow> (v, None))"

subsection \<open>Calls and answers\<close>

record 's claim_ops =
  co_claim :: "attempt_env \<Rightarrow> scope \<Rightarrow> time \<Rightarrow> 's \<Rightarrow> 's \<times> (idem_error + verdict)"
  co_begin :: "scope \<Rightarrow> uuid \<Rightarrow> 's \<Rightarrow> 's \<times> idem_error option"
  co_complete :: "scope \<Rightarrow> uuid \<Rightarrow> answer \<Rightarrow> time \<Rightarrow> 's \<Rightarrow> 's \<times> idem_error option"
  co_mark :: "scope \<Rightarrow> uuid \<Rightarrow> time \<Rightarrow> 's \<Rightarrow> 's \<times> idem_error option"

definition pg_claims :: "idem_db claim_ops" where
  "pg_claims = \<lparr>co_claim = pg_claim, co_begin = pg_begin, co_complete = pg_complete, co_mark = pg_mark\<rparr>"

definition mem_claims :: "(uuid \<Rightarrow> string) \<Rightarrow> time \<Rightarrow> mem_idem claim_ops" where
  "mem_claims us now =
     \<lparr>co_claim = mem_claim us now, co_begin = mem_begin us, co_complete = (\<lambda>s c a at. mem_complete us s c a),
      co_mark = (\<lambda>s c at. mem_mark us s c)\<rparr>"

datatype claim_call =
    ClaimCall attempt_env scope time
  | BeginCall scope uuid
  | CompleteCall scope uuid answer time
  | MarkCall scope uuid time

datatype claim_answer = VerdictAnswer "idem_error + verdict" | DoneAnswer "idem_error option"

fun claim_step :: "'s claim_ops \<Rightarrow> claim_call \<Rightarrow> 's \<Rightarrow> 's \<times> claim_answer" where
  "claim_step ops (ClaimCall env s at) st = (case co_claim ops env s at st of (st', r) \<Rightarrow> (st', VerdictAnswer (map_sum id shown r)))"
| "claim_step ops (BeginCall s c) st = (case co_begin ops s c st of (st', e) \<Rightarrow> (st', DoneAnswer e))"
| "claim_step ops (CompleteCall s c a at) st = (case co_complete ops s c a at st of (st', e) \<Rightarrow> (st', DoneAnswer e))"
| "claim_step ops (MarkCall s c at) st = (case co_mark ops s c at st of (st', e) \<Rightarrow> (st', DoneAnswer e))"

fun claim_run :: "'s claim_ops \<Rightarrow> claim_call list \<Rightarrow> 's \<Rightarrow> claim_answer list" where
  "claim_run ops [] st = []"
| "claim_run ops (c # cs) st = (case claim_step ops c st of (st', a) \<Rightarrow> a # claim_run ops cs st')"

fun spec_call :: "receipts \<Rightarrow> claim_call \<Rightarrow> key_records \<Rightarrow> key_records \<times> claim_answer" where
  "spec_call R (ClaimCall env s at) v =
     (if \<not> valid_claim s (trunc_us at) then (v, VerdictAnswer (Inl InvalidClaim))
      else case spec_claim R env s (trunc_us at) v of (v', r) \<Rightarrow> (v', VerdictAnswer (Inr r)))"
| "spec_call R (BeginCall s c) v = (case spec_begin s c v of (v', e) \<Rightarrow> (v', DoneAnswer e))"
| "spec_call R (CompleteCall s c a at) v = (case spec_complete s c a v of (v', e) \<Rightarrow> (v', DoneAnswer e))"
| "spec_call R (MarkCall s c at) v = (case spec_mark s c v of (v', e) \<Rightarrow> (v', DoneAnswer e))"

fun spec_calls :: "receipts \<Rightarrow> claim_call list \<Rightarrow> key_records \<Rightarrow> claim_answer list" where
  "spec_calls R [] v = []"
| "spec_calls R (c # cs) v = (case spec_call R c v of (v', a) \<Rightarrow> a # spec_calls R cs v')"

text \<open>A call made as the code makes it, the identifiers it mints new.\<close>

fun call_good :: "uuid set \<Rightarrow> claim_call \<Rightarrow> bool" where
  "call_good used (ClaimCall env s at) \<longleftrightarrow> good_scope s \<and> microsecond \<le> at \<and> ev_claim env \<notin> used
     \<and> ev_claim env \<noteq> uuid_nil \<and> ev_ref env \<noteq> uuid_nil \<and> ev_lock_free env"
| "call_good used (BeginCall s c) \<longleftrightarrow> good_scope s"
| "call_good used (CompleteCall s c a at) \<longleftrightarrow> good_scope s"
| "call_good used (MarkCall s c at) \<longleftrightarrow> good_scope s"

fun call_claim :: "claim_call \<Rightarrow> uuid" where
  "call_claim (ClaimCall env s at) = ev_claim env"
| "call_claim (BeginCall s c) = c"
| "call_claim (CompleteCall s c a at) = c"
| "call_claim (MarkCall s c at) = c"

text \<open>A mark is made on a key that has a record, as \<open>kit/httpx\<close> makes it.\<close>

fun call_fits :: "claim_call \<Rightarrow> key_records \<Rightarrow> bool" where
  "call_fits (MarkCall s c at) v \<longleftrightarrow> v (identity_of s) \<noteq> None"
| "call_fits _ v \<longleftrightarrow> True"

fun calls_good :: "receipts \<Rightarrow> uuid set \<Rightarrow> key_records \<Rightarrow> claim_call list \<Rightarrow> bool" where
  "calls_good R used v [] \<longleftrightarrow> True"
| "calls_good R used v (c # cs) \<longleftrightarrow> call_good used c \<and> call_fits c v
     \<and> calls_good R (insert (call_claim c) used) (fst (spec_call R c v)) cs"

subsection \<open>The contract\<close>

text \<open>\<open>ready s used n\<close>: the store is in order, names no claim outside \<open>used\<close>, and has room for \<open>n\<close> calls.\<close>

locale claim_store =
  fixes ops :: "'s claim_ops"
    and view :: "'s \<Rightarrow> key_records"
    and R :: receipts
    and ready :: "'s \<Rightarrow> uuid set \<Rightarrow> nat \<Rightarrow> bool"
  assumes call_law: "ready st used (Suc n) \<Longrightarrow> call_good used c \<Longrightarrow> call_fits c (view st) \<Longrightarrow>
      view (fst (claim_step ops c st)) = fst (spec_call R c (view st))
    \<and> snd (claim_step ops c st) = snd (spec_call R c (view st))
    \<and> ready (fst (claim_step ops c st)) (insert (call_claim c) used) n"
begin

lemma run_spec:
  "ready st used (length cs) \<Longrightarrow> calls_good R used (view st) cs \<Longrightarrow> claim_run ops cs st = spec_calls R cs (view st)"
proof (induction cs arbitrary: st used)
  case (Cons c cs)
  then have "ready st used (Suc (length cs))" "call_good used c" "call_fits c (view st)" by auto
  note l = call_law [OF this]
  from Cons.prems l have "calls_good R (insert (call_claim c) used) (view (fst (claim_step ops c st))) cs" by simp
  with Cons.IH [of "fst (claim_step ops c st)" "insert (call_claim c) used"] l show ?case
    by (simp add: case_prod_unfold)
qed simp

end

subsection \<open>What the decision depends on\<close>

definition row_same :: "time \<Rightarrow> row \<Rightarrow> row \<Rightarrow> bool" where
  "row_same at r r' \<longleftrightarrow>
     rw_ref r = rw_ref r' \<and> rw_receipt r = rw_receipt r' \<and> rw_fingerprint r = rw_fingerprint r'
     \<and> rw_claimed_at r = rw_claimed_at r' \<and> rw_completed r = rw_completed r'
     \<and> rw_recorded r = rw_recorded r' \<and> rw_began r = rw_began r'
     \<and> (rw_ref r \<noteq> uuid_nil \<longrightarrow> rw_started r = rw_started r')
     \<and> (rw_recorded r \<longrightarrow> rw_answer r = rw_answer r')
     \<and> (rw_began r \<longrightarrow> \<not> rw_completed r \<longrightarrow> lease \<le> time_sub at (rw_claimed_at r) \<longrightarrow> rw_effect r = rw_effect r')"

lemma claim_expired_same: "row_same at r r' \<Longrightarrow> claim_expired r t re = claim_expired r' t re"
  by (simp add: row_same_def claim_expired_def)

lemma shown_sel [simp]: "v_kind (shown v) = v_kind v" "v_ref (shown v) = v_ref v" "v_claim (shown v) = v_claim v"
  by (simp_all add: shown_def)

lemma decide_same:
  assumes "row_same at r r'"
  shows "shown (decide (Some r) s at c lease re) = shown (decide (Some r') s at c lease re)"
proof -
  have k: "known_outcome r = known_outcome r'" using assms by (simp add: row_same_def known_outcome_def)
  have e: "claim_expired r at re = claim_expired r' at re" by (rule claim_expired_same [OF assms])
  show ?thesis
  proof (cases "rw_began r \<and> \<not> rw_completed r \<and> lease \<le> time_sub at (rw_claimed_at r)")
    case True
    with assms have "rw_effect r = rw_effect r'" by (simp add: row_same_def)
    with assms e k show ?thesis
      by (simp add: row_same_def decide_def Let_def shown_def a_verdict_def) auto
  next
    case False
    then consider "\<not> rw_began r" | "rw_completed r" | "time_sub at (rw_claimed_at r) < lease" by linarith
    then show ?thesis
      using assms e k by cases (simp_all add: row_same_def decide_def Let_def shown_def a_verdict_def)
  qed
qed

lemma decide_same_kind:
  "row_same at r r' \<Longrightarrow> v_kind (decide (Some r) s at c lease re) = v_kind (decide (Some r') s at c lease re)"
  using decide_same [of at r r' s c re] by (metis shown_sel(1))

lemma shown_overwrite:
  "shown v = shown w \<Longrightarrow> shown (v\<lparr>v_ref := x, v_started := t\<rparr>) = shown (w\<lparr>v_ref := x, v_started := t\<rparr>)"
  by (cases v; cases w) (auto simp: shown_def split: if_splits)

lemma v_kind_shown: "shown v = shown w \<Longrightarrow> v_kind v = v_kind w"
  by (metis shown_sel(1))

text \<open>What a claim that runs leaves in the specification's records.\<close>

lemma spec_claim_eq:
  assumes same: "\<And>r. v (identity_of s) = Some r \<Longrightarrow> row_same at row (receipted R (sc_tenant s) r)"
    and some: "v (identity_of s) \<noteq> None"
  shows "spec_claim R env s at v =
    (let verdict = decide (Some row) s at (ev_claim env) lease retention
     in if v_kind verdict \<noteq> First then (v, shown verdict)
        else let fresh = claim_expired row at retention;
                 ref = (if \<not> fresh then rw_ref row else if sc_track s then ev_ref env else uuid_nil);
                 started = (if \<not> fresh then rw_started row else if sc_track s then at else 0)
             in (v(identity_of s \<mapsto> plain_row (claimed_row env s at ref started)),
                 shown (verdict\<lparr>v_ref := ref, v_started := started\<rparr>)))"
proof -
  from some obtain r where r: "v (identity_of s) = Some r" by auto
  let ?r = "receipted R (sc_tenant s) r"
  note same = same [OF r]
  note d = decide_same [OF same, of s "ev_claim env" retention]
  have st: "rw_ref row \<noteq> uuid_nil \<longrightarrow> rw_started row = rw_started ?r" and rf: "rw_ref row = rw_ref ?r"
    using same by (simp_all add: row_same_def)
  have plain: "plain_row (claimed_row env s at x t) = plain_row (claimed_row env s at x t')" if "x \<noteq> uuid_nil \<longrightarrow> t = t'" for x t t'
    using that by (simp add: plain_row_def claimed_row_def)
  have show': "shown (v\<lparr>v_ref := x, v_started := t\<rparr>) = shown (w\<lparr>v_ref := x, v_started := t'\<rparr>)"
    if "shown v = shown w" "x \<noteq> uuid_nil \<longrightarrow> t = t'" for v w x t t'
    using shown_overwrite [OF that(1), where x = x and t = t] that(2) by (auto simp: shown_def)
  show ?thesis
  proof (cases "v_kind (decide (Some row) s at (ev_claim env) lease retention) = First")
    case False
    with v_kind_shown [OF d] d show ?thesis by (simp add: spec_claim_def r Let_def)
  next
    case True
    with v_kind_shown [OF d] have f: "v_kind (decide (Some ?r) s at (ev_claim env) lease retention) = First" by simp
    show ?thesis
    proof (cases "claim_expired row at retention")
      case ex: True
      then have "claim_expired ?r at retention" using claim_expired_same [OF same] by simp
      with ex True f show ?thesis using show' [OF d [symmetric]] by (simp add: spec_claim_def r Let_def)
    next
      case ex: False
      then have "\<not> claim_expired ?r at retention" using claim_expired_same [OF same] by simp
      with ex True f show ?thesis
        using show' [OF d [symmetric]] plain [of "rw_ref ?r" "rw_started row" "rw_started ?r"] st rf
        by (simp add: spec_claim_def r Let_def)
    qed
  qed
qed

subsection \<open>The tables keep the contract\<close>

definition pg_effect :: "idem_db \<Rightarrow> identity \<Rightarrow> key_row \<Rightarrow> bool" where
  "pg_effect db i k = (case fmlookup (db_effects db) i of None \<Rightarrow> True
     | Some e \<Rightarrow> if ef_claim e = kr_claim k then ef_committed e else True)"

definition pg_records :: "idem_db \<Rightarrow> key_records" where
  "pg_records db i = (if good_identity i
     then map_option (\<lambda>k. plain_row ((read_claim k)\<lparr>rw_effect := pg_effect db i k\<rparr>)) (fmlookup (db_keys db) i) else None)"

definition pg_ready :: "receipts \<Rightarrow> idem_db \<Rightarrow> uuid set \<Rightarrow> nat \<Rightarrow> bool" where
  "pg_ready R db used n \<longleftrightarrow> sql_view (db_operations db) = R \<and>
     (\<forall>i k. fmlookup (db_keys db) i = Some k \<longrightarrow> kr_claim k \<in> used
        \<and> (\<exists>e. fmlookup (db_effects db) i = Some e \<and> ef_claim e = kr_claim k))"

lemma pg_readyD:
  assumes "pg_ready R db used n"
  shows "sql_view (db_operations db) = R" "fmlookup (db_keys db) i = Some k \<Longrightarrow> kr_claim k \<in> used"
    "fmlookup (db_keys db) i = Some k \<Longrightarrow> \<exists>e. fmlookup (db_effects db) i = Some e \<and> ef_claim e = kr_claim k"
  using assms unfolding pg_ready_def by blast+

lemma good_scopeD: "good_scope s \<Longrightarrow> good_identity (identity_of s)" "good_scope s \<Longrightarrow> fenced s"
  by (simp_all add: good_scope_def)

lemma read_fresh: "read_claim (fresh_key_row s c at (nullable_uuid ref) started) =
   \<lparr>rw_ref = ref, rw_started = (case started of None \<Rightarrow> 0 | Some t \<Rightarrow> t), rw_receipt = None,
    rw_fingerprint = sc_fingerprint s, rw_claim = c, rw_claimed_at = at, rw_completed = False, rw_recorded = False,
    rw_began = False, rw_effect = False, rw_answer = no_answer\<rparr>"
  by (simp add: read_claim_def fresh_key_row_def nullable_uuid_def no_answer_def decode_list_def)

lemma plain_row_cong:
  "(rw_ref r \<noteq> uuid_nil \<Longrightarrow> rw_started r = t) \<Longrightarrow> plain_row r = plain_row (r\<lparr>rw_started := t\<rparr>)"
  by (cases r) (simp add: plain_row_def)

lemma pg_taken:
  fixes env :: attempt_env and at :: time
  assumes s: "good_scope s" and ready: "pg_ready R db used (Suc n)"
    and st: "ref \<noteq> uuid_nil \<longrightarrow> (case started of None \<Rightarrow> 0 | Some t' \<Rightarrow> t') = t"
  defines "db' \<equiv> fence s (ev_claim env) (ev_clock env)
      (db\<lparr>db_keys := fmupd (identity_of s) (fresh_key_row s (ev_claim env) at (nullable_uuid ref) started) (db_keys db)\<rparr>)"
  shows "pg_records db' = (pg_records db)(identity_of s \<mapsto> plain_row (claimed_row env s at ref t))
    \<and> pg_ready R db' (insert (ev_claim env) used) n"
proof
  note g = good_scopeD [OF s]
  have keys: "fmlookup (db_keys db') i = (if i = identity_of s
      then Some (fresh_key_row s (ev_claim env) at (nullable_uuid ref) started) else fmlookup (db_keys db) i)" for i
    by (simp add: db'_def)
  have effs: "fmlookup (db_effects db') i = (if i = identity_of s
      then Some \<lparr>ef_claim = ev_claim env, ef_committed = False, ef_applied_at = ev_clock env\<rparr> else fmlookup (db_effects db) i)" for i
    using g by (simp add: db'_def fence_def)
  have ops: "db_operations db' = db_operations db" by (simp add: db'_def fence_def)
  have new: "kr_claim (fresh_key_row s c at r x) = c" for c r x by (simp add: fresh_key_row_def)
  have plain: "plain_row ((read_claim (fresh_key_row s (ev_claim env) at (nullable_uuid ref) started))\<lparr>rw_effect := False\<rparr>)
      = plain_row (claimed_row env s at ref t)"
    using st by (auto simp: read_fresh plain_row_def claimed_row_def)
  show "pg_records db' = (pg_records db)(identity_of s \<mapsto> plain_row (claimed_row env s at ref t))"
    using g plain by (auto simp: fun_eq_iff pg_records_def pg_effect_def keys effs new)
  show "pg_ready R db' (insert (ev_claim env) used) n"
    using pg_readyD [OF ready] unfolding pg_ready_def keys effs ops by (auto simp: new)
qed

lemma pg_row_same:
  assumes ready: "pg_ready R db used n" and k: "fmlookup (db_keys db) (identity_of s) = Some k"
    and s: "good_scope s" and row: "resolved_row env s at db k = Some row" and v: "pg_records db (identity_of s) = Some r"
  shows "row_same at row (receipted R (sc_tenant s) r)"
proof -
  from pg_readyD(3) [OF ready k] obtain e where e: "fmlookup (db_effects db) (identity_of s) = Some e" "ef_claim e = kr_claim k"
    by auto
  have r: "r = plain_row ((read_claim k)\<lparr>rw_effect := ef_committed e\<rparr>)"
    using v k good_scopeD [OF s] e by (simp add: pg_records_def pg_effect_def)
  have R: "map_option receipt_of (fmlookup (db_operations db) x) = R x" for x
    using pg_readyD(1) [OF ready] by (metis sql_view_def)
  have rec: "rw_receipt (existing_row s db k) = rw_receipt (receipted R (sc_tenant s) r)"
    by (simp add: existing_row_def Let_def receipted_def r plain_row_def R)
  show ?thesis
    using row rec e unfolding r
    by (auto simp: row_same_def receipted_def plain_row_def resolved_row_def resolve_effect_def Let_def split: if_splits)
qed

lemma pg_claim_law:
  assumes ready: "pg_ready R db used (Suc n)" and good: "call_good used (ClaimCall env s at)"
  shows "pg_records (fst (pg_claim env s at db)) = fst (spec_call R (ClaimCall env s at) (pg_records db))
    \<and> VerdictAnswer (map_sum id shown (snd (pg_claim env s at db))) = snd (spec_call R (ClaimCall env s at) (pg_records db))
    \<and> pg_ready R (fst (pg_claim env s at db)) (insert (ev_claim env) used) n"
proof (cases "valid_claim s (trunc_us at)")
  case False
  then show ?thesis using ready by (auto simp: pg_claim_def Let_def pg_ready_def)
next
  case val: True
  from good have s: "good_scope s" and new: "ev_claim env \<notin> used" and lock: "ev_lock_free env" and at: "microsecond \<le> at"
    by auto
  have at0: "trunc_us at \<noteq> 0" using trunc_us_mono [OF at] by (simp add: trunc_us_def microsecond_def)
  note g = good_scopeD [OF s]
  show ?thesis
  proof (cases "fmlookup (db_keys db) (identity_of s)")
    case None
    then have v: "pg_records db (identity_of s) = None" by (simp add: pg_records_def)
    from pg_taken [OF s ready, of "if sc_track s then ev_ref env else uuid_nil"
        "if sc_track s then Some (trunc_us at) else None" "if sc_track s then trunc_us at else 0" env "trunc_us at"]
    show ?thesis using None val at0 v
      by (auto simp: pg_claim_def spec_claim_def Let_def decide_def shown_def)
  next
    case (Some k)
    have c: "kr_claim k \<noteq> ev_claim env" using pg_readyD(2) [OF ready Some] new by auto
    have "resolved_row env s (trunc_us at) db k \<noteq> None"
      using lock by (simp add: resolved_row_def resolve_effect_def Let_def)
    then obtain row where row: "resolved_row env s (trunc_us at) db k = Some row" by auto
    from Some g obtain r where r: "pg_records db (identity_of s) = Some r" by (simp add: pg_records_def)
    have same: "row_same (trunc_us at) row (receipted R (sc_tenant s) r')" if "pg_records db (identity_of s) = Some r'" for r'
      by (rule pg_row_same [OF ready Some s row that])
    note spec = spec_claim_eq [of "pg_records db" s "trunc_us at" row R env, OF same]
    have rf: "rw_ref row = rw_ref (read_claim k)"
      using row by (auto simp: resolved_row_def resolve_effect_def Let_def split: if_splits)
    show ?thesis
    proof (cases "v_kind (decide (Some row) s (trunc_us at) (ev_claim env) lease retention) = First")
      case False
      then show ?thesis using Some c row val at0 r spec ready
        by (auto simp: pg_claim_def Let_def pg_ready_def)
    next
      case True
      define ref where "ref = (if claim_expired row (trunc_us at) retention
        then (if sc_track s then ev_ref env else uuid_nil) else rw_ref row)"
      define started where "started = (if claim_expired row (trunc_us at) retention
        then (if sc_track s then Some (trunc_us at) else None)
        else if rw_ref row = uuid_nil then None else Some (rw_started row))"
      define t where "t = (if claim_expired row (trunc_us at) retention
        then (if sc_track s then trunc_us at else 0) else rw_started row)"
      have st: "ref \<noteq> uuid_nil \<longrightarrow> (case started of None \<Rightarrow> 0 | Some t' \<Rightarrow> t') = t"
        by (auto simp: ref_def started_def t_def)
      have pg: "pg_claim env s at db = (fence s (ev_claim env) (ev_clock env)
          (db\<lparr>db_keys := fmupd (identity_of s) (fresh_key_row s (ev_claim env) (trunc_us at) (nullable_uuid ref) started) (db_keys db)\<rparr>),
          Inr ((decide (Some row) s (trunc_us at) (ev_claim env) lease retention)\<lparr>v_ref := ref,
             v_started := (case started of None \<Rightarrow> v_started (decide (Some row) s (trunc_us at) (ev_claim env) lease retention)
                | Some t' \<Rightarrow> t')\<rparr>))"
        using Some c row val at0 True by (simp add: pg_claim_def Let_def ref_def started_def)
      have sp: "spec_claim R env s (trunc_us at) (pg_records db) =
          ((pg_records db)(identity_of s \<mapsto> plain_row (claimed_row env s (trunc_us at) ref t)),
           shown ((decide (Some row) s (trunc_us at) (ev_claim env) lease retention)\<lparr>v_ref := ref, v_started := t\<rparr>))"
        using spec r True by (simp add: Let_def ref_def t_def)
      have sh: "shown (w\<lparr>v_ref := ref, v_started := (case started of None \<Rightarrow> v_started w | Some t' \<Rightarrow> t')\<rparr>)
          = shown (w\<lparr>v_ref := ref, v_started := t\<rparr>)" for w
        using st by (cases started) (auto simp: shown_def ref_def started_def t_def split: if_splits)
      from pg_taken [OF s ready st, of env "trunc_us at"] sh show ?thesis
        unfolding pg by (simp add: val sp)
    qed
  qed
qed

text \<open>Begin, Complete and Mark rewrite the one record in place.\<close>

lemma pg_records_upd:
  assumes "fmlookup (db_keys db) i = Some k" "kr_claim k' = kr_claim k"
  shows "good_identity i \<Longrightarrow> pg_records (db\<lparr>db_keys := fmupd i k' (db_keys db)\<rparr>) =
      (pg_records db)(i \<mapsto> plain_row ((read_claim k')\<lparr>rw_effect := pg_effect db i k\<rparr>))"
    and "pg_ready R db used (Suc n) \<Longrightarrow> pg_ready R (db\<lparr>db_keys := fmupd i k' (db_keys db)\<rparr>) (insert c used) n"
proof -
  show "good_identity i \<Longrightarrow> pg_records (db\<lparr>db_keys := fmupd i k' (db_keys db)\<rparr>) =
      (pg_records db)(i \<mapsto> plain_row ((read_claim k')\<lparr>rw_effect := pg_effect db i k\<rparr>))"
    using assms by (auto simp: fun_eq_iff pg_records_def pg_effect_def split: option.split)
  show "pg_ready R db used (Suc n) \<Longrightarrow> pg_ready R (db\<lparr>db_keys := fmupd i k' (db_keys db)\<rparr>) (insert c used) n"
    unfolding pg_ready_def using assms by (auto split: if_splits)
qed

lemma pg_ready_more: "pg_ready R db used (Suc n) \<Longrightarrow> pg_ready R db (insert c used) n"
  by (auto simp: pg_ready_def)

lemma plain_row_sel [simp]:
  "rw_claim (plain_row r) = rw_claim r" "rw_began (plain_row r) = rw_began r" "rw_completed (plain_row r) = rw_completed r"
  by (simp_all add: plain_row_def)

lemma pg_begin_law:
  assumes "pg_ready R db used (Suc n)" "good_scope s"
  shows "pg_records (fst (pg_begin s c db)) = fst (spec_begin s c (pg_records db))
    \<and> snd (pg_begin s c db) = snd (spec_begin s c (pg_records db)) \<and> pg_ready R (fst (pg_begin s c db)) (insert c used) n"
proof (cases "fmlookup (db_keys db) (identity_of s)")
  case None
  then show ?thesis using pg_ready_more [OF assms(1)] by (simp add: pg_begin_def spec_begin_def pg_records_def)
next
  case (Some k)
  note g = good_scopeD(1) [OF assms(2)]
  have "plain_row ((read_claim (k\<lparr>kr_began := True\<rparr>))\<lparr>rw_effect := b\<rparr>) = (plain_row ((read_claim k)\<lparr>rw_effect := b\<rparr>))\<lparr>rw_began := True\<rparr>" for b
    by (simp add: read_claim_def plain_row_def)
  then show ?thesis
    using Some g pg_records_upd(1) [OF Some _ g, of "k\<lparr>kr_began := True\<rparr>"] pg_records_upd(2) [OF Some _ assms(1), of "k\<lparr>kr_began := True\<rparr>" c]
      pg_ready_more [OF assms(1)]
    by (auto simp: pg_begin_def spec_begin_def pg_records_def [of db "identity_of s"])
qed

lemma decode_encode [simp]: "decode_list (encode_list xs) = xs"
  by (simp add: decode_list_def encode_list_def)

lemma pg_complete_law:
  assumes "pg_ready R db used (Suc n)" "good_scope s"
  shows "pg_records (fst (pg_complete s c a at db)) = fst (spec_complete s c a (pg_records db))
    \<and> snd (pg_complete s c a at db) = snd (spec_complete s c a (pg_records db))
    \<and> pg_ready R (fst (pg_complete s c a at db)) (insert c used) n"
proof (cases "fmlookup (db_keys db) (identity_of s)")
  case None
  then show ?thesis using pg_ready_more [OF assms(1)] by (simp add: pg_complete_def spec_complete_def pg_records_def)
next
  case (Some k)
  note g = good_scopeD(1) [OF assms(2)]
  have c: "kr_claim (completed_row a at k) = kr_claim k" by (simp add: completed_row_def)
  have "plain_row ((read_claim (completed_row a at k))\<lparr>rw_effect := b\<rparr>)
     = plain_row ((plain_row ((read_claim k)\<lparr>rw_effect := b\<rparr>))\<lparr>rw_completed := True, rw_recorded := (an_status a \<noteq> 0), rw_answer := a\<rparr>)" for b
    by (cases a) (simp add: read_claim_def plain_row_def completed_row_def)
  then show ?thesis
    using Some g pg_records_upd(1) [OF Some c g] pg_records_upd(2) [OF Some c assms(1), of c] pg_ready_more [OF assms(1)]
    by (auto simp: pg_complete_def spec_complete_def pg_records_def [of db "identity_of s"])
qed

lemma pg_mark_law:
  assumes ready: "pg_ready R db used (Suc n)" and s: "good_scope s" and fits: "pg_records db (identity_of s) \<noteq> None"
  shows "pg_records (fst (pg_mark s c at db)) = fst (spec_mark s c (pg_records db))
    \<and> snd (pg_mark s c at db) = snd (spec_mark s c (pg_records db)) \<and> pg_ready R (fst (pg_mark s c at db)) (insert c used) n"
proof -
  note g = good_scopeD(1) [OF s]
  from fits g obtain k where k: "fmlookup (db_keys db) (identity_of s) = Some k" by (auto simp: pg_records_def)
  from pg_readyD(3) [OF ready k] obtain e where e: "fmlookup (db_effects db) (identity_of s) = Some e" "ef_claim e = kr_claim k" by auto
  show ?thesis
  proof (cases "ef_claim e = c")
    case False
    with e k g pg_ready_more [OF ready] show ?thesis
      by (auto simp: pg_mark_def spec_mark_def Let_def pg_records_def [of db "identity_of s"])
  next
    case True
    let ?m = "\<lparr>ef_claim = c, ef_committed = True, ef_applied_at = at\<rparr>"
    let ?db = "db\<lparr>db_effects := fmupd (identity_of s) ?m (db_effects db)\<rparr>"
    have m: "pg_mark s c at db = (?db, None)" using e True by (simp add: pg_mark_def Let_def)
    have "plain_row (r\<lparr>rw_effect := True\<rparr>) = (plain_row (r\<lparr>rw_effect := b\<rparr>))\<lparr>rw_effect := True\<rparr>" for r b
      by (simp add: plain_row_def)
    then have "pg_records ?db = fst (spec_mark s c (pg_records db))"
      using k e True g by (auto simp: fun_eq_iff spec_mark_def pg_records_def pg_effect_def)
    moreover have "pg_ready R ?db (insert c used) n"
      using pg_readyD [OF ready] k e True unfolding pg_ready_def by auto
    moreover have "snd (spec_mark s c (pg_records db)) = None"
      using k e True g by (simp add: spec_mark_def pg_records_def)
    ultimately show ?thesis by (simp add: m)
  qed
qed

lemma claim_step_fst:
  "fst (claim_step ops (ClaimCall env s at) st) = fst (co_claim ops env s at st)"
  "fst (claim_step ops (BeginCall s c) st) = fst (co_begin ops s c st)"
  "fst (claim_step ops (CompleteCall s c a at) st) = fst (co_complete ops s c a at st)"
  "fst (claim_step ops (MarkCall s c at) st) = fst (co_mark ops s c at st)"
  by (simp_all add: case_prod_unfold)

lemma claim_step_snd:
  "snd (claim_step ops (ClaimCall env s at) st) = VerdictAnswer (map_sum id shown (snd (co_claim ops env s at st)))"
  "snd (claim_step ops (BeginCall s c) st) = DoneAnswer (snd (co_begin ops s c st))"
  "snd (claim_step ops (CompleteCall s c a at) st) = DoneAnswer (snd (co_complete ops s c a at st))"
  "snd (claim_step ops (MarkCall s c at) st) = DoneAnswer (snd (co_mark ops s c at st))"
  by (simp_all add: case_prod_unfold)

lemma spec_call_parts:
  "fst (spec_call R (BeginCall s c) v) = fst (spec_begin s c v)" "snd (spec_call R (BeginCall s c) v) = DoneAnswer (snd (spec_begin s c v))"
  "fst (spec_call R (CompleteCall s c a at) v) = fst (spec_complete s c a v)"
  "snd (spec_call R (CompleteCall s c a at) v) = DoneAnswer (snd (spec_complete s c a v))"
  "fst (spec_call R (MarkCall s c at) v) = fst (spec_mark s c v)" "snd (spec_call R (MarkCall s c at) v) = DoneAnswer (snd (spec_mark s c v))"
  by (simp_all add: case_prod_unfold)

lemma pg_claims_sel [simp]:
  "co_claim pg_claims = pg_claim" "co_begin pg_claims = pg_begin" "co_complete pg_claims = pg_complete" "co_mark pg_claims = pg_mark"
  by (simp_all add: pg_claims_def)

interpretation pg_claim_store: claim_store pg_claims pg_records R "pg_ready R" for R
proof (unfold_locales, goal_cases)
  case (1 st used n c)
  show ?case
  proof (cases c)
    case (ClaimCall env s at)
    with 1 show ?thesis
      using pg_claim_law [of R st used n env s at] by (simp only: claim_step_fst claim_step_snd pg_claims_sel call_claim.simps)
  next
    case (BeginCall s d)
    with 1 show ?thesis
      using pg_begin_law [of R st used n s d] by (simp only: claim_step_fst claim_step_snd pg_claims_sel spec_call_parts call_claim.simps call_good.simps)
  next
    case (CompleteCall s d a at)
    with 1 show ?thesis
      using pg_complete_law [of R st used n s d a at] by (simp only: claim_step_fst claim_step_snd pg_claims_sel spec_call_parts call_claim.simps call_good.simps)
  next
    case (MarkCall s d at)
    with 1 show ?thesis
      using pg_mark_law [of R st used n s d at] by (simp add: claim_step_fst claim_step_snd spec_call_parts del: claim_step.simps spec_call.simps)
  qed
qed

subsection \<open>The map keeps the contract\<close>

definition mem_identity_key :: "(uuid \<Rightarrow> string) \<Rightarrow> identity \<Rightarrow> string" where
  "mem_identity_key us i =
     us (id_tenant i) @ '' '' @ us (id_caller i) @ '' '' @ id_method i @ '' '' @ id_route i @ '' '' @ id_key i"

lemma mem_key_identity: "mem_key us s = mem_identity_key us (identity_of s)"
  by (simp add: mem_key_def mem_identity_key_def identity_of_def)

lemma mem_identity_key_inj:
  assumes us: "uuid_spelling us" and g: "good_identity i" "good_identity j"
    and eq: "mem_identity_key us i = mem_identity_key us j"
  shows "i = j"
proof -
  note no = uuid_spelling_no_sep(4) [OF us]
  from eq have 1: "us (id_tenant i) @ CHR '' '' # (us (id_caller i) @ CHR '' '' # (id_method i @ CHR '' '' # (id_route i @ CHR '' '' # id_key i)))
      = us (id_tenant j) @ CHR '' '' # (us (id_caller j) @ CHR '' '' # (id_method j @ CHR '' '' # (id_route j @ CHR '' '' # id_key j)))"
    by (simp add: mem_identity_key_def)
  from append_sep_eq [OF no no 1] have t: "us (id_tenant i) = us (id_tenant j)" and
    2: "us (id_caller i) @ CHR '' '' # (id_method i @ CHR '' '' # (id_route i @ CHR '' '' # id_key i))
      = us (id_caller j) @ CHR '' '' # (id_method j @ CHR '' '' # (id_route j @ CHR '' '' # id_key j))" by auto
  from append_sep_eq [OF no no 2] have c: "us (id_caller i) = us (id_caller j)" and
    3: "id_method i @ CHR '' '' # (id_route i @ CHR '' '' # id_key i) = id_method j @ CHR '' '' # (id_route j @ CHR '' '' # id_key j)"
    by auto
  have m: "CHR '' '' \<notin> set (id_method i)" "CHR '' '' \<notin> set (id_method j)" "CHR '' '' \<notin> set (id_route i)" "CHR '' '' \<notin> set (id_route j)"
    using g by (simp_all add: good_identity_def)
  from append_sep_eq [OF m(1,2) 3] have "id_method i = id_method j"
    "id_route i @ CHR '' '' # id_key i = id_route j @ CHR '' '' # id_key j" by auto
  moreover from append_sep_eq [OF m(3,4) this(2)] have "id_route i = id_route j" "id_key i = id_key j" by auto
  ultimately show ?thesis using t c uuid_spelling_inj [OF us] by (intro identity.expand) simp
qed

definition mem_effect :: "mem_idem \<Rightarrow> string \<Rightarrow> row \<Rightarrow> bool" where
  "mem_effect m k r \<longleftrightarrow> fmlookup (mi_effects m) k = Some (rw_claim r)"

definition mem_records :: "(uuid \<Rightarrow> string) \<Rightarrow> mem_idem \<Rightarrow> key_records" where
  "mem_records us m i = (if good_identity i
     then map_option (\<lambda>(t, r). plain_row (r\<lparr>rw_effect := mem_effect m (mem_identity_key us i) r\<rparr>))
            (fmlookup (mi_records m) (mem_identity_key us i)) else None)"

definition mem_ready :: "receipts \<Rightarrow> mem_idem \<Rightarrow> uuid set \<Rightarrow> nat \<Rightarrow> bool" where
  "mem_ready R m used n \<longleftrightarrow> fmlookup (mi_operations m) = R \<and> (\<forall>t. R (t, uuid_nil) = None)
     \<and> fcard (fmdom (mi_records m)) + n \<le> idem_max_tracked
     \<and> (\<forall>k t r. fmlookup (mi_records m) k = Some (t, r) \<longrightarrow> rw_receipt r = None \<and> rw_claim r \<in> used \<and> rw_claim r \<noteq> uuid_nil)
     \<and> (\<forall>k c. fmlookup (mi_effects m) k = Some c \<longrightarrow> c \<in> used)"

lemma mem_readyD:
  assumes "mem_ready R m used n"
  shows "fmlookup (mi_operations m) = R" "R (t, uuid_nil) = None" "fcard (fmdom (mi_records m)) + n \<le> idem_max_tracked"
    "fmlookup (mi_records m) k = Some (t, r) \<Longrightarrow> rw_receipt r = None \<and> rw_claim r \<in> used \<and> rw_claim r \<noteq> uuid_nil"
    "fmlookup (mi_effects m) k = Some c \<Longrightarrow> c \<in> used"
  using assms by (auto simp: mem_ready_def)

lemma mem_ready_more: "mem_ready R m used (Suc n) \<Longrightarrow> mem_ready R m (insert c used) n"
  by (auto simp: mem_ready_def)

text \<open>A record written at one identity, and what it does to the records.\<close>

lemma mem_records_upd:
  assumes us: "uuid_spelling us" and g: "good_identity i"
  shows "mem_records us (m\<lparr>mi_records := fmupd (mem_identity_key us i) (t, r) (mi_records m)\<rparr>) =
    (mem_records us m)(i \<mapsto> plain_row (r\<lparr>rw_effect := mem_effect m (mem_identity_key us i) r\<rparr>))"
proof
  fix j
  show "mem_records us (m\<lparr>mi_records := fmupd (mem_identity_key us i) (t, r) (mi_records m)\<rparr>) j =
    ((mem_records us m)(i \<mapsto> plain_row (r\<lparr>rw_effect := mem_effect m (mem_identity_key us i) r\<rparr>))) j"
    using mem_identity_key_inj [OF us g, of j] g by (auto simp: mem_records_def mem_effect_def)
qed

lemma mem_ready_upd:
  assumes "mem_ready R m used (Suc n)" "rw_receipt r = None" "rw_claim r \<in> insert c used" "rw_claim r \<noteq> uuid_nil"
  shows "mem_ready R (m\<lparr>mi_records := fmupd k (t, r) (mi_records m)\<rparr>) (insert c used) n"
  using assms unfolding mem_ready_def by (auto simp: fcard_finsert_if)

lemma mem_prune_keys_room: "mem_ready R m used (Suc n) \<Longrightarrow> mem_prune_keys at m = m"
  by (simp add: mem_prune_keys_def mem_ready_def)

lemma mem_begin_law:
  assumes us: "uuid_spelling us" and ready: "mem_ready R m used (Suc n)" and s: "good_scope s"
  shows "mem_records us (fst (mem_begin us s c m)) = fst (spec_begin s c (mem_records us m))
    \<and> snd (mem_begin us s c m) = snd (spec_begin s c (mem_records us m)) \<and> mem_ready R (fst (mem_begin us s c m)) (insert c used) n"
proof (cases "fmlookup (mi_records m) (mem_identity_key us (identity_of s))")
  case None
  then show ?thesis using mem_ready_more [OF ready]
    by (simp add: mem_begin_def spec_begin_def mem_records_def mem_key_identity)
next
  case (Some tr)
  obtain t r where tr: "tr = (t, r)" by force
  note g = good_scopeD(1) [OF s] and r = mem_readyD(4) [OF ready Some [unfolded tr]]
  have "plain_row (r\<lparr>rw_began := True, rw_effect := b\<rparr>) = (plain_row (r\<lparr>rw_effect := b\<rparr>))\<lparr>rw_began := True\<rparr>" for b
    by (simp add: plain_row_def)
  then show ?thesis
    using Some tr g mem_records_upd [OF us g, where m = m and t = t and r = "r\<lparr>rw_began := True\<rparr>"]
      mem_ready_upd [OF ready, of "r\<lparr>rw_began := True\<rparr>" c] r mem_ready_more [OF ready]
    by (auto simp: mem_begin_def spec_begin_def mem_key_identity mem_records_def [of us m "identity_of s"] mem_effect_def)
qed

lemma mem_complete_law:
  assumes us: "uuid_spelling us" and ready: "mem_ready R m used (Suc n)" and s: "good_scope s"
  shows "mem_records us (fst (mem_complete us s c a m)) = fst (spec_complete s c a (mem_records us m))
    \<and> snd (mem_complete us s c a m) = snd (spec_complete s c a (mem_records us m))
    \<and> mem_ready R (fst (mem_complete us s c a m)) (insert c used) n"
proof (cases "fmlookup (mi_records m) (mem_identity_key us (identity_of s))")
  case None
  then show ?thesis using mem_ready_more [OF ready]
    by (simp add: mem_complete_def spec_complete_def mem_records_def mem_key_identity)
next
  case (Some tr)
  obtain t r where tr: "tr = (t, r)" by force
  note g = good_scopeD(1) [OF s] and r = mem_readyD(4) [OF ready Some [unfolded tr]]
  let ?r = "r\<lparr>rw_completed := True, rw_recorded := (an_status a \<noteq> 0), rw_answer := a\<rparr>"
  have "plain_row (?r\<lparr>rw_effect := b\<rparr>)
     = plain_row ((plain_row (r\<lparr>rw_effect := b\<rparr>))\<lparr>rw_completed := True, rw_recorded := (an_status a \<noteq> 0), rw_answer := a\<rparr>)" for b
    by (simp add: plain_row_def)
  then show ?thesis
    using Some tr g mem_records_upd [OF us g, where m = m and t = t and r = ?r] mem_ready_upd [OF ready, of ?r c] r mem_ready_more [OF ready]
    by (auto simp: mem_complete_def spec_complete_def mem_key_identity mem_records_def [of us m "identity_of s"] mem_effect_def)
qed

lemma mem_mark_law:
  assumes us: "uuid_spelling us" and ready: "mem_ready R m used (Suc n)" and s: "good_scope s"
    and fits: "mem_records us m (identity_of s) \<noteq> None"
  shows "mem_records us (fst (mem_mark us s c m)) = fst (spec_mark s c (mem_records us m))
    \<and> snd (mem_mark us s c m) = snd (spec_mark s c (mem_records us m)) \<and> mem_ready R (fst (mem_mark us s c m)) (insert c used) n"
proof -
  note g = good_scopeD(1) [OF s]
  let ?k = "mem_identity_key us (identity_of s)"
  from fits g obtain t r where r: "fmlookup (mi_records m) ?k = Some (t, r)" by (auto simp: mem_records_def)
  show ?thesis
  proof (cases "rw_claim r = c")
    case False
    with r g mem_ready_more [OF ready] show ?thesis
      by (auto simp: mem_mark_def spec_mark_def mem_key_identity mem_records_def [of us m "identity_of s"])
  next
    case True
    let ?m = "m\<lparr>mi_effects := fmupd ?k c (mi_effects m)\<rparr>"
    have mk: "mem_mark us s c m = (?m, None)" using r True by (simp add: mem_mark_def mem_key_identity)
    have p: "plain_row (r\<lparr>rw_effect := True\<rparr>) = (plain_row (r\<lparr>rw_effect := b\<rparr>))\<lparr>rw_effect := True\<rparr>" for b
      by (simp add: plain_row_def)
    have "mem_records us ?m j = (fst (spec_mark s c (mem_records us m))) j" for j
      using r True g p mem_identity_key_inj [OF us g, of j]
      by (cases "j = identity_of s") (auto simp: spec_mark_def mem_records_def mem_effect_def)
    moreover have "mem_ready R ?m (insert c used) n"
      using mem_readyD [OF ready] unfolding mem_ready_def by auto
    moreover have "snd (spec_mark s c (mem_records us m)) = None"
      using r True g by (simp add: spec_mark_def mem_records_def)
    ultimately show ?thesis by (auto simp: mk)
  qed
qed

lemma mem_claim_law:
  assumes us: "uuid_spelling us" and ready: "mem_ready R m used (Suc n)" and good: "call_good used (ClaimCall env s at)"
  shows "mem_records us (fst (mem_claim us now env s at m)) = fst (spec_call R (ClaimCall env s at) (mem_records us m))
    \<and> VerdictAnswer (map_sum id shown (snd (mem_claim us now env s at m))) = snd (spec_call R (ClaimCall env s at) (mem_records us m))
    \<and> mem_ready R (fst (mem_claim us now env s at m)) (insert (ev_claim env) used) n"
proof -
  from good have s: "good_scope s" and new: "ev_claim env \<notin> used" "ev_claim env \<noteq> uuid_nil" and at: "microsecond \<le> at" by auto
  have at0: "trunc_us at \<noteq> 0" using trunc_us_mono [OF at] by (simp add: trunc_us_def microsecond_def)
  have at1: "at \<noteq> 0" using at by (simp add: microsecond_def)
  have val: "valid_claim s at = valid_claim s (trunc_us at)" using at0 at1 by (simp add: valid_claim_def)
  note g = good_scopeD [OF s]
  let ?k = "mem_identity_key us (identity_of s)"
  have taken: "mem_records us (m\<lparr>mi_records := fmupd ?k (sc_tenant s, claimed_row env s (trunc_us at) ref t) (mi_records m)\<rparr>)
      = (mem_records us m)(identity_of s \<mapsto> plain_row (claimed_row env s (trunc_us at) ref t))
    \<and> mem_ready R (m\<lparr>mi_records := fmupd ?k (sc_tenant s, claimed_row env s (trunc_us at) ref t) (mi_records m)\<rparr>) (insert (ev_claim env) used) n" for ref t
  proof -
    have "\<not> mem_effect m ?k (claimed_row env s (trunc_us at) ref t)"
      using mem_readyD(5) [OF ready] new(1) by (auto simp: mem_effect_def claimed_row_def)
    then have "(claimed_row env s (trunc_us at) ref t)\<lparr>rw_effect := mem_effect m ?k (claimed_row env s (trunc_us at) ref t)\<rparr>
        = claimed_row env s (trunc_us at) ref t" by (simp add: claimed_row_def)
    then show ?thesis
      using mem_records_upd [OF us g(1), where m = m and t = "sc_tenant s" and r = "claimed_row env s (trunc_us at) ref t"]
        mem_ready_upd [OF ready, of "claimed_row env s (trunc_us at) ref t" "ev_claim env"] new(2)
      by (simp add: claimed_row_def)
  qed
  show ?thesis
  proof (cases "valid_claim s (trunc_us at)")
    case False
    then show ?thesis using mem_ready_more [OF ready] val by (simp add: mem_claim_def)
  next
    case vt: True
    show ?thesis
    proof (cases "fmlookup (mi_records m) ?k")
      case None
      then have "mem_records us m (identity_of s) = None" by (simp add: mem_records_def)
      with None vt val at1 taken show ?thesis
        by (auto simp: mem_claim_def spec_claim_def Let_def mem_prune_keys_room [OF ready] mem_key_identity claimed_row_def [symmetric])
    next
      case (Some tr)
      obtain t r where tr: "tr = (t, r)" by force
      note rr = mem_readyD(4) [OF ready Some [unfolded tr]]
      define row where "row = with_receipt (mi_operations m) (sc_tenant s) (r\<lparr>rw_effect := mem_effect m ?k r\<rparr>)"
      have eff: "(fmlookup (mi_effects m) ?k = Some (rw_claim r) \<or> fmlookup (mi_effects m) ?k = None \<and> rw_claim r = uuid_nil
          \<or> sc_track s \<and> sc_method s = ''COMMAND'') = mem_effect m ?k r"
        using rr g(2) by (auto simp: mem_effect_def fenced_def)
      have v: "mem_records us m (identity_of s) = Some (plain_row (r\<lparr>rw_effect := mem_effect m ?k r\<rparr>))"
        using Some tr g(1) by (simp add: mem_records_def)
      have "row_same (trunc_us at) row (receipted R (sc_tenant s) (plain_row (r\<lparr>rw_effect := mem_effect m ?k r\<rparr>)))"
        using rr mem_readyD(1,2) [OF ready]
        by (auto simp: row_same_def row_def with_receipt_def receipted_def plain_row_def split: option.split)
      then have same: "row_same (trunc_us at) row (receipted R (sc_tenant s) r')" if "mem_records us m (identity_of s) = Some r'" for r'
        using that v by simp
      note spec = spec_claim_eq [of "mem_records us m" s "trunc_us at" row R env, OF same]
      have ex: "mem_claim us now env s at m =
        (let vd = decide (Some row) s (trunc_us at) (ev_claim env) lease retention
         in if v_kind vd \<noteq> First then (m, Inr vd)
            else let fresh = claim_expired row (trunc_us at) retention;
                     ref = (if \<not> fresh then rw_ref row else if sc_track s then ev_ref env else uuid_nil);
                     started = (if \<not> fresh then rw_started row else if sc_track s then trunc_us at else 0)
                 in (m\<lparr>mi_records := fmupd ?k (sc_tenant s, claimed_row env s (trunc_us at) ref started) (mi_records m)\<rparr>,
                     Inr (vd\<lparr>v_ref := ref, v_started := started\<rparr>)))"
        using vt val at1 Some tr
        by (simp add: mem_claim_def Let_def mem_prune_keys_room [OF ready] mem_key_identity eff row_def [symmetric] claimed_row_def)
      show ?thesis using taken spec v vt mem_ready_more [OF ready] unfolding ex by (auto simp: Let_def)
    qed
  qed
qed

lemma mem_claims_sel [simp]:
  "co_claim (mem_claims us now) = mem_claim us now" "co_begin (mem_claims us now) = mem_begin us"
  "co_complete (mem_claims us now) s c a at = mem_complete us s c a" "co_mark (mem_claims us now) s c at = mem_mark us s c"
  by (simp_all add: mem_claims_def)

lemma mem_claim_store_of:
  assumes us: "uuid_spelling us"
  shows "claim_store (mem_claims us now) (mem_records us) R (mem_ready R)"
proof (unfold_locales, goal_cases)
  case (1 st used n c)
  show ?case
  proof (cases c)
    case (ClaimCall env s at)
    with 1 show ?thesis
      using mem_claim_law [OF us, of R st used n env s at now] by (simp only: claim_step_fst claim_step_snd mem_claims_sel call_claim.simps)
  next
    case (BeginCall s d)
    with 1 show ?thesis
      using mem_begin_law [OF us, of R st used n s d] by (simp only: claim_step_fst claim_step_snd mem_claims_sel spec_call_parts call_claim.simps call_good.simps)
  next
    case (CompleteCall s d a at)
    with 1 show ?thesis
      using mem_complete_law [OF us, of R st used n s d a] by (simp only: claim_step_fst claim_step_snd mem_claims_sel spec_call_parts call_claim.simps call_good.simps)
  next
    case (MarkCall s d at)
    with 1 show ?thesis
      using mem_mark_law [OF us, of R st used n s d] by (simp add: claim_step_fst claim_step_snd spec_call_parts del: claim_step.simps spec_call.simps)
  qed
qed

interpretation mem_claim_store: claim_store "mem_claims uuid_text now" "mem_records uuid_text" R "mem_ready R" for now R
  by (rule mem_claim_store_of [OF uuid_text_spelling])

text \<open>The empty stores over the same receipts.\<close>

definition empty_db :: "operation_table \<Rightarrow> idem_db" where
  "empty_db ops = \<lparr>db_keys = fmempty, db_effects = fmempty, db_operations = ops\<rparr>"

definition empty_memory :: "operation_map \<Rightarrow> mem_idem" where
  "empty_memory ops = \<lparr>mi_records = fmempty, mi_operations = ops, mi_effects = fmempty\<rparr>"

lemma pg_ready_empty: "sql_view ops = R \<Longrightarrow> pg_ready R (empty_db ops) used n"
  by (simp add: pg_ready_def empty_db_def)

lemma mem_ready_empty:
  "fmlookup ops = R \<Longrightarrow> (\<And>t. R (t, uuid_nil) = None) \<Longrightarrow> n \<le> idem_max_tracked \<Longrightarrow> mem_ready R (empty_memory ops) used n"
  by (simp add: mem_ready_def empty_memory_def fcard.rep_eq)

lemma records_empty: "pg_records (empty_db ops) = (\<lambda>_. None)" "mem_records us (empty_memory ops') = (\<lambda>_. None)"
  by (auto simp: pg_records_def mem_records_def empty_db_def empty_memory_def)

end
