(* ===== verification/CommandOnce.thy ===== *)
theory CommandOnce
  imports Idempotency
begin

section \<open>A keyed command commits once\<close>

text \<open>
  The protocol of one day of keyed commands over the Postgres store, as a step relation:
  attempts claim a key, are admitted by \<open>Begin\<close>, run one tenant transaction that marks its
  effect and commits or rolls back, and record an answer, in any interleaving and from any
  number of replicas; a replica may stop between any two steps.  A marked transaction holds
  the lock and the marker's row until it ends, which is what Postgres does with an advisory
  transaction lock and an updated row.  The invariant ties the marker, the key's record and
  the transactions that committed together.
\<close>

record world =
  w_db :: idem_db
  w_used :: "uuid set"
  w_admitted :: "(identity \<times> uuid) list"
  w_marked :: "(identity \<times> uuid) list"
  w_done :: "(identity \<times> uuid) list"

definition new_world :: "operation_table \<Rightarrow> world" where
  "new_world ops = \<lparr>w_db = \<lparr>db_keys = fmempty, db_effects = fmempty, db_operations = ops\<rparr>,
     w_used = {}, w_admitted = [], w_marked = [], w_done = []\<rparr>"

text \<open>Receipts of operations that started on this day.\<close>

definition day_receipts :: "time \<Rightarrow> operation_table \<Rightarrow> bool" where
  "day_receipts t0 ops \<longleftrightarrow> (\<forall>k r. fmlookup ops k = Some r \<longrightarrow> t0 \<le> or_started r)"

text \<open>The lock is free only when nobody who marked this key is still to end.\<close>

inductive day_step :: "time \<Rightarrow> world \<Rightarrow> world \<Rightarrow> bool" for t0 :: time where
  claims: "\<lbrakk>fenced s; ev_claim env \<notin> w_used w; t0 \<le> trunc_us at; at < t0 + retention;
     ev_lock_free env \<longrightarrow> identity_of s \<notin> fst ` set (w_marked w);
     pg_claim env s at (w_db w) = (db', r); lets_run r \<longrightarrow> identity_of s \<notin> fst ` set (w_marked w)\<rbrakk>
   \<Longrightarrow> day_step t0 w (w\<lparr>w_db := db', w_used := insert (ev_claim env) (w_used w)\<rparr>)"
| begins: "\<lbrakk>fenced s; pg_begin s c (w_db w) = (db', None)\<rbrakk>
   \<Longrightarrow> day_step t0 w (w\<lparr>w_db := db', w_admitted := (identity_of s, c) # w_admitted w\<rparr>)"
| marks: "\<lbrakk>fenced s; (identity_of s, c) \<in> set (w_admitted w); identity_of s \<notin> fst ` set (w_marked w);
     snd (pg_mark s c clock (w_db w)) = None\<rbrakk>
   \<Longrightarrow> day_step t0 w (w\<lparr>w_admitted := removeAll (identity_of s, c) (w_admitted w),
                         w_marked := (identity_of s, c) # w_marked w\<rparr>)"
| refuses: "\<lbrakk>fenced s; (identity_of s, c) \<in> set (w_admitted w); snd (pg_mark s c clock (w_db w)) \<noteq> None\<rbrakk>
   \<Longrightarrow> day_step t0 w (w\<lparr>w_admitted := removeAll (identity_of s, c) (w_admitted w)\<rparr>)"
| commits: "\<lbrakk>(identity_of s, c) \<in> set (w_marked w); pg_mark s c clock (w_db w) = (db', e)\<rbrakk>
   \<Longrightarrow> day_step t0 w (w\<lparr>w_db := db', w_marked := removeAll (identity_of s, c) (w_marked w),
                         w_done := (identity_of s, c) # w_done w\<rparr>)"
| rolls_back: "(i, c) \<in> set (w_marked w)
   \<Longrightarrow> day_step t0 w (w\<lparr>w_marked := removeAll (i, c) (w_marked w)\<rparr>)"
| completes: "pg_complete s c a at (w_db w) = (db', e)
   \<Longrightarrow> day_step t0 w (w\<lparr>w_db := db'\<rparr>)"
| receipts: "day_receipts t0 ops
   \<Longrightarrow> day_step t0 w (w\<lparr>w_db := (w_db w)\<lparr>db_operations := ops\<rparr>\<rparr>)"
| purges: "at < t0 + retention
   \<Longrightarrow> day_step t0 w (w\<lparr>w_db := purge_at at (w_db w)\<rparr>)"

inductive_cases day_stepE: "day_step t0 w w'"

definition day_reaches :: "time \<Rightarrow> world \<Rightarrow> world \<Rightarrow> bool" where
  "day_reaches t0 = (day_step t0)\<^sup>*\<^sup>*"

subsection \<open>The invariant\<close>

definition keys_inv :: "time \<Rightarrow> world \<Rightarrow> bool" where
  "keys_inv t0 w \<longleftrightarrow> (\<forall>i k. fmlookup (db_keys (w_db w)) i = Some k \<longrightarrow>
     t0 \<le> kr_claimed_at k \<and> kr_claim k \<in> w_used w
     \<and> (\<exists>e. fmlookup (db_effects (w_db w)) i = Some e \<and> ef_claim e = kr_claim k))"

lemma keys_invD:
  assumes "keys_inv t0 w" "fmlookup (db_keys (w_db w)) i = Some k"
  shows "t0 \<le> kr_claimed_at k" "kr_claim k \<in> w_used w"
    "\<exists>e. fmlookup (db_effects (w_db w)) i = Some e \<and> ef_claim e = kr_claim k"
  using assms unfolding keys_inv_def by blast+

text \<open>An attempt that marked holds the key, was admitted to it, and its mark is not there yet.\<close>

definition holds_key :: "world \<Rightarrow> identity \<Rightarrow> uuid \<Rightarrow> bool \<Rightarrow> bool" where
  "holds_key w i c committed \<longleftrightarrow>
     (\<exists>k e. fmlookup (db_keys (w_db w)) i = Some k \<and> kr_claim k = c \<and> kr_began k
        \<and> fmlookup (db_effects (w_db w)) i = Some e \<and> ef_committed e = committed)"

definition day_inv :: "time \<Rightarrow> world \<Rightarrow> bool" where
  "day_inv t0 w \<longleftrightarrow> keys_inv t0 w \<and> day_receipts t0 (db_operations (w_db w))
   \<and> distinct (map fst (w_marked w)) \<and> (\<forall>i c. (i, c) \<in> set (w_marked w) \<longrightarrow> holds_key w i c False)
   \<and> distinct (map fst (w_done w)) \<and> (\<forall>i c. (i, c) \<in> set (w_done w) \<longrightarrow> holds_key w i c True)
   \<and> (\<forall>i e. fmlookup (db_effects (w_db w)) i = Some e \<longrightarrow> ef_committed e \<longrightarrow> i \<in> fst ` set (w_done w))
   \<and> (\<forall>i c. (i, c) \<in> set (w_admitted w) \<longrightarrow> c \<in> w_used w \<and> (i, c) \<notin> set (w_done w) \<and> (i, c) \<notin> set (w_marked w)
        \<and> (\<exists>k. fmlookup (db_keys (w_db w)) i = Some k \<and> (kr_claim k = c \<longrightarrow> kr_began k)))"

lemma day_inv_new: "day_receipts t0 ops \<Longrightarrow> day_inv t0 (new_world ops)"
  by (simp add: day_inv_def new_world_def keys_inv_def)

lemma day_invI:
  assumes "keys_inv t0 w" "day_receipts t0 (db_operations (w_db w))" "distinct (map fst (w_marked w))"
    "\<And>i c. (i, c) \<in> set (w_marked w) \<Longrightarrow> holds_key w i c False"
    "distinct (map fst (w_done w))" "\<And>i c. (i, c) \<in> set (w_done w) \<Longrightarrow> holds_key w i c True"
    "\<And>i e. fmlookup (db_effects (w_db w)) i = Some e \<Longrightarrow> ef_committed e \<Longrightarrow> i \<in> fst ` set (w_done w)"
    "\<And>i c. (i, c) \<in> set (w_admitted w) \<Longrightarrow> c \<in> w_used w \<and> (i, c) \<notin> set (w_done w) \<and> (i, c) \<notin> set (w_marked w)
        \<and> (\<exists>k. fmlookup (db_keys (w_db w)) i = Some k \<and> (kr_claim k = c \<longrightarrow> kr_began k))"
  shows "day_inv t0 w"
  using assms unfolding day_inv_def by blast

lemma day_invD:
  assumes "day_inv t0 w"
  shows "keys_inv t0 w" "day_receipts t0 (db_operations (w_db w))"
    "distinct (map fst (w_marked w))" "(i, c) \<in> set (w_marked w) \<Longrightarrow> holds_key w i c False"
    "distinct (map fst (w_done w))" "(i, c) \<in> set (w_done w) \<Longrightarrow> holds_key w i c True"
    "fmlookup (db_effects (w_db w)) i = Some e \<Longrightarrow> ef_committed e \<Longrightarrow> i \<in> fst ` set (w_done w)"
    "(i, c) \<in> set (w_admitted w) \<Longrightarrow> c \<in> w_used w \<and> (i, c) \<notin> set (w_done w) \<and> (i, c) \<notin> set (w_marked w)
        \<and> (\<exists>k. fmlookup (db_keys (w_db w)) i = Some k \<and> (kr_claim k = c \<longrightarrow> kr_began k))"
  using assms unfolding day_inv_def by blast+

lemma distinct_fst_one: "distinct (map fst xs) \<Longrightarrow> (i, c) \<in> set xs \<Longrightarrow> (i, c') \<in> set xs \<Longrightarrow> c = c'"
  by (metis (no_types) eq_key_imp_eq_value)

subsection \<open>A claim that lets an attempt run finds nothing committed\<close>

lemma day_not_expired:
  assumes "keys_inv t0 w" "day_receipts t0 (db_operations (w_db w))" "at < t0 + retention"
    "fmlookup (db_keys (w_db w)) (identity_of s) = Some k"
  shows "\<not> claim_expired ((existing_row s (w_db w) k)\<lparr>rw_effect := b\<rparr>) at retention"
proof (cases "rw_ref (read_claim k) = uuid_nil")
  case True
  have "t0 \<le> kr_claimed_at k" by (rule keys_invD(1) [OF assms(1,4)])
  then have "\<not> retention \<le> time_sub at (kr_claimed_at k)"
    using assms(3) by (subst time_sub_ge_iff) (auto simp: retention_def duration_defs min_duration_def max_duration_def)
  with True show ?thesis by (simp add: claim_expired_def)
next
  case False
  have "\<not> expired (receipt_of r) at" if "fmlookup (db_operations (w_db w)) (sc_tenant s, rw_ref (read_claim k)) = Some r" for r
  proof -
    have "t0 \<le> or_started r" using assms(2) that by (simp add: day_receipts_def)
    then show ?thesis using assms(3) by (auto simp: expired_def receipt_of_def)
  qed
  with False show ?thesis by (auto simp: claim_expired_def existing_row_def Let_def split: option.splits)
qed

lemma day_takeover:
  assumes inv: "day_inv t0 w" and at: "at < t0 + retention"
    and lock: "ev_lock_free env \<longrightarrow> identity_of s \<notin> fst ` set (w_marked w)"
    and k: "fmlookup (db_keys (w_db w)) (identity_of s) = Some k"
    and row: "resolved_row env s at (w_db w) k = Some row"
    and first: "v_kind (decide (Some row) s at (ev_claim env) lease retention) = First"
  shows "identity_of s \<notin> fst ` set (w_done w)"
proof
  assume "identity_of s \<in> fst ` set (w_done w)"
  then obtain c where c: "(identity_of s, c) \<in> set (w_done w)" by auto
  from day_invD(6) [OF inv c] k obtain e where h: "kr_claim k = c" "kr_began k"
    "fmlookup (db_effects (w_db w)) (identity_of s) = Some e" "ef_committed e"
    by (auto simp: holds_key_def)
  from keys_invD(3) [OF day_invD(1) [OF inv] k] h(3) have e: "ef_claim e = kr_claim k" by auto
  have r: "row = existing_row s (w_db w) k \<or> row = (existing_row s (w_db w) k)\<lparr>rw_effect := True\<rparr>"
    using row h e by (auto simp: resolved_row_def resolve_effect_def Let_def split: if_splits)
  have same: "(existing_row s (w_db w) k)\<lparr>rw_effect := rw_effect (existing_row s (w_db w) k)\<rparr> = existing_row s (w_db w) k"
    by simp
  have "\<not> claim_expired row at retention"
    using r day_not_expired [OF day_invD(1) [OF inv] day_invD(2) [OF inv] at k, of True]
      day_not_expired [OF day_invD(1) [OF inv] day_invD(2) [OF inv] at k, of "rw_effect (existing_row s (w_db w) k)", unfolded same] by auto
  with first have f: "\<not> rw_completed row" "lease \<le> time_sub at (rw_claimed_at row)" "\<not> (rw_began row \<and> rw_effect row)"
    by (auto simp: decide_first_iff)
  then have "rw_began row" "\<not> rw_effect row" "kr_completed_at k = None" "lease \<le> time_sub at (kr_claimed_at k)"
    using r h by auto
  with row h e show False
    by (auto simp: resolved_row_def resolve_effect_def Let_def split: if_splits)
qed

subsection \<open>Every step keeps the invariant\<close>

lemma holds_key_cong:
  assumes "fmlookup (db_keys (w_db w')) i = fmlookup (db_keys (w_db w)) i"
    "fmlookup (db_effects (w_db w')) i = fmlookup (db_effects (w_db w)) i"
  shows "holds_key w' i c b = holds_key w i c b"
  using assms by (simp add: holds_key_def)

lemma claims_keep_inv:
  assumes inv: "day_inv t0 w" and f: "fenced s" and new: "ev_claim env \<notin> w_used w"
    and at: "t0 \<le> trunc_us at" "at < t0 + retention"
    and lock: "ev_lock_free env \<longrightarrow> identity_of s \<notin> fst ` set (w_marked w)"
    and r: "pg_claim env s at (w_db w) = (db', r)"
    and wait: "lets_run r \<longrightarrow> identity_of s \<notin> fst ` set (w_marked w)"
  shows "day_inv t0 (w\<lparr>w_db := db', w_used := insert (ev_claim env) (w_used w)\<rparr>)"
proof (cases "lets_run r")
  case False
  with pg_claim_keeps [OF r] have "db' = w_db w" by simp
  with inv show ?thesis by (fastforce simp: day_inv_def keys_inv_def holds_key_def)
next
  case True
  let ?i = "identity_of s"
  have "kr_claim k \<noteq> ev_claim env" if "fmlookup (db_keys (w_db w)) ?i = Some k" for k
    using keys_invD(2) [OF day_invD(1) [OF inv] that] new by auto
  from pg_claim_runs [OF r True this] obtain ref started where
    db': "db' = fence s (ev_claim env) (ev_clock env)
        ((w_db w)\<lparr>db_keys := fmupd ?i (fresh_key_row s (ev_claim env) (trunc_us at) ref started) (db_keys (w_db w))\<rparr>)" and
    ex: "case fmlookup (db_keys (w_db w)) ?i of None \<Rightarrow> True
       | Some k \<Rightarrow> (\<exists>row. resolved_row env s (trunc_us at) (w_db w) k = Some row
           \<and> v_kind (decide (Some row) s (trunc_us at) (ev_claim env) lease retention) = First)"
    by blast
  have tr: "trunc_us at < t0 + retention" using at(2) trunc_us_le [of at] by linarith
  have nd: "?i \<notin> fst ` set (w_done w)"
  proof (cases "fmlookup (db_keys (w_db w)) ?i")
    case None
    then show ?thesis using day_invD(6) [OF inv] by (fastforce simp: holds_key_def)
  next
    case (Some k)
    with ex day_takeover [OF inv tr lock Some] show ?thesis by auto
  qed
  have nm: "?i \<notin> fst ` set (w_marked w)" using wait True by simp
  let ?w = "w\<lparr>w_db := db', w_used := insert (ev_claim env) (w_used w)\<rparr>"
  have keys: "fmlookup (db_keys (w_db ?w)) i = (if i = ?i then Some (fresh_key_row s (ev_claim env) (trunc_us at) ref started)
      else fmlookup (db_keys (w_db w)) i)"
    and effs: "fmlookup (db_effects (w_db ?w)) i = (if i = ?i then Some \<lparr>ef_claim = ev_claim env, ef_committed = False, ef_applied_at = ev_clock env\<rparr>
      else fmlookup (db_effects (w_db w)) i)"
    and ops: "db_operations (w_db ?w) = db_operations (w_db w)" for i
    using f by (simp_all add: db')
  have hold: "i \<noteq> ?i \<Longrightarrow> holds_key ?w i c b = holds_key w i c b" for i c b
    by (rule holds_key_cong) (simp_all only: keys effs if_False)
  have "keys_inv t0 ?w"
    using day_invD(1) [OF inv] at(1) unfolding keys_inv_def keys effs by (auto simp: fresh_key_row_def)
  moreover have "\<And>i c. (i, c) \<in> set (w_marked w) \<Longrightarrow> holds_key ?w i c False"
    "\<And>i c. (i, c) \<in> set (w_done w) \<Longrightarrow> holds_key ?w i c True"
    using nm nd hold day_invD(4,6) [OF inv] by (metis fst_conv image_eqI)+
  moreover have "\<And>i e. fmlookup (db_effects (w_db ?w)) i = Some e \<Longrightarrow> ef_committed e \<Longrightarrow> i \<in> fst ` set (w_done w)"
    unfolding effs using day_invD(7) [OF inv] by (auto split: if_splits)
  moreover have "\<And>i c. (i, c) \<in> set (w_admitted w) \<Longrightarrow> c \<in> insert (ev_claim env) (w_used w) \<and> (i, c) \<notin> set (w_done w) \<and> (i, c) \<notin> set (w_marked w)
        \<and> (\<exists>k. fmlookup (db_keys (w_db ?w)) i = Some k \<and> (kr_claim k = c \<longrightarrow> kr_began k))"
    unfolding keys using day_invD(8) [OF inv] new by (fastforce simp: fresh_key_row_def)
  ultimately show ?thesis
    using day_invD(2,3,5) [OF inv] ops unfolding day_inv_def by simp
qed

lemma begins_keep_inv:
  assumes inv: "day_inv t0 w" and r: "pg_begin s c (w_db w) = (db', None)"
  shows "day_inv t0 (w\<lparr>w_db := db', w_admitted := (identity_of s, c) # w_admitted w\<rparr>)"
proof -
  let ?i = "identity_of s"
  from r obtain k where k: "fmlookup (db_keys (w_db w)) ?i = Some k" "kr_claim k = c" "\<not> kr_began k"
    and db': "db' = (w_db w)\<lparr>db_keys := fmupd ?i (k\<lparr>kr_began := True\<rparr>) (db_keys (w_db w))\<rparr>"
    by (auto simp: pg_begin_def split: option.splits if_splits)
  let ?w = "w\<lparr>w_db := db', w_admitted := (?i, c) # w_admitted w\<rparr>"
  have keys: "fmlookup (db_keys (w_db ?w)) i = (if i = ?i then Some (k\<lparr>kr_began := True\<rparr>) else fmlookup (db_keys (w_db w)) i)"
    and effs: "db_effects (w_db ?w) = db_effects (w_db w)" and ops: "db_operations (w_db ?w) = db_operations (w_db w)" for i
    by (simp_all add: db')
  have hold: "holds_key w i d b \<Longrightarrow> holds_key ?w i d b" for i d b
    unfolding holds_key_def keys effs using k by (auto split: if_splits)
  have not_done: "(?i, c) \<notin> set (w_done w)" "(?i, c) \<notin> set (w_marked w)"
    using day_invD(4,6) [OF inv, of ?i c] k by (auto simp: holds_key_def)
  have "keys_inv t0 ?w"
    unfolding keys_inv_def keys effs using keys_invD [OF day_invD(1) [OF inv]] k by (auto split: if_splits)
  moreover have "kr_claim k \<in> w_used w" by (rule keys_invD(2) [OF day_invD(1) [OF inv] k(1)])
  moreover have "\<exists>k. fmlookup (db_keys (w_db ?w)) i = Some k \<and> (kr_claim k = d \<longrightarrow> kr_began k)"
    if "(i, d) \<in> set (w_admitted ?w)" for i d
    unfolding keys using that day_invD(8) [OF inv, of i d] by auto
  ultimately show ?thesis
    unfolding day_inv_def
    using day_invD(2-7) [OF inv] day_invD(8) [OF inv] hold not_done ops effs k(2) by (auto split del: if_split)
qed

lemma marks_keep_inv:
  assumes inv: "day_inv t0 w" and a: "(identity_of s, c) \<in> set (w_admitted w)"
    and free: "identity_of s \<notin> fst ` set (w_marked w)" and m: "snd (pg_mark s c clock (w_db w)) = None"
  shows "day_inv t0 (w\<lparr>w_admitted := removeAll (identity_of s, c) (w_admitted w),
                         w_marked := (identity_of s, c) # w_marked w\<rparr>)"
proof -
  let ?i = "identity_of s"
  from day_invD(8) [OF inv a] obtain k where k: "fmlookup (db_keys (w_db w)) ?i = Some k" "kr_claim k = c \<longrightarrow> kr_began k"
    "(?i, c) \<notin> set (w_done w)" by auto
  from keys_invD(3) [OF day_invD(1) [OF inv] k(1)] obtain e where e: "fmlookup (db_effects (w_db w)) ?i = Some e"
    "ef_claim e = kr_claim k" by auto
  with m have c: "ef_claim e = c" by (auto simp: pg_mark_def Let_def split: if_splits)
  have "\<not> ef_committed e"
  proof
    assume "ef_committed e"
    with day_invD(7) [OF inv e(1)] obtain d where d: "(?i, d) \<in> set (w_done w)" by auto
    from day_invD(6) [OF inv d] k(1) have "kr_claim k = d" by (auto simp: holds_key_def)
    with d k(3) e(2) c show False by simp
  qed
  with k e c have h: "holds_key w ?i c False" by (auto simp: holds_key_def)
  let ?w = "w\<lparr>w_admitted := removeAll (?i, c) (w_admitted w), w_marked := (?i, c) # w_marked w\<rparr>"
  have hold: "holds_key ?w i d b = holds_key w i d b" for i d b by (simp add: holds_key_def)
  show ?thesis
    using day_invD(1-3,5,7) [OF inv] day_invD(4,6,8) [OF inv] h free
    unfolding day_inv_def hold by (auto simp: keys_inv_def)
qed

lemma commits_keep_inv:
  assumes inv: "day_inv t0 w" and m: "(identity_of s, c) \<in> set (w_marked w)"
    and r: "pg_mark s c clock (w_db w) = (db', e')"
  shows "day_inv t0 (w\<lparr>w_db := db', w_marked := removeAll (identity_of s, c) (w_marked w),
                         w_done := (identity_of s, c) # w_done w\<rparr>)"
proof -
  let ?i = "identity_of s"
  from day_invD(4) [OF inv m] obtain k e where k: "fmlookup (db_keys (w_db w)) ?i = Some k" "kr_claim k = c" "kr_began k"
    "fmlookup (db_effects (w_db w)) ?i = Some e" "\<not> ef_committed e" by (auto simp: holds_key_def)
  from keys_invD(3) [OF day_invD(1) [OF inv] k(1)] k have e: "ef_claim e = c" by auto
  let ?new = "\<lparr>ef_claim = c, ef_committed = True, ef_applied_at = clock\<rparr>"
  have db': "db' = (w_db w)\<lparr>db_effects := fmupd ?i ?new (db_effects (w_db w))\<rparr>"
    using r k(4) e by (simp add: pg_mark_def Let_def)
  have not_done: "?i \<notin> fst ` set (w_done w)"
  proof
    assume "?i \<in> fst ` set (w_done w)"
    then obtain d where "(?i, d) \<in> set (w_done w)" by auto
    from day_invD(6) [OF inv this] k(4,5) show False by (auto simp: holds_key_def)
  qed
  have only: "d = c" if "(?i, d) \<in> set (w_marked w)" for d
    using distinct_fst_one [OF day_invD(3) [OF inv] that m] .
  let ?w = "w\<lparr>w_db := db', w_marked := removeAll (?i, c) (w_marked w), w_done := (?i, c) # w_done w\<rparr>"
  have keys: "db_keys (w_db ?w) = db_keys (w_db w)" and ops: "db_operations (w_db ?w) = db_operations (w_db w)"
    and effs: "fmlookup (db_effects (w_db ?w)) i = (if i = ?i then Some ?new else fmlookup (db_effects (w_db w)) i)" for i
    by (simp_all add: db')
  have hold: "i \<noteq> ?i \<Longrightarrow> holds_key ?w i d b = holds_key w i d b" for i d b
    by (rule holds_key_cong) (simp_all only: keys effs if_False)
  have here: "holds_key ?w ?i c True" unfolding holds_key_def keys effs using k by simp
  show ?thesis
  proof (rule day_invI)
    show "keys_inv t0 ?w"
      unfolding keys_inv_def keys effs using keys_invD [OF day_invD(1) [OF inv]] k e by auto
    show "day_receipts t0 (db_operations (w_db ?w))" unfolding ops by (rule day_invD(2) [OF inv])
    show "distinct (map fst (w_marked ?w))"
      using day_invD(3) [OF inv] by (simp add: distinct_map_filter removeAll_filter_not_eq)
    show "distinct (map fst (w_done ?w))" using day_invD(5) [OF inv] not_done by simp
  next
    fix i d
    assume m': "(i, d) \<in> set (w_marked ?w)"
    then have "i \<noteq> ?i" using only by auto
    with day_invD(4) [OF inv, of i d] m' hold show "holds_key ?w i d False" by auto
  next
    fix i d
    assume "(i, d) \<in> set (w_done ?w)"
    then have "(i, d) = (?i, c) \<or> (i, d) \<in> set (w_done w)" by auto
    moreover have "(i, d) \<in> set (w_done w) \<Longrightarrow> i \<noteq> ?i" using not_done by force
    ultimately show "holds_key ?w i d True" using here hold day_invD(6) [OF inv, of i d] by blast
  next
    fix i x
    assume "fmlookup (db_effects (w_db ?w)) i = Some x" "ef_committed x"
    then show "i \<in> fst ` set (w_done ?w)"
      using day_invD(7) [OF inv, of i x] unfolding effs by (auto split: if_splits)
  next
    fix i d
    assume a: "(i, d) \<in> set (w_admitted ?w)"
    then have "(i, d) \<in> set (w_admitted w)" by simp
    from day_invD(8) [OF inv this] m keys show "d \<in> w_used ?w \<and> (i, d) \<notin> set (w_done ?w) \<and> (i, d) \<notin> set (w_marked ?w)
        \<and> (\<exists>k. fmlookup (db_keys (w_db ?w)) i = Some k \<and> (kr_claim k = d \<longrightarrow> kr_began k))"
      by auto
  qed
qed

lemma rewritten_keeps_inv:
  assumes inv: "day_inv t0 w" and k: "fmlookup (db_keys (w_db w)) i = Some k"
    and k': "kr_claim k' = kr_claim k" "kr_began k' = kr_began k" "kr_claimed_at k' = kr_claimed_at k"
  shows "day_inv t0 (w\<lparr>w_db := (w_db w)\<lparr>db_keys := fmupd i k' (db_keys (w_db w))\<rparr>\<rparr>)"
proof -
  let ?w = "w\<lparr>w_db := (w_db w)\<lparr>db_keys := fmupd i k' (db_keys (w_db w))\<rparr>\<rparr>"
  have hold: "holds_key ?w j c b = holds_key w j c b" for j c b
    using k k' by (auto simp: holds_key_def)
  have "keys_inv t0 ?w"
    unfolding keys_inv_def using keys_invD [OF day_invD(1) [OF inv]] k k' by auto
  then show ?thesis
  proof (rule day_invI)
    fix j c
    assume "(j, c) \<in> set (w_admitted ?w)"
    then show "c \<in> w_used ?w \<and> (j, c) \<notin> set (w_done ?w) \<and> (j, c) \<notin> set (w_marked ?w)
        \<and> (\<exists>k. fmlookup (db_keys (w_db ?w)) j = Some k \<and> (kr_claim k = c \<longrightarrow> kr_began k))"
      using day_invD(8) [OF inv, of j c] k k' by (cases "j = i") auto
  qed (use day_invD(2,3,5) [OF inv] day_invD(4,6,7) [OF inv] hold in simp_all)
qed

lemma purges_keep_inv:
  assumes inv: "day_inv t0 w" and at: "at < t0 + retention"
  shows "day_inv t0 (w\<lparr>w_db := purge_at at (w_db w)\<rparr>)"
proof -
  let ?w = "w\<lparr>w_db := purge_at at (w_db w)\<rparr>"
  have no: "\<not> key_purged at (w_db w) i k" if "fmlookup (db_keys (w_db w)) i = Some k" for i k
    using keys_invD(1) [OF day_invD(1) [OF inv] that] at by (simp add: key_purged_def)
  have doomed: "ffilter (\<lambda>i. case fmlookup (db_keys (w_db w)) i of None \<Rightarrow> False | Some k \<Rightarrow> key_purged at (w_db w) i k)
      (fmdom (db_keys (w_db w))) = {||}"
    using no by (fastforce split: option.splits)
  have keys: "db_keys (w_db ?w) = db_keys (w_db w)"
    by (simp add: purge_at_def Let_def doomed)
  have effs: "fmlookup (db_effects (w_db ?w)) i = fmlookup (db_effects (w_db w)) i"
    if "fmlookup (db_keys (w_db w)) i = Some k" for i k
    using that by (simp add: purge_at_def Let_def doomed fmdomI)
  have effs_sub: "fmlookup (db_effects (w_db ?w)) i = Some e \<Longrightarrow> fmlookup (db_effects (w_db w)) i = Some e" for i e
    by (auto simp: purge_at_def Let_def split: if_splits)
  have ops: "fmlookup (db_operations (w_db ?w)) i = Some o' \<Longrightarrow> fmlookup (db_operations (w_db w)) i = Some o'" for i o'
    by (auto simp: purge_at_def Let_def split: if_splits)
  have hold: "holds_key ?w i c b \<longleftrightarrow> holds_key w i c b" for i c b
    unfolding holds_key_def keys using effs by auto
  show ?thesis
  proof (rule day_invI)
    show "keys_inv t0 ?w"
      unfolding keys_inv_def keys using keys_invD [OF day_invD(1) [OF inv]] effs by fastforce
    show "day_receipts t0 (db_operations (w_db ?w))"
      using day_invD(2) [OF inv] ops unfolding day_receipts_def by blast
  next
    fix i e
    assume "fmlookup (db_effects (w_db ?w)) i = Some e" "ef_committed e"
    with effs_sub day_invD(7) [OF inv] show "i \<in> fst ` set (w_done ?w)" by simp
  qed (use day_invD(3,5) [OF inv] day_invD(4,6,8) [OF inv] keys hold in simp_all)
qed

lemma day_step_keeps_inv:
  assumes "day_step t0 w w'" "day_inv t0 w"
  shows "day_inv t0 w'"
  using assms
proof (cases rule: day_step.cases)
  case (claims s env at db' r)
  then show ?thesis using claims_keep_inv [OF assms(2)] by simp
next
  case (begins s c db')
  then show ?thesis using begins_keep_inv [OF assms(2)] by simp
next
  case (marks s c clock)
  then show ?thesis using marks_keep_inv [OF assms(2)] by simp
next
  case (refuses s c clock)
  then show ?thesis using assms(2) by (auto simp: day_inv_def keys_inv_def holds_key_def)
next
  case (commits s c clock db' e)
  then show ?thesis using commits_keep_inv [OF assms(2)] by simp
next
  case (rolls_back i c)
  have "distinct (map fst (removeAll (i, c) (w_marked w)))"
    using day_invD(3) [OF assms(2)] by (simp add: distinct_map_filter removeAll_filter_not_eq)
  with rolls_back show ?thesis using assms(2) by (auto simp: day_inv_def keys_inv_def holds_key_def)
next
  case (completes s c a at db' e)
  show ?thesis
  proof (cases e)
    case None
    with completes obtain k where k: "fmlookup (db_keys (w_db w)) (identity_of s) = Some k"
      "db' = (w_db w)\<lparr>db_keys := fmupd (identity_of s) (completed_row a at k) (db_keys (w_db w))\<rparr>"
      by (auto simp: pg_complete_def split: option.splits if_splits)
    show ?thesis unfolding completes(1) k(2)
      by (rule rewritten_keeps_inv [OF assms(2) k(1)]) (simp_all add: completed_row_def)
  next
    case (Some x)
    with completes have "db' = w_db w" by (auto simp: pg_complete_def split: option.splits if_splits)
    with completes assms(2) show ?thesis by (simp add: day_inv_def keys_inv_def holds_key_def)
  qed
next
  case (receipts ops)
  then show ?thesis using assms(2) by (auto simp: day_inv_def keys_inv_def holds_key_def)
next
  case (purges at)
  then show ?thesis using purges_keep_inv [OF assms(2)] by simp
qed

lemma day_reaches_inv: "day_reaches t0 w w' \<Longrightarrow> day_inv t0 w \<Longrightarrow> day_inv t0 w'"
  unfolding day_reaches_def by (induction rule: rtranclp_induct) (auto intro: day_step_keeps_inv)

end
