(* ===== verification/IdempotencyProperties.thy ===== *)
theory IdempotencyProperties
  imports ClaimStore CommandOnce
begin

section \<open>What a remembered write is worth\<close>

text \<open>
  The properties of \<open>kit/idempotency\<close>: a keyed command commits once, what a retry is answered,
  how a receipt's outcome moves, and where the two stores agree and where they do not.
\<close>

definition demo_scope :: scope where
  "demo_scope = \<lparr>sc_tenant = 7, sc_caller = 9, sc_method = ''POST'', sc_route = ''/orders'', sc_key = ''k1'',
     sc_fingerprint = ''fp'', sc_track = False\<rparr>"

definition demo_env :: "uuid \<Rightarrow> attempt_env" where
  "demo_env c = \<lparr>ev_claim = c, ev_ref = 99, ev_clock = 0, ev_lock_free = True\<rparr>"

definition demo_answer :: answer where
  "demo_answer = \<lparr>an_status = 201, an_content_type = ''text/plain'', an_body = ''ok'', an_headers = [(''Location'', ''/orders/1'')],
     an_limits = []\<rparr>"

lemma demo_good: "good_scope demo_scope" "fenced demo_scope"
  by (simp_all add: good_scope_def good_identity_def identity_of_def fenced_def demo_scope_def)

text \<open>
  C15: Within a day of its first claim a key's command commits at most once, however its
  attempts, their transactions, the lapses of their leases, the purge and the receipts'
  transitions interleave: every key that has a committed transaction has exactly one, it is
  that of the claim the record still names, and its mark is there.
\<close>

theorem keyed_command_commits_once:
  assumes "day_receipts t0 ops" "day_reaches t0 (new_world ops) w"
  shows "distinct (map fst (w_done w))
    \<and> (\<forall>(i, c) \<in> set (w_done w). holds_key w i c True)"
  using day_reaches_inv [OF assms(2) day_inv_new [OF assms(1)]] by (auto simp: day_inv_def)

theorem keyed_command_commits_once_witness:
  "\<exists>w. day_reaches microsecond (new_world fmempty) w \<and> w_done w = [(identity_of demo_scope, 5)]
     \<and> distinct (map fst (w_done w))"
proof -
  let ?t0 = microsecond
  let ?i = "identity_of demo_scope"
  obtain w1 where 1: "day_step ?t0 (new_world fmempty) w1"
    and w1: "w_db w1 = fst (pg_claim (demo_env 5) demo_scope ?t0 (empty_db fmempty))" "w_marked w1 = []" "w_done w1 = []" "w_admitted w1 = []"
  proof
    show "day_step ?t0 (new_world fmempty) ((new_world fmempty)\<lparr>w_db := fst (pg_claim (demo_env 5) demo_scope ?t0 (empty_db fmempty)),
        w_used := insert (ev_claim (demo_env 5)) (w_used (new_world fmempty))\<rparr>)"
      by (rule day_step.claims [where s = demo_scope and at = ?t0 and r = "snd (pg_claim (demo_env 5) demo_scope ?t0 (empty_db fmempty))"])
        (simp_all add: demo_good new_world_def empty_db_def trunc_us_def retention_def duration_defs)
  qed (simp_all add: new_world_def)
  have k1: "fst (pg_claim (demo_env 5) demo_scope ?t0 (empty_db fmempty)) =
      \<lparr>db_keys = fmupd ?i (fresh_key_row demo_scope 5 ?t0 None None) fmempty,
       db_effects = fmupd ?i \<lparr>ef_claim = 5, ef_committed = False, ef_applied_at = 0\<rparr> fmempty, db_operations = fmempty\<rparr>"
    by (simp add: pg_claim_def Let_def demo_env_def empty_db_def fence_def demo_good trunc_us_def microsecond_def valid_claim_def
        demo_scope_def nullable_uuid_def fenced_def)
  obtain w2 where 2: "day_step ?t0 w1 w2"
    and w2: "db_effects (w_db w2) = db_effects (w_db w1)" "w_marked w2 = []" "w_done w2 = []" "w_admitted w2 = [(?i, 5)]"
  proof
    show "day_step ?t0 w1 (w1\<lparr>w_db := fst (pg_begin demo_scope 5 (w_db w1)), w_admitted := (?i, 5) # w_admitted w1\<rparr>)"
      by (rule day_step.begins [OF demo_good(2)]) (simp add: w1 k1 pg_begin_def fresh_key_row_def)
    show "db_effects (w_db (w1\<lparr>w_db := fst (pg_begin demo_scope 5 (w_db w1)), w_admitted := (?i, 5) # w_admitted w1\<rparr>)) = db_effects (w_db w1)"
      by (simp add: pg_begin_def split: option.split)
  qed (simp_all add: w1)
  have m: "snd (pg_mark demo_scope 5 0 (w_db w2)) = None"
    by (simp add: pg_mark_def Let_def w2 w1 k1)
  obtain w3 where 3: "day_step ?t0 w2 w3" and w3: "w_marked w3 = [(?i, 5)]" "w_done w3 = []"
  proof
    show "day_step ?t0 w2 (w2\<lparr>w_admitted := removeAll (?i, 5) (w_admitted w2), w_marked := (?i, 5) # w_marked w2\<rparr>)"
      by (rule day_step.marks [OF demo_good(2) _ _ m]) (simp_all add: w2)
  qed (simp_all add: w2)
  obtain w4 where 4: "day_step ?t0 w3 w4" and w4: "w_done w4 = [(?i, 5)]"
  proof
    show "day_step ?t0 w3 (w3\<lparr>w_db := fst (pg_mark demo_scope 5 0 (w_db w3)), w_marked := removeAll (?i, 5) (w_marked w3), w_done := (?i, 5) # w_done w3\<rparr>)"
      by (rule day_step.commits [where e = "snd (pg_mark demo_scope 5 0 (w_db w3))" and clock = 0]) (simp_all add: w3)
  qed (simp add: w3)
  have r: "day_reaches ?t0 (new_world fmempty) w4"
    unfolding day_reaches_def using 1 2 3 4 by (meson rtranclp.rtrancl_into_rtrancl rtranclp.rtrancl_refl)
  from keyed_command_commits_once [OF _ r] w4 r show ?thesis by (auto simp: day_receipts_def)
qed

text \<open>
  C16: A caller of the store cannot tell memory from Postgres: over the same receipts the same claims,
  begins, marks and completions are given the same answers (the start of an untracked claim aside,
  which nobody reads), for the scopes \<open>kit/httpx\<close> claims in a tenant and with attempts that do not
  overlap.  That is \<open>calls_good\<close>: each scope has a tenant, a tracked one a method other than COMMAND,
  and no space in its method or route; each claim mints an identifier of its own and finds the
  advisory lock free; each mark is on a key that has a record; and memory stays under its ten thousand
  records.
\<close>

theorem claim_stores_agree:
  assumes "uuid_spelling us" "sql_view tbl = fmlookup ops" "\<And>t. fmlookup ops (t, uuid_nil) = None"
    "length cs \<le> idem_max_tracked" "calls_good (fmlookup ops) {} (\<lambda>_. None) cs"
  shows "claim_run (mem_claims us now) cs (empty_memory ops) = claim_run pg_claims cs (empty_db tbl)"
proof -
  note m = claim_store.run_spec [OF mem_claim_store_of [OF assms(1)] mem_ready_empty [OF refl assms(3,4)]]
  note p = pg_claim_store.run_spec [OF pg_ready_empty [OF assms(2)]]
  from m [of "{}" now] p [of "{}" cs] assms(5) show ?thesis by (simp add: records_empty)
qed

theorem claim_stores_agree_witness:
  "claim_run (mem_claims uuid_text 0) [ClaimCall (demo_env 5) demo_scope 1000, BeginCall demo_scope 5, MarkCall demo_scope 5 1500,
       ClaimCall (demo_env 6) demo_scope 2000] (empty_memory fmempty)
   = claim_run pg_claims [ClaimCall (demo_env 5) demo_scope 1000, BeginCall demo_scope 5, MarkCall demo_scope 5 1500,
       ClaimCall (demo_env 6) demo_scope 2000] (empty_db fmempty)"
proof (rule claim_stores_agree [OF uuid_text_spelling])
  show "calls_good (fmlookup (fmempty :: operation_map)) {} (\<lambda>_. None) [ClaimCall (demo_env 5) demo_scope 1000, BeginCall demo_scope 5,
      MarkCall demo_scope 5 1500, ClaimCall (demo_env 6) demo_scope 2000]"
    by (simp add: demo_good demo_env_def microsecond_def valid_claim_def demo_scope_def spec_claim_def spec_begin_def
        good_scope_def good_identity_def identity_of_def fenced_def Let_def decide_def a_verdict_def claimed_row_def plain_row_def trunc_us_def)
qed (simp_all add: idem_max_tracked_def sql_view_def fun_eq_iff)

text \<open>
  C17: A write that was answered does not run again while its key lives: an attempt of the same write,
  tracked by a receipt or not, is given the recorded answer, status, type, body, headers and limits as
  they were, and one of another write under the key is told so; where no answer was recorded, or a
  day has passed since a tracked key's start, it is told the key is spent; and the store is left as it
  was.  Only a key that expired lets the attempt run: an untracked one a day after its claim, a tracked one a
  day after its receipt's outcome.
\<close>

theorem answered_key_replays:
  assumes "fmlookup (db_keys db) (identity_of s) = Some k" "pg_complete s c a at db = (db1, None)"
    "identity_of s' = identity_of s" "ev_claim env \<noteq> c" "valid_claim s' (trunc_us at')" "trunc_us at' \<noteq> 0"
  shows "\<exists>db2 v. pg_claim env s' at' db1 = (db2, Inr v)
    \<and> (if claim_expired (existing_row s db k) (trunc_us at') retention then v_kind v = First
       else db2 = db1 \<and>
         (if sc_fingerprint s' \<noteq> kr_fingerprint k then v_kind v = ConflictBody
          else if rw_ref (read_claim k) \<noteq> uuid_nil \<and> retention \<le> time_sub (trunc_us at') (rw_started (read_claim k)) \<or> an_status a = 0
          then v_kind v = Spent
          else v_kind v = Replay \<and> v_stored v = a))"
  by (rule completed_key [OF assms])

theorem answered_key_replays_witness:
  "\<exists>v. pg_claim (demo_env 6) demo_scope 5000 (fst (pg_complete demo_scope 5 demo_answer 2000
         (fst (pg_claim (demo_env 5) demo_scope 1000 (empty_db fmempty)))))
       = (fst (pg_complete demo_scope 5 demo_answer 2000 (fst (pg_claim (demo_env 5) demo_scope 1000 (empty_db fmempty)))), Inr v)
     \<and> v_kind v = Replay \<and> v_stored v = demo_answer"
proof -
  let ?db = "fst (pg_claim (demo_env 5) demo_scope 1000 (empty_db fmempty))"
  have db: "?db = \<lparr>db_keys = fmupd (identity_of demo_scope) (fresh_key_row demo_scope 5 1000 None None) fmempty,
       db_effects = fmupd (identity_of demo_scope) \<lparr>ef_claim = 5, ef_committed = False, ef_applied_at = 0\<rparr> fmempty, db_operations = fmempty\<rparr>"
    by (simp add: pg_claim_def Let_def demo_env_def empty_db_def fence_def demo_good trunc_us_def microsecond_def valid_claim_def
        demo_scope_def nullable_uuid_def fenced_def)
  have k: "fmlookup (db_keys ?db) (identity_of demo_scope) = Some (fresh_key_row demo_scope 5 1000 None None)" by (simp add: db)
  have c: "pg_complete demo_scope 5 demo_answer 2000 ?db = (fst (pg_complete demo_scope 5 demo_answer 2000 ?db), None)"
    by (simp add: pg_complete_def db fresh_key_row_def)
  from answered_key_replays [OF k c refl, of "demo_env 6" 5000]
  show ?thesis
    by (simp add: demo_answer_def demo_env_def valid_claim_def demo_scope_def trunc_us_def microsecond_def time_sub_def
        min_duration_def max_duration_def retention_def duration_defs fresh_key_row_def claim_expired_def read_claim_def)
qed

text \<open>
  C18: A write that did not happen may be made again: when the lease of an unanswered attempt has
  passed, its transaction is over and its fence is unmarked, the next attempt of the same write is let
  in with a claim of its own, a tracked one under the receipt it had.  A tracked key refuses it, as
  spent, in two cases: its receipt already says an outcome of an attempt that began, or a day has passed since
  its start (and it has not expired, which lets the attempt in under a new receipt).
\<close>

theorem rolled_back_write_is_retried:
  assumes "fmlookup (db_keys db) (identity_of s) = Some k" "kr_completed_at k = None"
    "kr_fingerprint k = sc_fingerprint s" "fmlookup (db_effects db) (identity_of s) = Some e" "ef_claim e = kr_claim k"
    "\<not> ef_committed e" "ev_lock_free env" "ev_claim env \<noteq> kr_claim k" "valid_claim s (trunc_us at)" "trunc_us at \<noteq> 0"
    "lease \<le> time_sub (trunc_us at) (kr_claimed_at k)"
  shows "\<exists>db' v. pg_claim env s at db = (db', Inr v)
    \<and> (if \<not> claim_expired (existing_row s db k) (trunc_us at) retention
          \<and> (rw_ref (read_claim k) \<noteq> uuid_nil \<and> retention \<le> time_sub (trunc_us at) (rw_started (read_claim k))
             \<or> kr_began k \<and> known_outcome (existing_row s db k))
       then v_kind v = Spent \<and> db' = db
       else v_kind v = First \<and> v_claim v = ev_claim env
         \<and> (\<not> claim_expired (existing_row s db k) (trunc_us at) retention \<longrightarrow> v_ref v = rw_ref (read_claim k))
         \<and> (\<exists>k'. fmlookup (db_keys db') (identity_of s) = Some k' \<and> kr_claim k' = ev_claim env))"
  by (rule unmarked_key [OF assms])

theorem rolled_back_write_is_retried_witness:
  "\<exists>db' v. pg_claim (demo_env 6) demo_scope (1000 + lease) (fst (pg_begin demo_scope 5 (fst (pg_claim (demo_env 5) demo_scope 1000 (empty_db fmempty)))))
     = (db', Inr v) \<and> v_kind v = First \<and> v_claim v = 6"
proof -
  let ?db = "fst (pg_begin demo_scope 5 (fst (pg_claim (demo_env 5) demo_scope 1000 (empty_db fmempty))))"
  have db0: "fst (pg_claim (demo_env 5) demo_scope 1000 (empty_db fmempty)) = \<lparr>db_keys = fmupd (identity_of demo_scope) (fresh_key_row demo_scope 5 1000 None None) fmempty,
       db_effects = fmupd (identity_of demo_scope) \<lparr>ef_claim = 5, ef_committed = False, ef_applied_at = 0\<rparr> fmempty, db_operations = fmempty\<rparr>"
    by (simp add: pg_claim_def Let_def demo_env_def empty_db_def fence_def demo_good trunc_us_def microsecond_def valid_claim_def
        demo_scope_def nullable_uuid_def fenced_def)
  have db: "fmlookup (db_keys ?db) (identity_of demo_scope) = Some ((fresh_key_row demo_scope 5 1000 None None)\<lparr>kr_began := True\<rparr>)"
    "fmlookup (db_effects ?db) (identity_of demo_scope) = Some \<lparr>ef_claim = 5, ef_committed = False, ef_applied_at = 0\<rparr>"
    by (simp_all add: db0 pg_begin_def fresh_key_row_def)
  from rolled_back_write_is_retried [OF db(1) _ _ db(2), of "demo_env 6" "1000 + lease"]
  show ?thesis
    by (simp add: demo_env_def valid_claim_def demo_scope_def trunc_us_def microsecond_def time_sub_def
        min_duration_def max_duration_def lease_def duration_defs fresh_key_row_def known_outcome_def existing_row_def read_claim_def Let_def) blast
qed

text \<open>
  C19: The receipts of operations are the same whoever holds them: the same reservations, reads
  and transitions are answered alike by the table and by the map.
\<close>

theorem receipt_stores_agree:
  "snd (receipt_run (sql_receipts us parse) cs fmempty) = snd (receipt_run (mem_receipts us parse) cs fmempty)"
  using sql.run_spec [of fmempty us parse cs] mem_rc.run_spec [of fmempty us parse cs] by (simp add: views_empty_receipts)

text \<open>
  C20: An outcome is said once: after any calls on an empty table, a receipt whose outcome is
  terminal is the same after any further calls, and every receipt has changed at most twice,
  its revision counting the changes.
\<close>

theorem receipt_outcome_is_final:
  assumes "fmlookup (fst (receipt_run (sql_receipts us parse) cs fmempty)) (tenant, ref) = Some row"
  shows "or_revision row \<in> {1, 2, 3}
    \<and> (or_outcome row \<in> {Some Succeeded, Some Failed} \<longrightarrow>
        map_option receipt_of (fmlookup (fst (receipt_run (sql_receipts us parse) (cs @ ds) fmempty)) (tenant, ref)) = Some (receipt_of row))"
proof -
  have e: "receipts_ok (sql_view fmempty)" by (simp add: views_empty_receipts)
  have v: "sql_view (fst (receipt_run (sql_receipts us parse) cs fmempty)) (tenant, ref) = Some (receipt_of row)"
    using assms by (simp add: sql_view_def)
  have "receipts_ok (sql_view (fst (receipt_run (sql_receipts us parse) cs fmempty)))" by (rule sql.run_ok [OF e])
  with v have "receipt_ok (receipt_of row)" unfolding receipts_ok_def by blast
  then have r: "or_revision row \<in> {1, 2, 3}"
    by (auto simp: receipt_ok_def receipt_of_def split: option.splits outcome.splits)
  have "settled (receipt_of row)" if "or_outcome row \<in> {Some Succeeded, Some Failed}"
    using that by (auto simp: settled_def receipt_of_def)
  from sql.run_keeps [OF e v this, of ds] r show ?thesis by (auto simp: sql_view_def)
qed

theorem receipt_outcome_is_final_witness:
  "or_revision (reserved_row \<lparr>rc_ref = 3, rc_ident = ''op'', rc_tenant = 7, rc_caller = 9, rc_person = 0, rc_method = ''POST'',
      rc_route = ''/x'', rc_outcome = Unknown, rc_revision = 1, rc_started = 1000, rc_outcome_at = 0\<rparr>) \<in> {1, 2, 3}"
proof -
  let ?r = "\<lparr>rc_ref = 3, rc_ident = ''op'', rc_tenant = 7, rc_caller = 9, rc_person = 0, rc_method = ''POST'',
      rc_route = ''/x'', rc_outcome = Unknown, rc_revision = 1, rc_started = 1000, rc_outcome_at = 0\<rparr> :: receipt"
  have t: "reservation_time ?r = ?r" by (simp add: reservation_time_def trunc_us_def microsecond_def)
  have tok: "valid_token ''op''" by code_simp
  have v: "valid_reservation ?r 7" using tok by (simp add: valid_reservation_def)
  have f: "ro_reserve (sql_receipts uuid_text (\<lambda>_. None)) = sql_reserve" by (simp add: sql_receipts_def)
  have "fmlookup (fst (receipt_run (sql_receipts uuid_text (\<lambda>_. None)) [CallReserve 7 ?r] fmempty)) (7, 3) = Some (reserved_row ?r)"
    unfolding receipt_run_Cons_fst receipt_step_fst f
    using v by (simp add: sql_reserve_def t receipt_of_reserved [OF v] Let_def split: if_splits)
  from receipt_outcome_is_final [OF this, of "[]"] show ?thesis by simp
qed

text \<open>
  Outside the scopes of \<open>calls_good\<close>, without a tenant, the two stores part: an attempt that began and stopped leaves a key that
  Postgres answers as spent for ever after its lease (no fence, so the effect counts as
  committed), while memory lets the next attempt run the write again.
\<close>

lemma stores_differ_without_tenant:
  "let s = demo_scope\<lparr>sc_tenant := uuid_nil\<rparr>;
       cs = [ClaimCall (demo_env 5) s 1000, BeginCall s 5, ClaimCall (demo_env 6) s (1000 + lease)];
       kind = (\<lambda>as. case last as of VerdictAnswer (Inr v) \<Rightarrow> Some (v_kind v) | _ \<Rightarrow> None)
   in kind (claim_run pg_claims cs (empty_db fmempty)) = Some Spent
    \<and> kind (claim_run (mem_claims uuid_text 0) cs (empty_memory fmempty)) = Some First"
  by code_simp

end
