(* ===== verification/Decimals.thy ===== *)
theory Decimals
  imports Prelude
begin

section \<open>Decimal numbers\<close>

text \<open>
  What the source uses of Go's \<open>strconv\<close>: \<open>FormatInt\<close> and \<open>ParseInt\<close> in base ten at 64
  bits, over bytes.  \<open>ParseInt\<close> takes an optional sign and at least one digit, and refuses
  what does not fit an \<open>int64\<close>.
\<close>

type_synonym bytes = string

definition digit_char :: "nat \<Rightarrow> char" where
  "digit_char d = ''0123456789'' ! d"

definition is_digit :: "char \<Rightarrow> bool" where
  "is_digit c \<longleftrightarrow> c \<in> set ''0123456789''"

definition digit_value :: "char \<Rightarrow> nat" where
  "digit_value c = length (takeWhile (\<lambda>d. d \<noteq> c) ''0123456789'')"

fun dec :: "nat \<Rightarrow> string" where
  "dec n = (if n < 10 then [digit_char n] else dec (n div 10) @ [digit_char (n mod 10)])"

declare dec.simps [simp del]

definition dec_value :: "string \<Rightarrow> nat" where
  "dec_value ds = foldl (\<lambda>n c. 10 * n + digit_value c) 0 ds"

definition format_int :: "int \<Rightarrow> string" where
  "format_int z = (if z < 0 then CHR ''-'' # dec (nat (- z)) else dec (nat z))"

definition parse_magnitude :: "bool \<Rightarrow> string \<Rightarrow> int option" where
  "parse_magnitude neg ds =
     (if ds = [] \<or> \<not> list_all is_digit ds then None
      else let v = int (dec_value ds)
           in if neg then (if v \<le> 2 ^ 63 then Some (- v) else None)
              else (if v < 2 ^ 63 then Some v else None))"

definition parse_int :: "string \<Rightarrow> int option" where
  "parse_int s =
     (case s of
        [] \<Rightarrow> None
      | c # ds \<Rightarrow> if c = CHR ''-'' then parse_magnitude True ds
                  else if c = CHR ''+'' then parse_magnitude False ds
                  else parse_magnitude False s)"

text \<open>An \<open>int64\<close> wraps around.\<close>

definition wrap64 :: "int \<Rightarrow> int" where
  "wrap64 z = (z + 2 ^ 63) mod 2 ^ 64 - 2 ^ 63"

lemma wrap64_id [simp]: "- (2 ^ 63) \<le> z \<Longrightarrow> z < 2 ^ 63 \<Longrightarrow> wrap64 z = z"
  by (simp add: wrap64_def)

subsection \<open>Reading back what was written\<close>

lemma digit_chars:
  assumes "d < 10"
  shows "is_digit (digit_char d)" "digit_value (digit_char d) = d"
proof -
  have "d \<in> {0, 1, 2, 3, 4, 5, 6, 7, 8, 9}" using assms by auto
  then show "is_digit (digit_char d)" "digit_value (digit_char d) = d"
    by (auto simp: is_digit_def digit_char_def digit_value_def)
qed

lemma dec_value_snoc: "dec_value (ds @ [c]) = 10 * dec_value ds + digit_value c"
  by (simp add: dec_value_def)

lemma dec_facts: "dec n \<noteq> [] \<and> list_all is_digit (dec n) \<and> dec_value (dec n) = n"
proof (induction n rule: dec.induct)
  case (1 n)
  show ?case
  proof (cases "n < 10")
    case True
    then show ?thesis by (simp add: dec.simps [of n] digit_chars dec_value_def)
  next
    case False
    with 1 have "dec n = dec (n div 10) @ [digit_char (n mod 10)]" "list_all is_digit (dec (n div 10))"
      "dec_value (dec (n div 10)) = n div 10"
      by (simp_all add: dec.simps [of n])
    then show ?thesis by (simp add: digit_chars dec_value_snoc)
  qed
qed

lemma digit_not_sign: "is_digit c \<Longrightarrow> c \<noteq> CHR ''-'' \<and> c \<noteq> CHR ''+'' \<and> c \<noteq> CHR 0x0A"
  by (auto simp: is_digit_def)

lemma dec_no_sign: "c \<in> set (dec n) \<Longrightarrow> c \<noteq> CHR ''-'' \<and> c \<noteq> CHR ''+'' \<and> c \<noteq> CHR 0x0A"
  using dec_facts [of n] digit_not_sign by (auto simp: list_all_iff)

lemma parse_format:
  assumes "0 \<le> z" "z < 2 ^ 63"
  shows "parse_int (format_int z) = Some z"
proof -
  from dec_facts [of "nat z"] obtain c ds where d: "dec (nat z) = c # ds" by (cases "dec (nat z)") auto
  then have "c \<noteq> CHR ''-''" "c \<noteq> CHR ''+''" using dec_no_sign [of c "nat z"] by auto
  with d assms dec_facts [of "nat z"] show ?thesis
    by (simp add: parse_int_def format_int_def parse_magnitude_def)
qed

lemma parse_format_neg:
  assumes "z < 0" "- (2 ^ 63) \<le> z"
  shows "parse_int (format_int z) = Some z"
  using assms dec_facts [of "nat (- z)"] by (simp add: parse_int_def format_int_def parse_magnitude_def)

lemma format_int_no_newline: "0 \<le> z \<Longrightarrow> CHR 0x0A \<notin> set (format_int z)"
  using dec_no_sign [of "CHR 0x0A" "nat z"] by (auto simp: format_int_def)

lemma format_int_nonempty [simp]: "format_int z \<noteq> []"
  using dec_facts by (simp add: format_int_def)

end
