(* ===== verification/Cache.thy ===== *)
theory Cache
  imports Decimals "HOL-Library.Finite_Map"
begin

section \<open>The shared cache\<close>

text \<open>
  \<open>kit/cache/cache.go\<close>, \<open>appname.go\<close> and \<open>memory.go\<close>.  A scope is a tenant's namespace, a key
  one entry of it; \<open>Get\<close> answers a value with the generation its read found open, \<open>Set\<close> stamps
  a write with such a generation, \<open>Move\<close> raises the counter of the scope.  The port is written
  over any backend, a record of its four commands and its release; the one in memory follows.
  The context of a call is detached and new, so its budget is not modelled: a backend that ran
  out of it is one that answers \<open>StoreFailed\<close>.
\<close>

subsection \<open>Names\<close>

datatype slug_error = NoApplication | SlugTooLong | DashMisplaced | NotInGrammar char

definition cache_max_name :: nat where "cache_max_name = 32"

definition slug_letter :: "char \<Rightarrow> bool" where
  "slug_letter c \<longleftrightarrow> c \<in> set ''abcdefghijklmnopqrstuvwxyz0123456789''"

text \<open>The loop of \<open>Slug\<close>: what came before the character read, if anything did.\<close>

fun slug_loop :: "char option \<Rightarrow> string \<Rightarrow> slug_error option" where
  "slug_loop prev [] = None"
| "slug_loop prev (c # cs) =
     (if slug_letter c then slug_loop (Some c) cs
      else if c = CHR ''-'' then
        (if prev = None \<or> cs = [] \<or> prev = Some (CHR ''-'') then Some DashMisplaced
         else slug_loop (Some c) cs)
      else Some (NotInGrammar c))"

definition slug_check :: "string \<Rightarrow> slug_error option" where
  "slug_check app =
     (if app = '''' then Some NoApplication
      else if length app > cache_max_name then Some SlugTooLong
      else slug_loop None app)"

definition join_address :: "(uuid \<Rightarrow> string) \<Rightarrow> string \<Rightarrow> uuid \<Rightarrow> string \<Rightarrow> string" where
  "join_address us app tenant name = app @ '':'' @ us tenant @ '':'' @ name"

text \<open>\<open>NewFor\<close> and \<open>New\<close>: the name a cache is opened under.\<close>

definition cache_for :: "string \<Rightarrow> slug_error + string" where
  "cache_for app =
     (if app \<noteq> '''' then (case slug_check app of Some e \<Rightarrow> Inl e | None \<Rightarrow> Inr app) else Inr app)"

definition cache_new :: "string \<Rightarrow> slug_error + string" where
  "cache_new app =
     (if app = '''' then (case slug_check app of Some e \<Rightarrow> Inl e | None \<Rightarrow> Inr app) else cache_for app)"

subsection \<open>Scopes, keys, generations\<close>

datatype cache_scope = CacheScope (sp_tenant: uuid) (sp_ns: string)

definition no_scope :: cache_scope where "no_scope = CacheScope uuid_nil ''''"

definition bad_namespace :: "string \<Rightarrow> bool" where
  "bad_namespace ns \<longleftrightarrow> ns = '''' \<or> CHR ''/'' \<in> set ns"

definition scope_of :: "uuid \<Rightarrow> string \<Rightarrow> cache_scope" where
  "scope_of tenant ns = (if tenant = uuid_nil \<or> bad_namespace ns then no_scope else CacheScope tenant ns)"

definition shared_scope :: "string \<Rightarrow> cache_scope" where
  "shared_scope ns = (if bad_namespace ns then no_scope else CacheScope uuid_nil ns)"

datatype entry_key = EntryKey (ek_scope: cache_scope) (ek_name: string)

definition entry :: "cache_scope \<Rightarrow> string \<Rightarrow> entry_key" where
  "entry sc name = (if name = '''' then EntryKey no_scope '''' else EntryKey sc name)"

text \<open>Scopes and keys are only made by their constructors: their fields are unexported.\<close>

definition built_scope :: "cache_scope \<Rightarrow> bool" where
  "built_scope sc \<longleftrightarrow> sc = no_scope \<or> \<not> bad_namespace (sp_ns sc)"

datatype generation = Generation (gn_gen: int) (gn_read: bool)

definition no_generation :: generation where "no_generation = Generation 0 False"

datatype cache_error = NoScope | NoLifetime | NoGeneration | Closed | StoreFailed

definition key_valid :: "entry_key \<Rightarrow> cache_error option" where
  "key_valid k = (if sp_ns (ek_scope k) = '''' \<or> ek_name k = '''' then Some NoScope else None)"

definition key_text :: "entry_key \<Rightarrow> string" where
  "key_text k = (if sp_ns (ek_scope k) = '''' then ''(no namespace)'' else sp_ns (ek_scope k) @ ''/'' @ ek_name k)"

subsection \<open>Addresses and the envelope\<close>

definition entry_address :: "(uuid \<Rightarrow> string) \<Rightarrow> string \<Rightarrow> entry_key \<Rightarrow> string" where
  "entry_address us app k = join_address us app (sp_tenant (ek_scope k)) (sp_ns (ek_scope k) @ ''/'' @ ek_name k)"

definition generation_key :: "(uuid \<Rightarrow> string) \<Rightarrow> string \<Rightarrow> cache_scope \<Rightarrow> string" where
  "generation_key us app sc = join_address us app (sp_tenant sc) (sp_ns sc @ ''#'')"

definition envelope_marker :: char where "envelope_marker = CHR 0x0A"

definition encode_envelope :: "int \<Rightarrow> bytes \<Rightarrow> bytes" where
  "encode_envelope gen val = format_int gen @ envelope_marker # val"

definition decode_envelope :: "bytes \<Rightarrow> (int \<times> bytes) option" where
  "decode_envelope buf =
     (let head = takeWhile (\<lambda>c. c \<noteq> envelope_marker) buf
      in if head = buf \<or> head = [] then None
         else case parse_int head of
                None \<Rightarrow> None
              | Some n \<Rightarrow> if n < 0 then None else Some (n, drop (Suc (length head)) buf))"

definition open_generation :: "bytes option \<Rightarrow> int option" where
  "open_generation v =
     (case v of
        None \<Rightarrow> Some 0
      | Some b \<Rightarrow> case parse_int b of None \<Rightarrow> None | Some n \<Rightarrow> if n < 0 then None else Some n)"

subsection \<open>The port over a backend\<close>

record 's cache_backend =
  bk_get :: "time \<Rightarrow> string list \<Rightarrow> 's \<Rightarrow> 's \<times> (cache_error + bytes option list)"
  bk_set :: "time \<Rightarrow> string \<Rightarrow> bytes \<Rightarrow> duration \<Rightarrow> 's \<Rightarrow> 's \<times> cache_error option"
  bk_delete :: "string list \<Rightarrow> 's \<Rightarrow> 's \<times> cache_error option"
  bk_raise :: "string \<Rightarrow> 's \<Rightarrow> 's \<times> (cache_error + int)"
  bk_close :: "'s \<Rightarrow> 's \<times> cache_error option"

text \<open>What one read answers: the value, whether it is believed, the generation it found open.\<close>

datatype cache_read = CacheRead (cr_value: bytes) (cr_found: bool) (cr_under: generation)

definition read_answer :: "bytes option list \<Rightarrow> cache_read" where
  "read_answer values =
     (case values of
        [counter, stored] \<Rightarrow>
          (case open_generation counter of
             None \<Rightarrow> CacheRead [] False no_generation
           | Some open \<Rightarrow>
               (case stored of
                  None \<Rightarrow> CacheRead [] False (Generation open True)
                | Some buf \<Rightarrow>
                    (case decode_envelope buf of
                       None \<Rightarrow> CacheRead [] False (Generation open True)
                     | Some (gen, val) \<Rightarrow> CacheRead val (gen = open) (Generation open True))))
      | _ \<Rightarrow> CacheRead [] False no_generation)"

definition ca_get :: "(uuid \<Rightarrow> string) \<Rightarrow> string \<Rightarrow> 's cache_backend \<Rightarrow> time \<Rightarrow> entry_key \<Rightarrow> 's
    \<Rightarrow> 's \<times> (cache_error + cache_read)" where
  "ca_get us app bk t k s =
     (case key_valid k of
        Some e \<Rightarrow> (s, Inl e)
      | None \<Rightarrow>
          (case bk_get bk t [generation_key us app (ek_scope k), entry_address us app k] s of
             (s', Inl e) \<Rightarrow> (s', Inl e)
           | (s', Inr values) \<Rightarrow> (s', Inr (read_answer values))))"

definition ca_set :: "(uuid \<Rightarrow> string) \<Rightarrow> string \<Rightarrow> 's cache_backend \<Rightarrow> time \<Rightarrow> entry_key \<Rightarrow> bytes \<Rightarrow> duration
    \<Rightarrow> generation \<Rightarrow> 's \<Rightarrow> 's \<times> cache_error option" where
  "ca_set us app bk t k val ttl stamp s =
     (case key_valid k of
        Some e \<Rightarrow> (s, Some e)
      | None \<Rightarrow>
          if ttl \<le> 0 then (s, Some NoLifetime)
          else if \<not> gn_read stamp then (s, Some NoGeneration)
          else bk_set bk t (entry_address us app k) (encode_envelope (gn_gen stamp) val) ttl s)"

definition ca_delete :: "(uuid \<Rightarrow> string) \<Rightarrow> string \<Rightarrow> 's cache_backend \<Rightarrow> entry_key list \<Rightarrow> 's
    \<Rightarrow> 's \<times> cache_error option" where
  "ca_delete us app bk keys s =
     (if keys = [] then (s, None)
      else case List.find (\<lambda>k. key_valid k \<noteq> None) keys of
             Some k \<Rightarrow> (s, key_valid k)
           | None \<Rightarrow> bk_delete bk (map (entry_address us app) keys) s)"

definition ca_move :: "(uuid \<Rightarrow> string) \<Rightarrow> string \<Rightarrow> 's cache_backend \<Rightarrow> cache_scope \<Rightarrow> 's
    \<Rightarrow> 's \<times> cache_error option" where
  "ca_move us app bk sc s =
     (if sp_ns sc = '''' then (s, Some NoScope)
      else case bk_raise bk (generation_key us app sc) s of
             (s', Inl e) \<Rightarrow> (s', Some e)
           | (s', Inr n) \<Rightarrow> (s', None))"

subsection \<open>The backend in memory\<close>

definition cache_max_tracked :: nat where "cache_max_tracked = 10000"

record stored_entry =
  en_val :: bytes
  en_until :: time

record mem_store =
  ms_entries :: "(string, stored_entry) fmap"
  ms_counters :: "(string, int) fmap"
  ms_closed :: bool

definition mem_backend_new :: mem_store where
  "mem_backend_new = \<lparr>ms_entries = fmempty, ms_counters = fmempty, ms_closed = False\<rparr>"

text \<open>The loop of \<open>GetMany\<close>: an entry that has expired is dropped on the way past.\<close>

fun mem_get_loop :: "time \<Rightarrow> string list \<Rightarrow> mem_store \<Rightarrow> mem_store \<times> bytes option list" where
  "mem_get_loop now [] m = (m, [])"
| "mem_get_loop now (k # ks) m =
     (case fmlookup (ms_counters m) k of
        Some n \<Rightarrow> (case mem_get_loop now ks m of (m', vs) \<Rightarrow> (m', Some (format_int n) # vs))
      | None \<Rightarrow>
          (case fmlookup (ms_entries m) k of
             Some r \<Rightarrow>
               if now < en_until r
               then (case mem_get_loop now ks m of (m', vs) \<Rightarrow> (m', Some (en_val r) # vs))
               else (case mem_get_loop now ks (m\<lparr>ms_entries := fmdrop k (ms_entries m)\<rparr>) of (m', vs) \<Rightarrow> (m', None # vs))
           | None \<Rightarrow> (case mem_get_loop now ks m of (m', vs) \<Rightarrow> (m', None # vs))))"

definition mem_get_many :: "time \<Rightarrow> string list \<Rightarrow> mem_store \<Rightarrow> mem_store \<times> (cache_error + bytes option list)" where
  "mem_get_many now ks m =
     (if ms_closed m then (m, Inl Closed)
      else case mem_get_loop now ks m of (m', vs) \<Rightarrow> (m', Inr vs))"

definition cache_prune :: "time \<Rightarrow> mem_store \<Rightarrow> mem_store" where
  "cache_prune now m =
     (if fcard (fmdom (ms_entries m)) < cache_max_tracked then m
      else let kept = fmfilter (\<lambda>k. case fmlookup (ms_entries m) k of None \<Rightarrow> False | Some r \<Rightarrow> now < en_until r) (ms_entries m)
           in m\<lparr>ms_entries := (if fcard (fmdom kept) \<ge> cache_max_tracked then fmempty else kept)\<rparr>)"

text \<open>\<open>np\<close> is the clock as \<open>prune\<close> is given it, \<open>now\<close> the reading the lifetime is counted from.\<close>

definition mem_cache_set :: "time \<Rightarrow> time \<Rightarrow> string \<Rightarrow> bytes \<Rightarrow> duration \<Rightarrow> mem_store \<Rightarrow> mem_store \<times> cache_error option" where
  "mem_cache_set np now key val ttl m =
     (if ms_closed m then (m, Some Closed)
      else let m1 = cache_prune np m
           in (m1\<lparr>ms_entries := fmupd key \<lparr>en_val = val, en_until = now + ttl\<rparr> (ms_entries m1)\<rparr>, None))"

definition mem_delete :: "string list \<Rightarrow> mem_store \<Rightarrow> mem_store \<times> cache_error option" where
  "mem_delete ks m =
     (if ms_closed m then (m, Some Closed) else (m\<lparr>ms_entries := fold fmdrop ks (ms_entries m)\<rparr>, None))"

definition mem_raise :: "string \<Rightarrow> mem_store \<Rightarrow> mem_store \<times> (cache_error + int)" where
  "mem_raise key m =
     (if ms_closed m then (m, Inl Closed)
      else let n = wrap64 ((case fmlookup (ms_counters m) key of None \<Rightarrow> 0 | Some n \<Rightarrow> n) + 1)
           in (m\<lparr>ms_counters := fmupd key n (ms_counters m)\<rparr>, Inr n))"

definition mem_close :: "mem_store \<Rightarrow> mem_store \<times> cache_error option" where
  "mem_close m =
     (if ms_closed m then (m, Some Closed) else (m\<lparr>ms_closed := True, ms_entries := fmempty\<rparr>, None))"

definition mem_backend :: "mem_store cache_backend" where
  "mem_backend =
     \<lparr>bk_get = mem_get_many, bk_set = (\<lambda>t. mem_cache_set t t), bk_delete = mem_delete,
      bk_raise = mem_raise, bk_close = mem_close\<rparr>"

end
