(* ===== verification/CacheSafety.thy ===== *)
theory CacheSafety
  imports Cache
begin

section \<open>What a cached value is worth\<close>

text \<open>
  Addresses of different owners differ, the envelope reads back, and the contract of a backend
  (\<open>cache_contract\<close>), under which any interleaving of the port's calls keeps the invariant that a
  hit was written by a read that saw every move of its scope.  The backend in memory meets it.
\<close>

subsection \<open>Addresses\<close>

definition cache_app :: "string \<Rightarrow> bool" where
  "cache_app app \<longleftrightarrow> cache_for app = Inr app"

definition good_key :: "entry_key \<Rightarrow> bool" where
  "good_key k \<longleftrightarrow> built_scope (ek_scope k) \<and> key_valid k = None"

definition good_cache_scope :: "cache_scope \<Rightarrow> bool" where
  "good_cache_scope sc \<longleftrightarrow> built_scope sc \<and> sp_ns sc \<noteq> ''''"

lemma good_scope_iff: "good_cache_scope sc \<longleftrightarrow> \<not> bad_namespace (sp_ns sc)"
  by (auto simp: good_cache_scope_def built_scope_def bad_namespace_def no_scope_def)

lemma good_key_scope: "good_key k \<Longrightarrow> good_cache_scope (ek_scope k)"
  by (auto simp: good_key_def good_cache_scope_def key_valid_def split: if_splits)

lemma scope_of_built [simp]: "built_scope (scope_of t ns)" "built_scope (shared_scope ns)" "built_scope no_scope"
  by (auto simp: scope_of_def shared_scope_def built_scope_def)

lemma slug_loop_chars: "slug_loop p cs = None \<Longrightarrow> c \<in> set cs \<Longrightarrow> slug_letter c \<or> c = CHR ''-''"
  by (induction p cs rule: slug_loop.induct) (auto split: if_splits)

lemma cache_app_no_colon:
  assumes "cache_app app"
  shows "CHR '':'' \<notin> set app"
proof
  assume c: "CHR '':'' \<in> set app"
  then have "slug_loop None app = None"
    using assms by (auto simp: cache_app_def cache_for_def slug_check_def split: if_splits option.splits)
  from slug_loop_chars [OF this c] show False by (simp add: slug_letter_def)
qed

lemma join_address_eqD:
  assumes us: "uuid_spelling us" and a: "cache_app a" "cache_app a'"
    and eq: "join_address us a t n = join_address us a' t' n'"
  shows "a = a' \<and> t = t' \<and> n = n'"
proof -
  from eq have "a @ CHR '':'' # (us t @ CHR '':'' # n) = a' @ CHR '':'' # (us t' @ CHR '':'' # n')"
    by (simp add: join_address_def)
  from append_sep_eq [OF cache_app_no_colon [OF a(1)] cache_app_no_colon [OF a(2)] this]
  have "a = a'" "us t @ CHR '':'' # n = us t' @ CHR '':'' # n'" by auto
  with append_len_sep_eq [OF _ this(2)] uuid_spelling_length [OF us] uuid_spelling_inj [OF us]
  show ?thesis by auto
qed

lemma entry_address_eqD:
  assumes us: "uuid_spelling us" and a: "cache_app a" "cache_app a'" and k: "good_key k" "good_key k'"
    and eq: "entry_address us a k = entry_address us a' k'"
  shows "a = a' \<and> k = k'"
proof -
  have ns: "CHR ''/'' \<notin> set (sp_ns (ek_scope k))" "CHR ''/'' \<notin> set (sp_ns (ek_scope k'))"
    using k good_key_scope good_scope_iff by (auto simp: bad_namespace_def)
  from join_address_eqD [OF us a eq [unfolded entry_address_def]]
  have "a = a'" "sp_tenant (ek_scope k) = sp_tenant (ek_scope k')"
    "sp_ns (ek_scope k) @ CHR ''/'' # ek_name k = sp_ns (ek_scope k') @ CHR ''/'' # ek_name k'" by auto
  with append_sep_eq [OF ns this(3)] show ?thesis by (auto simp: entry_key.expand cache_scope.expand)
qed

lemma generation_key_eqD:
  assumes us: "uuid_spelling us" and a: "cache_app a" "cache_app a'"
    and eq: "generation_key us a sc = generation_key us a' sc'"
  shows "a = a' \<and> sc = sc'"
  using join_address_eqD [OF us a eq [unfolded generation_key_def]] by (auto simp: cache_scope.expand)

lemma generation_not_entry:
  assumes us: "uuid_spelling us" and a: "cache_app a" "cache_app a'" and sc: "good_cache_scope sc"
  shows "generation_key us a sc \<noteq> entry_address us a' k"
proof
  assume eq: "generation_key us a sc = entry_address us a' k"
  from join_address_eqD [OF us a eq [unfolded generation_key_def entry_address_def]]
  have "sp_ns sc @ ''#'' = sp_ns (ek_scope k) @ ''/'' @ ek_name k" by simp
  then have "CHR ''/'' \<in> set (sp_ns sc @ ''#'')" by (metis in_set_conv_decomp append_Cons append_Nil)
  with sc show False by (simp add: good_scope_iff bad_namespace_def)
qed

subsection \<open>The envelope\<close>

lemma takeWhile_marker: "c \<notin> set xs \<Longrightarrow> takeWhile (\<lambda>x. x \<noteq> c) (xs @ c # ys) = xs"
  by (induction xs) auto

lemma decode_envelope_encode:
  assumes "0 \<le> g" "g < 2 ^ 63"
  shows "decode_envelope (encode_envelope g v) = Some (g, v)"
proof -
  have "takeWhile (\<lambda>c. c \<noteq> envelope_marker) (encode_envelope g v) = format_int g"
    unfolding encode_envelope_def using format_int_no_newline [OF assms(1)]
    by (intro takeWhile_marker) (simp add: envelope_marker_def)
  with assms parse_format [OF assms] show ?thesis
    by (simp add: decode_envelope_def Let_def encode_envelope_def)
qed

definition counter_value :: "int option \<Rightarrow> int" where
  "counter_value n = (case n of None \<Rightarrow> 0 | Some n \<Rightarrow> n)"

lemma open_generation_counter:
  assumes "0 \<le> counter_value c" "counter_value c < 2 ^ 63" "c = None \<Longrightarrow> v = None" "\<And>n. c = Some n \<Longrightarrow> v = Some (format_int n)"
  shows "open_generation v = Some (counter_value c)"
  using assms by (cases c) (auto simp: open_generation_def counter_value_def parse_format)

text \<open>What is read back of an entry that \<open>Set\<close> wrote.\<close>

lemma read_answer_stored:
  assumes "open_generation c = Some n" "0 \<le> g" "g < 2 ^ 63"
  shows "read_answer [c, Some (encode_envelope g v)] = CacheRead v (g = n) (Generation n True)"
  using assms by (simp add: read_answer_def decode_envelope_encode)

lemma read_answer_under: "open_generation c = Some n \<Longrightarrow> cr_under (read_answer [c, v]) = Generation n True"
  by (auto simp: read_answer_def split: option.split prod.split)

lemma read_answer_found: "cr_found (read_answer [c, v]) \<Longrightarrow> v \<noteq> None"
  by (auto simp: read_answer_def split: option.splits)

subsection \<open>The contract of a backend\<close>

text \<open>
  \<open>counter\<close> reads a counter of the store, \<open>kept\<close> what entry is alive at an instant.  A backend may
  lose entries whenever it likes; it may not invent one and it may not lose a counter.  A raise
  that failed may have been applied.
\<close>

locale cache_contract =
  fixes bk :: "'s cache_backend"
    and counter :: "'s \<Rightarrow> string \<Rightarrow> int option"
    and kept :: "time \<Rightarrow> 's \<Rightarrow> string \<Rightarrow> bytes option"
  assumes get_answers: "bk_get bk t ks s = (s', Inr vs) \<Longrightarrow>
      vs = map (\<lambda>k. case counter s k of Some n \<Rightarrow> Some (format_int n) | None \<Rightarrow> kept t s k) ks"
    and get_counter: "counter (fst (bk_get bk t ks s)) = counter s"
    and get_kept: "kept t' (fst (bk_get bk t ks s)) k = Some b \<Longrightarrow> kept t' s k = Some b"
    and set_counter: "counter (fst (bk_set bk t k b ttl s)) = counter s"
    and set_kept: "kept t' (fst (bk_set bk t k b ttl s)) k' = Some b' \<Longrightarrow> k' = k \<and> b' = b \<or> kept t' s k' = Some b'"
    and delete_counter: "counter (fst (bk_delete bk ks s)) = counter s"
    and delete_kept: "kept t' (fst (bk_delete bk ks s)) k = Some b \<Longrightarrow> kept t' s k = Some b"
    and close_counter: "counter (fst (bk_close bk s)) = counter s"
    and close_kept: "kept t' (fst (bk_close bk s)) k = Some b \<Longrightarrow> kept t' s k = Some b"
    and raise_answers: "bk_raise bk k s = (s', Inr n) \<Longrightarrow> counter s' k = Some (wrap64 (counter_value (counter s k) + 1))"
    and raise_counts: "counter (fst (bk_raise bk k s)) k \<in> {counter s k, Some (wrap64 (counter_value (counter s k) + 1))}"
    and raise_others: "k' \<noteq> k \<Longrightarrow> counter (fst (bk_raise bk k s)) k' = counter s k'"
    and raise_kept: "kept t' (fst (bk_raise bk k s)) k' = Some b \<Longrightarrow> kept t' s k' = Some b"

subsection \<open>Callers of one store, interleaved\<close>

text \<open>
  A world is a store and what was asked of it: \<open>Stamp\<close>, the reads with the number of moves of the
  scope there had been; \<open>Written\<close>, the writes with the number their stamping read had seen; the
  moves answered and the raises asked.
\<close>

datatype stamp = Stamp (sm_app: string) (sm_key: entry_key) (sm_generation: generation) (sm_seen: nat)
datatype written = Written (wr_app: string) (wr_key: entry_key) (wr_value: bytes) (wr_seen: nat)

record 's cache_world =
  cw_store :: 's
  cw_reads :: "stamp list"
  cw_writes :: "written list"
  cw_moves :: "string \<Rightarrow> cache_scope \<Rightarrow> nat"
  cw_raises :: nat

definition cache_world_of :: "'s \<Rightarrow> 's cache_world" where
  "cache_world_of s = \<lparr>cw_store = s, cw_reads = [], cw_writes = [], cw_moves = (\<lambda>_ _. 0), cw_raises = 0\<rparr>"

inductive cache_step :: "(uuid \<Rightarrow> string) \<Rightarrow> 's cache_backend \<Rightarrow> 's cache_world \<Rightarrow> 's cache_world \<Rightarrow> bool"
  for us bk where
  get_answered: "cache_app app \<Longrightarrow> built_scope (ek_scope k) \<Longrightarrow> ca_get us app bk t k (cw_store w) = (s', Inr r) \<Longrightarrow>
    cache_step us bk w (w\<lparr>cw_store := s', cw_reads := Stamp app k (cr_under r) (cw_moves w app (ek_scope k)) # cw_reads w\<rparr>)"
| get_failed: "ca_get us app bk t k (cw_store w) = (s', Inl e) \<Longrightarrow> cache_step us bk w (w\<lparr>cw_store := s'\<rparr>)"
| sets: "Stamp app k g n \<in> set (cw_reads w) \<Longrightarrow>
    cache_step us bk w (w\<lparr>cw_store := fst (ca_set us app bk t k v ttl g (cw_store w)), cw_writes := Written app k v n # cw_writes w\<rparr>)"
| deletes: "cache_step us bk w (w\<lparr>cw_store := fst (ca_delete us app bk ks (cw_store w))\<rparr>)"
| moved: "cache_app app \<Longrightarrow> built_scope sc \<Longrightarrow> ca_move us app bk sc (cw_store w) = (s', None) \<Longrightarrow>
    cache_step us bk w (w\<lparr>cw_store := s', cw_raises := Suc (cw_raises w),
      cw_moves := (cw_moves w)(app := (cw_moves w app)(sc := Suc (cw_moves w app sc)))\<rparr>)"
| move_failed: "cache_app app \<Longrightarrow> built_scope sc \<Longrightarrow> ca_move us app bk sc (cw_store w) = (s', Some e) \<Longrightarrow>
    cache_step us bk w (w\<lparr>cw_store := s', cw_raises := Suc (cw_raises w)\<rparr>)"
| closes: "cache_step us bk w (w\<lparr>cw_store := fst (bk_close bk (cw_store w))\<rparr>)"

definition cache_reaches :: "(uuid \<Rightarrow> string) \<Rightarrow> 's cache_backend \<Rightarrow> 's cache_world \<Rightarrow> 's cache_world \<Rightarrow> bool" where
  "cache_reaches us bk = (cache_step us bk)\<^sup>*\<^sup>*"

subsection \<open>The invariant\<close>

definition scope_counter :: "(uuid \<Rightarrow> string) \<Rightarrow> ('s \<Rightarrow> string \<Rightarrow> int option) \<Rightarrow> 's \<Rightarrow> string \<Rightarrow> cache_scope \<Rightarrow> int" where
  "scope_counter us counter s app sc = counter_value (counter s (generation_key us app sc))"

definition counters_ok :: "(uuid \<Rightarrow> string) \<Rightarrow> ('s \<Rightarrow> string \<Rightarrow> int option) \<Rightarrow> 's cache_world \<Rightarrow> bool" where
  "counters_ok us counter w \<longleftrightarrow>
     (\<forall>app sc. cache_app app \<longrightarrow> good_cache_scope sc \<longrightarrow>
        0 \<le> scope_counter us counter (cw_store w) app sc \<and> scope_counter us counter (cw_store w) app sc \<le> int (cw_raises w))
   \<and> (\<forall>app k. cache_app app \<longrightarrow> good_key k \<longrightarrow> counter (cw_store w) (entry_address us app k) = None)"

definition reads_ok :: "(uuid \<Rightarrow> string) \<Rightarrow> ('s \<Rightarrow> string \<Rightarrow> int option) \<Rightarrow> 's cache_world \<Rightarrow> bool" where
  "reads_ok us counter w \<longleftrightarrow>
     (\<forall>app k g n. Stamp app k g n \<in> set (cw_reads w) \<longrightarrow> gn_read g \<longrightarrow>
        cache_app app \<and> good_key k \<and> 0 \<le> gn_gen g \<and> n \<le> cw_moves w app (ek_scope k)
        \<and> int (cw_moves w app (ek_scope k)) - int n \<le> scope_counter us counter (cw_store w) app (ek_scope k) - gn_gen g)"

definition entries_ok :: "(uuid \<Rightarrow> string) \<Rightarrow> (time \<Rightarrow> 's \<Rightarrow> string \<Rightarrow> bytes option) \<Rightarrow> 's cache_world \<Rightarrow> bool" where
  "entries_ok us kept w \<longleftrightarrow>
     (\<forall>t x b. kept t (cw_store w) x = Some b \<longrightarrow>
        (\<exists>app k v g n. x = entry_address us app k \<and> cache_app app \<and> good_key k \<and> Written app k v n \<in> set (cw_writes w)
           \<and> Stamp app k g n \<in> set (cw_reads w) \<and> gn_read g \<and> b = encode_envelope (gn_gen g) v))"

definition cache_inv :: "(uuid \<Rightarrow> string) \<Rightarrow> ('s \<Rightarrow> string \<Rightarrow> int option) \<Rightarrow> (time \<Rightarrow> 's \<Rightarrow> string \<Rightarrow> bytes option)
    \<Rightarrow> 's cache_world \<Rightarrow> bool" where
  "cache_inv us counter kept w \<longleftrightarrow> counters_ok us counter w \<and> reads_ok us counter w \<and> entries_ok us kept w"

lemma entries_okD:
  assumes "entries_ok us kept w" "kept t (cw_store w) x = Some b"
  obtains app k v g n where "x = entry_address us app k" "cache_app app" "good_key k" "Written app k v n \<in> set (cw_writes w)"
    "Stamp app k g n \<in> set (cw_reads w)" "gn_read g" "b = encode_envelope (gn_gen g) v"
  using assms unfolding entries_ok_def by blast

lemma reads_okD:
  assumes "reads_ok us counter w" "Stamp app k g n \<in> set (cw_reads w)" "gn_read g"
  shows "cache_app app" "good_key k" "0 \<le> gn_gen g" "n \<le> cw_moves w app (ek_scope k)"
    "int (cw_moves w app (ek_scope k)) - int n \<le> scope_counter us counter (cw_store w) app (ek_scope k) - gn_gen g"
  using assms unfolding reads_ok_def by blast+

lemma inv_quiet:
  assumes "cache_inv us counter kept w" "counter s' = counter (cw_store w)"
    "\<And>t k b. kept t s' k = Some b \<Longrightarrow> kept t (cw_store w) k = Some b"
  shows "cache_inv us counter kept (w\<lparr>cw_store := s'\<rparr>)"
proof -
  have "counters_ok us counter (w\<lparr>cw_store := s'\<rparr>)" "reads_ok us counter (w\<lparr>cw_store := s'\<rparr>)"
    using assms(1,2) by (simp_all add: cache_inv_def counters_ok_def reads_ok_def scope_counter_def)
  moreover have "entries_ok us kept (w\<lparr>cw_store := s'\<rparr>)"
    using assms(1,3) unfolding cache_inv_def entries_ok_def by simp blast
  ultimately show ?thesis by (simp add: cache_inv_def)
qed

lemma wrap64_next: "0 \<le> n \<Longrightarrow> n + 1 < 2 ^ 63 \<Longrightarrow> wrap64 (n + 1) = n + 1"
  by simp

context cache_contract
begin

lemma ca_get_store:
  "counter (fst (ca_get us app bk t k s)) = counter s"
  "kept t' (fst (ca_get us app bk t k s)) x = Some b \<Longrightarrow> kept t' s x = Some b"
proof -
  have f: "fst (ca_get us app bk t k s) =
     (if key_valid k = None then fst (bk_get bk t [generation_key us app (ek_scope k), entry_address us app k] s) else s)"
    by (auto simp: ca_get_def split: option.split prod.split sum.split)
  show "counter (fst (ca_get us app bk t k s)) = counter s"
    unfolding f by (simp add: get_counter)
  show "kept t' (fst (ca_get us app bk t k s)) x = Some b \<Longrightarrow> kept t' s x = Some b"
    unfolding f by (auto dest: get_kept split: if_splits)
qed

lemma ca_delete_store:
  "counter (fst (ca_delete us app bk ks s)) = counter s"
  "kept t' (fst (ca_delete us app bk ks s)) x = Some b \<Longrightarrow> kept t' s x = Some b"
  by (auto simp: ca_delete_def delete_counter dest: delete_kept split: if_splits option.splits)

lemma ca_set_store:
  "counter (fst (ca_set us app bk t k v ttl g s)) = counter s"
  "kept t' (fst (ca_set us app bk t k v ttl g s)) x = Some b \<Longrightarrow>
     (x = entry_address us app k \<and> b = encode_envelope (gn_gen g) v \<and> gn_read g \<and> key_valid k = None) \<or> kept t' s x = Some b"
  by (auto simp: ca_set_def set_counter dest: set_kept split: if_splits option.splits)

lemma ca_move_store:
  shows "x \<noteq> generation_key us app sc \<Longrightarrow> counter (fst (ca_move us app bk sc s)) x = counter s x"
    and "kept t' (fst (ca_move us app bk sc s)) x = Some b \<Longrightarrow> kept t' s x = Some b"
    and "counter (fst (ca_move us app bk sc s)) (generation_key us app sc) \<in>
      {counter s (generation_key us app sc), Some (wrap64 (scope_counter us counter s app sc + 1))}"
    and "ca_move us app bk sc s = (s', None) \<Longrightarrow> sp_ns sc \<noteq> '''' \<and>
      counter s' (generation_key us app sc) = Some (wrap64 (scope_counter us counter s app sc + 1))"
proof -
  have f: "fst (ca_move us app bk sc s) = (if sp_ns sc = '''' then s else fst (bk_raise bk (generation_key us app sc) s))"
    by (auto simp: ca_move_def split: prod.split sum.split)
  show "x \<noteq> generation_key us app sc \<Longrightarrow> counter (fst (ca_move us app bk sc s)) x = counter s x"
    unfolding f by (simp add: raise_others)
  show "kept t' (fst (ca_move us app bk sc s)) x = Some b \<Longrightarrow> kept t' s x = Some b"
    unfolding f by (auto dest: raise_kept split: if_splits)
  show "counter (fst (ca_move us app bk sc s)) (generation_key us app sc) \<in>
      {counter s (generation_key us app sc), Some (wrap64 (scope_counter us counter s app sc + 1))}"
    unfolding f scope_counter_def using raise_counts [of "generation_key us app sc" s] by simp
  show "ca_move us app bk sc s = (s', None) \<Longrightarrow> sp_ns sc \<noteq> '''' \<and>
      counter s' (generation_key us app sc) = Some (wrap64 (scope_counter us counter s app sc + 1))"
    unfolding scope_counter_def by (auto simp: ca_move_def dest: raise_answers split: if_splits prod.splits sum.splits)
qed

text \<open>What a read of a good key finds under the invariant, while the counter is an \<open>int64\<close>.\<close>

lemma no_entry_at_counter:
  assumes "uuid_spelling us" "entries_ok us kept w" "cache_app app" "good_cache_scope sc"
  shows "kept t (cw_store w) (generation_key us app sc) = None"
proof (rule ccontr)
  assume "kept t (cw_store w) (generation_key us app sc) \<noteq> None"
  then obtain b where "kept t (cw_store w) (generation_key us app sc) = Some b" by blast
  from entries_okD [OF assms(2) this] obtain app' k' where
    "generation_key us app sc = entry_address us app' k'" "cache_app app'" by metis
  with generation_not_entry [OF assms(1,3) _ assms(4)] show False by blast
qed

lemma ca_get_answer:
  assumes us: "uuid_spelling us" and inv: "cache_inv us counter kept w" and app: "cache_app app" and k: "good_key k"
    and lt: "int (cw_raises w) < 2 ^ 63" and g: "ca_get us app bk t k (cw_store w) = (s', Inr r)"
  shows "\<exists>c. open_generation c = Some (scope_counter us counter (cw_store w) app (ek_scope k))
    \<and> r = read_answer [c, kept t (cw_store w) (entry_address us app k)]"
proof -
  let ?s = "cw_store w"
  let ?gk = "generation_key us app (ek_scope k)"
  let ?c = "case counter ?s ?gk of Some n \<Rightarrow> Some (format_int n) | None \<Rightarrow> kept t ?s ?gk"
  from g k obtain vs where vs: "bk_get bk t [?gk, entry_address us app k] ?s = (s', Inr vs)" "r = read_answer vs"
    by (auto simp: ca_get_def good_key_def split: prod.splits sum.splits)
  have e: "counter ?s (entry_address us app k) = None"
    and b: "0 \<le> scope_counter us counter ?s app (ek_scope k)" "scope_counter us counter ?s app (ek_scope k) < 2 ^ 63"
    using inv app k good_key_scope [OF k] lt by (auto simp: cache_inv_def counters_ok_def dest!: spec [of _ app])
  have "kept t ?s ?gk = None"
    using no_entry_at_counter [OF us _ app good_key_scope [OF k]] inv by (simp add: cache_inv_def)
  with b have "open_generation ?c = Some (scope_counter us counter ?s app (ek_scope k))"
    unfolding scope_counter_def by (intro open_generation_counter) auto
  moreover have "r = read_answer [?c, kept t ?s (entry_address us app k)]"
    using get_answers [OF vs(1)] vs(2) e by simp
  ultimately show ?thesis by blast
qed

end

subsection \<open>Every step keeps it\<close>

lemma inv_raise:
  assumes us: "uuid_spelling us" and inv: "cache_inv us counter kept w" and app: "cache_app app" and sc: "good_cache_scope sc"
    and others: "\<And>x. x \<noteq> generation_key us app sc \<Longrightarrow> counter s' x = counter (cw_store w) x"
    and val: "scope_counter us counter s' app sc = scope_counter us counter (cw_store w) app sc + int d" "d \<le> 1" "m \<le> d"
    and keeps: "\<And>t x b. kept t s' x = Some b \<Longrightarrow> kept t (cw_store w) x = Some b"
  shows "cache_inv us counter kept (w\<lparr>cw_store := s', cw_raises := Suc (cw_raises w),
      cw_moves := (cw_moves w)(app := (cw_moves w app)(sc := cw_moves w app sc + m))\<rparr>)"
    (is "cache_inv _ _ _ ?w'")
proof -
  from inv have c: "counters_ok us counter w" and r: "reads_ok us counter w" and e: "entries_ok us kept w"
    by (simp_all add: cache_inv_def)
  have sc_eq: "scope_counter us counter s' a sc' =
      scope_counter us counter (cw_store w) a sc' + (if a = app \<and> sc' = sc then int d else 0)" if "cache_app a" for a sc'
  proof (cases "a = app \<and> sc' = sc")
    case False
    then have "generation_key us a sc' \<noteq> generation_key us app sc" using generation_key_eqD [OF us that app] by blast
    with False others show ?thesis by (auto simp: scope_counter_def)
  qed (simp add: val)
  have "counters_ok us counter ?w'"
    unfolding counters_ok_def
  proof (intro conjI allI impI)
    fix a sc' assume a: "cache_app a" "good_cache_scope sc'"
    then have "0 \<le> scope_counter us counter (cw_store w) a sc'" "scope_counter us counter (cw_store w) a sc' \<le> int (cw_raises w)"
      using c by (auto simp: counters_ok_def)
    with sc_eq [OF a(1), of sc'] val(2)
    show "0 \<le> scope_counter us counter (cw_store ?w') a sc'" "scope_counter us counter (cw_store ?w') a sc' \<le> int (cw_raises ?w')"
      by auto
  next
    fix a k assume a: "cache_app a" "good_key k"
    then have "entry_address us a k \<noteq> generation_key us app sc" using generation_not_entry [OF us app a(1) sc] by metis
    with others a c show "counter (cw_store ?w') (entry_address us a k) = None" by (simp add: counters_ok_def)
  qed
  moreover have "reads_ok us counter ?w'"
    unfolding reads_ok_def
  proof (intro allI impI)
    fix a k g n assume "Stamp a k g n \<in> set (cw_reads ?w')" "gn_read g"
    then have s: "Stamp a k g n \<in> set (cw_reads w)" "gn_read g" by simp_all
    note d = reads_okD [OF r s]
    show "cache_app a \<and> good_key k \<and> 0 \<le> gn_gen g \<and> n \<le> cw_moves ?w' a (ek_scope k)
        \<and> int (cw_moves ?w' a (ek_scope k)) - int n \<le> scope_counter us counter (cw_store ?w') a (ek_scope k) - gn_gen g"
      using d sc_eq [OF d(1), of "ek_scope k"] val(3) by auto
  qed
  moreover have "entries_ok us kept ?w'"
    using e keeps unfolding entries_ok_def by simp blast
  ultimately show ?thesis by (simp add: cache_inv_def)
qed

lemma cache_step_raises: "cache_step us bk w w' \<Longrightarrow> cw_raises w \<le> cw_raises w'"
  by (induction rule: cache_step.induct) auto

context cache_contract
begin

lemma step_inv:
  assumes us: "uuid_spelling us" and inv: "cache_inv us counter kept w" and step: "cache_step us bk w w'"
    and lt: "int (cw_raises w') < 2 ^ 63"
  shows "cache_inv us counter kept w'"
  using step
proof cases
  case (get_answered app k t s' r)
  have s': "s' = fst (ca_get us app bk t k (cw_store w))" using get_answered by simp
  have "key_valid k = None" using get_answered by (auto simp: ca_get_def split: option.splits)
  then have k: "good_key k" using get_answered by (simp add: good_key_def)
  from lt get_answered(1) have "int (cw_raises w) < 2 ^ 63" by simp
  from ca_get_answer [OF us inv get_answered(2) k this get_answered(4)] obtain c where
    c: "open_generation c = Some (scope_counter us counter (cw_store w) app (ek_scope k))"
      "r = read_answer [c, kept t (cw_store w) (entry_address us app k)]" by blast
  have u: "cr_under r = Generation (scope_counter us counter (cw_store w) app (ek_scope k)) True"
    unfolding c(2) by (rule read_answer_under [OF c(1)])
  have ge: "0 \<le> scope_counter us counter (cw_store w) app (ek_scope k)"
    using inv get_answered(2) good_key_scope [OF k] by (auto simp: cache_inv_def counters_ok_def)
  have q: "cache_inv us counter kept (w\<lparr>cw_store := s'\<rparr>)"
    by (rule inv_quiet [OF inv]) (auto simp: s' ca_get_store(1) dest: ca_get_store(2))
  have "scope_counter us counter s' app (ek_scope k) = scope_counter us counter (cw_store w) app (ek_scope k)"
    by (simp add: s' scope_counter_def ca_get_store(1))
  with q u ge k get_answered(2) have "reads_ok us counter w'" "counters_ok us counter w'"
    unfolding get_answered(1) by (auto simp: cache_inv_def reads_ok_def counters_ok_def)
  moreover have "entries_ok us kept w'"
    using q unfolding get_answered(1) cache_inv_def entries_ok_def by simp blast
  ultimately show ?thesis by (simp add: cache_inv_def)
next
  case (get_failed app t k s' e)
  then have s': "s' = fst (ca_get us app bk t k (cw_store w))" by simp
  show ?thesis unfolding get_failed(1)
    by (rule inv_quiet [OF inv]) (auto simp: s' ca_get_store(1) dest: ca_get_store(2))
next
  case (sets app k g n v t ttl)
  let ?s = "fst (ca_set us app bk t k v ttl g (cw_store w))"
  from inv have r: "reads_ok us counter w" and e: "entries_ok us kept w" by (simp_all add: cache_inv_def)
  have "counters_ok us counter w'" "reads_ok us counter w'"
    using inv unfolding sets(1) by (simp_all add: cache_inv_def counters_ok_def reads_ok_def scope_counter_def ca_set_store(1))
  moreover have "entries_ok us kept w'"
    unfolding entries_ok_def
  proof (intro allI impI)
    fix t' x b assume "kept t' (cw_store w') x = Some b"
    then have kt: "kept t' ?s x = Some b" by (simp add: sets(1))
    show "\<exists>app k v g n. x = entry_address us app k \<and> cache_app app \<and> good_key k \<and> Written app k v n \<in> set (cw_writes w')
        \<and> Stamp app k g n \<in> set (cw_reads w') \<and> gn_read g \<and> b = encode_envelope (gn_gen g) v"
    proof (cases "x = entry_address us app k \<and> b = encode_envelope (gn_gen g) v \<and> gn_read g")
      case True
      with reads_okD(1,2) [OF r sets(2)] sets(2) show ?thesis
        by (intro exI [of _ app] exI [of _ k] exI [of _ v] exI [of _ g] exI [of _ n]) (simp add: sets(1))
    next
      case False
      with ca_set_store(2) [OF kt] have "kept t' (cw_store w) x = Some b" by blast
      from entries_okD [OF e this] obtain app' k' v' g' n' where
        "x = entry_address us app' k'" "cache_app app'" "good_key k'" "Written app' k' v' n' \<in> set (cw_writes w)"
        "Stamp app' k' g' n' \<in> set (cw_reads w)" "gn_read g'" "b = encode_envelope (gn_gen g') v'" .
      then show ?thesis
        by (intro exI [of _ app'] exI [of _ k'] exI [of _ v'] exI [of _ g'] exI [of _ n']) (simp add: sets(1))
    qed
  qed
  ultimately show ?thesis by (simp add: cache_inv_def)
next
  case (deletes app ks)
  show ?thesis unfolding deletes
    by (rule inv_quiet [OF inv]) (auto simp: ca_delete_store(1) dest: ca_delete_store(2))
next
  case (moved app sc s')
  have s': "s' = fst (ca_move us app bk sc (cw_store w))" using moved by simp
  note m = ca_move_store(4) [OF moved(4)]
  with moved have sc: "good_cache_scope sc" by (simp add: good_cache_scope_def)
  have "0 \<le> scope_counter us counter (cw_store w) app sc" "scope_counter us counter (cw_store w) app sc \<le> int (cw_raises w)"
    using inv moved(2) sc by (auto simp: cache_inv_def counters_ok_def)
  with m lt moved(1) have v: "scope_counter us counter s' app sc = scope_counter us counter (cw_store w) app sc + int 1"
    by (simp add: scope_counter_def [of us counter s'] counter_value_def wrap64_next)
  have "cache_inv us counter kept (w\<lparr>cw_store := s', cw_raises := Suc (cw_raises w),
      cw_moves := (cw_moves w)(app := (cw_moves w app)(sc := cw_moves w app sc + 1))\<rparr>)"
    by (rule inv_raise [OF us inv moved(2) sc _ v]) (auto simp: s' ca_move_store(1) dest: ca_move_store(2))
  then show ?thesis by (simp add: moved(1))
next
  case (move_failed app sc s' e)
  have s': "s' = fst (ca_move us app bk sc (cw_store w))" using move_failed by simp
  have w': "w' = w\<lparr>cw_store := s', cw_raises := Suc (cw_raises w),
      cw_moves := (cw_moves w)(app := (cw_moves w app)(sc := cw_moves w app sc + 0))\<rparr>"
    by (simp add: move_failed(1))
  show ?thesis
  proof (cases "sp_ns sc = ''''")
    case True
    then have "s' = cw_store w" using move_failed by (simp add: ca_move_def)
    moreover from inv have "counters_ok us counter (w\<lparr>cw_raises := Suc (cw_raises w)\<rparr>)"
      by (fastforce simp: cache_inv_def counters_ok_def)
    ultimately show ?thesis using inv unfolding move_failed(1)
      by (simp add: cache_inv_def counters_ok_def reads_ok_def entries_ok_def)
  next
    case False
    with move_failed have sc: "good_cache_scope sc" by (simp add: good_cache_scope_def)
    have "0 \<le> scope_counter us counter (cw_store w) app sc" "scope_counter us counter (cw_store w) app sc \<le> int (cw_raises w)"
      using inv move_failed(2) sc by (auto simp: cache_inv_def counters_ok_def)
    then have nxt: "wrap64 (scope_counter us counter (cw_store w) app sc + 1) = scope_counter us counter (cw_store w) app sc + 1"
      using lt move_failed(1) by (intro wrap64_next) simp_all
    from ca_move_store(3) [of us app sc "cw_store w"]
    have "scope_counter us counter s' app sc \<in> {scope_counter us counter (cw_store w) app sc, scope_counter us counter (cw_store w) app sc + 1}"
      unfolding s' [symmetric] nxt by (auto simp: scope_counter_def counter_value_def)
    then have "\<exists>d \<le> 1. scope_counter us counter s' app sc = scope_counter us counter (cw_store w) app sc + int d"
      by (auto intro: exI [of _ 0] exI [of _ 1])
    then obtain d where d: "d \<le> 1" "scope_counter us counter s' app sc = scope_counter us counter (cw_store w) app sc + int d"
      by blast
    show ?thesis unfolding w'
      by (rule inv_raise [OF us inv move_failed(2) sc _ d(2,1)]) (auto simp: s' ca_move_store(1) dest: ca_move_store(2))
  qed
next
  case closes
  show ?thesis unfolding closes
    by (rule inv_quiet [OF inv]) (auto simp: close_counter dest: close_kept)
qed

end

subsection \<open>A hit is current\<close>

context cache_contract
begin

lemma reaches_inv:
  assumes us: "uuid_spelling us" and r: "cache_reaches us bk w w'" and inv: "cache_inv us counter kept w"
    and lt: "int (cw_raises w') < 2 ^ 63"
  shows "cache_inv us counter kept w'"
  using r [unfolded cache_reaches_def] lt
proof (induction rule: rtranclp_induct)
  case base
  show ?case by (rule inv)
next
  case (step y z)
  then have "int (cw_raises y) < 2 ^ 63" using cache_step_raises [OF step.hyps(2)] by simp
  with step show ?case by (intro step_inv [OF us _ step.hyps(2)]) auto
qed

lemma hit_current:
  assumes us: "uuid_spelling us" and inv: "cache_inv us counter kept w" and app: "cache_app app" and k: "built_scope (ek_scope k)"
    and lt: "int (cw_raises w) < 2 ^ 63" and g: "ca_get us app bk t k (cw_store w) = (s', Inr r)" and f: "cr_found r"
  shows "\<exists>gen. Written app k (cr_value r) (cw_moves w app (ek_scope k)) \<in> set (cw_writes w)
    \<and> Stamp app k gen (cw_moves w app (ek_scope k)) \<in> set (cw_reads w)"
proof -
  have "key_valid k = None" using g by (auto simp: ca_get_def split: option.splits)
  with k have gk: "good_key k" by (simp add: good_key_def)
  from ca_get_answer [OF us inv app gk lt g] obtain c where
    c: "open_generation c = Some (scope_counter us counter (cw_store w) app (ek_scope k))"
      "r = read_answer [c, kept t (cw_store w) (entry_address us app k)]" by blast
  from c(2) f obtain b where b: "kept t (cw_store w) (entry_address us app k) = Some b"
    using read_answer_found by blast
  from inv have e: "entries_ok us kept w" and r: "reads_ok us counter w" and co: "counters_ok us counter w"
    by (simp_all add: cache_inv_def)
  from entries_okD [OF e b] obtain app' k' v g' n where
    w: "entry_address us app k = entry_address us app' k'" "cache_app app'" "good_key k'" "Written app' k' v n \<in> set (cw_writes w)"
      "Stamp app' k' g' n \<in> set (cw_reads w)" "gn_read g'" "b = encode_envelope (gn_gen g') v" .
  from entry_address_eqD [OF us app w(2) gk w(3,1)] have same: "app' = app" "k' = k" by auto
  note d = reads_okD [OF r w(5,6), unfolded same]
  have "scope_counter us counter (cw_store w) app (ek_scope k) \<le> int (cw_raises w)"
    using co app good_key_scope [OF gk] by (simp add: counters_ok_def)
  with d lt have "gn_gen g' < 2 ^ 63" by linarith
  from read_answer_stored [OF c(1) d(3) this] b w(7) c(2)
  have "cr_value r = v" "gn_gen g' = scope_counter us counter (cw_store w) app (ek_scope k)" using f by auto
  with d have "n = cw_moves w app (ek_scope k)" by linarith
  with w(4,5) same \<open>cr_value r = v\<close> show ?thesis by blast
qed

end

subsection \<open>The backend in memory meets the contract\<close>

definition mem_counter :: "mem_store \<Rightarrow> string \<Rightarrow> int option" where
  "mem_counter s = fmlookup (ms_counters s)"

definition mem_kept :: "time \<Rightarrow> mem_store \<Rightarrow> string \<Rightarrow> bytes option" where
  "mem_kept t s k = (case fmlookup (ms_entries s) k of None \<Rightarrow> None | Some r \<Rightarrow> if t < en_until r then Some (en_val r) else None)"

lemma mem_get_loop_counters: "ms_counters (fst (mem_get_loop now ks m)) = ms_counters m \<and> ms_closed (fst (mem_get_loop now ks m)) = ms_closed m"
  by (induction now ks m rule: mem_get_loop.induct) (auto split: option.splits prod.splits)

lemma mem_kept_drop: "mem_kept t (m\<lparr>ms_entries := fmdrop k (ms_entries m)\<rparr>) k' = (if k' = k then None else mem_kept t m k')"
  by (simp add: mem_kept_def)

lemma mem_get_loop_kept: "mem_kept t (fst (mem_get_loop now ks m)) k = Some b \<Longrightarrow> mem_kept t m k = Some b"
proof (induction now ks m rule: mem_get_loop.induct)
  case (2 now x ks m)
  then show ?case
    by (auto simp: mem_kept_drop split: option.splits prod.splits if_splits)
qed simp

lemma mem_get_loop_answers:
  "snd (mem_get_loop now ks m) = map (\<lambda>k. case mem_counter m k of Some n \<Rightarrow> Some (format_int n) | None \<Rightarrow> mem_kept now m k) ks"
proof (induction now ks m rule: mem_get_loop.induct)
  case (2 now x ks m)
  have d: "mem_kept now (m\<lparr>ms_entries := fmdrop x (ms_entries m)\<rparr>) = mem_kept now m"
    if "fmlookup (ms_entries m) x = Some r" "\<not> now < en_until r" for r
    using that by (auto simp: mem_kept_def fun_eq_iff)
  have c: "mem_counter (m\<lparr>ms_entries := e\<rparr>) = mem_counter m" for e by (simp add: mem_counter_def)
  show ?case
  proof (cases "fmlookup (ms_counters m) x")
    case (Some n)
    with 2 show ?thesis by (auto simp: mem_counter_def split: prod.splits)
  next
    case None
    show ?thesis
    proof (cases "fmlookup (ms_entries m) x")
      case None
      with \<open>fmlookup (ms_counters m) x = None\<close> 2 show ?thesis
        by (auto simp: mem_counter_def mem_kept_def split: prod.splits)
    next
      case (Some r)
      show ?thesis
      proof (cases "now < en_until r")
        case True
        with Some None 2 show ?thesis by (auto simp: mem_counter_def mem_kept_def split: prod.splits)
      next
        case False
        have kx: "mem_kept now m x = None" using Some False by (simp add: mem_kept_def)
        from 2(3) [OF None Some False, unfolded d [OF Some False] c] None Some False kx show ?thesis
          by (auto simp: mem_counter_def split: prod.split)
      qed
    qed
  qed
qed simp

lemma cache_prune_facts:
  "ms_counters (cache_prune np m) = ms_counters m" "ms_closed (cache_prune np m) = ms_closed m"
  "fmlookup (ms_entries (cache_prune np m)) k = Some r \<Longrightarrow> fmlookup (ms_entries m) k = Some r"
  by (auto simp: cache_prune_def Let_def split: if_splits)

lemma mem_kept_prune: "mem_kept t (cache_prune np m) k = Some b \<Longrightarrow> mem_kept t m k = Some b"
  by (auto simp: mem_kept_def dest: cache_prune_facts(3) split: option.splits)

lemma fold_fmdrop: "fmlookup (fold fmdrop ks m) k = (if k \<in> set ks then None else fmlookup m k)"
  by (induction ks arbitrary: m) auto

interpretation mem_cache: cache_contract mem_backend mem_counter mem_kept
proof
  fix t ks s s' vs
  assume "bk_get mem_backend t ks s = (s', Inr vs)"
  then have "vs = snd (mem_get_loop t ks s)" by (auto simp: mem_backend_def mem_get_many_def split: if_splits prod.splits)
  then show "vs = map (\<lambda>k. case mem_counter s k of Some n \<Rightarrow> Some (format_int n) | None \<Rightarrow> mem_kept t s k) ks"
    by (simp add: mem_get_loop_answers)
next
  fix t ks s
  have f: "fst (bk_get mem_backend t ks s) = (if ms_closed s then s else fst (mem_get_loop t ks s))"
    by (simp add: mem_backend_def mem_get_many_def split: prod.split)
  show "mem_counter (fst (bk_get mem_backend t ks s)) = mem_counter s"
    unfolding f by (simp add: mem_counter_def mem_get_loop_counters)
  show "mem_kept t' (fst (bk_get mem_backend t ks s)) k = Some b \<Longrightarrow> mem_kept t' s k = Some b" for t' k b
    unfolding f by (auto dest: mem_get_loop_kept split: if_splits)
next
  fix t k b ttl s
  show "mem_counter (fst (bk_set mem_backend t k b ttl s)) = mem_counter s"
    by (simp add: mem_backend_def mem_cache_set_def Let_def mem_counter_def cache_prune_facts)
  fix t' k' b'
  assume a: "mem_kept t' (fst (bk_set mem_backend t k b ttl s)) k' = Some b'"
  show "k' = k \<and> b' = b \<or> mem_kept t' s k' = Some b'"
  proof (cases "ms_closed s \<or> k' \<noteq> k")
    case True
    with a have "mem_kept t' s k' = Some b' \<or> mem_kept t' (cache_prune t s) k' = Some b'"
      by (auto simp: mem_backend_def mem_cache_set_def Let_def mem_kept_def split: if_splits)
    then show ?thesis by (auto dest: mem_kept_prune)
  next
    case False
    with a show ?thesis by (auto simp: mem_backend_def mem_cache_set_def Let_def mem_kept_def split: if_splits)
  qed
next
  fix ks s
  show "mem_counter (fst (bk_delete mem_backend ks s)) = mem_counter s"
    by (simp add: mem_backend_def mem_delete_def mem_counter_def)
  show "mem_kept t' (fst (bk_delete mem_backend ks s)) k = Some b \<Longrightarrow> mem_kept t' s k = Some b" for t' k b
    by (auto simp: mem_backend_def mem_delete_def mem_kept_def fold_fmdrop split: if_splits)
next
  fix s
  show "mem_counter (fst (bk_close mem_backend s)) = mem_counter s"
    by (simp add: mem_backend_def mem_close_def mem_counter_def)
  show "mem_kept t' (fst (bk_close mem_backend s)) k = Some b \<Longrightarrow> mem_kept t' s k = Some b" for t' k b
    by (auto simp: mem_backend_def mem_close_def mem_kept_def split: if_splits)
next
  fix k s
  show "bk_raise mem_backend k s = (s', Inr n) \<Longrightarrow> mem_counter s' k = Some (wrap64 (counter_value (mem_counter s k) + 1))" for s' n
    by (auto simp: mem_backend_def mem_raise_def mem_counter_def counter_value_def Let_def split: if_splits)
  show "mem_counter (fst (bk_raise mem_backend k s)) k \<in> {mem_counter s k, Some (wrap64 (counter_value (mem_counter s k) + 1))}"
    by (auto simp: mem_backend_def mem_raise_def mem_counter_def counter_value_def Let_def)
  show "k' \<noteq> k \<Longrightarrow> mem_counter (fst (bk_raise mem_backend k s)) k' = mem_counter s k'" for k'
    by (simp add: mem_backend_def mem_raise_def mem_counter_def Let_def)
  show "mem_kept t' (fst (bk_raise mem_backend k s)) k' = Some b \<Longrightarrow> mem_kept t' s k' = Some b" for t' k' b
    by (simp add: mem_backend_def mem_raise_def mem_kept_def Let_def split: if_splits)
qed

lemma mem_world_inv: "cache_inv us mem_counter mem_kept (cache_world_of mem_backend_new)"
  by (simp add: cache_inv_def counters_ok_def reads_ok_def entries_ok_def cache_world_of_def mem_backend_new_def
      scope_counter_def mem_counter_def counter_value_def mem_kept_def)

end
