(* ===== verification/CacheGroup.thy ===== *)
theory CacheGroup
  imports CacheSafety
begin

section \<open>Composed values, kept in bounds\<close>

text \<open>
  \<open>kit/cache/group.go\<close> and \<open>pool.go\<close>: the values one process composed, least recently used
  evicted first, each beside a marker in the shared store.  One call is one step: of the callers
  that \<open>singleflight\<close> lets wait, the one that goes first is modelled.  A call reads the clock
  before it composes (\<open>now\<close>) and after (\<open>fin\<close>); what composing answers is an argument.
\<close>

definition default_group_max :: nat where "default_group_max = 16"
definition default_group_ttl :: duration where "default_group_ttl = 30 * second"

definition marker_value :: bytes where "marker_value = [CHR 0x01]"

record group_config =
  gp_scope :: cache_scope
  gp_ttl :: duration
  gp_max :: nat

record 'v composed =
  co_value :: 'v
  co_expires :: time

record 'v group =
  gv_values :: "(entry_key, 'v composed) fmap"
  gv_order :: "entry_key list"

definition group_of :: "cache_scope \<Rightarrow> duration \<Rightarrow> int \<Rightarrow> group_config" where
  "group_of sc ttl mx =
     \<lparr>gp_scope = sc, gp_ttl = (if ttl \<le> 0 then default_group_ttl else ttl),
      gp_max = (if mx \<le> 0 then default_group_max else nat mx)\<rparr>"

definition new_group :: "'v group" where
  "new_group = \<lparr>gv_values = fmempty, gv_order = []\<rparr>"

definition group_drop :: "entry_key \<Rightarrow> 'v group \<Rightarrow> 'v group" where
  "group_drop k g = g\<lparr>gv_values := fmdrop k (gv_values g), gv_order := removeAll k (gv_order g)\<rparr>"

definition group_touch :: "entry_key \<Rightarrow> 'v group \<Rightarrow> 'v group" where
  "group_touch k g = g\<lparr>gv_order := removeAll k (gv_order g) @ [k]\<rparr>"

definition group_peek :: "time \<Rightarrow> entry_key \<Rightarrow> 'v group \<Rightarrow> 'v group \<times> 'v option" where
  "group_peek now k g =
     (case fmlookup (gv_values g) k of
        None \<Rightarrow> (g, None)
      | Some c \<Rightarrow> if \<not> now < co_expires c then (group_drop k g, None)
                  else (group_touch k g, Some (co_value c)))"

text \<open>The loop of \<open>remember\<close>: down to the bound, least recently used first.\<close>

function group_evict :: "nat \<Rightarrow> 'v group \<Rightarrow> 'v group" where
  "group_evict mx g =
     (if length (gv_order g) > mx then group_evict mx (group_drop (hd (gv_order g)) g) else g)"
  by pat_completeness auto
termination
proof (relation "measure (\<lambda>(mx, g). length (gv_order g))", goal_cases)
  case 1
  show ?case by simp
next
  case (2 mx g)
  then have "gv_order g \<noteq> []" by auto
  then have "hd (gv_order g) \<in> set (gv_order g)" by simp
  then have "length (removeAll (hd (gv_order g)) (gv_order g)) < length (gv_order g)"
    by (rule length_removeAll_less)
  then show ?case by (simp add: group_drop_def)
qed

declare group_evict.simps [simp del]

definition group_remember :: "group_config \<Rightarrow> time \<Rightarrow> entry_key \<Rightarrow> 'v \<Rightarrow> 'v group \<Rightarrow> 'v group" where
  "group_remember cfg now k v g =
     group_evict (gp_max cfg)
       (group_touch k (g\<lparr>gv_values := fmupd k \<lparr>co_value = v, co_expires = now + gp_ttl cfg\<rparr> (gv_values g)\<rparr>))"

text \<open>A held entry, and whether the store still believes it.\<close>

definition group_local :: "(uuid \<Rightarrow> string) \<Rightarrow> string \<Rightarrow> 's cache_backend \<Rightarrow> time \<Rightarrow> entry_key
    \<Rightarrow> 's \<times> 'v group \<Rightarrow> ('s \<times> 'v group) \<times> 'v option" where
  "group_local us app bk now k sg =
     (case sg of (s, g) \<Rightarrow>
        case group_peek now k g of
          (g1, None) \<Rightarrow> ((s, g1), None)
        | (g1, Some v) \<Rightarrow>
            (case ca_get us app bk now k s of
               (s1, Inl e) \<Rightarrow> ((s1, g1), Some v)
             | (s1, Inr r) \<Rightarrow>
                 if \<not> cr_found r \<or> cr_value r \<noteq> marker_value then ((s1, group_drop k g1), None)
                 else ((s1, g1), Some v)))"

datatype 'e group_error = KeyRefused cache_error | OtherScope | ComposeFailed 'e

definition group_load :: "(uuid \<Rightarrow> string) \<Rightarrow> string \<Rightarrow> 's cache_backend \<Rightarrow> group_config \<Rightarrow> time \<Rightarrow> time \<Rightarrow> entry_key
    \<Rightarrow> 'e + 'v \<Rightarrow> 's \<times> 'v group \<Rightarrow> ('s \<times> 'v group) \<times> ('e group_error + 'v)" where
  "group_load us app bk cfg now fin k compose sg =
     (case group_local us app bk now k sg of
        (sg1, Some v) \<Rightarrow> (sg1, Inr v)
      | ((s1, g1), None) \<Rightarrow>
          (case group_peek now k g1 of
             (g2, Some v) \<Rightarrow> ((s1, g2), Inr v)
           | (g2, None) \<Rightarrow>
               (case ca_get us app bk now k s1 of (s2, r) \<Rightarrow>
                  let stamp = (case r of Inl _ \<Rightarrow> no_generation | Inr a \<Rightarrow> cr_under a)
                  in case compose of
                       Inl e \<Rightarrow> ((s2, g2), Inl (ComposeFailed e))
                     | Inr v \<Rightarrow>
                         let s3 = fst (ca_set us app bk fin k marker_value (gp_ttl cfg) stamp s2)
                         in ((s3, group_remember cfg fin k v g2), Inr v))))"

definition group_get :: "(uuid \<Rightarrow> string) \<Rightarrow> string \<Rightarrow> 's cache_backend \<Rightarrow> group_config \<Rightarrow> time \<Rightarrow> time \<Rightarrow> entry_key
    \<Rightarrow> 'e + 'v \<Rightarrow> 's \<times> 'v group \<Rightarrow> ('s \<times> 'v group) \<times> ('e group_error + 'v)" where
  "group_get us app bk cfg now fin k compose sg =
     (case key_valid k of
        Some e \<Rightarrow> (sg, Inl (KeyRefused e))
      | None \<Rightarrow> if ek_scope k \<noteq> gp_scope cfg then (sg, Inl OtherScope)
                else group_load us app bk cfg now fin k compose sg)"

definition group_forget :: "(uuid \<Rightarrow> string) \<Rightarrow> string \<Rightarrow> 's cache_backend \<Rightarrow> entry_key \<Rightarrow> 's \<times> 'v group
    \<Rightarrow> ('s \<times> 'v group) \<times> cache_error option" where
  "group_forget us app bk k sg =
     (case sg of (s, g) \<Rightarrow> case ca_delete us app bk [k] s of (s', r) \<Rightarrow> ((s', group_drop k g), r))"

definition group_forget_all :: "(uuid \<Rightarrow> string) \<Rightarrow> string \<Rightarrow> 's cache_backend \<Rightarrow> group_config \<Rightarrow> 's \<times> 'v group
    \<Rightarrow> ('s \<times> 'v group) \<times> cache_error option" where
  "group_forget_all us app bk cfg sg =
     (case sg of (s, g) \<Rightarrow> case ca_move us app bk (gp_scope cfg) s of (s', r) \<Rightarrow> ((s', new_group), r))"

subsection \<open>Pools\<close>

definition pool_of :: "string \<Rightarrow> duration \<Rightarrow> int \<Rightarrow> group_config option" where
  "pool_of ns ttl mx =
     (if bad_namespace ns \<or> ttl \<le> 0 \<or> mx \<le> 0 then None else Some (group_of (shared_scope ns) ttl mx))"

datatype 'e pool_error = PoolKeyRefused cache_error | PoolScope | PoolCancelled | PoolFailed "'e group_error" | PoolStore cache_error

definition pool_valid :: "string \<Rightarrow> entry_key \<Rightarrow> 'e pool_error option" where
  "pool_valid ns k =
     (case key_valid k of
        Some e \<Rightarrow> Some (PoolKeyRefused e)
      | None \<Rightarrow> if sp_tenant (ek_scope k) = uuid_nil \<or> sp_ns (ek_scope k) \<noteq> ns then Some PoolScope else None)"

text \<open>The two flags say whether the caller's context was over before the load, and after it.\<close>

definition pool_load :: "(uuid \<Rightarrow> string) \<Rightarrow> string \<Rightarrow> 's cache_backend \<Rightarrow> group_config \<Rightarrow> string \<Rightarrow> bool \<Rightarrow> bool
    \<Rightarrow> time \<Rightarrow> time \<Rightarrow> entry_key \<Rightarrow> 'e + 'v \<Rightarrow> 's \<times> 'v group \<Rightarrow> ('s \<times> 'v group) \<times> ('e pool_error + 'v)" where
  "pool_load us app bk cfg ns gone_before gone_after now fin k compose sg =
     (case pool_valid ns k of
        Some e \<Rightarrow> (sg, Inl e)
      | None \<Rightarrow>
          if gone_before then (sg, Inl PoolCancelled)
          else case group_load us app bk cfg now fin k compose sg of
                 (sg', Inl e) \<Rightarrow> (sg', Inl (PoolFailed e))
               | (sg', Inr v) \<Rightarrow> if gone_after then (sg', Inl PoolCancelled) else (sg', Inr v))"

definition pool_forget :: "(uuid \<Rightarrow> string) \<Rightarrow> string \<Rightarrow> 's cache_backend \<Rightarrow> string \<Rightarrow> entry_key \<Rightarrow> 's \<times> 'v group
    \<Rightarrow> ('s \<times> 'v group) \<times> 'e pool_error option" where
  "pool_forget us app bk ns k sg =
     (case pool_valid ns k of
        Some e \<Rightarrow> (sg, Some e)
      | None \<Rightarrow> (case group_forget us app bk k sg of (sg', r) \<Rightarrow> (sg', map_option PoolStore r)))"

subsection \<open>The bound\<close>

definition group_ok :: "nat \<Rightarrow> (entry_key \<Rightarrow> bool) \<Rightarrow> 'v group \<Rightarrow> bool" where
  "group_ok mx P g \<longleftrightarrow> distinct (gv_order g) \<and> set (gv_order g) = fset (fmdom (gv_values g))
     \<and> length (gv_order g) \<le> mx \<and> list_all P (gv_order g)"

lemma group_ok_new [simp]: "group_ok mx P new_group"
  by (simp add: group_ok_def new_group_def)

lemma length_removeAll_le: "length (removeAll x xs) \<le> length xs"
  unfolding removeAll_filter_not_eq by (rule length_filter_le)

lemma group_ok_drop: "group_ok mx P g \<Longrightarrow> group_ok mx P (group_drop k g)"
  using le_trans [OF length_removeAll_le [of k "gv_order g"], of mx]
  by (auto simp: group_ok_def group_drop_def distinct_removeAll list_all_iff)

lemma group_ok_peek: "group_ok mx P g \<Longrightarrow> group_ok mx P (fst (group_peek now k g))"
proof (cases "fmlookup (gv_values g) k")
  case (Some c)
  assume ok: "group_ok mx P g"
  from Some have "k |\<in>| fmdom (gv_values g)" by (rule fmdomI)
  with ok have k: "k \<in> set (gv_order g)" by (simp add: group_ok_def)
  then have "length (removeAll k (gv_order g)) < length (gv_order g)" by (rule length_removeAll_less)
  with ok k have "group_ok mx P (group_touch k g)"
    by (auto simp: group_ok_def group_touch_def distinct_removeAll list_all_iff)
  with ok Some group_ok_drop show ?thesis by (auto simp: group_peek_def)
qed (simp add: group_peek_def)

lemma group_evict_ok:
  assumes "distinct (gv_order g)" "set (gv_order g) = fset (fmdom (gv_values g))" "list_all P (gv_order g)"
  shows "group_ok mx P (group_evict mx g)"
  using assms
proof (induction mx g rule: group_evict.induct)
  case (1 mx g)
  show ?case
  proof (cases "length (gv_order g) > mx")
    case True
    have "group_ok mx P (group_evict mx (group_drop (hd (gv_order g)) g))"
      using 1 by (intro 1(1) True) (auto simp: group_drop_def distinct_removeAll list_all_iff)
    with True show ?thesis by (simp add: group_evict.simps [of mx g])
  next
    case False
    with 1 show ?thesis by (simp add: group_evict.simps [of mx g] group_ok_def)
  qed
qed

lemma group_ok_remember: "group_ok (gp_max cfg) P g \<Longrightarrow> P k \<Longrightarrow> group_ok (gp_max cfg) P (group_remember cfg now k v g)"
  unfolding group_remember_def
  by (rule group_evict_ok) (auto simp: group_ok_def group_touch_def distinct_removeAll list_all_iff)

lemma group_ok_local: "group_ok mx P g \<Longrightarrow> group_ok mx P (snd (fst (group_local us app bk now k (s, g))))"
  using group_ok_peek [of mx P g now k]
  by (auto simp: group_local_def group_ok_drop split: prod.split option.split sum.split)

lemma group_ok_load:
  assumes "group_ok (gp_max cfg) P g" "P k"
  shows "group_ok (gp_max cfg) P (snd (fst (group_load us app bk cfg now fin k compose (s, g))))"
proof -
  obtain s1 g1 r where l: "group_local us app bk now k (s, g) = ((s1, g1), r)" by (metis surj_pair)
  with group_ok_local [OF assms(1), of us app bk now k s] have 1: "group_ok (gp_max cfg) P g1" by simp
  obtain g2 r' where p: "group_peek now k g1 = (g2, r')" by (metis surj_pair)
  with group_ok_peek [OF 1, of now k] have 2: "group_ok (gp_max cfg) P g2" by simp
  show ?thesis
    using 1 2 group_ok_remember [OF 2 assms(2)]
    by (auto simp: group_load_def l p Let_def split: option.split prod.split sum.split)
qed

text \<open>A process's calls, each on the store as it then stands: other processes use it too.\<close>

datatype ('e, 'v) group_call =
    GetCall time time entry_key "'e + 'v"
  | ForgetCall entry_key
  | ForgetAllCall

fun group_step :: "(uuid \<Rightarrow> string) \<Rightarrow> string \<Rightarrow> 's cache_backend \<Rightarrow> group_config \<Rightarrow> 's \<times> ('e, 'v) group_call \<Rightarrow> 'v group \<Rightarrow> 'v group" where
  "group_step us app bk cfg (s, GetCall now fin k compose) g = snd (fst (group_get us app bk cfg now fin k compose (s, g)))"
| "group_step us app bk cfg (s, ForgetCall k) g = snd (fst (group_forget us app bk k (s, g)))"
| "group_step us app bk cfg (s, ForgetAllCall) g = snd (fst (group_forget_all us app bk cfg (s, g)))"

lemma group_step_ok:
  assumes "group_ok (gp_max cfg) (\<lambda>k. ek_scope k = gp_scope cfg \<and> key_valid k = None) g"
  shows "group_ok (gp_max cfg) (\<lambda>k. ek_scope k = gp_scope cfg \<and> key_valid k = None) (group_step us app bk cfg sc g)"
proof (cases sc)
  case (Pair s c)
  show ?thesis
  proof (cases c)
    case (GetCall now fin k compose)
    with assms group_ok_load [OF assms, of k] show ?thesis
      by (auto simp: Pair group_get_def split: option.split)
  next
    case (ForgetCall k)
    with assms group_ok_drop show ?thesis by (auto simp: Pair group_forget_def split: prod.split)
  next
    case ForgetAllCall
    then show ?thesis by (auto simp: Pair group_forget_all_def split: prod.split)
  qed
qed

lemma group_steps_ok:
  "group_ok (gp_max cfg) (\<lambda>k. ek_scope k = gp_scope cfg \<and> key_valid k = None) g \<Longrightarrow>
   group_ok (gp_max cfg) (\<lambda>k. ek_scope k = gp_scope cfg \<and> key_valid k = None) (fold (group_step us app bk cfg) scs g)"
  by (induction scs arbitrary: g) (auto simp: group_step_ok)

subsection \<open>Least recently used first\<close>

definition last_n :: "nat \<Rightarrow> 'a list \<Rightarrow> 'a list" where
  "last_n n xs = drop (length xs - n) xs"

text \<open>One use of an entry as \<open>load\<close> makes it: held, or composed and remembered.\<close>

definition group_use :: "group_config \<Rightarrow> time \<Rightarrow> entry_key \<Rightarrow> 'v \<Rightarrow> 'v group \<Rightarrow> 'v group" where
  "group_use cfg now k v g =
     (case group_peek now k g of (g', Some w) \<Rightarrow> g' | (g', None) \<Rightarrow> group_remember cfg now k v g')"

text \<open>It is what \<open>Get\<close> makes of the group when the value composes and the store still believes a held entry.\<close>

lemma group_get_use:
  assumes "key_valid k = None" and "ek_scope k = gp_scope cfg"
    and marker: "\<And>w. snd (group_peek now k g) = Some w \<Longrightarrow>
      (case snd (ca_get us app bk now k s) of Inl e \<Rightarrow> True | Inr r \<Rightarrow> cr_found r \<and> cr_value r = marker_value)"
  shows "snd (fst (group_get us app bk cfg now now k (Inr v) (s, g))) = group_use cfg now k v g"
proof (cases "snd (group_peek now k g)")
  case None
  obtain g1 where g1: "group_peek now k g = (g1, None)" using None by (metis prod.collapse)
  then have "fmlookup (gv_values g1) k = None"
    by (auto simp: group_peek_def group_drop_def split: option.splits if_splits)
  then have "group_peek now k g1 = (g1, None)" by (simp add: group_peek_def)
  with g1 show ?thesis
    using assms(1,2) by (simp add: group_get_def group_load_def group_local_def group_use_def Let_def split: prod.split)
next
  case (Some w)
  then obtain g1 where "group_peek now k g = (g1, Some w)" by (metis prod.collapse)
  with marker [OF Some] show ?thesis
    using assms(1,2) by (auto simp: group_get_def group_load_def group_local_def group_use_def split: prod.splits sum.splits)
qed

lemma remdups_snoc: "remdups (xs @ [x]) = removeAll x (remdups xs) @ [x]"
  by (induction xs) auto

lemma last_n_all: "length xs \<le> n \<Longrightarrow> last_n n xs = xs"
  by (simp add: last_n_def)

lemma last_n_removeAll_outside:
  assumes "distinct xs" "x \<notin> set (last_n n xs)"
  shows "last_n n (removeAll x xs) = last_n n xs"
proof (cases "x \<in> set xs")
  case False
  then show ?thesis by simp
next
  case True
  define ys where "ys = take (length xs - n) xs"
  have xs: "xs = ys @ last_n n xs" by (simp add: ys_def last_n_def)
  with True assms(2) have "x \<in> set ys" by (metis Un_iff set_append)
  have "n < length xs" using \<open>x \<in> set ys\<close> by (cases "n < length xs") (auto simp: ys_def)
  then have ln: "length (last_n n xs) = n" by (simp add: last_n_def)
  have "removeAll x xs = removeAll x ys @ last_n n xs"
    using xs assms(2) by (metis removeAll_append removeAll_id)
  moreover have "last_n n (as @ bs) = bs" if "length bs = n" for as bs :: "'a list"
    using that by (simp add: last_n_def)
  ultimately show ?thesis using ln by metis
qed

lemma last_n_snoc:
  assumes "0 < n"
  shows "last_n n (last_n n xs @ [x]) = last_n n (xs @ [x])"
proof (cases "n \<le> length xs")
  case True
  then have "length xs - n + 1 = Suc (length xs) - n" by simp
  with True assms show ?thesis by (simp add: last_n_def add.commute)
qed (simp add: last_n_def)

lemma evict_order:
  assumes "distinct (gv_order g)"
  shows "gv_order (group_evict mx g) = last_n mx (gv_order g)"
  using assms
proof (induction mx g rule: group_evict.induct)
  case (1 mx g)
  show ?case
  proof (cases "length (gv_order g) > mx")
    case True
    then obtain x xs where x: "gv_order g = x # xs" by (cases "gv_order g") auto
    with 1(2) have "x \<notin> set xs" by simp
    then have o: "gv_order (group_drop (hd (gv_order g)) g) = xs" by (simp add: group_drop_def x)
    have "gv_order (group_evict mx (group_drop (hd (gv_order g)) g)) = last_n mx xs"
      using 1(1) [OF True] 1(2) o x by simp
    with True x show ?thesis by (simp add: group_evict.simps [of mx g] last_n_def Suc_diff_le)
  next
    case False
    then show ?thesis by (simp add: group_evict.simps [of mx g] last_n_def)
  qed
qed

lemma last_n_touch:
  assumes "distinct xs" "x \<in> set (last_n n xs)"
  shows "last_n n (removeAll x xs @ [x]) = removeAll x (last_n n xs) @ [x]"
proof (cases "length xs \<le> n")
  case True
  then have "last_n n xs = xs" by (rule last_n_all)
  moreover have "length (removeAll x xs) < length xs"
    using assms(2) calculation by (intro length_removeAll_less) simp
  ultimately show ?thesis using True by (simp add: last_n_all)
next
  case False
  define ys where "ys = take (length xs - n) xs"
  have xs: "xs = ys @ last_n n xs" by (simp add: ys_def last_n_def)
  have ln: "length (last_n n xs) = n" using False by (simp add: last_n_def)
  have "distinct (ys @ last_n n xs)" using assms(1) xs by metis
  then have "x \<notin> set ys" and dl: "distinct (last_n n xs)" using assms(2) by auto
  then have "removeAll x xs = ys @ removeAll x (last_n n xs)" using xs by (metis removeAll_append removeAll_id)
  moreover have "0 < n" using ln assms(2) by (cases "last_n n xs") auto
  then have "length (removeAll x (last_n n xs) @ [x]) = n"
    using ln assms(2) dl by (simp add: distinct_remove1_removeAll [symmetric] length_remove1 length_pos_if_in_set)
  ultimately show ?thesis by (simp add: last_n_def)
qed

definition all_alive :: "time \<Rightarrow> 'v group \<Rightarrow> bool" where
  "all_alive t g \<longleftrightarrow> (\<forall>k c. fmlookup (gv_values g) k = Some c \<longrightarrow> t \<le> co_expires c)"

lemma group_evict_values: "fmlookup (gv_values (group_evict mx g)) k = Some c \<Longrightarrow> fmlookup (gv_values g) k = Some c"
proof (induction mx g rule: group_evict.induct)
  case (1 mx g)
  then show ?case by (auto simp: group_evict.simps [of mx g] group_drop_def split: if_splits)
qed

lemma group_use_order:
  assumes mx: "0 < gp_max cfg" and now: "t0 \<le> now" "now < t0 + gp_ttl cfg"
    and ok: "group_ok (gp_max cfg) P g" and al: "all_alive (t0 + gp_ttl cfg) g"
    and o: "gv_order g = last_n (gp_max cfg) (remdups ks)"
  shows "gv_order (group_use cfg now k v g) = last_n (gp_max cfg) (remdups (ks @ [k]))"
    and "all_alive (t0 + gp_ttl cfg) (group_use cfg now k v g)"
proof -
  have d: "distinct (gv_order g)" "set (gv_order g) = fset (fmdom (gv_values g))" using ok by (simp_all add: group_ok_def)
  show "gv_order (group_use cfg now k v g) = last_n (gp_max cfg) (remdups (ks @ [k]))"
  proof (cases "fmlookup (gv_values g) k")
    case (Some c)
    then have "k |\<in>| fmdom (gv_values g)" by (rule fmdomI)
    with d have k: "k \<in> set (gv_order g)" by simp
    from al Some have "t0 + gp_ttl cfg \<le> co_expires c" unfolding all_alive_def by blast
    with now have "now < co_expires c" by simp
    with Some have "gv_order (group_use cfg now k v g) = removeAll k (gv_order g) @ [k]"
      by (simp add: group_use_def group_peek_def group_touch_def)
    with k o show ?thesis by (simp only: remdups_snoc last_n_touch distinct_remdups)
  next
    case None
    then have "k \<notin> fset (fmdom (gv_values g))" by (simp add: fmlookup_dom_iff)
    with d have k: "k \<notin> set (gv_order g)" by simp
    have "gv_order (group_use cfg now k v g) = last_n (gp_max cfg) (gv_order g @ [k])"
      using None k d(1) by (simp add: group_use_def group_peek_def group_remember_def evict_order group_touch_def)
    also have "\<dots> = last_n (gp_max cfg) (last_n (gp_max cfg) (removeAll k (remdups ks)) @ [k])"
      using k o by (simp add: last_n_removeAll_outside)
    also have "\<dots> = last_n (gp_max cfg) (remdups (ks @ [k]))"
      using mx by (simp only: last_n_snoc remdups_snoc)
    finally show ?thesis .
  qed
  have "all_alive (t0 + gp_ttl cfg) (group_remember cfg now k v g')" if "all_alive (t0 + gp_ttl cfg) g'" for g'
    using that now by (auto simp: all_alive_def group_remember_def group_touch_def dest!: group_evict_values split: if_splits)
  moreover have "all_alive (t0 + gp_ttl cfg) (fst (group_peek now k g))"
    using al by (auto simp: all_alive_def group_peek_def group_drop_def group_touch_def split: option.split)
  ultimately show "all_alive (t0 + gp_ttl cfg) (group_use cfg now k v g)"
    by (auto simp: group_use_def split: prod.splits option.splits)
qed

lemma group_ok_use:
  assumes "group_ok (gp_max cfg) P g" "P k"
  shows "group_ok (gp_max cfg) P (group_use cfg now k v g)"
proof -
  obtain g' r where p: "group_peek now k g = (g', r)" by (metis surj_pair)
  with group_ok_peek [OF assms(1), of now k] have "group_ok (gp_max cfg) P g'" by simp
  with group_ok_remember [of cfg P g' k now v] assms(2) show ?thesis
    by (simp add: group_use_def p split: option.split)
qed

fun group_uses :: "group_config \<Rightarrow> (time \<times> entry_key \<times> 'v) list \<Rightarrow> 'v group \<Rightarrow> 'v group" where
  "group_uses cfg [] g = g"
| "group_uses cfg ((now, k, v) # us) g = group_uses cfg us (group_use cfg now k v g)"

lemma group_uses_order:
  assumes "0 < gp_max cfg" "\<forall>u \<in> set us. t0 \<le> fst u \<and> fst u < t0 + gp_ttl cfg"
    "group_ok (gp_max cfg) (\<lambda>_. True) g" "all_alive (t0 + gp_ttl cfg) g" "gv_order g = last_n (gp_max cfg) (remdups ks)"
  shows "gv_order (group_uses cfg us g) = last_n (gp_max cfg) (remdups (ks @ map (fst \<circ> snd) us))"
  using assms(2-)
proof (induction us arbitrary: g ks)
  case (Cons u us)
  obtain now k v where u: "u = (now, k, v)" by (metis surj_pair)
  with Cons.prems have n: "t0 \<le> now" "now < t0 + gp_ttl cfg" by auto
  note s = group_use_order [OF assms(1) n Cons.prems(2,3,4), of k v]
  have ok: "group_ok (gp_max cfg) (\<lambda>_. True) (group_use cfg now k v g)" by (rule group_ok_use [OF Cons.prems(2)]) simp
  have "\<forall>u \<in> set us. t0 \<le> fst u \<and> fst u < t0 + gp_ttl cfg" using Cons.prems by simp
  from Cons.IH [OF this ok s(2,1)] show ?case by (simp add: u)
qed simp

end
