(* ===== verification/CacheProperties.thy ===== *)
theory CacheProperties
  imports CacheGroup AppNames
begin

section \<open>What the cache promises\<close>

text \<open>
  The properties of \<open>kit/cache\<close>: a hit is never older than a move of its scope, owners share no
  address, what is set is found, and the values a process composed stay in their bounds.
\<close>

text \<open>
  C22: The invalidation survives a racing load: after any interleaving of reads, writes, deletes,
  moves and a close by any applications over one store, a hit is a value that was written for
  that key under a read of it that had seen every move of the scope so far.
\<close>

theorem cache_hit_saw_every_move:
  assumes "uuid_spelling us" "cache_reaches us mem_backend (cache_world_of mem_backend_new) w" "int (cw_raises w) < 2 ^ 63"
    "cache_app app" "built_scope (ek_scope k)" "ca_get us app mem_backend t k (cw_store w) = (s', Inr r)" "cr_found r"
  shows "\<exists>gen. Written app k (cr_value r) (cw_moves w app (ek_scope k)) \<in> set (cw_writes w)
    \<and> Stamp app k gen (cw_moves w app (ek_scope k)) \<in> set (cw_reads w)"
  by (rule mem_cache.hit_current [OF assms(1) mem_cache.reaches_inv [OF assms(1,2) mem_world_inv assms(3)] assms(4,5,3,6,7)])

text \<open>A scope, a key and a generation to evaluate with.\<close>

definition host_scope :: cache_scope where "host_scope = shared_scope ''host''"
definition host_key :: entry_key where "host_key = entry host_scope ''example.com''"

lemma host_facts: "built_scope host_scope" "built_scope (ek_scope host_key)" "ek_scope host_key = host_scope" "good_key host_key"
  "cache_app ''shop''"
  by (simp_all add: host_scope_def host_key_def entry_def good_key_def) (code_simp+)

theorem cache_hit_saw_every_move_witness:
  "\<exists>w. cache_reaches uuid_text mem_backend (cache_world_of mem_backend_new) w \<and> cw_moves w ''shop'' host_scope = 1
     \<and> (\<exists>gen. Written ''shop'' host_key ''up'' 1 \<in> set (cw_writes w) \<and> Stamp ''shop'' host_key gen 1 \<in> set (cw_reads w))"
proof -
  let ?w0 = "cache_world_of mem_backend_new"
  let ?step = "cache_step uuid_text mem_backend"
  have m: "ca_move uuid_text ''shop'' mem_backend host_scope mem_backend_new =
      (fst (ca_move uuid_text ''shop'' mem_backend host_scope mem_backend_new), None)"
    by (simp add: ca_move_def mem_backend_def mem_raise_def mem_backend_new_def host_scope_def shared_scope_def bad_namespace_def Let_def)
  define s1 where "s1 = fst (ca_move uuid_text ''shop'' mem_backend host_scope mem_backend_new)"
  define w1 where "w1 = ?w0\<lparr>cw_store := s1, cw_raises := Suc (cw_raises ?w0),
      cw_moves := (cw_moves ?w0)(''shop'' := (cw_moves ?w0 ''shop'')(host_scope := Suc (cw_moves ?w0 ''shop'' host_scope)))\<rparr>"
  have 1: "?step ?w0 w1"
    unfolding w1_def s1_def by (rule cache_step.moved [OF host_facts(5,1)]) (simp add: cache_world_of_def m [symmetric])
  have g: "ca_get uuid_text ''shop'' mem_backend 5 host_key (cw_store w1) = (s1, Inr (CacheRead [] False (Generation 1 True)))"
    unfolding w1_def s1_def by simp code_simp
  define w2 where "w2 = w1\<lparr>cw_store := s1, cw_reads := Stamp ''shop'' host_key (Generation 1 True) (cw_moves w1 ''shop'' (ek_scope host_key)) # cw_reads w1\<rparr>"
  have 2: "?step w1 w2"
    unfolding w2_def using cache_step.get_answered [OF host_facts(5,2) g] by simp
  have st: "Stamp ''shop'' host_key (Generation 1 True) 1 \<in> set (cw_reads w2)"
    by (simp add: w2_def w1_def host_facts cache_world_of_def)
  define w3 where "w3 = w2\<lparr>cw_store := fst (ca_set uuid_text ''shop'' mem_backend 6 host_key ''up'' 30 (Generation 1 True) (cw_store w2)),
      cw_writes := Written ''shop'' host_key ''up'' 1 # cw_writes w2\<rparr>"
  have 3: "?step w2 w3" unfolding w3_def by (rule cache_step.sets [OF st])
  have r: "cache_reaches uuid_text mem_backend ?w0 w3"
    unfolding cache_reaches_def using 1 2 3 by (meson rtranclp.rtrancl_into_rtrancl rtranclp.rtrancl_refl)
  have lt: "int (cw_raises w3) < 2 ^ 63" by (simp add: w3_def w2_def w1_def cache_world_of_def)
  have hit: "ca_get uuid_text ''shop'' mem_backend 7 host_key (cw_store w3) = (cw_store w3, Inr (CacheRead ''up'' True (Generation 1 True)))"
    unfolding w3_def w2_def w1_def s1_def by simp code_simp
  have mv: "cw_moves w3 ''shop'' host_scope = 1" by (simp add: w3_def w2_def w1_def cache_world_of_def)
  from cache_hit_saw_every_move [OF uuid_text_spelling r lt host_facts(5,2) hit] mv r show ?thesis
    by (auto simp: host_facts)
qed

text \<open>
  C23: No owner reaches another's entry, and no entry is a counter: the address of an entry is
  one application's, one scope's and one name's, whatever the caller put in the name, and the
  address a move raises is never that of an entry.
\<close>

theorem cache_addresses_have_one_owner:
  assumes "uuid_spelling us" "cache_for a = Inr a" "cache_for a' = Inr a'" "built_scope (ek_scope k)" "key_valid k = None"
    "built_scope (ek_scope k')" "key_valid k' = None"
  shows "(entry_address us a k = entry_address us a' k' \<longleftrightarrow> a = a' \<and> k = k')
    \<and> generation_key us a (ek_scope k) \<noteq> entry_address us a' k'
    \<and> (generation_key us a (ek_scope k) = generation_key us a' (ek_scope k') \<longleftrightarrow> a = a' \<and> ek_scope k = ek_scope k')"
proof -
  have a: "cache_app a" "cache_app a'" and k: "good_key k" "good_key k'"
    using assms by (simp_all add: cache_app_def good_key_def)
  from entry_address_eqD [OF assms(1) a k] generation_not_entry [OF assms(1) a good_key_scope [OF k(1)], of k']
    generation_key_eqD [OF assms(1) a, of "ek_scope k" "ek_scope k'"]
  show ?thesis by auto
qed

theorem cache_addresses_have_one_owner_witness:
  "entry_address uuid_text ''shop'' host_key \<noteq> entry_address uuid_text '''' host_key
   \<and> generation_key uuid_text ''shop'' host_scope \<noteq> entry_address uuid_text ''shop'' host_key"
proof -
  have "cache_for ''shop'' = Inr ''shop''" "cache_for '''' = Inr ''''" by code_simp+
  from cache_addresses_have_one_owner [OF uuid_text_spelling this host_facts(2) _ host_facts(2)]
    cache_addresses_have_one_owner [OF uuid_text_spelling this(1,1) host_facts(2) _ host_facts(2)] host_facts(3,4)
  show ?thesis by (simp add: good_key_def)
qed

text \<open>
  C24: What is set under a read is found by the next: a write stamped by the read that decided
  it is a hit until its lifetime ends, with the bytes it was given, when nobody moved the scope
  between, in every store that calls reach.
\<close>

theorem cache_finds_what_was_set:
  assumes "uuid_spelling us" "cache_reaches us mem_backend (cache_world_of mem_backend_new) w" "int (cw_raises w) < 2 ^ 63"
    "cache_app app" "built_scope (ek_scope k)" "\<not> ms_closed (cw_store w)"
    "ca_get us app mem_backend t k (cw_store w) = (s, Inr r)" "0 < ttl" "t2 < t1 + ttl"
  shows "\<exists>s1 s2. ca_set us app mem_backend t1 k v ttl (cr_under r) s = (s1, None)
    \<and> ca_get us app mem_backend t2 k s1 = (s2, Inr (CacheRead v True (cr_under r)))"
proof -
  note us = assms(1)
  have "key_valid k = None" using assms(7) by (auto simp: ca_get_def split: option.splits)
  with assms(5) have k: "good_key k" and kv: "key_valid k = None" by (simp_all add: good_key_def)
  have inv: "cache_inv us mem_counter mem_kept w" by (rule mem_cache.reaches_inv [OF us assms(2) mem_world_inv assms(3)])
  let ?c = "scope_counter us mem_counter (cw_store w) app (ek_scope k)"
  from mem_cache.ca_get_answer [OF us inv assms(4) k assms(3,7)] obtain c where
    c: "open_generation c = Some ?c" "r = read_answer [c, mem_kept t (cw_store w) (entry_address us app k)]" by blast
  have u: "cr_under r = Generation ?c True" unfolding c(2) by (rule read_answer_under [OF c(1)])
  have b: "0 \<le> ?c" "?c < 2 ^ 63" using inv assms(3,4) good_key_scope [OF k] by (auto simp: cache_inv_def counters_ok_def dest!: spec [of _ app])
  have s: "s = fst (mem_get_loop t [generation_key us app (ek_scope k), entry_address us app k] (cw_store w))"
    using assms(6,7) kv by (auto simp: ca_get_def mem_backend_def mem_get_many_def simp del: mem_get_loop.simps split: prod.splits)
  define w1 where "w1 = w\<lparr>cw_store := s, cw_reads := Stamp app k (cr_under r) (cw_moves w app (ek_scope k)) # cw_reads w\<rparr>"
  have 1: "cache_step us mem_backend w w1" unfolding w1_def by (rule cache_step.get_answered [OF assms(4,5,7)])
  define s1 where "s1 = fst (ca_set us app mem_backend t1 k v ttl (cr_under r) s)"
  define w2 where "w2 = w1\<lparr>cw_store := s1, cw_writes := Written app k v (cw_moves w app (ek_scope k)) # cw_writes w1\<rparr>"
  have 2: "cache_step us mem_backend w1 w2"
  proof -
    have "Stamp app k (cr_under r) (cw_moves w app (ek_scope k)) \<in> set (cw_reads w1)" by (simp add: w1_def)
    from cache_step.sets [OF this, of us mem_backend v t1 ttl] show ?thesis by (simp add: w2_def w1_def s1_def)
  qed
  have lt: "int (cw_raises w1) < 2 ^ 63" "int (cw_raises w2) < 2 ^ 63" using assms(3) by (simp_all add: w1_def w2_def)
  have inv2: "cache_inv us mem_counter mem_kept w2"
    by (rule mem_cache.step_inv [OF us mem_cache.step_inv [OF us inv 1 lt(1)] 2 lt(2)])
  have opn: "\<not> ms_closed s" using assms(6) by (simp add: s mem_get_loop_counters del: mem_get_loop.simps)
  have set: "ca_set us app mem_backend t1 k v ttl (cr_under r) s = (s1, None)"
    using kv assms(8) opn by (simp add: s1_def ca_set_def u mem_backend_def mem_cache_set_def Let_def)
  have kept: "mem_kept t2 s1 (entry_address us app k) = Some (encode_envelope ?c v)" and open1: "\<not> ms_closed s1"
    using kv assms(8,9) opn
    by (simp_all add: s1_def ca_set_def u mem_backend_def mem_cache_set_def Let_def mem_kept_def cache_prune_facts)
  obtain s2 r2 where g2: "ca_get us app mem_backend t2 k (cw_store w2) = (s2, Inr r2)"
    using kv open1
    by (cases "mem_get_loop t2 [generation_key us app (ek_scope k), entry_address us app k] s1")
      (auto simp: ca_get_def mem_backend_def mem_get_many_def w2_def simp del: mem_get_loop.simps)
  from mem_cache.ca_get_answer [OF us inv2 assms(4) k lt(2) g2] obtain c2 where
    c2: "open_generation c2 = Some (scope_counter us mem_counter s1 app (ek_scope k))"
      "r2 = read_answer [c2, mem_kept t2 s1 (entry_address us app k)]" by (auto simp: w2_def)
  have "scope_counter us mem_counter s1 app (ek_scope k) = ?c"
    by (simp add: scope_counter_def s1_def mem_cache.ca_set_store(1)) (simp add: mem_counter_def s mem_get_loop_counters del: mem_get_loop.simps)
  with c2 read_answer_stored [OF _ b, of c2 ?c v] kept u have "r2 = CacheRead v True (cr_under r)" by simp
  with set g2 show ?thesis by (simp add: w2_def)
qed

theorem cache_finds_what_was_set_witness:
  "\<exists>s1 s2. ca_set uuid_text ''shop'' mem_backend 6 host_key ''up'' 30 (Generation 0 True) mem_backend_new = (s1, None)
    \<and> ca_get uuid_text ''shop'' mem_backend 7 host_key s1 = (s2, Inr (CacheRead ''up'' True (Generation 0 True)))"
proof -
  let ?w = "cache_world_of mem_backend_new"
  have g: "ca_get uuid_text ''shop'' mem_backend 5 host_key (cw_store ?w) = (mem_backend_new, Inr (CacheRead [] False (Generation 0 True)))"
    unfolding cache_world_of_def by simp code_simp
  have r: "cache_reaches uuid_text mem_backend ?w ?w" by (simp add: cache_reaches_def)
  have o: "int (cw_raises ?w) < 2 ^ 63" "\<not> ms_closed (cw_store ?w)" by (simp_all add: cache_world_of_def mem_backend_new_def)
  from cache_finds_what_was_set [OF uuid_text_spelling r o(1) host_facts(5,2) o(2) g, of 30 7 6 "''up''"] show ?thesis by simp
qed

text \<open>
  C25: A group never holds more than its bound nor another scope's entry: whatever the calls of a
  process, whatever the shared store then holds and answers, its values are exactly those its
  recency list names, each once, of its own scope, and no more than \<open>max\<close>.
\<close>

theorem group_keeps_its_bound:
  "let cfg = group_of sc ttl mx; g = fold (group_step us app bk cfg) calls new_group
   in distinct (gv_order g) \<and> set (gv_order g) = fset (fmdom (gv_values g)) \<and> length (gv_order g) \<le> gp_max cfg
    \<and> list_all (\<lambda>k. ek_scope k = sc \<and> key_valid k = None) (gv_order g)"
proof -
  have "group_ok (gp_max (group_of sc ttl mx)) (\<lambda>k. ek_scope k = gp_scope (group_of sc ttl mx) \<and> key_valid k = None)
     (fold (group_step us app bk (group_of sc ttl mx)) calls new_group)"
    by (rule group_steps_ok) simp
  moreover have "gp_scope (group_of sc ttl mx) = sc" by (simp add: group_of_def)
  ultimately show ?thesis by (simp add: group_ok_def Let_def)
qed

text \<open>
  C26: What a group evicts is what was used least recently: after any uses within one lifetime it
  holds, in the order of their last use, the last \<open>max\<close> of the entries used.
\<close>

theorem group_evicts_least_recently_used:
  assumes "\<forall>u \<in> set uses. t0 \<le> fst u \<and> fst u < t0 + gp_ttl (group_of sc ttl mx)"
  shows "gv_order (group_uses (group_of sc ttl mx) uses new_group) =
    last_n (gp_max (group_of sc ttl mx)) (remdups (map (fst \<circ> snd) uses))"
proof -
  have "0 < gp_max (group_of sc ttl mx)" by (simp add: group_of_def default_group_max_def)
  from group_uses_order [OF this assms group_ok_new, of "[]"] show ?thesis
    by (simp add: all_alive_def new_group_def last_n_def)
qed

theorem group_evicts_least_recently_used_witness:
  "gv_order (group_uses (group_of host_scope 60 2) [(1, entry host_scope ''a'', 0::nat), (2, entry host_scope ''b'', 0),
      (3, entry host_scope ''a'', 0), (4, entry host_scope ''c'', 0)] new_group)
   = [entry host_scope ''a'', entry host_scope ''c'']"
  by (subst group_evicts_least_recently_used [of _ 0])
    (simp_all add: group_of_def last_n_def entry_def host_scope_def shared_scope_def bad_namespace_def)

text \<open>
  An entry every process was told to forget is served again: the marker that another process
  leaves when it composes anew says nothing of who composed, so the first process, asked after
  \<open>ForgetAll\<close>, answers the value it had composed before it.
\<close>

lemma group_serves_a_forgotten_value:
  "let cfg = group_of host_scope (60 * second) 16;
       get = (\<lambda>now v sg. group_get uuid_text ''shop'' mem_backend cfg now now host_key (Inr v :: unit + string) sg);
       ((s1, a1), _) = get 1 ''old'' (mem_backend_new, new_group);
       ((s2, b1), forgot) = group_forget_all uuid_text ''shop'' mem_backend cfg (s1, new_group);
       ((s3, b2), fresh) = get 3 ''new'' (s2, b1);
       ((s4, a2), served) = get 4 ''new'' (s3, a1)
   in forgot = None \<and> fresh = Inr ''new'' \<and> served = Inr ''old''"
  by code_simp

lemma slug_tail_loop: "slug_tail dash cs \<Longrightarrow> prev \<noteq> None \<Longrightarrow> dash \<longleftrightarrow> prev = Some (CHR ''-'') \<Longrightarrow> slug_loop prev cs = None"
proof (induction prev cs arbitrary: dash rule: slug_loop.induct)
  case (2 prev c cs)
  show ?case
  proof (cases "slug_letter c")
    case True
    then have "is_alnum c" "c \<noteq> CHR ''-''" by (auto simp: slug_letter_def is_alnum_def)
    with 2 True show ?thesis by auto
  next
    case False
    then have "\<not> is_alnum c" by (simp add: slug_letter_def is_alnum_def)
    with 2(3-) have c: "c = CHR ''-''" "\<not> dash" "slug_tail True cs" by (auto split: if_splits)
    then have "cs \<noteq> []" by auto
    with 2(2) [OF False c(1)] 2(4,5) c False show ?thesis by auto
  qed
qed simp

text \<open>
  C28: The cache writes at the address the application's name promises: a name a process may run
  under opens a cache, and its addresses are those of \<open>kit/appname\<close>.
\<close>

theorem cache_address_is_the_applications:
  assumes "usable app"
  shows "cache_for app = Inr app \<and> join_address us app tenant name = cache_key us app tenant name"
proof (cases "named app")
  case False
  then show ?thesis by (simp add: named_def cache_for_def join_address_def cache_key_def)
next
  case True
  with assms have v: "valid_name app" by (simp add: usable_def)
  then obtain c cs where a: "app = c # cs" "is_lower c" "slug_tail False cs" "length app \<le> 32"
    by (cases app) (auto simp: valid_name_def)
  then have "slug_letter c" "c \<noteq> CHR ''-''" by (auto simp: is_lower_def slug_letter_def)
  then have "slug_loop None app = None" using a slug_tail_loop [of False cs "Some c"] by auto
  then have "cache_for app = Inr app" using a by (simp add: cache_for_def slug_check_def cache_max_name_def)
  then show ?thesis by (simp add: join_address_def cache_key_def token_valid [OF v])
qed

theorem cache_address_is_the_applications_witness:
  "cache_for ''shop-2'' = Inr ''shop-2'' \<and> join_address uuid_text ''shop-2'' 7 ''host#'' = cache_key uuid_text ''shop-2'' 7 ''host#''"
proof -
  have "usable ''shop-2''" by code_simp
  then show ?thesis by (rule cache_address_is_the_applications)
qed

end
