(* ===== verification/EventCatalog.thy ===== *)
theory EventCatalog
  imports AppNames "HOL-Library.AList" "HOL-Library.Char_ord" "HOL-Library.List_Lexorder"
begin

section \<open>Declared events\<close>

text \<open>
  \<open>kit/events/catalog.go\<close> and \<open>publisher.go\<close>: which events each application of a process declares,
  what their payloads look like, and the grips that keep a name standing while a composition
  that declared it lives.  A payload's schema is read as the document it marshals to, which is
  what \<open>sameShape\<close> compares; whether a payload fits one is the argument \<open>fits\<close>.  The maps of
  the source are association lists.  A process that installed nothing has the empty catalogue.
\<close>

type_synonym schema = string

record declared =
  de_name :: string
  de_schema :: "schema option"

record catalogue =
  ct_by_app :: "(app_name \<times> (string \<times> schema) list) list"
  ct_declared :: "(app_name \<times> string list) list"
  ct_grips :: "(app_name \<times> (string \<times> nat) list) list"

definition no_catalogue :: catalogue where
  "no_catalogue = \<lparr>ct_by_app = [], ct_declared = [], ct_grips = []\<rparr>"

text \<open>A map of maps, read at a key it may not hold.\<close>

definition held_at :: "('a \<times> 'b list) list \<Rightarrow> 'a \<Rightarrow> 'b list" where
  "held_at m k = (case map_of m k of None \<Rightarrow> [] | Some v \<Rightarrow> v)"

definition put_under :: "'a \<Rightarrow> 'b list \<Rightarrow> ('a \<times> 'b list) list \<Rightarrow> ('a \<times> 'b list) list" where
  "put_under k v m = (if v = [] then AList.delete k m else AList.update k v m)"

subsection \<open>One shape per name\<close>

definition same_shape :: "schema option \<Rightarrow> schema option \<Rightarrow> bool" where
  "same_shape a b \<longleftrightarrow> a = b"

definition names_of :: "declared list \<Rightarrow> string list" where
  "names_of decls = map de_name decls"

definition shapes_of :: "declared list \<Rightarrow> string \<Rightarrow> schema option list" where
  "shapes_of decls name = map de_schema (filter (\<lambda>d. de_name d = name) decls)"

fun distinct_shapes :: "schema option list \<Rightarrow> schema option list \<Rightarrow> schema option list" where
  "distinct_shapes known [] = known"
| "distinct_shapes known (s # ss) =
     distinct_shapes (if list_ex (\<lambda>k. same_shape k s) known then known else known @ [s]) ss"

fun first_names :: "string list \<Rightarrow> string list \<Rightarrow> string list" where
  "first_names seen [] = []"
| "first_names seen (n # ns) = (if n \<in> set seen then first_names seen ns else n # first_names (n # seen) ns)"

text \<open>The names declared under several shapes, with how often and which shapes.\<close>

definition one_shape_per_name :: "declared list \<Rightarrow> (string \<times> nat \<times> schema option list) list" where
  "one_shape_per_name decls =
     [(n, length (shapes_of decls n), distinct_shapes [] (shapes_of decls n)).
        n \<leftarrow> first_names [] (names_of decls), length (distinct_shapes [] (shapes_of decls n)) \<ge> 2]"

datatype catalog_error =
    ManyShapes "(string \<times> nat \<times> schema option list) list"
  | Clashes "(string \<times> schema \<times> schema option) list"
  | CatalogNotAName

definition declared_schemas :: "declared list \<Rightarrow> catalog_error + (string \<times> schema option) list" where
  "declared_schemas decls =
     (if one_shape_per_name decls \<noteq> [] then Inl (ManyShapes (one_shape_per_name decls))
      else Inr [(n, hd (shapes_of decls n)). n \<leftarrow> first_names [] (names_of decls)])"

definition clashes :: "app_name \<Rightarrow> (string \<times> schema option) list \<Rightarrow> catalogue \<Rightarrow> (string \<times> schema \<times> schema option) list" where
  "clashes slug want c =
     List.map_filter (\<lambda>n. case (map_of (held_at (ct_by_app c) slug) n, map_of want n) of
         (Some d, Some w) \<Rightarrow> if same_shape (Some d) w then None else Some (n, d, w)
       | _ \<Rightarrow> None)
       (sort (map fst want))"

definition check_app_declared :: "app_name \<Rightarrow> declared list \<Rightarrow> catalogue \<Rightarrow> catalog_error option" where
  "check_app_declared slug decls c =
     (case declared_schemas decls of
        Inl e \<Rightarrow> Some e
      | Inr want \<Rightarrow> if clashes slug want c \<noteq> [] then Some (Clashes (clashes slug want c)) else None)"

subsection \<open>Installing\<close>

text \<open>\<open>retype\<close>: a name is typed while the entry of any application holds a schema for it.\<close>

definition payload_typed :: "catalogue \<Rightarrow> string \<Rightarrow> bool" where
  "payload_typed c name \<longleftrightarrow> list_ex (\<lambda>(_, m). name \<in> set (map fst m)) (ct_by_app c)"

definition typed_entries :: "declared list \<Rightarrow> (string \<times> schema) list" where
  "typed_entries decls =
     fold (\<lambda>d m. case de_schema d of None \<Rightarrow> m | Some s \<Rightarrow> AList.update (de_name d) s m) decls []"

definition declare_app :: "app_name \<Rightarrow> declared list \<Rightarrow> catalogue \<Rightarrow> catalogue" where
  "declare_app slug decls c =
     \<lparr>ct_by_app = put_under slug (typed_entries decls) (ct_by_app c),
      ct_declared = put_under slug (names_of decls) (ct_declared c),
      ct_grips = AList.delete slug (ct_grips c)\<rparr>"

text \<open>The loop of \<open>DeclareFor\<close> over what the composition wants, and the claim it answers.\<close>

definition grip_count :: "(string \<times> nat) list \<Rightarrow> string \<Rightarrow> nat" where
  "grip_count counts n = (case map_of counts n of None \<Rightarrow> 0 | Some k \<Rightarrow> k)"

fun take_grips :: "(string \<times> schema option) list \<Rightarrow> (string \<times> schema) list \<times> string list \<times> (string \<times> nat) list
    \<Rightarrow> (string \<times> schema) list \<times> string list \<times> (string \<times> nat) list" where
  "take_grips [] acc = acc"
| "take_grips ((n, s) # want) (entry, names, held) =
     take_grips want
       ((case s of None \<Rightarrow> entry | Some x \<Rightarrow> AList.update n x entry), List.insert n names,
        AList.update n (grip_count held n + 1) held)"

record grip =
  gr_app :: app_name
  gr_claim :: "string list"

definition declare_for :: "app_name \<Rightarrow> declared list \<Rightarrow> catalogue \<Rightarrow> catalog_error + (catalogue \<times> grip)" where
  "declare_for slug decls c =
     (case declared_schemas decls of
        Inl e \<Rightarrow> Inl e
      | Inr want \<Rightarrow>
          if clashes slug want c \<noteq> [] then Inl (Clashes (clashes slug want c))
          else case take_grips want (held_at (ct_by_app c) slug, held_at (ct_declared c) slug, held_at (ct_grips c) slug) of
            (entry, names, held) \<Rightarrow>
              Inr (\<lparr>ct_by_app = (if entry \<noteq> [] then AList.update slug entry (ct_by_app c) else ct_by_app c),
                    ct_declared = (if names \<noteq> [] then AList.update slug names (ct_declared c) else ct_declared c),
                    ct_grips = AList.update slug held (ct_grips c)\<rparr>,
                   \<lparr>gr_app = slug, gr_claim = map fst want\<rparr>))"

fun give_back :: "string list \<Rightarrow> (string \<times> schema) list \<times> string list \<times> (string \<times> nat) list
    \<Rightarrow> (string \<times> schema) list \<times> string list \<times> (string \<times> nat) list" where
  "give_back [] acc = acc"
| "give_back (n # claim) (entry, names, counts) =
     (if grip_count counts n > 1 then give_back claim (entry, names, AList.update n (grip_count counts n - 1) counts)
      else give_back claim (AList.delete n entry, removeAll n names, AList.delete n counts))"

text \<open>The release of a claim; a second one does nothing, \<open>once\<close> seeing to it.\<close>

definition release_grip :: "grip \<Rightarrow> catalogue \<Rightarrow> catalogue" where
  "release_grip g c =
     (case give_back (gr_claim g) (held_at (ct_by_app c) (gr_app g), held_at (ct_declared c) (gr_app g), held_at (ct_grips c) (gr_app g)) of
        (entry, names, counts) \<Rightarrow>
          \<lparr>ct_by_app = put_under (gr_app g) entry (ct_by_app c),
           ct_declared = put_under (gr_app g) names (ct_declared c),
           ct_grips = (if map_of (ct_grips c) (gr_app g) = None then ct_grips c
                       else AList.update (gr_app g) counts (ct_grips c))\<rparr>)"

subsection \<open>A composition's own catalogue\<close>

record catalog =
  cg_app :: app_name
  cg_names :: "string list"
  cg_schemas :: "(string \<times> schema) list"
  cg_grip :: "grip option"

definition new_catalog :: "app_name \<Rightarrow> declared list \<Rightarrow> catalogue \<Rightarrow> catalog_error + (catalogue \<times> catalog)" where
  "new_catalog app decls c =
     (if named app \<and> \<not> valid_name app then Inl CatalogNotAName
      else case declare_for app decls c of
        Inl e \<Rightarrow> Inl e
      | Inr (c', g) \<Rightarrow>
          Inr (c', \<lparr>cg_app = app, cg_names = names_of decls, cg_schemas = typed_entries decls, cg_grip = Some g\<rparr>))"

definition close_catalog :: "catalog \<Rightarrow> catalogue \<Rightarrow> catalogue \<times> catalog" where
  "close_catalog cat c =
     (case cg_grip cat of
        None \<Rightarrow> (c, cat)
      | Some g \<Rightarrow> (release_grip g c, cat\<lparr>cg_grip := None\<rparr>))"

subsection \<open>What a publication is held to\<close>

datatype measure_error = UndeclaredEvent app_name string | NotAsDeclared app_name string

definition catalog_measure :: "(schema \<Rightarrow> string \<Rightarrow> bool) \<Rightarrow> catalog \<Rightarrow> string \<Rightarrow> string \<Rightarrow> measure_error option" where
  "catalog_measure fits cat name body =
     (if cg_names cat = [] then None
      else if name \<notin> set (cg_names cat) then Some (UndeclaredEvent (cg_app cat) name)
      else case map_of (cg_schemas cat) name of
        None \<Rightarrow> None
      | Some s \<Rightarrow> if fits s body then None else Some (NotAsDeclared (cg_app cat) name))"

definition check_payload :: "(schema \<Rightarrow> string \<Rightarrow> bool) \<Rightarrow> catalogue \<Rightarrow> app_name \<Rightarrow> string \<Rightarrow> string \<Rightarrow> measure_error option" where
  "check_payload fits c app name body =
     (case map_of (held_at (ct_by_app c) app) name of
        None \<Rightarrow> None
      | Some s \<Rightarrow> if fits s body then None else Some (NotAsDeclared app name))"

definition check_declared :: "catalogue \<Rightarrow> app_name \<Rightarrow> string \<Rightarrow> measure_error option" where
  "check_declared c app name =
     (if ct_declared c = [] then None
      else if payload_typed c name then
        (if name \<in> set (held_at (ct_declared c) app) then None else Some (UndeclaredEvent app name))
      else if list_ex (\<lambda>(_, names). name \<in> set names) (ct_declared c) then None
      else Some (UndeclaredEvent app name))"

text \<open>\<open>holder\<close> is the application that holds the tenant the event is written for.\<close>

definition measure_manifest :: "(schema \<Rightarrow> string \<Rightarrow> bool) \<Rightarrow> catalogue \<Rightarrow> catalog option \<Rightarrow> app_name \<Rightarrow> string \<Rightarrow> string
    \<Rightarrow> measure_error option" where
  "measure_manifest fits c pub holder name body =
     (case pub of
        Some cat \<Rightarrow> catalog_measure fits cat name body
      | None \<Rightarrow>
          if \<not> payload_typed c name then check_declared c '''' name
          else case check_declared c holder name of
            Some e \<Rightarrow> Some e
          | None \<Rightarrow> check_payload fits c holder name body)"

subsection \<open>Names stand while claims live\<close>

text \<open>Compositions come and go: the claims that are live beside the catalogue they made.\<close>

inductive catalog_step :: "catalogue \<times> grip list \<Rightarrow> catalogue \<times> grip list \<Rightarrow> bool" where
  declares: "declare_for slug decls c = Inr (c', g) \<Longrightarrow> catalog_step (c, gs) (c', g # gs)"
| releases: "g \<in> set gs \<Longrightarrow> catalog_step (c, gs) (release_grip g c, remove1 g gs)"

definition catalog_reaches :: "catalogue \<Rightarrow> grip list \<Rightarrow> bool" where
  "catalog_reaches c gs \<longleftrightarrow> catalog_step\<^sup>*\<^sup>* (no_catalogue, []) (c, gs)"

definition live_claims :: "grip list \<Rightarrow> app_name \<Rightarrow> string \<Rightarrow> nat" where
  "live_claims gs slug n = length (filter (\<lambda>g. gr_app g = slug \<and> n \<in> set (gr_claim g)) gs)"

definition catalog_inv :: "catalogue \<Rightarrow> grip list \<Rightarrow> bool" where
  "catalog_inv c gs \<longleftrightarrow> list_all (\<lambda>g. distinct (gr_claim g)) gs
     \<and> (\<forall>slug n. grip_count (held_at (ct_grips c) slug) n = live_claims gs slug n
         \<and> (n \<in> set (held_at (ct_declared c) slug) \<longleftrightarrow> 0 < live_claims gs slug n)
         \<and> (map_of (held_at (ct_by_app c) slug) n \<noteq> None \<longrightarrow> 0 < live_claims gs slug n))"

lemma held_at_update: "held_at (AList.update k v m) k' = (if k' = k then v else held_at m k')"
  by (simp add: held_at_def update_conv')

lemma held_at_put: "held_at (put_under k v m) k' = (if k' = k then v else held_at m k')"
  by (simp add: put_under_def held_at_update) (simp add: held_at_def delete_conv')

lemma grip_count_update: "grip_count (AList.update n k held) n' = (if n' = n then k else grip_count held n')"
  by (simp add: grip_count_def update_conv')

lemma grip_count_delete: "grip_count (AList.delete n held) n' = (if n' = n then 0 else grip_count held n')"
  by (simp add: grip_count_def delete_conv')

lemma set_first_names: "set (first_names seen ns) = set ns - set seen"
  by (induction seen ns rule: first_names.induct) auto

lemma distinct_first_names: "distinct (first_names seen ns)"
  by (induction seen ns rule: first_names.induct) (auto simp: set_first_names)

lemma declared_schemas_names: "declared_schemas decls = Inr want \<Longrightarrow> distinct (map fst want)"
  by (auto simp: declared_schemas_def distinct_first_names comp_def split: if_splits)

lemma take_grips_facts:
  assumes "take_grips want (entry, names, held) = (entry', names', held')" "distinct (map fst want)"
  shows "grip_count held' n = grip_count held n + (if n \<in> fst ` set want then 1 else 0)"
    and "n \<in> set names' \<longleftrightarrow> n \<in> set names \<or> n \<in> fst ` set want"
    and "map_of entry' n \<noteq> None \<Longrightarrow> map_of entry n \<noteq> None \<or> n \<in> fst ` set want"
  using assms
proof (induction want "(entry, names, held)" arbitrary: entry names held rule: take_grips.induct)
  case (2 m s want entry names held)
  { case 1 with 2(1) show ?case by (force simp: grip_count_update split: option.splits) }
  { case 2 with "2.hyps"(2) show ?case by (auto split: option.splits) }
  { case 3 with "2.hyps"(3) show ?case by (force simp: update_conv' split: option.splits if_splits) }
qed auto

lemma give_back_facts:
  assumes "give_back claim (entry, names, counts) = (entry', names', counts')" "distinct claim"
  shows "grip_count counts' n = grip_count counts n - (if n \<in> set claim then 1 else 0)"
    and "n \<in> set names' \<longleftrightarrow> n \<in> set names \<and> \<not> (n \<in> set claim \<and> grip_count counts n \<le> 1)"
    and "map_of entry' n = (if n \<in> set claim \<and> grip_count counts n \<le> 1 then None else map_of entry n)"
  using assms
proof (induction claim "(entry, names, counts)" arbitrary: entry names counts rule: give_back.induct)
  case (2 m claim entry names counts)
  { case 1 with "2.hyps"(1,4) show ?case by (auto simp: grip_count_update grip_count_delete split: if_splits) }
  { case 2 with "2.hyps"(2,5) show ?case by (auto simp: grip_count_update grip_count_delete split: if_splits) }
  { case 3 with "2.hyps"(3,6) show ?case by (auto simp: grip_count_update grip_count_delete delete_conv' split: if_splits) }
qed auto

lemma live_claims_Cons: "live_claims (g # gs) slug n = (if gr_app g = slug \<and> n \<in> set (gr_claim g) then 1 else 0) + live_claims gs slug n"
  by (simp add: live_claims_def)

lemma live_claims_remove: "g \<in> set gs \<Longrightarrow>
    live_claims (remove1 g gs) slug n = live_claims gs slug n - (if gr_app g = slug \<and> n \<in> set (gr_claim g) then 1 else 0)"
  by (auto simp: live_claims_def filter_remove1 length_remove1)

lemma live_claims_pos: "0 < live_claims gs slug n \<longleftrightarrow> (\<exists>g \<in> set gs. gr_app g = slug \<and> n \<in> set (gr_claim g))"
  by (auto simp: live_claims_def filter_empty_conv)

lemma catalog_step_inv:
  assumes "catalog_step x y" "catalog_inv (fst x) (snd x)"
  shows "catalog_inv (fst y) (snd y)"
  using assms
proof cases
  case (declares slug decls c c' g gs)
  then obtain want where w: "declared_schemas decls = Inr want" by (auto simp: declare_for_def split: sum.splits)
  obtain entry names held where t: "take_grips want (held_at (ct_by_app c) slug, held_at (ct_declared c) slug, held_at (ct_grips c) slug) = (entry, names, held)"
    by (metis prod_cases3)
  note tf = take_grips_facts [OF t declared_schemas_names [OF w]]
  from declares(3) w t have g: "g = \<lparr>gr_app = slug, gr_claim = map fst want\<rparr>"
    and c': "held_at (ct_grips c') = (\<lambda>k. if k = slug then held else held_at (ct_grips c) k)"
      "names \<noteq> [] \<Longrightarrow> held_at (ct_declared c') = (\<lambda>k. if k = slug then names else held_at (ct_declared c) k)"
      "names = [] \<Longrightarrow> ct_declared c' = ct_declared c"
      "entry \<noteq> [] \<Longrightarrow> held_at (ct_by_app c') = (\<lambda>k. if k = slug then entry else held_at (ct_by_app c) k)"
      "entry = [] \<Longrightarrow> ct_by_app c' = ct_by_app c"
    by (auto simp: declare_for_def fun_eq_iff held_at_update split: if_splits)
  have names: "n \<in> set (held_at (ct_declared c') k) \<longleftrightarrow> n \<in> set (held_at (ct_declared c) k) \<or> k = slug \<and> n \<in> fst ` set want" for k n
    using tf(2) [of n] c'(2,3) by (cases "names = []") auto
  have entries: "map_of (held_at (ct_by_app c') k) n = Some s \<Longrightarrow> map_of (held_at (ct_by_app c) k) n \<noteq> None \<or> k = slug \<and> n \<in> fst ` set want" for k n s
    using tf(3) [of n] c'(4,5) by (cases "entry = []") (auto split: if_splits)
  show ?thesis
    using assms(2) declares(1,2) declared_schemas_names [OF w]
    by (auto simp: catalog_inv_def g c'(1) tf(1) names live_claims_Cons dest!: entries)
next
  case (releases g gs c)
  obtain entry names counts where b: "give_back (gr_claim g) (held_at (ct_by_app c) (gr_app g), held_at (ct_declared c) (gr_app g), held_at (ct_grips c) (gr_app g)) = (entry, names, counts)"
    by (metis prod_cases3)
  have d: "distinct (gr_claim g)" using releases assms(2) by (auto simp: catalog_inv_def list_all_iff)
  note gf = give_back_facts [OF b d]
  have inv: "grip_count (held_at (ct_grips c) k) n = live_claims gs k n"
    "n \<in> set (held_at (ct_declared c) k) \<longleftrightarrow> 0 < live_claims gs k n"
    "map_of (held_at (ct_by_app c) k) n \<noteq> None \<Longrightarrow> 0 < live_claims gs k n" for k n
    using assms(2) releases by (auto simp: catalog_inv_def)
  have grips: "grip_count (held_at (ct_grips (release_grip g c)) k) n = live_claims (remove1 g gs) k n" for k n
  proof (cases "map_of (ct_grips c) (gr_app g) = None \<and> k = gr_app g")
    case True
    then have "grip_count (held_at (ct_grips c) k) n = 0" by (simp add: held_at_def grip_count_def)
    with True inv(1) [of k n] b show ?thesis by (simp add: release_grip_def live_claims_remove [OF releases(3)])
  next
    case False
    then show ?thesis using gf(1) [of n] inv(1) [of k n] b
      by (auto simp: release_grip_def held_at_update live_claims_remove [OF releases(3)])
  qed
  have pos: "0 < live_claims (remove1 g gs) k n \<longleftrightarrow> 0 < live_claims gs k n \<and> \<not> (k = gr_app g \<and> n \<in> set (gr_claim g) \<and> live_claims gs k n \<le> 1)" for k n
    by (auto simp: live_claims_remove [OF releases(3)])
  have "n \<in> set (held_at (ct_declared (release_grip g c)) k) \<longleftrightarrow> 0 < live_claims (remove1 g gs) k n" for k n
    using b by (simp add: release_grip_def held_at_put gf(2) inv pos)
  moreover have "map_of (held_at (ct_by_app (release_grip g c)) k) n \<noteq> None \<Longrightarrow> 0 < live_claims (remove1 g gs) k n" for k n
    using b inv(3) [of k n] by (simp add: release_grip_def held_at_put gf(3) inv(1) pos split: if_splits)
  moreover have "list_all (\<lambda>g. distinct (gr_claim g)) (remove1 g gs)"
    using releases assms(2) by (auto simp: catalog_inv_def list_all_iff dest: notin_set_remove1 in_set_remove1)
  ultimately show ?thesis using releases grips by (simp add: catalog_inv_def)
qed

lemma catalog_reaches_inv: "catalog_reaches c gs \<Longrightarrow> catalog_inv c gs"
  unfolding catalog_reaches_def
proof (induction "(c, gs)" arbitrary: c gs rule: rtranclp_induct)
  case base
  then show ?case by (simp add: catalog_inv_def no_catalogue_def held_at_def grip_count_def live_claims_def)
next
  case (step y)
  then show ?case using catalog_step_inv [of y "(c, gs)"] by (cases y) auto
qed

end
