(* ===== verification/Outbox.thy ===== *)
theory Outbox
  imports EventCatalog Receipts
begin

section \<open>The outbox\<close>

text \<open>
  \<open>kit/events/events.go\<close> (the write), \<open>operation.go\<close> (the facts of the originating operation) and
  \<open>relay.go\<close>.  The tables are lists of rows: \<open>tenants.app\<close>, the outbox, the two delivery ledgers
  and the operations of \<open>Receipts\<close>.  A payload is the text it marshalled to; an address is kept
  as it was given.  \<open>us\<close> prints an identifier and \<open>parse\<close> reads one, both third-party.
\<close>

subsection \<open>Names and attributions\<close>

text \<open>The pattern \<open>^[a-z][a-z0-9_]*(\.[a-z][a-z0-9_]*)+$\<close>; the flag is whether a dot was seen.\<close>

definition name_letter :: "char \<Rightarrow> bool" where
  "name_letter c \<longleftrightarrow> is_lower c \<or> c \<in> set ''0123456789_''"

fun name_tail :: "bool \<Rightarrow> string \<Rightarrow> bool" where
  "name_tail dot [] \<longleftrightarrow> dot"
| "name_tail dot (c # cs) \<longleftrightarrow>
     (if c = CHR ''.'' then (case cs of [] \<Rightarrow> False | d # ds \<Rightarrow> is_lower d \<and> name_tail True ds)
      else name_letter c \<and> name_tail dot cs)"

definition valid_event_name :: "string \<Rightarrow> bool" where
  "valid_event_name n \<longleftrightarrow> (case n of [] \<Rightarrow> False | c # cs \<Rightarrow> is_lower c \<and> name_tail False cs)"

definition max_source_file :: nat where "max_source_file = 512"

record attribution =
  at_kind :: string
  at_file :: string
  at_line :: int
  at_initiator :: uuid

definition attribution_valid :: "attribution \<Rightarrow> bool" where
  "attribution_valid a \<longleftrightarrow> at_kind a \<in> {''user'', ''system'', ''seed'', ''job''}
     \<and> \<not> ((at_file a = '''') \<noteq> (at_line a = 0) \<or> at_line a < 0 \<or> length (at_file a) > max_source_file)"

definition nil_if_zero :: "int \<Rightarrow> int option" where
  "nil_if_zero n = (if n = 0 then None else Some n)"

definition nil_if_empty :: "string \<Rightarrow> string option" where
  "nil_if_empty s = (if s = '''' then None else Some s)"

definition or_zero :: "'a \<Rightarrow> 'a option \<Rightarrow> 'a" where
  "or_zero z v = (case v of None \<Rightarrow> z | Some x \<Rightarrow> x)"

subsection \<open>Rows\<close>

text \<open>The envelope: the address \<open>AppNames\<close> checks, and the rest of what an event carries.\<close>

record delivery_event = event +
  ev_id :: uuid
  ev_payload :: string
  ev_at :: time
  ev_actor :: uuid
  ev_traceparent :: string
  ev_tracestate :: string
  ev_baggage :: string
  ev_request :: string
  ev_client :: string
  ev_kind :: string
  ev_file :: string
  ev_line :: int
  ev_initiator :: uuid
  ev_operation :: operation

record operation_facts =
  of_ident :: string
  of_ref :: string
  of_tenant :: string
  of_person :: "string option"
  of_outcome :: "outcome option"
  of_revision :: int

record outbox_row =
  ob_id :: uuid
  ob_tenant :: uuid
  ob_name :: string
  ob_payload :: string
  ob_created :: time
  ob_published :: "time option"
  ob_actor :: "uuid option"
  ob_traceparent :: "string option"
  ob_tracestate :: "string option"
  ob_baggage :: "string option"
  ob_request :: "string option"
  ob_client :: "string option"
  ob_kind :: "string option"
  ob_file :: "string option"
  ob_line :: "int option"
  ob_initiator :: "uuid option"
  ob_operation :: "operation_facts option"

record handled_row =
  hd_event :: uuid
  hd_durable :: string
  hd_tenant :: uuid
  hd_at :: time
  hd_owed :: int

record dead_row =
  dd_event :: uuid
  dd_durable :: string
  dd_tenant :: uuid
  dd_name :: string
  dd_error :: string
  dd_at :: time

record event_db =
  ed_apps :: "(uuid \<times> app_name) list"
  ed_outbox :: "outbox_row list"
  ed_handled :: "handled_row list"
  ed_dead :: "dead_row list"
  ed_operations :: operation_table

definition empty_event_db :: event_db where
  "empty_event_db = \<lparr>ed_apps = [], ed_outbox = [], ed_handled = [], ed_dead = [], ed_operations = fmempty\<rparr>"

definition app_of_tenant :: "event_db \<Rightarrow> uuid \<Rightarrow> app_name" where
  "app_of_tenant db tenant = (case map_of (ed_apps db) tenant of None \<Rightarrow> '''' | Some a \<Rightarrow> a)"

datatype event_error =
    NotAnEventName
  | Measured measure_error
  | BadAttribution
  | NoTenant
  | BadOperation
  | OperationRefused op_error
  | HandlerFailed string
  | OwesEffect
  | EffectNotRun
  | NoMark
  | NothingToReplay
  | ReasonRequired
  | ActorRequired
  | OwnedByAnotherApp
  | NotASlug
  | LedgerContended
  | PublishRefused

subsection \<open>The originating operation\<close>

definition no_operation :: operation where
  "no_operation = \<lparr>op_ident = '''', op_ref = '''', op_tenant = '''', op_person = '''', op_outcome = Unknown, op_revision = 0\<rparr>"

definition validate_operation :: "(string \<Rightarrow> uuid option) \<Rightarrow> operation \<Rightarrow> bool" where
  "validate_operation parse opn \<longleftrightarrow> opn = no_operation \<or>
     (valid_token (op_ident opn) \<and> op_revision opn > 0 \<and> (op_outcome opn = Unknown \<or> outcome_valid (op_outcome opn))
      \<and> list_all (\<lambda>v. case parse v of None \<Rightarrow> False | Some i \<Rightarrow> i \<noteq> uuid_nil) [op_ref opn, op_tenant opn]
      \<and> (op_person opn = '''' \<or> (case parse (op_person opn) of None \<Rightarrow> False | Some i \<Rightarrow> i \<noteq> uuid_nil)))"

text \<open>What a call's context carries that a write reads.\<close>

record call_context =
  cx_actor :: "uuid option"
  cx_attribution :: "attribution option"
  cx_traceparent :: string
  cx_tracestate :: string
  cx_baggage :: string
  cx_request :: string
  cx_client :: string
  cx_operation :: operation
  cx_deferred :: bool
  cx_delivery :: "delivery_event option"

definition ended :: "outcome \<Rightarrow> bool" where
  "ended out \<longleftrightarrow> out = Succeeded \<or> out = Failed"

definition operation_snapshot :: "(uuid \<Rightarrow> string) \<Rightarrow> (string \<Rightarrow> uuid option) \<Rightarrow> call_context \<Rightarrow> uuid \<Rightarrow> bool
    \<Rightarrow> operation_table \<Rightarrow> event_error + operation" where
  "operation_snapshot us parse cx tenant system tbl =
     (let opn = cx_operation cx
      in if opn = no_operation then Inr no_operation
         else if \<not> validate_operation parse opn then Inl BadOperation
         else if \<not> system \<and> op_tenant opn \<noteq> us tenant then
           (case cx_delivery cx of
              None \<Rightarrow> Inl (OperationRefused NotFound)
            | Some ev \<Rightarrow>
                if ev_tenant ev = tenant \<and> ev_operation ev = opn \<and> ended (op_outcome opn) then Inr opn
                else Inl (OperationRefused NotFound))
         else case (parse (op_tenant opn), parse (op_ref opn)) of
            (Some t, Some ref) \<Rightarrow>
              (case fmlookup tbl (t, ref) of
                 None \<Rightarrow> if ended (op_outcome opn) then Inr opn else Inl (OperationRefused NotFound)
               | Some row \<Rightarrow>
                   if or_ident row \<noteq> op_ident opn
                      \<or> (case or_person row of None \<Rightarrow> '''' | Some p \<Rightarrow> us p) \<noteq> op_person opn
                   then Inl (OperationRefused NotFound)
                   else Inr (opn\<lparr>op_revision := or_revision row, op_outcome := or_zero Unknown (or_outcome row)\<rparr>))
          | _ \<Rightarrow> Inl (OperationRefused NotFound))"

definition operation_columns :: "operation \<Rightarrow> operation_facts option" where
  "operation_columns opn =
     (if op_ident opn = '''' then None
      else Some \<lparr>of_ident = op_ident opn, of_ref = op_ref opn, of_tenant = op_tenant opn,
        of_person = nil_if_empty (op_person opn),
        of_outcome = (if op_outcome opn = Unknown then None else Some (op_outcome opn)),
        of_revision = op_revision opn\<rparr>)"

subsection \<open>The one insert\<close>

record composition =
  cp_fits :: "schema \<Rightarrow> string \<Rightarrow> bool"
  cp_installed :: catalogue
  cp_carried :: "catalog option"

definition write_event :: "(uuid \<Rightarrow> string) \<Rightarrow> (string \<Rightarrow> uuid option) \<Rightarrow> composition \<Rightarrow> call_context \<Rightarrow> time \<Rightarrow> uuid
    \<Rightarrow> uuid \<Rightarrow> string \<Rightarrow> string \<Rightarrow> bool \<Rightarrow> event_db \<Rightarrow> event_error + event_db" where
  "write_event us parse cp cx now new tenant name body system db =
     (if \<not> valid_event_name name then Inl NotAnEventName
      else case measure_manifest (cp_fits cp) (cp_installed cp) (cp_carried cp) (app_of_tenant db tenant) name body of
        Some e \<Rightarrow> Inl (Measured e)
      | None \<Rightarrow>
          if (case cx_attribution cx of Some a \<Rightarrow> \<not> attribution_valid a | None \<Rightarrow> False) then Inl BadAttribution
          else case operation_snapshot us parse cx tenant system (ed_operations db) of
            Inl e \<Rightarrow> Inl e
          | Inr opn \<Rightarrow>
              Inr (db\<lparr>ed_outbox := ed_outbox db @
                [\<lparr>ob_id = new, ob_tenant = tenant, ob_name = name, ob_payload = body, ob_created = now, ob_published = None,
                  ob_actor = (case cx_attribution cx of None \<Rightarrow> cx_actor cx
                     | Some a \<Rightarrow> if at_kind a = ''user'' then cx_actor cx else None),
                  ob_traceparent = nil_if_empty (cx_traceparent cx), ob_tracestate = nil_if_empty (cx_tracestate cx),
                  ob_baggage = nil_if_empty (cx_baggage cx), ob_request = nil_if_empty (cx_request cx),
                  ob_client = nil_if_empty (cx_client cx),
                  ob_kind = map_option at_kind (cx_attribution cx),
                  ob_file = Option.bind (cx_attribution cx) (\<lambda>a. nil_if_empty (at_file a)),
                  ob_line = Option.bind (cx_attribution cx) (\<lambda>a. nil_if_zero (at_line a)),
                  ob_initiator = Option.bind (cx_attribution cx) (\<lambda>a. nullable_uuid (at_initiator a)),
                  ob_operation = operation_columns opn\<rparr>]\<rparr>))"

definition publish_for :: "(uuid \<Rightarrow> string) \<Rightarrow> (string \<Rightarrow> uuid option) \<Rightarrow> composition \<Rightarrow> call_context \<Rightarrow> time \<Rightarrow> uuid
    \<Rightarrow> uuid \<Rightarrow> string \<Rightarrow> string \<Rightarrow> event_db \<Rightarrow> event_error + event_db" where
  "publish_for us parse cp cx now new tenant name body db =
     (if tenant = uuid_nil then Inl NoTenant else write_event us parse cp cx now new tenant name body True db)"

definition publish :: "(uuid \<Rightarrow> string) \<Rightarrow> (string \<Rightarrow> uuid option) \<Rightarrow> composition \<Rightarrow> call_context \<Rightarrow> time \<Rightarrow> uuid
    \<Rightarrow> uuid \<Rightarrow> string \<Rightarrow> string \<Rightarrow> event_db \<Rightarrow> event_error + event_db" where
  "publish us parse cp cx now new tenant name body db = write_event us parse cp cx now new tenant name body False db"

subsection \<open>The relay\<close>

definition batch :: nat where "batch = 100"

definition row_operation :: "operation_facts option \<Rightarrow> operation" where
  "row_operation v =
     (case v of
        None \<Rightarrow> no_operation
      | Some f \<Rightarrow> \<lparr>op_ident = of_ident f, op_ref = of_ref f, op_tenant = of_tenant f, op_person = or_zero '''' (of_person f),
          op_outcome = or_zero Unknown (of_outcome f), op_revision = of_revision f\<rparr>)"

definition row_event :: "outbox_row \<Rightarrow> delivery_event" where
  "row_event r =
     \<lparr>ev_app = '''', ev_tenant = ob_tenant r, ev_name = ob_name r, ev_id = ob_id r, ev_payload = ob_payload r,
      ev_at = ob_created r, ev_actor = or_zero uuid_nil (ob_actor r),
      ev_traceparent = or_zero '''' (ob_traceparent r), ev_tracestate = or_zero '''' (ob_tracestate r),
      ev_baggage = or_zero '''' (ob_baggage r), ev_request = or_zero '''' (ob_request r),
      ev_client = or_zero '''' (ob_client r), ev_kind = or_zero '''' (ob_kind r), ev_file = or_zero '''' (ob_file r),
      ev_line = or_zero 0 (ob_line r), ev_initiator = or_zero uuid_nil (ob_initiator r),
      ev_operation = row_operation (ob_operation r)\<rparr>"

definition pending :: "app_name \<Rightarrow> event_db \<Rightarrow> outbox_row \<Rightarrow> bool" where
  "pending app db r \<longleftrightarrow> ob_published r = None \<and> app_of_tenant db (ob_tenant r) = app"

text \<open>\<open>locked\<close> holds the rows other workers have taken, which \<open>SKIP LOCKED\<close> passes over.\<close>

definition queue :: "uuid list \<Rightarrow> app_name \<Rightarrow> event_db \<Rightarrow> outbox_row list" where
  "queue locked app db =
     sort_key ob_created (sort_key ob_id (filter (\<lambda>r. pending app db r \<and> ob_id r \<notin> set locked) (ed_outbox db)))"

definition relay_rows :: "uuid list \<Rightarrow> app_name \<Rightarrow> event_db \<Rightarrow> outbox_row list" where
  "relay_rows locked app db = take batch (queue locked app db)"

definition stamp_rows :: "time \<Rightarrow> uuid list \<Rightarrow> event_db \<Rightarrow> event_db" where
  "stamp_rows now ids db =
     db\<lparr>ed_outbox := map (\<lambda>r. if ob_id r \<in> set ids then r\<lparr>ob_published := Some now\<rparr> else r) (ed_outbox db)\<rparr>"

text \<open>One batch: the events the transport accepted, then how many rows moved or the error.\<close>

definition relay_batch :: "time \<Rightarrow> uuid list \<Rightarrow> (delivery_event \<Rightarrow> bool) \<Rightarrow> app_name \<Rightarrow> event_db
    \<Rightarrow> event_db \<times> delivery_event list \<times> (event_error + nat)" where
  "relay_batch now locked accepts app db =
     (let rows = relay_rows locked app db; sent = takeWhile accepts (map row_event rows)
      in if length sent < length rows then (db, sent, Inl PublishRefused)
         else (stamp_rows now (map ob_id rows) db, sent, Inr (length rows)))"

lemma takeWhile_whole: "length xs \<le> length (takeWhile P xs) \<Longrightarrow> takeWhile P xs = xs"
  by (induction xs) (auto split: if_splits)

lemma relay_batch_cases:
  assumes "relay_batch now locked accepts app db = (db', sent, res)"
  obtains "db' = db" "res = Inl PublishRefused" "sent = takeWhile accepts (map row_event (relay_rows locked app db))"
  | "db' = stamp_rows now (map ob_id (relay_rows locked app db)) db" "res = Inr (length (relay_rows locked app db))"
    "sent = map row_event (relay_rows locked app db)"
proof (cases "length (takeWhile accepts (map row_event (relay_rows locked app db))) < length (relay_rows locked app db)")
  case True
  with assms show ?thesis by (intro that(1)) (auto simp: relay_batch_def Let_def)
next
  case False
  then have "takeWhile accepts (map row_event (relay_rows locked app db)) = map row_event (relay_rows locked app db)"
    by (intro takeWhile_whole) simp
  with False assms show ?thesis by (intro that(2)) (auto simp: relay_batch_def Let_def)
qed

definition unpublished :: "event_db \<Rightarrow> nat" where
  "unpublished db = length (filter (\<lambda>r. ob_published r = None) (ed_outbox db))"

lemma queue_set [simp]: "set (queue locked app db) = {r \<in> set (ed_outbox db). pending app db r \<and> ob_id r \<notin> set locked}"
  by (auto simp: queue_def)

lemma relay_batch_decreases:
  assumes "relay_batch now locked accepts app db = (db', sent, Inr n)" "n \<ge> batch"
  shows "unpublished db' < unpublished db"
proof -
  from assms(1) have db': "db' = stamp_rows now (map ob_id (relay_rows locked app db)) db" and n: "n = length (relay_rows locked app db)"
    by (auto elim: relay_batch_cases)
  from n assms(2) obtain r where r: "r \<in> set (relay_rows locked app db)"
    by (cases "relay_rows locked app db") (auto simp: batch_def)
  then have "r \<in> set (queue locked app db)" by (auto simp: relay_rows_def dest: in_set_takeD)
  then have "r \<in> set (ed_outbox db)" "ob_published r = None" by (auto simp: pending_def)
  with r show ?thesis
    unfolding unpublished_def db' stamp_rows_def
    by (simp add: filter_map) (rule length_filter_strict [of _ _ r], auto split: if_splits)
qed

text \<open>The loop of \<open>RelayFor\<close>, while nobody else writes: until a batch is short or one fails.\<close>

function relay_for :: "time \<Rightarrow> uuid list \<Rightarrow> (delivery_event \<Rightarrow> bool) \<Rightarrow> app_name \<Rightarrow> event_db
    \<Rightarrow> event_db \<times> delivery_event list \<times> event_error option" where
  "relay_for now locked accepts app db =
     (case relay_batch now locked accepts app db of
        (db', sent, Inl e) \<Rightarrow> (db', sent, Some e)
      | (db', sent, Inr n) \<Rightarrow>
          if n < batch then (db', sent, None)
          else case relay_for now locked accepts app db' of (db'', later, e) \<Rightarrow> (db'', sent @ later, e))"
  by pat_completeness auto
termination
  by (relation "measure (\<lambda>(now, locked, accepts, app, db). unpublished db)") (auto dest!: relay_batch_decreases [OF sym])

declare relay_for.simps [simp del]

subsection \<open>Retention\<close>

definition event_keep :: duration where "event_keep = 7 * 24 * hour"

definition purge_outbox :: "time \<Rightarrow> event_db \<Rightarrow> event_db" where
  "purge_outbox now db =
     db\<lparr>ed_outbox := filter (\<lambda>r. \<not> ((case ob_published r of None \<Rightarrow> False | Some s \<Rightarrow> s < now - event_keep)
         \<and> \<not> list_ex (\<lambda>d. dd_event d = ob_id r) (ed_dead db))) (ed_outbox db)\<rparr>"

definition purge_handled :: "time \<Rightarrow> event_db \<Rightarrow> event_db" where
  "purge_handled now db =
     db\<lparr>ed_handled := filter (\<lambda>h. \<not> (hd_at h < now - event_keep
         \<and> \<not> list_ex (\<lambda>r. ob_id r = hd_event h) (ed_outbox db)
         \<and> \<not> list_ex (\<lambda>d. dd_event d = hd_event h \<and> dd_durable d = hd_durable h) (ed_dead db))) (ed_handled db)\<rparr>"

definition purge_events :: "time \<Rightarrow> event_db \<Rightarrow> event_db" where
  "purge_events now db = purge_handled now (purge_outbox now db)"

subsection \<open>How far behind the queue is\<close>

datatype lag_series = LagSeries uuid string

definition lag_key :: "outbox_row \<Rightarrow> lag_series" where
  "lag_key r = LagSeries (ob_tenant r) (ob_name r)"

fun oldest_from :: "lag_series list \<Rightarrow> outbox_row list \<Rightarrow> outbox_row list" where
  "oldest_from seen [] = []"
| "oldest_from seen (r # rows) =
     (if lag_key r \<in> set seen then oldest_from seen rows else r # oldest_from (lag_key r # seen) rows)"

definition oldest_per_series :: "outbox_row list \<Rightarrow> outbox_row list" where
  "oldest_per_series rows = oldest_from [] rows"

definition drained_series :: "lag_series list \<Rightarrow> lag_series list \<Rightarrow> lag_series list \<Rightarrow> lag_series list" where
  "drained_series reported held waiting = filter (\<lambda>k. k \<notin> set held \<and> k \<notin> set waiting) reported"

definition still_waiting :: "lag_series list \<Rightarrow> event_db \<Rightarrow> lag_series list" where
  "still_waiting reported db =
     filter (\<lambda>k. k \<in> set reported) (remdups (map lag_key (filter (\<lambda>r. ob_published r = None) (ed_outbox db))))"

text \<open>What the gauge is told: a wait for a series, or the zero of a drained one.\<close>

definition settle_drained :: "event_db \<Rightarrow> lag_series list \<Rightarrow> lag_series list \<Rightarrow> lag_series list \<times> (lag_series \<times> duration) list" where
  "settle_drained db held seen =
     (let reported = filter (\<lambda>k. k \<notin> set held) seen;
          drained = drained_series reported held (still_waiting reported db)
      in (filter (\<lambda>k. k \<notin> set drained) seen, map (\<lambda>k. (k, 0)) drained))"

definition observe_relay_lag :: "time \<Rightarrow> event_db \<Rightarrow> outbox_row list \<Rightarrow> lag_series list \<Rightarrow> lag_series list \<times> (lag_series \<times> duration) list" where
  "observe_relay_lag now db rows seen =
     (let held = map lag_key rows;
          (seen', zeros) = (if length rows < batch then settle_drained db held seen else (seen, []));
          firsts = oldest_per_series rows
      in (foldl (\<lambda>ks k. List.insert k ks) seen' (map lag_key firsts),
          zeros @ map (\<lambda>r. (lag_key r, time_sub now (ob_created r))) firsts))"

subsection \<open>What the relay sends\<close>

lemma stamp_outbox: "ed_outbox (stamp_rows now sent db) = map (\<lambda>r. if ob_id r \<in> set sent then r\<lparr>ob_published := Some now\<rparr> else r) (ed_outbox db)"
  by (simp add: stamp_rows_def)

lemma pending_stamp: "pending app (stamp_rows now sent db) = pending app db"
  by (simp add: pending_def stamp_rows_def app_of_tenant_def fun_eq_iff)

lemma distinct_queue: "distinct (map ob_id (ed_outbox db)) \<Longrightarrow> distinct (map ob_id (queue locked app db))"
  by (simp add: queue_def distinct_map distinct_filter inj_on_def)

lemma queue_stamp:
  assumes d: "distinct (map ob_id (ed_outbox db))"
  shows "queue locked app (stamp_rows now (map ob_id (take n (queue locked app db))) db) = drop n (queue locked app db)"
proof -
  let ?q = "queue locked app db" and ?ids = "set (map ob_id (take n (queue locked app db)))"
  let ?P = "\<lambda>r. pending app db r \<and> ob_id r \<notin> set locked"
  have "filter (\<lambda>r. pending app (stamp_rows now (map ob_id (take n ?q)) db) r \<and> ob_id r \<notin> set locked) (ed_outbox (stamp_rows now (map ob_id (take n ?q)) db))
      = filter (\<lambda>r. ob_id r \<notin> ?ids) (filter ?P (ed_outbox db))"
  proof -
    have g: "filter ?P (map (\<lambda>r. if ob_id r \<in> set sent then r\<lparr>ob_published := Some now\<rparr> else r) xs)
        = filter (\<lambda>r. ob_id r \<notin> set sent) (filter ?P xs)" for sent xs
      by (induction xs) (auto simp: pending_def)
    from g [of "map ob_id (take n ?q)" "ed_outbox db"] show ?thesis by (simp only: stamp_outbox pending_stamp)
  qed
  then have "queue locked app (stamp_rows now (map ob_id (take n ?q)) db) = filter (\<lambda>r. ob_id r \<notin> ?ids) ?q"
    by (simp add: queue_def filter_sort)
  also have "\<dots> = filter (\<lambda>r. ob_id r \<notin> ?ids) (take n ?q @ drop n ?q)" by simp
  also have "\<dots> = drop n ?q"
  proof -
    have "distinct (map ob_id (take n ?q @ drop n ?q))" using distinct_queue [OF d, of locked app] by simp
    then have "ob_id r \<notin> ?ids" if "r \<in> set (drop n ?q)" for r using that unfolding map_append distinct_append by auto
    moreover have "filter (\<lambda>r. ob_id r \<notin> ?ids) (take n ?q) = []" by (simp add: filter_empty_conv)
    ultimately show ?thesis by (simp only: filter_append append_Nil filter_True ball_simps(1)) (simp add: filter_id_conv)
  qed
  finally show ?thesis .
qed

text \<open>The loop sends what the transport takes of the queue, oldest first, and stamps whole batches.\<close>

lemma relay_for_sends:
  assumes "distinct (map ob_id (ed_outbox db))"
  shows "fst (snd (relay_for now locked accepts app db)) = takeWhile accepts (map row_event (queue locked app db))
    \<and> (snd (snd (relay_for now locked accepts app db)) = None \<longleftrightarrow> list_all accepts (map row_event (queue locked app db)))
    \<and> queue locked app (fst (relay_for now locked accepts app db)) =
       (if list_all accepts (map row_event (queue locked app db)) then []
        else drop (batch * (length (takeWhile accepts (map row_event (queue locked app db))) div batch)) (queue locked app db))"
  using assms
proof (induction now locked accepts app db rule: relay_for.induct)
  case (1 now locked accepts app db)
  let ?q = "queue locked app db" and ?rows = "relay_rows locked app db" and ?f = row_event
  have b0: "0 < batch" by (simp add: batch_def)
  have rows: "?rows = take batch ?q" by (simp add: relay_rows_def)
  have q: "map ?f ?q = map ?f ?rows @ map ?f (drop batch ?q)" by (simp add: rows flip: map_append)
  show ?case
  proof (cases "length (takeWhile accepts (map ?f ?rows)) < length ?rows")
    case True
    then obtain x where "x \<in> set (map ?f ?rows)" "\<not> accepts x"
      by (metis length_map less_irrefl takeWhile_eq_all_conv)
    then have sent: "takeWhile accepts (map ?f ?q) = takeWhile accepts (map ?f ?rows)" and "\<not> list_all accepts (map ?f ?q)"
      unfolding q by (auto simp: list_all_iff)
    moreover have "length (takeWhile accepts (map ?f ?rows)) < batch" using True by (simp add: rows)
    moreover have "relay_for now locked accepts app db = (db, takeWhile accepts (map ?f ?rows), Some PublishRefused)"
      using True by (simp add: relay_for.simps [of now locked accepts app db] relay_batch_def Let_def)
    ultimately show ?thesis by simp
  next
    case False
    then have tw: "takeWhile accepts (map ?f ?rows) = map ?f ?rows" by (intro takeWhile_whole) simp
    then have acc: "list_all accepts (map ?f ?rows)" by (simp only: takeWhile_eq_all_conv list_all_iff)
    define db1 where "db1 = stamp_rows now (map ob_id ?rows) db"
    have qd: "queue locked app db1 = drop batch ?q" unfolding db1_def rows by (rule queue_stamp [OF 1(2)])
    have rb: "relay_batch now locked accepts app db = (db1, map ?f ?rows, Inr (length ?rows))"
      using False by (simp only: relay_batch_def Let_def db1_def tw if_False)
    have sent: "takeWhile accepts (map ?f ?q) = map ?f ?rows @ takeWhile accepts (map ?f (drop batch ?q))"
      unfolding q using acc by (simp add: takeWhile_append list_all_iff)
    show ?thesis
    proof (cases "length ?rows < batch")
      case True
      then have "drop batch ?q = []" by (simp add: rows)
      with True acc sent qd show ?thesis
        by (simp add: relay_for.simps [of now locked accepts app db] rb) (simp add: q)
    next
      case full: False
      have "distinct (map ob_id (ed_outbox db1))"
      proof -
        have "map ob_id (ed_outbox db1) = map ob_id (ed_outbox db)" by (simp add: db1_def stamp_outbox)
        with 1(2) show ?thesis by simp
      qed
      note ih = 1(1) [OF rb [symmetric] refl refl full this]
      have len: "length ?rows = batch" using full by (simp add: rows)
      obtain db2 later e where r: "relay_for now locked accepts app db1 = (db2, later, e)" by (metis prod_cases3)
      have "relay_for now locked accepts app db = (db2, map ?f ?rows @ later, e)"
        using full by (simp add: relay_for.simps [of now locked accepts app db] rb r)
      moreover have "list_all accepts (map ?f ?q) \<longleftrightarrow> list_all accepts (map ?f (drop batch ?q))" unfolding q using acc by simp
      moreover have "length (takeWhile accepts (map ?f ?q)) div batch = Suc (length (takeWhile accepts (map ?f (drop batch ?q))) div batch)"
        using b0 len by (simp add: sent)
      ultimately show ?thesis using ih r sent by (simp add: qd add.commute)
    qed
  qed
qed

end
