(* ===== verification/Delivery.thy ===== *)
theory Delivery
  imports Outbox
begin

section \<open>Deliveries and their ledgers\<close>

text \<open>
  \<open>kit/events/events.go\<close> (claims and dead letters), \<open>consume.go\<close>, \<open>deferred.go\<close>, \<open>operation.go\<close>,
  \<open>replay.go\<close> and \<open>ledger.go\<close>.  A statement of a transaction reads the tables as they are
  committed when it starts, so \<open>claim\<close> takes what each of its statements saw.  A transaction
  that writes is one step: two spellings of one durable claimed in overlapping transactions,
  which the source leaves to its rollout order, are outside the model.
\<close>

subsection \<open>Subscriptions\<close>

record subscription =
  su_app :: app_name
  su_module :: string
  su_name :: string

definition sub_durable :: "subscription \<Rightarrow> string" where
  "sub_durable s = durable (su_app s) (su_module s) (su_name s)"

definition older_durable :: "subscription \<Rightarrow> string" where
  "older_durable s = (if named (su_app s) then durable '''' (su_module s) (su_name s) else '''')"

datatype consume_error = NoHandler | AppNotAName | SubscribeRefused

text \<open>
  \<open>Consume\<close>: which subscriptions the transport was asked for, and the first refusal.  \<open>handler\<close>
  says which have one; \<open>subscribes\<close> is the transport's answer.
\<close>

fun consume :: "(subscription \<Rightarrow> bool) \<Rightarrow> (string \<Rightarrow> string \<Rightarrow> bool) \<Rightarrow> subscription list
    \<Rightarrow> (string \<times> string) list \<times> consume_error option" where
  "consume handler subscribes [] = ([], None)"
| "consume handler subscribes (s # ss) =
     (if \<not> handler s then ([], Some NoHandler)
      else if named (su_app s) \<and> \<not> valid_name (su_app s) then ([], Some AppNotAName)
      else if \<not> subscribes (sub_durable s) (su_name s) then ([], Some SubscribeRefused)
      else case consume handler subscribes ss of (asked, e) \<Rightarrow> ((sub_durable s, su_name s) # asked, e))"

definition holds_tenant :: "app_name \<Rightarrow> uuid \<Rightarrow> event_db \<Rightarrow> bool" where
  "holds_tenant app tenant db \<longleftrightarrow> app_of_tenant db tenant = app"

definition holds_unscoped :: "uuid \<Rightarrow> event_db \<Rightarrow> bool" where
  "holds_unscoped tenant db \<longleftrightarrow> app_of_tenant db tenant = ''''"

subsection \<open>Claims\<close>

definition claim_names :: "string \<Rightarrow> string \<Rightarrow> string list" where
  "claim_names d older = d # (if older \<noteq> '''' \<and> older \<noteq> d then [older] else [])"

definition handled_under :: "uuid \<Rightarrow> string list \<Rightarrow> event_db \<Rightarrow> bool" where
  "handled_under i names db \<longleftrightarrow> list_ex (\<lambda>h. hd_event h = i \<and> hd_durable h \<in> set names) (ed_handled db)"

definition terminal_recorded :: "uuid \<Rightarrow> string list \<Rightarrow> event_db \<Rightarrow> bool" where
  "terminal_recorded i names db \<longleftrightarrow> list_ex (\<lambda>d. dd_event d = i \<and> dd_durable d \<in> set names) (ed_dead db)"

definition insert_claim :: "time \<Rightarrow> uuid \<Rightarrow> uuid \<Rightarrow> string list \<Rightarrow> event_db \<Rightarrow> event_db option" where
  "insert_claim now tenant i names db =
     (if terminal_recorded i names db \<or> handled_under i names db then None
      else Some (db\<lparr>ed_handled := ed_handled db @
        [\<lparr>hd_event = i, hd_durable = hd names, hd_tenant = tenant, hd_at = now, hd_owed = 0\<rparr>]\<rparr>))"

text \<open>What the four statements of a claim saw: the insert, the reads, the second insert.\<close>

record claim_views =
  cv_insert :: event_db
  cv_read :: event_db
  cv_terminal :: event_db
  cv_again :: event_db

definition claim_after_the_row_went_away :: "time \<Rightarrow> uuid \<Rightarrow> uuid \<Rightarrow> string list \<Rightarrow> event_db \<Rightarrow> event_error + event_db option" where
  "claim_after_the_row_went_away now tenant i names db =
     (case insert_claim now tenant i names db of Some db' \<Rightarrow> Inr (Some db') | None \<Rightarrow> Inl OwesEffect)"

text \<open>The claim read is the first the database answers, of either name.\<close>

definition owed_or_handled :: "(handled_row list \<Rightarrow> handled_row) \<Rightarrow> time \<Rightarrow> uuid \<Rightarrow> uuid \<Rightarrow> string list \<Rightarrow> claim_views
    \<Rightarrow> event_error + event_db option" where
  "owed_or_handled first now tenant i names v =
     (case filter (\<lambda>h. hd_event h = i \<and> hd_durable h \<in> set names) (ed_handled (cv_read v)) of
        [] \<Rightarrow>
          if terminal_recorded i names (cv_terminal v) then Inr None
          else claim_after_the_row_went_away now tenant i names (cv_again v)
      | h # hs \<Rightarrow> if hd_owed (first (h # hs)) > 0 then Inl OwesEffect else Inr None)"

text \<open>\<open>Some\<close> is the tables with the mark this delivery wrote, \<open>None\<close> work it is to skip.\<close>

definition claim :: "(handled_row list \<Rightarrow> handled_row) \<Rightarrow> time \<Rightarrow> uuid \<Rightarrow> uuid \<Rightarrow> string \<Rightarrow> string \<Rightarrow> claim_views
    \<Rightarrow> event_error + event_db option" where
  "claim first now tenant i d older v =
     (let names = claim_names d older
      in case insert_claim now tenant i names (cv_insert v) of
           Some db' \<Rightarrow> Inr (Some db')
         | None \<Rightarrow> owed_or_handled first now tenant i names v)"

subsection \<open>Effects past the commit\<close>

definition owe_effect :: "uuid \<Rightarrow> string \<Rightarrow> event_db \<Rightarrow> event_error + event_db" where
  "owe_effect i d db =
     (if length (filter (\<lambda>h. hd_event h = i \<and> hd_durable h = d) (ed_handled db)) \<noteq> 1 then Inl NoMark
      else Inr (db\<lparr>ed_handled := map (\<lambda>h. if hd_event h = i \<and> hd_durable h = d then h\<lparr>hd_owed := hd_owed h + 1\<rparr> else h) (ed_handled db)\<rparr>))"

definition mark_effect_run :: "uuid \<Rightarrow> string \<Rightarrow> event_db \<Rightarrow> event_db" where
  "mark_effect_run i d db =
     db\<lparr>ed_handled := map (\<lambda>h. if hd_event h = i \<and> hd_durable h = d then h\<lparr>hd_owed := hd_owed h - 1\<rparr> else h) (ed_handled db)\<rparr>"

definition release_claim :: "uuid \<Rightarrow> string \<Rightarrow> event_db \<Rightarrow> event_db" where
  "release_claim i d db = db\<lparr>ed_handled := filter (\<lambda>h. \<not> (hd_event h = i \<and> hd_durable h = d)) (ed_handled db)\<rparr>"

text \<open>The queue of \<open>db.AfterCommit\<close>: every action runs; one that succeeds takes its effect off the count.\<close>

fun run_after :: "uuid \<Rightarrow> string \<Rightarrow> bool list \<Rightarrow> event_db \<Rightarrow> event_db \<times> event_error option" where
  "run_after i d [] db = (db, None)"
| "run_after i d (fine # later) db =
     (case run_after i d later (if fine then mark_effect_run i d db else db) of
        (db', e) \<Rightarrow> (db', if fine then e else Some EffectNotRun))"

subsection \<open>Handling a delivery\<close>

text \<open>What a handler does with this package: the events it writes, the effects it defers, and its answer.\<close>

datatype handler_call =
    Posts uuid string string
  | Defers

record handler_run =
  hr_calls :: "handler_call list"
  hr_failed :: "string option"

fun run_calls :: "(uuid \<Rightarrow> string) \<Rightarrow> (string \<Rightarrow> uuid option) \<Rightarrow> composition \<Rightarrow> call_context \<Rightarrow> time \<Rightarrow> uuid \<Rightarrow> uuid \<Rightarrow> string
    \<Rightarrow> handler_call list \<Rightarrow> event_db \<Rightarrow> event_error + event_db" where
  "run_calls us parse cp cx now tenant i d [] db = Inr db"
| "run_calls us parse cp cx now tenant i d (Posts new name body # cs) db =
     (case publish us parse cp cx now new tenant name body db of
        Inl e \<Rightarrow> Inl e | Inr db' \<Rightarrow> run_calls us parse cp cx now tenant i d cs db')"
| "run_calls us parse cp cx now tenant i d (Defers # cs) db =
     (case owe_effect i d db of
        Inl e \<Rightarrow> Inl e | Inr db' \<Rightarrow> run_calls us parse cp cx now tenant i d cs db')"

definition run_handler :: "(uuid \<Rightarrow> string) \<Rightarrow> (string \<Rightarrow> uuid option) \<Rightarrow> composition \<Rightarrow> time \<Rightarrow> delivery_event \<Rightarrow> string
    \<Rightarrow> handler_run \<Rightarrow> event_db \<Rightarrow> event_error + event_db" where
  "run_handler us parse cp now ev d hr db =
     (let cx = \<lparr>cx_actor = None, cx_attribution = None, cx_traceparent = ev_traceparent ev, cx_tracestate = ev_tracestate ev,
          cx_baggage = ev_baggage ev, cx_request = ev_request ev, cx_client = ev_client ev, cx_operation = ev_operation ev,
          cx_deferred = True, cx_delivery = Some ev\<rparr>
      in case run_calls us parse cp cx now (ev_tenant ev) (ev_id ev) d (hr_calls hr) db of
           Inl e \<Rightarrow> Inl e
         | Inr db' \<Rightarrow> (case hr_failed hr of Some m \<Rightarrow> Inl (HandlerFailed m) | None \<Rightarrow> Inr db'))"

text \<open>\<open>Inr None\<close> is acknowledged without work; an error leaves nothing written.\<close>

definition handle_claim :: "(uuid \<Rightarrow> string) \<Rightarrow> (string \<Rightarrow> uuid option) \<Rightarrow> composition \<Rightarrow> (handled_row list \<Rightarrow> handled_row) \<Rightarrow> time
    \<Rightarrow> subscription \<Rightarrow> delivery_event \<Rightarrow> handler_run \<Rightarrow> event_db \<Rightarrow> claim_views \<Rightarrow> event_error + event_db option" where
  "handle_claim us parse cp first now s ev hr placed v =
     (if \<not> named (su_app s) \<and> \<not> holds_unscoped (ev_tenant ev) placed then Inr None
      else case claim first now (ev_tenant ev) (ev_id ev) (sub_durable s) (older_durable s) v of
        Inl e \<Rightarrow> Inl e
      | Inr None \<Rightarrow> Inr None
      | Inr (Some db') \<Rightarrow>
          (case run_handler us parse cp now ev (sub_durable s) hr db' of
             Inl e \<Rightarrow> Inl e | Inr db'' \<Rightarrow> Inr (Some db'')))"

text \<open>A whole delivery while nobody else writes; \<open>effects\<close> says which deferred effects carried out.\<close>

definition deliver_subscription :: "(uuid \<Rightarrow> string) \<Rightarrow> (string \<Rightarrow> uuid option) \<Rightarrow> composition \<Rightarrow> (handled_row list \<Rightarrow> handled_row) \<Rightarrow> time
    \<Rightarrow> subscription \<Rightarrow> delivery_event \<Rightarrow> handler_run \<Rightarrow> bool list \<Rightarrow> event_db \<Rightarrow> event_db \<times> event_error option" where
  "deliver_subscription us parse cp first now s ev hr effects db =
     (if \<not> holds_tenant (su_app s) (ev_tenant ev) db then (db, None)
      else if \<not> validate_operation parse (ev_operation ev) then (db, Some BadOperation)
      else case handle_claim us parse cp first now s ev hr db \<lparr>cv_insert = db, cv_read = db, cv_terminal = db, cv_again = db\<rparr> of
        Inl e \<Rightarrow> (db, Some e)
      | Inr None \<Rightarrow> (db, None)
      | Inr (Some db') \<Rightarrow>
          (case run_after (ev_id ev) (sub_durable s) effects db' of
             (db'', None) \<Rightarrow> (db'', None)
           | (db'', Some e) \<Rightarrow> (release_claim (ev_id ev) (sub_durable s) db'', Some e)))"

subsection \<open>Terminal failures\<close>

definition unscoped_durable :: "string \<Rightarrow> bool" where
  "unscoped_durable d \<longleftrightarrow> CHR ''+'' \<notin> set d"

definition terminal_durable :: "delivery_event \<Rightarrow> string \<Rightarrow> event_db \<Rightarrow> string" where
  "terminal_durable ev delivered db =
     (let whose = app_of_tenant db (ev_tenant ev)
      in if \<not> named whose then delivered
         else case parse_name whose of Inl _ \<Rightarrow> delivered | Inr app \<Rightarrow> durable_prefix app @ delivered)"

definition dead_insert :: "time \<Rightarrow> delivery_event \<Rightarrow> string \<Rightarrow> string \<Rightarrow> event_db \<Rightarrow> event_db" where
  "dead_insert now ev d cause db =
     (if terminal_recorded (ev_id ev) [d] db then db
      else db\<lparr>ed_dead := ed_dead db @
        [\<lparr>dd_event = ev_id ev, dd_durable = d, dd_tenant = ev_tenant ev, dd_name = ev_name ev, dd_error = cause, dd_at = now\<rparr>]\<rparr>)"

definition dead_letter :: "time \<Rightarrow> delivery_event \<Rightarrow> string \<Rightarrow> string \<Rightarrow> event_db \<Rightarrow> event_db" where
  "dead_letter now ev d cause db =
     (let recorded = (if unscoped_durable d then terminal_durable ev d db else d);
          claimed = \<not> handled_under (ev_id ev) [recorded] db;
          owed = list_ex (\<lambda>h. hd_event h = ev_id ev \<and> hd_durable h = recorded \<and> hd_owed h > 0) (ed_handled db);
          db1 = (if claimed then db\<lparr>ed_handled := ed_handled db @
              [\<lparr>hd_event = ev_id ev, hd_durable = recorded, hd_tenant = ev_tenant ev, hd_at = now, hd_owed = 0\<rparr>]\<rparr> else db)
      in if claimed \<or> owed then dead_insert now ev recorded cause db1 else db1)"

text \<open>With a terminal hook; \<open>hook\<close> is its answer and \<open>effects\<close> what became of the effects it deferred.\<close>

definition terminal_letter :: "(uuid \<Rightarrow> string) \<Rightarrow> (string \<Rightarrow> uuid option) \<Rightarrow> composition \<Rightarrow> (handled_row list \<Rightarrow> handled_row) \<Rightarrow> time
    \<Rightarrow> app_name \<Rightarrow> delivery_event \<Rightarrow> string \<Rightarrow> string \<Rightarrow> handler_run \<Rightarrow> bool list \<Rightarrow> event_db \<Rightarrow> event_db \<times> event_error option" where
  "terminal_letter us parse cp first now app ev d cause hook effects db =
     (if \<not> validate_operation parse (ev_operation ev) then (db, Some BadOperation)
      else if \<not> holds_tenant app (ev_tenant ev) db then (db, None)
      else if \<not> named app \<and> \<not> holds_unscoped (ev_tenant ev) db then (db, None)
      else case claim first now (ev_tenant ev) (ev_id ev) d '''' \<lparr>cv_insert = db, cv_read = db, cv_terminal = db, cv_again = db\<rparr> of
        Inl e \<Rightarrow> (db, Some e)
      | Inr None \<Rightarrow> (db, None)
      | Inr (Some db') \<Rightarrow>
          (case run_handler us parse cp now ev d hook db' of
             Inl e \<Rightarrow> (db, Some e)
           | Inr db'' \<Rightarrow> run_after (ev_id ev) d effects (dead_insert now ev d cause db'')))"

subsection \<open>The operator's replay\<close>

text \<open>\<open>SucceedFor\<close>: an operation of the context that was not deferred succeeds, and says so once.\<close>

definition event_operation_outcome :: string where "event_operation_outcome = ''platformkit.operation_outcome''"
definition event_replayed :: string where "event_replayed = ''platformkit.event_replayed''"
definition event_ledger_moved :: string where "event_ledger_moved = ''platformkit.ledger_moved''"

definition succeed_for :: "(uuid \<Rightarrow> string) \<Rightarrow> (string \<Rightarrow> uuid option) \<Rightarrow> composition \<Rightarrow> call_context \<Rightarrow> time \<Rightarrow> uuid \<Rightarrow> (receipt \<Rightarrow> string)
    \<Rightarrow> event_db \<Rightarrow> event_error + event_db" where
  "succeed_for us parse cp cx now new outcome_body db =
     (let opo = (if cx_operation cx = no_operation \<or> cx_deferred cx then None else Some (cx_operation cx))
      in case succeed_system us parse opo now (ed_operations db) of
           (_, Inl e) \<Rightarrow> Inl (OperationRefused e)
         | (tbl, Inr (Some (r, True))) \<Rightarrow>
             publish_for us parse cp (cx\<lparr>cx_operation := operation_of us r, cx_deferred := False\<rparr>) now new (rc_tenant r)
               event_operation_outcome (outcome_body r) (db\<lparr>ed_operations := tbl\<rparr>)
         | (tbl, Inr _) \<Rightarrow> Inr (db\<lparr>ed_operations := tbl\<rparr>))"

definition holder_of :: "event_db \<Rightarrow> uuid \<Rightarrow> app_name" where
  "holder_of db tenant = (case map_of (ed_apps db) tenant of None \<Rightarrow> '''' | Some a \<Rightarrow> a)"

definition clear_marks :: "uuid \<Rightarrow> string \<Rightarrow> event_db \<Rightarrow> event_db" where
  "clear_marks i d db =
     db\<lparr>ed_handled := filter (\<lambda>h. \<not> (hd_event h = i \<and> (d = '''' \<or> hd_durable h = d))) (ed_handled db),
        ed_dead := filter (\<lambda>l. \<not> (dd_event l = i \<and> (d = '''' \<or> dd_durable l = d))) (ed_dead db),
        ed_outbox := map (\<lambda>r. if ob_id r = i then r\<lparr>ob_published := None\<rparr> else r) (ed_outbox db)\<rparr>"

text \<open>\<open>fresh\<close> are the identifiers of the outcome's event and of the record; the bodies are what they marshal to.\<close>

definition replay :: "(uuid \<Rightarrow> string) \<Rightarrow> (string \<Rightarrow> uuid option) \<Rightarrow> composition \<Rightarrow> call_context \<Rightarrow> time \<Rightarrow> uuid \<times> uuid \<Rightarrow> (receipt \<Rightarrow> string) \<Rightarrow> string
    \<Rightarrow> app_name \<Rightarrow> uuid \<Rightarrow> string \<Rightarrow> string \<Rightarrow> event_db \<Rightarrow> event_db \<times> event_error option" where
  "replay us parse cp cx now fresh outcome_body body app i d reason db =
     (if reason = '''' then (db, Some ReasonRequired)
      else if cx_actor cx = None then (db, Some ActorRequired)
      else case List.find (\<lambda>r. ob_id r = i) (ed_outbox db) of
        None \<Rightarrow> (db, Some NothingToReplay)
      | Some row \<Rightarrow>
          if named app \<and> holder_of db (ob_tenant row) \<noteq> app then (db, Some OwnedByAnotherApp)
          else case succeed_for us parse cp cx now (fst fresh) outcome_body (clear_marks i d db) of
            Inl e \<Rightarrow> (db, Some e)
          | Inr db' \<Rightarrow>
              (case publish_for us parse cp cx now (snd fresh) (ob_tenant row) event_replayed body db' of
                 Inl e \<Rightarrow> (db, Some e)
               | Inr db'' \<Rightarrow> (db'', None)))"

subsection \<open>Moving a ledger onto its application's durables\<close>

record move_report =
  mr_subscriptions :: nat
  mr_claims :: nat
  mr_dead :: nat
  mr_tenants :: nat

definition own_tenant :: "app_name \<Rightarrow> event_db \<Rightarrow> uuid \<Rightarrow> bool" where
  "own_tenant app db tenant \<longleftrightarrow> map_of (ed_apps db) tenant = Some app"

text \<open>The tenants whose lock a move asks for: its own and those nobody is placed in.\<close>

definition placeable :: "app_name \<Rightarrow> event_db \<Rightarrow> uuid list" where
  "placeable app db = filter (\<lambda>t. map_of (ed_apps db) t = Some app \<or> map_of (ed_apps db) t = Some '''') (map fst (ed_apps db))"

definition hold_tenants :: "uuid list \<Rightarrow> app_name \<Rightarrow> event_db \<Rightarrow> bool" where
  "hold_tenants busy app db \<longleftrightarrow> list_all (\<lambda>t. t \<notin> set busy) (placeable app db)"

definition ledger_durables :: "app_name \<Rightarrow> event_db \<Rightarrow> string list" where
  "ledger_durables app db =
     sort (remdups (map hd_durable (filter (\<lambda>h. unscoped_durable (hd_durable h) \<and> own_tenant app db (hd_tenant h)) (ed_handled db))
       @ map dd_durable (filter (\<lambda>l. unscoped_durable (dd_durable l) \<and> own_tenant app db (dd_tenant l)) (ed_dead db))))"

definition claims_owing :: "app_name \<Rightarrow> event_db \<Rightarrow> nat" where
  "claims_owing app db =
     length (filter (\<lambda>h. unscoped_durable (hd_durable h) \<and> own_tenant app db (hd_tenant h) \<and> hd_owed h > 0) (ed_handled db))"

text \<open>
  \<open>renameLedger\<close>, over the table's key and how a row is copied under another durable: the rows
  read, the copies that find no twin, and the table without the rows read.
\<close>

definition rename_ledger :: "('r \<Rightarrow> uuid) \<Rightarrow> ('r \<Rightarrow> string) \<Rightarrow> (string \<Rightarrow> 'r \<Rightarrow> 'r) \<Rightarrow> ('r \<Rightarrow> bool) \<Rightarrow> string \<Rightarrow> string list \<Rightarrow> 'r list
    \<Rightarrow> 'r list \<times> 'r list" where
  "rename_ledger ident dur copy own pre from tbl =
     (let src = filter (\<lambda>r. unscoped_durable (dur r) \<and> own r \<and> dur r \<in> set from) tbl;
          left = filter (\<lambda>r. \<not> (unscoped_durable (dur r) \<and> own r \<and> dur r \<in> set from)) tbl;
          twins = filter (\<lambda>r. \<not> list_ex (\<lambda>t. ident t = ident r \<and> dur t = pre @ dur r) tbl) src
      in (left @ map (\<lambda>r. copy (pre @ dur r) r) twins, src))"

definition copy_handled :: "string \<Rightarrow> handled_row \<Rightarrow> handled_row" where
  "copy_handled d h = h\<lparr>hd_durable := d, hd_owed := 0\<rparr>"

definition copy_dead :: "string \<Rightarrow> dead_row \<Rightarrow> dead_row" where
  "copy_dead d l = l\<lparr>dd_durable := d\<rparr>"

definition unscoped_remains :: "app_name \<Rightarrow> event_db \<Rightarrow> bool" where
  "unscoped_remains app db \<longleftrightarrow>
     list_ex (\<lambda>h. unscoped_durable (hd_durable h) \<and> own_tenant app db (hd_tenant h)) (ed_handled db)
     \<or> list_ex (\<lambda>l. unscoped_durable (dd_durable l) \<and> own_tenant app db (dd_tenant l)) (ed_dead db)"

text \<open>One record for each tenant moved; \<open>fresh\<close> and \<open>body\<close> as in \<open>replay\<close>, by tenant.\<close>

fun publish_ledger_move :: "(uuid \<Rightarrow> string) \<Rightarrow> (string \<Rightarrow> uuid option) \<Rightarrow> composition \<Rightarrow> call_context \<Rightarrow> time \<Rightarrow> (uuid \<Rightarrow> uuid \<times> uuid)
    \<Rightarrow> (receipt \<Rightarrow> string) \<Rightarrow> (uuid \<Rightarrow> string) \<Rightarrow> uuid list \<Rightarrow> event_db \<Rightarrow> event_error + event_db" where
  "publish_ledger_move us parse cp cx now fresh outcome_body body [] db = Inr db"
| "publish_ledger_move us parse cp cx now fresh outcome_body body (t # ts) db =
     (case succeed_for us parse cp cx now (fst (fresh t)) outcome_body db of
        Inl e \<Rightarrow> Inl e
      | Inr db' \<Rightarrow>
          (case publish_for us parse cp cx now (snd (fresh t)) t event_ledger_moved (body t) db' of
             Inl e \<Rightarrow> Inl e
           | Inr db'' \<Rightarrow> publish_ledger_move us parse cp cx now fresh outcome_body body ts db''))"

text \<open>\<open>busy\<close> and \<open>claimed\<close> are the tenants and durables an open claim or placement holds a lock of.\<close>

definition move_ledger :: "(uuid \<Rightarrow> string) \<Rightarrow> (string \<Rightarrow> uuid option) \<Rightarrow> composition \<Rightarrow> call_context \<Rightarrow> time \<Rightarrow> (uuid \<Rightarrow> uuid \<times> uuid)
    \<Rightarrow> (receipt \<Rightarrow> string) \<Rightarrow> (uuid \<Rightarrow> string) \<Rightarrow> uuid list \<Rightarrow> string list \<Rightarrow> app_name \<Rightarrow> event_db
    \<Rightarrow> event_db \<times> (event_error + move_report)" where
  "move_ledger us parse cp cx now fresh outcome_body body busy claimed app db =
     (let nothing = \<lparr>mr_subscriptions = 0, mr_claims = 0, mr_dead = 0, mr_tenants = 0\<rparr>;
          from = ledger_durables app db
      in if \<not> named app then (db, Inr nothing)
         else if \<not> valid_name app then (db, Inl NotASlug)
         else if \<not> hold_tenants busy app db then (db, Inl LedgerContended)
         else if \<not> list_all (\<lambda>d. d \<notin> set claimed) from then (db, Inl LedgerContended)
         else if claims_owing app db > 0 then (db, Inl LedgerContended)
         else
           (let (handled', claims) = rename_ledger hd_event hd_durable copy_handled (\<lambda>h. own_tenant app db (hd_tenant h))
                  (durable_prefix app) from (ed_handled db);
                (dead', deads) = rename_ledger dd_event dd_durable copy_dead (\<lambda>l. own_tenant app db (dd_tenant l))
                  (durable_prefix app) from (ed_dead db);
                db' = db\<lparr>ed_handled := handled', ed_dead := dead'\<rparr>;
                tenants = remdups (map hd_tenant claims @ map dd_tenant deads);
                report = \<lparr>mr_subscriptions = length from, mr_claims = length claims, mr_dead = length deads, mr_tenants = length tenants\<rparr>
            in if unscoped_remains app db' then (db, Inl LedgerContended)
               else if claims = [] \<and> deads = [] then (db', Inr report)
               else case publish_ledger_move us parse cp cx now fresh outcome_body body tenants db' of
                      Inl e \<Rightarrow> (db, Inl e)
                    | Inr db'' \<Rightarrow> (db'', Inr report)))"

end
