(* ===== verification/DeliveryOnce.thy ===== *)
theory DeliveryOnce
  imports Delivery
begin

section \<open>At least once, and once\<close>

text \<open>
  The life of events: rows are written, relayed, delivered, terminated, purged and replayed,
  tenants are placed and ledgers moved, in any order.  Beside the tables the world keeps what
  no table says: the messages the transport accepted and when, the identifiers given out with
  their tenants, which handlers committed for which event, and which of that work somebody
  reopened.  A transport delivers a copy for \<open>event_keep\<close> at most, which is the retention its stream
  is made with; identifiers are never given out twice.
\<close>

subsection \<open>Steps\<close>

record event_world =
  ew_db :: event_db
  ew_now :: time
  ew_messages :: "(delivery_event \<times> time) list"
  ew_known :: "(uuid \<times> uuid) list"
  ew_commits :: "(uuid \<times> string) list"
  ew_reopened :: "(uuid \<times> string) list"

definition sub_base :: "subscription \<Rightarrow> string" where
  "sub_base s = durable '''' (su_module s) (su_name s)"

definition sub_ok :: "subscription \<Rightarrow> bool" where
  "sub_ok s \<longleftrightarrow> (named (su_app s) \<longrightarrow> valid_name (su_app s)) \<and> CHR ''+'' \<notin> set (sub_base s)"

text \<open>The unscoped name a durable is a spelling of.\<close>

definition base_of :: "string \<Rightarrow> string" where
  "base_of d = (if unscoped_durable d then d else tl (dropWhile (\<lambda>c. c \<noteq> CHR ''+'') d))"

text \<open>The statement that wrote the mark saw the tables it wrote to; the others saw some state.\<close>

definition current_views :: "time \<Rightarrow> uuid \<Rightarrow> uuid \<Rightarrow> string list \<Rightarrow> event_db \<Rightarrow> claim_views \<Rightarrow> bool" where
  "current_views now tenant i names db v \<longleftrightarrow>
     (cv_insert v = db \<or> insert_claim now tenant i names (cv_insert v) = None) \<and> cv_again v = db"

definition row_ids :: "event_db \<Rightarrow> uuid set" where
  "row_ids db = ob_id ` set (ed_outbox db)"

definition fresh_rows :: "event_world \<Rightarrow> event_db \<Rightarrow> bool" where
  "fresh_rows w db' \<longleftrightarrow> distinct (map ob_id (ed_outbox db'))
     \<and> (\<forall>i \<in> row_ids db'. i \<in> row_ids (ew_db w) \<or> i \<notin> fst ` set (ew_known w))"

definition rows_noted :: "event_world \<Rightarrow> event_db \<Rightarrow> event_world" where
  "rows_noted w db' = w\<lparr>ew_db := db', ew_known := map (\<lambda>r. (ob_id r, ob_tenant r)) (ed_outbox db') @ ew_known w\<rparr>"

definition deliverable :: "event_world \<Rightarrow> delivery_event \<Rightarrow> bool" where
  "deliverable w ev \<longleftrightarrow> (\<exists>p. (ev, p) \<in> set (ew_messages w) \<and> ew_now w < p + event_keep)"

inductive event_step :: "(uuid \<Rightarrow> string) \<Rightarrow> (string \<Rightarrow> uuid option) \<Rightarrow> composition \<Rightarrow> event_world \<Rightarrow> event_world \<Rightarrow> bool"
  for us parse cp where
  writes: "write_event us parse cp cx (ew_now w) new tenant name body system (ew_db w) = Inr db' \<Longrightarrow> fresh_rows w db' \<Longrightarrow>
    event_step us parse cp w (rows_noted w db')"
| carries: "r \<in> set (ed_outbox (ew_db w)) \<Longrightarrow> ob_published r = None \<Longrightarrow>
    event_step us parse cp w (w\<lparr>ew_messages := (row_event r, ew_now w) # ew_messages w\<rparr>)"
| relays: "relay_batch (ew_now w) locked accepts app (ew_db w) = (db', sent, res) \<Longrightarrow>
    event_step us parse cp w (w\<lparr>ew_db := db', ew_messages := map (\<lambda>e. (e, ew_now w)) sent @ ew_messages w\<rparr>)"
| ticks: "0 \<le> d \<Longrightarrow> event_step us parse cp w (w\<lparr>ew_now := ew_now w + d\<rparr>)"
| handles: "deliverable w ev \<Longrightarrow> sub_ok s \<Longrightarrow> holds_tenant (su_app s) (ev_tenant ev) (ew_db w) \<Longrightarrow>
    current_views (ew_now w) (ev_tenant ev) (ev_id ev) (claim_names (sub_durable s) (older_durable s)) (ew_db w) v \<Longrightarrow>
    handle_claim us parse cp first (ew_now w) s ev hr (ew_db w) v = Inr (Some db') \<Longrightarrow> fresh_rows w db' \<Longrightarrow>
    event_step us parse cp w ((rows_noted w db')\<lparr>ew_commits := (ev_id ev, sub_base s) # ew_commits w\<rparr>)"
| effects: "event_step us parse cp w (w\<lparr>ew_db := mark_effect_run i d (ew_db w)\<rparr>)"
| releases: "event_step us parse cp w (w\<lparr>ew_db := release_claim i d (ew_db w), ew_reopened := (i, base_of d) # ew_reopened w\<rparr>)"
| letters: "deliverable w ev \<Longrightarrow>
    event_step us parse cp w (w\<lparr>ew_db := dead_letter (ew_now w) ev d cause (ew_db w)\<rparr>)"
| terminals: "deliverable w ev \<Longrightarrow> fresh_rows w (fst (terminal_letter us parse cp first (ew_now w) app ev d cause hook done (ew_db w))) \<Longrightarrow>
    event_step us parse cp w (rows_noted w (fst (terminal_letter us parse cp first (ew_now w) app ev d cause hook done (ew_db w))))"
| purges: "event_step us parse cp w (w\<lparr>ew_db := purge_events (ew_now w) (ew_db w)\<rparr>)"
| replays: "replay us parse cp cx (ew_now w) fresh outcome_body body app i d reason (ew_db w) = (db', None) \<Longrightarrow> fresh_rows w db' \<Longrightarrow>
    event_step us parse cp w ((rows_noted w db')\<lparr>ew_reopened :=
      (if d = '''' then map (\<lambda>c. (i, snd c)) (ew_commits w) else [(i, base_of d)]) @ ew_reopened w\<rparr>)"
| places: "app_of_tenant (ew_db w) tenant = '''' \<Longrightarrow> valid_name a \<Longrightarrow>
    event_step us parse cp w (w\<lparr>ew_db := (ew_db w)\<lparr>ed_apps := AList.update tenant a (ed_apps (ew_db w))\<rparr>\<rparr>)"
| moves: "move_ledger us parse cp cx (ew_now w) fresh_of outcome_body body_of busy claimed app (ew_db w) = (db', Inr report) \<Longrightarrow> fresh_rows w db' \<Longrightarrow>
    event_step us parse cp w (rows_noted w db')"

definition event_world_start :: "event_db \<Rightarrow> time \<Rightarrow> event_world" where
  "event_world_start db now = \<lparr>ew_db = db, ew_now = now, ew_messages = [], ew_known = [], ew_commits = [], ew_reopened = []\<rparr>"

text \<open>An installation that ran nothing yet: tenants, some of them placed, and empty ledgers.\<close>

definition fresh_installation :: "event_db \<Rightarrow> bool" where
  "fresh_installation db \<longleftrightarrow> ed_outbox db = [] \<and> ed_handled db = [] \<and> ed_dead db = []
     \<and> (\<forall>t a. map_of (ed_apps db) t = Some a \<longrightarrow> a = '''' \<or> valid_name a)"

definition event_reaches :: "(uuid \<Rightarrow> string) \<Rightarrow> (string \<Rightarrow> uuid option) \<Rightarrow> composition \<Rightarrow> event_world \<Rightarrow> event_world \<Rightarrow> bool" where
  "event_reaches us parse cp = (event_step us parse cp)\<^sup>*\<^sup>*"

subsection \<open>What the operations leave alone\<close>

text \<open>\<open>db'\<close> has more pending rows than \<open>db\<close> and otherwise the same names.\<close>

definition marked :: "event_db \<Rightarrow> uuid \<Rightarrow> string \<Rightarrow> uuid \<Rightarrow> bool" where
  "marked db i d t \<longleftrightarrow> (\<exists>h \<in> set (ed_handled db). hd_event h = i \<and> hd_durable h = d \<and> hd_tenant h = t)
     \<or> (\<exists>l \<in> set (ed_dead db). dd_event l = i \<and> dd_durable l = d \<and> dd_tenant l = t)"

definition handled_keys :: "event_db \<Rightarrow> (uuid \<times> string \<times> uuid \<times> time) list" where
  "handled_keys db = map (\<lambda>h. (hd_event h, hd_durable h, hd_tenant h, hd_at h)) (ed_handled db)"

definition posts :: "event_db \<Rightarrow> event_db \<Rightarrow> bool" where
  "posts db db' \<longleftrightarrow> ed_apps db' = ed_apps db \<and> ed_dead db' = ed_dead db
     \<and> handled_keys db' = handled_keys db
     \<and> (\<exists>new. ed_outbox db' = ed_outbox db @ new \<and> (\<forall>r \<in> set new. ob_published r = None))"

lemma posts_refl [simp]: "posts db db"
  by (simp add: posts_def)

lemma posts_trans: "posts a b \<Longrightarrow> posts b c \<Longrightarrow> posts a c"
  unfolding posts_def by (elim conjE exE, intro conjI) (simp_all, metis append.assoc UnE set_append)

lemma marked_keys: "marked db i d t \<longleftrightarrow> (\<exists>u. (i, d, t, u) \<in> set (handled_keys db))
     \<or> (\<exists>l \<in> set (ed_dead db). dd_event l = i \<and> dd_durable l = d \<and> dd_tenant l = t)"
  by (force simp: marked_def handled_keys_def)

lemma posts_marked: "posts db db' \<Longrightarrow> marked db' i d t \<longleftrightarrow> marked db i d t"
  by (simp add: posts_def marked_keys)

lemma posts_app: "posts db db' \<Longrightarrow> app_of_tenant db' = app_of_tenant db"
  by (simp add: posts_def app_of_tenant_def fun_eq_iff)

lemma posts_operations [simp]: "posts db (db\<lparr>ed_operations := tbl\<rparr>)"
  by (simp add: posts_def handled_keys_def)

lemma write_event_posts: "write_event us parse cp cx now new tenant name body system db = Inr db' \<Longrightarrow> posts db db'"
  by (auto simp: write_event_def posts_def handled_keys_def split: if_splits option.splits sum.splits)

lemma publish_for_posts: "publish_for us parse cp cx now new tenant name body db = Inr db' \<Longrightarrow> posts db db'"
  by (auto simp: publish_for_def dest: write_event_posts split: if_splits)

lemma succeed_for_posts: "succeed_for us parse cp cx now new ob db = Inr db' \<Longrightarrow> posts db db'"
  by (auto simp: succeed_for_def Let_def split: prod.splits sum.splits option.splits bool.splits
      dest!: publish_for_posts intro: posts_trans [OF posts_operations])

lemma publish_ledger_move_posts: "publish_ledger_move us parse cp cx now fresh ob body ts db = Inr db' \<Longrightarrow> posts db db'"
proof (induction ts arbitrary: db)
  case (Cons t ts)
  then show ?case
    by (auto split: sum.splits dest!: succeed_for_posts publish_for_posts intro: posts_trans)
qed simp

lemma owe_effect_posts: "owe_effect i d db = Inr db' \<Longrightarrow> posts db db'"
  by (auto simp: owe_effect_def posts_def handled_keys_def comp_def split: if_splits)

lemma mark_effect_posts: "posts db (mark_effect_run i d db)"
  by (simp add: mark_effect_run_def posts_def handled_keys_def comp_def)

lemma run_after_posts: "posts db (fst (run_after i d es db))"
  by (induction es arbitrary: db) (auto split: prod.split intro: posts_trans [OF mark_effect_posts] simp: case_prod_beta)

lemma run_calls_posts: "run_calls us parse cp cx now tenant i d cs db = Inr db' \<Longrightarrow> posts db db'"
proof (induction cs arbitrary: db)
  case (Cons c cs)
  then show ?case
    by (cases c) (auto split: sum.splits simp: publish_def dest!: write_event_posts owe_effect_posts intro: posts_trans)
qed simp

lemma run_handler_posts: "run_handler us parse cp now ev d hr db = Inr db' \<Longrightarrow> posts db db'"
  by (auto simp: run_handler_def Let_def split: sum.splits option.splits dest: run_calls_posts)

subsection \<open>The invariant\<close>

definition rows_of :: "event_db \<Rightarrow> (uuid \<times> uuid) set" where
  "rows_of db = (\<lambda>r. (ob_id r, ob_tenant r)) ` set (ed_outbox db)"

definition names_ok :: "event_db \<Rightarrow> (delivery_event \<times> time) list \<Rightarrow> (uuid \<times> uuid) set \<Rightarrow> bool" where
  "names_ok db msgs known \<longleftrightarrow> single_valued known \<and> distinct (map ob_id (ed_outbox db)) \<and> rows_of db \<subseteq> known
     \<and> (\<forall>(ev, p) \<in> set msgs. (ev_id ev, ev_tenant ev) \<in> known)
     \<and> (\<forall>i d t. marked db i d t \<longrightarrow> (i, t) \<in> known)
     \<and> (\<forall>t. app_of_tenant db t = '''' \<or> valid_name (app_of_tenant db t))"

text \<open>
  No copy of a row is younger than its stamp, one of them carried it, and a row is only gone
  when no copy of it can still arrive.
\<close>

definition stamps_ok :: "event_db \<Rightarrow> time \<Rightarrow> (delivery_event \<times> time) list \<Rightarrow> bool" where
  "stamps_ok db now msgs \<longleftrightarrow> (\<forall>(ev, p) \<in> set msgs. p \<le> now \<and> (ev_id ev \<notin> row_ids db \<longrightarrow> p + event_keep \<le> now))
     \<and> (\<forall>r \<in> set (ed_outbox db). \<forall>s. ob_published r = Some s \<longrightarrow>
          (\<exists>p. (row_event r, p) \<in> set msgs) \<and> (\<forall>(ev, p) \<in> set msgs. ev_id ev = ob_id r \<longrightarrow> p \<le> s))"

definition spelled :: "event_db \<Rightarrow> uuid \<Rightarrow> string \<Rightarrow> string \<Rightarrow> bool" where
  "spelled db t b d \<longleftrightarrow> d = b \<or> d = durable_prefix (app_of_tenant db t) @ b"

definition covered :: "event_db \<Rightarrow> uuid \<Rightarrow> uuid \<Rightarrow> string \<Rightarrow> bool" where
  "covered db i t b \<longleftrightarrow> i \<notin> row_ids db \<or> (\<exists>d. spelled db t b d \<and> marked db i d t)"

definition commits_ok :: "event_db \<Rightarrow> (uuid \<times> uuid) set \<Rightarrow> (uuid \<times> string) list \<Rightarrow> (uuid \<times> string) set \<Rightarrow> bool" where
  "commits_ok db known commits reopened \<longleftrightarrow> (\<forall>(i, b) \<in> set commits. unscoped_durable b \<and> (\<exists>t. (i, t) \<in> known
     \<and> ((i, b) \<notin> reopened \<longrightarrow> count_list commits (i, b) = 1 \<and> covered db i t b)))"

definition event_inv :: "event_world \<Rightarrow> bool" where
  "event_inv w \<longleftrightarrow> names_ok (ew_db w) (ew_messages w) (set (ew_known w)) \<and> stamps_ok (ew_db w) (ew_now w) (ew_messages w)
     \<and> commits_ok (ew_db w) (set (ew_known w)) (ew_commits w) (set (ew_reopened w))"

lemma event_inv_start: "fresh_installation db \<Longrightarrow> event_inv (event_world_start db now)"
  by (auto simp: event_inv_def event_world_start_def fresh_installation_def names_ok_def stamps_ok_def commits_ok_def
      rows_of_def marked_def app_of_tenant_def single_valued_def split: option.split)

text \<open>Tables that only gain pending rows, and marks of known events.\<close>

definition gains :: "(uuid \<times> uuid) set \<Rightarrow> event_db \<Rightarrow> event_db \<Rightarrow> bool" where
  "gains known db db' \<longleftrightarrow> ed_apps db' = ed_apps db
     \<and> (\<exists>new. ed_outbox db' = ed_outbox db @ new \<and> (\<forall>r \<in> set new. ob_published r = None))
     \<and> (\<forall>i d t. marked db i d t \<longrightarrow> marked db' i d t)
     \<and> (\<forall>i d t. marked db' i d t \<longrightarrow> marked db i d t \<or> (i, t) \<in> known)"

lemma posts_gains: "posts db db' \<Longrightarrow> gains known db db'"
  by (auto simp: gains_def posts_marked) (auto simp: posts_def)

lemma gains_trans: "gains known a b \<Longrightarrow> gains known b c \<Longrightarrow> gains known a c"
  unfolding gains_def by (elim conjE exE, intro conjI) (simp_all, (metis append.assoc UnE set_append | blast)+)

lemma gains_app: "gains known db db' \<Longrightarrow> app_of_tenant db' = app_of_tenant db"
  by (simp add: gains_def app_of_tenant_def fun_eq_iff)

lemma covered_gains: "gains known db db' \<Longrightarrow> i \<in> row_ids db \<or> i \<notin> row_ids db' \<Longrightarrow> covered db i t b \<Longrightarrow> covered db' i t b"
  using gains_app [of known db db'] unfolding covered_def spelled_def gains_def by metis

lemma gains_names:
  assumes "names_ok db msgs known" "gains known db db'" "distinct (map ob_id (ed_outbox db'))"
    "\<forall>i \<in> row_ids db'. i \<in> row_ids db \<or> i \<notin> fst ` known"
  shows "names_ok db' msgs (rows_of db' \<union> known)"
proof -
  have old: "(i, t) \<in> known" if "(i, t) \<in> rows_of db'" "i \<in> row_ids db" for i t
  proof -
    from that(2) obtain t' where t': "(i, t') \<in> rows_of db" by (auto simp: rows_of_def row_ids_def)
    with assms(2) have "(i, t') \<in> rows_of db'" by (auto simp: rows_of_def gains_def)
    with that(1) assms(3) have "t = t'" by (auto simp: rows_of_def distinct_map inj_on_def)
    with t' assms(1) show ?thesis by (auto simp: names_ok_def)
  qed
  have sv: "single_valued (rows_of db')" using assms(3) by (auto simp: single_valued_def rows_of_def distinct_map inj_on_def)
  have mixed: "t = t'" if "(i, t) \<in> rows_of db'" "(i, t') \<in> known" for i t t'
  proof -
    have "i \<in> row_ids db'" using that(1) by (auto simp: rows_of_def row_ids_def)
    moreover have "i \<in> fst ` known" using that(2) by force
    ultimately have "(i, t) \<in> known" using assms(4) old that(1) by blast
    with that(2) assms(1) show ?thesis by (auto simp: names_ok_def single_valued_def)
  qed
  have "single_valued (rows_of db' \<union> known)"
  proof (rule single_valuedI)
    fix i t t' assume "(i, t) \<in> rows_of db' \<union> known" "(i, t') \<in> rows_of db' \<union> known"
    then show "t = t'" using sv mixed [of i t t'] mixed [of i t' t] assms(1)
      by (auto simp: single_valued_def names_ok_def)
  qed
  moreover have "(i, t) \<in> known" if "marked db' i d t" for i d t
    using that assms(1,2) unfolding gains_def names_ok_def by blast
  ultimately show ?thesis
    using assms(1,3) gains_app [OF assms(2)] by (auto simp: names_ok_def)
qed

lemma gains_stamps:
  assumes "stamps_ok db now msgs" "gains known db db'"
  shows "stamps_ok db' now msgs"
proof -
  obtain new where new: "ed_outbox db' = ed_outbox db @ new" "\<forall>r \<in> set new. ob_published r = None"
    using assms(2) by (auto simp: gains_def)
  then have "row_ids db \<subseteq> row_ids db'" by (auto simp: row_ids_def)
  moreover have "r \<in> set (ed_outbox db)" if "r \<in> set (ed_outbox db')" "ob_published r = Some s" for r s
    using that new by auto
  ultimately show ?thesis using assms(1) unfolding stamps_ok_def by blast
qed

lemma gains_commits:
  assumes "commits_ok db known commits reopened" "gains known db db'" "known \<subseteq> known'"
    "\<forall>i \<in> row_ids db'. i \<in> row_ids db \<or> i \<notin> fst ` known"
  shows "commits_ok db' known' commits reopened"
proof -
  have "covered db' i t b" if "(i, t) \<in> known" "covered db i t b" for i t b
  proof (rule covered_gains [OF assms(2) _ that(2)])
    from that(1) have "i \<in> fst ` known" by force
    with assms(4) show "i \<in> row_ids db \<or> i \<notin> row_ids db'" by blast
  qed
  with assms(1,3) show ?thesis unfolding commits_ok_def by (fastforce split: prod.splits)
qed

lemma gains_inv:
  assumes "event_inv w" "gains (set (ew_known w)) (ew_db w) db'" "distinct (map ob_id (ed_outbox db'))"
    "\<forall>i \<in> row_ids db'. i \<in> row_ids (ew_db w) \<or> i \<notin> fst ` set (ew_known w)" "set known' = rows_of db' \<union> set (ew_known w)"
  shows "event_inv (w\<lparr>ew_db := db', ew_known := known'\<rparr>)"
proof -
  note inv = assms(1) [unfolded event_inv_def]
  note n = gains_names [OF conjunct1 [OF inv] assms(2-4)]
  note s = gains_stamps [OF conjunct1 [OF conjunct2 [OF inv]] assms(2)]
  note c = gains_commits [OF conjunct2 [OF conjunct2 [OF inv]] assms(2) Un_upper2 assms(4)]
  from n s c show ?thesis by (simp add: event_inv_def assms(5))
qed

lemma noted_inv:
  assumes "event_inv w" "gains (set (ew_known w)) (ew_db w) db'" "fresh_rows w db'"
  shows "event_inv (rows_noted w db')"
  unfolding rows_noted_def using assms by (intro gains_inv) (simp_all add: fresh_rows_def rows_of_def)

lemma known_inv:
  assumes "event_inv w" "gains (set (ew_known w)) (ew_db w) db'" "ed_outbox db' = ed_outbox (ew_db w)"
  shows "event_inv (w\<lparr>ew_db := db'\<rparr>)"
proof -
  have o: "distinct (map ob_id (ed_outbox db'))" "row_ids db' = row_ids (ew_db w)" "rows_of db' \<subseteq> set (ew_known w)"
    using assms(1) unfolding event_inv_def names_ok_def rows_of_def row_ids_def assms(3) by blast+
  then have "set (ew_known w) = rows_of db' \<union> set (ew_known w)" by blast
  from gains_inv [OF assms(1,2) o(1) _ this] o(2) show ?thesis by simp
qed

subsection \<open>Claims and letters only add marks\<close>

lemma insert_claim_gains:
  assumes "insert_claim now t i names db = Some db'" "(i, t) \<in> known"
  shows "gains known db db'" "marked db' i (hd names) t" "names \<noteq> [] \<Longrightarrow> d \<in> set names \<Longrightarrow> \<not> marked db i d t'"
  using assms
  by (auto simp: insert_claim_def gains_def marked_def terminal_recorded_def handled_under_def list_ex_iff split: if_splits)

lemma claim_current:
  assumes "claim first now t i d older v = Inr (Some db')" "current_views now t i (claim_names d older) db v"
  shows "insert_claim now t i (claim_names d older) db = Some db'"
  using assms
  by (auto simp: claim_def Let_def current_views_def owed_or_handled_def claim_after_the_row_went_away_def
      split: option.splits list.splits if_splits)

lemma dead_insert_gains: "(ev_id ev, ev_tenant ev) \<in> known \<Longrightarrow> gains known db (dead_insert now ev d cause db)"
  by (auto simp: dead_insert_def gains_def marked_def)

lemma dead_letter_gains: "(ev_id ev, ev_tenant ev) \<in> known \<Longrightarrow> gains known db (dead_letter now ev d cause db)"
proof -
  assume k: "(ev_id ev, ev_tenant ev) \<in> known"
  have one: "gains known db (db\<lparr>ed_handled := ed_handled db @ [\<lparr>hd_event = ev_id ev, hd_durable = d', hd_tenant = ev_tenant ev, hd_at = now, hd_owed = 0\<rparr>]\<rparr>)" for d'
    using k by (auto simp: gains_def marked_def)
  then show ?thesis
    using gains_trans [OF one dead_insert_gains [OF k]] dead_insert_gains [OF k] posts_gains [OF posts_refl]
    by (simp add: dead_letter_def Let_def)
qed

lemma dead_letter_outbox [simp]: "ed_outbox (dead_letter now ev d cause db) = ed_outbox db"
  by (simp add: dead_letter_def dead_insert_def Let_def)

lemma gains_refl: "gains known db db"
  by (rule posts_gains) simp

lemma terminal_letter_gains:
  assumes "(ev_id ev, ev_tenant ev) \<in> known"
  shows "gains known db (fst (terminal_letter us parse cp first now app ev d cause hook done db))"
proof -
  let ?v = "\<lparr>cv_insert = db, cv_read = db, cv_terminal = db, cv_again = db\<rparr>"
  have v: "current_views now (ev_tenant ev) (ev_id ev) (claim_names d '''') db ?v" by (simp add: current_views_def)
  have "gains known db (fst (run_after (ev_id ev) d done (dead_insert now ev d cause db2)))"
    if c: "claim first now (ev_tenant ev) (ev_id ev) d '''' ?v = Inr (Some db1)"
      and h: "run_handler us parse cp now ev d hook db1 = Inr db2" for db1 db2
    using insert_claim_gains(1) [OF claim_current [OF c v] assms] posts_gains [OF run_handler_posts [OF h]]
      dead_insert_gains [OF assms, of db2 now d cause] posts_gains [OF run_after_posts] gains_trans by metis
  then show ?thesis
    by (auto simp: terminal_letter_def gains_refl split: sum.split option.split)
qed

subsection \<open>One step keeps the invariant\<close>

lemma deliverable_known: "event_inv w \<Longrightarrow> deliverable w ev \<Longrightarrow> (ev_id ev, ev_tenant ev) \<in> set (ew_known w)"
  by (auto simp: event_inv_def names_ok_def deliverable_def)

lemma deliverable_row: "event_inv w \<Longrightarrow> deliverable w ev \<Longrightarrow> ev_id ev \<in> row_ids (ew_db w)"
  by (fastforce simp: event_inv_def stamps_ok_def deliverable_def)

lemma durable_base: "durable app m n = durable_prefix app @ durable '''' m n"
  by (simp add: durable_def durable_prefix_def named_def)

lemma spelled_claimed:
  assumes "sub_ok s" "app_of_tenant db t = su_app s" "spelled db t (sub_base s) d"
  shows "d \<in> set (claim_names (sub_durable s) (older_durable s))"
proof (cases "named (su_app s)")
  case True
  have "sub_base s \<noteq> ''''" by (simp add: sub_base_def durable_def)
  with assms True show ?thesis
    by (auto simp: spelled_def claim_names_def sub_durable_def older_durable_def sub_base_def durable_base [of "su_app s"])
next
  case False
  with assms show ?thesis by (auto simp: spelled_def claim_names_def sub_durable_def sub_base_def named_def durable_prefix_def)
qed

lemma claim_names_simps [simp]: "claim_names d older \<noteq> []" "hd (claim_names d older) = d"
  by (simp_all add: claim_names_def)

lemma handles_inv:
  assumes inv: "event_inv w" and d: "deliverable w ev" and s: "sub_ok s" and holds: "holds_tenant (su_app s) (ev_tenant ev) (ew_db w)"
    and v: "current_views (ew_now w) (ev_tenant ev) (ev_id ev) (claim_names (sub_durable s) (older_durable s)) (ew_db w) v"
    and h: "handle_claim us parse cp first (ew_now w) s ev hr (ew_db w) v = Inr (Some db')" and fresh: "fresh_rows w db'"
  shows "event_inv ((rows_noted w db')\<lparr>ew_commits := (ev_id ev, sub_base s) # ew_commits w\<rparr>)"
proof -
  let ?i = "ev_id ev" and ?t = "ev_tenant ev" and ?b = "sub_base s" and ?names = "claim_names (sub_durable s) (older_durable s)"
  note k = deliverable_known [OF inv d] and row = deliverable_row [OF inv d]
  from h obtain db1 where c: "claim first (ew_now w) ?t ?i (sub_durable s) (older_durable s) v = Inr (Some db1)"
    and r: "run_handler us parse cp (ew_now w) ev (sub_durable s) hr db1 = Inr db'"
    by (auto simp: handle_claim_def split: if_splits sum.splits option.splits)
  note ins = claim_current [OF c v]
  note ig = insert_claim_gains [OF ins k]
  have g: "gains (set (ew_known w)) (ew_db w) db'"
    by (rule gains_trans [OF ig(1) posts_gains [OF run_handler_posts [OF r]]])
  have n: "event_inv (rows_noted w db')" by (rule noted_inv [OF inv g fresh])
  have app: "app_of_tenant (ew_db w) ?t = su_app s" using holds by (simp add: holds_tenant_def)
  have sv: "single_valued (set (ew_known w))" using inv by (simp add: event_inv_def names_ok_def)
  have new: "(?i, ?b) \<notin> set (ew_commits w)" if "(?i, ?b) \<notin> set (ew_reopened w)"
  proof
    assume "(?i, ?b) \<in> set (ew_commits w)"
    with inv that obtain t where t: "(?i, t) \<in> set (ew_known w)" "covered (ew_db w) ?i t ?b"
      by (auto simp: event_inv_def commits_ok_def)
    with sv k have "t = ?t" by (auto simp: single_valued_def)
    with t(2) row obtain d where "spelled (ew_db w) ?t ?b d" "marked (ew_db w) ?i d ?t" by (auto simp: covered_def)
    with ig(3) [OF _ spelled_claimed [OF s app]] show False by simp
  qed
  have cov: "covered db' ?i ?t ?b"
  proof -
    have "marked db' ?i (sub_durable s) ?t" using ig(2) run_handler_posts [OF r] by (simp add: posts_marked)
    moreover have "sub_durable s = durable_prefix (app_of_tenant db' ?t) @ ?b"
      using app gains_app [OF g] by (simp add: sub_durable_def sub_base_def durable_base [of "su_app s"])
    ultimately show ?thesis by (auto simp: covered_def spelled_def)
  qed
  have u: "unscoped_durable ?b" using s by (simp add: sub_ok_def unscoped_durable_def)
  have dbs: "ew_db (rows_noted w db') = db'" "ew_commits (rows_noted w db') = ew_commits w" "ew_reopened (rows_noted w db') = ew_reopened w"
    "set (ew_known w) \<subseteq> set (ew_known (rows_noted w db'))" by (auto simp: rows_noted_def)
  have "commits_ok db' (set (ew_known (rows_noted w db'))) ((?i, ?b) # ew_commits w) (set (ew_reopened w))"
    using n [unfolded event_inv_def dbs commits_ok_def] u k dbs(4) new cov
    unfolding commits_ok_def by (auto simp: count_list_0_iff)
  with n show ?thesis unfolding event_inv_def by (simp add: dbs)
qed

lemma inv_parts:
  assumes "event_inv w"
  shows "names_ok (ew_db w) (ew_messages w) (set (ew_known w))" "stamps_ok (ew_db w) (ew_now w) (ew_messages w)"
    "commits_ok (ew_db w) (set (ew_known w)) (ew_commits w) (set (ew_reopened w))"
  using assms by (simp_all add: event_inv_def)

lemma row_event_ids [simp]: "ev_id (row_event r) = ob_id r" "ev_tenant (row_event r) = ob_tenant r"
  by (simp_all add: row_event_def)

text \<open>A copy of a pending row is published.\<close>

lemma publishes_inv:
  assumes inv: "event_inv w" and rs: "\<forall>e \<in> set es. \<exists>r \<in> set (ed_outbox (ew_db w)). ob_published r = None \<and> e = row_event r"
  shows "event_inv (w\<lparr>ew_messages := map (\<lambda>e. (e, ew_now w)) es @ ew_messages w\<rparr>)"
proof -
  let ?msgs = "map (\<lambda>e. (e, ew_now w)) es @ ew_messages w"
  note p = inv_parts [OF inv]
  have known: "(ob_id r, ob_tenant r) \<in> set (ew_known w)" if "r \<in> set (ed_outbox (ew_db w))" for r
    using p(1) that by (auto simp: names_ok_def rows_of_def)
  have one: "r = r'" if "r \<in> set (ed_outbox (ew_db w))" "r' \<in> set (ed_outbox (ew_db w))" "ob_id r = ob_id r'" for r r'
    using p(1) that by (auto simp: names_ok_def distinct_map inj_on_def)
  have "names_ok (ew_db w) ?msgs (set (ew_known w))"
    using p(1) rs known unfolding names_ok_def by fastforce
  moreover have "stamps_ok (ew_db w) (ew_now w) ?msgs"
  proof -
    have "ev_id e \<in> row_ids (ew_db w)" if "e \<in> set es" for e using rs that by (auto simp: row_ids_def)
    moreover have False if "r \<in> set (ed_outbox (ew_db w))" "ob_published r = Some s" "e \<in> set es" "ev_id e = ob_id r" for r s e
    proof -
      from rs that(3) obtain r' where r': "r' \<in> set (ed_outbox (ew_db w))" "ob_published r' = None" "e = row_event r'" by blast
      with that(4) one [OF that(1) r'(1)] that(2) show False by simp
    qed
    moreover have in_msgs: "(e, t) \<in> set ?msgs \<longleftrightarrow> e \<in> set es \<and> t = ew_now w \<or> (e, t) \<in> set (ew_messages w)" for e t
      by auto
    ultimately show ?thesis using p(2) unfolding stamps_ok_def Ball_def split_paired_All prod.case in_msgs by blast
  qed
  ultimately show ?thesis using p(3) by (simp add: event_inv_def)
qed

text \<open>Stamping rows every one of which has been published.\<close>

lemma stamp_names: "map (\<lambda>r. (ob_id r, ob_tenant r)) (ed_outbox (stamp_rows now is db)) = map (\<lambda>r. (ob_id r, ob_tenant r)) (ed_outbox db)"
  by (simp add: stamp_rows_def)

lemma row_ids_rows: "row_ids db = fst ` rows_of db"
  by (simp add: row_ids_def rows_of_def image_image)

lemma rows_of_stamp [simp]: "rows_of (stamp_rows now is db) = rows_of db"
  using arg_cong [OF stamp_names, of set now "is" db] by (simp add: rows_of_def)

lemma row_ids_stamp [simp]: "row_ids (stamp_rows now is db) = row_ids db"
  by (simp add: row_ids_rows)

lemma stamp_row: "r' \<in> set (ed_outbox (stamp_rows now is db)) \<Longrightarrow>
    \<exists>r \<in> set (ed_outbox db). row_event r' = row_event r \<and> ob_id r' = ob_id r \<and> ob_tenant r' = ob_tenant r
      \<and> ob_published r' = (if ob_id r \<in> set is then Some now else ob_published r)"
  by (fastforce simp: stamp_rows_def row_event_def)

lemma stamp_inv:
  assumes inv: "event_inv w" and pub: "\<forall>r \<in> set (ed_outbox (ew_db w)). ob_id r \<in> set is \<longrightarrow> (\<exists>p. (row_event r, p) \<in> set (ew_messages w))"
  shows "event_inv (w\<lparr>ew_db := stamp_rows (ew_now w) is (ew_db w)\<rparr>)"
proof -
  let ?db = "stamp_rows (ew_now w) is (ew_db w)"
  note p = inv_parts [OF inv]
  have m: "marked ?db = marked (ew_db w)" by (simp add: marked_def stamp_rows_def fun_eq_iff)
  have a: "app_of_tenant ?db = app_of_tenant (ew_db w)" by (simp add: app_of_tenant_def stamp_rows_def fun_eq_iff)
  have ids: "map ob_id (ed_outbox ?db) = map ob_id (ed_outbox (ew_db w))" by (simp add: stamp_rows_def)
  have "names_ok ?db (ew_messages w) (set (ew_known w))" using p(1) by (simp add: names_ok_def m a ids)
  moreover have "stamps_ok ?db (ew_now w) (ew_messages w)"
  proof -
    have "(\<exists>p. (row_event r', p) \<in> set (ew_messages w)) \<and> (\<forall>(ev, p) \<in> set (ew_messages w). ev_id ev = ob_id r' \<longrightarrow> p \<le> s)"
      if r': "r' \<in> set (ed_outbox ?db)" and s: "ob_published r' = Some s" for r' s
    proof -
      from stamp_row [OF r'] obtain r where r: "r \<in> set (ed_outbox (ew_db w))" "row_event r' = row_event r" "ob_id r' = ob_id r"
        "ob_published r' = (if ob_id r \<in> set is then Some (ew_now w) else ob_published r)" by blast
      show ?thesis
      proof (cases "ob_id r \<in> set is")
        case True
        with r s have "s = ew_now w" by simp
        with True r(1-3) pub p(2) show ?thesis by (auto simp: stamps_ok_def)
      next
        case False
        with r s have "ob_published r = Some s" by simp
        with r(1-3) p(2) show ?thesis unfolding stamps_ok_def by auto
      qed
    qed
    with p(2) show ?thesis by (auto simp: stamps_ok_def)
  qed
  moreover have "commits_ok ?db (set (ew_known w)) (ew_commits w) (set (ew_reopened w))"
    using p(3) by (simp add: commits_ok_def covered_def spelled_def m a)
  ultimately show ?thesis by (simp add: event_inv_def)
qed

lemma relays_inv:
  assumes inv: "event_inv w" and b: "relay_batch (ew_now w) locked accepts app (ew_db w) = (db', sent, res)"
  shows "event_inv (w\<lparr>ew_db := db', ew_messages := map (\<lambda>e. (e, ew_now w)) sent @ ew_messages w\<rparr>)"
proof -
  let ?rows = "relay_rows locked app (ew_db w)"
  have rows: "r \<in> set (ed_outbox (ew_db w)) \<and> ob_published r = None" if "r \<in> set ?rows" for r
    using that by (auto simp: relay_rows_def pending_def dest: in_set_takeD)
  from b have sent: "set sent \<subseteq> row_event ` set ?rows"
    by (elim relay_batch_cases) (auto dest: set_takeWhileD)
  then have "\<forall>e \<in> set sent. \<exists>r \<in> set (ed_outbox (ew_db w)). ob_published r = None \<and> e = row_event r"
    using rows by fastforce
  note m = publishes_inv [OF inv this]
  from b show ?thesis
  proof (cases rule: relay_batch_cases)
    case 1
    with m show ?thesis by simp
  next
    case 2
    have "\<exists>p. (row_event r, p) \<in> set (map (\<lambda>e. (e, ew_now w)) sent @ ew_messages w)"
      if "r \<in> set (ed_outbox (ew_db w))" "ob_id r \<in> set (map ob_id ?rows)" for r
    proof -
      from that(2) obtain r' where r': "r' \<in> set ?rows" "ob_id r' = ob_id r" by auto
      with rows [OF r'(1)] that(1) inv_parts(1) [OF inv] have "r' = r" by (auto simp: names_ok_def distinct_map inj_on_def)
      with r' 2(3) show ?thesis by auto
    qed
    with stamp_inv [OF m, of "map ob_id ?rows"] 2(1) show ?thesis by (simp add: event_inv_def)
  qed
qed

lemma ticks_inv: "event_inv w \<Longrightarrow> 0 \<le> d \<Longrightarrow> event_inv (w\<lparr>ew_now := ew_now w + d\<rparr>)"
  by (fastforce simp: event_inv_def stamps_ok_def)

lemma commits_change:
  assumes "commits_ok db known commits reopened" "reopened \<subseteq> reopened'"
    "\<And>i b t. (i, b) \<in> set commits \<Longrightarrow> unscoped_durable b \<Longrightarrow> (i, b) \<notin> reopened' \<Longrightarrow> (i, t) \<in> known \<Longrightarrow> covered db i t b \<Longrightarrow> covered db' i t b"
  shows "commits_ok db' known commits reopened'"
  using assms unfolding commits_ok_def by (fastforce split: prod.splits)

lemma names_respelled:
  assumes "names_ok db msgs known" "ed_outbox db' = ed_outbox db" "app_of_tenant db' = app_of_tenant db"
    "\<And>i d t. marked db' i d t \<Longrightarrow> \<exists>e. marked db i e t"
  shows "names_ok db' msgs known"
  using assms(1,4) unfolding names_ok_def rows_of_def assms(2,3) by blast

lemma names_fewer:
  assumes "names_ok db msgs known" "ed_outbox db' = ed_outbox db" "app_of_tenant db' = app_of_tenant db"
    "\<And>i d t. marked db' i d t \<Longrightarrow> marked db i d t"
  shows "names_ok db' msgs known"
  using assms(1,4) unfolding names_ok_def rows_of_def assms(2,3) by blast

lemma base_of_spelled:
  assumes "names_ok db msgs known" "unscoped_durable b" "spelled db t b d"
  shows "base_of d = b"
proof (cases "app_of_tenant db t = ''''")
  case True
  with assms show ?thesis by (simp add: spelled_def durable_prefix_def named_def base_of_def)
next
  case False
  let ?a = "app_of_tenant db t"
  from False assms(1) have v: "valid_name ?a" by (auto simp: names_ok_def)
  then have "CHR ''+'' \<notin> set ?a" by (rule valid_name_no_sep)
  then have "dropWhile (\<lambda>c. c \<noteq> CHR ''+'') (?a @ ''+'' @ b) = ''+'' @ b" by (subst dropWhile_append2) auto
  with False v assms(2,3) show ?thesis
    by (auto simp: spelled_def durable_prefix_def named_def base_of_def unscoped_durable_def)
qed

lemma releases_inv:
  assumes inv: "event_inv w"
  shows "event_inv (w\<lparr>ew_db := release_claim i d (ew_db w), ew_reopened := (i, base_of d) # ew_reopened w\<rparr>)"
proof -
  let ?db = "release_claim i d (ew_db w)"
  note p = inv_parts [OF inv]
  have m: "marked ?db j e t \<Longrightarrow> marked (ew_db w) j e t" and k: "marked (ew_db w) j e t \<Longrightarrow> (j, e) \<noteq> (i, d) \<Longrightarrow> marked ?db j e t" for j e t
    by (auto simp: marked_def release_claim_def)
  have o: "ed_outbox ?db = ed_outbox (ew_db w)" "app_of_tenant ?db = app_of_tenant (ew_db w)"
    by (simp_all add: release_claim_def app_of_tenant_def fun_eq_iff)
  have "names_ok ?db (ew_messages w) (set (ew_known w))" by (rule names_fewer [OF p(1) o m])
  moreover have "stamps_ok ?db (ew_now w) (ew_messages w)" using p(2) by (simp add: stamps_ok_def o row_ids_def)
  moreover have "commits_ok ?db (set (ew_known w)) (ew_commits w) (insert (i, base_of d) (set (ew_reopened w)))"
  proof (rule commits_change [OF p(3)], blast)
    fix j b t assume c: "unscoped_durable b" "(j, b) \<notin> insert (i, base_of d) (set (ew_reopened w))" "covered (ew_db w) j t b"
    have "(j, e) \<noteq> (i, d)" if "spelled (ew_db w) t b e" for e using c(2) base_of_spelled [OF p(1) c(1) that] by auto
    with c(3) k show "covered ?db j t b" unfolding covered_def spelled_def row_ids_def o by blast
  qed
  ultimately show ?thesis by (simp add: event_inv_def)
qed

lemma purge_outbox_inv:
  assumes inv: "event_inv w"
  shows "event_inv (w\<lparr>ew_db := purge_outbox (ew_now w) (ew_db w)\<rparr>)"
proof -
  let ?db = "purge_outbox (ew_now w) (ew_db w)"
  note p = inv_parts [OF inv]
  have m: "marked ?db = marked (ew_db w)" by (simp add: marked_def purge_outbox_def fun_eq_iff)
  have a: "app_of_tenant ?db = app_of_tenant (ew_db w)" by (simp add: purge_outbox_def app_of_tenant_def fun_eq_iff)
  have r: "r \<in> set (ed_outbox ?db) \<Longrightarrow> r \<in> set (ed_outbox (ew_db w))" for r by (simp add: purge_outbox_def)
  have gone: "\<exists>s. ob_published r = Some s \<and> s < ew_now w - event_keep" if "r \<in> set (ed_outbox (ew_db w))" "r \<notin> set (ed_outbox ?db)" for r
    using that by (auto simp: purge_outbox_def split: option.splits)
  have "distinct (map ob_id (ed_outbox ?db))"
    using p(1) by (simp add: names_ok_def purge_outbox_def distinct_map_filter)
  then have "names_ok ?db (ew_messages w) (set (ew_known w))"
    using p(1) r by (auto simp: names_ok_def m a rows_of_def)
  moreover have "stamps_ok ?db (ew_now w) (ew_messages w)"
  proof -
    have "t + event_keep \<le> ew_now w" if ev: "(ev, t) \<in> set (ew_messages w)" "ev_id ev \<notin> row_ids ?db" for ev t
    proof (cases "ev_id ev \<in> row_ids (ew_db w)")
      case True
      then obtain r where "r \<in> set (ed_outbox (ew_db w))" "ob_id r = ev_id ev" by (auto simp: row_ids_def)
      with ev(2) have "r \<notin> set (ed_outbox ?db)" by (force simp: row_ids_def)
      from gone [OF \<open>r \<in> set (ed_outbox (ew_db w))\<close> this] obtain s where s: "ob_published r = Some s" "s < ew_now w - event_keep" by blast
      with \<open>r \<in> set (ed_outbox (ew_db w))\<close> p(2) ev(1) \<open>ob_id r = ev_id ev\<close> have "t \<le> s" by (fastforce simp: stamps_ok_def)
      with s show ?thesis by simp
    next
      case False
      with p(2) ev show ?thesis by (auto simp: stamps_ok_def)
    qed
    with p(2) r show ?thesis unfolding stamps_ok_def by blast
  qed
  moreover have "commits_ok ?db (set (ew_known w)) (ew_commits w) (set (ew_reopened w))"
    by (rule commits_change [OF p(3)]) (use r in \<open>auto simp: covered_def spelled_def m a row_ids_def\<close>)
  ultimately show ?thesis by (simp add: event_inv_def)
qed

lemma purge_handled_inv:
  assumes inv: "event_inv w"
  shows "event_inv (w\<lparr>ew_db := purge_handled now (ew_db w)\<rparr>)"
proof -
  let ?db = "purge_handled now (ew_db w)"
  note p = inv_parts [OF inv]
  have m: "marked ?db j e t \<Longrightarrow> marked (ew_db w) j e t"
    and k: "marked (ew_db w) j e t \<Longrightarrow> j \<in> row_ids (ew_db w) \<Longrightarrow> marked ?db j e t" for j e t
    by (fastforce simp: marked_def purge_handled_def list_ex_iff row_ids_def)+
  have o: "ed_outbox ?db = ed_outbox (ew_db w)" "app_of_tenant ?db = app_of_tenant (ew_db w)"
    by (simp_all add: purge_handled_def app_of_tenant_def fun_eq_iff)
  have "names_ok ?db (ew_messages w) (set (ew_known w))" by (rule names_fewer [OF p(1) o m])
  moreover have "stamps_ok ?db (ew_now w) (ew_messages w)" using p(2) by (simp add: stamps_ok_def o row_ids_def)
  moreover have "commits_ok ?db (set (ew_known w)) (ew_commits w) (set (ew_reopened w))"
    by (rule commits_change [OF p(3)]) (use k in \<open>auto simp: covered_def spelled_def o row_ids_def\<close>)
  ultimately show ?thesis by (simp add: event_inv_def)
qed

lemma purges_inv: "event_inv w \<Longrightarrow> event_inv (w\<lparr>ew_db := purge_events (ew_now w) (ew_db w)\<rparr>)"
  using purge_handled_inv [OF purge_outbox_inv [of w], of "ew_now w"] by (simp add: purge_events_def)

lemma places_inv:
  assumes inv: "event_inv w" and t: "app_of_tenant (ew_db w) tenant = ''''" and v: "valid_name a"
  shows "event_inv (w\<lparr>ew_db := (ew_db w)\<lparr>ed_apps := AList.update tenant a (ed_apps (ew_db w))\<rparr>\<rparr>)"
proof -
  let ?db = "(ew_db w)\<lparr>ed_apps := AList.update tenant a (ed_apps (ew_db w))\<rparr>"
  note p = inv_parts [OF inv]
  have m: "marked ?db = marked (ew_db w)" by (simp add: marked_def fun_eq_iff)
  have app: "app_of_tenant ?db t = (if t = tenant then a else app_of_tenant (ew_db w) t)" for t
    by (simp add: app_of_tenant_def update_conv')
  have "names_ok ?db (ew_messages w) (set (ew_known w))" using p(1) v by (auto simp: names_ok_def m app rows_of_def)
  moreover have "stamps_ok ?db (ew_now w) (ew_messages w)" using p(2) by (simp add: stamps_ok_def row_ids_def)
  moreover have "commits_ok ?db (set (ew_known w)) (ew_commits w) (set (ew_reopened w))"
    by (rule commits_change [OF p(3)])
      (use t in \<open>auto simp: covered_def spelled_def m app row_ids_def durable_prefix_def named_def split: if_splits\<close>)
  ultimately show ?thesis by (simp add: event_inv_def)
qed

text \<open>Replaying: the marks of the event go, and with them what they covered.\<close>

lemma clear_marks_inv:
  assumes inv: "event_inv w"
  shows "event_inv (w\<lparr>ew_db := clear_marks i d (ew_db w),
    ew_reopened := (if d = '''' then map (\<lambda>c. (i, snd c)) (ew_commits w) else [(i, base_of d)]) @ ew_reopened w\<rparr>)"
proof -
  let ?db = "clear_marks i d (ew_db w)"
  let ?re = "set (if d = '''' then map (\<lambda>c. (i, snd c)) (ew_commits w) else [(i, base_of d)]) \<union> set (ew_reopened w)"
  note p = inv_parts [OF inv]
  have m: "marked ?db j e t \<Longrightarrow> marked (ew_db w) j e t"
    and k: "marked (ew_db w) j e t \<Longrightarrow> j \<noteq> i \<or> d \<noteq> '''' \<and> e \<noteq> d \<Longrightarrow> marked ?db j e t" for j e t
    by (auto simp: marked_def clear_marks_def)
  have app: "app_of_tenant ?db = app_of_tenant (ew_db w)" by (simp add: clear_marks_def app_of_tenant_def fun_eq_iff)
  have names: "map (\<lambda>r. (ob_id r, ob_tenant r)) (ed_outbox ?db) = map (\<lambda>r. (ob_id r, ob_tenant r)) (ed_outbox (ew_db w))"
    by (simp add: clear_marks_def)
  have rows: "rows_of ?db = rows_of (ew_db w)" using arg_cong [OF names, of set] by (simp add: rows_of_def)
  have ids: "map ob_id (ed_outbox ?db) = map ob_id (ed_outbox (ew_db w))" by (simp add: clear_marks_def)
  have old: "r \<in> set (ed_outbox (ew_db w))" if "r \<in> set (ed_outbox ?db)" "ob_published r = Some s" for r s
    using that by (auto simp: clear_marks_def split: if_splits)
  have "names_ok ?db (ew_messages w) (set (ew_known w))"
    using p(1) m unfolding names_ok_def app rows ids by blast
  moreover have "stamps_ok ?db (ew_now w) (ew_messages w)"
    using p(2) old unfolding stamps_ok_def row_ids_rows rows by blast
  moreover have "commits_ok ?db (set (ew_known w)) (ew_commits w) ?re"
  proof (rule commits_change [OF p(3)], blast)
    fix j b t assume c: "(j, b) \<in> set (ew_commits w)" "unscoped_durable b" "(j, b) \<notin> ?re" "covered (ew_db w) j t b"
    have "j \<noteq> i \<or> d \<noteq> '''' \<and> e \<noteq> d" if "spelled (ew_db w) t b e" for e
    proof (cases "d = ''''")
      case True
      with c(1,3) show ?thesis by (auto simp: image_iff)
    next
      case False
      with c(3) base_of_spelled [OF p(1) c(2) that] show ?thesis by auto
    qed
    with c(4) k show "covered ?db j t b" unfolding covered_def spelled_def row_ids_rows rows app by blast
  qed
  ultimately show ?thesis by (simp add: event_inv_def Un_commute)
qed

lemma replay_steps:
  assumes "replay us parse cp cx now fresh ob body app i d reason db = (db', None)"
  shows "posts (clear_marks i d db) db'"
  using assms
  by (auto simp: replay_def split: if_splits option.splits sum.splits dest!: succeed_for_posts publish_for_posts intro: posts_trans)

lemma replays_inv:
  assumes inv: "event_inv w" and r: "replay us parse cp cx (ew_now w) fresh ob body app i d reason (ew_db w) = (db', None)"
    and f: "fresh_rows w db'"
  shows "event_inv ((rows_noted w db')\<lparr>ew_reopened := (if d = '''' then map (\<lambda>c. (i, snd c)) (ew_commits w) else [(i, base_of d)]) @ ew_reopened w\<rparr>)"
proof -
  let ?re = "(if d = '''' then map (\<lambda>c. (i, snd c)) (ew_commits w) else [(i, base_of d)]) @ ew_reopened w"
  let ?w = "w\<lparr>ew_db := clear_marks i d (ew_db w), ew_reopened := ?re\<rparr>"
  have rows: "row_ids (clear_marks i d (ew_db w)) = row_ids (ew_db w)"
  proof -
    have "map ob_id (ed_outbox (clear_marks i d (ew_db w))) = map ob_id (ed_outbox (ew_db w))" by (simp add: clear_marks_def)
    from arg_cong [OF this, of set] show ?thesis by (simp add: row_ids_def)
  qed
  have "event_inv (rows_noted ?w db')"
    by (rule noted_inv [OF clear_marks_inv [OF inv]]) (use posts_gains [OF replay_steps [OF r]] f rows in \<open>simp_all add: fresh_rows_def\<close>)
  then show ?thesis unfolding event_inv_def by (simp add: rows_noted_def)
qed

text \<open>Moving a ledger: the marks of the application's tenants change their spelling.\<close>

lemma rename_ledger_marks:
  assumes r: "rename_ledger ident dur copy own pre from tbl = (tbl', src)" and pre: "CHR ''+'' \<in> set pre"
  shows "h' \<in> set tbl' \<Longrightarrow> h' \<in> set tbl \<or> (\<exists>h \<in> set tbl. own h \<and> unscoped_durable (dur h) \<and> h' = copy (pre @ dur h) h)"
    and "h \<in> set tbl \<Longrightarrow> h \<in> set tbl' \<or> (own h \<and> unscoped_durable (dur h)
      \<and> (copy (pre @ dur h) h \<in> set tbl' \<or> (\<exists>t \<in> set tbl \<inter> set tbl'. ident t = ident h \<and> dur t = pre @ dur h)))"
proof -
  show "h' \<in> set tbl' \<Longrightarrow> h' \<in> set tbl \<or> (\<exists>h \<in> set tbl. own h \<and> unscoped_durable (dur h) \<and> h' = copy (pre @ dur h) h)"
    using r by (auto simp: rename_ledger_def Let_def)
  have scoped: "\<not> unscoped_durable (pre @ d)" for d using pre by (simp add: unscoped_durable_def)
  assume h: "h \<in> set tbl"
  show "h \<in> set tbl' \<or> (own h \<and> unscoped_durable (dur h)
      \<and> (copy (pre @ dur h) h \<in> set tbl' \<or> (\<exists>t \<in> set tbl \<inter> set tbl'. ident t = ident h \<and> dur t = pre @ dur h)))"
  proof (cases "unscoped_durable (dur h) \<and> own h \<and> dur h \<in> set from")
    case False
    with h r show ?thesis by (auto simp: rename_ledger_def Let_def)
  next
    case moved: True
    show ?thesis
    proof (cases "list_ex (\<lambda>t. ident t = ident h \<and> dur t = pre @ dur h) tbl")
      case True
      then obtain t where t: "t \<in> set tbl" "ident t = ident h" "dur t = pre @ dur h" by (auto simp: list_ex_iff)
      with scoped have "\<not> unscoped_durable (dur t)" by simp
      with t(1) r have "t \<in> set tbl'" by (auto simp: rename_ledger_def Let_def)
      with t moved show ?thesis by blast
    next
      case False
      with moved h r have "copy (pre @ dur h) h \<in> set tbl'" by (auto simp: rename_ledger_def Let_def)
      with moved show ?thesis by blast
    qed
  qed
qed

lemma move_ledger_steps:
  assumes "move_ledger us parse cp cx now fresh ob body busy claimed app db = (db', Inr report)"
  shows "\<not> named app \<and> db' = db \<or> (valid_name app \<and> (\<exists>hs hsrc ds dsrc from.
    rename_ledger hd_event hd_durable copy_handled (\<lambda>h. own_tenant app db (hd_tenant h)) (durable_prefix app) from (ed_handled db) = (hs, hsrc)
    \<and> rename_ledger dd_event dd_durable copy_dead (\<lambda>l. own_tenant app db (dd_tenant l)) (durable_prefix app) from (ed_dead db) = (ds, dsrc)
    \<and> \<not> unscoped_remains app (db\<lparr>ed_handled := hs, ed_dead := ds\<rparr>) \<and> posts (db\<lparr>ed_handled := hs, ed_dead := ds\<rparr>) db'))"
proof -
  obtain hs hsrc where h: "rename_ledger hd_event hd_durable copy_handled (\<lambda>h. own_tenant app db (hd_tenant h)) (durable_prefix app)
    (ledger_durables app db) (ed_handled db) = (hs, hsrc)" by (metis surj_pair)
  obtain ds dsrc where d: "rename_ledger dd_event dd_durable copy_dead (\<lambda>l. own_tenant app db (dd_tenant l)) (durable_prefix app)
    (ledger_durables app db) (ed_dead db) = (ds, dsrc)" by (metis surj_pair)
  from assms have "\<not> named app \<and> db' = db \<or> (valid_name app \<and> \<not> unscoped_remains app (db\<lparr>ed_handled := hs, ed_dead := ds\<rparr>)
      \<and> posts (db\<lparr>ed_handled := hs, ed_dead := ds\<rparr>) db')"
    by (auto simp: move_ledger_def Let_def h d split: if_splits sum.splits dest: publish_ledger_move_posts)
  with h d show ?thesis by blast
qed

lemma renamed_marks:
  assumes h: "rename_ledger hd_event hd_durable copy_handled (\<lambda>h. own_tenant app db (hd_tenant h)) (durable_prefix app) from (ed_handled db) = (hs, hsrc)"
    and d: "rename_ledger dd_event dd_durable copy_dead (\<lambda>l. own_tenant app db (dd_tenant l)) (durable_prefix app) from (ed_dead db) = (ds, dsrc)"
    and v: "valid_name app" and one: "\<forall>i d d' t t'. marked db i d t \<longrightarrow> marked db i d' t' \<longrightarrow> t = t'"
  shows "marked (db\<lparr>ed_handled := hs, ed_dead := ds\<rparr>) i e t \<Longrightarrow>
      marked db i e t \<or> (\<exists>e'. unscoped_durable e' \<and> e = durable_prefix app @ e' \<and> marked db i e' t)"
    and "marked db i e t \<Longrightarrow> marked (db\<lparr>ed_handled := hs, ed_dead := ds\<rparr>) i e t
      \<or> (app_of_tenant db t = app \<and> unscoped_durable e \<and> marked (db\<lparr>ed_handled := hs, ed_dead := ds\<rparr>) i (durable_prefix app @ e) t)"
proof -
  let ?db = "db\<lparr>ed_handled := hs, ed_dead := ds\<rparr>"
  from v have n: "named app" by (auto simp: valid_name_def named_def)
  then have pre: "CHR ''+'' \<in> set (durable_prefix app)" by (simp add: durable_prefix_def)
  have own: "own_tenant app db t \<Longrightarrow> app_of_tenant db t = app" for t by (simp add: own_tenant_def app_of_tenant_def)
  note hm = rename_ledger_marks [OF h pre] and dm = rename_ledger_marks [OF d pre]
  show "marked ?db i e t \<Longrightarrow> marked db i e t \<or> (\<exists>e'. unscoped_durable e' \<and> e = durable_prefix app @ e' \<and> marked db i e' t)"
    by (auto simp: marked_def copy_handled_def copy_dead_def dest!: hm(1) dm(1))
  have hcase: "marked ?db i (hd_durable x) t \<or> (app_of_tenant db t = app \<and> unscoped_durable (hd_durable x) \<and> marked ?db i (durable_prefix app @ hd_durable x) t)"
    if x: "x \<in> set (ed_handled db)" "hd_event x = i" "hd_tenant x = t" for x
  proof -
    have m: "marked db i (hd_durable x) t" using x by (auto simp: marked_def)
    have "hd_tenant y = t" if "y \<in> set (ed_handled db)" "hd_event y = i" for y
      using one [rule_format, OF _ m, of "hd_durable y" "hd_tenant y"] that by (auto simp: marked_def)
    moreover have mk: "marked ?db (hd_event y) (hd_durable y) (hd_tenant y)" if "y \<in> set hs" for y using that by (auto simp: marked_def)
    moreover consider "x \<in> set hs" | "own_tenant app db (hd_tenant x)" "unscoped_durable (hd_durable x)" "copy_handled (durable_prefix app @ hd_durable x) x \<in> set hs"
      | y where "own_tenant app db (hd_tenant x)" "unscoped_durable (hd_durable x)" "y \<in> set (ed_handled db)" "y \<in> set hs" "hd_event y = hd_event x" "hd_durable y = durable_prefix app @ hd_durable x"
      using hm(2) [OF x(1)] by blast
    then show ?thesis
    proof cases
      case 1
      with mk x show ?thesis by metis
    next
      case 2
      from mk [OF 2(3)] x own [OF 2(1)] 2(2) show ?thesis by (simp add: copy_handled_def)
    next
      case (3 y)
      with calculation(1) [of y] x have "hd_tenant y = t" by simp
      with mk [OF 3(4)] x own [OF 3(1)] 3(2,5,6) show ?thesis by simp
    qed
  qed
  have dcase: "marked ?db i (dd_durable x) t \<or> (app_of_tenant db t = app \<and> unscoped_durable (dd_durable x) \<and> marked ?db i (durable_prefix app @ dd_durable x) t)"
    if x: "x \<in> set (ed_dead db)" "dd_event x = i" "dd_tenant x = t" for x
  proof -
    have m: "marked db i (dd_durable x) t" using x by (auto simp: marked_def)
    have "dd_tenant y = t" if "y \<in> set (ed_dead db)" "dd_event y = i" for y
      using one [rule_format, OF _ m, of "dd_durable y" "dd_tenant y"] that by (auto simp: marked_def)
    moreover have mk: "marked ?db (dd_event y) (dd_durable y) (dd_tenant y)" if "y \<in> set ds" for y using that by (auto simp: marked_def)
    moreover consider "x \<in> set ds" | "own_tenant app db (dd_tenant x)" "unscoped_durable (dd_durable x)" "copy_dead (durable_prefix app @ dd_durable x) x \<in> set ds"
      | y where "own_tenant app db (dd_tenant x)" "unscoped_durable (dd_durable x)" "y \<in> set (ed_dead db)" "y \<in> set ds" "dd_event y = dd_event x" "dd_durable y = durable_prefix app @ dd_durable x"
      using dm(2) [OF x(1)] by blast
    then show ?thesis
    proof cases
      case 1
      with mk x show ?thesis by metis
    next
      case 2
      from mk [OF 2(3)] x own [OF 2(1)] 2(2) show ?thesis by (simp add: copy_dead_def)
    next
      case (3 y)
      with calculation(1) [of y] x have "dd_tenant y = t" by simp
      with mk [OF 3(4)] x own [OF 3(1)] 3(2,5,6) show ?thesis by simp
    qed
  qed
  show "marked db i e t \<Longrightarrow> marked ?db i e t \<or> (app_of_tenant db t = app \<and> unscoped_durable e \<and> marked ?db i (durable_prefix app @ e) t)"
    using hcase dcase unfolding marked_def [of db] by blast
qed

lemma moves_inv:
  assumes inv: "event_inv w" and m: "move_ledger us parse cp cx (ew_now w) fresh ob body busy claimed app (ew_db w) = (db', Inr report)"
    and f: "fresh_rows w db'"
  shows "event_inv (rows_noted w db')"
proof (cases "db' = ew_db w")
  case True
  then show ?thesis using noted_inv [OF inv _ f] gains_refl by simp
next
  case False
  with move_ledger_steps [OF m] obtain hs hsrc ds dsrc "from" where v: "valid_name app"
    and h: "rename_ledger hd_event hd_durable copy_handled (\<lambda>h. own_tenant app (ew_db w) (hd_tenant h)) (durable_prefix app) from (ed_handled (ew_db w)) = (hs, hsrc)"
    and d: "rename_ledger dd_event dd_durable copy_dead (\<lambda>l. own_tenant app (ew_db w) (dd_tenant l)) (durable_prefix app) from (ed_dead (ew_db w)) = (ds, dsrc)"
    and p: "posts ((ew_db w)\<lparr>ed_handled := hs, ed_dead := ds\<rparr>) db'" by blast
  let ?db = "(ew_db w)\<lparr>ed_handled := hs, ed_dead := ds\<rparr>"
  note pt = inv_parts [OF inv]
  have one: "\<forall>i d d' t t'. marked (ew_db w) i d t \<longrightarrow> marked (ew_db w) i d' t' \<longrightarrow> t = t'"
    using pt(1) unfolding names_ok_def single_valued_def by blast
  note mk = renamed_marks [OF h d v one]
  have app: "app_of_tenant ?db = app_of_tenant (ew_db w)" by (simp add: app_of_tenant_def fun_eq_iff)
  have "names_ok ?db (ew_messages w) (set (ew_known w))"
    by (rule names_respelled [OF pt(1) _ app]) (simp, use mk(1) in blast)
  moreover have "stamps_ok ?db (ew_now w) (ew_messages w)" using pt(2) by (simp add: stamps_ok_def row_ids_def)
  moreover have "commits_ok ?db (set (ew_known w)) (ew_commits w) (set (ew_reopened w))"
  proof (rule commits_change [OF pt(3)], blast)
    fix i b t assume c: "unscoped_durable b" "covered (ew_db w) i t b"
    have "\<exists>e'. spelled ?db t b e' \<and> marked ?db i e' t" if e: "spelled (ew_db w) t b e" "marked (ew_db w) i e t" for e
    proof (cases "marked ?db i e t")
      case False
      with mk(2) [OF e(2)] have a: "app_of_tenant (ew_db w) t = app" "unscoped_durable e" "marked ?db i (durable_prefix app @ e) t" by auto
      with base_of_spelled [OF pt(1) c(1) e(1)] have "e = b" by (simp add: base_of_def)
      with a show ?thesis by (auto simp: spelled_def app)
    qed (use e(1) in \<open>auto simp: spelled_def app\<close>)
    with c(2) show "covered ?db i t b" unfolding covered_def by (auto simp: row_ids_def)
  qed
  ultimately have "event_inv (w\<lparr>ew_db := ?db\<rparr>)" by (simp add: event_inv_def)
  from noted_inv [OF this, of db'] posts_gains [OF p] f show ?thesis
    by (simp add: fresh_rows_def row_ids_def rows_noted_def)
qed

lemma event_step_inv:
  assumes "event_step us parse cp w w'" "event_inv w"
  shows "event_inv w'"
  using assms
proof cases
  case writes
  with assms(2) show ?thesis by (auto intro: noted_inv posts_gains write_event_posts)
next
  case (carries r)
  with publishes_inv [OF assms(2), of "[row_event r]"] show ?thesis by auto
next
  case effects
  with known_inv [OF assms(2) posts_gains [OF mark_effect_posts]] show ?thesis by (simp add: mark_effect_run_def)
next
  case letters
  with known_inv [OF assms(2) dead_letter_gains [OF deliverable_known [OF assms(2)]]] show ?thesis by simp
next
  case terminals
  with noted_inv [OF assms(2) terminal_letter_gains [OF deliverable_known [OF assms(2)]]] show ?thesis by simp
qed (auto simp: assms(2) relays_inv ticks_inv releases_inv purges_inv places_inv replays_inv moves_inv intro: handles_inv [OF assms(2)])

lemma event_reaches_inv: "event_reaches us parse cp w w' \<Longrightarrow> event_inv w \<Longrightarrow> event_inv w'"
  unfolding event_reaches_def by (induction rule: rtranclp_induct) (auto intro: event_step_inv)

subsection \<open>Nothing written is lost\<close>

definition carried_or_waiting :: "event_world \<Rightarrow> delivery_event \<Rightarrow> bool" where
  "carried_or_waiting w e \<longleftrightarrow> (\<exists>r \<in> set (ed_outbox (ew_db w)). row_event r = e \<and> ob_published r = None)
     \<or> (\<exists>p. (e, p) \<in> set (ew_messages w))"

lemma kept_waiting:
  assumes "carried_or_waiting w e" "set (ew_messages w) \<subseteq> set (ew_messages w')"
    "\<And>r. r \<in> set (ed_outbox (ew_db w)) \<Longrightarrow> ob_published r = None \<Longrightarrow> r \<in> set (ed_outbox (ew_db w')) \<or> (\<exists>p. (row_event r, p) \<in> set (ew_messages w'))"
  shows "carried_or_waiting w' e"
  using assms unfolding carried_or_waiting_def by blast

lemma gains_rows: "gains known db db' \<Longrightarrow> r \<in> set (ed_outbox db) \<Longrightarrow> r \<in> set (ed_outbox db')"
  by (auto simp: gains_def)

lemma clear_marks_rows: "r \<in> set (ed_outbox db) \<Longrightarrow> ob_published r = None \<Longrightarrow> r \<in> set (ed_outbox (clear_marks i d db))"
  by (auto simp: clear_marks_def image_iff intro!: bexI [of _ r])

lemma purge_rows: "r \<in> set (ed_outbox db) \<Longrightarrow> ob_published r = None \<Longrightarrow> r \<in> set (ed_outbox (purge_events now db))"
  by (simp add: purge_events_def purge_outbox_def purge_handled_def)

lemma move_rows:
  "move_ledger us parse cp cx now fresh ob body busy claimed app db = (db', Inr rep) \<Longrightarrow> r \<in> set (ed_outbox db) \<Longrightarrow> r \<in> set (ed_outbox db')"
  by (drule move_ledger_steps) (auto simp: posts_def)

lemma relay_rows_kept:
  assumes b: "relay_batch now locked accepts app db = (db', sent, res)" and r: "r \<in> set (ed_outbox db)" "ob_published r = None"
    and d: "distinct (map ob_id (ed_outbox db))"
  shows "r \<in> set (ed_outbox db') \<or> row_event r \<in> set sent"
proof (cases "ob_id r \<in> ob_id ` set (relay_rows locked app db)")
  case True
  then obtain r' where r': "r' \<in> set (relay_rows locked app db)" "ob_id r' = ob_id r" by force
  then have "r' \<in> set (ed_outbox db)" by (auto simp: relay_rows_def dest: in_set_takeD)
  with r' r d have "r \<in> set (relay_rows locked app db)" by (auto simp: distinct_map inj_on_def)
  with b r show ?thesis by (auto elim!: relay_batch_cases)
next
  case False
  with b r show ?thesis by (auto simp: stamp_rows_def image_iff elim!: relay_batch_cases intro!: bexI [of _ r])
qed

lemma event_step_keeps:
  assumes "event_step us parse cp w w'" "event_inv w" "carried_or_waiting w e"
  shows "carried_or_waiting w' e"
  using assms(1)
proof (cases rule: event_step.cases)
  case (writes cx new tenant name body system db')
  then show ?thesis using gains_rows [OF posts_gains [OF write_event_posts [OF writes(2)]]]
    by (intro kept_waiting [OF assms(3)]) (auto simp: rows_noted_def)
next
  case (relays locked accepts app db' sent res)
  have "distinct (map ob_id (ed_outbox (ew_db w)))" using assms(2) by (simp add: event_inv_def names_ok_def)
  with relays relay_rows_kept [OF relays(2)] show ?thesis by (intro kept_waiting [OF assms(3)]) fastforce+
next
  case (handles ev s v first hr db')
  from handles(6) obtain db1 where c: "claim first (ew_now w) (ev_tenant ev) (ev_id ev) (sub_durable s) (older_durable s) v = Inr (Some db1)"
    and h: "run_handler us parse cp (ew_now w) ev (sub_durable s) hr db1 = Inr db'"
    by (auto simp: handle_claim_def split: if_splits sum.splits option.splits)
  have "gains (set (ew_known w)) (ew_db w) db'"
    using gains_trans [OF insert_claim_gains(1) [OF claim_current [OF c handles(5)] deliverable_known [OF assms(2) handles(2)]]
      posts_gains [OF run_handler_posts [OF h]]] .
  with handles(1) gains_rows show ?thesis by (intro kept_waiting [OF assms(3)]) (auto simp: rows_noted_def)
next
  case (letters ev d cause)
  then show ?thesis by (intro kept_waiting [OF assms(3)]) auto
next
  case (terminals ev first app d cause hook es)
  with gains_rows [OF terminal_letter_gains [OF deliverable_known [OF assms(2)]]] show ?thesis
    by (intro kept_waiting [OF assms(3)]) (auto simp: rows_noted_def)
next
  case (replays cx fresh ob body app i d reason db')
  with gains_rows [OF posts_gains [OF replay_steps [OF replays(2)]] clear_marks_rows] show ?thesis
    by (intro kept_waiting [OF assms(3)]) (auto simp: rows_noted_def)
next
  case moves
  then show ?thesis by (intro kept_waiting [OF assms(3)]) (auto simp: rows_noted_def dest: move_rows)
qed (auto intro!: kept_waiting [OF assms(3)] simp: purge_rows mark_effect_run_def release_claim_def)

lemma event_reaches_keeps:
  assumes "event_reaches us parse cp w w'" "event_inv w" "carried_or_waiting w e"
  shows "carried_or_waiting w' e"
  using assms(1) unfolding event_reaches_def
proof (induction rule: rtranclp_induct)
  case base
  then show ?case by (rule assms(3))
next
  case (step y z)
  from event_reaches_inv [of us parse cp w y] step(1) assms(2) have "event_inv y" by (simp add: event_reaches_def)
  with step show ?case by (auto intro: event_step_keeps)
qed

lemma row_carried: "event_inv w \<Longrightarrow> r \<in> set (ed_outbox (ew_db w)) \<Longrightarrow> carried_or_waiting w (row_event r)"
  by (cases "ob_published r") (auto simp: event_inv_def stamps_ok_def carried_or_waiting_def)

subsection \<open>A moved ledger records the same work\<close>

text \<open>The abstract ledger: an event's work for an unscoped name, under whichever spelling.\<close>

definition work_done :: "event_db \<Rightarrow> uuid \<Rightarrow> uuid \<Rightarrow> string \<Rightarrow> bool" where
  "work_done db t i b \<longleftrightarrow> (\<exists>d. spelled db t b d \<and> marked db i d t)"

definition one_tenant :: "event_db \<Rightarrow> bool" where
  "one_tenant db \<longleftrightarrow> (\<forall>i d d' t t'. marked db i d t \<longrightarrow> marked db i d' t' \<longrightarrow> t = t')"

lemma claimed_spelled:
  assumes "app_of_tenant db t = su_app s"
  shows "d \<in> set (claim_names (sub_durable s) (older_durable s)) \<Longrightarrow> spelled db t (sub_base s) d"
  using assms
  by (auto simp: spelled_def claim_names_def sub_durable_def older_durable_def sub_base_def durable_base [of "su_app s"]
      split: if_splits)

lemma claim_refused_iff:
  assumes "sub_ok s" "app_of_tenant db t = su_app s" "\<forall>d t'. marked db i d t' \<longrightarrow> t' = t"
  shows "insert_claim now t i (claim_names (sub_durable s) (older_durable s)) db = None \<longleftrightarrow> work_done db t i (sub_base s)"
proof -
  have "insert_claim now t i names db = None \<longleftrightarrow> (\<exists>d \<in> set names. \<exists>t'. marked db i d t')" for names
    by (auto simp: insert_claim_def marked_def handled_under_def terminal_recorded_def list_ex_iff)
  moreover have "(\<exists>d \<in> set (claim_names (sub_durable s) (older_durable s)). \<exists>t'. marked db i d t') \<longleftrightarrow> work_done db t i (sub_base s)"
    using assms(3) spelled_claimed [OF assms(1,2)] claimed_spelled [OF assms(2)] unfolding work_done_def by blast
  ultimately show ?thesis by simp
qed

lemma posts_spelled: "posts db db' \<Longrightarrow> spelled db' = spelled db"
  by (simp add: spelled_def posts_app fun_eq_iff)

lemma remains_posts: "posts db db' \<Longrightarrow> unscoped_remains app db' \<longleftrightarrow> unscoped_remains app db"
proof -
  have "unscoped_remains app d \<longleftrightarrow> (\<exists>(i, e, t, u) \<in> set (handled_keys d). unscoped_durable e \<and> own_tenant app d t)
     \<or> (\<exists>l \<in> set (ed_dead d). unscoped_durable (dd_durable l) \<and> own_tenant app d (dd_tenant l))" for d
    by (force simp: unscoped_remains_def handled_keys_def list_ex_iff)
  then show "posts db db' \<Longrightarrow> ?thesis" by (simp add: posts_def own_tenant_def)
qed

lemma after_last_sep:
  assumes "xs @ c # e = ys @ c # e'" "c \<notin> set e" "c \<notin> set e'"
  shows "e = e'"
proof -
  have "takeWhile (\<lambda>x. x \<noteq> c) (rev (zs @ c # d)) = rev d" if "c \<notin> set d" for zs d
    using that by (auto simp: takeWhile_append)
  with assms show ?thesis by (metis rev_rev_ident)
qed

lemma moved_ledger_work:
  assumes m: "move_ledger us parse cp cx now fresh ob body busy claimed app db = (db', Inr report)" and n: "named app"
    and one: "one_tenant db" and b: "unscoped_durable b"
  shows "work_done db' t i b \<longleftrightarrow> work_done db t i b" "\<not> unscoped_remains app db'" "marked db' i e t \<Longrightarrow> \<exists>d. marked db i d t"
    "app_of_tenant db' = app_of_tenant db" "valid_name app"
proof -
  from move_ledger_steps [OF m] n obtain hs hsrc ds dsrc "from" where v: "valid_name app"
    and h: "rename_ledger hd_event hd_durable copy_handled (\<lambda>h. own_tenant app db (hd_tenant h)) (durable_prefix app) from (ed_handled db) = (hs, hsrc)"
    and d: "rename_ledger dd_event dd_durable copy_dead (\<lambda>l. own_tenant app db (dd_tenant l)) (durable_prefix app) from (ed_dead db) = (ds, dsrc)"
    and r: "\<not> unscoped_remains app (db\<lparr>ed_handled := hs, ed_dead := ds\<rparr>)" and p: "posts (db\<lparr>ed_handled := hs, ed_dead := ds\<rparr>) db'" by blast
  let ?db = "db\<lparr>ed_handled := hs, ed_dead := ds\<rparr>"
  show "valid_name app" by (rule v)
  have app: "app_of_tenant ?db = app_of_tenant db" by (simp add: app_of_tenant_def fun_eq_iff)
  with posts_app [OF p] show app': "app_of_tenant db' = app_of_tenant db" by simp
  from remains_posts [OF p] r show "\<not> unscoped_remains app db'" by simp
  note mk = renamed_marks [OF h d v one [unfolded one_tenant_def]]
  show "marked db' i e t \<Longrightarrow> \<exists>d. marked db i d t" using mk(1) posts_marked [OF p] by blast
  have pre: "\<not> unscoped_durable (durable_prefix app @ x)" for x using n by (simp add: unscoped_durable_def durable_prefix_def)
  show "work_done db' t i b \<longleftrightarrow> work_done db t i b"
  proof
    assume "work_done db' t i b"
    then obtain e where e: "spelled db t b e" "marked ?db i e t"
      by (auto simp: work_done_def posts_marked [OF p] spelled_def app')
    from mk(1) [OF e(2)] show "work_done db t i b"
    proof
      assume "\<exists>e'. unscoped_durable e' \<and> e = durable_prefix app @ e' \<and> marked db i e' t"
      then obtain e' where e': "unscoped_durable e'" "e = durable_prefix app @ e'" "marked db i e' t" by blast
      have "e' = b"
      proof (cases "app_of_tenant db t = ''''")
        case True
        with e(1) e'(2) pre [of e'] b show ?thesis by (auto simp: spelled_def durable_prefix_def named_def)
      next
        case False
        with e(1) e'(2) b pre [of e'] have "token app @ CHR ''+'' # e' = token (app_of_tenant db t) @ CHR ''+'' # b"
          using n by (auto simp: spelled_def durable_prefix_def named_def)
        with e'(1) b show ?thesis by (auto simp: unscoped_durable_def dest: after_last_sep)
      qed
      with e'(3) show ?thesis by (auto simp: work_done_def spelled_def)
    qed (use e(1) in \<open>auto simp: work_done_def\<close>)
  next
    assume "work_done db t i b"
    then obtain e where e: "spelled db t b e" "marked db i e t" by (auto simp: work_done_def)
    show "work_done db' t i b"
    proof (cases "marked ?db i e t")
      case True
      with e(1) show ?thesis by (auto simp: work_done_def posts_marked [OF p] spelled_def app')
    next
      case False
      with mk(2) [OF e(2)] have a: "app_of_tenant db t = app" "unscoped_durable e" "marked ?db i (durable_prefix app @ e) t" by auto
      with e(1) pre have "e = b" by (auto simp: spelled_def)
      with a show ?thesis by (auto simp: work_done_def posts_marked [OF p] spelled_def app')
    qed
  qed
qed

end
