(* ===== verification/MemoryTransport.thy ===== *)
theory MemoryTransport
  imports DeliveryOnce
begin

section \<open>Delivery inside one process\<close>

text \<open>
  \<open>kit/events/providers/memory/memory.go\<close> with the retry policy of \<open>internal/delivery/policy.go\<close>,
  and the contract a sink owes the transport.  A sink is asked by attempt, so that its answers
  may vary with what happens outside; a ladder whose terminal recording never succeeds never
  ends, which is the value \<open>None\<close> of \<open>mem_deliver\<close>.
\<close>

definition max_deliveries :: nat where "max_deliveries = 5"

definition backoff :: "duration list" where "backoff = [second, 5 * second, 15 * second, 30 * second]"

definition backoff_after :: "nat \<Rightarrow> duration" where
  "backoff_after attempt = backoff ! (min attempt (length backoff) - 1)"

record 's sink =
  sk_handle :: "nat \<Rightarrow> 's \<Rightarrow> 's \<times> event_error option"
  sk_dead :: "nat \<Rightarrow> event_error option \<Rightarrow> 's \<Rightarrow> 's \<times> event_error option"

datatype ladder_note = Handling nat | Recording nat | Waiting duration

text \<open>One pass of the loop: what was asked, the cause so far, and whether the delivery is finished.\<close>

definition ladder_pass :: "'s sink \<Rightarrow> nat \<Rightarrow> event_error option \<Rightarrow> 's \<Rightarrow> 's \<times> ladder_note list \<times> event_error option \<times> bool" where
  "ladder_pass sink n cause s =
     (let (s1, notes, cause1, fine) =
            (if n \<le> max_deliveries
             then (case sk_handle sink n s of (s1, r) \<Rightarrow> (s1, [Handling n], r, r = None))
             else (s, [], cause, False))
      in if fine then (s1, notes, cause1, True)
         else if n \<ge> max_deliveries
         then (case sk_dead sink n cause1 s1 of (s2, d) \<Rightarrow> (s2, notes @ [Recording n], cause1, d = None))
         else (s1, notes, cause1, False))"

text \<open>The answer is whether the publication may be reported done, or the context was cancelled.\<close>

datatype ladder_end = Delivered | Cancelled

partial_function (option) mem_deliver :: "(nat \<Rightarrow> bool) \<Rightarrow> 's sink \<Rightarrow> nat \<Rightarrow> event_error option \<Rightarrow> 's
    \<Rightarrow> ('s \<times> ladder_note list \<times> ladder_end) option" where
  "mem_deliver cancelled sink n cause s =
     (case ladder_pass sink n cause s of
        (s1, notes, cause1, finished) \<Rightarrow>
          if finished then Some (s1, notes, Delivered)
          else if cancelled n then Some (s1, notes @ [Waiting (backoff_after n)], Cancelled)
          else Option.bind (mem_deliver cancelled sink (n + 1) cause1 s1)
            (\<lambda>(s2, later, e). Some (s2, notes @ Waiting (backoff_after n) # later, e)))"

declare mem_deliver.simps [code]

subsection \<open>Publishing\<close>

definition queue_length :: nat where "queue_length = 256"

record observation =
  oz_tenant :: uuid
  oz_name :: string
  oz_queue :: "delivery_event list"

definition offer :: "delivery_event \<Rightarrow> observation \<Rightarrow> observation" where
  "offer ev obs = (if length (oz_queue obs) < queue_length then obs\<lparr>oz_queue := oz_queue obs @ [ev]\<rparr> else obs)"

text \<open>\<open>answers\<close> are the ends of the subscriptions of the event, in their order.\<close>

definition mem_publish :: "ladder_end list \<Rightarrow> delivery_event \<Rightarrow> observation list \<Rightarrow> bool \<times> observation list" where
  "mem_publish answers ev watching =
     (if list_all (\<lambda>e. e = Delivered) answers
      then (True, map (\<lambda>obs. if oz_tenant obs = ev_tenant ev \<and> oz_name obs = ev_name ev then offer ev obs else obs) watching)
      else (False, watching))"

subsection \<open>The ladder is bounded\<close>

fun handlings :: "ladder_note list \<Rightarrow> nat" where
  "handlings [] = 0"
| "handlings (Handling _ # notes) = Suc (handlings notes)"
| "handlings (_ # notes) = handlings notes"

fun waits :: "ladder_note list \<Rightarrow> duration list" where
  "waits [] = []"
| "waits (Waiting d # notes) = d # waits notes"
| "waits (_ # notes) = waits notes"

lemma notes_append [simp]: "handlings (a @ b) = handlings a + handlings b" "waits (a @ b) = waits a @ waits b"
  by (induction a rule: handlings.induct) simp_all

lemma ladder_pass_notes:
  assumes "ladder_pass sink n cause s = (s1, notes, cause1, finished)"
  shows "handlings notes = (if n \<le> max_deliveries then 1 else 0)" "waits notes = []"
    and "finished \<Longrightarrow> notes \<noteq> [] \<and> (last notes = Handling n \<or> last notes = Recording n)"
  using assms by (auto simp: ladder_pass_def split: if_splits prod.splits)

lemma ladder_pass_records:
  assumes "ladder_pass sink n cause s = (s1, notes, cause1, finished)" "n \<ge> max_deliveries"
    "\<forall>c s. snd (sk_dead sink n c s) = None"
  shows "finished"
  using assms by (auto simp: ladder_pass_def split: if_splits prod.splits) (metis snd_conv option.distinct(1))+

text \<open>What holds of every end of the loop: of a finished pass, a cancelled wait, and one pass more.\<close>

lemma mem_deliver_ends:
  assumes "mem_deliver cancelled sink n cause s = Some y"
    and finished: "\<And>n cause s s1 notes cause1. ladder_pass sink n cause s = (s1, notes, cause1, True) \<Longrightarrow> Q n cause s (s1, notes, Delivered)"
    and gone: "\<And>n cause s s1 notes cause1. ladder_pass sink n cause s = (s1, notes, cause1, False) \<Longrightarrow> cancelled n \<Longrightarrow>
      Q n cause s (s1, notes @ [Waiting (backoff_after n)], Cancelled)"
    and again: "\<And>n cause s s1 notes cause1 s2 later e. ladder_pass sink n cause s = (s1, notes, cause1, False) \<Longrightarrow> \<not> cancelled n \<Longrightarrow>
      Q (n + 1) cause1 s1 (s2, later, e) \<Longrightarrow> Q n cause s (s2, notes @ Waiting (backoff_after n) # later, e)"
  shows "Q n cause s y"
proof -
  have "cancelled = cancelled \<longrightarrow> sink = sink \<longrightarrow> Q n cause s y"
  proof (rule mem_deliver.raw_induct [where P = "\<lambda>c sk n cause s y. c = cancelled \<longrightarrow> sk = sink \<longrightarrow> Q n cause s y", OF _ assms(1)], intro impI)
    fix rec c sk n cause s y
    assume ih: "\<And>c sk n cause s y. rec c sk n cause s = Some y \<Longrightarrow> c = cancelled \<longrightarrow> sk = sink \<longrightarrow> Q n cause s y"
      and y: "(case ladder_pass sk n cause s of (s1, ns, cause1, finished) \<Rightarrow>
          if finished then Some (s1, ns, Delivered)
          else if c n then Some (s1, ns @ [Waiting (backoff_after n)], Cancelled)
          else Option.bind (rec c sk (n + 1) cause1 s1) (\<lambda>(s2, later, e). Some (s2, ns @ Waiting (backoff_after n) # later, e))) = Some y"
      and same: "c = cancelled" "sk = sink"
    obtain s1 ns cause1 fin where p: "ladder_pass sink n cause s = (s1, ns, cause1, fin)" by (metis prod_cases4)
    show "Q n cause s y"
    proof (cases "fin \<or> cancelled n")
      case True
      with y same p finished [of n cause s s1 ns cause1] gone [of n cause s s1 ns cause1] show ?thesis by (auto split: if_splits)
    next
      case False
      with y same p obtain s2 later e where r: "rec cancelled sink (n + 1) cause1 s1 = Some (s2, later, e)"
        and y': "y = (s2, ns @ Waiting (backoff_after n) # later, e)" by (auto simp: bind_eq_Some_conv)
      from ih [OF r] have "Q (n + 1) cause1 s1 (s2, later, e)" by simp
      from again [OF _ _ this] False p y' show ?thesis by simp
    qed
  qed
  then show ?thesis by simp
qed

definition ladder_ok :: "nat \<Rightarrow> ladder_note list \<Rightarrow> bool" where
  "ladder_ok n notes \<longleftrightarrow> handlings notes \<le> Suc max_deliveries - n
     \<and> waits notes = map backoff_after [n ..< n + length (waits notes)]"

lemma mem_deliver_notes: "mem_deliver cancelled sink n cause s = Some y \<Longrightarrow> ladder_ok n (fst (snd y))"
proof (erule mem_deliver_ends [where Q = "\<lambda>n cause s y. ladder_ok n (fst (snd y))"], goal_cases)
  case (1 n cause s s1 ns cause1)
  with ladder_pass_notes [OF 1] show ?case by (auto simp: ladder_ok_def)
next
  case (2 n cause s s1 ns cause1)
  with ladder_pass_notes [OF 2(1)] show ?case by (auto simp: ladder_ok_def)
next
  case (3 n cause s s1 ns cause1 s2 later e)
  have "[n ..< n + Suc (length (waits later))] = n # [n + 1 ..< n + 1 + length (waits later)]"
    by (subst upt_conv_Cons) (simp_all del: upt_Suc)
  with 3 ladder_pass_notes [OF 3(1)] show ?case by (auto simp: ladder_ok_def)
qed

text \<open>
  With an invariant: once recording succeeds in the states it holds of, and a pass that does not finish
  keeps it, the loop ends.
\<close>

lemma mem_deliver_returns_inv:
  assumes recorded: "\<And>m c s. k \<le> m \<Longrightarrow> P s \<Longrightarrow> snd (sk_dead sink m c s) = None"
    and handled: "\<And>m s e. P s \<Longrightarrow> snd (sk_handle sink m s) = Some e \<Longrightarrow> P (fst (sk_handle sink m s))"
    and dead: "\<And>m c s e. P s \<Longrightarrow> snd (sk_dead sink m c s) = Some e \<Longrightarrow> P (fst (sk_dead sink m c s))"
    and start: "P s"
  shows "\<exists>y. mem_deliver cancelled sink n cause s = Some y"
  using start
proof (induction "max k max_deliveries + 1 - n" arbitrary: n cause s rule: less_induct)
  case less
  obtain s1 ns cause1 fin where p: "ladder_pass sink n cause s = (s1, ns, cause1, fin)" by (metis prod_cases4)
  have kept: "P s1" if "\<not> fin"
    using p that less.prems handled [of s n] dead
    by (auto simp: ladder_pass_def Let_def split: if_splits prod.splits option.splits) (metis fst_conv snd_conv option.collapse)+
  show ?case
  proof (cases "fin \<or> cancelled n")
    case True
    then show ?thesis by (subst mem_deliver.simps) (auto simp: p)
  next
    case False
    have "n < max k max_deliveries + 1"
    proof (rule ccontr)
      assume "\<not> n < max k max_deliveries + 1"
      then have n: "max_deliveries < n" "k \<le> n" by auto
      then have "fin" using p recorded [OF n(2) less.prems, of cause] by (auto simp: ladder_pass_def split: prod.splits)
      with False show False by simp
    qed
    with less.hyps [of "n + 1" s1 cause1] kept False obtain y where "mem_deliver cancelled sink (n + 1) cause1 s1 = Some y" by fastforce
    with False p show ?thesis by (subst mem_deliver.simps) (cases y, auto)
  qed
qed

text \<open>Once recording succeeds in every state, the loop ends.\<close>

lemma mem_deliver_returns:
  assumes "\<forall>m \<ge> k. \<forall>c s. snd (sk_dead sink m c s) = None"
  shows "\<exists>y. mem_deliver cancelled sink n cause s = Some y"
  by (rule mem_deliver_returns_inv [where P = "\<lambda>_. True" and k = k]) (use assms in auto)

subsection \<open>What a sink promises\<close>

text \<open>
  A sink over some state: handling and recording keep what is settled, and an answer without an
  error means the delivery is settled.
\<close>

locale sink_contract =
  fixes sink :: "'s sink" and settled :: "'s \<Rightarrow> bool"
  assumes handle_settles: "sk_handle sink n s = (s', None) \<Longrightarrow> settled s'"
    and record_settles: "sk_dead sink n c s = (s', None) \<Longrightarrow> settled s'"
begin

lemma pass_settles: "ladder_pass sink n cause s = (s1, notes, cause1, True) \<Longrightarrow> settled s1"
  by (auto simp: ladder_pass_def split: if_splits prod.splits dest: handle_settles record_settles)

lemma delivered_settled:
  assumes "mem_deliver cancelled sink n cause s = Some (s', notes, Delivered)"
  shows "settled s'"
proof -
  have "snd (snd (s', notes, Delivered)) = Delivered \<longrightarrow> settled (fst (s', notes, Delivered))"
    using assms by (rule mem_deliver_ends [where Q = "\<lambda>n cause s y. snd (snd y) = Delivered \<longrightarrow> settled (fst y)"])
      (auto dest: pass_settles)
  then show ?thesis by simp
qed

end

subsection \<open>The database's sink\<close>

text \<open>
  \<open>subscriptionSink\<close>: what \<open>Consume\<close> hands the transport for one subscription and event.
  \<open>down\<close> is the database's own error at an attempt, \<open>hook\<close> the subscription's terminal hook.
\<close>

definition subscription_sink :: "(uuid \<Rightarrow> string) \<Rightarrow> (string \<Rightarrow> uuid option) \<Rightarrow> composition \<Rightarrow> (handled_row list \<Rightarrow> handled_row)
    \<Rightarrow> (nat \<Rightarrow> time) \<Rightarrow> (nat \<Rightarrow> event_error option) \<Rightarrow> (nat \<Rightarrow> handler_run \<times> bool list) \<Rightarrow> (nat \<Rightarrow> handler_run \<times> bool list) option
    \<Rightarrow> (event_error option \<Rightarrow> string) \<Rightarrow> subscription \<Rightarrow> delivery_event \<Rightarrow> event_db sink" where
  "subscription_sink us parse cp first clock down runs hook say s ev =
     \<lparr>sk_handle = (\<lambda>n db. case down n of
          Some e \<Rightarrow> (db, Some e)
        | None \<Rightarrow> deliver_subscription us parse cp first (clock n) s ev (fst (runs n)) (snd (runs n)) db),
      sk_dead = (\<lambda>n cause db. case down n of
          Some e \<Rightarrow> (db, Some e)
        | None \<Rightarrow> (case hook of
            None \<Rightarrow> (dead_letter (clock n) ev (sub_durable s) (say cause) db, None)
          | Some f \<Rightarrow> terminal_letter us parse cp first (clock n) (su_app s) ev (sub_durable s) (say cause) (fst (f n)) (snd (f n)) db))\<rparr>"

text \<open>Settled: the tenant is another application's, or a mark says what became of the event.\<close>

definition event_settled :: "subscription \<Rightarrow> delivery_event \<Rightarrow> event_db \<Rightarrow> bool" where
  "event_settled s ev db \<longleftrightarrow> (sub_ok s \<and> holds_tenant (su_app s) (ev_tenant ev) db \<longrightarrow>
     handled_under (ev_id ev) (claim_names (sub_durable s) (older_durable s)) db
     \<or> terminal_recorded (ev_id ev) (claim_names (sub_durable s) (older_durable s)) db)"

lemma handled_under_keys: "handled_under i names db \<longleftrightarrow> (\<exists>d \<in> set names. \<exists>t u. (i, d, t, u) \<in> set (handled_keys db))"
  by (force simp: handled_under_def handled_keys_def list_ex_iff)

lemma posts_handled: "posts db db' \<Longrightarrow> handled_under i names db' \<longleftrightarrow> handled_under i names db"
  by (simp add: handled_under_keys posts_def)

lemma handled_under_claimed: "insert_claim now t i names db = Some db' \<Longrightarrow> names \<noteq> [] \<Longrightarrow> handled_under i names db'"
  by (auto simp: insert_claim_def handled_under_def split: if_splits)

lemma claim_skipped:
  assumes "claim first now t i d older \<lparr>cv_insert = db, cv_read = db, cv_terminal = db, cv_again = db\<rparr> = Inr None"
  shows "handled_under i (claim_names d older) db \<or> terminal_recorded i (claim_names d older) db"
  using assms
  by (auto simp: claim_def Let_def owed_or_handled_def claim_after_the_row_went_away_def handled_under_def list_ex_iff filter_eq_Cons_iff
      split: option.splits list.splits if_splits)

lemma claim_taken:
  assumes "claim first now t i d older \<lparr>cv_insert = db, cv_read = db, cv_terminal = db, cv_again = db\<rparr> = Inr (Some db')"
  shows "handled_under i (claim_names d older) db'"
  using handled_under_claimed [OF claim_current [OF assms]] by (simp add: current_views_def)

lemma handled_subset: "handled_under i names db \<Longrightarrow> set names \<subseteq> set names' \<Longrightarrow> handled_under i names' db"
  and terminal_subset: "terminal_recorded i names db \<Longrightarrow> set names \<subseteq> set names' \<Longrightarrow> terminal_recorded i names' db"
  by (auto simp: handled_under_def terminal_recorded_def list_ex_iff)

lemma own_names: "set (claim_names (sub_durable s) '''') \<subseteq> set (claim_names (sub_durable s) (older_durable s))"
  by (auto simp: claim_names_def)

lemma deliver_settles:
  assumes "deliver_subscription us parse cp first now s ev hr es db = (db', None)"
  shows "event_settled s ev db'"
proof -
  consider "\<not> holds_tenant (su_app s) (ev_tenant ev) db" "db' = db"
    | "holds_tenant (su_app s) (ev_tenant ev) db" "handle_claim us parse cp first now s ev hr db
        \<lparr>cv_insert = db, cv_read = db, cv_terminal = db, cv_again = db\<rparr> = Inr None" "db' = db"
    | db1 where "handle_claim us parse cp first now s ev hr db \<lparr>cv_insert = db, cv_read = db, cv_terminal = db, cv_again = db\<rparr> = Inr (Some db1)"
        "run_after (ev_id ev) (sub_durable s) es db1 = (db', None)"
    using assms by (auto simp: deliver_subscription_def split: if_splits sum.splits option.splits prod.splits)
  then show ?thesis
  proof cases
    case 1
    then show ?thesis by (simp add: event_settled_def)
  next
    case 2
    then have "claim first now (ev_tenant ev) (ev_id ev) (sub_durable s) (older_durable s)
        \<lparr>cv_insert = db, cv_read = db, cv_terminal = db, cv_again = db\<rparr> = Inr None"
      by (auto simp: handle_claim_def holds_tenant_def holds_unscoped_def named_def split: if_splits sum.splits option.splits)
    from claim_skipped [OF this] 2(3) show ?thesis by (simp add: event_settled_def)
  next
    case 3
    then obtain db0 where c: "claim first now (ev_tenant ev) (ev_id ev) (sub_durable s) (older_durable s)
        \<lparr>cv_insert = db, cv_read = db, cv_terminal = db, cv_again = db\<rparr> = Inr (Some db0)"
      and r: "run_handler us parse cp now ev (sub_durable s) hr db0 = Inr db1"
      by (auto simp: handle_claim_def split: if_splits sum.splits option.splits)
    have "posts db0 db'" using posts_trans [OF run_handler_posts [OF r] run_after_posts, of "ev_id ev" "sub_durable s" es] 3(2) by simp
    with claim_taken [OF c] show ?thesis by (simp add: posts_handled event_settled_def)
  qed
qed

lemma dead_letter_settles: "event_settled s ev (dead_letter now ev (sub_durable s) cause db)"
proof -
  have "(if unscoped_durable (sub_durable s) then terminal_durable ev (sub_durable s) db else sub_durable s) = sub_durable s"
    if "sub_ok s" "holds_tenant (su_app s) (ev_tenant ev) db"
    using that by (auto simp: terminal_durable_def Let_def holds_tenant_def named_def sub_durable_def durable_def durable_prefix_def unscoped_durable_def)
  moreover have "holds_tenant a t (dead_letter now ev d cause db) = holds_tenant a t db" for a t d
    by (simp add: holds_tenant_def app_of_tenant_def dead_letter_def dead_insert_def Let_def)
  moreover have "handled_under (ev_id ev) [recorded] db \<longrightarrow> handled_under (ev_id ev) (claim_names recorded older) db" for recorded older db
    by (auto simp: handled_under_def claim_names_def list_ex_iff)
  ultimately show ?thesis
    by (auto simp: event_settled_def dead_letter_def Let_def dead_insert_def handled_under_def claim_names_def list_ex_iff)
qed

lemma terminal_settles:
  assumes "terminal_letter us parse cp first now (su_app s) ev (sub_durable s) cause hook es db = (db', None)"
  shows "event_settled s ev db'"
proof -
  consider "\<not> holds_tenant (su_app s) (ev_tenant ev) db" "db' = db"
    | "claim first now (ev_tenant ev) (ev_id ev) (sub_durable s) '''' \<lparr>cv_insert = db, cv_read = db, cv_terminal = db, cv_again = db\<rparr> = Inr None" "db' = db"
    | db0 db1 where "claim first now (ev_tenant ev) (ev_id ev) (sub_durable s) '''' \<lparr>cv_insert = db, cv_read = db, cv_terminal = db, cv_again = db\<rparr> = Inr (Some db0)"
        "run_handler us parse cp now ev (sub_durable s) hook db0 = Inr db1"
        "run_after (ev_id ev) (sub_durable s) es (dead_insert now ev (sub_durable s) cause db1) = (db', None)"
    using assms
    by (auto simp: terminal_letter_def holds_tenant_def holds_unscoped_def named_def split: if_splits sum.splits option.splits prod.splits)
  then show ?thesis
  proof cases
    case 1
    then show ?thesis by (simp add: event_settled_def)
  next
    case 2
    with claim_skipped [OF 2(1)] show ?thesis
      by (auto simp: event_settled_def dest: handled_subset [OF _ own_names] terminal_subset [OF _ own_names])
  next
    case (3 db0 db1)
    have "handled_under (ev_id ev) names (dead_insert now ev d cause db1) = handled_under (ev_id ev) names db1" for names d
      by (simp add: handled_under_def dead_insert_def)
    moreover have "posts (dead_insert now ev (sub_durable s) cause db1) db'" using run_after_posts [of _ "ev_id ev" "sub_durable s" es] 3(3) by (metis fst_conv)
    ultimately have "handled_under (ev_id ev) (claim_names (sub_durable s) '''') db'"
      using claim_taken [OF 3(1)] run_handler_posts [OF 3(2)] by (simp add: posts_handled)
    then show ?thesis by (auto simp: event_settled_def dest: handled_subset [OF _ own_names])
  qed
qed

interpretation database: sink_contract "subscription_sink us parse cp first clock down runs hook say s ev" "event_settled s ev"
  for us parse cp first clock down runs hook say s ev
  by unfold_locales
    (auto simp: subscription_sink_def split: option.splits intro: deliver_settles dead_letter_settles terminal_settles)

subsection \<open>Terminal hooks that recover\<close>

text \<open>
  The work of an event no claim of a durable still owes an effect for; and a terminal hook that recovers:
  once an attempt is reached whose hook succeeds after the claim, with no effect it defers left undone.
\<close>

definition nothing_owed :: "uuid \<Rightarrow> string list \<Rightarrow> event_db \<Rightarrow> bool" where
  "nothing_owed i names db \<longleftrightarrow> list_all (\<lambda>h. hd_event h = i \<and> hd_durable h \<in> set names \<longrightarrow> hd_owed h \<le> 0) (ed_handled db)"

definition alone :: "event_db \<Rightarrow> claim_views" where
  "alone db = \<lparr>cv_insert = db, cv_read = db, cv_terminal = db, cv_again = db\<rparr>"

definition hook_recovers :: "(uuid \<Rightarrow> string) \<Rightarrow> (string \<Rightarrow> uuid option) \<Rightarrow> composition \<Rightarrow> (handled_row list \<Rightarrow> handled_row)
    \<Rightarrow> (nat \<Rightarrow> time) \<Rightarrow> nat \<Rightarrow> subscription \<Rightarrow> delivery_event \<Rightarrow> (nat \<Rightarrow> handler_run \<times> bool list) \<Rightarrow> bool" where
  "hook_recovers us parse cp first clock k s ev f \<longleftrightarrow> validate_operation parse (ev_operation ev)
     \<and> (\<forall>n. list_all id (snd (f n)))
     \<and> (\<forall>n \<ge> k. \<forall>db db'. claim first (clock n) (ev_tenant ev) (ev_id ev) (sub_durable s) '''' (alone db) = Inr (Some db') \<longrightarrow>
          (\<exists>db''. run_handler us parse cp (clock n) ev (sub_durable s) (fst (f n)) db' = Inr db''))"

lemma run_after_fine: "list_all id es \<Longrightarrow> snd (run_after i d es db) = None"
  by (induction es arbitrary: db) (auto split: prod.splits)

lemma claim_unowed:
  assumes "nothing_owed i (claim_names d older) db" and "\<And>xs. xs \<noteq> [] \<Longrightarrow> first xs \<in> set xs"
  shows "claim first now t i d older (alone db) \<noteq> Inl e"
proof
  assume c: "claim first now t i d older (alone db) = Inl e"
  let ?hs = "filter (\<lambda>h. hd_event h = i \<and> hd_durable h \<in> set (claim_names d older)) (ed_handled db)"
  show False
  proof (cases ?hs)
    case Nil
    then have "\<not> handled_under i (claim_names d older) db"
      by (auto simp: handled_under_def list_ex_iff filter_empty_conv)
    with c Nil show False
      by (auto simp: claim_def Let_def alone_def owed_or_handled_def insert_claim_def split: if_splits option.splits)
  next
    case (Cons h hs)
    have "first ?hs \<in> set ?hs" using assms(2) Cons by (metis list.distinct(1))
    then have "\<not> 0 < hd_owed (first ?hs)" using assms(1) by (auto simp: nothing_owed_def list_all_iff)
    with c Cons show False
      by (auto simp: claim_def Let_def alone_def owed_or_handled_def split: option.splits if_splits)
  qed
qed

text \<open>What a handler and its effects leave of the marks of other work.\<close>

definition other_marks :: "uuid \<Rightarrow> string \<Rightarrow> event_db \<Rightarrow> handled_row list" where
  "other_marks i d db = filter (\<lambda>h. \<not> (hd_event h = i \<and> hd_durable h = d)) (ed_handled db)"

lemma write_event_handled:
  "write_event us parse cp cx now new tenant name body system db = Inr db' \<Longrightarrow> ed_handled db' = ed_handled db"
  by (auto simp: write_event_def split: if_splits option.splits sum.splits)

lemma owed_others:
  "filter (\<lambda>h. \<not> (hd_event h = i \<and> hd_durable h = d))
     (map (\<lambda>h. if hd_event h = i \<and> hd_durable h = d then h\<lparr>hd_owed := g h\<rparr> else h) hs)
   = filter (\<lambda>h. \<not> (hd_event h = i \<and> hd_durable h = d)) hs"
  by (induction hs) auto

lemma owe_effect_others: "owe_effect i d db = Inr db' \<Longrightarrow> other_marks i d db' = other_marks i d db"
  by (auto simp: owe_effect_def other_marks_def owed_others simp del: de_Morgan_conj split: if_splits)

lemma run_after_others: "other_marks i d (fst (run_after i d es db)) = other_marks i d db"
proof (induction es arbitrary: db)
  case (Cons b es)
  have "other_marks i d (mark_effect_run i d db) = other_marks i d db"
    by (simp add: mark_effect_run_def other_marks_def owed_others del: de_Morgan_conj)
  with Cons show ?case by (auto split: prod.split simp: case_prod_beta)
qed simp

lemma run_calls_others: "run_calls us parse cp cx now t i d cs db = Inr db' \<Longrightarrow> other_marks i d db' = other_marks i d db"
proof (induction cs arbitrary: db)
  case (Cons c cs)
  show ?case
  proof (cases c)
    case (Posts new name body)
    with Cons.prems obtain db1 where db1: "publish us parse cp cx now new t name body db = Inr db1"
        "run_calls us parse cp cx now t i d cs db1 = Inr db'" by (auto split: sum.splits)
    then have "ed_handled db1 = ed_handled db" using write_event_handled by (simp add: publish_def)
    with Cons.IH [OF db1(2)] show ?thesis by (simp add: other_marks_def)
  next
    case Defers
    with Cons.prems obtain db1 where db1: "owe_effect i d db = Inr db1"
        "run_calls us parse cp cx now t i d cs db1 = Inr db'" by (auto split: sum.splits)
    with Cons.IH [OF db1(2)] owe_effect_others show ?thesis by simp
  qed
qed simp

lemma run_handler_others: "run_handler us parse cp now ev d hr db = Inr db' \<Longrightarrow> other_marks (ev_id ev) d db' = other_marks (ev_id ev) d db"
  by (auto simp: run_handler_def Let_def split: sum.splits option.splits dest: run_calls_others)

lemma nothing_owed_others:
  assumes "nothing_owed i names db" and "other_marks i d db' = other_marks i d db"
  shows "nothing_owed i names (release_claim i d db')"
proof -
  have "ed_handled (release_claim i d db') = other_marks i d db'" by (simp add: release_claim_def other_marks_def)
  then show ?thesis using assms by (auto simp: nothing_owed_def list_all_iff other_marks_def)
qed

lemma insert_claim_others:
  "insert_claim now t i names db = Some db' \<Longrightarrow> d = hd names \<Longrightarrow> other_marks i d db' = other_marks i d db"
  by (auto simp: insert_claim_def other_marks_def split: if_splits)

lemma deliver_keeps_unowed:
  assumes d: "deliver_subscription us parse cp first now s ev hr es db = (db', Some e)"
    and owed: "nothing_owed (ev_id ev) (claim_names (sub_durable s) (older_durable s)) db"
  shows "nothing_owed (ev_id ev) (claim_names (sub_durable s) (older_durable s)) db'"
proof -
  let ?v = "\<lparr>cv_insert = db, cv_read = db, cv_terminal = db, cv_again = db\<rparr>"
  consider "db' = db"
    | db1 db2 where "handle_claim us parse cp first now s ev hr db ?v = Inr (Some db1)"
        "run_after (ev_id ev) (sub_durable s) es db1 = (db2, Some e)" "db' = release_claim (ev_id ev) (sub_durable s) db2"
    using d by (auto simp: deliver_subscription_def split: if_splits sum.splits option.splits prod.splits)
  then show ?thesis
  proof cases
    case 1
    with owed show ?thesis by simp
  next
    case (2 db1 db2)
    then obtain db0 where c: "claim first now (ev_tenant ev) (ev_id ev) (sub_durable s) (older_durable s) ?v = Inr (Some db0)"
      and r: "run_handler us parse cp now ev (sub_durable s) hr db0 = Inr db1"
      by (auto simp: handle_claim_def split: if_splits sum.splits option.splits)
    have "insert_claim now (ev_tenant ev) (ev_id ev) (claim_names (sub_durable s) (older_durable s)) db = Some db0"
      by (rule claim_current [OF c]) (simp add: current_views_def)
    then have "other_marks (ev_id ev) (sub_durable s) db0 = other_marks (ev_id ev) (sub_durable s) db"
      by (rule insert_claim_others) (simp add: claim_names_def)
    then have "other_marks (ev_id ev) (sub_durable s) db2 = other_marks (ev_id ev) (sub_durable s) db"
      using run_handler_others [OF r] run_after_others [of "ev_id ev" "sub_durable s" es db1] 2(2) by simp
    from nothing_owed_others [OF owed this] 2(3) show ?thesis by simp
  qed
qed

lemma nothing_owed_own: "nothing_owed i (claim_names d older) db \<Longrightarrow> nothing_owed i (claim_names d '''') db"
  by (auto simp: nothing_owed_def claim_names_def list_all_iff)

text \<open>What a hook's letter answers when nothing is owed: at worst the hook's own error, and nothing is written.\<close>

lemma terminal_unowed:
  assumes owed: "nothing_owed (ev_id ev) (claim_names d older) db" and first: "\<And>xs. xs \<noteq> [] \<Longrightarrow> first xs \<in> set xs"
    and op: "validate_operation parse (ev_operation ev)" and fine: "list_all id es"
    and e: "snd (terminal_letter us parse cp first now app ev d cause hook es db) = Some e"
  shows "fst (terminal_letter us parse cp first now app ev d cause hook es db) = db"
    "\<exists>db'. claim first now (ev_tenant ev) (ev_id ev) d '''' (alone db) = Inr (Some db')
      \<and> run_handler us parse cp now ev d hook db' = Inl e"
proof -
  have c: "claim first now (ev_tenant ev) (ev_id ev) d '''' (alone db) \<noteq> Inl x" for x
    by (rule claim_unowed [OF nothing_owed_own [OF owed] first])
  have after: "snd (run_after (ev_id ev) d es db2) \<noteq> Some e" for db2
    using run_after_fine [OF fine] by simp
  from e op c after show "fst (terminal_letter us parse cp first now app ev d cause hook es db) = db"
    "\<exists>db'. claim first now (ev_tenant ev) (ev_id ev) d '''' (alone db) = Inr (Some db')
      \<and> run_handler us parse cp now ev d hook db' = Inl e"
    unfolding terminal_letter_def alone_def by (auto split: if_splits sum.splits option.splits)
qed

lemma hook_delivery_returns:
  assumes up: "\<forall>n \<ge> k. down n = None" and first: "\<And>xs. xs \<noteq> [] \<Longrightarrow> first xs \<in> set xs"
    and hook: "hook_recovers us parse cp first clock k s ev f"
    and owed: "nothing_owed (ev_id ev) (claim_names (sub_durable s) (older_durable s)) db"
  shows "\<exists>y. mem_deliver cancelled (subscription_sink us parse cp first clock down runs (Some f) say s ev) n cause db = Some y"
proof (rule mem_deliver_returns_inv [where k = k and P = "nothing_owed (ev_id ev) (claim_names (sub_durable s) (older_durable s))"])
  let ?sink = "subscription_sink us parse cp first clock down runs (Some f) say s ev"
  let ?ok = "nothing_owed (ev_id ev) (claim_names (sub_durable s) (older_durable s))"
  have op: "validate_operation parse (ev_operation ev)" and fine: "list_all id (snd (f m))" for m
    using hook by (simp_all add: hook_recovers_def)
  show "snd (sk_dead ?sink m c db) = None" if "k \<le> m" "?ok db" for m c db
  proof (rule ccontr)
    assume "snd (sk_dead ?sink m c db) \<noteq> None"
    then have "snd (terminal_letter us parse cp first (clock m) (su_app s) ev (sub_durable s) (say c) (fst (f m)) (snd (f m)) db) \<noteq> None"
      using up that(1) by (fastforce simp: subscription_sink_def)
    then obtain e where "snd (terminal_letter us parse cp first (clock m) (su_app s) ev (sub_durable s) (say c) (fst (f m)) (snd (f m)) db) = Some e"
      by blast
    from terminal_unowed(2) [OF that(2) first op fine this] show False
      using hook that(1) by (fastforce simp: hook_recovers_def)
  qed
  show "?ok (fst (sk_handle ?sink m db))" if "?ok db" "snd (sk_handle ?sink m db) = Some e" for m db e
    using that deliver_keeps_unowed [OF _ that(1)]
    by (auto simp: subscription_sink_def split: option.splits) (metis prod.collapse)
  show "?ok (fst (sk_dead ?sink m c db))" if "?ok db" "snd (sk_dead ?sink m c db) = Some e" for m c db e
    using that terminal_unowed(1) [OF that(1) first op fine]
    by (auto simp: subscription_sink_def split: option.splits)
qed (rule owed)

end
