(* ===== verification/EventProperties.thy ===== *)
theory EventProperties
  imports MemoryTransport
begin

section \<open>What the events promise\<close>

text \<open>
  The properties of \<open>kit/events\<close>: the names a process answers for, once-only handling, nothing
  lost, the relay's order, a moved ledger, and the ladder of a delivery in memory.
\<close>

text \<open>
  C29: A name stands exactly while a live claim names it: whatever compositions declare and
  release, in any order and over any applications, an application's names are those of its live
  claims, and no schema stands for a name nobody declares.
\<close>

theorem catalog_names_follow_claims:
  assumes "catalog_reaches c gs"
  shows "(n \<in> set (held_at (ct_declared c) slug) \<longleftrightarrow> (\<exists>g \<in> set gs. gr_app g = slug \<and> n \<in> set (gr_claim g)))
    \<and> (map_of (held_at (ct_by_app c) slug) n \<noteq> None \<longrightarrow> (\<exists>g \<in> set gs. gr_app g = slug \<and> n \<in> set (gr_claim g)))"
  using catalog_reaches_inv [OF assms] unfolding catalog_inv_def live_claims_pos by blast

definition invited :: "schema option \<Rightarrow> declared list" where
  "invited s = [\<lparr>de_name = ''user.invited'', de_schema = s\<rparr>]"

theorem catalog_names_follow_claims_witness:
  "\<exists>c gs. catalog_reaches c gs \<and> ''user.invited'' \<in> set (held_at (ct_declared c) ''shop'') \<and> length gs = 1"
proof -
  obtain c1 g1 where 1: "declare_for ''shop'' (invited None) no_catalogue = Inr (c1, g1)"
    and g: "gr_app g1 = ''shop''" "''user.invited'' \<in> set (gr_claim g1)"
    by (simp add: declare_for_def invited_def declared_schemas_def one_shape_per_name_def names_of_def shapes_of_def clashes_def
        held_at_def no_catalogue_def map_filter_def split: prod.split)
  have r: "catalog_reaches c1 [g1]"
    unfolding catalog_reaches_def using catalog_step.declares [OF 1, of "[]"] by blast
  with catalog_names_follow_claims [OF r, of "''user.invited''" "''shop''"] g show ?thesis
    by (intro exI [of _ c1] exI [of _ "[g1]"]) auto
qed

text \<open>
  One application's two compositions may disagree on a name when the untyped one comes
  first, and the schema outlives the composition that described it: declared the other way
  round the second is refused, declared this way it is let in, and after it left a payload of the
  first is refused by the schema nobody declares any more.
\<close>

lemma catalog_schema_outlives_its_composition:
  "(case declare_for ''shop'' (invited (Some ''{}'')) no_catalogue of
      Inr (c1, typed) \<Rightarrow> (case declare_for ''shop'' (invited None) c1 of Inl (Clashes _) \<Rightarrow> True | _ \<Rightarrow> False) | _ \<Rightarrow> False)
   \<and> (case declare_for ''shop'' (invited None) no_catalogue of
      Inr (c1, plain) \<Rightarrow> (case declare_for ''shop'' (invited (Some ''{}'')) c1 of
          Inr (c2, typed) \<Rightarrow>
            measure_manifest (\<lambda>s body. False) c1 None ''shop'' ''user.invited'' ''x'' = None
            \<and> measure_manifest (\<lambda>s body. False) (release_grip typed c2) None ''shop'' ''user.invited'' ''x''
               = Some (NotAsDeclared ''shop'' ''user.invited'')
        | _ \<Rightarrow> False) | _ \<Rightarrow> False)"
  by code_simp

text \<open>What an install without a claim put there, a claim it replaced still takes away.\<close>

lemma replaced_claim_takes_names_away:
  "case declare_for ''shop'' (invited None) no_catalogue of
      Inr (c1, old) \<Rightarrow>
        check_declared (declare_app ''shop'' (invited None @ [\<lparr>de_name = ''user.left'', de_schema = None\<rparr>]) c1) ''shop'' ''user.invited'' = None
        \<and> check_declared (release_grip old (declare_app ''shop'' (invited None @ [\<lparr>de_name = ''user.left'', de_schema = None\<rparr>]) c1)) ''shop'' ''user.invited''
           = Some (UndeclaredEvent ''shop'' ''user.invited'')
    | _ \<Rightarrow> False"
  by code_simp

text \<open>
  C31: A handler's work is committed at most once for one event and one subscription, through
  redeliveries, relays that crashed between publishing and stamping, purges, dead letters,
  placements of the tenant and moves of its ledger, unless an operator replayed the event or an
  attempt whose deferred effect failed gave its claim back.
\<close>

theorem event_handled_once:
  assumes "fresh_installation db" "event_reaches us parse cp (event_world_start db now) w" "(i, b) \<notin> set (ew_reopened w)"
  shows "count_list (ew_commits w) (i, b) \<le> 1"
proof (cases "(i, b) \<in> set (ew_commits w)")
  case True
  with event_reaches_inv [OF assms(2) event_inv_start [OF assms(1)]] assms(3) show ?thesis
    by (auto simp: event_inv_def commits_ok_def)
next
  case False
  then show ?thesis by (simp add: count_list_0_iff)
qed

text \<open>An installation with one tenant, an event written, relayed and handled.\<close>

definition demo_parts :: composition where
  "demo_parts = \<lparr>cp_fits = \<lambda>_ _. True, cp_installed = no_catalogue, cp_carried = None\<rparr>"

definition demo_call :: call_context where
  "demo_call = \<lparr>cx_actor = None, cx_attribution = None, cx_traceparent = '''', cx_tracestate = '''', cx_baggage = '''',
     cx_request = '''', cx_client = '''', cx_operation = no_operation, cx_deferred = False, cx_delivery = None\<rparr>"

definition demo_reader :: subscription where
  "demo_reader = \<lparr>su_app = ''shop'', su_module = ''audit'', su_name = ''user.invited''\<rparr>"

definition demo_tenants :: event_db where
  "demo_tenants = empty_event_db\<lparr>ed_apps := [(7, ''shop'')]\<rparr>"

definition demo_written :: event_db where
  "demo_written = projr (write_event uuid_text (\<lambda>_. None) demo_parts demo_call 0 1 7 ''user.invited'' ''{}'' False demo_tenants)"

definition demo_event :: delivery_event where
  "demo_event = row_event (hd (ed_outbox demo_written))"

definition demo_relayed :: event_db where
  "demo_relayed = fst (relay_batch 0 [] (\<lambda>_. True) ''shop'' demo_written)"

definition demo_handled :: event_db where
  "demo_handled = the (projr (handle_claim uuid_text (\<lambda>_. None) demo_parts hd 0 demo_reader demo_event \<lparr>hr_calls = [], hr_failed = None\<rparr> demo_relayed
     \<lparr>cv_insert = demo_relayed, cv_read = demo_relayed, cv_terminal = demo_relayed, cv_again = demo_relayed\<rparr>))"

lemma demo_runs:
  "case write_event uuid_text (\<lambda>_. None) demo_parts demo_call 0 1 7 ''user.invited'' ''{}'' False demo_tenants of
     Inr _ \<Rightarrow> True | Inl _ \<Rightarrow> False"
  "case handle_claim uuid_text (\<lambda>_. None) demo_parts hd 0 demo_reader demo_event \<lparr>hr_calls = [], hr_failed = None\<rparr> demo_relayed
     \<lparr>cv_insert = demo_relayed, cv_read = demo_relayed, cv_terminal = demo_relayed, cv_again = demo_relayed\<rparr> of
     Inr (Some _) \<Rightarrow> True | _ \<Rightarrow> False"
  "snd (relay_batch 0 [] (\<lambda>_. True) ''shop'' demo_written) = ([demo_event], Inr 1)"
  by code_simp+

lemma demo_facts:
  "map ob_id (ed_outbox demo_written) = [1]" "map ob_id (ed_outbox demo_relayed) = [1]" "map ob_id (ed_outbox demo_handled) = [1]"
  "sub_ok demo_reader" "holds_tenant ''shop'' (ev_tenant demo_event) demo_relayed" "ev_id demo_event = 1" "sub_base demo_reader = ''audit-user-invited''"
  by code_simp+

lemma demo_steps:
  "write_event uuid_text (\<lambda>_. None) demo_parts demo_call 0 1 7 ''user.invited'' ''{}'' False demo_tenants = Inr demo_written"
  "handle_claim uuid_text (\<lambda>_. None) demo_parts hd 0 demo_reader demo_event \<lparr>hr_calls = [], hr_failed = None\<rparr> demo_relayed
     \<lparr>cv_insert = demo_relayed, cv_read = demo_relayed, cv_terminal = demo_relayed, cv_again = demo_relayed\<rparr> = Inr (Some demo_handled)"
  "relay_batch 0 [] (\<lambda>_. True) ''shop'' demo_written = (demo_relayed, [demo_event], Inr 1)"
  using demo_runs unfolding demo_written_def demo_handled_def demo_relayed_def
  by (auto split: sum.splits option.splits simp: prod_eq_iff)

lemma demo_reaches:
  "\<exists>w. event_reaches uuid_text (\<lambda>_. None) demo_parts (event_world_start demo_tenants 0) w
     \<and> ew_commits w = [(1, ''audit-user-invited'')] \<and> ew_reopened w = [] \<and> ew_messages w = [(demo_event, 0)]"
proof -
  let ?step = "event_step uuid_text (\<lambda>_. None) demo_parts" and ?w0 = "event_world_start demo_tenants 0"
  define w1 where "w1 = rows_noted ?w0 demo_written"
  have 1: "?step ?w0 w1"
    unfolding w1_def
    by (rule event_step.writes [where cx = demo_call and new = 1 and tenant = 7 and name = "''user.invited''" and body = "''{}''" and system = False])
      (use demo_steps(1) demo_facts(1) in \<open>auto simp: event_world_start_def fresh_rows_def\<close>)
  define w2 where "w2 = w1\<lparr>ew_db := demo_relayed, ew_messages := map (\<lambda>e. (e, ew_now w1)) [demo_event] @ ew_messages w1\<rparr>"
  have 2: "?step w1 w2"
    unfolding w2_def using demo_steps(3) by (intro event_step.relays) (auto simp: w1_def rows_noted_def event_world_start_def)
  have m: "ew_messages w2 = [(demo_event, 0)]" "ew_now w2 = 0" "ew_db w2 = demo_relayed" "ew_commits w2 = []" "ew_reopened w2 = []"
    by (simp_all add: w2_def w1_def rows_noted_def event_world_start_def)
  define w3 where "w3 = (rows_noted w2 demo_handled)\<lparr>ew_commits := (ev_id demo_event, sub_base demo_reader) # ew_commits w2\<rparr>"
  have "0 < event_keep" by (simp add: event_keep_def duration_defs)
  have ids: "row_ids demo_handled = {1}" "row_ids demo_relayed = {1}"
    using arg_cong [OF demo_facts(2), of set] arg_cong [OF demo_facts(3), of set] by (simp_all add: row_ids_def)
  have 3: "?step w2 w3"
    unfolding w3_def
    by (rule event_step.handles [where first = hd and hr = "\<lparr>hr_calls = [], hr_failed = None\<rparr>"
          and v = "\<lparr>cv_insert = demo_relayed, cv_read = demo_relayed, cv_terminal = demo_relayed, cv_again = demo_relayed\<rparr>"])
      (use demo_steps(2) demo_facts \<open>0 < event_keep\<close> ids in \<open>auto simp: m deliverable_def current_views_def fresh_rows_def demo_reader_def\<close>)
  have "event_reaches uuid_text (\<lambda>_. None) demo_parts ?w0 w3"
    unfolding event_reaches_def using 1 2 3 by (meson rtranclp.rtrancl_into_rtrancl rtranclp.rtrancl_refl)
  then show ?thesis using demo_facts(6,7) m by (auto simp: w3_def rows_noted_def)
qed

theorem event_handled_once_witness:
  "\<exists>w. event_reaches uuid_text (\<lambda>_. None) demo_parts (event_world_start demo_tenants 0) w
     \<and> count_list (ew_commits w) (1, ''audit-user-invited'') = 1"
proof -
  obtain w where w: "event_reaches uuid_text (\<lambda>_. None) demo_parts (event_world_start demo_tenants 0) w"
    "ew_commits w = [(1, ''audit-user-invited'')]" "ew_reopened w = []" using demo_reaches by blast
  have f: "fresh_installation demo_tenants"
    by (simp add: fresh_installation_def demo_tenants_def empty_event_db_def) code_simp
  from event_handled_once [OF f w(1), of 1 "''audit-user-invited''"] w show ?thesis by auto
qed

text \<open>
  C32: What was written is not lost: a row of the outbox, once there, is for ever after either a
  row still waiting to be relayed or an event the transport accepted, as it was written, whatever
  crashed, was purged, replayed or moved since.
\<close>

theorem event_never_lost:
  assumes "fresh_installation db" "event_reaches us parse cp (event_world_start db now) w" "r \<in> set (ed_outbox (ew_db w))"
    "event_reaches us parse cp w w'"
  shows "(\<exists>r' \<in> set (ed_outbox (ew_db w')). row_event r' = row_event r \<and> ob_published r' = None)
    \<or> (\<exists>p. (row_event r, p) \<in> set (ew_messages w'))"
proof -
  have inv: "event_inv w" by (rule event_reaches_inv [OF assms(2) event_inv_start [OF assms(1)]])
  from event_reaches_keeps [OF assms(4) inv row_carried [OF inv assms(3)]] show ?thesis by (simp add: carried_or_waiting_def)
qed

theorem event_never_lost_witness:
  "\<exists>w w' r. event_reaches uuid_text (\<lambda>_. None) demo_parts (event_world_start demo_tenants 0) w \<and> r \<in> set (ed_outbox (ew_db w))
     \<and> event_reaches uuid_text (\<lambda>_. None) demo_parts w w' \<and> ew_now w' = 8 * 24 * hour \<and> ((\<exists>p. (row_event r, p) \<in> set (ew_messages w'))
       \<or> (\<exists>r' \<in> set (ed_outbox (ew_db w')). row_event r' = row_event r \<and> ob_published r' = None))"
proof -
  let ?step = "event_step uuid_text (\<lambda>_. None) demo_parts" and ?w0 = "event_world_start demo_tenants 0"
  define w1 where "w1 = rows_noted ?w0 demo_written"
  have 1: "?step ?w0 w1"
    unfolding w1_def
    by (rule event_step.writes [where cx = demo_call and new = 1 and tenant = 7 and name = "''user.invited''" and body = "''{}''" and system = False])
      (use demo_steps(1) demo_facts(1) in \<open>auto simp: event_world_start_def fresh_rows_def\<close>)
  define w2 where "w2 = w1\<lparr>ew_now := ew_now w1 + 8 * 24 * hour\<rparr>"
  have 2: "?step w1 w2" unfolding w2_def by (rule event_step.ticks) (simp add: duration_defs)
  have r: "event_reaches uuid_text (\<lambda>_. None) demo_parts ?w0 w1" "event_reaches uuid_text (\<lambda>_. None) demo_parts w1 w2"
    using 1 2 by (auto simp: event_reaches_def)
  obtain row where row: "row \<in> set (ed_outbox (ew_db w1))"
    using demo_facts(1) by (cases "ed_outbox demo_written") (auto simp: w1_def rows_noted_def)
  have f: "fresh_installation demo_tenants"
    by (simp add: fresh_installation_def demo_tenants_def empty_event_db_def) code_simp
  have "ew_now w2 = 8 * 24 * hour" by (simp add: w2_def w1_def rows_noted_def event_world_start_def)
  with event_never_lost [OF f r(1) row r(2)] r row show ?thesis by blast
qed

lemma sent_sorted: "sorted (map ev_at (takeWhile accepts (map row_event (queue locked app db))))"
proof -
  have "sorted (map ob_created (queue locked app db))" by (simp add: queue_def)
  moreover have "map ob_created rows = map ev_at (map row_event rows)" for rows by (simp add: row_event_def)
  moreover have "takeWhile accepts evs = take (length (takeWhile accepts evs)) evs" for evs :: "delivery_event list"
    by (metis takeWhile_eq_take)
  ultimately show ?thesis by (metis sorted_wrt_take take_map)
qed

text \<open>
  C33: The relay returns and sends the queue oldest first: with nobody else writing, \<open>RelayFor\<close>
  ends, having sent exactly what the transport accepts of the application's unlocked pending rows
  up to the first it refuses, in the order of their age (the times of writing never fall); it reports an error exactly when one was
  refused; and what is pending after it is what no full accepted batch contained.
\<close>

theorem relay_sends_the_queue_in_order:
  assumes "distinct (map ob_id (ed_outbox db))"
  shows "\<exists>db' sent e. relay_for now locked accepts app db = (db', sent, e)
    \<and> sent = takeWhile accepts (map row_event (queue locked app db))
    \<and> (e = None \<longleftrightarrow> list_all accepts (map row_event (queue locked app db)))
    \<and> queue locked app db' = (if e = None then [] else drop (batch * (length sent div batch)) (queue locked app db))
    \<and> sorted (map ev_at sent)"
  using relay_for_sends [OF assms, of now locked accepts app] sent_sorted [of accepts locked app db]
  by (cases "relay_for now locked accepts app db") auto

theorem relay_sends_the_queue_in_order_witness:
  "\<exists>db' sent e. relay_for 0 [] (\<lambda>_. True) ''shop'' demo_written = (db', sent, e) \<and> length sent = 1 \<and> e = None \<and> queue [] ''shop'' db' = []"
proof -
  have d: "distinct (map ob_id (ed_outbox demo_written))" by (simp add: demo_facts)
  have "length (queue [] ''shop'' demo_written) = 1" by code_simp
  moreover obtain db' sent e where r: "relay_for 0 [] (\<lambda>_. True) ''shop'' demo_written = (db', sent, e)" by (metis prod_cases3)
  moreover have tw: "takeWhile (\<lambda>_. True) xs = xs" for xs :: "delivery_event list" by (induction xs) auto
  ultimately show ?thesis
    using relay_sends_the_queue_in_order [OF d, of 0 "[]" "\<lambda>_. True" "''shop''"]
    by (intro exI [of _ db'] exI [of _ sent] exI [of _ e]) (auto simp: list_all_iff tw)
qed

text \<open>
  C34: Moving a ledger moves names and nothing else: for every event whose marks are one tenant's,
  the work recorded for a subscription is the same before and after, so the application's own
  consumer claims exactly what it would have claimed; and afterwards none of the application's
  tenants has an unscoped row, so the move run again changes nothing and reports nothing.
\<close>

theorem ledger_move_keeps_work:
  assumes "move_ledger us parse cp cx now fresh ob body busy claimed app db = (db', Inr report)" "named app" "one_tenant db"
    "app_of_tenant db t = app" "\<forall>d t'. marked db i d t' \<longrightarrow> t' = t" "su_app s = app" "sub_ok s"
  shows "(insert_claim at t i (claim_names (sub_durable s) (older_durable s)) db' = None
      \<longleftrightarrow> insert_claim at t i (claim_names (sub_durable s) (older_durable s)) db = None)
    \<and> \<not> unscoped_remains app db'
    \<and> move_ledger us parse cp cx now fresh ob body [] [] app db'
       = (db', Inr \<lparr>mr_subscriptions = 0, mr_claims = 0, mr_dead = 0, mr_tenants = 0\<rparr>)"
proof -
  have b: "unscoped_durable (sub_base s)" using assms(7) by (simp add: sub_ok_def unscoped_durable_def)
  note mw = moved_ledger_work [OF assms(1-3) b]
  have t': "\<forall>d t'. marked db' i d t' \<longrightarrow> t' = t" using mw(3) assms(5) by blast
  have app: "app_of_tenant db' t = su_app s" "app_of_tenant db t = su_app s" using mw(4) assms(4,6) by simp_all
  have same: "insert_claim at t i (claim_names (sub_durable s) (older_durable s)) db' = None
      \<longleftrightarrow> insert_claim at t i (claim_names (sub_durable s) (older_durable s)) db = None"
    by (simp only: claim_refused_iff [OF assms(7) app(1) t'] claim_refused_iff [OF assms(7) app(2) assms(5)] mw(1))
  have none: "filter (\<lambda>h. unscoped_durable (hd_durable h) \<and> own_tenant app db' (hd_tenant h)) (ed_handled db') = []"
    "filter (\<lambda>l. unscoped_durable (dd_durable l) \<and> own_tenant app db' (dd_tenant l)) (ed_dead db') = []"
    "filter (\<lambda>h. unscoped_durable (hd_durable h) \<and> own_tenant app db' (hd_tenant h) \<and> hd_owed h > 0) (ed_handled db') = []"
    using mw(2) by (auto simp: unscoped_remains_def list_ex_iff filter_empty_conv)
  then have "ledger_durables app db' = []" "claims_owing app db' = 0" by (simp_all add: ledger_durables_def claims_owing_def)
  then have "move_ledger us parse cp cx now fresh ob body [] [] app db'
      = (db', Inr \<lparr>mr_subscriptions = 0, mr_claims = 0, mr_dead = 0, mr_tenants = 0\<rparr>)"
    using assms(2) mw(2,5) by (simp add: move_ledger_def Let_def hold_tenants_def rename_ledger_def list_all_iff)
  with same mw(2) show ?thesis by blast
qed

definition demo_unscoped :: event_db where
  "demo_unscoped = demo_tenants\<lparr>ed_handled := [\<lparr>hd_event = 1, hd_durable = ''audit-user-invited'', hd_tenant = 7, hd_at = 0, hd_owed = 0\<rparr>]\<rparr>"

definition demo_scoped :: event_db where
  "demo_scoped = demo_tenants\<lparr>ed_handled := [\<lparr>hd_event = 1, hd_durable = ''shop+audit-user-invited'', hd_tenant = 7, hd_at = 0, hd_owed = 0\<rparr>]\<rparr>"

lemma succeed_for_nobody: "cx_operation cx = no_operation \<Longrightarrow> succeed_for us parse cp cx now new ob db = Inr db"
  by (simp add: succeed_for_def succeed_system_def)

lemma demo_move:
  "\<exists>db' report. move_ledger uuid_text (\<lambda>_. None) demo_parts demo_call 0 (\<lambda>_. (2, 3)) (\<lambda>_. '''') (\<lambda>_. '''') [] [] ''shop'' demo_unscoped = (db', Inr report)
     \<and> ed_handled db' = ed_handled demo_scoped"
proof -
  let ?h = "rename_ledger hd_event hd_durable copy_handled (\<lambda>h. own_tenant ''shop'' demo_unscoped (hd_tenant h)) (durable_prefix ''shop'') [''audit-user-invited''] (ed_handled demo_unscoped)"
  let ?d = "rename_ledger dd_event dd_durable copy_dead (\<lambda>l. own_tenant ''shop'' demo_unscoped (dd_tenant l)) (durable_prefix ''shop'') [''audit-user-invited''] (ed_dead demo_unscoped)"
  have parts: "named ''shop''" "valid_name ''shop''" "hold_tenants [] ''shop'' demo_unscoped"
    "ledger_durables ''shop'' demo_unscoped = [''audit-user-invited'']" "claims_owing ''shop'' demo_unscoped = 0"
    "?h = (ed_handled demo_scoped, ed_handled demo_unscoped)" "?d = ([], [])" "\<not> unscoped_remains ''shop'' demo_scoped"
    "map hd_tenant (ed_handled demo_unscoped) = [7]"
    by code_simp+
  have db: "demo_unscoped\<lparr>ed_handled := ed_handled demo_scoped, ed_dead := []\<rparr> = demo_scoped"
    by (simp add: demo_unscoped_def demo_scoped_def demo_tenants_def empty_event_db_def)
  have "case publish_for uuid_text (\<lambda>_. None) demo_parts demo_call 0 3 7 event_ledger_moved '''' demo_scoped of Inr _ \<Rightarrow> True | Inl _ \<Rightarrow> False"
    by code_simp
  then obtain db' where pub: "publish_for uuid_text (\<lambda>_. None) demo_parts demo_call 0 3 7 event_ledger_moved '''' demo_scoped = Inr db'"
    by (auto split: sum.splits)
  then have h: "ed_handled db' = ed_handled demo_scoped"
    by (auto simp: publish_for_def write_event_def split: if_splits option.splits sum.splits)
  have c: "cx_operation demo_call = no_operation" by (simp add: demo_call_def)
  from parts(9) obtain row where "ed_handled demo_unscoped = [row]" "hd_tenant row = 7" by auto
  then show ?thesis using pub h parts
    by (simp add: move_ledger_def Let_def db succeed_for_nobody [OF c])
qed

theorem ledger_move_keeps_work_witness:
  "\<exists>db' report. move_ledger uuid_text (\<lambda>_. None) demo_parts demo_call 0 (\<lambda>_. (2, 3)) (\<lambda>_. '''') (\<lambda>_. '''') [] [] ''shop'' demo_unscoped = (db', Inr report)
     \<and> map hd_durable (ed_handled db') = [''shop+audit-user-invited'']
     \<and> insert_claim 5 7 1 (claim_names (sub_durable demo_reader) (older_durable demo_reader)) db' = None"
proof -
  obtain db' report where m: "move_ledger uuid_text (\<lambda>_. None) demo_parts demo_call 0 (\<lambda>_. (2, 3)) (\<lambda>_. '''') (\<lambda>_. '''') [] [] ''shop'' demo_unscoped = (db', Inr report)"
    and h: "ed_handled db' = ed_handled demo_scoped" using demo_move by blast
  have marks: "marked demo_unscoped i d t \<longleftrightarrow> i = 1 \<and> d = ''audit-user-invited'' \<and> t = 7" for i d t
    by (auto simp: marked_def demo_unscoped_def demo_tenants_def empty_event_db_def)
  have facts: "named ''shop''" "app_of_tenant demo_unscoped 7 = ''shop''" "su_app demo_reader = ''shop''"
    "map hd_durable (ed_handled demo_scoped) = [''shop+audit-user-invited'']" by code_simp+
  have "insert_claim 5 7 1 (claim_names (sub_durable demo_reader) (older_durable demo_reader)) demo_unscoped = None" by code_simp
  moreover have o: "one_tenant demo_unscoped" and t: "\<forall>d t'. marked demo_unscoped 1 d t' \<longrightarrow> t' = 7" by (simp_all add: one_tenant_def marks)
  ultimately have "insert_claim 5 7 1 (claim_names (sub_durable demo_reader) (older_durable demo_reader)) db' = None"
    using conjunct1 [OF ledger_move_keeps_work [OF m facts(1) o facts(2) t facts(3) demo_facts(4)]] by blast
  with m h facts(4) show ?thesis by auto
qed

text \<open>
  C35: A delivery in memory is settled or still being settled, whatever its subscription: when the ladder
  returns it has called the handler five times at most and waited what the policy says, and if it reports
  the event delivered, the event's tenant is another application's or a mark or a dead letter says
  what became of it.  And it returns once the database answers again, when the subscription has no
  terminal hook, or has one that recovers (from some attempt on it succeeds, and the effects it defers
  are carried out) and no earlier claim of the event still owes an effect; with such a claim the hook
  is refused for ever (\<open>terminal_hook_refuses_owed_claim\<close>).
\<close>

theorem memory_delivery_settles:
  "(\<forall>db' ns e. mem_deliver cancelled (subscription_sink us parse cp first clock down runs hook say s ev) 1 None db = Some (db', ns, e) \<longrightarrow>
        handlings ns \<le> max_deliveries \<and> waits ns = map backoff_after [1 ..< 1 + length (waits ns)]
        \<and> (e = Delivered \<longrightarrow> event_settled s ev db'))
    \<and> ((\<forall>n \<ge> k. down n = None)
        \<and> (\<forall>f. hook = Some f \<longrightarrow> (\<forall>xs. xs \<noteq> [] \<longrightarrow> first xs \<in> set xs) \<and> hook_recovers us parse cp first clock k s ev f
             \<and> nothing_owed (ev_id ev) (claim_names (sub_durable s) (older_durable s)) db) \<longrightarrow>
        mem_deliver cancelled (subscription_sink us parse cp first clock down runs hook say s ev) 1 None db \<noteq> None)"
proof (intro conjI allI impI)
  fix db' ns e
  assume r: "mem_deliver cancelled (subscription_sink us parse cp first clock down runs hook say s ev) 1 None db = Some (db', ns, e)"
  from mem_deliver_notes [OF r] show "handlings ns \<le> max_deliveries" "waits ns = map backoff_after [1 ..< 1 + length (waits ns)]"
    by (simp_all add: ladder_ok_def)
  show "event_settled s ev db'" if "e = Delivered" using database.delivered_settled r that by blast
next
  assume a: "(\<forall>n \<ge> k. down n = None) \<and> (\<forall>f. hook = Some f \<longrightarrow> (\<forall>xs. xs \<noteq> [] \<longrightarrow> first xs \<in> set xs)
      \<and> hook_recovers us parse cp first clock k s ev f \<and> nothing_owed (ev_id ev) (claim_names (sub_durable s) (older_durable s)) db)"
  let ?sink = "subscription_sink us parse cp first clock down runs hook say s ev"
  have "\<exists>y. mem_deliver cancelled ?sink 1 None db = Some y"
  proof (cases hook)
    case None
    have "\<forall>m \<ge> k. \<forall>c db. snd (sk_dead ?sink m c db) = None" using a None by (simp add: subscription_sink_def)
    then show ?thesis by (rule mem_deliver_returns)
  next
    case (Some f)
    then show ?thesis using a hook_delivery_returns [of k down first us parse cp clock s ev f db] by simp
  qed
  then show "mem_deliver cancelled ?sink 1 None db \<noteq> None" by simp
qed

theorem memory_delivery_settles_witness:
  "\<exists>db' ns e. mem_deliver (\<lambda>_. False) (subscription_sink uuid_text (\<lambda>_. None) demo_parts hd (\<lambda>n. int n)
      (\<lambda>n. if n < 7 then Some NoMark else None) (\<lambda>_. (\<lparr>hr_calls = [], hr_failed = Some ''no''\<rparr>, []))
      (Some (\<lambda>n. (\<lparr>hr_calls = [], hr_failed = (if n < 9 then Some ''not yet'' else None)\<rparr>, [True]))) (\<lambda>_. ''no'') demo_reader demo_event) 1 None demo_relayed
      = Some (db', ns, e) \<and> handlings ns \<le> 5 \<and> (e = Delivered \<longrightarrow> event_settled demo_reader demo_event db')"
proof -
  let ?f = "\<lambda>n. (\<lparr>hr_calls = [], hr_failed = (if n < (9::nat) then Some ''not yet'' else None)\<rparr>, [True])"
  have "validate_operation (\<lambda>_. None) (ev_operation demo_event)" by code_simp
  then have h: "hook_recovers uuid_text (\<lambda>_. None) demo_parts hd (\<lambda>n. int n) 9 demo_reader demo_event ?f"
    by (simp add: hook_recovers_def run_handler_def)
  have o: "nothing_owed (ev_id demo_event) (claim_names (sub_durable demo_reader) (older_durable demo_reader)) demo_relayed"
    by code_simp
  have d: "\<forall>n \<ge> 9. (if n < (7::nat) then Some NoMark else None) = None" by simp
  let ?run = "mem_deliver (\<lambda>_. False) (subscription_sink uuid_text (\<lambda>_. None) demo_parts hd (\<lambda>n. int n)
      (\<lambda>n. if n < 7 then Some NoMark else None) (\<lambda>_. (\<lparr>hr_calls = [], hr_failed = Some ''no''\<rparr>, [])) (Some ?f) (\<lambda>_. ''no'') demo_reader demo_event) 1 None demo_relayed"
  note c = memory_delivery_settles [of "\<lambda>_. False" uuid_text "\<lambda>_. None" demo_parts hd "\<lambda>n. int n" "\<lambda>n. if n < 7 then Some NoMark else None"
      "\<lambda>_. (\<lparr>hr_calls = [], hr_failed = Some ''no''\<rparr>, [])" "Some ?f" "\<lambda>_. ''no''" demo_reader demo_event demo_relayed 9]
  have "\<forall>xs. xs \<noteq> [] \<longrightarrow> hd xs \<in> set (xs :: handled_row list)" by simp
  with h o have "\<forall>f. Some ?f = Some f \<longrightarrow> (\<forall>xs. xs \<noteq> [] \<longrightarrow> hd xs \<in> set xs) \<and> hook_recovers uuid_text (\<lambda>_. None) demo_parts hd (\<lambda>n. int n) 9 demo_reader demo_event f
      \<and> nothing_owed (ev_id demo_event) (claim_names (sub_durable demo_reader) (older_durable demo_reader)) demo_relayed" by simp
  with c [THEN conjunct2] d have "?run \<noteq> None" by blast
  then obtain db' ns e where r: "?run = Some (db', ns, e)" by (metis not_None_eq prod_cases3)
  from c [THEN conjunct1, rule_format, OF r] have "handlings ns \<le> 5" "e = Delivered \<Longrightarrow> event_settled demo_reader demo_event db'"
    unfolding max_deliveries_def by auto
  with r show ?thesis by blast
qed

text \<open>
  A subscription with a terminal hook cannot end a delivery whose claim still owes an effect,
  although a dead letter would: the ladder above it goes on asking.
\<close>

lemma terminal_hook_refuses_owed_claim:
  assumes "validate_operation parse (ev_operation ev)" "holds_tenant app (ev_tenant ev) db" "d \<noteq> ''''"
    "filter (\<lambda>h. hd_event h = ev_id ev \<and> hd_durable h = d) (ed_handled db) = [h]" "hd_owed h > 0"
  shows "terminal_letter us parse cp hd now app ev d cause hook es db = (db, Some OwesEffect)"
proof -
  have "h \<in> set (ed_handled db)" "hd_event h = ev_id ev" "hd_durable h = d"
    using arg_cong [OF assms(4), of set] by auto
  then have "insert_claim now (ev_tenant ev) (ev_id ev) [d] db = None"
    by (auto simp: insert_claim_def handled_under_def list_ex_iff)
  with assms show ?thesis
    by (simp add: terminal_letter_def claim_def Let_def claim_names_def owed_or_handled_def holds_tenant_def holds_unscoped_def named_def)
qed

end
