(* ===== verification/People.thy ===== *)
theory People
  imports Lockout AppNames "HOL-Library.Char_ord" "HOL-Library.List_Lexorder"
begin

section \<open>The people of a tenant\<close>

text \<open>
  \<open>modules/user\<close>: the entity and its rules (\<open>contracts/user.go\<close>, \<open>password.go\<close>), the rule about the
  last administrator (\<open>contracts/administration.go\<close>) and the rows one tenant's transaction sees,
  with the unique indexes of \<open>migrations/000007\<close> and \<open>000025\<close>.  Text is bytes: \<open>strings.ToLower\<close> and
  \<open>TrimSpace\<close> are modelled for ASCII, \<open>[]rune\<close> decodes UTF-8.  What argon2 and the base64 encoding
  make of a password is the argument \<open>enc\<close>, third-party.
\<close>

subsection \<open>Names, addresses and roles\<close>

definition status_invited :: string where "status_invited = ''invited''"
definition status_pending :: string where "status_pending = ''pending''"
definition status_unverified :: string where "status_unverified = ''unverified''"
definition status_active :: string where "status_active = ''active''"
definition status_inactive :: string where "status_inactive = ''inactive''"

lemmas status_defs = status_invited_def status_pending_def status_unverified_def status_active_def status_inactive_def

definition statuses :: "string list" where
  "statuses = [status_invited, status_pending, status_unverified, status_active, status_inactive]"

definition folded :: "string \<Rightarrow> string" where
  "folded s = map ascii_lower (trim_space s)"

definition canonical_email :: "string \<Rightarrow> string" where
  "canonical_email v = folded v"

fun canonical_from :: "string list \<Rightarrow> string list \<Rightarrow> string list" where
  "canonical_from out [] = out"
| "canonical_from out (role # roles) =
     (let r = folded role
      in canonical_from (if r \<noteq> '''' \<and> r \<notin> set out then out @ [r] else out) roles)"

definition canonical_roles :: "string list \<Rightarrow> string list" where
  "canonical_roles roles = sort (canonical_from [] roles)"

text \<open>The pattern \<open>^[a-z][a-z0-9_]*$\<close>.\<close>

definition role_pattern :: "string \<Rightarrow> bool" where
  "role_pattern s \<longleftrightarrow> (case s of [] \<Rightarrow> False | c # cs \<Rightarrow> is_lower c \<and> list_all (\<lambda>d. is_alnum d \<or> d = CHR ''_'') cs)"

text \<open>The pattern \<open>^[a-z0-9][a-z0-9._-]{1,30}[a-z0-9]$\<close>.\<close>

definition handle_form :: "string \<Rightarrow> bool" where
  "handle_form s \<longleftrightarrow> 3 \<le> length s \<and> length s \<le> 32 \<and> is_alnum (hd s) \<and> is_alnum (last s)
     \<and> list_all (\<lambda>c. is_alnum c \<or> c \<in> set ''._-'') s"

definition reserved_handles :: "string list" where
  "reserved_handles =
     [''admin'', ''administrator'', ''root'', ''owner'', ''moderator'', ''staff'', ''team'',
      ''support'', ''help'', ''security'', ''privacy'', ''terms'', ''abuse'', ''service'',
      ''webmaster'', ''postmaster'',
      ''me'', ''user'', ''users'', ''people'', ''person'', ''account'', ''accounts'',
      ''settings'', ''billing'', ''api'', ''auth'', ''oauth'', ''oidc'', ''password'',
      ''signin'', ''signup'', ''login'', ''logout'', ''verify'', ''invitations'',
      ''health'', ''live'', ''ready'', ''metrics'', ''assets'', ''static'', ''docs'',
      ''null'', ''true'', ''false'', ''undefined'', ''nan'', ''none'',
      ''platformkit'', ''septagon'']"

definition reserved_handle :: "string \<Rightarrow> bool" where
  "reserved_handle h \<longleftrightarrow> folded h \<in> set reserved_handles"

definition valid_handle :: "string \<Rightarrow> bool" where
  "valid_handle h \<longleftrightarrow> handle_form (folded h) \<and> folded h \<notin> set reserved_handles"

subsection \<open>Refusals\<close>

datatype why_invalid =
    NeedsEmail | NotAnEmail | LongEmail | BadHandle | ReservedHandle | UnknownStatus | BadRole string
  | WeakPassword | EmptyHandle | LastAdministrator | Ungrantable string | GrantUndecided
  | RegistrationOnCreate | StatusOnCreate | RolesOnCreate | NoActor | PageBounds
  | RoleNameForm | LongRoleName | NoSuchPermission string | OperatorsOwn string
  | ReservedInitial string | InitialCannotGrant string string | GrantsNothing string

datatype why_conflict =
    UniqueKey | UniqueEmail | UniqueHandle | HandleTaken | PasswordState | StoodDownOnly | NotUnverified
  | OtherAddress | NotConfirmable | StillInvited | NotPending | RegistrationExists

datatype people_error =
    PersonNotFound
  | PersonInvalid why_invalid
  | PersonConflict why_conflict
  | PortFailed
  | StoreFailed

subsection \<open>The entity\<close>

record person =
  pn_id :: uuid
  pn_created :: time
  pn_updated :: time
  pn_deleted :: "time option"
  pn_email :: string
  pn_display :: string
  pn_handle :: string
  pn_status :: string
  pn_roles :: "string list"
  pn_hash :: string

definition can_sign_in :: "person \<Rightarrow> bool" where
  "can_sign_in u \<longleftrightarrow> pn_status u = status_active \<and> pn_hash u \<noteq> ''''"

text \<open>The index of the first \<open>@\<close>, which \<open>IndexByte\<close> answers.\<close>

definition at_index :: "string \<Rightarrow> int" where
  "at_index s = (if CHR ''@'' \<in> set s then int (length (takeWhile (\<lambda>c. c \<noteq> CHR ''@'') s)) else -1)"

definition email_blank :: "char \<Rightarrow> bool" where
  "email_blank c \<longleftrightarrow> of_char c \<in> {32, 9, 13, 10 :: nat}"

definition validate_person :: "person \<Rightarrow> why_invalid + person" where
  "validate_person p =
     (let u = p\<lparr>pn_email := canonical_email (pn_email p), pn_display := trim_space (pn_display p)\<rparr>;
          at = at_index (pn_email u)
      in if pn_email u = '''' then Inl NeedsEmail
         else if at \<le> 0 \<or> at = int (length (pn_email u)) - 1 \<or> list_ex email_blank (pn_email u) then Inl NotAnEmail
         else if length (pn_email u) > 320 then Inl LongEmail
         else
           (let v = u\<lparr>pn_status := (if pn_status u = '''' then status_invited else pn_status u), pn_handle := folded (pn_handle u)\<rparr>
            in if pn_handle v \<noteq> '''' \<and> \<not> handle_form (pn_handle v) then Inl BadHandle
               else if pn_handle v \<noteq> '''' \<and> reserved_handle (pn_handle v) then Inl ReservedHandle
               else if pn_status v \<notin> set statuses then Inl UnknownStatus
               else case List.find (\<lambda>r. \<not> role_pattern r) (pn_roles v) of
                      Some r \<Rightarrow> Inl (BadRole r)
                    | None \<Rightarrow> Inr v))"

subsection \<open>Passwords\<close>

definition continuation :: "nat \<Rightarrow> bool" where
  "continuation b \<longleftrightarrow> 128 \<le> b \<and> b \<le> 191"

text \<open>How many bytes the first rune takes; a byte that starts none is one of its own.\<close>

definition rune_width :: "nat list \<Rightarrow> nat" where
  "rune_width bs =
     (case bs of
        a # b # c # d # _ \<Rightarrow>
          if 194 \<le> a \<and> a \<le> 223 \<and> continuation b then 2
          else if (a = 224 \<and> 160 \<le> b \<and> b \<le> 191 \<or> (225 \<le> a \<and> a \<le> 236 \<or> 238 \<le> a \<and> a \<le> 239) \<and> continuation b \<or> a = 237 \<and> 128 \<le> b \<and> b \<le> 159)
             \<and> continuation c then 3
          else if (a = 240 \<and> 144 \<le> b \<and> b \<le> 191 \<or> 241 \<le> a \<and> a \<le> 243 \<and> continuation b \<or> a = 244 \<and> 128 \<le> b \<and> b \<le> 143)
             \<and> continuation c \<and> continuation d then 4 else 1
      | [a, b, c] \<Rightarrow>
          if 194 \<le> a \<and> a \<le> 223 \<and> continuation b then 2
          else if (a = 224 \<and> 160 \<le> b \<and> b \<le> 191 \<or> (225 \<le> a \<and> a \<le> 236 \<or> 238 \<le> a \<and> a \<le> 239) \<and> continuation b \<or> a = 237 \<and> 128 \<le> b \<and> b \<le> 159)
             \<and> continuation c then 3 else 1
      | [a, b] \<Rightarrow> if 194 \<le> a \<and> a \<le> 223 \<and> continuation b then 2 else 1
      | _ \<Rightarrow> 1)"

lemma rune_width_pos: "0 < rune_width bs"
  by (simp add: rune_width_def split: list.split)

function runes_of :: "nat list \<Rightarrow> nat" where
  "runes_of [] = 0"
| "runes_of (b # bs) = Suc (runes_of (drop (rune_width (b # bs)) (b # bs)))"
  by pat_completeness auto
termination
  by (relation "measure length") (use rune_width_pos in \<open>auto simp: Suc_le_eq less_Suc_eq_le le_diff_conv\<close>)

definition rune_count :: "string \<Rightarrow> nat" where
  "rune_count s = runes_of (map of_char s)"

definition min_password_length :: nat where "min_password_length = 12"

definition hash_password :: "(string \<Rightarrow> string) \<Rightarrow> string \<Rightarrow> why_invalid + string" where
  "hash_password enc pw =
     (if rune_count pw < min_password_length then Inl WeakPassword
      else Inr (''$argon2id$v=19$m=65536,t=1,p=4$'' @ enc pw))"

subsection \<open>Who administers\<close>

definition holds_any :: "person \<Rightarrow> string list \<Rightarrow> bool" where
  "holds_any u administering \<longleftrightarrow> list_ex (\<lambda>r. r \<in> set administering) (pn_roles u)"

definition administers :: "person option \<Rightarrow> string list \<Rightarrow> bool" where
  "administers u administering \<longleftrightarrow> (case u of None \<Rightarrow> False
     | Some p \<Rightarrow> pn_deleted p = None \<and> pn_status p \<noteq> status_inactive \<and> holds_any p administering)"

definition can_administer :: "person option \<Rightarrow> string list \<Rightarrow> bool" where
  "can_administer u administering \<longleftrightarrow> (case u of None \<Rightarrow> False
     | Some p \<Rightarrow> pn_deleted p = None \<and> pn_status p = status_active \<and> holds_any p administering)"

text \<open>\<open>CheckedAdministration\<close> over the two reaches: whether the write is refused.\<close>

definition administration_refused :: "uuid list \<Rightarrow> uuid list \<Rightarrow> bool \<Rightarrow> bool" where
  "administration_refused before after last_way_back \<longleftrightarrow> after = [] \<and> (before \<noteq> [] \<or> last_way_back)"

definition user_reach :: "person option \<Rightarrow> string list \<Rightarrow> person list \<Rightarrow> uuid list" where
  "user_reach u administering others =
     (case u of None \<Rightarrow> [] | Some p \<Rightarrow> if can_administer u administering then [pn_id p] else [])
     @ map pn_id (filter (\<lambda>p. can_administer (Some p) administering) others)"

definition held_roles :: "person \<Rightarrow> string list \<Rightarrow> string list" where
  "held_roles u administering = filter (\<lambda>r. r \<in> set administering) (pn_roles u)"

end
