(* ===== verification/PeopleService.thy ===== *)
theory PeopleService
  imports People
begin

section \<open>The user module's operations\<close>

text \<open>
  \<open>modules/user/internal/service.go\<close>, \<open>administration.go\<close>, \<open>registration.go\<close>, \<open>personaldata.go\<close> and the
  hooks of \<open>module.go\<close>, over the rows one tenant's transaction sees.  An operation answers the state
  its transaction would commit; an error leaves the tables as they were, save for the record of a
  refusal, which the code writes in a transaction of its own when the request has a connection
  (\<open>conn\<close>).  \<open>ask\<close> is the port \<open>Administration\<close> and \<open>may\<close> the answer of the port \<open>Granting\<close>; \<open>None\<close> is
  their error.  New identifiers and the clock are arguments; publishing does not fail.
\<close>

record role =
  ro_name :: string
  ro_grants :: "string list"

datatype people_event =
    EvInvited uuid string string
  | EvPasswordSet uuid
  | EvRolesSet uuid "string list" "string list"
  | EvDeactivated uuid
  | EvReactivated uuid
  | EvHandleSet uuid string string
  | EvRegistrationPending uuid
  | EvRegistrationUnverified uuid string
  | EvRegistrationApproved uuid uuid
  | EvEmailVerified uuid string
  | EvPersonCreated uuid
  | EvPersonUpdated uuid
  | EvPersonDeleted uuid
  | EvAdministrationRefused uuid string "string list"
  | EvRoleSet string "string list" "string list"
  | EvRoleRefused string "string list" "string list"

record directory =
  dr_people :: "person list"
  dr_roles :: "role list"
  dr_log :: "people_event list"

definition empty_directory :: directory where
  "empty_directory = \<lparr>dr_people = [], dr_roles = [], dr_log = []\<rparr>"

definition publish_person :: "people_event list \<Rightarrow> directory \<Rightarrow> directory" where
  "publish_person evs db = db\<lparr>dr_log := dr_log db @ evs\<rparr>"

subsection \<open>Rows\<close>

definition shown :: "person \<Rightarrow> bool" where
  "shown u \<longleftrightarrow> pn_deleted u = None"

definition retained :: "uuid \<Rightarrow> directory \<Rightarrow> person option" where
  "retained i db = List.find (\<lambda>u. pn_id u = i) (dr_people db)"

definition get_person :: "uuid \<Rightarrow> directory \<Rightarrow> person option" where
  "get_person i db = List.find (\<lambda>u. pn_id u = i \<and> shown u) (dr_people db)"

definition locked_user :: "uuid \<Rightarrow> directory \<Rightarrow> person option" where
  "locked_user i db = get_person i db"

definition by_email :: "string \<Rightarrow> directory \<Rightarrow> person option" where
  "by_email email db = List.find (\<lambda>u. map ascii_lower (pn_email u) = canonical_email email \<and> shown u) (dr_people db)"

definition by_handle :: "string \<Rightarrow> directory \<Rightarrow> person option" where
  "by_handle h db = List.find (\<lambda>u. map ascii_lower (pn_handle u) = folded h \<and> shown u) (dr_people db)"

text \<open>The unique indexes, asked of a row beside the others.\<close>

definition same_email :: "person \<Rightarrow> person \<Rightarrow> bool" where
  "same_email u v \<longleftrightarrow> shown u \<and> shown v \<and> map ascii_lower (pn_email u) = map ascii_lower (pn_email v)"

definition same_handle :: "person \<Rightarrow> person \<Rightarrow> bool" where
  "same_handle u v \<longleftrightarrow> shown u \<and> shown v \<and> pn_handle u \<noteq> '''' \<and> pn_handle v \<noteq> ''''
     \<and> map ascii_lower (pn_handle u) = map ascii_lower (pn_handle v)"

definition unique_violation :: "person list \<Rightarrow> person \<Rightarrow> why_conflict option" where
  "unique_violation others u =
     (if list_ex (same_email u) others then Some UniqueEmail
      else if list_ex (same_handle u) others then Some UniqueHandle else None)"

definition insert_person :: "person \<Rightarrow> directory \<Rightarrow> why_conflict + directory" where
  "insert_person u db =
     (if list_ex (\<lambda>v. pn_id v = pn_id u) (dr_people db) then Inl UniqueKey
      else case unique_violation (dr_people db) u of
        Some w \<Rightarrow> Inl w
      | None \<Rightarrow> Inr (db\<lparr>dr_people := dr_people db @ [u]\<rparr>))"

definition replace_person :: "person \<Rightarrow> directory \<Rightarrow> directory" where
  "replace_person u db = db\<lparr>dr_people := map (\<lambda>v. if pn_id v = pn_id u then u else v) (dr_people db)\<rparr>"

definition others_of :: "uuid \<Rightarrow> directory \<Rightarrow> person list" where
  "others_of i db = filter (\<lambda>v. pn_id v \<noteq> i) (dr_people db)"

text \<open>\<open>crud.Create\<close> and \<open>crud.Update\<close> for this entity; \<open>copy\<close> writes the columns named.\<close>

definition crud_create :: "uuid \<Rightarrow> time \<Rightarrow> person \<Rightarrow> directory \<Rightarrow> people_error + (directory \<times> person)" where
  "crud_create new now p db =
     (case validate_person (p\<lparr>pn_id := new, pn_deleted := None\<rparr>) of
        Inl w \<Rightarrow> Inl (PersonInvalid w)
      | Inr u \<Rightarrow>
          (case insert_person (u\<lparr>pn_created := now, pn_updated := now\<rparr>) db of
             Inl w \<Rightarrow> Inl (PersonConflict w)
           | Inr db' \<Rightarrow> Inr (db', u\<lparr>pn_created := now, pn_updated := now\<rparr>)))"

definition crud_update :: "time \<Rightarrow> (person \<Rightarrow> person \<Rightarrow> person) \<Rightarrow> person \<Rightarrow> directory \<Rightarrow> people_error + (directory \<times> person)" where
  "crud_update now copy p db =
     (case validate_person p of
        Inl w \<Rightarrow> Inl (PersonInvalid w)
      | Inr u \<Rightarrow>
          (case get_person (pn_id u) db of
             None \<Rightarrow> Inl PersonNotFound
           | Some row \<Rightarrow>
               let row' = (copy u row)\<lparr>pn_updated := now\<rparr>
               in case unique_violation (others_of (pn_id u) db) row' of
                    Some w \<Rightarrow> Inl (PersonConflict w)
                  | None \<Rightarrow> Inr (replace_person row' db, u\<lparr>pn_updated := now\<rparr>)))"

definition copy_status :: "person \<Rightarrow> person \<Rightarrow> person" where
  "copy_status u row = row\<lparr>pn_status := pn_status u\<rparr>"

definition copy_password :: "person \<Rightarrow> person \<Rightarrow> person" where
  "copy_password u row = row\<lparr>pn_hash := pn_hash u, pn_status := pn_status u\<rparr>"

definition copy_roles :: "person \<Rightarrow> person \<Rightarrow> person" where
  "copy_roles u row = row\<lparr>pn_roles := pn_roles u\<rparr>"

definition copy_handle :: "person \<Rightarrow> person \<Rightarrow> person" where
  "copy_handle u row = row\<lparr>pn_handle := pn_handle u\<rparr>"

definition copy_profile :: "person \<Rightarrow> person \<Rightarrow> person" where
  "copy_profile u row = row\<lparr>pn_email := pn_email u, pn_display := pn_display u\<rparr>"

lemmas copy_defs = copy_status_def copy_password_def copy_roles_def copy_handle_def copy_profile_def

text \<open>What every command does once it decided: the update, and its event.\<close>

definition saved :: "people_error + (directory \<times> person) \<Rightarrow> (person \<Rightarrow> people_event list) \<Rightarrow> directory
    \<Rightarrow> directory \<times> (people_error + person)" where
  "saved r ev db =
     (case r of
        Inl e \<Rightarrow> (db, Inl e)
      | Inr (db', u) \<Rightarrow> (publish_person (ev u) db', Inr u))"

subsection \<open>The floor\<close>

definition other_administrators :: "uuid \<Rightarrow> string list \<Rightarrow> directory \<Rightarrow> person list" where
  "other_administrators moved administering db =
     (if administering = [] then []
      else take 2 (filter (\<lambda>u. can_administer (Some u) administering) (others_of moved db)))"

text \<open>The events a refusal records and the refusal itself.\<close>

definition floor_check :: "(directory \<Rightarrow> string list option) \<Rightarrow> bool \<Rightarrow> string \<Rightarrow> person \<Rightarrow> person option \<Rightarrow> directory
    \<Rightarrow> people_event list \<times> people_error option" where
  "floor_check ask conn attempt before after db =
     (case ask db of
        None \<Rightarrow> ([], Some PortFailed)
      | Some administering \<Rightarrow>
          if \<not> administers (Some before) administering \<or> administers after administering then ([], None)
          else
            (let others = other_administrators (pn_id before) administering db
             in if administration_refused (user_reach (Some before) administering others)
                     (user_reach after administering others) (\<not> administers after administering)
                then (if conn then [EvAdministrationRefused (pn_id before) attempt (held_roles before administering)] else [],
                      Some (PersonInvalid LastAdministrator))
                else ([], None)))"

subsection \<open>Commands\<close>

definition blank_person :: person where
  "blank_person = \<lparr>pn_id = 0, pn_created = 0, pn_updated = 0, pn_deleted = None, pn_email = '''', pn_display = '''', pn_handle = '''',
     pn_status = '''', pn_roles = [], pn_hash = ''''\<rparr>"

definition invite :: "uuid \<Rightarrow> time \<Rightarrow> string \<Rightarrow> string \<Rightarrow> directory \<Rightarrow> directory \<times> (people_error + person)" where
  "invite new now email display db =
     saved (crud_create new now (blank_person\<lparr>pn_email := email, pn_display := display, pn_status := status_invited\<rparr>) db)
       (\<lambda>u. [EvInvited (pn_id u) (pn_email u) (pn_status u)]) db"

definition set_password :: "(string \<Rightarrow> string) \<Rightarrow> time \<Rightarrow> uuid \<Rightarrow> string \<Rightarrow> directory \<Rightarrow> directory \<times> (people_error + person)" where
  "set_password enc now i pw db =
     (case locked_user i db of
        None \<Rightarrow> (db, Inl PersonNotFound)
      | Some u \<Rightarrow>
          if pn_status u \<noteq> status_invited \<and> pn_status u \<noteq> status_active then (db, Inl (PersonConflict PasswordState))
          else case hash_password enc pw of
            Inl w \<Rightarrow> (db, Inl (PersonInvalid w))
          | Inr h \<Rightarrow> saved (crud_update now copy_password (u\<lparr>pn_hash := h, pn_status := status_active\<rparr>) db)
              (\<lambda>u. [EvPasswordSet (pn_id u)]) db)"

definition added_administering :: "string list \<Rightarrow> string list \<Rightarrow> string list \<Rightarrow> string list" where
  "added_administering administering was want = filter (\<lambda>r. r \<notin> set was \<and> r \<in> set administering) want"

definition set_roles :: "(directory \<Rightarrow> string list option) \<Rightarrow> bool option \<Rightarrow> bool \<Rightarrow> time \<Rightarrow> uuid \<Rightarrow> string list \<Rightarrow> directory
    \<Rightarrow> directory \<times> (people_error + person)" where
  "set_roles ask may conn now i roles db =
     (case locked_user i db of
        None \<Rightarrow> (db, Inl PersonNotFound)
      | Some u \<Rightarrow>
          let want = canonical_roles roles; was = pn_roles u
          in if was = want then (db, Inr u)
             else case ask db of
               None \<Rightarrow> (db, Inl PortFailed)
             | Some administering \<Rightarrow>
                 let added = added_administering administering was want
                 in if added \<noteq> [] \<and> may = None then (db, Inl (PersonInvalid GrantUndecided))
                    else if added \<noteq> [] \<and> may = Some False then (db, Inl (PersonInvalid (Ungrantable (hd added))))
                    else case floor_check ask conn ''roles'' u (Some (u\<lparr>pn_roles := want\<rparr>)) db of
                      (evs, Some e) \<Rightarrow> (publish_person evs db, Inl e)
                    | (_, None) \<Rightarrow> saved (crud_update now copy_roles (u\<lparr>pn_roles := want\<rparr>) db)
                        (\<lambda>u. [EvRolesSet (pn_id u) was want]) db)"

definition deactivate :: "(directory \<Rightarrow> string list option) \<Rightarrow> bool \<Rightarrow> time \<Rightarrow> uuid \<Rightarrow> directory \<Rightarrow> directory \<times> (people_error + person)" where
  "deactivate ask conn now i db =
     (case locked_user i db of
        None \<Rightarrow> (db, Inl PersonNotFound)
      | Some u \<Rightarrow>
          if pn_status u = status_inactive then (db, Inr u)
          else case floor_check ask conn ''status'' u (Some (u\<lparr>pn_status := status_inactive\<rparr>)) db of
            (evs, Some e) \<Rightarrow> (publish_person evs db, Inl e)
          | (_, None) \<Rightarrow> saved (crud_update now copy_status (u\<lparr>pn_status := status_inactive\<rparr>) db) (\<lambda>u. [EvDeactivated (pn_id u)]) db)"

definition reactivate :: "time \<Rightarrow> uuid \<Rightarrow> directory \<Rightarrow> directory \<times> (people_error + person)" where
  "reactivate now i db =
     (case locked_user i db of
        None \<Rightarrow> (db, Inl PersonNotFound)
      | Some u \<Rightarrow>
          if pn_status u = status_active then (db, Inr u)
          else if pn_status u \<noteq> status_inactive then (db, Inl (PersonConflict StoodDownOnly))
          else saved (crud_update now copy_status (u\<lparr>pn_status := status_active\<rparr>) db) (\<lambda>u. [EvReactivated (pn_id u)]) db)"

definition set_handle :: "time \<Rightarrow> uuid \<Rightarrow> string \<Rightarrow> directory \<Rightarrow> directory \<times> (people_error + person)" where
  "set_handle now i handle db =
     (case get_person i db of
        None \<Rightarrow> (db, Inl PersonNotFound)
      | Some u \<Rightarrow>
          let want = folded handle
          in if want = '''' then (db, Inl (PersonInvalid EmptyHandle))
             else if pn_handle u = want then (db, Inr u)
             else if reserved_handle want then (db, Inl (PersonInvalid ReservedHandle))
             else if (case by_handle want db of Some t \<Rightarrow> pn_id t \<noteq> pn_id u | None \<Rightarrow> False) then (db, Inl (PersonConflict HandleTaken))
             else saved (crud_update now copy_handle (u\<lparr>pn_handle := want\<rparr>) db) (\<lambda>v. [EvHandleSet (pn_id v) (pn_handle u) want]) db)"

definition holders :: "string list \<Rightarrow> directory \<Rightarrow> uuid list" where
  "holders roles db =
     (if roles = [] then []
      else sort (map pn_id (filter (\<lambda>u. shown u \<and> pn_status u = status_active \<and> list_ex (\<lambda>r. r \<in> set roles) (pn_roles u)) (dr_people db))))"

text \<open>From a transaction of no tenant: a database error is not classified.\<close>

definition provision :: "(string \<Rightarrow> string) \<Rightarrow> uuid \<Rightarrow> time \<Rightarrow> string \<Rightarrow> string \<Rightarrow> string \<Rightarrow> string list \<Rightarrow> directory
    \<Rightarrow> directory \<times> (people_error + person)" where
  "provision enc new now email display pw roles db =
     (case (if pw = '''' then Inr '''' else hash_password enc pw) of
        Inl w \<Rightarrow> (db, Inl (PersonInvalid w))
      | Inr h \<Rightarrow>
          (case validate_person \<lparr>pn_id = new, pn_created = now, pn_updated = now, pn_deleted = None, pn_email = email, pn_display = display,
              pn_handle = '''', pn_status = (if pw = '''' then status_invited else status_active), pn_roles = canonical_roles roles, pn_hash = h\<rparr> of
             Inl w \<Rightarrow> (db, Inl (PersonInvalid w))
           | Inr u \<Rightarrow>
               (case insert_person u db of
                  Inl _ \<Rightarrow> (db, Inl StoreFailed)
                | Inr db' \<Rightarrow> (publish_person [EvInvited (pn_id u) (pn_email u) (pn_status u)] db', Inr u))))"

subsection \<open>Registrations\<close>

record registration =
  rg_email :: string
  rg_display :: string
  rg_password :: string
  rg_roles :: "string list"

text \<open>The insert does nothing when the address is held; any other key it breaks is an error.\<close>

definition register_password :: "(string \<Rightarrow> string) \<Rightarrow> uuid \<Rightarrow> time \<Rightarrow> registration \<Rightarrow> string \<Rightarrow> directory
    \<Rightarrow> people_error + (directory \<times> person)" where
  "register_password enc new now reg status db =
     (case validate_person (blank_person\<lparr>pn_email := rg_email reg, pn_display := rg_display reg, pn_status := status,
          pn_roles := canonical_roles (rg_roles reg)\<rparr>) of
        Inl w \<Rightarrow> Inl (PersonInvalid w)
      | Inr u \<Rightarrow>
          (case hash_password enc (rg_password reg) of
             Inl w \<Rightarrow> Inl (PersonInvalid w)
           | Inr h \<Rightarrow>
               let row = u\<lparr>pn_hash := h, pn_id := new, pn_created := now, pn_updated := now\<rparr>
               in case insert_person row db of
                    Inl UniqueEmail \<Rightarrow> Inl (PersonConflict RegistrationExists)
                  | Inl w \<Rightarrow> Inl (PersonConflict w)
                  | Inr db' \<Rightarrow> Inr (db', row)))"

definition register_pending :: "(string \<Rightarrow> string) \<Rightarrow> uuid \<Rightarrow> time \<Rightarrow> registration \<Rightarrow> directory \<Rightarrow> directory \<times> (people_error + person)" where
  "register_pending enc new now reg db =
     saved (register_password enc new now reg status_pending db) (\<lambda>u. [EvRegistrationPending (pn_id u)]) db"

definition register_unverified :: "(string \<Rightarrow> string) \<Rightarrow> uuid \<Rightarrow> time \<Rightarrow> registration \<Rightarrow> directory \<Rightarrow> directory \<times> (people_error + person)" where
  "register_unverified enc new now reg db =
     saved (register_password enc new now reg status_unverified db) (\<lambda>u. [EvRegistrationUnverified (pn_id u) (pn_email u)]) db"

definition verify_email :: "time \<Rightarrow> uuid \<Rightarrow> string \<Rightarrow> directory \<Rightarrow> directory \<times> (people_error + person)" where
  "verify_email now i expected db =
     (case locked_user i db of
        None \<Rightarrow> (db, Inl PersonNotFound)
      | Some u \<Rightarrow>
          if pn_status u \<noteq> status_unverified \<or> pn_hash u = '''' \<or> pn_email u \<noteq> folded expected then (db, Inl (PersonConflict NotUnverified))
          else saved (crud_update now copy_status (u\<lparr>pn_status := status_active\<rparr>) db) (\<lambda>u. [EvEmailVerified (pn_id u) (pn_email u)]) db)"

definition confirm_address :: "time \<Rightarrow> uuid \<Rightarrow> string \<Rightarrow> directory \<Rightarrow> directory \<times> (people_error + person)" where
  "confirm_address now i expected db =
     (case locked_user i db of
        None \<Rightarrow> (db, Inl PersonNotFound)
      | Some u \<Rightarrow>
          if pn_email u \<noteq> folded expected then (db, Inl (PersonConflict OtherAddress))
          else if pn_status u = status_active then (db, Inr u)
          else if pn_status u \<noteq> status_invited \<and> pn_status u \<noteq> status_unverified then (db, Inl (PersonConflict NotConfirmable))
          else saved (crud_update now copy_status (u\<lparr>pn_status := status_active\<rparr>) db) (\<lambda>u. [EvEmailVerified (pn_id u) (pn_email u)]) db)"

definition approve_conflict :: "person \<Rightarrow> why_conflict" where
  "approve_conflict u = (if pn_status u = status_invited then StillInvited else NotPending)"

definition approve_registration :: "time \<Rightarrow> uuid \<Rightarrow> uuid \<Rightarrow> directory \<Rightarrow> directory \<times> (people_error + person)" where
  "approve_registration now i actor db =
     (if actor = uuid_nil then (db, Inl (PersonInvalid NoActor))
      else case locked_user i db of
        None \<Rightarrow> (db, Inl PersonNotFound)
      | Some u \<Rightarrow>
          if pn_status u = status_active then (db, Inr u)
          else if pn_status u \<noteq> status_pending \<or> pn_hash u = '''' then (db, Inl (PersonConflict (approve_conflict u)))
          else saved (crud_update now copy_status (u\<lparr>pn_status := status_active\<rparr>) db) (\<lambda>u. [EvRegistrationApproved (pn_id u) actor]) db)"

definition default_limit :: nat where "default_limit = 50"
definition max_limit :: int where "max_limit = 200"

text \<open>Oldest first, then by identifier.\<close>

definition pending_registrations :: "int \<Rightarrow> int \<Rightarrow> directory \<Rightarrow> people_error + (person list \<times> nat)" where
  "pending_registrations limit offset db =
     (if limit < 0 \<or> limit > max_limit \<or> offset < 0 then Inl (PersonInvalid PageBounds)
      else (let rows = sort_key pn_created (sort_key pn_id (filter (\<lambda>u. shown u \<and> pn_status u = status_pending) (dr_people db)))
            in Inr (take (if limit = 0 then default_limit else nat limit) (drop (nat offset) rows), length rows)))"

subsection \<open>The collection's doors and the erasure\<close>

text \<open>
  \<open>POST /users\<close>: the generated create with \<open>refuseLifecycleOnCreate\<close> behind it; a body carries no hash.
  A body that names an immutable field is refused before it (\<open>kit/rest\<close>); the model lets it come as far
  as the hook, which allows more calls than the door does.
  \<open>PATCH\<close> reaches the address and the name, status, roles and handle being immutable there.
\<close>

definition create_person :: "uuid \<Rightarrow> time \<Rightarrow> person \<Rightarrow> directory \<Rightarrow> directory \<times> (people_error + person)" where
  "create_person new now p db =
     (case crud_create new now (p\<lparr>pn_hash := ''''\<rparr>) db of
        Inl e \<Rightarrow> (db, Inl e)
      | Inr (db', u) \<Rightarrow>
          if pn_status u = status_pending \<or> pn_status u = status_unverified then (db, Inl (PersonInvalid RegistrationOnCreate))
          else if pn_status u \<noteq> status_invited then (db, Inl (PersonInvalid StatusOnCreate))
          else if pn_roles u \<noteq> [] then (db, Inl (PersonInvalid RolesOnCreate))
          else (publish_person [EvPersonCreated (pn_id u), EvInvited (pn_id u) (pn_email u) (pn_status u)] db', Inr u))"

definition patch_person :: "time \<Rightarrow> uuid \<Rightarrow> string option \<Rightarrow> string option \<Rightarrow> directory \<Rightarrow> directory \<times> (people_error + person)" where
  "patch_person now i email display db =
     (case get_person i db of
        None \<Rightarrow> (db, Inl PersonNotFound)
      | Some u \<Rightarrow>
          saved (crud_update now copy_profile (u\<lparr>pn_email := (case email of None \<Rightarrow> pn_email u | Some e \<Rightarrow> e),
              pn_display := (case display of None \<Rightarrow> pn_display u | Some d \<Rightarrow> d)\<rparr>) db) (\<lambda>u. [EvPersonUpdated (pn_id u)]) db)"

text \<open>\<open>DELETE /users/{id}\<close>: the row is stamped before the hook asks about it as it was read.\<close>

definition refuse_last_administrator :: "(directory \<Rightarrow> string list option) \<Rightarrow> bool \<Rightarrow> person \<Rightarrow> directory
    \<Rightarrow> people_event list \<times> people_error option" where
  "refuse_last_administrator ask conn u db = floor_check ask conn ''delete'' u None db"

definition delete_person :: "(directory \<Rightarrow> string list option) \<Rightarrow> bool \<Rightarrow> time \<Rightarrow> uuid \<Rightarrow> directory \<Rightarrow> directory \<times> (people_error + person)" where
  "delete_person ask conn now i db =
     (case get_person i db of
        None \<Rightarrow> (db, Inl PersonNotFound)
      | Some u \<Rightarrow>
          let gone = replace_person (u\<lparr>pn_deleted := Some now\<rparr>) db
          in case refuse_last_administrator ask conn u gone of
               (evs, Some e) \<Rightarrow> (publish_person evs db, Inl e)
             | (_, None) \<Rightarrow> (publish_person [EvPersonDeleted i] gone, Inr u))"

definition erased_email :: "(uuid \<Rightarrow> string) \<Rightarrow> uuid \<Rightarrow> string" where
  "erased_email us i = ''erased-'' @ us i @ ''@erased.invalid''"

text \<open>The erasure of a person, hidden or not; \<open>False\<close> when there was no row.\<close>

definition erase_person :: "(uuid \<Rightarrow> string) \<Rightarrow> (directory \<Rightarrow> string list option) \<Rightarrow> bool \<Rightarrow> time \<Rightarrow> uuid \<Rightarrow> directory
    \<Rightarrow> directory \<times> (people_error + bool)" where
  "erase_person us ask conn now i db =
     (case retained i db of
        None \<Rightarrow> (db, Inr False)
      | Some u \<Rightarrow>
          (case refuse_last_administrator ask conn u db of
             (evs, Some e) \<Rightarrow> (publish_person evs db, Inl e)
           | (_, None) \<Rightarrow>
               let row = u\<lparr>pn_email := erased_email us i, pn_display := '''', pn_handle := '''', pn_hash := '''', pn_roles := [], pn_updated := now\<rparr>
               in case unique_violation (others_of i db) row of
                    Some _ \<Rightarrow> (db, Inl StoreFailed)
                  | None \<Rightarrow> (replace_person row db, Inr True)))"

end
