(* ===== verification/AuthRoles.thy ===== *)
theory AuthRoles
  imports PeopleService
begin

section \<open>The roles of a tenant\<close>

text \<open>
  \<open>modules/auth\<close>: what a role grants (\<open>contracts/grants.go\<close>, \<open>contracts/roles.go\<close>), its writes under the
  tenant's administration lock (\<open>internal/roles.go\<close>), the roles a tenant is created with and their repair
  (\<open>internal/seed.go\<close>, \<open>internal/repair.go\<close>), and the answer to the user module's port
  (\<open>internal/administration.go\<close>).  The tables are those of \<open>PeopleService\<close>; the lock makes a write one step.
\<close>

subsection \<open>Grants\<close>

record grant =
  gt_permission :: string
  gt_operator :: bool

definition wildcard :: string where "wildcard = ''*''"
definition permission_role_manage :: string where "permission_role_manage = ''role:manage''"
definition role_admin :: string where "role_admin = ''admin''"
definition role_member :: string where "role_member = ''member''"
definition max_role_name :: nat where "max_role_name = 64"

definition role_manage :: grant where
  "role_manage = \<lparr>gt_permission = permission_role_manage, gt_operator = False\<rparr>"

definition grant_match :: "string list \<Rightarrow> grant \<Rightarrow> bool" where
  "grant_match held want \<longleftrightarrow> gt_permission want \<in> set held \<or> \<not> gt_operator want \<and> wildcard \<in> set held"

record principal =
  pr_user :: uuid
  pr_roles :: "string list"
  pr_permissions :: "string list option"

definition no_principal :: principal where
  "no_principal = \<lparr>pr_user = uuid_nil, pr_roles = [], pr_permissions = None\<rparr>"

datatype grant_error = BlankGrant | NoReader | ReaderFailed | NoLiveTenant

definition grant_decide :: "principal \<Rightarrow> grant \<Rightarrow> (string list \<Rightarrow> grant_error + string list) option \<Rightarrow> grant_error + bool" where
  "grant_decide p want permissions =
     (if trim_space (gt_permission want) = '''' then Inl BlankGrant
      else if pr_user p = uuid_nil then Inr False
      else case pr_permissions p of
        Some held \<Rightarrow> Inr (grant_match held want)
      | None \<Rightarrow>
          if pr_roles p = [] then Inr False
          else (case permissions of
             None \<Rightarrow> Inl NoReader
           | Some reader \<Rightarrow> (case reader (pr_roles p) of Inl e \<Rightarrow> Inl e | Inr held \<Rightarrow> Inr (grant_match held want))))"

text \<open>\<open>live\<close>: the transaction is a tenant's and the context names no other tenant.\<close>

definition role_permissions :: "bool \<Rightarrow> directory \<Rightarrow> string list \<Rightarrow> grant_error + string list" where
  "role_permissions live db names =
     (if names = [] then Inr []
      else if \<not> live then Inl NoLiveTenant
      else Inr (rev (remdups (rev (concat (map ro_grants (filter (\<lambda>r. ro_name r \<in> set names) (dr_roles db))))))))"

definition grant_allowed :: "bool \<Rightarrow> bool \<Rightarrow> principal \<Rightarrow> grant \<Rightarrow> directory \<Rightarrow> grant_error + bool" where
  "grant_allowed live operator_tenant p want db =
     (if \<not> live then Inl NoLiveTenant
      else grant_decide (if gt_operator want \<and> \<not> operator_tenant then no_principal else p) want (Some (role_permissions live db)))"

subsection \<open>What a role may be\<close>

definition valid_role_name :: "string \<Rightarrow> why_invalid + string" where
  "valid_role_name name =
     (let n = folded name
      in if \<not> role_pattern n then Inl RoleNameForm
         else if length n > max_role_name then Inl LongRoleName else Inr n)"

fun checked_from :: "grant list \<Rightarrow> bool \<Rightarrow> string list \<Rightarrow> string list \<Rightarrow> why_invalid + string list" where
  "checked_from declared operator_tenant out [] = Inr (sort out)"
| "checked_from declared operator_tenant out (q # qs) =
     (let p = folded q
      in if p = '''' \<or> p \<in> set out then checked_from declared operator_tenant out qs
         else if p = wildcard then checked_from declared operator_tenant (out @ [p]) qs
         else case List.find (\<lambda>g. gt_permission g = p) declared of
                None \<Rightarrow> Inl (NoSuchPermission p)
              | Some g \<Rightarrow> if gt_operator g \<and> \<not> operator_tenant then Inl (OperatorsOwn p)
                          else checked_from declared operator_tenant (out @ [p]) qs)"

definition checked_permissions :: "string list \<Rightarrow> grant list \<Rightarrow> bool \<Rightarrow> why_invalid + string list" where
  "checked_permissions permissions declared operator_tenant = checked_from declared operator_tenant [] permissions"

definition operator_grants :: "grant list \<Rightarrow> string list" where
  "operator_grants declared = sort (map gt_permission (filter gt_operator declared))"

subsection \<open>The roles a tenant begins with\<close>

definition initial_refused :: "string list \<Rightarrow> role \<Rightarrow> string option" where
  "initial_refused operator r =
     map_option folded (List.find (\<lambda>p. folded p = wildcard \<or> folded p \<in> set operator) (ro_grants r))"

fun seeded_from :: "grant list \<Rightarrow> bool \<Rightarrow> string list \<Rightarrow> role list \<Rightarrow> role list \<Rightarrow> why_invalid + role list" where
  "seeded_from declared operator_tenant seen roles [] = Inr (sort_key ro_name roles)"
| "seeded_from declared operator_tenant seen roles (d # defaults) =
     (case valid_role_name (ro_name d) of
        Inl w \<Rightarrow> Inl w
      | Inr name \<Rightarrow>
          if name \<in> set seen then Inl (ReservedInitial name)
          else case initial_refused (operator_grants declared) d of
            Some p \<Rightarrow> Inl (InitialCannotGrant name p)
          | None \<Rightarrow>
              (case checked_permissions (ro_grants d) declared operator_tenant of
                 Inl w \<Rightarrow> Inl w
               | Inr [] \<Rightarrow> Inl (GrantsNothing name)
               | Inr grants \<Rightarrow>
                   seeded_from declared operator_tenant (name # seen)
                     (filter (\<lambda>r. ro_name r \<noteq> name) roles @ [\<lparr>ro_name = name, ro_grants = grants\<rparr>]) defaults))"

definition seeded_roles :: "grant list \<Rightarrow> role list \<Rightarrow> bool \<Rightarrow> why_invalid + role list" where
  "seeded_roles declared defaults operator_tenant =
     seeded_from declared operator_tenant [role_admin]
       [\<lparr>ro_name = role_admin, ro_grants = wildcard # (if operator_tenant then operator_grants declared else [])\<rparr>,
        \<lparr>ro_name = role_member, ro_grants = []\<rparr>] defaults"

definition insert_role :: "role \<Rightarrow> directory \<Rightarrow> directory" where
  "insert_role r db = (if list_ex (\<lambda>x. ro_name x = ro_name r) (dr_roles db) then db else db\<lparr>dr_roles := dr_roles db @ [r]\<rparr>)"

definition seed_roles :: "grant list \<Rightarrow> role list \<Rightarrow> bool \<Rightarrow> directory \<Rightarrow> directory \<times> (people_error + unit)" where
  "seed_roles declared defaults operator_tenant db =
     (case seeded_roles declared defaults operator_tenant of
        Inl w \<Rightarrow> (db, Inl (PersonInvalid w))
      | Inr roles \<Rightarrow> (fold insert_role roles db, Inr ()))"

subsection \<open>Writing a role\<close>

definition roles_by_name :: "directory \<Rightarrow> role list" where
  "roles_by_name db = sort_key ro_name (dr_roles db)"

definition administering_roles :: "directory \<Rightarrow> string list" where
  "administering_roles db = map ro_name (filter (\<lambda>r. grant_match (ro_grants r) role_manage) (roles_by_name db))"

definition administering_port :: "bool \<Rightarrow> directory \<Rightarrow> string list option" where
  "administering_port live db = (if live then Some (administering_roles db) else None)"

text \<open>Whether the write of \<open>want\<close> under \<open>name\<close>, which granted \<open>was\<close>, is refused.\<close>

definition role_write_refused :: "string \<Rightarrow> string list \<Rightarrow> string list \<Rightarrow> directory \<Rightarrow> bool" where
  "role_write_refused name was want db =
     (if \<not> grant_match was role_manage \<or> grant_match want role_manage then False
      else let before = administering_roles db;
               after = map ro_name (filter (\<lambda>r. grant_match (if ro_name r = name then want else ro_grants r) role_manage) (roles_by_name db))
           in administration_refused (holders before db) (holders after db) (after = []))"

definition upsert_role :: "role \<Rightarrow> role list \<Rightarrow> role list" where
  "upsert_role r rs = (if list_ex (\<lambda>x. ro_name x = ro_name r) rs then map (\<lambda>x. if ro_name x = ro_name r then r else x) rs else rs @ [r])"

definition set_role_changed :: "grant list \<Rightarrow> bool \<Rightarrow> bool \<Rightarrow> string \<Rightarrow> string list \<Rightarrow> directory \<Rightarrow> directory \<times> (people_error + (role \<times> bool))" where
  "set_role_changed declared operator_tenant conn name permissions db =
     (case valid_role_name name of
        Inl w \<Rightarrow> (db, Inl (PersonInvalid w))
      | Inr n \<Rightarrow>
          (case checked_permissions permissions declared operator_tenant of
             Inl w \<Rightarrow> (db, Inl (PersonInvalid w))
           | Inr want \<Rightarrow>
               let stored = List.find (\<lambda>r. ro_name r = n) (dr_roles db);
                   was = (case stored of None \<Rightarrow> [] | Some r \<Rightarrow> ro_grants r)
               in if stored = Some \<lparr>ro_name = n, ro_grants = want\<rparr> then (db, Inr (\<lparr>ro_name = n, ro_grants = want\<rparr>, False))
                  else if role_write_refused n was want db
                  then (publish_person (if conn then [EvRoleRefused n was want] else []) db, Inl (PersonInvalid LastAdministrator))
                  else (publish_person [EvRoleSet n was want] (db\<lparr>dr_roles := upsert_role \<lparr>ro_name = n, ro_grants = want\<rparr> (dr_roles db)\<rparr>),
                        Inr (\<lparr>ro_name = n, ro_grants = want\<rparr>, True))))"

subsection \<open>Repairing what the seeder wrote\<close>

definition undeclared :: "grant list \<Rightarrow> role \<Rightarrow> string list" where
  "undeclared declared r = filter (\<lambda>p. p \<noteq> wildcard \<and> \<not> list_ex (\<lambda>g. gt_permission g = p) declared) (ro_grants r)"

definition seeded_grants :: "role \<Rightarrow> string list \<Rightarrow> role list \<Rightarrow> bool \<Rightarrow> string list" where
  "seeded_grants r gone defaults operator_tenant =
     (if ro_name r = role_admin then (if \<not> operator_tenant \<or> wildcard \<notin> set (ro_grants r) then [] else gone)
      else case List.find (\<lambda>d. valid_role_name (ro_name d) = Inr (ro_name r)) defaults of
        None \<Rightarrow> []
      | Some d \<Rightarrow> filter (\<lambda>p. list_ex (\<lambda>n. folded n = p) (ro_grants d)) gone)"

definition repairs_found :: "grant list \<Rightarrow> role list \<Rightarrow> bool \<Rightarrow> directory \<Rightarrow> (string \<times> string list) list" where
  "repairs_found declared defaults operator_tenant db =
     [(ro_name r, seeded_grants r (undeclared declared r) defaults operator_tenant). r \<leftarrow> roles_by_name db,
        seeded_grants r (undeclared declared r) defaults operator_tenant \<noteq> []
        \<and> length (seeded_grants r (undeclared declared r) defaults operator_tenant) = length (undeclared declared r)]"

fun repair_each :: "grant list \<Rightarrow> bool \<Rightarrow> bool \<Rightarrow> (string \<times> string list) list \<Rightarrow> role list \<Rightarrow> directory
    \<Rightarrow> directory \<times> (people_error + (string \<times> string list) list)" where
  "repair_each declared operator_tenant conn found [] db = (db, Inr [])"
| "repair_each declared operator_tenant conn found (r # held) db =
     (case map_of found (ro_name r) of
        None \<Rightarrow> repair_each declared operator_tenant conn found held db
      | Some gone \<Rightarrow>
          (case set_role_changed declared operator_tenant conn (ro_name r) (filter (\<lambda>p. p \<notin> set gone) (ro_grants r)) db of
             (db', Inl e) \<Rightarrow> (db', Inl e)
           | (db', Inr (_, wrote)) \<Rightarrow>
               (case repair_each declared operator_tenant conn found held db' of
                  (db'', Inl e) \<Rightarrow> (db'', Inl e)
                | (db'', Inr done) \<Rightarrow> (db'', Inr (if wrote then (ro_name r, gone) # done else done)))))"

text \<open>An error rolls the transaction back, save for the refusals recorded outside it.\<close>

definition repair_seeded_roles :: "grant list \<Rightarrow> role list \<Rightarrow> bool \<Rightarrow> bool \<Rightarrow> bool \<Rightarrow> directory
    \<Rightarrow> directory \<times> (people_error + (string \<times> string list) list)" where
  "repair_seeded_roles declared defaults operator_tenant conn remove db =
     (let found = repairs_found declared defaults operator_tenant db
      in if \<not> remove then (db, Inr found)
         else case repair_each declared operator_tenant conn found (roles_by_name db) db of
                (db', Inr done) \<Rightarrow> (db', Inr done)
              | (db', Inl e) \<Rightarrow> (publish_person (filter (\<lambda>ev. case ev of EvRoleRefused _ _ _ \<Rightarrow> True | _ \<Rightarrow> False) (drop (length (dr_log db)) (dr_log db'))) db, Inl e))"

end
