(* ===== verification/Administration.thy ===== *)
theory Administration
  imports AuthRoles
begin

section \<open>A tenant's directory and who can administer it\<close>

text \<open>
  The steps a tenant's people and roles take: every door of the user module and of the role routes,
  refused or not, in any order.  \<open>directory_ok\<close> says the rows are what their own rules ask; the locale
  \<open>administration_port\<close> is what the user module's floor relies on, interpreted on the auth module's
  answer; \<open>administered\<close> says somebody can sign in and administer the tenant.
\<close>

subsection \<open>Folding\<close>

lemma lower_space [simp]: "ascii_space (ascii_lower c) = ascii_space c"
  by (auto simp: ascii_space_def ascii_lower_def)

lemma lower_idem [simp]: "ascii_lower (ascii_lower c) = ascii_lower c"
  by (auto simp: ascii_lower_def)

lemma dropWhile_lower: "dropWhile ascii_space (map ascii_lower s) = map ascii_lower (dropWhile ascii_space s)"
  by (induction s) auto

lemma trim_lower: "trim_space (map ascii_lower s) = map ascii_lower (trim_space s)"
  by (simp add: trim_space_def dropWhile_lower rev_map)

lemma dropWhile_rev_dropWhile: "dropWhile P (rev (dropWhile P (rev (dropWhile P s)))) = rev (dropWhile P (rev (dropWhile P s)))"
proof (cases "dropWhile P s")
  case (Cons x xs)
  then have x: "\<not> P x" by (metis hd_dropWhile list.discI list.sel(1))
  have "dropWhile P (rev xs @ [x]) = dropWhile P (rev xs) @ [x] \<or> dropWhile P (rev xs @ [x]) = [x]"
    using x by (induction xs rule: rev_induct) auto
  with x Cons show ?thesis by auto
next
  case Nil
  show ?thesis by (simp only: Nil rev.simps dropWhile.simps)
qed

lemma trim_idem [simp]: "trim_space (trim_space s) = trim_space s"
  by (simp add: trim_space_def dropWhile_rev_dropWhile dropWhile_idem)

lemma folded_idem [simp]: "folded (folded s) = folded s"
  by (simp add: folded_def trim_lower)

lemma lower_folded [simp]: "map ascii_lower (folded s) = folded s"
  by (simp add: folded_def)

subsection \<open>Rows that pass their own rules\<close>

definition email_ok :: "string \<Rightarrow> bool" where
  "email_ok e \<longleftrightarrow> folded e = e \<and> e \<noteq> '''' \<and> 0 < at_index e \<and> at_index e \<noteq> int (length e) - 1
     \<and> \<not> list_ex email_blank e \<and> length e \<le> 320"

definition handle_ok :: "string \<Rightarrow> bool" where
  "handle_ok h \<longleftrightarrow> h = '''' \<or> folded h = h \<and> handle_form h \<and> \<not> reserved_handle h"

definition hash_ok :: "string \<Rightarrow> bool" where
  "hash_ok h \<longleftrightarrow> h = '''' \<or> prefix ''$argon2id$'' h"

definition person_ok :: "person \<Rightarrow> bool" where
  "person_ok u \<longleftrightarrow> email_ok (pn_email u) \<and> trim_space (pn_display u) = pn_display u \<and> handle_ok (pn_handle u)
     \<and> pn_status u \<in> set statuses \<and> list_all role_pattern (pn_roles u) \<and> sorted (pn_roles u) \<and> distinct (pn_roles u) \<and> hash_ok (pn_hash u)"

definition role_ok :: "role \<Rightarrow> bool" where
  "role_ok r \<longleftrightarrow> valid_role_name (ro_name r) = Inr (ro_name r)"

definition apart :: "person list \<Rightarrow> bool" where
  "apart people \<longleftrightarrow> (\<forall>u \<in> set people. \<forall>v \<in> set people. pn_id u \<noteq> pn_id v \<longrightarrow> \<not> same_email u v \<and> \<not> same_handle u v)"

definition directory_ok :: "directory \<Rightarrow> bool" where
  "directory_ok db \<longleftrightarrow> distinct (map pn_id (dr_people db)) \<and> distinct (map ro_name (dr_roles db))
     \<and> list_all person_ok (dr_people db) \<and> list_all role_ok (dr_roles db) \<and> apart (dr_people db)"

lemma publish_simps [simp]:
  "dr_people (publish_person evs db) = dr_people db" "dr_roles (publish_person evs db) = dr_roles db"
  "dr_log (publish_person evs db) = dr_log db @ evs"
  "directory_ok (publish_person evs db) = directory_ok db"
  by (simp_all add: publish_person_def directory_ok_def)

lemma replace_simps [simp]:
  "dr_roles (replace_person u db) = dr_roles db" "dr_log (replace_person u db) = dr_log db"
  "map pn_id (dr_people (replace_person u db)) = map pn_id (dr_people db)"
  by (auto simp: replace_person_def)

lemma got_person:
  "get_person i db = Some u \<Longrightarrow> u \<in> set (dr_people db) \<and> pn_id u = i \<and> pn_deleted u = None"
  "locked_user i db = Some u \<Longrightarrow> u \<in> set (dr_people db) \<and> pn_id u = i \<and> pn_deleted u = None"
  "retained i db = Some u \<Longrightarrow> u \<in> set (dr_people db) \<and> pn_id u = i"
  by (auto simp: get_person_def locked_user_def retained_def shown_def dest: find_SomeD)

lemma one_row: "directory_ok db \<Longrightarrow> u \<in> set (dr_people db) \<Longrightarrow> v \<in> set (dr_people db) \<Longrightarrow> pn_id u = pn_id v \<Longrightarrow> u = v"
  by (auto simp: directory_ok_def distinct_map dest: inj_onD)

lemma replaced_rows:
  assumes "directory_ok db" "u \<in> set (dr_people db)" "pn_id u' = pn_id u"
  shows "set (dr_people (replace_person u' db)) = insert u' (set (others_of (pn_id u) db))"
  using assms one_row [OF assms(1,2)] by (auto simp: replace_person_def others_of_def image_iff split: if_splits)

lemma others_rows: "v \<in> set (others_of i db) \<longleftrightarrow> v \<in> set (dr_people db) \<and> pn_id v \<noteq> i"
  by (auto simp: others_of_def)

lemma same_sym: "same_email u v = same_email v u" "same_handle u v = same_handle v u"
  by (auto simp: same_email_def same_handle_def)

lemma unique_violation_None: "unique_violation others u = None \<longleftrightarrow> (\<forall>v \<in> set others. \<not> same_email u v \<and> \<not> same_handle u v)"
  by (auto simp: unique_violation_def list_ex_iff)

lemma replace_ok:
  assumes ok: "directory_ok db" and u: "u \<in> set (dr_people db)" "pn_id u' = pn_id u"
    and p: "person_ok u'" and free: "unique_violation (others_of (pn_id u) db) u' = None"
  shows "directory_ok (replace_person u' db)"
proof -
  note rows = replaced_rows [OF ok u]
  have "list_all person_ok (dr_people (replace_person u' db))"
    using ok p by (auto simp: list_all_iff rows others_rows directory_ok_def)
  moreover have "apart (dr_people (replace_person u' db))"
    unfolding apart_def rows
  proof (intro ballI impI)
    fix x y
    assume xy: "x \<in> insert u' (set (others_of (pn_id u) db))" "y \<in> insert u' (set (others_of (pn_id u) db))" and n: "pn_id x \<noteq> pn_id y"
    consider "x = u'" "y \<in> set (others_of (pn_id u) db)" | "y = u'" "x \<in> set (others_of (pn_id u) db)"
      | "x \<in> set (dr_people db)" "y \<in> set (dr_people db)" using xy n by (auto simp: others_rows)
    then show "\<not> same_email x y \<and> \<not> same_handle x y"
      using free ok n by cases (auto simp: unique_violation_None same_sym directory_ok_def apart_def)
  qed
  ultimately show ?thesis using ok by (simp add: directory_ok_def)
qed

lemma insert_ok:
  assumes "directory_ok db" "insert_person u db = Inr db'" "person_ok u"
  shows "directory_ok db'"
proof -
  have db': "db' = db\<lparr>dr_people := dr_people db @ [u]\<rparr>" and new: "\<forall>v \<in> set (dr_people db). pn_id v \<noteq> pn_id u"
    and free: "unique_violation (dr_people db) u = None"
    using assms(2) by (auto simp: insert_person_def list_ex_iff split: if_splits option.splits)
  have "apart (dr_people db @ [u])"
    using assms(1) free by (auto simp: apart_def directory_ok_def unique_violation_None same_sym)
  with assms(1,3) new show ?thesis by (auto simp: directory_ok_def db' list_all_iff)
qed

subsection \<open>The entity's rules\<close>

lemma canonical_from_distinct: "distinct out \<Longrightarrow> distinct (canonical_from out roles)"
proof (induction roles arbitrary: out)
  case (Cons role roles)
  show ?case
  proof (cases "folded role \<noteq> [] \<and> folded role \<notin> set out")
    case True
    with Cons.prems have "distinct (out @ [folded role])" by simp
    from Cons.IH [OF this] True show ?thesis by (simp only: canonical_from.simps Let_def simp_thms if_True)
  next
    case False
    with Cons show ?thesis by (simp only: canonical_from.simps Let_def simp_thms if_False)
  qed
qed simp

lemma canonical_roles_sorted [simp]: "sorted (canonical_roles roles)" "distinct (canonical_roles roles)"
  by (simp_all add: canonical_roles_def canonical_from_distinct)

lemma validated_row:
  assumes "validate_person p = Inr u"
  shows "u = p\<lparr>pn_email := canonical_email (pn_email p), pn_display := trim_space (pn_display p),
      pn_status := (if pn_status p = '''' then status_invited else pn_status p), pn_handle := folded (pn_handle p)\<rparr>
    \<and> email_ok (canonical_email (pn_email p)) \<and> handle_ok (folded (pn_handle p)) \<and> pn_status u \<in> set statuses
    \<and> list_all role_pattern (pn_roles p)"
  using assms unfolding validate_person_def Let_def email_ok_def handle_ok_def
  by (simp add: canonical_email_def find_None_all not_le split: if_splits option.splits; auto)

lemma validated:
  assumes "validate_person p = Inr u"
  shows "pn_id u = pn_id p" "pn_deleted u = pn_deleted p" "pn_roles u = pn_roles p" "pn_hash u = pn_hash p"
    "pn_status u = (if pn_status p = '''' then status_invited else pn_status p)" "pn_status u \<in> set statuses"
    "email_ok (pn_email u)" "trim_space (pn_display u) = pn_display u" "handle_ok (pn_handle u)" "list_all role_pattern (pn_roles u)"
    "pn_handle u = folded (pn_handle p)" "pn_email u = canonical_email (pn_email p)"
  using validated_row [OF assms] by auto

lemma validated_ok: "validate_person p = Inr u \<Longrightarrow> sorted (pn_roles p) \<Longrightarrow> distinct (pn_roles p) \<Longrightarrow> hash_ok (pn_hash p) \<Longrightarrow> person_ok u"
  unfolding person_ok_def by (metis validated(3,4,6,7,8,9,10))

lemma hash_password_ok: "hash_password enc pw = Inr h \<Longrightarrow> hash_ok h \<and> h \<noteq> ''''"
  by (auto simp: hash_password_def hash_ok_def prefix_def split: if_splits)

lemma hash_ok_empty [simp]: "hash_ok ''''"
  by (simp add: hash_ok_def)

lemma person_ok_stamped [simp]:
  "person_ok (u\<lparr>pn_created := t\<rparr>) = person_ok u" "person_ok (u\<lparr>pn_updated := t\<rparr>) = person_ok u"
  "person_ok (u\<lparr>pn_id := i\<rparr>) = person_ok u" "person_ok (u\<lparr>pn_deleted := d\<rparr>) = person_ok u"
  by (simp_all add: person_ok_def)

subsection \<open>Creating and updating\<close>

definition good_copy :: "(person \<Rightarrow> person \<Rightarrow> person) \<Rightarrow> bool" where
  "good_copy copy \<longleftrightarrow> (\<forall>u row. pn_id (copy u row) = pn_id row \<and> pn_deleted (copy u row) = pn_deleted row
     \<and> (person_ok u \<longrightarrow> person_ok row \<longrightarrow> person_ok (copy u row)))"

lemma good_copies [simp]:
  "good_copy copy_status" "good_copy copy_password" "good_copy copy_roles" "good_copy copy_handle" "good_copy copy_profile"
  by (simp_all add: good_copy_def copy_defs person_ok_def)

lemma crud_create_row:
  assumes "crud_create new now p db = Inr (db', u)"
  shows "\<exists>v. validate_person (p\<lparr>pn_id := new, pn_deleted := None\<rparr>) = Inr v \<and> u = v\<lparr>pn_created := now, pn_updated := now\<rparr> \<and> insert_person u db = Inr db'"
  using assms by (auto simp: crud_create_def split: sum.splits)

lemma crud_create_ok:
  assumes "directory_ok db" "crud_create new now p db = Inr (db', u)" "sorted (pn_roles p)" "distinct (pn_roles p)" "hash_ok (pn_hash p)"
  shows "directory_ok db'"
proof -
  obtain v where v: "validate_person (p\<lparr>pn_id := new, pn_deleted := None\<rparr>) = Inr v" "u = v\<lparr>pn_created := now, pn_updated := now\<rparr>"
    "insert_person u db = Inr db'" using crud_create_row [OF assms(2)] by blast
  from validated_ok [OF v(1)] assms(3-5) have "person_ok u" by (simp add: v(2))
  from insert_ok [OF assms(1) v(3) this] show ?thesis .
qed

lemma crud_update_row:
  assumes "crud_update now copy p db = Inr (db', v)"
  obtains u row where "validate_person p = Inr u" "get_person (pn_id p) db = Some row"
    "db' = replace_person ((copy u row)\<lparr>pn_updated := now\<rparr>) db" "v = u\<lparr>pn_updated := now\<rparr>"
    "unique_violation (others_of (pn_id p) db) ((copy u row)\<lparr>pn_updated := now\<rparr>) = None"
proof -
  from assms obtain u where u: "validate_person p = Inr u" by (auto simp: crud_update_def split: sum.splits)
  from assms u obtain row where row: "get_person (pn_id u) db = Some row" by (auto simp: crud_update_def split: option.splits)
  from assms u row have "unique_violation (others_of (pn_id u) db) ((copy u row)\<lparr>pn_updated := now\<rparr>) = None"
    "db' = replace_person ((copy u row)\<lparr>pn_updated := now\<rparr>) db" "v = u\<lparr>pn_updated := now\<rparr>"
    by (auto simp: crud_update_def Let_def split: option.splits)
  with u row validated(1) [OF u] show ?thesis using that by simp
qed

lemma crud_update_ok:
  assumes "directory_ok db" "crud_update now copy p db = Inr (db', v)" "good_copy copy"
    "sorted (pn_roles p)" "distinct (pn_roles p)" "hash_ok (pn_hash p)"
  shows "directory_ok db'"
proof -
  obtain u row where u: "validate_person p = Inr u" "get_person (pn_id p) db = Some row"
    and db': "db' = replace_person ((copy u row)\<lparr>pn_updated := now\<rparr>) db"
    and free: "unique_violation (others_of (pn_id p) db) ((copy u row)\<lparr>pn_updated := now\<rparr>) = None"
    using assms(2) by (rule crud_update_row)
  note row = got_person(1) [OF u(2)]
  have "person_ok u" using validated_ok [OF u(1)] assms(4-6) by blast
  moreover have "person_ok row" using assms(1) row by (auto simp: directory_ok_def list_all_iff)
  ultimately have "person_ok ((copy u row)\<lparr>pn_updated := now\<rparr>)" using assms(3) by (simp add: good_copy_def)
  from replace_ok [OF assms(1) _ _ this, of row] row free assms(3) show ?thesis by (simp add: db' good_copy_def)
qed

lemma row_ok:
  assumes "directory_ok db" "u \<in> set (dr_people db)"
  shows "person_ok u" "sorted (pn_roles u)" "distinct (pn_roles u)" "hash_ok (pn_hash u)"
  using assms by (auto simp: directory_ok_def list_all_iff person_ok_def)

text \<open>What a command leaves: the tables as they were, or one update of one row.\<close>

definition same_tables :: "directory \<Rightarrow> directory \<Rightarrow> bool" where
  "same_tables db db' \<longleftrightarrow> dr_people db' = dr_people db \<and> dr_roles db' = dr_roles db"

definition updated_row :: "time \<Rightarrow> (person \<Rightarrow> person \<Rightarrow> person) \<Rightarrow> person \<Rightarrow> directory \<Rightarrow> directory \<Rightarrow> bool" where
  "updated_row now copy p db db' \<longleftrightarrow> (\<exists>d v. crud_update now copy p db = Inr (d, v) \<and> same_tables d db')"

lemma same_tables_refl [simp]: "same_tables db db" "same_tables db (publish_person evs db)"
  by (simp_all add: same_tables_def)

lemma directory_ok_same: "same_tables db db' \<Longrightarrow> directory_ok db' = directory_ok db"
  by (simp add: same_tables_def directory_ok_def)

lemma updated_row_ok:
  assumes "directory_ok db" "updated_row now copy p db db'" "good_copy copy" "sorted (pn_roles p)" "distinct (pn_roles p)" "hash_ok (pn_hash p)"
  shows "directory_ok db'"
  using assms crud_update_ok directory_ok_same unfolding updated_row_def by metis

definition command_leaves :: "(person \<Rightarrow> bool) \<Rightarrow> time \<Rightarrow> (person \<Rightarrow> person \<Rightarrow> person) \<Rightarrow> directory \<Rightarrow> directory \<Rightarrow> bool" where
  "command_leaves wanted_row now copy db db' \<longleftrightarrow> same_tables db db' \<or> (\<exists>p. wanted_row p \<and> updated_row now copy p db db')"

lemma leaves_same [simp]: "command_leaves wanted_row now copy db db" "command_leaves wanted_row now copy db (publish_person evs db)"
  by (simp_all add: command_leaves_def)

lemma leaves_saved: "wanted_row p \<Longrightarrow> command_leaves wanted_row now copy db (fst (saved (crud_update now copy p db) ev db))"
  by (cases "crud_update now copy p db") (auto simp: saved_def updated_row_def command_leaves_def)

lemma command_leaves_ok:
  assumes "directory_ok db" "command_leaves wanted_row now copy db db'" "good_copy copy"
    "\<And>p. wanted_row p \<Longrightarrow> sorted (pn_roles p) \<and> distinct (pn_roles p) \<and> hash_ok (pn_hash p)"
  shows "directory_ok db'"
  using assms updated_row_ok directory_ok_same unfolding command_leaves_def by metis

lemma set_password_leaves:
  "command_leaves (\<lambda>p. \<exists>u h. locked_user i db = Some u \<and> (pn_status u = status_invited \<or> pn_status u = status_active)
     \<and> hash_password enc pw = Inr h \<and> p = u\<lparr>pn_hash := h, pn_status := status_active\<rparr>) now copy_password db (fst (set_password enc now i pw db))"
  by (auto simp: set_password_def split: option.splits sum.splits intro: leaves_saved)

lemma set_roles_leaves:
  "command_leaves (\<lambda>p. \<exists>u evs. locked_user i db = Some u \<and> p = u\<lparr>pn_roles := canonical_roles roles\<rparr>
     \<and> floor_check ask conn ''roles'' u (Some p) db = (evs, None)) now copy_roles db (fst (set_roles ask may conn now i roles db))"
  by (auto simp: set_roles_def Let_def split: option.splits prod.splits intro: leaves_saved)

lemma deactivate_leaves:
  "command_leaves (\<lambda>p. \<exists>u evs. locked_user i db = Some u \<and> p = u\<lparr>pn_status := status_inactive\<rparr>
     \<and> floor_check ask conn ''status'' u (Some p) db = (evs, None)) now copy_status db (fst (deactivate ask conn now i db))"
  by (auto simp: deactivate_def split: option.splits prod.splits intro: leaves_saved)

lemma reactivate_leaves:
  "command_leaves (\<lambda>p. \<exists>u. locked_user i db = Some u \<and> pn_status u = status_inactive \<and> p = u\<lparr>pn_status := status_active\<rparr>)
     now copy_status db (fst (reactivate now i db))"
  by (auto simp: reactivate_def split: option.splits intro: leaves_saved)

lemma set_handle_leaves:
  "command_leaves (\<lambda>p. \<exists>u. get_person i db = Some u \<and> p = u\<lparr>pn_handle := folded h\<rparr>) now copy_handle db (fst (set_handle now i h db))"
  by (auto simp: set_handle_def Let_def split: option.splits intro: leaves_saved)

lemma verify_email_leaves:
  "command_leaves (\<lambda>p. \<exists>u. locked_user i db = Some u \<and> pn_status u = status_unverified \<and> pn_hash u \<noteq> '''' \<and> p = u\<lparr>pn_status := status_active\<rparr>)
     now copy_status db (fst (verify_email now i e db))"
  by (auto simp: verify_email_def split: option.splits intro: leaves_saved)

lemma confirm_address_leaves:
  "command_leaves (\<lambda>p. \<exists>u. locked_user i db = Some u \<and> (pn_status u = status_invited \<or> pn_status u = status_unverified)
     \<and> p = u\<lparr>pn_status := status_active\<rparr>) now copy_status db (fst (confirm_address now i e db))"
  by (auto simp: confirm_address_def split: option.splits intro: leaves_saved)

lemma approve_registration_leaves:
  "command_leaves (\<lambda>p. \<exists>u. locked_user i db = Some u \<and> pn_status u = status_pending \<and> pn_hash u \<noteq> '''' \<and> p = u\<lparr>pn_status := status_active\<rparr>)
     now copy_status db (fst (approve_registration now i actor db))"
  by (auto simp: approve_registration_def split: option.splits intro: leaves_saved)

lemma patch_person_leaves:
  "command_leaves (\<lambda>p. \<exists>u. get_person i db = Some u \<and> pn_id p = pn_id u \<and> pn_roles p = pn_roles u \<and> pn_hash p = pn_hash u) now copy_profile db
     (fst (patch_person now i email display db))"
  by (auto simp: patch_person_def split: option.splits intro: leaves_saved)

text \<open>The doors that add a row.\<close>

definition person_added :: "(person \<Rightarrow> bool) \<Rightarrow> directory \<Rightarrow> directory \<Rightarrow> bool" where
  "person_added wanted_row db db' \<longleftrightarrow> same_tables db db' \<or> (\<exists>u d. wanted_row u \<and> insert_person u db = Inr d \<and> same_tables d db')"

lemma added_same [simp]: "person_added wanted_row db db" "person_added wanted_row db (publish_person evs db)"
  by (simp_all add: person_added_def)

lemma added_row: "wanted_row u \<Longrightarrow> insert_person u db = Inr d \<Longrightarrow> person_added wanted_row db (publish_person evs d)"
  using same_tables_refl(2) unfolding person_added_def by blast

lemma added_ok:
  assumes "directory_ok db" "person_added wanted_row db db'" "\<And>u. wanted_row u \<Longrightarrow> person_ok u"
  shows "directory_ok db'"
  using assms insert_ok directory_ok_same unfolding person_added_def by metis

lemma created_added:
  assumes "crud_create new now p db = Inr (d, u)" "sorted (pn_roles p)" "distinct (pn_roles p)" "hash_ok (pn_hash p)"
  shows "person_ok u" "insert_person u db = Inr d" "pn_status u = (if pn_status p = '''' then status_invited else pn_status p)"
    "pn_roles u = pn_roles p" "pn_id u = new" "pn_hash u = pn_hash p"
proof -
  obtain v where v: "validate_person (p\<lparr>pn_id := new, pn_deleted := None\<rparr>) = Inr v" "u = v\<lparr>pn_created := now, pn_updated := now\<rparr>"
    "insert_person u db = Inr d" using crud_create_row [OF assms(1)] by blast
  from validated_ok [OF v(1)] assms(2-4) show "person_ok u" by (simp add: v(2))
  show "insert_person u db = Inr d" by (rule v(3))
  from validated(1,3,4,5) [OF v(1)]
  show "pn_status u = (if pn_status p = '''' then status_invited else pn_status p)" "pn_roles u = pn_roles p" "pn_id u = new" "pn_hash u = pn_hash p"
    by (simp_all add: v(2))
qed

lemma invite_adds: "person_added (\<lambda>u. person_ok u \<and> pn_status u = status_invited) db (fst (invite new now email display db))"
proof (cases "crud_create new now (blank_person\<lparr>pn_email := email, pn_display := display, pn_status := status_invited\<rparr>) db")
  case (Inr r)
  obtain d u where r: "r = (d, u)" by (cases r)
  have "person_ok u \<and> insert_person u db = Inr d \<and> pn_status u = status_invited"
    using created_added [OF Inr [unfolded r]] by (simp add: blank_person_def)
  then show ?thesis by (auto simp: invite_def saved_def Inr r person_added_def)
qed (simp add: invite_def saved_def)

lemma create_adds: "person_added (\<lambda>u. person_ok u \<and> pn_status u = status_invited) db (fst (create_person new now p db))"
proof (cases "crud_create new now (p\<lparr>pn_hash := ''''\<rparr>) db")
  case (Inr r)
  obtain d u where r: "r = (d, u)" by (cases r)
  show ?thesis
  proof (cases "pn_status u = status_invited \<and> pn_roles u = []")
    case True
    have "pn_roles p = []"
    proof -
      obtain v where "validate_person (p\<lparr>pn_hash := '''', pn_id := new, pn_deleted := None\<rparr>) = Inr v" "pn_roles u = pn_roles v"
        using crud_create_row [OF Inr [unfolded r]] by auto
      then show ?thesis using validated(3) True by fastforce
    qed
    then have "person_ok u \<and> insert_person u db = Inr d"
      using created_added [OF Inr [unfolded r]] by simp
    with True show ?thesis by (auto simp: create_person_def Inr r person_added_def status_defs)
  next
    case False
    then have "fst (create_person new now p db) = db" by (auto simp: create_person_def Inr r status_defs)
    then show ?thesis by simp
  qed
qed (simp add: create_person_def)

lemma register_row:
  assumes "register_password enc new now reg status db = Inr (d, u)" "status \<noteq> ''''"
  shows "person_ok u \<and> pn_status u = status \<and> pn_id u = new \<and> pn_hash u \<noteq> '''' \<and> insert_person u db = Inr d"
proof -
  let ?p = "blank_person\<lparr>pn_email := rg_email reg, pn_display := rg_display reg, pn_status := status, pn_roles := canonical_roles (rg_roles reg)\<rparr>"
  from assms(1) obtain v h where v: "validate_person ?p = Inr v" and h: "hash_password enc (rg_password reg) = Inr h"
    and u: "u = v\<lparr>pn_hash := h, pn_id := new, pn_created := now, pn_updated := now\<rparr>" "insert_person u db = Inr d"
    by (auto simp: register_password_def Let_def split: sum.splits why_conflict.splits)
  have "person_ok v" using validated_ok [OF v] by (simp add: blank_person_def)
  with hash_password_ok [OF h] have "person_ok u" by (simp add: person_ok_def u(1))
  with u validated(5) [OF v] assms(2) hash_password_ok [OF h] show ?thesis by simp
qed

lemma register_adds:
  "status \<noteq> '''' \<Longrightarrow> person_added (\<lambda>u. person_ok u \<and> pn_status u = status \<and> pn_hash u \<noteq> '''') db
     (fst (saved (register_password enc new now reg status db) ev db))"
  using register_row [of enc new now reg status db]
  by (cases "register_password enc new now reg status db") (auto simp: saved_def person_added_def)

lemma provision_adds:
  "person_added (\<lambda>u. person_ok u \<and> (pn_status u = status_invited \<or> pn_status u = status_active)) db
     (fst (provision enc new now email display pw roles db))"
proof -
  define hashed where "hashed = (if pw = '''' then Inr '''' else hash_password enc pw)"
  define row where "row h = \<lparr>pn_id = new, pn_created = now, pn_updated = now, pn_deleted = None, pn_email = email, pn_display = display,
    pn_handle = '''', pn_status = (if pw = '''' then status_invited else status_active), pn_roles = canonical_roles roles, pn_hash = h\<rparr>" for h
  have ok: "person_ok u \<and> (pn_status u = status_invited \<or> pn_status u = status_active)"
    if h: "hashed = Inr h" and v: "validate_person (row h) = Inr u" for h u
  proof -
    have "hash_ok h" using h hash_password_ok by (auto simp: hashed_def split: if_splits)
    with validated_ok [OF v] validated(5) [OF v] show ?thesis by (auto simp: status_defs row_def)
  qed
  have "provision enc new now email display pw roles db =
    (case hashed of Inl w \<Rightarrow> (db, Inl (PersonInvalid w)) | Inr h \<Rightarrow> (case validate_person (row h) of Inl w \<Rightarrow> (db, Inl (PersonInvalid w))
       | Inr u \<Rightarrow> (case insert_person u db of Inl _ \<Rightarrow> (db, Inl StoreFailed)
         | Inr db' \<Rightarrow> (publish_person [EvInvited (pn_id u) (pn_email u) (pn_status u)] db', Inr u))))"
    by (simp only: provision_def hashed_def row_def)
  then show ?thesis using ok by (auto split: sum.splits intro: added_row)
qed

end
