(* ===== verification/PeopleSteps.thy ===== *)
theory PeopleSteps
  imports Administration
begin

section \<open>The steps of a tenant's people and roles\<close>

text \<open>
  The rows every door leaves, for the doors that take a row away and the writes of roles; the locale
  \<open>administration_port\<close>, what the user module's floor relies on, interpreted on the auth module's answer;
  and \<open>people_step\<close>, one call of one door, refused or not.
\<close>

subsection \<open>The doors that take a row away\<close>

lemma taken_away_ok:
  assumes "directory_ok db" "u \<in> set (dr_people db)"
  shows "directory_ok (replace_person (u\<lparr>pn_deleted := Some now\<rparr>) db)"
proof -
  have "person_ok (u\<lparr>pn_deleted := Some now\<rparr>)" using row_ok(1) [OF assms] by (simp add: person_ok_def)
  moreover have "unique_violation (others_of (pn_id u) db) (u\<lparr>pn_deleted := Some now\<rparr>) = None"
    by (simp add: unique_violation_None same_email_def same_handle_def shown_def)
  ultimately show ?thesis using replace_ok [OF assms(1,2)] by simp
qed

lemma delete_leaves:
  "same_tables db (fst (delete_person ask conn now i db)) \<or>
   (\<exists>u evs. get_person i db = Some u \<and> floor_check ask conn ''delete'' u None (replace_person (u\<lparr>pn_deleted := Some now\<rparr>) db) = (evs, None)
      \<and> same_tables (replace_person (u\<lparr>pn_deleted := Some now\<rparr>) db) (fst (delete_person ask conn now i db)))"
  by (auto simp: delete_person_def Let_def refuse_last_administrator_def split: option.splits prod.splits)

definition erased_row :: "(uuid \<Rightarrow> string) \<Rightarrow> uuid \<Rightarrow> time \<Rightarrow> person \<Rightarrow> person" where
  "erased_row us i now u =
     u\<lparr>pn_email := erased_email us i, pn_display := '''', pn_handle := '''', pn_hash := '''', pn_roles := [], pn_updated := now\<rparr>"

lemma erase_leaves:
  "same_tables db (fst (erase_person us ask conn now i db)) \<or>
   (\<exists>u evs. retained i db = Some u \<and> floor_check ask conn ''delete'' u None db = (evs, None)
      \<and> unique_violation (others_of i db) (erased_row us i now u) = None
      \<and> fst (erase_person us ask conn now i db) = replace_person (erased_row us i now u) db)"
  by (auto simp: erase_person_def Let_def refuse_last_administrator_def erased_row_def split: option.splits prod.splits)

lemma delete_ok: "directory_ok db \<Longrightarrow> directory_ok (fst (delete_person ask conn now i db))"
  using delete_leaves [of db ask conn now i] taken_away_ok got_person(1) directory_ok_same by metis


lemma plain_char:
  assumes "uuid_char c \<or> c \<in> set ''ersd-@.inval''"
  shows "\<not> ascii_space c \<and> ascii_lower c = c \<and> \<not> email_blank c"
proof -
  have "list_all (\<lambda>c. \<not> ascii_space c \<and> ascii_lower c = c \<and> \<not> email_blank c) ''0123456789abcdefrsd-@.inval''"
    by (simp add: ascii_space_def ascii_lower_def email_blank_def)
  with assms show ?thesis unfolding list_all_iff uuid_char_def by auto
qed

lemma folded_plain:
  assumes "\<And>c. c \<in> set s \<Longrightarrow> \<not> ascii_space c \<and> ascii_lower c = c"
  shows "folded s = s"
proof -
  have "dropWhile ascii_space s = s" using assms by (cases s) auto
  moreover have "dropWhile ascii_space (rev s) = rev s"
  proof (cases "rev s")
    case (Cons c cs)
    then have "c \<in> set s" using set_rev [of s] by simp
    with assms Cons show ?thesis by simp
  qed simp
  ultimately show ?thesis using assms by (simp add: folded_def trim_space_def map_idI)
qed

lemma erased_email_ok:
  assumes "uuid_spelling us"
  shows "email_ok (erased_email us i)"
proof -
  let ?e = "erased_email us i"
  have c: "\<not> ascii_space c \<and> ascii_lower c = c \<and> \<not> email_blank c" if "c \<in> set ?e" for c
    using that uuid_spelling_char [OF assms, of c i] by (intro plain_char) (auto simp: erased_email_def)
  have "CHR ''@'' \<notin> set (us i)" using uuid_spelling_char [OF assms, of "CHR ''@''" i] by (auto simp: uuid_char_def)
  then have "takeWhile (\<lambda>x. x \<noteq> CHR ''@'') (us i @ ''@erased.invalid'') = us i"
    by (subst takeWhile_append2) (auto intro!: takeWhile_eq_all_conv [THEN iffD2])
  then have "at_index ?e = 43" by (simp add: at_index_def erased_email_def uuid_spelling_length [OF assms])
  moreover have "length ?e = 58" by (simp add: erased_email_def uuid_spelling_length [OF assms])
  ultimately show ?thesis using folded_plain [of ?e] c by (auto simp: email_ok_def list_ex_iff)
qed

lemma erase_ok:
  assumes "uuid_spelling us" "directory_ok db"
  shows "directory_ok (fst (erase_person us ask conn now i db))"
proof -
  have "directory_ok (replace_person (erased_row us i now u) db)"
    if u: "retained i db = Some u" and free: "unique_violation (others_of i db) (erased_row us i now u) = None" for u
  proof -
    note row = got_person(3) [OF u]
    have "person_ok (erased_row us i now u)" using row_ok(1) [OF assms(2), of u] row erased_email_ok [OF assms(1)]
      by (simp add: erased_row_def person_ok_def handle_ok_def trim_space_def)
    with replace_ok [OF assms(2), of u] row free show ?thesis by (simp add: erased_row_def)
  qed
  with erase_leaves [of db us ask conn now i] assms(2) directory_ok_same show ?thesis by metis
qed

subsection \<open>The writes of roles\<close>

lemma folded_role_name: "valid_role_name name = Inr n \<Longrightarrow> valid_role_name n = Inr n"
  by (auto simp: valid_role_name_def Let_def split: if_splits)

lemma insert_role_ok: "directory_ok db \<Longrightarrow> role_ok r \<Longrightarrow> directory_ok (insert_role r db)"
  by (auto simp: insert_role_def directory_ok_def list_ex_iff)

lemma fold_insert_role_ok: "directory_ok db \<Longrightarrow> list_all role_ok rs \<Longrightarrow> directory_ok (fold insert_role rs db)"
  by (induction rs arbitrary: db) (auto simp: insert_role_ok)

lemma seeded_from_ok: "seeded_from declared op seen roles defaults = Inr rs \<Longrightarrow> list_all role_ok roles \<Longrightarrow> list_all role_ok rs"
proof (induction defaults arbitrary: seen roles)
  case Nil
  then show ?case by (auto simp: list_all_iff)
next
  case (Cons d defaults)
  obtain name where name: "valid_role_name (ro_name d) = Inr name" "name \<notin> set seen" "initial_refused (operator_grants declared) d = None"
    using Cons.prems(1) by (simp split: sum.splits option.splits if_splits)
  obtain g where "checked_permissions (ro_grants d) declared op = Inr g" "g \<noteq> []"
    using Cons.prems(1) name by (simp split: sum.splits list.splits)
  then have "seeded_from declared op (name # seen) (filter (\<lambda>r. ro_name r \<noteq> name) roles @ [\<lparr>ro_name = name, ro_grants = g\<rparr>]) defaults = Inr rs"
    using Cons.prems(1) name by (simp split: list.splits)
  moreover have "list_all role_ok (filter (\<lambda>r. ro_name r \<noteq> name) roles @ [\<lparr>ro_name = name, ro_grants = g\<rparr>])"
    using Cons.prems(2) folded_role_name [OF name(1)] by (auto simp: role_ok_def list_all_iff)
  ultimately show ?case by (rule Cons.IH)
qed

lemma seed_roles_ok:
  assumes "directory_ok db"
  shows "directory_ok (fst (seed_roles declared defaults operator_tenant db))"
proof -
  have "role_ok \<lparr>ro_name = role_admin, ro_grants = g\<rparr>" "role_ok \<lparr>ro_name = role_member, ro_grants = g\<rparr>" for g
    by (simp_all add: role_ok_def role_admin_def role_member_def) code_simp+
  then have "list_all role_ok rs" if "seeded_roles declared defaults operator_tenant = Inr rs" for rs
    using that seeded_from_ok unfolding seeded_roles_def by (metis list.pred_inject)
  with assms show ?thesis by (auto simp: seed_roles_def fold_insert_role_ok split: sum.splits)
qed

lemma upsert_role_ok:
  assumes "directory_ok db" "role_ok r"
  shows "directory_ok (db\<lparr>dr_roles := upsert_role r (dr_roles db)\<rparr>)"
proof -
  have "map ro_name (map (\<lambda>x. if ro_name x = ro_name r then r else x) (dr_roles db)) = map ro_name (dr_roles db)" by simp
  moreover have "list_all role_ok (upsert_role r (dr_roles db))"
    using assms by (auto simp: directory_ok_def upsert_role_def list_all_iff)
  ultimately show ?thesis using assms(1) unfolding directory_ok_def upsert_role_def by (auto simp: list_ex_iff simp del: map_map)
qed


text \<open>What a write of a role leaves: the tables, or the one role in the place of its name.\<close>

definition role_written :: "(role \<Rightarrow> string list \<Rightarrow> bool) \<Rightarrow> directory \<Rightarrow> directory \<Rightarrow> bool" where
  "role_written accepted db db' \<longleftrightarrow> same_tables db db' \<or> (\<exists>r was. accepted r was
     \<and> was = (case List.find (\<lambda>x. ro_name x = ro_name r) (dr_roles db) of None \<Rightarrow> [] | Some x \<Rightarrow> ro_grants x)
     \<and> dr_people db' = dr_people db \<and> dr_roles db' = upsert_role r (dr_roles db))"

lemma set_role_written:
  "role_written (\<lambda>r was. role_ok r \<and> \<not> role_write_refused (ro_name r) was (ro_grants r) db) db
     (fst (set_role_changed declared operator_tenant conn name permissions db))"
proof (cases "valid_role_name name")
  case name: (Inr n)
  show ?thesis
  proof (cases "checked_permissions permissions declared operator_tenant")
    case want: (Inr want)
    define was where "was = (case List.find (\<lambda>r. ro_name r = n) (dr_roles db) of None \<Rightarrow> [] | Some r \<Rightarrow> ro_grants r)"
    have "role_ok \<lparr>ro_name = n, ro_grants = want\<rparr>" using folded_role_name [OF name] by (simp add: role_ok_def)
    moreover have "same_tables db (fst (set_role_changed declared operator_tenant conn name permissions db))
        \<or> (\<not> role_write_refused n was want db
           \<and> dr_people (fst (set_role_changed declared operator_tenant conn name permissions db)) = dr_people db
           \<and> dr_roles (fst (set_role_changed declared operator_tenant conn name permissions db)) = upsert_role \<lparr>ro_name = n, ro_grants = want\<rparr> (dr_roles db))"
      by (simp add: set_role_changed_def name want Let_def was_def [symmetric])
    ultimately show ?thesis unfolding role_written_def was_def by (metis role.select_convs)
  qed (simp add: set_role_changed_def name role_written_def)
qed (simp add: set_role_changed_def role_written_def)

lemma role_written_ok:
  assumes "directory_ok db" "role_written accepted db db'" "\<And>r was. accepted r was \<Longrightarrow> role_ok r"
  shows "directory_ok db'"
proof -
  consider "same_tables db db'" | r was where "accepted r was" "dr_people db' = dr_people db" "dr_roles db' = upsert_role r (dr_roles db)"
    using assms(2) unfolding role_written_def by blast
  then show ?thesis
  proof cases
    case 1
    then show ?thesis using assms(1) directory_ok_same by blast
  next
    case (2 r)
    then have "same_tables (db\<lparr>dr_roles := upsert_role r (dr_roles db)\<rparr>) db'" by (simp add: same_tables_def)
    then show ?thesis using upsert_role_ok [OF assms(1) assms(3) [OF 2(1)]] directory_ok_same by blast
  qed
qed

lemma set_role_ok: "directory_ok db \<Longrightarrow> directory_ok (fst (set_role_changed declared operator_tenant conn name permissions db))"
  by (rule role_written_ok [OF _ set_role_written]) auto

text \<open>A repair is one write after another, or a rollback: what every write keeps, the repair keeps.\<close>

lemma repair_each_keeps:
  assumes "\<And>db name ps. P db \<Longrightarrow> P (fst (set_role_changed declared operator_tenant conn name ps db))" "P db"
  shows "P (fst (repair_each declared operator_tenant conn found held db))"
  using assms(2)
proof (induction held arbitrary: db)
  case (Cons r held)
  show ?case
  proof (cases "map_of found (ro_name r)")
    case (Some gone)
    obtain db' res where w: "set_role_changed declared operator_tenant conn (ro_name r) (filter (\<lambda>p. p \<notin> set gone) (ro_grants r)) db = (db', res)"
      by (cases "set_role_changed declared operator_tenant conn (ro_name r) (filter (\<lambda>p. p \<notin> set gone) (ro_grants r)) db")
    have p: "P db'" using assms(1) [OF Cons.prems, of "ro_name r" "filter (\<lambda>p. p \<notin> set gone) (ro_grants r)"] by (simp add: w)
    show ?thesis using Cons.IH [OF p] p by (auto simp: Some w split: sum.splits prod.splits)
  qed (simp add: Cons)
qed simp

definition role_refusals :: "people_event list \<Rightarrow> bool" where
  "role_refusals evs \<longleftrightarrow> list_all (\<lambda>ev. case ev of EvRoleRefused _ _ _ \<Rightarrow> True | _ \<Rightarrow> False) evs"

lemma repair_keeps:
  assumes "\<And>db name ps. P db \<Longrightarrow> P (fst (set_role_changed declared operator_tenant conn name ps db))" "P db"
    "\<And>evs. role_refusals evs \<Longrightarrow> P (publish_person evs db)"
  shows "P (fst (repair_seeded_roles declared defaults operator_tenant conn remove db))"
proof -
  let ?r = "repair_each declared operator_tenant conn (repairs_found declared defaults operator_tenant db) (roles_by_name db) db"
  have "P (fst ?r)" using repair_each_keeps [of P, OF assms(1,2)] by blast
  then show ?thesis using assms(2,3) by (cases ?r) (auto simp: repair_seeded_roles_def Let_def role_refusals_def list_all_iff split: sum.splits)
qed

subsection \<open>Somebody who can administer\<close>

definition administered :: "string list \<Rightarrow> directory \<Rightarrow> bool" where
  "administered administering db \<longleftrightarrow> list_ex (\<lambda>u. can_administer (Some u) administering) (dr_people db)"

lemma administered_iff: "administered administering db \<longleftrightarrow> (\<exists>u \<in> set (dr_people db). can_administer (Some u) administering)"
  by (auto simp: administered_def list_ex_iff)

lemma administered_same: "same_tables db db' \<Longrightarrow> administered administering db' = administered administering db"
  by (simp add: administered_def same_tables_def)

lemma administered_mono:
  assumes "administered administering db" "set (dr_people db) \<subseteq> set (dr_people db')" "set administering \<subseteq> set administering'"
  shows "administered administering' db'"
  using assms by (fastforce simp: administered_iff can_administer_def holds_any_def list_ex_iff)

lemma can_administer_stamp [simp]: "can_administer (Some (u\<lparr>pn_updated := t\<rparr>)) administering = can_administer (Some u) administering"
  by (simp add: can_administer_def holds_any_def)

lemma kept_by_replace:
  assumes "directory_ok db" "administered administering db" "u \<in> set (dr_people db)" "pn_id u' = pn_id u"
    and "can_administer (Some u) administering \<Longrightarrow> can_administer (Some u') administering
      \<or> (\<exists>v \<in> set (others_of (pn_id u) db). can_administer (Some v) administering)"
  shows "administered administering (replace_person u' db)"
proof -
  obtain w where w: "w \<in> set (dr_people db)" "can_administer (Some w) administering" using assms(2) by (auto simp: administered_iff)
  note rows = replaced_rows [OF assms(1,3,4)]
  show ?thesis
  proof (cases "pn_id w = pn_id u")
    case True
    with one_row [OF assms(1) w(1) assms(3)] assms(5) w(2) show ?thesis by (auto simp: administered_iff rows)
  next
    case False
    with w show ?thesis by (auto simp: administered_iff rows others_rows)
  qed
qed

lemma kept_by_update:
  assumes ok: "directory_ok db" and adm: "administered administering db" and copy: "good_copy copy" and upd: "updated_row now copy p db db'"
    and keeps: "\<And>u row. validate_person p = Inr u \<Longrightarrow> get_person (pn_id p) db = Some row \<Longrightarrow> can_administer (Some row) administering
      \<Longrightarrow> can_administer (Some (copy u row)) administering \<or> (\<exists>v \<in> set (others_of (pn_id p) db). can_administer (Some v) administering)"
  shows "administered administering db'"
proof -
  obtain d v where d: "crud_update now copy p db = Inr (d, v)" "same_tables d db'" using upd by (auto simp: updated_row_def)
  obtain u row where u: "validate_person p = Inr u" "get_person (pn_id p) db = Some row"
    "d = replace_person ((copy u row)\<lparr>pn_updated := now\<rparr>) db" using d(1) by (rule crud_update_row)
  from got_person(1) [OF u(2)] copy keeps [OF u(1,2)]
  have "administered administering d" unfolding u(3) by (intro kept_by_replace [OF ok adm, of row]) (auto simp: good_copy_def)
  with administered_same [OF d(2)] show ?thesis by simp
qed

lemma kept_by_command:
  assumes "directory_ok db" "administered administering db" "good_copy copy" "command_leaves wanted_row now copy db db'"
    and "\<And>p u row. wanted_row p \<Longrightarrow> validate_person p = Inr u \<Longrightarrow> get_person (pn_id p) db = Some row \<Longrightarrow> can_administer (Some row) administering
      \<Longrightarrow> can_administer (Some (copy u row)) administering \<or> (\<exists>v \<in> set (others_of (pn_id p) db). can_administer (Some v) administering)"
  shows "administered administering db'"
  using assms(4) administered_same [of db db'] assms(2) kept_by_update [OF assms(1,2,3)] assms(5) unfolding command_leaves_def by metis

lemma kept_by_adding:
  assumes "administered administering db" "person_added wanted_row db db'"
  shows "administered administering db'"
proof -
  have "set (dr_people db) \<subseteq> set (dr_people d)" if "insert_person u db = Inr d" for u d
    using that by (auto simp: insert_person_def split: if_splits option.splits)
  then show ?thesis using assms administered_mono [OF assms(1)] administered_same unfolding person_added_def
    by (metis subset_refl)
qed

lemma roles_of_command: "command_leaves wanted_row now copy db db' \<Longrightarrow> dr_roles db' = dr_roles db"
  by (auto simp: command_leaves_def same_tables_def updated_row_def elim!: crud_update_row)

lemma roles_of_adding: "person_added wanted_row db db' \<Longrightarrow> dr_roles db' = dr_roles db"
  by (auto simp: person_added_def same_tables_def insert_person_def split: if_splits option.splits)

text \<open>The floor over one answer of the port: what it lets pass leaves an administrator.\<close>

lemma floor_passed:
  assumes "floor_check ask conn attempt u after db = (evs, None)" "ask db = Some administering" "administers (Some u) administering"
  shows "administers after administering \<or> (\<exists>v \<in> set (others_of (pn_id u) db). can_administer (Some v) administering)"
proof (rule disjCI)
  assume none: "\<not> (\<exists>v \<in> set (others_of (pn_id u) db). can_administer (Some v) administering)"
  show "administers after administering"
  proof (rule ccontr)
    assume gone: "\<not> administers after administering"
    then have "\<not> can_administer after administering"
      by (auto simp: administers_def can_administer_def status_defs split: option.splits)
    moreover have "other_administrators (pn_id u) administering db = []"
      using none by (auto simp: other_administrators_def filter_empty_conv)
    ultimately have "user_reach after administering (other_administrators (pn_id u) administering db) = []"
      by (cases after) (auto simp: user_reach_def)
    with assms gone show False by (simp add: floor_check_def administration_refused_def Let_def split: if_splits)
  qed
qed

lemma floor_asked: "floor_check ask conn attempt u after db = (evs, None) \<Longrightarrow> \<exists>administering. ask db = Some administering"
  by (auto simp: floor_check_def split: option.splits)

lemma can_administers: "can_administer u administering \<Longrightarrow> administers u administering"
  by (auto simp: administers_def can_administer_def status_defs split: option.splits)


subsection \<open>What the user module relies on of the port\<close>

text \<open>
  An answer is the truth about the roles of this transaction, and rows of people do not change it.  The
  refusal of the port is no answer.
\<close>

locale administration_port =
  fixes ask :: "directory \<Rightarrow> string list option" and truth :: "directory \<Rightarrow> string list"
  assumes honest: "ask db = Some administering \<Longrightarrow> administering = truth db"
    and of_roles: "dr_roles db = dr_roles db' \<Longrightarrow> truth db = truth db'"
begin

lemma passed:
  assumes "floor_check ask conn attempt u after db = (evs, None)" "can_administer (Some u) (truth db)"
  shows "administers after (truth db) \<or> (\<exists>v \<in> set (others_of (pn_id u) db). can_administer (Some v) (truth db))"
  using floor_asked [OF assms(1)] honest floor_passed [OF assms(1)] can_administers [OF assms(2)] by metis

lemma set_roles_kept:
  assumes "directory_ok db" "administered (truth db) db"
  shows "administered (truth db) (fst (set_roles ask may conn now i roles db))"
proof (rule kept_by_command [OF assms good_copies(3) set_roles_leaves])
  fix p v row
  assume p: "\<exists>u evs. locked_user i db = Some u \<and> p = u\<lparr>pn_roles := canonical_roles roles\<rparr> \<and> floor_check ask conn ''roles'' u (Some p) db = (evs, None)"
    and v: "validate_person p = Inr v" and row: "get_person (pn_id p) db = Some row" and adm: "can_administer (Some row) (truth db)"
  then obtain evs where row': "p = row\<lparr>pn_roles := canonical_roles roles\<rparr>" and f: "floor_check ask conn ''roles'' row (Some p) db = (evs, None)"
    using got_person(2) by (auto simp: locked_user_def)
  from passed [OF f adm] adm show "can_administer (Some (copy_roles v row)) (truth db) \<or> (\<exists>w \<in> set (others_of (pn_id p) db). can_administer (Some w) (truth db))"
    using validated(3) [OF v] by (auto simp: row' administers_def can_administer_def holds_any_def copy_roles_def)
qed

lemma deactivate_kept:
  assumes "directory_ok db" "administered (truth db) db"
  shows "administered (truth db) (fst (deactivate ask conn now i db))"
proof (rule kept_by_command [OF assms good_copies(1) deactivate_leaves])
  fix p v row
  assume p: "\<exists>u evs. locked_user i db = Some u \<and> p = u\<lparr>pn_status := status_inactive\<rparr> \<and> floor_check ask conn ''status'' u (Some p) db = (evs, None)"
    and row: "get_person (pn_id p) db = Some row" and adm: "can_administer (Some row) (truth db)"
  then obtain evs where row': "p = row\<lparr>pn_status := status_inactive\<rparr>" and f: "floor_check ask conn ''status'' row (Some p) db = (evs, None)"
    using got_person(2) by (auto simp: locked_user_def)
  from passed [OF f adm]
  show "can_administer (Some (copy_status v row)) (truth db) \<or> (\<exists>w \<in> set (others_of (pn_id p) db). can_administer (Some w) (truth db))"
    by (auto simp: row' administers_def)
qed

lemma delete_kept:
  assumes "directory_ok db" "administered (truth db) db"
  shows "administered (truth db) (fst (delete_person ask conn now i db))"
  using delete_leaves [of db ask conn now i]
proof
  assume "\<exists>u evs. get_person i db = Some u \<and> floor_check ask conn ''delete'' u None (replace_person (u\<lparr>pn_deleted := Some now\<rparr>) db) = (evs, None)
      \<and> same_tables (replace_person (u\<lparr>pn_deleted := Some now\<rparr>) db) (fst (delete_person ask conn now i db))"
  then obtain u evs where u: "get_person i db = Some u" and f: "floor_check ask conn ''delete'' u None (replace_person (u\<lparr>pn_deleted := Some now\<rparr>) db) = (evs, None)"
    and s: "same_tables (replace_person (u\<lparr>pn_deleted := Some now\<rparr>) db) (fst (delete_person ask conn now i db))" by blast
  have t: "truth (replace_person (u\<lparr>pn_deleted := Some now\<rparr>) db) = truth db" by (rule of_roles) simp
  have o: "set (others_of (pn_id u) (replace_person (u\<lparr>pn_deleted := Some now\<rparr>) db)) = set (others_of (pn_id u) db)"
    by (auto simp: others_of_def replace_person_def)
  have "administered (truth db) (replace_person (u\<lparr>pn_deleted := Some now\<rparr>) db)"
    by (rule kept_by_replace [OF assms, of u]) (use got_person(1) [OF u] passed [OF f] in \<open>auto simp: t o administers_def\<close>)
  then show ?thesis using administered_same [OF s] by simp
qed (simp add: administered_same assms(2))

lemma erase_kept:
  assumes "directory_ok db" "administered (truth db) db"
  shows "administered (truth db) (fst (erase_person us ask conn now i db))"
  using erase_leaves [of db us ask conn now i]
proof
  assume "\<exists>u evs. retained i db = Some u \<and> floor_check ask conn ''delete'' u None db = (evs, None)
      \<and> unique_violation (others_of i db) (erased_row us i now u) = None
      \<and> fst (erase_person us ask conn now i db) = replace_person (erased_row us i now u) db"
  then obtain u evs where u: "retained i db = Some u" and f: "floor_check ask conn ''delete'' u None db = (evs, None)"
    and s: "fst (erase_person us ask conn now i db) = replace_person (erased_row us i now u) db" by blast
  show ?thesis unfolding s
    by (rule kept_by_replace [OF assms, of u]) (use got_person(3) [OF u] passed [OF f] in \<open>auto simp: erased_row_def administers_def\<close>)
qed (simp add: administered_same assms(2))

end

lemma administering_roles_of: "dr_roles db = dr_roles db' \<Longrightarrow> administering_roles db = administering_roles db'"
  by (simp add: administering_roles_def roles_by_name_def)

interpretation port: administration_port "administering_port live" administering_roles for live
  by unfold_locales (simp add: administering_port_def split: if_splits, erule administering_roles_of)


subsection \<open>The doors that leave everybody in place\<close>

lemma raised [intro]: "can_administer (Some row) administering \<Longrightarrow> pn_status u = status_active
    \<Longrightarrow> can_administer (Some (copy_status u row)) administering"
  by (simp add: can_administer_def holds_any_def copy_status_def)

lemma raise_kept:
  assumes "directory_ok db" "administered administering db" "command_leaves wanted_row now copy_status db db'"
    and "\<And>p. wanted_row p \<Longrightarrow> pn_status p = status_active"
  shows "administered administering db'"
  by (rule kept_by_command [OF assms(1,2) good_copies(1) assms(3)])
    (use assms(4) in \<open>auto simp: validated(5) status_defs\<close>)

lemma untouched_kept:
  assumes "directory_ok db" "administered administering db" "command_leaves wanted_row now copy db db'"
    "copy = copy_handle \<or> copy = copy_profile"
  shows "administered administering db'"
  by (rule kept_by_command [OF assms(1,2) _ assms(3)]) (use assms(4) in \<open>auto simp: copy_defs can_administer_def holds_any_def\<close>)

lemma set_password_kept:
  assumes "directory_ok db" "administered administering db"
  shows "administered administering (fst (set_password enc now i pw db))"
  by (rule kept_by_command [OF assms good_copies(2) set_password_leaves])
    (auto simp: validated(5) status_defs copy_defs can_administer_def holds_any_def)

lemma holders_iff: "holders roles db \<noteq> [] \<longleftrightarrow> administered roles db"
proof -
  have "shown u \<and> pn_status u = status_active \<and> list_ex (\<lambda>r. r \<in> set roles) (pn_roles u) \<longleftrightarrow> can_administer (Some u) roles" for u
    by (auto simp: can_administer_def holds_any_def shown_def)
  then have "holders roles db = [] \<longleftrightarrow> roles = [] \<or> (\<forall>u \<in> set (dr_people db). \<not> can_administer (Some u) roles)"
    by (auto simp: holders_def filter_empty_conv simp flip: set_empty)
  then show ?thesis by (auto simp: administered_iff can_administer_def holds_any_def list_ex_iff)
qed

lemma administered_set: "set roles = set roles' \<Longrightarrow> administered roles db = administered roles' db"
  by (simp add: administered_def can_administer_def holds_any_def)

lemma set_administering: "set (administering_roles db) = {ro_name x |x. x \<in> set (dr_roles db) \<and> grant_match (ro_grants x) role_manage}"
  by (auto simp: administering_roles_def roles_by_name_def)

lemma set_upsert: "set (upsert_role r rs) = insert r {x \<in> set rs. ro_name x \<noteq> ro_name r}"
  by (auto simp: upsert_role_def list_ex_iff)

lemma found_role:
  assumes "distinct (map ro_name rs)" "x \<in> set rs"
  shows "List.find (\<lambda>y. ro_name y = ro_name x) rs = Some x"
  using assms by (induction rs) (auto simp: image_iff)

lemma written_kept:
  assumes ok: "directory_ok db" and adm: "administered (administering_roles db) db"
    and w: "role_written (\<lambda>r was. role_ok r \<and> \<not> role_write_refused (ro_name r) was (ro_grants r) db) db db'"
  shows "administered (administering_roles db') db'"
proof (cases "same_tables db db'")
  case True
  then have "administering_roles db' = administering_roles db" unfolding same_tables_def by (intro administering_roles_of) simp
  with adm administered_same [OF True] show ?thesis by simp
next
  case False
  then obtain r was where passed: "\<not> role_write_refused (ro_name r) was (ro_grants r) db"
    and was: "was = (case List.find (\<lambda>x. ro_name x = ro_name r) (dr_roles db) of None \<Rightarrow> [] | Some x \<Rightarrow> ro_grants x)"
    and db': "dr_people db' = dr_people db" "dr_roles db' = upsert_role r (dr_roles db)"
    using w unfolding role_written_def by blast
  have names: "distinct (map ro_name (dr_roles db))" using ok by (simp add: directory_ok_def)
  show ?thesis
  proof (cases "\<not> grant_match was role_manage \<or> grant_match (ro_grants r) role_manage")
    case True
    have "ro_name x \<in> set (administering_roles db')" if x: "x \<in> set (dr_roles db)" "grant_match (ro_grants x) role_manage" for x
    proof (cases "ro_name x = ro_name r")
      case same: True
      then have "was = ro_grants x" using found_role [OF names x(1)] by (simp add: was)
      with True x(2) same show ?thesis by (auto simp: set_administering db' set_upsert)
    qed (use x in \<open>auto simp: set_administering db' set_upsert\<close>)
    then have "set (administering_roles db) \<subseteq> set (administering_roles db')" unfolding set_administering [of db] by blast
    with administered_mono [OF adm] db'(1) show ?thesis by simp
  next
    case False
    define kept where "kept = map ro_name (filter (\<lambda>x. grant_match (if ro_name x = ro_name r then ro_grants r else ro_grants x) role_manage) (roles_by_name db))"
    have "holders kept db \<noteq> []"
      using passed False adm holders_iff [of "administering_roles db" db]
      by (auto simp: role_write_refused_def Let_def kept_def [symmetric] administration_refused_def)
    moreover have "set kept = set (administering_roles db')"
      using False by (auto simp: kept_def set_administering roles_by_name_def db' set_upsert)
    ultimately have "administered (administering_roles db') db" using holders_iff administered_set by blast
    then show ?thesis by (rule administered_mono) (simp_all add: db'(1))
  qed
qed

lemma seed_roles_kept:
  assumes "administered (administering_roles db) db"
  shows "administered (administering_roles (fst (seed_roles declared defaults operator_tenant db))) (fst (seed_roles declared defaults operator_tenant db))"
proof -
  have "administered (administering_roles (fold insert_role rs db)) (fold insert_role rs db)" for rs
    using assms
  proof (induction rs arbitrary: db)
    case (Cons r rs)
    have "administered (administering_roles (insert_role r db)) (insert_role r db)"
      by (rule administered_mono [OF Cons.prems]) (auto simp: insert_role_def administering_roles_def roles_by_name_def)
    from Cons.IH [OF this] show ?case by simp
  qed simp
  with assms show ?thesis by (auto simp: seed_roles_def split: sum.splits)
qed


subsection \<open>Calls\<close>

text \<open>What an application's process fixes: the printing of identifiers, the hash, its declared permissions and initial roles.\<close>

record people_env =
  pe_uuid :: "uuid \<Rightarrow> string"
  pe_hash :: "string \<Rightarrow> string"
  pe_declared :: "grant list"
  pe_defaults :: "role list"
  pe_operator :: bool

text \<open>
  One request at a door, with what the world answers it: the fresh identifier, the clock, whether the
  transaction is a live tenant's (\<open>live\<close>), whether it holds a connection to record a refusal on
  (\<open>conn\<close>) and the answer of the granting port (\<open>may\<close>).
\<close>

datatype people_call =
    DoInvite uuid time string string
  | DoProvision uuid time string string string "string list"
  | DoRegisterPending uuid time registration
  | DoRegisterUnverified uuid time registration
  | DoSetPassword time uuid string
  | DoSetRoles bool "bool option" bool time uuid "string list"
  | DoDeactivate bool bool time uuid
  | DoReactivate time uuid
  | DoSetHandle time uuid string
  | DoVerifyEmail time uuid string
  | DoConfirmAddress time uuid string
  | DoApprove time uuid uuid
  | DoCreate uuid time person
  | DoPatch time uuid "string option" "string option"
  | DoDelete bool bool time uuid
  | DoErase bool bool time uuid
  | DoSeedRoles
  | DoSetRole bool string "string list"
  | DoRepairRoles bool bool

primrec people_do :: "people_env \<Rightarrow> people_call \<Rightarrow> directory \<Rightarrow> directory" where
  "people_do e (DoInvite new now email display) db = fst (invite new now email display db)"
| "people_do e (DoProvision new now email display pw roles) db = fst (provision (pe_hash e) new now email display pw roles db)"
| "people_do e (DoRegisterPending new now reg) db = fst (register_pending (pe_hash e) new now reg db)"
| "people_do e (DoRegisterUnverified new now reg) db = fst (register_unverified (pe_hash e) new now reg db)"
| "people_do e (DoSetPassword now i pw) db = fst (set_password (pe_hash e) now i pw db)"
| "people_do e (DoSetRoles live may conn now i roles) db = fst (set_roles (administering_port live) may conn now i roles db)"
| "people_do e (DoDeactivate live conn now i) db = fst (deactivate (administering_port live) conn now i db)"
| "people_do e (DoReactivate now i) db = fst (reactivate now i db)"
| "people_do e (DoSetHandle now i h) db = fst (set_handle now i h db)"
| "people_do e (DoVerifyEmail now i email) db = fst (verify_email now i email db)"
| "people_do e (DoConfirmAddress now i email) db = fst (confirm_address now i email db)"
| "people_do e (DoApprove now i actor) db = fst (approve_registration now i actor db)"
| "people_do e (DoCreate new now p) db = fst (create_person new now p db)"
| "people_do e (DoPatch now i email display) db = fst (patch_person now i email display db)"
| "people_do e (DoDelete live conn now i) db = fst (delete_person (administering_port live) conn now i db)"
| "people_do e (DoErase live conn now i) db = fst (erase_person (pe_uuid e) (administering_port live) conn now i db)"
| "people_do e DoSeedRoles db = fst (seed_roles (pe_declared e) (pe_defaults e) (pe_operator e) db)"
| "people_do e (DoSetRole conn name permissions) db = fst (set_role_changed (pe_declared e) (pe_operator e) conn name permissions db)"
| "people_do e (DoRepairRoles conn remove) db = fst (repair_seeded_roles (pe_declared e) (pe_defaults e) (pe_operator e) conn remove db)"

inductive people_reach :: "people_env \<Rightarrow> directory \<Rightarrow> directory \<Rightarrow> bool" for e where
  stays: "people_reach e db db"
| calls: "people_reach e db db' \<Longrightarrow> people_reach e db (people_do e call db')"

lemma people_reach_keeps:
  assumes "people_reach e db db'" "P db" "\<And>d call. P d \<Longrightarrow> P (people_do e call d)"
  shows "P db'"
  using assms by (induction rule: people_reach.induct) auto

lemma people_reach_fold: "people_reach e db (fold (people_do e) calls db)"
  by (induction calls rule: rev_induct) (auto intro: people_reach.intros)

lemma added_rows_ok:
  assumes "directory_ok db"
  shows "directory_ok (fst (invite new now email display db))" "directory_ok (fst (create_person new now p db))"
    "directory_ok (fst (provision enc new now email display pw roles db))"
    "directory_ok (fst (register_pending enc new now reg db))" "directory_ok (fst (register_unverified enc new now reg db))"
  using added_ok [OF assms invite_adds] added_ok [OF assms create_adds] added_ok [OF assms provision_adds] added_ok [OF assms register_adds]
  by (simp_all add: register_pending_def register_unverified_def status_defs)

lemma got_row_ok:
  assumes "directory_ok db"
  shows "get_person i db = Some u \<Longrightarrow> sorted (pn_roles u) \<and> distinct (pn_roles u) \<and> hash_ok (pn_hash u)"
    "locked_user i db = Some u \<Longrightarrow> sorted (pn_roles u) \<and> distinct (pn_roles u) \<and> hash_ok (pn_hash u)"
  using row_ok [OF assms] got_person by blast+

lemma set_password_ok:
  assumes "directory_ok db"
  shows "directory_ok (fst (set_password enc now i pw db))"
  by (rule command_leaves_ok [OF assms set_password_leaves]) (auto simp: hash_password_ok dest: got_row_ok [OF assms])

lemma set_roles_ok:
  assumes "directory_ok db"
  shows "directory_ok (fst (set_roles ask may conn now i roles db))"
  by (rule command_leaves_ok [OF assms set_roles_leaves]) (auto simp: hash_password_ok dest: got_row_ok [OF assms])

lemma deactivate_ok:
  assumes "directory_ok db"
  shows "directory_ok (fst (deactivate ask conn now i db))"
  by (rule command_leaves_ok [OF assms deactivate_leaves]) (auto simp: hash_password_ok dest: got_row_ok [OF assms])

lemma reactivate_ok:
  assumes "directory_ok db"
  shows "directory_ok (fst (reactivate now i db))"
  by (rule command_leaves_ok [OF assms reactivate_leaves]) (auto simp: hash_password_ok dest: got_row_ok [OF assms])

lemma set_handle_ok:
  assumes "directory_ok db"
  shows "directory_ok (fst (set_handle now i h db))"
  by (rule command_leaves_ok [OF assms set_handle_leaves]) (auto simp: hash_password_ok dest: got_row_ok [OF assms])

lemma verify_email_ok:
  assumes "directory_ok db"
  shows "directory_ok (fst (verify_email now i email db))"
  by (rule command_leaves_ok [OF assms verify_email_leaves]) (auto simp: hash_password_ok dest: got_row_ok [OF assms])

lemma confirm_address_ok:
  assumes "directory_ok db"
  shows "directory_ok (fst (confirm_address now i email db))"
  by (rule command_leaves_ok [OF assms confirm_address_leaves]) (auto simp: hash_password_ok dest: got_row_ok [OF assms])

lemma approve_registration_ok:
  assumes "directory_ok db"
  shows "directory_ok (fst (approve_registration now i actor db))"
  by (rule command_leaves_ok [OF assms approve_registration_leaves]) (auto simp: hash_password_ok dest: got_row_ok [OF assms])

lemma patch_person_ok:
  assumes "directory_ok db"
  shows "directory_ok (fst (patch_person now i email display db))"
  by (rule command_leaves_ok [OF assms patch_person_leaves]) (auto simp: hash_password_ok dest: got_row_ok [OF assms])

lemmas doors_ok = added_rows_ok set_password_ok set_roles_ok deactivate_ok reactivate_ok set_handle_ok verify_email_ok confirm_address_ok
  approve_registration_ok patch_person_ok delete_ok erase_ok seed_roles_ok set_role_ok

lemma people_do_ok: "uuid_spelling (pe_uuid e) \<Longrightarrow> directory_ok db \<Longrightarrow> directory_ok (people_do e call db)"
  by (cases call) (simp_all add: doors_ok repair_keeps)

text \<open>Nobody's row moves who can administer, and no door of the user module moves a role.\<close>

lemma adding_doors_kept:
  assumes "administered administering db"
  shows "administered administering (fst (invite new now email display db))" "administered administering (fst (create_person new now p db))"
    "administered administering (fst (provision enc new now email display pw roles db))"
    "administered administering (fst (register_pending enc new now reg db))" "administered administering (fst (register_unverified enc new now reg db))"
  using kept_by_adding [OF assms invite_adds] kept_by_adding [OF assms create_adds] kept_by_adding [OF assms provision_adds]
    kept_by_adding [OF assms register_adds] by (simp_all add: register_pending_def register_unverified_def status_defs)

lemma changing_doors_kept:
  assumes "directory_ok db" "administered administering db"
  shows "administered administering (fst (reactivate now i db))" "administered administering (fst (verify_email now i email db))"
    "administered administering (fst (confirm_address now i email db))" "administered administering (fst (approve_registration now i actor db))"
    "administered administering (fst (set_handle now i h db))" "administered administering (fst (patch_person now i a d db))"
  by (rule raise_kept [OF assms reactivate_leaves], force) (rule raise_kept [OF assms verify_email_leaves], force,
    rule raise_kept [OF assms confirm_address_leaves], force, rule raise_kept [OF assms approve_registration_leaves], force,
    rule untouched_kept [OF assms set_handle_leaves], simp, rule untouched_kept [OF assms patch_person_leaves], simp)

lemma gone_roles:
  "dr_roles (fst (delete_person ask conn now i db)) = dr_roles db" "dr_roles (fst (erase_person us ask conn now i db)) = dr_roles db"
  using delete_leaves [of db ask conn now i] erase_leaves [of db us ask conn now i] by (auto simp: same_tables_def)

lemmas doors_roles = roles_of_adding [OF invite_adds] roles_of_adding [OF create_adds] roles_of_adding [OF provision_adds]
  roles_of_command [OF set_password_leaves] roles_of_command [OF set_roles_leaves] roles_of_command [OF deactivate_leaves]
  roles_of_command [OF reactivate_leaves] roles_of_command [OF set_handle_leaves] roles_of_command [OF verify_email_leaves]
  roles_of_command [OF confirm_address_leaves] roles_of_command [OF approve_registration_leaves] roles_of_command [OF patch_person_leaves] gone_roles

definition writes_roles :: "people_call \<Rightarrow> bool" where
  "writes_roles call \<longleftrightarrow> (case call of DoSeedRoles \<Rightarrow> True | DoSetRole _ _ _ \<Rightarrow> True | DoRepairRoles _ _ \<Rightarrow> True | _ \<Rightarrow> False)"

lemma people_do_roles: "\<not> writes_roles call \<Longrightarrow> dr_roles (people_do e call db) = dr_roles db"
  by (cases call) (simp_all add: writes_roles_def doors_roles register_pending_def register_unverified_def
    roles_of_adding [OF register_adds] status_defs)

lemma people_do_kept:
  assumes "directory_ok db" "administered (administering_roles db) db" "\<not> writes_roles call"
  shows "administered (administering_roles db) (people_do e call db)"
  using assms(3) by (cases call) (simp_all add: writes_roles_def adding_doors_kept [OF assms(2)] changing_doors_kept [OF assms(1,2)]
    set_password_kept [OF assms(1,2)] port.set_roles_kept [OF assms(1,2)] port.deactivate_kept [OF assms(1,2)]
    port.delete_kept [OF assms(1,2)] port.erase_kept [OF assms(1,2)])

lemma set_role_kept:
  assumes "directory_ok db \<and> administered (administering_roles db) db"
  shows "directory_ok (fst (set_role_changed declared operator_tenant conn name ps db))
    \<and> administered (administering_roles (fst (set_role_changed declared operator_tenant conn name ps db))) (fst (set_role_changed declared operator_tenant conn name ps db))"
  using assms written_kept [OF _ _ set_role_written] set_role_ok by blast

lemma people_do_administered:
  assumes "directory_ok db" "administered (administering_roles db) db"
  shows "administered (administering_roles (people_do e call db)) (people_do e call db)"
proof (cases "writes_roles call")
  case False
  then have "administering_roles (people_do e call db) = administering_roles db" by (intro administering_roles_of people_do_roles)
  with people_do_kept [OF assms False] show ?thesis by simp
next
  case True
  have "directory_ok (publish_person evs db) \<and> administered (administering_roles (publish_person evs db)) (publish_person evs db)" for evs
    using assms by (simp add: administering_roles_def roles_by_name_def administered_def)
  then have "administered (administering_roles (fst (repair_seeded_roles (pe_declared e) (pe_defaults e) (pe_operator e) conn remove db)))
      (fst (repair_seeded_roles (pe_declared e) (pe_defaults e) (pe_operator e) conn remove db))" for conn remove
    using repair_keeps [of "\<lambda>d. directory_ok d \<and> administered (administering_roles d) d", OF set_role_kept] assms by blast
  with True show ?thesis using assms set_role_kept seed_roles_kept by (cases call) (auto simp: writes_roles_def)
qed

end
