(* ===== verification/AccountLife.thy ===== *)
theory AccountLife
  imports PeopleSteps
begin

section \<open>The life of an account\<close>

text \<open>
  The states an account moves through and the act each move is recorded by (\<open>contracts/user.go\<close>'s
  statuses, the events of \<open>contracts/events.go\<close>), as a machine over the log; every call of every door is
  a step of it, and what a registration waits for follows.
\<close>

subsection \<open>The machine\<close>

inductive account_moves :: "people_event list \<Rightarrow> uuid \<Rightarrow> string \<Rightarrow> string \<Rightarrow> bool" for evs i where
  stays: "account_moves evs i s s"
| stood_down: "EvDeactivated i \<in> set evs \<Longrightarrow> account_moves evs i s status_inactive"
| stood_up: "EvReactivated i \<in> set evs \<Longrightarrow> account_moves evs i status_inactive status_active"
| password: "EvPasswordSet i \<in> set evs \<Longrightarrow> account_moves evs i status_invited status_active"
| confirmed: "EvEmailVerified i a \<in> set evs \<Longrightarrow> s = status_invited \<or> s = status_unverified \<Longrightarrow> account_moves evs i s status_active"
| approved: "EvRegistrationApproved i actor \<in> set evs \<Longrightarrow> account_moves evs i status_pending status_active"

definition account_begun :: "people_event \<Rightarrow> (uuid \<times> string) option" where
  "account_begun ev =
     (case ev of EvInvited i _ s \<Rightarrow> Some (i, s) | EvRegistrationPending i \<Rightarrow> Some (i, status_pending)
      | EvRegistrationUnverified i _ \<Rightarrow> Some (i, status_unverified) | _ \<Rightarrow> None)"

definition person_ids :: "directory \<Rightarrow> uuid set" where
  "person_ids db = pn_id ` set (dr_people db)"

text \<open>One step: accounts known move along the machine, new ones begin as their event says, none is lost.\<close>

definition account_step :: "directory \<Rightarrow> directory \<Rightarrow> bool" where
  "account_step db db' \<longleftrightarrow> (\<exists>evs. dr_log db' = dr_log db @ evs \<and> person_ids db \<subseteq> person_ids db'
     \<and> (\<forall>u \<in> set (dr_people db). \<forall>u' \<in> set (dr_people db'). pn_id u' = pn_id u \<longrightarrow> account_moves evs (pn_id u) (pn_status u) (pn_status u'))
     \<and> (\<forall>u' \<in> set (dr_people db'). pn_id u' \<notin> person_ids db \<longrightarrow> (\<exists>ev \<in> set evs. account_begun ev = Some (pn_id u', pn_status u')))
     \<and> (\<forall>ev \<in> set evs. \<forall>i s. account_begun ev = Some (i, s) \<longrightarrow> i \<notin> person_ids db
          \<and> (\<exists>u' \<in> set (dr_people db'). pn_id u' = i \<and> pn_status u' = s)))"

definition begins_none :: "people_event list \<Rightarrow> bool" where
  "begins_none evs \<longleftrightarrow> list_all (\<lambda>ev. account_begun ev = None) evs"

lemma step_published:
  assumes "directory_ok db" "dr_people db' = dr_people db" "dr_log db' = dr_log db @ evs" "begins_none evs"
  shows "account_step db db'"
proof -
  have "u' = u" if "u \<in> set (dr_people db)" "u' \<in> set (dr_people db)" "pn_id u' = pn_id u" for u u'
    using one_row [OF assms(1)] that by blast
  then show ?thesis using assms(2-4) unfolding account_step_def
    by (intro exI [of _ evs]) (auto simp: person_ids_def begins_none_def list_all_iff intro: account_moves.stays)
qed

lemma step_refl [simp]: "directory_ok db \<Longrightarrow> account_step db db"
  by (rule step_published [where evs = "[]"]) (simp_all add: begins_none_def)

lemma step_said: "directory_ok db \<Longrightarrow> begins_none evs \<Longrightarrow> account_step db (publish_person evs db)"
  by (rule step_published) simp_all

lemma step_replaced:
  assumes "directory_ok db" "u \<in> set (dr_people db)" "pn_id u' = pn_id u" "begins_none evs"
    "account_moves evs (pn_id u) (pn_status u) (pn_status u')"
  shows "account_step db (publish_person evs (replace_person u' db))"
proof -
  note rows = replaced_rows [OF assms(1-3)]
  have same: "v' = v" if "v \<in> set (dr_people db)" "v' \<in> set (dr_people db)" "pn_id v' = pn_id v" for v v'
    using one_row [OF assms(1)] that by blast
  have "account_moves evs (pn_id v) (pn_status v) (pn_status v')"
    if v: "v \<in> set (dr_people db)" "v' \<in> set (dr_people (replace_person u' db))" "pn_id v' = pn_id v" for v v'
  proof (cases "v' = u'")
    case True
    with same [OF assms(2) v(1)] v(3) assms(3,5) show ?thesis by simp
  next
    case False
    with v same [of v v'] show ?thesis by (auto simp: rows others_rows intro: account_moves.stays)
  qed
  moreover have "person_ids (replace_person u' db) = person_ids db"
    using arg_cong [OF replace_simps(3) [of u' db], of set] by (simp only: person_ids_def set_map)
  ultimately show ?thesis using assms(4) unfolding account_step_def
    by (intro exI [of _ evs]) (auto simp: begins_none_def list_all_iff person_ids_def)
qed

lemma step_saved:
  assumes "directory_ok db" "good_copy copy" "\<And>v. begins_none (ev v)"
    and "\<And>u row. validate_person p = Inr u \<Longrightarrow> get_person (pn_id p) db = Some row
      \<Longrightarrow> account_moves (ev (u\<lparr>pn_updated := now\<rparr>)) (pn_id p) (pn_status row) (pn_status (copy u row))"
  shows "account_step db (fst (saved (crud_update now copy p db) ev db))"
proof (cases "crud_update now copy p db")
  case (Inr r)
  obtain d v where r: "r = (d, v)" by (cases r)
  obtain u row where u: "validate_person p = Inr u" "get_person (pn_id p) db = Some row"
    "d = replace_person ((copy u row)\<lparr>pn_updated := now\<rparr>) db" "v = u\<lparr>pn_updated := now\<rparr>"
    using Inr [unfolded r] by (rule crud_update_row)
  have "account_step db (publish_person (ev v) d)" unfolding u(3)
    by (rule step_replaced [OF assms(1), of row]) (use got_person(1) [OF u(2)] assms(2,3) assms(4) [OF u(1,2)] in \<open>auto simp: good_copy_def u(4)\<close>)
  then show ?thesis by (simp add: saved_def Inr r)
qed (simp add: saved_def assms(1))

lemma step_added:
  assumes "directory_ok db" "insert_person u db = Inr d" "list_ex (\<lambda>ev. account_begun ev = Some (pn_id u, pn_status u)) evs"
    "list_all (\<lambda>ev. account_begun ev \<in> {None, Some (pn_id u, pn_status u)}) evs"
  shows "account_step db (publish_person evs d)"
proof -
  have d: "d = db\<lparr>dr_people := dr_people db @ [u]\<rparr>" and new: "\<forall>v \<in> set (dr_people db). pn_id v \<noteq> pn_id u"
    using assms(2) by (auto simp: insert_person_def list_ex_iff split: if_splits option.splits)
  have same: "v' = v" if "v \<in> set (dr_people db)" "v' \<in> set (dr_people db)" "pn_id v' = pn_id v" for v v'
    using one_row [OF assms(1)] that by blast
  have "i = pn_id u \<and> s = pn_status u" if "ev \<in> set evs" "account_begun ev = Some (i, s)" for ev i s
    using that assms(4) by (fastforce simp: list_all_iff)
  note begun = this
  have "\<exists>ev \<in> set evs. account_begun ev = Some (pn_id u', pn_status u')" if "u' \<in> set (dr_people db @ [u])" "pn_id u' \<notin> person_ids db" for u'
    using that assms(3) by (auto simp: person_ids_def list_ex_iff)
  moreover have "account_moves evs (pn_id v) (pn_status v) (pn_status v')"
    if "v \<in> set (dr_people db)" "v' \<in> set (dr_people db @ [u])" "pn_id v' = pn_id v" for v v'
    using that same new by (auto intro: account_moves.stays)
  moreover have "i \<notin> person_ids db \<and> (\<exists>u' \<in> set (dr_people db @ [u]). pn_id u' = i \<and> pn_status u' = s)"
    if "ev \<in> set evs" "account_begun ev = Some (i, s)" for ev i s
    using begun [OF that] new by (auto simp: person_ids_def)
  ultimately show ?thesis unfolding account_step_def d
    by (intro exI [of _ evs]) (auto simp: person_ids_def)
qed


subsection \<open>Every door is a step of it\<close>

lemma begins_none_simps [simp]:
  "begins_none []" "begins_none [EvPasswordSet i]" "begins_none [EvRolesSet i was want]" "begins_none [EvDeactivated i]"
  "begins_none [EvReactivated i]" "begins_none [EvHandleSet i a b]" "begins_none [EvRegistrationApproved i j]"
  "begins_none [EvEmailVerified i a]" "begins_none [EvPersonUpdated i]" "begins_none [EvPersonDeleted i]"
  "begins_none [EvRoleSet n was want]" "begins_none [EvRoleRefused n was want]"
  by (simp_all add: begins_none_def account_begun_def)

lemma floor_begins_none: "floor_check ask conn attempt u after db = (evs, e) \<Longrightarrow> begins_none evs"
  by (auto simp: floor_check_def Let_def begins_none_def account_begun_def split: option.splits if_splits)

lemma step_changed:
  assumes "directory_ok db" "locked_user i db = Some u" "pn_status u \<noteq> status_active"
    and "\<And>v. begins_none (ev v)" "\<And>v. pn_id v = i \<Longrightarrow> account_moves (ev v) i (pn_status u) s" "s \<in> set statuses"
  shows "account_step db (fst (saved (crud_update now copy_status (u\<lparr>pn_status := s\<rparr>) db) ev db))"
proof (rule step_saved [OF assms(1) good_copies(1) assms(4)])
  fix v row
  assume v: "validate_person (u\<lparr>pn_status := s\<rparr>) = Inr v" and row: "get_person (pn_id (u\<lparr>pn_status := s\<rparr>)) db = Some row"
  have "row = u" "pn_id u = i" using row assms(2) got_person(2) [OF assms(2)] by (auto simp: locked_user_def)
  moreover have "s \<noteq> ''''" using assms(6) by (auto simp: statuses_def status_defs)
  ultimately show "account_moves (ev (v\<lparr>pn_updated := now\<rparr>)) (pn_id (u\<lparr>pn_status := s\<rparr>)) (pn_status row) (pn_status (copy_status v row))"
    using assms(5) [of "v\<lparr>pn_updated := now\<rparr>"] validated(1,5) [OF v] by (simp add: copy_status_def)
qed

lemma statuses_in [simp]: "status_active \<in> set statuses" "status_inactive \<in> set statuses"
  by (simp_all add: statuses_def)

lemma status_apart [simp]:
  "status_active \<noteq> status_inactive" "status_active \<noteq> status_invited" "status_active \<noteq> status_pending" "status_active \<noteq> status_unverified"
  "status_inactive \<noteq> status_active" "status_invited \<noteq> status_active" "status_pending \<noteq> status_active" "status_unverified \<noteq> status_active"
  by (simp_all add: status_defs)

lemma status_named [simp]: "status_active \<noteq> []" "status_inactive \<noteq> []"
  by (simp_all add: status_defs)

lemma publish_none [simp]: "publish_person [] db = db"
  by (simp add: publish_person_def)

lemma recorded_moves [simp]:
  "account_moves [EvDeactivated i] i s status_inactive" "account_moves [EvReactivated i] i status_inactive status_active"
  "account_moves [EvPasswordSet i] i status_invited status_active" "account_moves [EvRegistrationApproved i actor] i status_pending status_active"
  "account_moves [EvEmailVerified i a] i status_invited status_active" "account_moves [EvEmailVerified i a] i status_unverified status_active"
  "account_moves evs i s s"
  by (auto intro: account_moves.intros)

lemma status_doors_step:
  assumes "directory_ok db"
  shows "account_step db (fst (reactivate now i db))" "account_step db (fst (verify_email now i a db))"
    "account_step db (fst (confirm_address now i a db))" "account_step db (fst (approve_registration now i actor db))"
  using assms
  by (auto simp: reactivate_def verify_email_def confirm_address_def approve_registration_def split: option.splits
    intro!: step_changed)


lemma step_saved_same:
  assumes "directory_ok db" "copy = copy_roles \<or> copy = copy_handle \<or> copy = copy_profile" "\<And>v. begins_none (ev v)"
  shows "account_step db (fst (saved (crud_update now copy p db) ev db))"
  by (rule step_saved [OF assms(1) _ assms(3)]) (use assms(2) in \<open>auto simp: copy_defs\<close>)

lemma profile_doors_step:
  assumes "directory_ok db"
  shows "account_step db (fst (set_handle now i h db))" "account_step db (fst (patch_person now i email display db))"
    "account_step db (fst (set_roles ask may conn now i roles db))"
  using assms floor_begins_none by (auto simp: set_handle_def patch_person_def set_roles_def Let_def split: option.splits prod.splits
    intro!: step_saved_same step_said)

lemma deactivate_step:
  assumes "directory_ok db"
  shows "account_step db (fst (deactivate ask conn now i db))"
proof -
  have "account_step db (fst (saved (crud_update now copy_status (u\<lparr>pn_status := status_inactive\<rparr>) db) (\<lambda>u. [EvDeactivated (pn_id u)]) db))" for u
    by (rule step_saved [OF assms]) (auto simp: copy_status_def validated(1,5) status_defs intro: account_moves.stood_down [unfolded status_defs])
  then show ?thesis using assms floor_begins_none by (auto simp: deactivate_def split: option.splits prod.splits intro!: step_said)
qed

lemma set_password_step:
  assumes "directory_ok db"
  shows "account_step db (fst (set_password enc now i pw db))"
proof -
  have "account_step db (fst (saved (crud_update now copy_password (u\<lparr>pn_hash := h, pn_status := status_active\<rparr>) db) (\<lambda>u. [EvPasswordSet (pn_id u)]) db))"
    if u: "locked_user i db = Some u" and s: "pn_status u = status_invited \<or> pn_status u = status_active" for u h
  proof (rule step_saved [OF assms good_copies(2)])
    fix v row
    assume v: "validate_person (u\<lparr>pn_hash := h, pn_status := status_active\<rparr>) = Inr v" and row: "get_person (pn_id (u\<lparr>pn_hash := h, pn_status := status_active\<rparr>)) db = Some row"
    have "row = u" using row u got_person(2) [OF u] by (auto simp: locked_user_def)
    with s validated(1,5) [OF v]
    show "account_moves [EvPasswordSet (pn_id (v\<lparr>pn_updated := now\<rparr>))] (pn_id (u\<lparr>pn_hash := h, pn_status := status_active\<rparr>)) (pn_status row) (pn_status (copy_password v row))"
      by (auto simp: copy_password_def)
  qed simp
  then show ?thesis using assms by (auto simp: set_password_def split: option.splits sum.splits)
qed

lemma delete_step:
  assumes "directory_ok db"
  shows "account_step db (fst (delete_person ask conn now i db))"
proof -
  have "account_step db (publish_person [EvPersonDeleted i] (replace_person (u\<lparr>pn_deleted := Some now\<rparr>) db))" if "get_person i db = Some u" for u
    by (rule step_replaced [OF assms, of u]) (use got_person(1) [OF that] in auto)
  then show ?thesis using assms floor_begins_none
    by (auto simp: delete_person_def refuse_last_administrator_def Let_def split: option.splits prod.splits intro!: step_said)
qed

lemma erase_step:
  assumes "directory_ok db"
  shows "account_step db (fst (erase_person us ask conn now i db))"
proof -
  have "account_step db (replace_person (erased_row us i now u) db)" if "retained i db = Some u" for u
    using step_replaced [OF assms, of u "erased_row us i now u" "[]"] got_person(3) [OF that] by (simp add: erased_row_def)
  then show ?thesis using assms floor_begins_none
    by (auto simp: erase_person_def erased_row_def refuse_last_administrator_def Let_def split: option.splits prod.splits intro!: step_said)
qed


lemma invite_step:
  assumes "directory_ok db"
  shows "account_step db (fst (invite new now email display db))"
proof (cases "crud_create new now (blank_person\<lparr>pn_email := email, pn_display := display, pn_status := status_invited\<rparr>) db")
  case (Inr r)
  obtain d u where r: "r = (d, u)" by (cases r)
  have "insert_person u db = Inr d" using created_added(2) [OF Inr [unfolded r]] by (simp add: blank_person_def)
  then show ?thesis using step_added [OF assms] by (simp add: invite_def saved_def Inr r account_begun_def)
qed (simp add: invite_def saved_def assms)

lemma create_step:
  assumes "directory_ok db"
  shows "account_step db (fst (create_person new now p db))"
proof (cases "crud_create new now (p\<lparr>pn_hash := ''''\<rparr>) db")
  case (Inr r)
  obtain d u where r: "r = (d, u)" by (cases r)
  have "insert_person u db = Inr d" using crud_create_row [OF Inr [unfolded r]] by blast
  then show ?thesis using step_added [OF assms] assms by (simp add: create_person_def Inr r account_begun_def)
qed (simp add: create_person_def assms)

lemma provision_step: "directory_ok db \<Longrightarrow> account_step db (fst (provision enc new now email display pw roles db))"
  by (auto simp: provision_def account_begun_def split: sum.splits intro!: step_added)

lemma register_step:
  assumes "directory_ok db"
  shows "account_step db (fst (register_pending enc new now reg db))" "account_step db (fst (register_unverified enc new now reg db))"
  using register_row [of enc new now reg status_pending db] register_row [of enc new now reg status_unverified db] assms
  by (auto simp: register_pending_def register_unverified_def saved_def account_begun_def status_pending_def status_unverified_def
    split: sum.splits intro!: step_added)

definition roles_only :: "directory \<Rightarrow> directory \<Rightarrow> bool" where
  "roles_only db db' \<longleftrightarrow> dr_people db' = dr_people db \<and> (\<exists>evs. dr_log db' = dr_log db @ evs \<and> begins_none evs)"

lemma roles_only_refl: "roles_only db db"
  by (simp add: roles_only_def exI [of _ "[]"])

lemma seed_roles_only: "roles_only db (fst (seed_roles declared defaults operator_tenant db))"
proof -
  have "dr_people (fold insert_role rs db) = dr_people db \<and> dr_log (fold insert_role rs db) = dr_log db" for rs
    by (induction rs arbitrary: db) (simp_all add: insert_role_def)
  then show ?thesis by (auto simp: seed_roles_def roles_only_def split: sum.splits intro: exI [of _ "[]"])
qed


lemma roles_only_said: "roles_only d db \<Longrightarrow> begins_none evs \<Longrightarrow> roles_only d (publish_person evs db)"
  by (auto simp: roles_only_def begins_none_def)

lemma set_role_only:
  assumes "roles_only d db"
  shows "roles_only d (fst (set_role_changed declared operator_tenant conn name ps db))"
proof -
  have "roles_only d (publish_person evs (db\<lparr>dr_roles := rs\<rparr>))" if "begins_none evs" for evs rs
    using assms roles_only_said [OF _ that] by (simp add: roles_only_def)
  then show ?thesis using assms roles_only_said by (auto simp: set_role_changed_def Let_def split: sum.splits)
qed

lemma repair_only: "roles_only db (fst (repair_seeded_roles declared defaults operator_tenant conn remove db))"
proof (rule repair_keeps)
  fix evs
  assume "role_refusals evs"
  then have "begins_none evs"
    unfolding role_refusals_def begins_none_def list_all_iff by (fastforce simp: account_begun_def split: people_event.splits)
  with roles_only_refl roles_only_said show "roles_only db (publish_person evs db)" by blast
qed (simp_all add: set_role_only roles_only_refl)

lemma roles_only_step: "directory_ok db \<Longrightarrow> roles_only db db' \<Longrightarrow> account_step db db'"
  unfolding roles_only_def using step_published by blast

lemma people_do_step:
  assumes "directory_ok db"
  shows "account_step db (people_do e call db)"
  by (cases call) (simp_all add: assms invite_step provision_step register_step set_password_step profile_doors_step deactivate_step
    status_doors_step create_step delete_step erase_step roles_only_step seed_roles_only set_role_only roles_only_refl repair_only)

subsection \<open>What a registration waits for\<close>

text \<open>The act is in the log, or the account was stood up again.\<close>

definition acted :: "directory \<Rightarrow> uuid \<Rightarrow> bool" where
  "acted db i \<longleftrightarrow> list_ex (\<lambda>ev. case ev of EvRegistrationApproved j _ \<Rightarrow> j = i | EvReactivated j \<Rightarrow> j = i | _ \<Rightarrow> False) (dr_log db)"

definition confirmed_by :: "directory \<Rightarrow> uuid \<Rightarrow> bool" where
  "confirmed_by db i \<longleftrightarrow> list_ex (\<lambda>ev. case ev of EvEmailVerified j _ \<Rightarrow> j = i | EvReactivated j \<Rightarrow> j = i | _ \<Rightarrow> False) (dr_log db)"

definition waits :: "directory \<Rightarrow> person \<Rightarrow> bool" where
  "waits db u \<longleftrightarrow>
     (list_ex (\<lambda>ev. account_begun ev = Some (pn_id u, status_pending)) (dr_log db)
        \<longrightarrow> pn_status u = status_pending \<or> pn_status u = status_inactive \<or> acted db (pn_id u))
   \<and> (list_ex (\<lambda>ev. account_begun ev = Some (pn_id u, status_unverified)) (dr_log db)
        \<longrightarrow> pn_status u = status_unverified \<or> pn_status u = status_inactive \<or> confirmed_by db (pn_id u))"

definition log_known :: "directory \<Rightarrow> bool" where
  "log_known db \<longleftrightarrow> list_all (\<lambda>ev. \<forall>i s. account_begun ev = Some (i, s) \<longrightarrow> i \<in> person_ids db) (dr_log db)"


lemma acted_mono: "dr_log db' = dr_log db @ evs \<Longrightarrow> acted db i \<Longrightarrow> acted db' i" "dr_log db' = dr_log db @ evs \<Longrightarrow> confirmed_by db i \<Longrightarrow> confirmed_by db' i"
  by (simp_all add: acted_def confirmed_by_def)

lemma acted_in:
  assumes "dr_log db' = dr_log db @ evs"
  shows "EvReactivated i \<in> set evs \<Longrightarrow> acted db' i" "EvRegistrationApproved i actor \<in> set evs \<Longrightarrow> acted db' i"
    "EvReactivated i \<in> set evs \<Longrightarrow> confirmed_by db' i" "EvEmailVerified i a \<in> set evs \<Longrightarrow> confirmed_by db' i"
  using assms by (force simp: acted_def confirmed_by_def list_ex_iff split: people_event.splits)+

lemma status_far [simp]:
  "status_invited \<noteq> status_pending" "status_invited \<noteq> status_inactive" "status_invited \<noteq> status_unverified"
  "status_unverified \<noteq> status_pending" "status_unverified \<noteq> status_inactive" "status_pending \<noteq> status_unverified" "status_pending \<noteq> status_inactive"
  "status_inactive \<noteq> status_pending" "status_inactive \<noteq> status_unverified"
  by (simp_all add: status_defs)

lemma moved_acted:
  assumes "account_moves evs i s s'" "dr_log db' = dr_log db @ evs" "s = status_pending \<or> s = status_inactive \<or> acted db i"
  shows "s' = status_pending \<or> s' = status_inactive \<or> acted db' i"
  using assms(1)
proof cases
  case (confirmed a)
  then have "acted db i" using assms(3) status_far status_apart by metis
  then show ?thesis using acted_mono(1) [OF assms(2)] by simp
qed (use assms(3) acted_mono(1) [OF assms(2)] acted_in [OF assms(2)] in auto)

lemma moved_confirmed:
  assumes "account_moves evs i s s'" "dr_log db' = dr_log db @ evs" "s = status_unverified \<or> s = status_inactive \<or> confirmed_by db i"
  shows "s' = status_unverified \<or> s' = status_inactive \<or> confirmed_by db' i"
  using assms(1) by cases (use assms(3) acted_mono(2) [OF assms(2)] acted_in(3,4) [OF assms(2)] in auto)

lemmas moved_waits = moved_acted moved_confirmed

definition registrations_wait :: "directory \<Rightarrow> bool" where
  "registrations_wait db \<longleftrightarrow> log_known db \<and> (\<forall>u \<in> set (dr_people db). waits db u)"

lemma step_waits:
  assumes ok': "directory_ok db'" and s: "account_step db db'" and w: "registrations_wait db"
  shows "registrations_wait db'"
proof -
  obtain evs where log: "dr_log db' = dr_log db @ evs" and ids: "person_ids db \<subseteq> person_ids db'"
    and moves: "\<forall>u \<in> set (dr_people db). \<forall>u' \<in> set (dr_people db'). pn_id u' = pn_id u \<longrightarrow> account_moves evs (pn_id u) (pn_status u) (pn_status u')"
    and begun: "\<forall>ev \<in> set evs. \<forall>i s. account_begun ev = Some (i, s) \<longrightarrow> i \<notin> person_ids db \<and> (\<exists>u' \<in> set (dr_people db'). pn_id u' = i \<and> pn_status u' = s)"
    using s unfolding account_step_def by blast
  have old: "i \<in> person_ids db" if "ev \<in> set (dr_log db)" "account_begun ev = Some (i, s)" for ev i s
    using w that by (auto simp: registrations_wait_def log_known_def list_all_iff)
  have "log_known db'" unfolding log_known_def list_all_iff log using old ids begun by (fastforce simp: person_ids_def)
  moreover have "waits db' u'" if u': "u' \<in> set (dr_people db')" for u'
  proof (cases "pn_id u' \<in> person_ids db")
    case True
    then obtain u where u: "u \<in> set (dr_people db)" "pn_id u = pn_id u'" by (auto simp: person_ids_def)
    have "list_ex (\<lambda>ev. account_begun ev = Some (pn_id u', st)) (dr_log db') = list_ex (\<lambda>ev. account_begun ev = Some (pn_id u', st)) (dr_log db)" for st
      using begun True by (auto simp: log list_ex_iff)
    moreover have "waits db u" using w u(1) by (simp add: registrations_wait_def)
    moreover have "account_moves evs (pn_id u') (pn_status u) (pn_status u')" using moves u u' by (metis (no_types))
    ultimately show ?thesis using moved_waits [OF _ log] unfolding waits_def u(2) by metis
  next
    case False
    have "pn_status u' = st" if ev: "ev \<in> set (dr_log db')" "account_begun ev = Some (pn_id u', st)" for ev st
    proof -
      have "ev \<in> set evs" using ev old False by (auto simp: log)
      then obtain v where "v \<in> set (dr_people db')" "pn_id v = pn_id u'" "pn_status v = st" using begun ev(2) by blast
      then show ?thesis using one_row [OF ok' u'] by metis
    qed
    then show ?thesis by (auto simp: waits_def list_ex_iff)
  qed
  ultimately show ?thesis by (simp add: registrations_wait_def)
qed

end
