(* ===== verification/PeopleProperties.thy ===== *)
theory PeopleProperties
  imports AccountLife
begin

section \<open>What holds of a tenant's people and roles\<close>

text \<open>
  The properties of the user module and the auth module's roles over \<open>people_reach\<close>, every sequence of
  calls from an empty tenant, and their witnesses on the run \<open>demo_calls\<close>.
\<close>

lemma apart_rows:
  "directory_ok db \<Longrightarrow> u \<in> set (dr_people db) \<Longrightarrow> v \<in> set (dr_people db) \<Longrightarrow> same_email u v \<or> same_handle u v \<Longrightarrow> v = u"
  using one_row [of db u v] unfolding directory_ok_def apart_def by metis

lemma found_by_email:
  assumes "directory_ok db" "u \<in> set (dr_people db)" "shown u"
  shows "by_email (pn_email u) db = Some u"
proof -
  have e: "folded (pn_email u) = pn_email u" using row_ok(1) [OF assms(1,2)] by (simp add: person_ok_def email_ok_def)
  then have l: "map ascii_lower (pn_email u) = pn_email u" using lower_folded by metis
  show ?thesis unfolding by_email_def canonical_email_def e
    by (rule find_only [OF assms(2)]) (use apart_rows [OF assms(1,2)] assms(3) l in \<open>auto simp: same_email_def\<close>)
qed

lemma found_by_handle:
  assumes "directory_ok db" "u \<in> set (dr_people db)" "shown u" "pn_handle u \<noteq> ''''"
  shows "by_handle (pn_handle u) db = Some u"
proof -
  have e: "folded (pn_handle u) = pn_handle u" using row_ok(1) [OF assms(1,2)] assms(4) by (simp add: person_ok_def handle_ok_def)
  then have l: "map ascii_lower (pn_handle u) = pn_handle u" using lower_folded by metis
  show ?thesis unfolding by_handle_def e
  proof (rule find_only [OF assms(2)])
    fix v
    assume v: "v \<in> set (dr_people db)" "map ascii_lower (pn_handle v) = pn_handle u \<and> shown v"
    then have "same_handle u v" using assms(3,4) l by (auto simp: same_handle_def)
    with apart_rows [OF assms(1,2) v(1)] show "v = u" by simp
  qed (use assms(3) l in simp)
qed

lemma empty_ok [simp]: "directory_ok empty_directory"
  by (simp add: directory_ok_def empty_directory_def apart_def)

lemma reached_ok: "uuid_spelling (pe_uuid e) \<Longrightarrow> people_reach e empty_directory db \<Longrightarrow> directory_ok db"
  using people_do_ok by (auto elim!: people_reach_keeps [where P = directory_ok])

subsection \<open>The run of the witnesses\<close>

definition demo_env :: people_env where
  "demo_env = \<lparr>pe_uuid = uuid_text, pe_hash = (\<lambda>pw. pw), pe_declared = [role_manage], pe_defaults = [], pe_operator = False\<rparr>"

definition demo_password :: string where "demo_password = ''correct horse''"

definition demo_calls :: "people_call list" where
  "demo_calls =
     [DoSeedRoles,
      DoProvision 1 10 '' Ada@Example.org '' ''Ada'' demo_password [''Admin''],
      DoInvite 2 11 ''ada@example.org'' ''Again'',
      DoRegisterPending 3 12 \<lparr>rg_email = ''bob@example.org'', rg_display = ''Bob'', rg_password = demo_password, rg_roles = []\<rparr>,
      DoDeactivate True False 13 1,
      DoDeactivate True False 14 3,
      DoReactivate 15 3]"

definition demo_run :: directory where
  "demo_run = fold (people_do demo_env) demo_calls empty_directory"

lemma demo_reach: "people_reach demo_env empty_directory demo_run"
  unfolding demo_run_def by (rule people_reach_fold)

lemma demo_spelling: "uuid_spelling (pe_uuid demo_env)"
  by (simp add: demo_env_def uuid_text_spelling)

lemma demo_rows: "map (\<lambda>u. (pn_id u, pn_email u, pn_status u, pn_roles u)) (dr_people demo_run) =
  [(1, ''ada@example.org'', ''active'', [''admin'']), (3, ''bob@example.org'', ''active'', [])]"
  by code_simp


subsection \<open>The rows\<close>

text \<open>C36: In every state a tenant's people and roles can reach, refused calls included, each row passes
its own rules, nobody else who is still there has a person's address or handle, and looking either up
finds that person and no other.\<close>

theorem people_directory:
  assumes "uuid_spelling (pe_uuid e)" "people_reach e empty_directory db"
  shows "directory_ok db \<and> (\<forall>u \<in> set (filter shown (dr_people db)). by_email (pn_email u) db = Some u
    \<and> (pn_handle u = '''' \<or> by_handle (pn_handle u) db = Some u))"
proof -
  note ok = reached_ok [OF assms]
  with found_by_email [OF ok] found_by_handle [OF ok] show ?thesis by auto
qed

theorem people_directory_witness:
  "directory_ok demo_run \<and> by_email ''ada@example.org'' demo_run = Some (hd (dr_people demo_run))"
proof -
  have row: "dr_people demo_run \<noteq> []" "shown (hd (dr_people demo_run))" "pn_email (hd (dr_people demo_run)) = ''ada@example.org''"
    by code_simp+
  then have "hd (dr_people demo_run) \<in> set (filter shown (dr_people demo_run))" by simp
  with people_directory [OF demo_spelling demo_reach] row(3) show ?thesis by metis
qed

subsection \<open>The last administrator\<close>

text \<open>C37: A tenant with an active person who holds a role granting the management of roles has one after
any sequence of calls, whichever doors they are, roles written, people stood down, deleted and erased,
and whatever is refused on the way.\<close>

theorem tenant_stays_administered:
  assumes "uuid_spelling (pe_uuid e)" "people_reach e empty_directory db" "people_reach e db db'"
    and "administered (administering_roles db) db"
  shows "\<exists>u \<in> set (dr_people db'). \<exists>r \<in> set (dr_roles db'). shown u \<and> pn_status u = status_active
    \<and> ro_name r \<in> set (pn_roles u) \<and> grant_match (ro_grants r) role_manage"
proof -
  have "directory_ok db' \<and> administered (administering_roles db') db'"
    using assms(3) reached_ok [OF assms(1,2)] assms(4) people_do_ok [OF assms(1)] people_do_administered
    by (auto elim!: people_reach_keeps [where P = "\<lambda>d. directory_ok d \<and> administered (administering_roles d) d"])
  then obtain u where "u \<in> set (dr_people db')" "can_administer (Some u) (administering_roles db')" by (auto simp: administered_iff)
  then show ?thesis by (auto simp: can_administer_def shown_def holds_any_def list_ex_iff set_administering)
qed

theorem tenant_stays_administered_witness:
  "\<exists>u \<in> set (dr_people (people_do demo_env (DoErase True True 20 1) demo_run)).
     \<exists>r \<in> set (dr_roles (people_do demo_env (DoErase True True 20 1) demo_run)). shown u \<and> pn_status u = status_active
       \<and> ro_name r \<in> set (pn_roles u) \<and> grant_match (ro_grants r) role_manage"
proof (rule tenant_stays_administered [OF demo_spelling demo_reach])
  show "people_reach demo_env demo_run (people_do demo_env (DoErase True True 20 1) demo_run)"
    by (rule people_reach.calls [OF people_reach.stays])
  show "administered (administering_roles demo_run) demo_run" by code_simp
qed

subsection \<open>What a registration waits for\<close>

text \<open>C38: An account that registered itself pending an approval is pending or stood down until the log
records the approval or that the account was stood up again; one that registered without a confirmed
address likewise waits for the confirmation.  Standing up is the one act that skips the other.\<close>

theorem registration_waits:
  assumes "uuid_spelling (pe_uuid e)" "people_reach e empty_directory db" "u \<in> set (dr_people db)"
  shows "waits db u"
proof -
  have "directory_ok db \<and> registrations_wait db"
  proof (rule people_reach_keeps [OF assms(2)])
    show "directory_ok empty_directory \<and> registrations_wait empty_directory"
      by simp (simp add: registrations_wait_def log_known_def empty_directory_def)
    fix d call
    assume d: "directory_ok d \<and> registrations_wait d"
    then show "directory_ok (people_do e call d) \<and> registrations_wait (people_do e call d)"
      using people_do_ok [OF assms(1)] step_waits [OF _ people_do_step] by blast
  qed
  with assms(3) show ?thesis by (simp add: registrations_wait_def)
qed

theorem registration_waits_witness:
  "waits demo_run (last (dr_people demo_run)) \<and> pn_status (last (dr_people demo_run)) = status_active
   \<and> EvRegistrationPending 3 \<in> set (dr_log demo_run) \<and> EvReactivated 3 \<in> set (dr_log demo_run)
   \<and> list_all (\<lambda>ev. \<forall>actor. ev \<noteq> EvRegistrationApproved 3 actor) (dr_log demo_run)"
proof -
  have "dr_people demo_run \<noteq> [] \<and> pn_status (last (dr_people demo_run)) = status_active" by code_simp
  moreover have "dr_log demo_run = [EvInvited 1 ''ada@example.org'' ''active'', EvRegistrationPending 3, EvDeactivated 3, EvReactivated 3]"
    by code_simp
  ultimately show ?thesis using registration_waits [OF demo_spelling demo_reach, of "last (dr_people demo_run)"] by simp
qed

end
