(* ===== verification/Seeds.thy ===== *)
theory Seeds
  imports BuildOrder Composition People
begin

section \<open>Seed files\<close>

text \<open>
  \<open>kit/seed\<close>: the documents an application embeds (\<open>loader.go\<close>), the order of their records by declared
  references (\<open>order.go\<close>, \<open>order_graph.go\<close>) and the comparison of a record with its owner's row
  (\<open>decide.go\<close>).  What the YAML library makes of a file's bytes and of a node's value is an argument
  (\<open>yaml_port\<close>), as is the embedded tree (\<open>seed_tree\<close>); Go maps that the code only reads by key or in
  sorted order are association lists.
\<close>

subsection \<open>Documents\<close>

record seed_source =
  ss_file :: string
  ss_line :: nat
  ss_column :: nat

datatype seed_value =
    VNull
  | VText string
  | VBool bool
  | VInt int
  | VFloat string
  | VTime time
  | VList "seed_value list"
  | VMap "(string \<times> seed_value) list"

record seed_command =
  sc_name :: string
  sc_args :: "(string \<times> seed_value) list"
  sc_source :: seed_source

record seed_record =
  sr_key :: string
  sr_fields :: "(string \<times> seed_value) list"
  sr_commands :: "seed_command list"
  sr_i18n :: "(string \<times> (string \<times> seed_value) list) list"
  sr_asset :: string
  sr_source :: seed_source
  sr_values :: "(string \<times> seed_source) list"

record seed_document =
  sd_kind :: string
  sd_resource :: string
  sd_prune :: bool
  sd_records :: "seed_record list"
  sd_source :: seed_source

record seed_reference =
  rf_resource :: string
  rf_path :: string
  rf_target :: string

record seed_entry =
  se_kind :: string
  se_resource :: string
  se_record :: seed_record

datatype seed_action = SeedCreate | SeedUpdate | SeedUnchanged | SeedPrune

text \<open>The refusals, with what each sentence names.\<close>

datatype file_refusal =
    InvalidRoot string | InvalidKind string | ReadDirFailed string | InvalidResourceFile string | TwoFiles string string | InvalidPath string
  | NotRegular string | ReadFileFailed string | DecodeFailed string | TrailingInput string | NotOneDocument string

datatype node_refusal =
    ExpectedMapping seed_source | KeysNotText seed_source | DuplicateKey seed_source string | PasswordField seed_source
  | UnknownField seed_source string | YamlAlias seed_source | UnsupportedVersion seed_source string | ResourceMismatch string string
  | PruneNotBoolean seed_source | RecordsNotSequence string

datatype record_refusal =
    InvalidRecordKey seed_source | FieldsNotDecoded seed_source
  | CommandsNotSequence seed_source | CommandNeedsName seed_source | CommandNotDecoded seed_source string | I18nNotDecoded seed_source
  | UnsafeAsset seed_source string | AssetNotRegular seed_source string | DuplicateRecord seed_source string seed_source

datatype order_refusal =
    InvalidReference seed_reference | DuplicateReference string | ReferenceNotText seed_source string | ReferenceForm seed_source string string
  | ResolveFailed seed_source string | MissingTarget seed_source string string
  | ClosesCycle seed_source string string seed_source | CycleIncludes seed_source string

datatype run_refusal =
    NoWriter seed_source string | NoDeletePath seed_source string | DeclaredTwice seed_source string seed_source
  | NoSuchCommand seed_source string | NotGranted seed_source | OwnerFailed seed_source | FieldUnapplied seed_source string string
  | AlreadyExists seed_source string | UnownedRow seed_source string | NoRowReturned seed_source | PruneCycle string | KeyDisappeared string
  | DemoRefused | AlreadySeeded | IncompleteWriter string

datatype seed_error = InFile file_refusal | InNode node_refusal | InRecord record_refusal | InOrder order_refusal | InRun run_refusal

definition valid_seed_name :: "string \<Rightarrow> bool" where
  "valid_seed_name s \<longleftrightarrow> s \<notin> {'''', ''.'', ''..''} \<and> list_all (\<lambda>c. is_alnum c \<or> c = CHR ''-'' \<or> c = CHR ''_'') s"

subsection \<open>Text that is UTF-8\<close>

function seed_runes :: "nat list \<Rightarrow> nat list list" where
  "seed_runes [] = []"
| "seed_runes (b # bs) = take (rune_width (b # bs)) (b # bs) # seed_runes (drop (rune_width (b # bs)) (b # bs))"
  by pat_completeness auto
termination
  by (relation "measure length") (use rune_width_pos in \<open>auto simp: Suc_le_eq less_Suc_eq_le le_diff_conv\<close>)

definition string_runes :: "string \<Rightarrow> nat list list" where
  "string_runes s = seed_runes (map of_char s)"

definition valid_utf8 :: "string \<Rightarrow> bool" where
  "valid_utf8 s \<longleftrightarrow> list_all (\<lambda>r. 2 \<le> length r \<or> hd r < 128) (string_runes s)"

text \<open>\<open>unicode.IsControl\<close>: the bytes below a space, 127, and U+0080 to U+009F.\<close>

definition is_control :: "nat list \<Rightarrow> bool" where
  "is_control r \<longleftrightarrow> (case r of [b] \<Rightarrow> b < 32 \<or> b = 127 | [a, b] \<Rightarrow> a = 194 \<and> b < 160 | _ \<Rightarrow> False)"

definition record_key_ok :: "string \<Rightarrow> bool" where
  "record_key_ok key \<longleftrightarrow> key \<noteq> '''' \<and> length key \<le> 1024 \<and> valid_utf8 key \<and> \<not> list_ex is_control (string_runes key)"

definition valid_path :: "string \<Rightarrow> bool" where
  "valid_path p \<longleftrightarrow> valid_utf8 p \<and> (p = ''.'' \<or> list_all (\<lambda>e. e \<notin> {'''', ''.'', ''..''}) (split_slash p))"

text \<open>\<open>path.Join\<close> of valid paths.\<close>

definition join_path :: "string \<Rightarrow> string \<Rightarrow> string" where
  "join_path dir p = (if p = ''.'' then dir else if dir = ''.'' then p else dir @ ''/'' @ p)"

definition join_slash :: "string list \<Rightarrow> string" where
  "join_slash parts = concat (map (\<lambda>p. p @ ''/'') (butlast parts)) @ (if parts = [] then '''' else last parts)"

definition dir_of :: "string \<Rightarrow> string" where
  "dir_of p = (if length (split_slash p) \<le> 1 then ''.'' else join_slash (butlast (split_slash p)))"

text \<open>\<open>path.Ext\<close> of a file name.\<close>

definition ext_of :: "string \<Rightarrow> string" where
  "ext_of name = (if CHR ''.'' \<in> set name then CHR ''.'' # rev (takeWhile (\<lambda>c. c \<noteq> CHR ''.'') (rev name)) else '''')"

subsection \<open>Nodes\<close>

datatype yaml =
    YScalar string string nat nat
  | YSeq "yaml list" nat nat
  | YMap "yaml list" nat nat
  | YAlias nat nat

text \<open>What the library decodes: a node as a value, as a map, as translations; and the Unicode tables.\<close>

record yaml_port =
  yp_value :: "yaml \<Rightarrow> seed_value option"
  yp_map :: "yaml \<Rightarrow> (string \<times> seed_value) list option"
  yp_i18n :: "yaml \<Rightarrow> (string \<times> (string \<times> seed_value) list) list option"
  yp_letter :: "nat list \<Rightarrow> bool"

definition command_name_ok :: "yaml_port \<Rightarrow> string \<Rightarrow> bool" where
  "command_name_ok y name \<longleftrightarrow> name \<noteq> '''' \<and> list_all (yp_letter y) (string_runes name)"

fun node_source :: "string \<Rightarrow> yaml \<Rightarrow> seed_source" where
  "node_source file (YScalar _ _ l c) = \<lparr>ss_file = file, ss_line = l, ss_column = c\<rparr>"
| "node_source file (YSeq _ l c) = \<lparr>ss_file = file, ss_line = l, ss_column = c\<rparr>"
| "node_source file (YMap _ l c) = \<lparr>ss_file = file, ss_line = l, ss_column = c\<rparr>"
| "node_source file (YAlias l c) = \<lparr>ss_file = file, ss_line = l, ss_column = c\<rparr>"

definition source_at :: "string \<Rightarrow> yaml option \<Rightarrow> seed_source" where
  "source_at file node = (case node of None \<Rightarrow> \<lparr>ss_file = file, ss_line = 0, ss_column = 0\<rparr> | Some n \<Rightarrow> node_source file n)"

definition scalar :: "yaml option \<Rightarrow> string" where
  "scalar node = (case node of Some (YScalar tag v _ _) \<Rightarrow> if tag = ''!!str'' then v else '''' | _ \<Rightarrow> '''')"

fun members_from :: "string \<Rightarrow> string list option \<Rightarrow> (string \<times> yaml) list \<Rightarrow> yaml list \<Rightarrow> seed_error + (string \<times> yaml) list" where
  "members_from file allowed out (key # value # rest) =
     (case key of
        YScalar tag k _ _ \<Rightarrow>
          if tag \<noteq> ''!!str'' then Inl (InNode (KeysNotText (node_source file key)))
          else if map_of out k \<noteq> None then Inl (InNode (DuplicateKey (node_source file key) k))
          else if sublist ''password'' (map ascii_lower k) then Inl (InNode (PasswordField (node_source file key)))
          else if (case allowed of None \<Rightarrow> False | Some known \<Rightarrow> k \<notin> set known) then Inl (InNode (UnknownField (node_source file key) k))
          else members_from file allowed (out @ [(k, value)]) rest
      | _ \<Rightarrow> Inl (InNode (KeysNotText (node_source file key))))"
| "members_from file allowed out _ = Inr out"

definition mapping_of :: "string \<Rightarrow> string list option \<Rightarrow> yaml option \<Rightarrow> seed_error + (string \<times> yaml) list" where
  "mapping_of file allowed node =
     (case node of Some (YMap content _ _) \<Rightarrow> members_from file allowed [] content | _ \<Rightarrow> Inl (InNode (ExpectedMapping (source_at file node))))"

fun check_node :: "string \<Rightarrow> yaml \<Rightarrow> seed_error option"
  and check_nodes :: "string \<Rightarrow> yaml list \<Rightarrow> seed_error option" where
  "check_node file (YAlias l c) = Some (InNode (YamlAlias (node_source file (YAlias l c))))"
| "check_node file (YScalar t v l c) = None"
| "check_node file (YSeq content l c) = check_nodes file content"
| "check_node file (YMap content l c) =
     (case mapping_of file None (Some (YMap content l c)) of Inl e \<Rightarrow> Some e | Inr _ \<Rightarrow> check_nodes file content)"
| "check_nodes file [] = None"
| "check_nodes file (n # ns) = (case check_node file n of Some e \<Rightarrow> Some e | None \<Rightarrow> check_nodes file ns)"


subsection \<open>Records and documents\<close>

fun parse_args :: "yaml_port \<Rightarrow> string \<Rightarrow> string \<Rightarrow> (string \<times> yaml) list \<Rightarrow> seed_error + (string \<times> seed_value) list" where
  "parse_args y file name [] = Inr []"
| "parse_args y file name ((field, node) # members) =
     (if field = ''name'' then parse_args y file name members
      else case yp_value y node of
        None \<Rightarrow> Inl (InRecord (CommandNotDecoded (node_source file node) field))
      | Some v \<Rightarrow> (case parse_args y file name members of Inl e \<Rightarrow> Inl e | Inr args \<Rightarrow> Inr ((field, v) # args)))"

fun parse_commands :: "yaml_port \<Rightarrow> string \<Rightarrow> seed_record \<Rightarrow> yaml list \<Rightarrow> seed_error + seed_record" where
  "parse_commands y file r [] = Inr r"
| "parse_commands y file r (item # items) =
     (case mapping_of file None (Some item) of
        Inl e \<Rightarrow> Inl e
      | Inr members \<Rightarrow>
          let name = scalar (map_of members ''name'')
          in if \<not> command_name_ok y name then Inl (InRecord (CommandNeedsName (node_source file item)))
             else case parse_args y file name members of
               Inl e \<Rightarrow> Inl e
             | Inr args \<Rightarrow>
                 parse_commands y file
                   (r\<lparr>sr_commands := sr_commands r @ [\<lparr>sc_name = name, sc_args = args, sc_source = node_source file item\<rparr>],
                      sr_values := map (\<lambda>(f, n). (''commands/'' @ name @ ''/'' @ f, node_source file n)) (filter (\<lambda>(f, n). f \<noteq> ''name'') members) @ sr_values r\<rparr>)
                   items)"

definition parse_fields :: "yaml_port \<Rightarrow> string \<Rightarrow> yaml option \<Rightarrow> seed_record \<Rightarrow> seed_error + seed_record" where
  "parse_fields y file node r =
     (case node of
        None \<Rightarrow> Inr r
      | Some n \<Rightarrow>
          (case mapping_of file None node of
             Inl e \<Rightarrow> Inl e
           | Inr members \<Rightarrow>
               (case yp_map y n of
                  None \<Rightarrow> Inl (InRecord (FieldsNotDecoded (node_source file n)))
                | Some fs \<Rightarrow> Inr (r\<lparr>sr_fields := fs, sr_values := map (\<lambda>(f, m). (''fields/'' @ f, node_source file m)) members @ sr_values r\<rparr>))))"

definition parse_i18n :: "yaml_port \<Rightarrow> string \<Rightarrow> yaml option \<Rightarrow> seed_record \<Rightarrow> seed_error + seed_record" where
  "parse_i18n y file node r =
     (case node of
        None \<Rightarrow> Inr r
      | Some n \<Rightarrow>
          (case mapping_of file None node of
             Inl e \<Rightarrow> Inl e
           | Inr _ \<Rightarrow> (case yp_i18n y n of None \<Rightarrow> Inl (InRecord (I18nNotDecoded (node_source file n))) | Some t \<Rightarrow> Inr (r\<lparr>sr_i18n := t\<rparr>))))"

text \<open>\<open>regular\<close>: whether a path of the tree is a regular file.\<close>

definition parse_asset :: "(string \<Rightarrow> bool) \<Rightarrow> string \<Rightarrow> yaml option \<Rightarrow> seed_record \<Rightarrow> seed_error + seed_record" where
  "parse_asset regular file node r =
     (case node of
        None \<Rightarrow> Inr r
      | Some n \<Rightarrow>
          let name = scalar node
          in if name = '''' \<or> take 1 name = ''/'' \<or> ''..'' \<in> set (split_slash name) \<or> \<not> valid_path name
             then Inl (InRecord (UnsafeAsset (node_source file n) name))
             else if \<not> regular (join_path (dir_of file) name) then Inl (InRecord (AssetNotRegular (node_source file n) name))
             else Inr (r\<lparr>sr_asset := join_path (dir_of file) name\<rparr>))"

definition parse_record :: "yaml_port \<Rightarrow> (string \<Rightarrow> bool) \<Rightarrow> string \<Rightarrow> yaml \<Rightarrow> seed_error + seed_record" where
  "parse_record y regular file node =
     (case mapping_of file (Some [''key'', ''fields'', ''commands'', ''i18n'', ''asset'']) (Some node) of
        Inl e \<Rightarrow> Inl e
      | Inr values \<Rightarrow>
          let key = scalar (map_of values ''key'')
          in if \<not> record_key_ok key then Inl (InRecord (InvalidRecordKey (node_source file node)))
             else case parse_fields y file (map_of values ''fields'')
                 \<lparr>sr_key = key, sr_fields = [], sr_commands = [], sr_i18n = [], sr_asset = '''', sr_source = node_source file node, sr_values = []\<rparr> of
               Inl e \<Rightarrow> Inl e
             | Inr r \<Rightarrow>
                 (case (case map_of values ''commands'' of
                          None \<Rightarrow> Inr r
                        | Some (YSeq items _ _) \<Rightarrow> parse_commands y file r items
                        | Some n \<Rightarrow> Inl (InRecord (CommandsNotSequence (node_source file n)))) of
                    Inl e \<Rightarrow> Inl e
                  | Inr r \<Rightarrow>
                      (case parse_i18n y file (map_of values ''i18n'') r of
                         Inl e \<Rightarrow> Inl e
                       | Inr r \<Rightarrow> parse_asset regular file (map_of values ''asset'') r)))"

fun parse_records :: "yaml_port \<Rightarrow> (string \<Rightarrow> bool) \<Rightarrow> string \<Rightarrow> yaml list \<Rightarrow> seed_error + seed_record list" where
  "parse_records y regular file [] = Inr []"
| "parse_records y regular file (n # ns) =
     (case parse_record y regular file n of
        Inl e \<Rightarrow> Inl e
      | Inr r \<Rightarrow> (case parse_records y regular file ns of Inl e \<Rightarrow> Inl e | Inr rs \<Rightarrow> Inr (r # rs)))"

definition seed_version :: string where "seed_version = ''platformkit.seed/v1''"

text \<open>A file as the decoder reads it: the roots of its document, and whether more input follows.\<close>

datatype yaml_file = NotDecoded | Decoded "yaml list" bool

definition parse_prune :: "string \<Rightarrow> yaml option \<Rightarrow> seed_error + bool" where
  "parse_prune file node =
     (case node of
        None \<Rightarrow> Inr False
      | Some (YScalar tag v l c) \<Rightarrow> if tag \<noteq> ''!!bool'' then Inl (InNode (PruneNotBoolean (node_source file (YScalar tag v l c)))) else Inr (map ascii_lower v = ''true'')
      | Some n \<Rightarrow> Inl (InNode (PruneNotBoolean (node_source file n))))"

definition parse_document :: "yaml_port \<Rightarrow> (string \<Rightarrow> bool) \<Rightarrow> string \<Rightarrow> string \<Rightarrow> string \<Rightarrow> yaml \<Rightarrow> seed_error + seed_document" where
  "parse_document y regular file kind resource body =
     (case check_node file body of
        Some e \<Rightarrow> Inl e
      | None \<Rightarrow>
          (case mapping_of file (Some [''apiVersion'', ''resource'', ''prune'', ''records'']) (Some body) of
             Inl e \<Rightarrow> Inl e
           | Inr tops \<Rightarrow>
               if scalar (map_of tops ''apiVersion'') \<noteq> seed_version
               then Inl (InNode (UnsupportedVersion (source_at file (map_of tops ''apiVersion'')) (scalar (map_of tops ''apiVersion''))))
               else if scalar (map_of tops ''resource'') \<noteq> resource then Inl (InNode (ResourceMismatch file (scalar (map_of tops ''resource''))))
               else case parse_prune file (map_of tops ''prune'') of
                 Inl e \<Rightarrow> Inl e
               | Inr prune \<Rightarrow>
                   (case map_of tops ''records'' of
                      Some (YSeq items _ _) \<Rightarrow>
                        (case parse_records y regular file items of
                           Inl e \<Rightarrow> Inl e
                         | Inr rs \<Rightarrow> Inr \<lparr>sd_kind = kind, sd_resource = resource, sd_prune = prune, sd_records = rs, sd_source = node_source file body\<rparr>)
                    | _ \<Rightarrow> Inl (InNode (RecordsNotSequence file)))))"

definition parse_file :: "yaml_port \<Rightarrow> (string \<Rightarrow> bool) \<Rightarrow> yaml_file \<Rightarrow> string \<Rightarrow> string \<Rightarrow> string \<Rightarrow> seed_error + seed_document" where
  "parse_file y regular f file kind resource =
     (case f of
        NotDecoded \<Rightarrow> Inl (InFile (DecodeFailed file))
      | Decoded roots more_input \<Rightarrow>
          if more_input then Inl (InFile (TrailingInput file))
          else (case roots of [body] \<Rightarrow> parse_document y regular file kind resource body | _ \<Rightarrow> Inl (InFile (NotOneDocument file))))"

text \<open>The embedded tree: the entries of a directory (name, is a directory), what is regular, what a file holds.\<close>

record seed_tree =
  st_dir :: "string \<Rightarrow> (string \<times> bool) list option"
  st_regular :: "string \<Rightarrow> bool"
  st_file :: "string \<Rightarrow> yaml_file option"

definition first_seen_again :: "(string \<times> seed_source) list \<Rightarrow> string \<Rightarrow> seed_record list \<Rightarrow> seed_error + (string \<times> seed_source) list" where
  "first_seen_again seen resource rs =
     fold (\<lambda>r acc. case acc of
        Inl e \<Rightarrow> Inl e
      | Inr seen \<Rightarrow>
          (case map_of seen (resource @ ''/'' @ sr_key r) of
             Some prior \<Rightarrow> Inl (InRecord (DuplicateRecord (sr_source r) (resource @ ''/'' @ sr_key r) prior))
           | None \<Rightarrow> Inr ((resource @ ''/'' @ sr_key r, sr_source r) # seen))) rs (Inr seen)"

fun load_entries :: "yaml_port \<Rightarrow> seed_tree \<Rightarrow> string \<Rightarrow> string \<Rightarrow> (string \<times> string) list \<Rightarrow> (string \<times> seed_source) list
    \<Rightarrow> (string \<times> bool) list \<Rightarrow> seed_error + (seed_document list \<times> (string \<times> seed_source) list)" where
  "load_entries y t dir kind resources seen [] = Inr ([], seen)"
| "load_entries y t dir kind resources seen ((name, is_dir) # ents) =
     (let ext = ext_of name; resource = take (length name - length ext) name; filename = join_path dir name
      in if is_dir \<or> ext \<notin> {''.yaml'', ''.json''} then load_entries y t dir kind resources seen ents
         else if \<not> valid_seed_name resource then Inl (InFile (InvalidResourceFile name))
         else if map_of resources resource \<noteq> None then Inl (InFile (TwoFiles filename resource))
         else if length filename > 512 \<or> \<not> valid_path filename then Inl (InFile (InvalidPath filename))
         else if \<not> st_regular t filename then Inl (InFile (NotRegular filename))
         else case st_file t filename of
           None \<Rightarrow> Inl (InFile (ReadFileFailed filename))
         | Some f \<Rightarrow>
             (case parse_file y (st_regular t) f filename kind resource of
                Inl e \<Rightarrow> Inl e
              | Inr doc \<Rightarrow>
                  (case first_seen_again seen resource (sd_records doc) of
                     Inl e \<Rightarrow> Inl e
                   | Inr seen' \<Rightarrow>
                       (case load_entries y t dir kind ((resource, name) # resources) seen' ents of
                          Inl e \<Rightarrow> Inl e
                        | Inr (docs, seen'') \<Rightarrow> Inr (doc # docs, seen'')))))"

fun load_kinds :: "yaml_port \<Rightarrow> seed_tree \<Rightarrow> string \<Rightarrow> (string \<times> seed_source) list \<Rightarrow> string list \<Rightarrow> seed_error + seed_document list" where
  "load_kinds y t root seen [] = Inr []"
| "load_kinds y t root seen (kind # kinds) =
     (if \<not> valid_seed_name kind then Inl (InFile (InvalidKind kind))
      else case st_dir t (join_path root kind) of
        None \<Rightarrow> Inl (InFile (ReadDirFailed (join_path root kind)))
      | Some ents \<Rightarrow>
          (case load_entries y t (join_path root kind) kind [] seen ents of
             Inl e \<Rightarrow> Inl e
           | Inr (docs, seen') \<Rightarrow> (case load_kinds y t root seen' kinds of Inl e \<Rightarrow> Inl e | Inr more_docs \<Rightarrow> Inr (docs @ more_docs))))"

definition load_seeds :: "yaml_port \<Rightarrow> seed_tree \<Rightarrow> string \<Rightarrow> string list \<Rightarrow> seed_error + seed_document list" where
  "load_seeds y t root kinds = (if \<not> valid_path root then Inl (InFile (InvalidRoot root)) else load_kinds y t root [] kinds)"


subsection \<open>Order\<close>

definition split_reference :: "seed_reference \<Rightarrow> bool" where
  "split_reference r \<longleftrightarrow>
     (case split_slash (rf_path r) of
        [a, b] \<Rightarrow> a = ''fields'' \<and> b \<noteq> ''''
      | [a, b, c] \<Rightarrow> a = ''commands'' \<and> b \<noteq> '''' \<and> c \<noteq> ''''
      | _ \<Rightarrow> False)"

definition reference_name :: "seed_reference \<Rightarrow> string" where
  "reference_name r = rf_resource r @ ''/'' @ rf_path r"

fun validate_references :: "string list \<Rightarrow> seed_reference list \<Rightarrow> seed_error option" where
  "validate_references paths [] = None"
| "validate_references paths (r # rs) =
     (if \<not> valid_seed_name (rf_resource r) \<or> \<not> valid_seed_name (rf_target r) \<or> \<not> split_reference r then Some (InOrder (InvalidReference r))
      else if reference_name r \<in> set paths then Some (InOrder (DuplicateReference (reference_name r)))
      else validate_references (reference_name r # paths) rs)"

definition identity_in :: "string \<Rightarrow> string \<Rightarrow> string" where
  "identity_in resource key = resource @ ''/'' @ key"

fun index_records :: "string \<Rightarrow> string \<Rightarrow> (string \<times> seed_entry) list \<Rightarrow> seed_record list \<Rightarrow> seed_error + (string \<times> seed_entry) list" where
  "index_records kind resource ents [] = Inr ents"
| "index_records kind resource ents (r # rs) =
     (case map_of ents (identity_in resource (sr_key r)) of
        Some prior \<Rightarrow> Inl (InRecord (DuplicateRecord (sr_source r) (identity_in resource (sr_key r)) (sr_source (se_record prior))))
      | None \<Rightarrow> index_records kind resource (ents @ [(identity_in resource (sr_key r), \<lparr>se_kind = kind, se_resource = resource, se_record = r\<rparr>)]) rs)"

fun index_entries :: "(string \<times> seed_entry) list \<Rightarrow> seed_document list \<Rightarrow> seed_error + (string \<times> seed_entry) list" where
  "index_entries ents [] = Inr ents"
| "index_entries ents (d # ds) =
     (case index_records (sd_kind d) (sd_resource d) ents (sd_records d) of Inl e \<Rightarrow> Inl e | Inr ents' \<Rightarrow> index_entries ents' ds)"

definition value_at :: "seed_record \<Rightarrow> string \<Rightarrow> seed_value option" where
  "value_at r path =
     (case split_slash path of
        [a, b] \<Rightarrow> if a = ''fields'' then map_of (sr_fields r) b else None
      | [a, b, c] \<Rightarrow> if a = ''commands'' then
            (case List.find (\<lambda>cmd. sc_name cmd = b) (sr_commands r) of None \<Rightarrow> None | Some cmd \<Rightarrow> map_of (sc_args cmd) c) else None
      | _ \<Rightarrow> None)"

definition value_source :: "seed_record \<Rightarrow> string \<Rightarrow> seed_source" where
  "value_source r path = (case map_of (sr_values r) path of Some at \<Rightarrow> at | None \<Rightarrow> sr_source r)"

text \<open>\<open>strings.Cut(s, "/")\<close>.\<close>

definition cut_slash :: "string \<Rightarrow> (string \<times> string) option" where
  "cut_slash s = (if CHR ''/'' \<in> set s then Some (takeWhile (\<lambda>c. c \<noteq> CHR ''/'') s, tl (dropWhile (\<lambda>c. c \<noteq> CHR ''/'') s)) else None)"

text \<open>The callback \<open>exists\<close>: \<open>None\<close> when there is none, and \<open>None\<close> of its answer is its error.\<close>

type_synonym seed_exists = "(string \<Rightarrow> string \<Rightarrow> bool option) option"

record seed_graph =
  gr_dependents :: "string \<Rightarrow> string list"
  gr_degree :: "(string \<times> int) list"
  gr_found :: "(string \<times> string) list"

definition raise_degree :: "string \<Rightarrow> (string \<times> int) list \<Rightarrow> (string \<times> int) list" where
  "raise_degree x d = map (\<lambda>(k, n). (k, if k = x then n + 1 else n)) d"

definition lower_degree :: "string \<Rightarrow> (string \<times> int) list \<Rightarrow> (string \<times> int) list" where
  "lower_degree x d = map (\<lambda>(k, n). (k, if k = x then n - 1 else n)) d"

fun graph_references :: "(string \<times> seed_entry) list \<Rightarrow> seed_exists \<Rightarrow> string \<Rightarrow> seed_entry \<Rightarrow> seed_reference list \<Rightarrow> seed_graph
    \<Rightarrow> seed_error + seed_graph" where
  "graph_references ents ask identity e [] g = Inr g"
| "graph_references ents ask identity e (r # rs) g =
     (if rf_resource r \<noteq> se_resource e then graph_references ents ask identity e rs g
      else case value_at (se_record e) (rf_path r) of
        None \<Rightarrow> graph_references ents ask identity e rs g
      | Some (VText name) \<Rightarrow>
          (case cut_slash name of
             None \<Rightarrow> Inl (InOrder (ReferenceForm (value_source (se_record e) (rf_path r)) name (rf_target r)))
           | Some (alias, key) \<Rightarrow>
               if alias \<noteq> rf_target r \<or> key = '''' then Inl (InOrder (ReferenceForm (value_source (se_record e) (rf_path r)) name (rf_target r)))
               else if map_of ents (identity_in alias key) = None then
                 (case (case ask of None \<Rightarrow> Some False | Some f \<Rightarrow> f alias key) of
                    None \<Rightarrow> Inl (InOrder (ResolveFailed (value_source (se_record e) (rf_path r)) (identity_in alias key)))
                  | Some False \<Rightarrow> Inl (InOrder (MissingTarget (value_source (se_record e) (rf_path r)) identity (identity_in alias key)))
                  | Some True \<Rightarrow> graph_references ents ask identity e rs (g\<lparr>gr_found := gr_found g @ [(alias, key)]\<rparr>))
               else graph_references ents ask identity e rs
                      (g\<lparr>gr_dependents := (gr_dependents g)(identity_in alias key := gr_dependents g (identity_in alias key) @ [identity]),
                         gr_degree := raise_degree identity (gr_degree g)\<rparr>))
      | Some _ \<Rightarrow> Inl (InOrder (ReferenceNotText (value_source (se_record e) (rf_path r)) (rf_path r))))"

fun graph_entries :: "(string \<times> seed_entry) list \<Rightarrow> seed_exists \<Rightarrow> seed_reference list \<Rightarrow> (string \<times> seed_entry) list \<Rightarrow> seed_graph
    \<Rightarrow> seed_error + seed_graph" where
  "graph_entries ents ask refs [] g = Inr g"
| "graph_entries ents ask refs ((identity, e) # rest) g =
     (case graph_references ents ask identity e refs g of Inl err \<Rightarrow> Inl err | Inr g' \<Rightarrow> graph_entries ents ask refs rest g')"

definition dependency_graph :: "(string \<times> seed_entry) list \<Rightarrow> seed_reference list \<Rightarrow> seed_exists \<Rightarrow> seed_error + seed_graph" where
  "dependency_graph ents refs ask =
     graph_entries ents ask refs (sort_key fst ents)
       \<lparr>gr_dependents = (\<lambda>_. []), gr_degree = map (\<lambda>(i, _). (i, 0)) ents, gr_found = []\<rparr>"

fun release :: "string list \<Rightarrow> (string \<times> int) list \<Rightarrow> string list \<Rightarrow> (string \<times> int) list \<times> string list" where
  "release [] d ready = (d, ready)"
| "release (x # xs) d ready =
     (let d' = lower_degree x d in release xs d' (if map_of d' x = Some 0 then ready @ [x] else ready))"

text \<open>How much work is left: what waits and what has not been let go of yet.\<close>

definition waiting :: "(string \<times> int) list \<Rightarrow> nat" where
  "waiting d = sum_list (map (nat \<circ> snd) d)"

lemma waiting_lower: "waiting (lower_degree x d) \<le> waiting d"
  by (induction d) (auto simp: waiting_def lower_degree_def)

lemma waiting_ready: "map_of (lower_degree x d) x = Some 0 \<Longrightarrow> waiting (lower_degree x d) < waiting d"
proof (induction d)
  case (Cons p d)
  obtain k n where p: "p = (k, n)" by (cases p)
  show ?case
  proof (cases "k = x")
    case True
    with Cons.prems have "n = 1" by (simp add: p lower_degree_def)
    with waiting_lower [of x d] True show ?thesis by (simp add: p waiting_def lower_degree_def)
  next
    case False
    with Cons show ?thesis by (simp add: p waiting_def lower_degree_def)
  qed
qed (simp add: lower_degree_def)

lemma release_waiting: "release xs d ready = (d', ready') \<Longrightarrow> waiting d' + length ready' \<le> waiting d + length ready"
proof (induction xs arbitrary: d ready)
  case (Cons x xs)
  show ?case
  proof (cases "map_of (lower_degree x d) x = Some 0")
    case True
    with Cons.IH [of "lower_degree x d" "ready @ [x]"] Cons.prems waiting_ready [OF True] show ?thesis by (simp add: Let_def)
  next
    case False
    with Cons.IH [of "lower_degree x d" ready] Cons.prems waiting_lower [of x d] show ?thesis by (simp add: Let_def)
  qed
qed simp

function order_loop :: "(string \<Rightarrow> string list) \<Rightarrow> (string \<times> int) list \<Rightarrow> string list \<Rightarrow> string list \<Rightarrow> string list \<times> (string \<times> int) list" where
  "order_loop deps d [] out = (out, d)"
| "order_loop deps d (i # ready) out =
     (let (d', ready') = release (deps i) d ready in order_loop deps d' (sort ready') (out @ [i]))"
  by pat_completeness auto
termination
  by (relation "measure (\<lambda>(deps, d, ready, out). waiting d + length ready)") (auto dest: release_waiting [OF sym] simp: less_Suc_eq_le)

definition order_entries :: "(string \<times> seed_entry) list \<Rightarrow> seed_graph \<Rightarrow> string list \<times> (string \<times> int) list" where
  "order_entries ents g = order_loop (gr_dependents g) (gr_degree g) (sort (map fst (filter (\<lambda>(_, n). n = 0) (gr_degree g)))) []"

definition degree_of :: "(string \<times> int) list \<Rightarrow> string \<Rightarrow> int" where
  "degree_of d x = (case map_of d x of None \<Rightarrow> 0 | Some n \<Rightarrow> n)"

definition closing_reference :: "(string \<times> int) list \<Rightarrow> seed_entry \<Rightarrow> seed_reference \<Rightarrow> string option" where
  "closing_reference d e r =
     (if rf_resource r \<noteq> se_resource e then None
      else case value_at (se_record e) (rf_path r) of
        Some (VText name) \<Rightarrow> if 0 < degree_of d name then Some name else None
      | _ \<Rightarrow> None)"

definition reference_cycle :: "(string \<times> seed_entry) list \<Rightarrow> seed_reference list \<Rightarrow> (string \<times> int) list \<Rightarrow> seed_error" where
  "reference_cycle ents refs d =
     (let first = hd (sort (map fst (filter (\<lambda>(_, n). 0 < n) d)));
          e = the (map_of ents first)
      in case List.find (\<lambda>r. closing_reference d e r \<noteq> None) refs of
           Some r \<Rightarrow>
             (let name = the (closing_reference d e r)
              in InOrder (ClosesCycle (value_source (se_record e) (rf_path r)) first name (sr_source (se_record (the (map_of ents name))))))
         | None \<Rightarrow> InOrder (CycleIncludes (sr_source (se_record e)) first))"

definition order_seeds :: "seed_document list \<Rightarrow> seed_reference list \<Rightarrow> seed_exists \<Rightarrow> seed_error + (seed_entry list \<times> (string \<times> string) list)" where
  "order_seeds docs references ask =
     (case validate_references [] references of
        Some e \<Rightarrow> Inl e
      | None \<Rightarrow>
          let refs = sort_key rf_resource (sort_key rf_path references)
          in case index_entries [] docs of
               Inl e \<Rightarrow> Inl e
             | Inr ents \<Rightarrow>
                 (case dependency_graph ents refs ask of
                    Inl e \<Rightarrow> Inl e
                  | Inr g \<Rightarrow>
                      (case order_entries ents g of
                         (out, d) \<Rightarrow>
                           if length out \<noteq> length ents then Inl (reference_cycle ents refs d)
                           else Inr (map (\<lambda>i. the (map_of ents i)) out, gr_found g))))"

subsection \<open>Decisions\<close>

record seed_snapshot =
  sn_present :: bool
  sn_id :: uuid
  sn_fields :: "(string \<times> seed_value) list"
  sn_commands :: "(string \<times> seed_value) list"

record seed_target =
  tg_fields :: "(string \<times> seed_value) list"
  tg_commands :: "(string \<times> seed_value) list"
  tg_create_only :: "(string \<times> seed_value) list"

definition absent_row :: seed_snapshot where
  "absent_row = \<lparr>sn_present = False, sn_id = 0, sn_fields = [], sn_commands = []\<rparr>"

text \<open>A Go map read at a name it lacks is \<open>nil\<close>.\<close>

definition value_of :: "(string \<times> seed_value) list \<Rightarrow> string \<Rightarrow> seed_value" where
  "value_of m name = (case map_of m name of None \<Rightarrow> VNull | Some v \<Rightarrow> v)"

definition changed_in :: "string \<Rightarrow> (string \<times> seed_value) list \<Rightarrow> (string \<times> seed_value) list \<Rightarrow> string list" where
  "changed_in at current want = map (\<lambda>n. at @ n) (filter (\<lambda>n. value_of current n \<noteq> value_of want n) (sort (map fst want)))"

definition decide_seed :: "seed_snapshot \<Rightarrow> seed_target \<Rightarrow> seed_action \<times> string list" where
  "decide_seed current target =
     (if \<not> sn_present current then (SeedCreate, [])
      else let changed = changed_in ''fields/'' (sn_fields current) (tg_fields target) @ changed_in ''commands/'' (sn_commands current) (tg_commands target)
           in if changed = [] then (SeedUnchanged, []) else (SeedUpdate, changed))"

definition unapplied_field :: "seed_record \<Rightarrow> seed_target \<Rightarrow> (string \<times> seed_source) option" where
  "unapplied_field r t =
     map_option (\<lambda>n. (n, case map_of (sr_values r) (''fields/'' @ n) of
         Some at \<Rightarrow> if ss_file at = '''' then sr_source r else at | None \<Rightarrow> sr_source r))
       (List.find (\<lambda>n. map_of (tg_fields t) n = None \<and> map_of (tg_create_only t) n = None \<and> map_of (tg_commands t) n = None) (sort (map fst (sr_fields r))))"

end
