(* ===== verification/SeedRun.thy ===== *)
theory SeedRun
  imports Seeds
begin

section \<open>Seed runs\<close>

text \<open>
  \<open>kit/seed/service.go\<close>, \<open>run.go\<close>, \<open>reconcile.go\<close>, \<open>prune.go\<close> and \<open>keys.go\<close>: a run over one tenant.  The owners'
  rows are the type \<open>'s\<close>; a writer is a record of functions over them, an option's \<open>None\<close> being its error.
  The run lock makes a run one step; an error leaves the tables as they were, as its transaction does.
\<close>

record seed_resource =
  rs_alias :: string
  rs_module :: string
  rs_entity :: string
  rs_natural :: string
  rs_grant :: string
  rs_prunable :: bool
  rs_references :: "seed_reference list"
  rs_commands :: "string list"
  rs_canonical :: "(string \<Rightarrow> string) option"

definition canonical_key :: "seed_resource \<Rightarrow> string \<Rightarrow> string" where
  "canonical_key r value = (case rs_canonical r of None \<Rightarrow> value | Some f \<Rightarrow> f value)"

record seed_key =
  sk_value :: string
  sk_record :: uuid
  sk_kind :: string

record 's seed_writer =
  sw_resource :: seed_resource
  sw_target :: "seed_record \<Rightarrow> (string \<times> uuid) list \<Rightarrow> time \<Rightarrow> seed_target option"
  sw_read :: "seed_key \<Rightarrow> 's \<Rightarrow> seed_snapshot option"
  sw_create :: "seed_target \<Rightarrow> 's \<Rightarrow> ('s \<times> seed_snapshot) option"
  sw_update :: "seed_snapshot \<Rightarrow> seed_target \<Rightarrow> 's \<Rightarrow> ('s \<times> seed_snapshot) option"
  sw_delete :: "seed_snapshot \<Rightarrow> 's \<Rightarrow> 's option"

text \<open>The table \<open>seed_keys\<close>, and the tenant's own flag.\<close>

record seed_mapping =
  sm_module :: string
  sm_entity :: string
  sm_key :: string
  sm_kind :: string
  sm_record :: "uuid option"

record 's seed_db =
  sdb_rows :: 's
  sdb_keys :: "seed_mapping list"
  sdb_demo :: bool

subsection \<open>Provenance\<close>

definition maps_key :: "seed_resource \<Rightarrow> string \<Rightarrow> seed_mapping \<Rightarrow> bool" where
  "maps_key r value m \<longleftrightarrow> sm_module m = rs_module r \<and> sm_entity m = rs_entity r \<and> sm_key m = value"

definition lookup_key :: "seed_resource \<Rightarrow> string \<Rightarrow> seed_mapping list \<Rightarrow> seed_key \<times> bool" where
  "lookup_key r value keys =
     (case List.find (maps_key r value) keys of
        None \<Rightarrow> (\<lparr>sk_value = (if rs_natural r = '''' then '''' else value), sk_record = uuid_nil, sk_kind = ''''\<rparr>, False)
      | Some m \<Rightarrow> (\<lparr>sk_value = value, sk_record = (case sm_record m of None \<Rightarrow> uuid_nil | Some i \<Rightarrow> i), sk_kind = sm_kind m\<rparr>, True))"

definition put_key :: "seed_resource \<Rightarrow> string \<Rightarrow> string \<Rightarrow> uuid \<Rightarrow> seed_mapping list \<Rightarrow> seed_mapping list" where
  "put_key r value kind i keys =
     (let rec = (if i = uuid_nil then None else Some i)
      in if list_ex (maps_key r value) keys then map (\<lambda>m. if maps_key r value m then m\<lparr>sm_kind := kind, sm_record := rec\<rparr> else m) keys
         else keys @ [\<lparr>sm_module = rs_module r, sm_entity = rs_entity r, sm_key = value, sm_kind = kind, sm_record = rec\<rparr>])"

definition owned_keys :: "seed_resource \<Rightarrow> string \<Rightarrow> seed_mapping list \<Rightarrow> seed_key list" where
  "owned_keys r kind keys =
     map (\<lambda>m. \<lparr>sk_value = sm_key m, sk_record = (case sm_record m of None \<Rightarrow> uuid_nil | Some i \<Rightarrow> i), sk_kind = ''''\<rparr>)
       (sort_key sm_key (filter (\<lambda>m. sm_module m = rs_module r \<and> sm_entity m = rs_entity r \<and> sm_kind m = kind) keys))"

definition delete_key :: "seed_resource \<Rightarrow> string \<Rightarrow> seed_mapping list \<Rightarrow> seed_mapping list option" where
  "delete_key r value keys =
     (if length (filter (maps_key r value) keys) \<noteq> 1 then None else Some (filter (\<lambda>m. \<not> maps_key r value m) keys))"

subsection \<open>The service\<close>

record 's seed_service =
  sv_yaml :: yaml_port
  sv_tree :: seed_tree
  sv_root :: string
  sv_writers :: "(string \<times> 's seed_writer) list"
  sv_may :: "bool \<Rightarrow> seed_resource \<Rightarrow> seed_action \<Rightarrow> 's \<Rightarrow> bool"

definition writer_refused :: "(string \<times> 's seed_writer) list \<Rightarrow> string list \<Rightarrow> 's seed_writer \<Rightarrow> bool" where
  "writer_refused ws owners w \<longleftrightarrow>
     (let r = sw_resource w
      in \<not> valid_seed_name (rs_alias r) \<or> \<not> valid_seed_name (rs_module r) \<or> \<not> valid_seed_name (rs_entity r) \<or> rs_grant r = ''''
         \<or> map_of ws (rs_alias r) \<noteq> None \<or> rs_module r @ ''/'' @ rs_entity r \<in> set owners
         \<or> list_ex (\<lambda>ref. rf_resource ref \<noteq> rs_alias r) (rs_references r))"

text \<open>The writer list \<open>New\<close> takes, by alias.\<close>

fun new_writers :: "(string \<times> 's seed_writer) list \<Rightarrow> string list \<Rightarrow> 's seed_writer list \<Rightarrow> seed_error + (string \<times> 's seed_writer) list" where
  "new_writers ws owners [] = Inr ws"
| "new_writers ws owners (w # more_writers) =
     (if writer_refused ws owners w then Inl (InRun (IncompleteWriter (rs_alias (sw_resource w))))
      else new_writers (ws @ [(rs_alias (sw_resource w), w)]) ((rs_module (sw_resource w) @ ''/'' @ rs_entity (sw_resource w)) # owners) more_writers)"

record seed_item =
  it_action :: seed_action
  it_resource :: string
  it_key :: string
  it_source :: seed_source
  it_changed :: "string list"
  it_record :: uuid

record seed_plan =
  pl_kinds :: "string list"
  pl_at :: time
  pl_items :: "seed_item list"
  pl_warnings :: "string list"

definition select_kinds :: "bool \<Rightarrow> 's seed_db \<Rightarrow> seed_error + string list" where
  "select_kinds demo db =
     (if \<not> demo then Inr [''starter'']
      else if \<not> sdb_demo db then Inl (InRun DemoRefused) else Inr [''starter'', ''demo''])"

fun check_records :: "seed_resource \<Rightarrow> (string \<times> seed_source) list \<Rightarrow> seed_record list \<Rightarrow> seed_error + (string \<times> seed_source) list" where
  "check_records r seen [] = Inr seen"
| "check_records r seen (rec # recs) =
     (let identity = identity_in (rs_alias r) (canonical_key r (sr_key rec))
      in case map_of seen identity of
           Some prior \<Rightarrow> Inl (InRun (DeclaredTwice (sr_source rec) identity prior))
         | None \<Rightarrow>
             (case List.find (\<lambda>c. sc_name c \<notin> set (rs_commands r)) (sr_commands rec) of
                Some c \<Rightarrow> Inl (InRun (NoSuchCommand (sc_source c) (sc_name c)))
              | None \<Rightarrow> check_records r ((identity, sr_source rec) # seen) recs))"

fun check_documents :: "(string \<times> 's seed_writer) list \<Rightarrow> (string \<times> seed_source) list \<Rightarrow> string list \<Rightarrow> seed_document list
    \<Rightarrow> seed_error + seed_reference list" where
  "check_documents ws seen listed [] = Inr []"
| "check_documents ws seen listed (d # ds) =
     (case map_of ws (sd_resource d) of
        None \<Rightarrow> Inl (InRun (NoWriter (sd_source d) (sd_resource d)))
      | Some w \<Rightarrow>
          let r = sw_resource w
          in if sd_prune d \<and> \<not> rs_prunable r then Inl (InRun (NoDeletePath (sd_source d) (sd_resource d)))
             else case check_records r seen (sd_records d) of
               Inl e \<Rightarrow> Inl e
             | Inr seen' \<Rightarrow>
                 (case check_documents ws seen' (if rs_alias r \<in> set listed then listed else rs_alias r # listed) ds of
                    Inl e \<Rightarrow> Inl e
                  | Inr refs \<Rightarrow> Inr ((if rs_alias r \<in> set listed then [] else rs_references r) @ refs)))"

definition i18n_warnings :: "seed_document list \<Rightarrow> string list" where
  "i18n_warnings docs = concat (map (\<lambda>d. map (\<lambda>r. identity_in (sd_resource d) (sr_key r) @ '' i18n skipped: translation writer unavailable'')
     (filter (\<lambda>r. sr_i18n r \<noteq> []) (sd_records d))) docs)"

text \<open>\<open>existing\<close>: \<open>None\<close> is an error, \<open>Some None\<close> no row.\<close>

definition existing :: "(string \<times> 's seed_writer) list \<Rightarrow> 's seed_db \<Rightarrow> string \<Rightarrow> string \<Rightarrow> uuid option option" where
  "existing ws db al key =
     (case map_of ws al of
        None \<Rightarrow> Some None
      | Some w \<Rightarrow>
          (case sw_read w (fst (lookup_key (sw_resource w) (canonical_key (sw_resource w) key) (sdb_keys db))) (sdb_rows db) of
             None \<Rightarrow> None
           | Some row \<Rightarrow> Some (if sn_present row then Some (sn_id row) else None)))"

definition resolved_outside :: "(string \<times> 's seed_writer) list \<Rightarrow> 's seed_db \<Rightarrow> (string \<times> string) list \<Rightarrow> (string \<times> uuid) list" where
  "resolved_outside ws db found =
     fold (\<lambda>(al, key) res. case existing ws db al key of Some (Some i) \<Rightarrow> (identity_in al key, i) # res | _ \<Rightarrow> res) found []"

subsection \<open>One record\<close>

definition reconcile_apply :: "'s seed_writer \<Rightarrow> string \<Rightarrow> seed_key \<Rightarrow> bool \<Rightarrow> seed_entry \<Rightarrow> seed_snapshot \<Rightarrow> seed_target \<Rightarrow> seed_action
    \<Rightarrow> 's seed_db \<Rightarrow> seed_error + ('s seed_db \<times> seed_snapshot)" where
  "reconcile_apply w identity key owned e current target action db =
     (case (case action of
              SeedCreate \<Rightarrow> sw_create w target (sdb_rows db)
            | SeedUpdate \<Rightarrow> sw_update w current target (sdb_rows db)
            | _ \<Rightarrow> Some (sdb_rows db, current)) of
        None \<Rightarrow> Inl (InRun (OwnerFailed (sr_source (se_record e))))
      | Some (rows, row) \<Rightarrow>
          let put = db\<lparr>sdb_rows := rows, sdb_keys := put_key (sw_resource w) identity (se_kind e) (sn_id row) (sdb_keys db)\<rparr>
          in if action \<noteq> SeedUnchanged
             then (if \<not> sn_present row then Inl (InRun (NoRowReturned (sr_source (se_record e)))) else Inr (put, row))
             else if owned \<and> sk_kind key \<noteq> se_kind e then Inr (put, row)
             else Inr (db\<lparr>sdb_rows := rows\<rparr>, row))"

definition reconcile :: "'s seed_service \<Rightarrow> bool \<Rightarrow> bool \<Rightarrow> time \<Rightarrow> seed_entry \<Rightarrow> (string \<times> uuid) list \<Rightarrow> 's seed_db
    \<Rightarrow> seed_error + ('s seed_db \<times> (string \<times> uuid) list \<times> seed_item)" where
  "reconcile sv provisioning apply at e resolved db =
     (let w = the (map_of (sv_writers sv) (se_resource e)); r = sw_resource w; rec = se_record e; src = sr_source rec;
          identity = canonical_key r (sr_key rec)
      in if \<not> sv_may sv provisioning r SeedUpdate (sdb_rows db) then Inl (InRun (NotGranted src))
         else case lookup_key r identity (sdb_keys db) of
           (key, owned) \<Rightarrow>
             (case sw_read w key (sdb_rows db) of
                None \<Rightarrow> Inl (InRun (OwnerFailed src))
              | Some current \<Rightarrow>
                  (case sw_target w rec resolved at of
                     None \<Rightarrow> Inl (InRun (OwnerFailed src))
                   | Some target \<Rightarrow>
                       (case unapplied_field rec target of
                          Some (name, where_) \<Rightarrow> Inl (InRun (FieldUnapplied where_ (identity_in (se_resource e) (sr_key rec)) name))
                        | None \<Rightarrow>
                            (case decide_seed current target of
                               (action, changed) \<Rightarrow>
                                 if provisioning \<and> action \<noteq> SeedCreate then Inl (InRun (AlreadyExists src (identity_in (se_resource e) (sr_key rec))))
                                 else if sn_present current \<and> \<not> owned \<and> action = SeedUpdate
                                 then Inl (InRun (UnownedRow src (identity_in (se_resource e) (sr_key rec))))
                                 else if action = SeedCreate \<and> \<not> sv_may sv provisioning r SeedCreate (sdb_rows db) then Inl (InRun (NotGranted src))
                                 else
                                   (case (if apply then reconcile_apply w identity key owned e current target action db else Inr (db, current)) of
                                      Inl err \<Rightarrow> Inl err
                                    | Inr (db', row) \<Rightarrow>
                                        Inr (db', (identity_in (se_resource e) (sr_key rec), sn_id row) # (identity_in (se_resource e) identity, sn_id row) # resolved,
                                          \<lparr>it_action = action, it_resource = se_resource e, it_key = sr_key rec, it_source = src, it_changed = changed,
                                             it_record = (if apply \<and> action \<noteq> SeedUnchanged then sn_id row else sn_id current)\<rparr>)))))))"

fun reconcile_all :: "'s seed_service \<Rightarrow> bool \<Rightarrow> bool \<Rightarrow> time \<Rightarrow> seed_entry list \<Rightarrow> (string \<times> uuid) list \<Rightarrow> 's seed_db
    \<Rightarrow> seed_error + ('s seed_db \<times> (string \<times> uuid) list \<times> seed_item list)" where
  "reconcile_all sv provisioning apply at [] resolved db = Inr (db, resolved, [])"
| "reconcile_all sv provisioning apply at (e # es) resolved db =
     (case reconcile sv provisioning apply at e resolved db of
        Inl err \<Rightarrow> Inl err
      | Inr (db', resolved', item) \<Rightarrow>
          (case reconcile_all sv provisioning apply at es resolved' db' of
             Inl err \<Rightarrow> Inl err
           | Inr (db'', resolved'', items) \<Rightarrow> Inr (db'', resolved'', item # items)))"


subsection \<open>Pruning\<close>

definition pruning_documents :: "seed_document list \<Rightarrow> string \<Rightarrow> seed_document list" where
  "pruning_documents docs al = filter (\<lambda>d. sd_resource d = al \<and> sd_prune d) docs"

definition keep_keys :: "(string \<times> 's seed_writer) list \<Rightarrow> seed_document list \<Rightarrow> string \<Rightarrow> string list" where
  "keep_keys ws docs al =
     concat (map (\<lambda>d. map (\<lambda>r. canonical_key (sw_resource (the (map_of ws al))) (sr_key r)) (sd_records d)) (filter (\<lambda>d. sd_resource d = al) docs))"

definition declared_rows :: "(string \<times> 's seed_writer) list \<Rightarrow> seed_document list \<Rightarrow> (string \<times> uuid) list \<Rightarrow> string \<Rightarrow> uuid list" where
  "declared_rows ws docs resolved al =
     filter (\<lambda>i. i \<noteq> uuid_nil)
       (concat (map (\<lambda>d. concat (map (\<lambda>r. concat (map (\<lambda>n. case map_of resolved (identity_in al n) of None \<Rightarrow> [] | Some i \<Rightarrow> [i])
            [canonical_key (sw_resource (the (map_of ws al))) (sr_key r), sr_key r])) (sd_records d)))
          (filter (\<lambda>d. sd_resource d = al) docs)))"

text \<open>The resources that prune, targets before those that refer to them; the walk is the resolver's.\<close>

definition pruning_aliases :: "seed_document list \<Rightarrow> string list" where
  "pruning_aliases docs = sort (remdups (map sd_resource (filter sd_prune docs)))"

definition prune_targets :: "(string \<times> 's seed_writer) list \<Rightarrow> seed_document list \<Rightarrow> string \<Rightarrow> string list" where
  "prune_targets ws docs al =
     map rf_target (filter (\<lambda>ref. rf_target ref \<noteq> al \<and> pruning_documents docs (rf_target ref) \<noteq> []) (rs_references (sw_resource (the (map_of ws al)))))"

definition prune_order :: "(string \<times> 's seed_writer) list \<Rightarrow> seed_document list \<Rightarrow> seed_error + string list" where
  "prune_order ws docs =
     (case visit (length (pruning_aliases docs) + 1) (prune_targets ws docs) (pruning_aliases docs) [] [] of
        Some (Inr placed) \<Rightarrow> Inr (rev placed)
      | Some (Inl c) \<Rightarrow> Inl (InRun (PruneCycle (hd c)))
      | None \<Rightarrow> Inl (InRun (PruneCycle '''')))"

lemma prune_order_fuel: "visit (length (pruning_aliases docs) + 1) (prune_targets ws docs) (pruning_aliases docs) [] [] \<noteq> None"
proof (rule visit_enough [where N = "set (pruning_aliases docs)"])
  show "set (prune_targets ws docs x) \<subseteq> set (pruning_aliases docs)" for x
    by (auto simp: prune_targets_def pruning_aliases_def pruning_documents_def filter_empty_conv image_iff) metis
  have "card (set (pruning_aliases docs)) \<le> length (pruning_aliases docs)" by (rule card_length)
  then show "card (set (pruning_aliases docs)) < length (pruning_aliases docs) + 1 + length ([] :: string list)" by simp
qed simp_all

definition prune_item :: "seed_document \<Rightarrow> string \<Rightarrow> uuid \<Rightarrow> seed_item" where
  "prune_item d key i = \<lparr>it_action = SeedPrune, it_resource = sd_resource d, it_key = key, it_source = sd_source d, it_changed = [], it_record = i\<rparr>"

definition prune_candidate :: "'s seed_service \<Rightarrow> bool \<Rightarrow> bool \<Rightarrow> 's seed_writer \<Rightarrow> seed_document \<Rightarrow> uuid list \<Rightarrow> seed_key \<Rightarrow> 's seed_db
    \<Rightarrow> seed_error + ('s seed_db \<times> seed_item list)" where
  "prune_candidate sv provisioning apply w d rows key db =
     (let r = sw_resource w
      in if \<not> sv_may sv provisioning r SeedPrune (sdb_rows db) then Inl (InRun (NotGranted (sd_source d)))
         else case sw_read w key (sdb_rows db) of
           None \<Rightarrow> Inl (InRun (OwnerFailed (sd_source d)))
         | Some row \<Rightarrow>
             if sn_present row \<and> sn_id row \<in> set rows then Inr (db, [])
             else if \<not> apply then Inr (db, [prune_item d (sk_value key) (if sn_present row then sn_id row else uuid_nil)])
             else case (if sn_present row then sw_delete w row (sdb_rows db) else Some (sdb_rows db)) of
               None \<Rightarrow> Inl (InRun (OwnerFailed (sd_source d)))
             | Some owners \<Rightarrow>
                 (case delete_key r (sk_value key) (sdb_keys db) of
                    None \<Rightarrow> Inl (InRun (KeyDisappeared (identity_in (rs_alias r) (sk_value key))))
                  | Some keys \<Rightarrow> Inr (db\<lparr>sdb_rows := owners, sdb_keys := keys\<rparr>, [prune_item d (sk_value key) (if sn_present row then sn_id row else uuid_nil)])))"

fun prune_keys :: "'s seed_service \<Rightarrow> bool \<Rightarrow> bool \<Rightarrow> 's seed_writer \<Rightarrow> seed_document \<Rightarrow> string list \<Rightarrow> uuid list \<Rightarrow> seed_key list \<Rightarrow> 's seed_db
    \<Rightarrow> seed_error + ('s seed_db \<times> seed_item list)" where
  "prune_keys sv provisioning apply w d keeps rows [] db = Inr (db, [])"
| "prune_keys sv provisioning apply w d keeps rows (k # ks) db =
     (if sk_value k \<in> set keeps then prune_keys sv provisioning apply w d keeps rows ks db
      else case prune_candidate sv provisioning apply w d rows k db of
        Inl e \<Rightarrow> Inl e
      | Inr (db', items) \<Rightarrow>
          (case prune_keys sv provisioning apply w d keeps rows ks db' of Inl e \<Rightarrow> Inl e | Inr (db'', more_items) \<Rightarrow> Inr (db'', items @ more_items)))"

fun prune_documents :: "'s seed_service \<Rightarrow> bool \<Rightarrow> bool \<Rightarrow> 's seed_writer \<Rightarrow> string list \<Rightarrow> uuid list \<Rightarrow> seed_document list \<Rightarrow> 's seed_db
    \<Rightarrow> seed_error + ('s seed_db \<times> seed_item list)" where
  "prune_documents sv provisioning apply w keeps rows [] db = Inr (db, [])"
| "prune_documents sv provisioning apply w keeps rows (d # ds) db =
     (case prune_keys sv provisioning apply w d keeps rows (owned_keys (sw_resource w) (sd_kind d) (sdb_keys db)) db of
        Inl e \<Rightarrow> Inl e
      | Inr (db', items) \<Rightarrow>
          (case prune_documents sv provisioning apply w keeps rows ds db' of Inl e \<Rightarrow> Inl e | Inr (db'', more_items) \<Rightarrow> Inr (db'', items @ more_items)))"

fun prune_aliases :: "'s seed_service \<Rightarrow> bool \<Rightarrow> bool \<Rightarrow> seed_document list \<Rightarrow> (string \<times> uuid) list \<Rightarrow> string list \<Rightarrow> 's seed_db
    \<Rightarrow> seed_error + ('s seed_db \<times> seed_item list)" where
  "prune_aliases sv provisioning apply docs resolved [] db = Inr (db, [])"
| "prune_aliases sv provisioning apply docs resolved (al # als) db =
     (case prune_documents sv provisioning apply (the (map_of (sv_writers sv) al)) (keep_keys (sv_writers sv) docs al)
         (declared_rows (sv_writers sv) docs resolved al) (pruning_documents docs al) db of
        Inl e \<Rightarrow> Inl e
      | Inr (db', items) \<Rightarrow>
          (case prune_aliases sv provisioning apply docs resolved als db' of Inl e \<Rightarrow> Inl e | Inr (db'', more_items) \<Rightarrow> Inr (db'', items @ more_items)))"

definition prune_seeds :: "'s seed_service \<Rightarrow> bool \<Rightarrow> bool \<Rightarrow> seed_document list \<Rightarrow> (string \<times> uuid) list \<Rightarrow> 's seed_db
    \<Rightarrow> seed_error + ('s seed_db \<times> seed_item list)" where
  "prune_seeds sv provisioning apply docs resolved db =
     (if pruning_aliases docs = [] then Inr (db, [])
      else case prune_order (sv_writers sv) docs of
        Inl e \<Rightarrow> Inl e
      | Inr als \<Rightarrow> prune_aliases sv provisioning apply docs resolved (rev als) db)"

subsection \<open>A run\<close>

definition run_documents :: "'s seed_service \<Rightarrow> bool \<Rightarrow> bool \<Rightarrow> time \<Rightarrow> string list \<Rightarrow> seed_document list \<Rightarrow> 's seed_db
    \<Rightarrow> seed_error + ('s seed_db \<times> seed_plan)" where
  "run_documents sv provisioning apply at kinds docs db =
     (case check_documents (sv_writers sv) [] [] docs of
        Inl e \<Rightarrow> Inl e
      | Inr refs \<Rightarrow>
          (case order_seeds docs refs (Some (\<lambda>al key. map_option (\<lambda>row. row \<noteq> None) (existing (sv_writers sv) db al key))) of
             Inl e \<Rightarrow> Inl e
           | Inr (ordered, found) \<Rightarrow>
               (case reconcile_all sv provisioning apply at ordered (resolved_outside (sv_writers sv) db found) db of
                  Inl e \<Rightarrow> Inl e
                | Inr (db', resolved, items) \<Rightarrow>
                    (case prune_seeds sv provisioning apply docs resolved db' of
                       Inl e \<Rightarrow> Inl e
                     | Inr (db'', pruned) \<Rightarrow>
                         Inr (db'', \<lparr>pl_kinds = kinds, pl_at = at, pl_items = items @ pruned, pl_warnings = i18n_warnings docs\<rparr>)))))"

definition seed_run :: "'s seed_service \<Rightarrow> bool \<Rightarrow> bool \<Rightarrow> bool \<Rightarrow> time \<Rightarrow> 's seed_db \<Rightarrow> 's seed_db \<times> (seed_error + seed_plan)" where
  "seed_run sv demo provisioning apply at db =
     (case select_kinds demo db of
        Inl e \<Rightarrow> (db, Inl e)
      | Inr kinds \<Rightarrow>
          (case load_seeds (sv_yaml sv) (sv_tree sv) (sv_root sv) kinds of
             Inl e \<Rightarrow> (db, Inl e)
           | Inr docs \<Rightarrow>
               (case run_documents sv provisioning apply at kinds docs db of
                  Inl e \<Rightarrow> (db, Inl e)
                | Inr (db', plan) \<Rightarrow> (db', Inr plan))))"

definition seed_plan_only :: "'s seed_service \<Rightarrow> bool \<Rightarrow> time \<Rightarrow> 's seed_db \<Rightarrow> 's seed_db \<times> (seed_error + seed_plan)" where
  "seed_plan_only sv demo at db = seed_run sv demo False False at db"

definition seed_apply :: "'s seed_service \<Rightarrow> bool \<Rightarrow> time \<Rightarrow> 's seed_db \<Rightarrow> 's seed_db \<times> (seed_error + seed_plan)" where
  "seed_apply sv demo at db = seed_run sv demo False True at db"

definition seed_apply_provisioned :: "'s seed_service \<Rightarrow> bool \<Rightarrow> time \<Rightarrow> 's seed_db \<Rightarrow> 's seed_db \<times> (seed_error + seed_plan)" where
  "seed_apply_provisioned sv demo at db =
     (if sdb_keys db \<noteq> [] then (db, Inl (InRun AlreadySeeded)) else seed_run sv demo True True at db)"

end
