(* ===== verification/SeedOrder.thy ===== *)
theory SeedOrder
  imports Seeds "HOL-Library.Multiset"
begin

section \<open>The order of seed records\<close>

text \<open>
  What \<open>Order\<close> promises: \<open>local_targets\<close> are the records of the same files an entry refers to; the graph
  counts them, the loop lets an entry go when all of them have gone, and what is left when it ends is
  held up by a cycle.
\<close>

subsection \<open>The entries\<close>

definition entry_identity :: "seed_entry \<Rightarrow> string" where
  "entry_identity e = identity_in (se_resource e) (sr_key (se_record e))"

definition document_entries :: "seed_document \<Rightarrow> seed_entry list" where
  "document_entries d = map (\<lambda>r. \<lparr>se_kind = sd_kind d, se_resource = sd_resource d, se_record = r\<rparr>) (sd_records d)"

definition declared_entries :: "seed_document list \<Rightarrow> seed_entry list" where
  "declared_entries docs = concat (map document_entries docs)"

definition indexed :: "(string \<times> seed_entry) list \<Rightarrow> bool" where
  "indexed ents \<longleftrightarrow> distinct (map fst ents) \<and> list_all (\<lambda>(i, e). i = entry_identity e) ents"

lemma index_records_result:
  "index_records kind resource ents rs = Inr ents' \<Longrightarrow> indexed ents
    \<Longrightarrow> indexed ents' \<and> map snd ents' = map snd ents @ map (\<lambda>r. \<lparr>se_kind = kind, se_resource = resource, se_record = r\<rparr>) rs"
proof (induction rs arbitrary: ents)
  case (Cons r rs)
  let ?e = "\<lparr>se_kind = kind, se_resource = resource, se_record = r\<rparr>"
  have new: "map_of ents (identity_in resource (sr_key r)) = None"
    and rest: "index_records kind resource (ents @ [(identity_in resource (sr_key r), ?e)]) rs = Inr ents'"
    using Cons.prems(1) by (auto split: option.splits)
  have "indexed (ents @ [(identity_in resource (sr_key r), ?e)])"
    using Cons.prems(2) new by (auto simp: indexed_def entry_identity_def map_of_eq_None_iff)
  from Cons.IH [OF rest this] show ?case by simp
qed simp

lemma index_entries_result:
  "index_entries ents docs = Inr ents' \<Longrightarrow> indexed ents \<Longrightarrow> indexed ents' \<and> map snd ents' = map snd ents @ declared_entries docs"
proof (induction docs arbitrary: ents)
  case (Cons d docs)
  then obtain ents1 where one: "index_records (sd_kind d) (sd_resource d) ents (sd_records d) = Inr ents1"
    and rest: "index_entries ents1 docs = Inr ents'" by (auto split: sum.splits)
  from index_records_result [OF one Cons.prems(2)] Cons.IH [OF rest]
  show ?case by (simp add: declared_entries_def document_entries_def)
qed (simp add: declared_entries_def)

lemma indexed_lookup: "indexed ents \<Longrightarrow> (i, e) \<in> set ents \<longleftrightarrow> map_of ents i = Some e"
  by (auto simp: indexed_def map_of_eq_Some_iff)

lemma indexed_identity: "indexed ents \<Longrightarrow> map_of ents i = Some e \<Longrightarrow> entry_identity e = i"
  by (auto simp: indexed_def list_all_iff dest: map_of_SomeD)

subsection \<open>References\<close>

text \<open>What an entry refers to under the declared references, as the file spells it.\<close>

definition reference_value :: "seed_entry \<Rightarrow> seed_reference \<Rightarrow> seed_value option" where
  "reference_value e r = (if rf_resource r \<noteq> se_resource e then None else value_at (se_record e) (rf_path r))"

definition refers :: "seed_entry \<Rightarrow> seed_reference \<Rightarrow> string \<Rightarrow> bool" where
  "refers e r name \<longleftrightarrow> reference_value e r = Some (VText name)"

definition local_target :: "(string \<times> seed_entry) list \<Rightarrow> seed_entry \<Rightarrow> seed_reference \<Rightarrow> string list" where
  "local_target ents e r =
     (case reference_value e r of Some (VText name) \<Rightarrow> if map_of ents name = None then [] else [name] | _ \<Rightarrow> [])"

definition local_targets :: "(string \<times> seed_entry) list \<Rightarrow> seed_reference list \<Rightarrow> seed_entry \<Rightarrow> string list" where
  "local_targets ents refs e = concat (map (local_target ents e) refs)"

definition reference_met :: "(string \<times> seed_entry) list \<Rightarrow> seed_exists \<Rightarrow> seed_entry \<Rightarrow> seed_reference \<Rightarrow> bool" where
  "reference_met ents ask e r \<longleftrightarrow>
     (case reference_value e r of
        None \<Rightarrow> True
      | Some (VText name) \<Rightarrow> map_of ents name \<noteq> None
          \<or> (\<exists>f al key. ask = Some f \<and> name = identity_in al key \<and> al = rf_target r \<and> f al key = Some True)
      | _ \<Rightarrow> False)"

lemma cut_slash_joins: "cut_slash s = Some (a, b) \<Longrightarrow> identity_in a b = s"
proof -
  assume c: "cut_slash s = Some (a, b)"
  then have s: "CHR ''/'' \<in> set s" and a: "a = takeWhile (\<lambda>c. c \<noteq> CHR ''/'') s" and b: "b = tl (dropWhile (\<lambda>c. c \<noteq> CHR ''/'') s)"
    by (auto simp: cut_slash_def split: if_splits)
  have "dropWhile (\<lambda>c. c \<noteq> CHR ''/'') s \<noteq> []" using s by (auto simp: dropWhile_eq_Nil_conv)
  then have "dropWhile (\<lambda>c. c \<noteq> CHR ''/'') s = CHR ''/'' # b" using hd_dropWhile [of "\<lambda>c. c \<noteq> CHR ''/''" s] by (metis b list.collapse)
  then show ?thesis using takeWhile_dropWhile_id [of "\<lambda>c. c \<noteq> CHR ''/''" s] by (simp add: identity_in_def a)
qed

text \<open>The graph: one edge back from each local target, counted forward.\<close>

definition graph_counts :: "(string \<Rightarrow> string list) \<Rightarrow> seed_graph \<Rightarrow> bool" where
  "graph_counts targets g \<longleftrightarrow> distinct (map fst (gr_degree g))
     \<and> (\<forall>i n. map_of (gr_degree g) i = Some n \<longrightarrow> n = int (length (targets i)))
     \<and> (\<forall>t i. count_list (gr_dependents g t) i = count_list (targets i) t)"

lemma map_of_raise: "map_of (raise_degree x d) i = map_option (\<lambda>n. if i = x then n + 1 else n) (map_of d i)"
  by (induction d) (auto simp: raise_degree_def)

lemma map_of_lower: "map_of (lower_degree x d) i = map_option (\<lambda>n. if i = x then n - 1 else n) (map_of d i)"
  by (induction d) (auto simp: lower_degree_def)

lemma degree_keys [simp]: "map fst (raise_degree x d) = map fst d" "map fst (lower_degree x d) = map fst d"
  by (auto simp: raise_degree_def lower_degree_def)

lemma count_list_append [simp]: "count_list (xs @ ys) x = count_list xs x + count_list ys x"
  by (induction xs) auto

lemma graph_references_result:
  "graph_references ents ask i e refs g = Inr g' \<Longrightarrow> graph_counts targets g
    \<Longrightarrow> graph_counts (targets(i := targets i @ local_targets ents refs e)) g' \<and> map fst (gr_degree g') = map fst (gr_degree g)
      \<and> list_all (reference_met ents ask e) refs"
proof (induction ents ask i e refs g arbitrary: targets rule: graph_references.induct)
  case (1 ents ask i e g)
  then show ?case by (simp add: local_targets_def)
next
  case (2 ents ask i e r rs g)
  show ?case
  proof (cases "reference_value e r")
    case None
    then have "graph_references ents ask i e rs g = Inr g'" using "2.prems"(1) by (auto simp: reference_value_def split: if_splits)
    moreover have "local_target ents e r = []" "reference_met ents ask e r" by (simp_all add: local_target_def reference_met_def None)
    ultimately show ?thesis using "2.IH"(1,2) "2.prems"(2) None
      by (cases "rf_resource r \<noteq> se_resource e") (auto simp: local_targets_def reference_value_def)
  next
    case (Some v)
    then have res: "\<not> rf_resource r \<noteq> se_resource e" and v: "value_at (se_record e) (rf_path r) = Some v"
      by (auto simp: reference_value_def split: if_splits)
    obtain name where name: "v = VText name" using "2.prems"(1) res v by (cases v) auto
    obtain al key where cut: "cut_slash name = Some (al, key)" and ok: "\<not> (al \<noteq> rf_target r \<or> key = '''')"
      using "2.prems"(1) res v name by (auto split: option.splits if_splits)
    note id = cut_slash_joins [OF cut]
    show ?thesis
    proof (cases "map_of ents name = None")
      case True
      then have n: "map_of ents (identity_in al key) = None" by (simp add: id)
      have yes: "(case ask of None \<Rightarrow> Some False | Some f \<Rightarrow> f al key) = Some True"
        and rest: "graph_references ents ask i e rs (g\<lparr>gr_found := gr_found g @ [(al, key)]\<rparr>) = Inr g'"
        using "2.prems"(1) res v name cut ok n by (auto split: option.splits bool.splits)
      have "graph_counts targets (g\<lparr>gr_found := gr_found g @ [(al, key)]\<rparr>)" using "2.prems"(2) by (simp add: graph_counts_def)
      note ih = "2.IH"(3) [OF res v name cut refl ok n yes refl rest this]
      have "local_target ents e r = []" using True Some name by (simp add: local_target_def)
      moreover have "reference_met ents ask e r" using yes ok id Some name by (auto simp: reference_met_def split: option.splits)
      ultimately show ?thesis using ih by (simp add: local_targets_def)
    next
      case False
      then have n: "map_of ents (identity_in al key) \<noteq> None" by (simp add: id)
      let ?g = "g\<lparr>gr_dependents := (gr_dependents g)(identity_in al key := gr_dependents g (identity_in al key) @ [i]),
                   gr_degree := raise_degree i (gr_degree g)\<rparr>"
      have rest: "graph_references ents ask i e rs ?g = Inr g'" using "2.prems"(1) res v name cut ok n by (auto split: option.splits)
      have "graph_counts (targets(i := targets i @ [name])) ?g"
        using "2.prems"(2) by (auto simp: graph_counts_def map_of_raise id)
      note ih = "2.IH"(4) [OF res v name cut refl ok n rest this]
      have "local_target ents e r = [name]" "reference_met ents ask e r"
        using False Some name by (simp_all add: local_target_def reference_met_def)
      then show ?thesis using ih by (simp add: local_targets_def cong: if_cong)
    qed
  qed
qed


lemma graph_entries_result:
  "graph_entries ents ask refs rest g = Inr g' \<Longrightarrow> graph_counts targets g \<Longrightarrow> distinct (map fst rest)
    \<Longrightarrow> graph_counts (\<lambda>i. case map_of rest i of None \<Rightarrow> targets i | Some e \<Rightarrow> targets i @ local_targets ents refs e) g'
      \<and> map fst (gr_degree g') = map fst (gr_degree g) \<and> list_all (\<lambda>(i, e). list_all (reference_met ents ask e) refs) rest"
proof (induction rest arbitrary: g targets)
  case (Cons p rest)
  obtain i e where p: "p = (i, e)" by (cases p)
  obtain g1 where one: "graph_references ents ask i e refs g = Inr g1" and more: "graph_entries ents ask refs rest g1 = Inr g'"
    using Cons.prems(1) by (auto simp: p split: sum.splits)
  note r = graph_references_result [OF one Cons.prems(2)]
  have "map_of rest i = None" using Cons.prems(3) by (simp add: p map_of_eq_None_iff)
  then have "(\<lambda>j. case map_of rest j of None \<Rightarrow> (targets(i := targets i @ local_targets ents refs e)) j
      | Some x \<Rightarrow> (targets(i := targets i @ local_targets ents refs e)) j @ local_targets ents refs x)
    = (\<lambda>j. case map_of (p # rest) j of None \<Rightarrow> targets j | Some x \<Rightarrow> targets j @ local_targets ents refs x)"
    by (auto simp: p split: option.splits)
  with Cons.IH [OF more conjunct1 [OF r]] Cons.prems(3) r show ?case by (simp add: p)
qed simp

text \<open>The targets of an identity, over the whole index.\<close>

definition targets_of :: "(string \<times> seed_entry) list \<Rightarrow> seed_reference list \<Rightarrow> string \<Rightarrow> string list" where
  "targets_of ents refs i = (case map_of ents i of None \<Rightarrow> [] | Some e \<Rightarrow> local_targets ents refs e)"

lemma map_of_sorted: "distinct (map fst ents) \<Longrightarrow> map_of (sort_key fst ents) i = map_of ents i"
proof -
  assume d: "distinct (map fst ents)"
  then have "distinct (map fst (sort_key fst ents))" by (simp add: distinct_map)
  with d have "map_of (sort_key fst ents) i = Some e \<longleftrightarrow> map_of ents i = Some e" for e by (simp add: map_of_eq_Some_iff)
  then show ?thesis by (metis not_None_eq)
qed

lemma dependency_graph_result:
  assumes "dependency_graph ents refs ask = Inr g" "indexed ents"
  shows "graph_counts (targets_of ents refs) g" "map fst (gr_degree g) = map fst ents"
    "\<And>i e. map_of ents i = Some e \<Longrightarrow> list_all (reference_met ents ask e) refs"
proof -
  have d: "distinct (map fst ents)" using assms(2) by (simp add: indexed_def)
  let ?g = "\<lparr>gr_dependents = (\<lambda>_. []), gr_degree = map (\<lambda>(i, _). (i, 0)) ents, gr_found = []\<rparr>"
  have keys: "map fst (map (\<lambda>(i, _). (i, 0 :: int)) ents) = map fst ents" by (induction ents) auto
  have "map_of (map (\<lambda>(i, _). (i, 0 :: int)) ents) i = Some n \<Longrightarrow> n = 0" for i n by (auto dest!: map_of_SomeD)
  moreover have "distinct (map fst (map (\<lambda>(i, _). (i, 0 :: int)) ents))" unfolding keys by (rule d)
  ultimately have "graph_counts (\<lambda>_. []) ?g" unfolding graph_counts_def by simp
  from graph_entries_result [OF assms(1) [unfolded dependency_graph_def] this] d
  have r: "graph_counts (\<lambda>i. case map_of (sort_key fst ents) i of None \<Rightarrow> [] | Some e \<Rightarrow> [] @ local_targets ents refs e) g
    \<and> map fst (gr_degree g) = map fst ents \<and> list_all (\<lambda>(i, e). list_all (reference_met ents ask e) refs) (sort_key fst ents)"
    using keys by (simp add: distinct_map)
  then show "graph_counts (targets_of ents refs) g" by (simp add: map_of_sorted [OF d] targets_of_def [abs_def] cong: option.case_cong)
  show "map fst (gr_degree g) = map fst ents" using r by simp
  show "list_all (reference_met ents ask e) refs" if "map_of ents i = Some e" for i e
    using r map_of_SomeD [OF that] by (auto simp: list_all_iff)
qed

lemma targets_local: "set (targets_of ents refs i) \<subseteq> set (map fst ents)"
proof
  fix t
  assume "t \<in> set (targets_of ents refs i)"
  then obtain e r where "t \<in> set (local_target ents e r)" by (auto simp: targets_of_def local_targets_def split: option.splits)
  then have "map_of ents t \<noteq> None" by (auto simp: local_target_def split: option.splits seed_value.splits if_splits)
  then show "t \<in> set (map fst ents)" by (simp add: map_of_eq_None_iff)
qed

subsection \<open>Letting go\<close>

definition lowered :: "string list \<Rightarrow> (string \<times> int) list \<Rightarrow> (string \<times> int) list" where
  "lowered xs d = map (\<lambda>(k, n). (k, n - int (count_list xs k))) d"

lemma map_of_lowered: "map_of (lowered xs d) i = map_option (\<lambda>n. n - int (count_list xs i)) (map_of d i)"
  by (induction d) (auto simp: lowered_def)

lemma release_result:
  assumes "\<And>x. x \<in> set xs \<Longrightarrow> \<exists>n. map_of d x = Some n \<and> int (count_list xs x) \<le> n"
  shows "\<exists>freed. release xs d ready = (lowered xs d, ready @ freed) \<and> distinct freed
    \<and> set freed = {x \<in> set xs. map_of d x = Some (int (count_list xs x))}"
  using assms
proof (induction xs arbitrary: d ready)
  case Nil
  have "lowered [] d = d" by (simp add: lowered_def)
  then show ?case by simp
next
  case (Cons x xs)
  let ?d = "lower_degree x d"
  have le: "\<exists>n. map_of ?d z = Some n \<and> int (count_list xs z) \<le> n" if "z \<in> set xs" for z
    using Cons.prems [of z] that by (auto simp: map_of_lower split: if_splits)
  have low: "lowered xs ?d = lowered (x # xs) d" by (auto simp: lowered_def lower_degree_def)
  obtain n where n: "map_of d x = Some n" "int (count_list (x # xs) x) \<le> n" using Cons.prems [of x] by auto
  have same: "map_of ?d z = Some (int (count_list xs z)) \<longleftrightarrow> map_of d z = Some (int (count_list (x # xs) z))" for z
    by (cases "map_of d z") (auto simp: map_of_lower)
  show ?case
  proof (cases "map_of ?d x = Some 0")
    case True
    then have "n = 1" using n(1) by (simp add: map_of_lower)
    then have no: "x \<notin> set xs" using n(2) by (simp add: count_list_0_iff)
    obtain freed where freed: "release xs ?d (ready @ [x]) = (lowered xs ?d, (ready @ [x]) @ freed)" "distinct freed"
      "set freed = {z \<in> set xs. map_of ?d z = Some (int (count_list xs z))}" using Cons.IH [OF le] by blast
    have one: "map_of d x = Some (int (count_list (x # xs) x))" using n(1) \<open>n = 1\<close> no by simp
    have f: "set freed = {z \<in> set xs. map_of d z = Some (int (count_list (x # xs) z))}" using freed(3) unfolding same .
    have "set (x # freed) = {z \<in> set (x # xs). map_of d z = Some (int (count_list (x # xs) z))}"
      using one unfolding list.set f by blast
    moreover have "x \<notin> set freed" using no f by blast
    moreover have "release (x # xs) d ready = (lowered (x # xs) d, ready @ x # freed)" using freed(1) True by (simp add: low Let_def)
    ultimately show ?thesis using freed(2) by (intro exI [of _ "x # freed"]) simp
  next
    case False
    obtain freed where freed: "release xs ?d ready = (lowered xs ?d, ready @ freed)" "distinct freed"
      "set freed = {z \<in> set xs. map_of ?d z = Some (int (count_list xs z))}" using Cons.IH [OF le] by blast
    have "map_of d x = Some (int (count_list (x # xs) x)) \<Longrightarrow> x \<in> set xs"
      using False by (auto simp: map_of_lower count_list_0_iff intro: ccontr)
    then have "set freed = {z \<in> set (x # xs). map_of d z = Some (int (count_list (x # xs) z))}"
      unfolding freed(3) same by auto
    then show ?thesis using freed(1,2) False by (intro exI [of _ freed]) (simp add: low Let_def)
  qed
qed


lemma count_filter: "count_list (filter P xs) x = (if P x then count_list xs x else 0)"
  by (induction xs) auto

lemma count_length: "count_list xs x \<le> length xs"
  by (induction xs) auto

lemma length_filter_less: "length (filter (\<lambda>t. t \<notin> A \<and> t \<noteq> i) xs) + (if i \<in> A then 0 else count_list xs i) = length (filter (\<lambda>t. t \<notin> A) xs)"
  by (induction xs) auto

lemma topo_closed: "topo_from targets {} out \<Longrightarrow> x \<in> set out \<Longrightarrow> set (targets x) \<subseteq> set out"
  using topo_from_before split_list [of x out] by fastforce

text \<open>Between two turns of the loop: the degrees count what is still to go, and what is ready is exactly
  what nothing holds up.\<close>

definition held_up :: "(string \<Rightarrow> string list) \<Rightarrow> string list \<Rightarrow> string \<Rightarrow> nat" where
  "held_up targets out i = length (filter (\<lambda>t. t \<notin> set out) (targets i))"

definition loop_inv :: "(string \<Rightarrow> string list) \<Rightarrow> string set \<Rightarrow> (string \<times> int) list \<Rightarrow> string list \<Rightarrow> string list \<Rightarrow> bool" where
  "loop_inv targets N d ready out \<longleftrightarrow> distinct (out @ ready) \<and> set out \<subseteq> N \<and> topo_from targets {} out
     \<and> (\<forall>i. map_of d i = (if i \<in> N then Some (int (held_up targets out i)) else None))
     \<and> set ready = {i \<in> N. i \<notin> set out \<and> set (targets i) \<subseteq> set out}"

definition edges_back :: "(string \<Rightarrow> string list) \<Rightarrow> string set \<Rightarrow> (string \<Rightarrow> string list) \<Rightarrow> bool" where
  "edges_back targets N deps \<longleftrightarrow> (\<forall>t i. count_list (deps t) i = count_list (targets i) t) \<and> (\<forall>i. i \<notin> N \<longrightarrow> targets i = [])"

lemma held_up_next: "held_up targets (out @ [i]) x = held_up targets out x - (if i \<in> set out then 0 else count_list (targets x) i)"
  using length_filter_less [of "set out" i "targets x"] by (simp add: held_up_def conj_commute)

lemma edges_back_iff: "edges_back targets N deps \<Longrightarrow> x \<in> set (deps i) \<longleftrightarrow> i \<in> set (targets x)"
  unfolding edges_back_def by (metis count_list_0_iff)

lemma loop_step:
  assumes inv: "loop_inv targets N d (i # ready) out" and eb: "edges_back targets N deps" and rel: "release (deps i) d ready = (d', ready')"
  shows "loop_inv targets N d' (sort ready') (out @ [i])"
proof -
  have i: "i \<in> N" "i \<notin> set out" "set (targets i) \<subseteq> set out" "i \<notin> set ready" using inv by (auto simp: loop_inv_def)
  have topo: "topo_from targets {} out" and deg: "\<And>x. map_of d x = (if x \<in> N then Some (int (held_up targets out x)) else None)"
    and ready: "insert i (set ready) = {x \<in> N. x \<notin> set out \<and> set (targets x) \<subseteq> set out}" using inv by (auto simp: loop_inv_def)
  have count: "count_list (deps i) x = count_list (targets x) i" for x using eb by (simp add: edges_back_def)
  have less: "count_list (targets x) i \<le> held_up targets out x" for x
    using count_length [of "filter (\<lambda>t. t \<notin> set out) (targets x)" i] i(2) by (simp add: held_up_def count_filter)
  have inN: "x \<in> N" if "i \<in> set (targets x)" for x using that eb by (auto simp: edges_back_def)
  have le: "\<exists>n. map_of d x = Some n \<and> int (count_list (deps i) x) \<le> n" if "x \<in> set (deps i)" for x
    using that inN [of x] less [of x] by (simp add: edges_back_iff [OF eb] deg count)
  obtain freed where d': "d' = lowered (deps i) d" and ready': "ready' = ready @ freed" and df: "distinct freed"
    and freed: "set freed = {x \<in> set (deps i). map_of d x = Some (int (count_list (deps i) x))}"
    using release_result [of "deps i" d ready, OF le] rel by auto
  have none: "held_up targets out x = count_list (targets x) i \<longleftrightarrow> set (targets x) \<subseteq> insert i (set out)" for x
  proof -
    have "held_up targets (out @ [i]) x = 0 \<longleftrightarrow> set (targets x) \<subseteq> insert i (set out)" by (auto simp: held_up_def filter_empty_conv)
    moreover have "held_up targets (out @ [i]) x = held_up targets out x - count_list (targets x) i" using held_up_next [of targets out i x] i(2) by simp
    ultimately show ?thesis using less [of x] by auto
  qed
  have freed': "set freed = {x. i \<in> set (targets x) \<and> set (targets x) \<subseteq> insert i (set out)}"
    using inN by (auto simp: freed edges_back_iff [OF eb] deg count none)
  have out: "x \<notin> set out \<and> x \<noteq> i" if "i \<in> set (targets x)" for x
    using that i(2,3) topo_closed [OF topo, of x] by auto
  have "set ready \<union> set freed = {x \<in> N. x \<notin> set (out @ [i]) \<and> set (targets x) \<subseteq> set (out @ [i])}"
    using ready i(4) out inN unfolding freed' by auto
  moreover have "distinct ((out @ [i]) @ sort (ready @ freed))"
    using inv df i out ready by (auto simp: loop_inv_def freed')
  moreover have "topo_from targets {} (out @ [i])" using topo i(3) by (simp add: topo_from_append)
  moreover have "map_of d' x = (if x \<in> N then Some (int (held_up targets (out @ [i]) x)) else None)" for x
    using less [of x] i(2) by (simp add: d' map_of_lowered deg count held_up_next of_nat_diff)
  ultimately show ?thesis using inv i(1) unfolding loop_inv_def by (simp add: ready')
qed

lemma order_loop_result:
  "loop_inv targets N d ready out \<Longrightarrow> edges_back targets N deps \<Longrightarrow> order_loop deps d ready out = (out', d') \<Longrightarrow> loop_inv targets N d' [] out'"
proof (induction deps d ready out rule: order_loop.induct)
  case (2 deps d i ready out)
  obtain d1 r1 where rel: "release (deps i) d ready = (d1, r1)" by (cases "release (deps i) d ready")
  from "2.IH" [OF rel [symmetric] refl loop_step [OF "2.prems"(1,2) rel] "2.prems"(2)] "2.prems"(3) rel show ?case by simp
qed simp

lemma loop_start:
  assumes "edges_back targets N deps" "distinct (map fst d)" "set (map fst d) = N"
    "\<And>i n. map_of d i = Some n \<Longrightarrow> n = int (length (targets i))"
  shows "loop_inv targets N d (sort (map fst (filter (\<lambda>(_, n). n = 0) d))) []"
proof -
  have deg: "map_of d i = (if i \<in> N then Some (int (held_up targets [] i)) else None)" for i
  proof (cases "map_of d i")
    case None
    then show ?thesis using assms(3) by (auto simp: map_of_eq_None_iff)
  next
    case (Some n)
    then have "i \<in> N" using assms(3) map_of_SomeD by force
    with Some assms(4) [OF Some] show ?thesis by (simp add: held_up_def)
  qed
  have "i \<in> fst ` {x \<in> set d. case x of (_, n) \<Rightarrow> n = 0} \<longleftrightarrow> map_of d i = Some 0" for i
    by (auto simp: map_of_eq_Some_iff [OF assms(2)] image_iff Bex_def)
  then have "set (sort (map fst (filter (\<lambda>(_, n). n = 0) d))) = {i. map_of d i = Some 0}" by (simp add: set_eq_iff)
  also have "\<dots> = {i \<in> N. set (targets i) = {}}" by (auto simp: deg held_up_def)
  finally have "set (sort (map fst (filter (\<lambda>(_, n). n = 0) d))) = {i \<in> N. set (targets i) = {}}" .
  moreover have "distinct (map fst (filter (\<lambda>(_, n). n = 0) d))" using assms(2) by (rule distinct_map_filter)
  ultimately show ?thesis using deg by (simp add: loop_inv_def)
qed


subsection \<open>What \<open>Order\<close> answers\<close>

lemma edges_of_graph:
  assumes "graph_counts (targets_of ents refs) g"
  shows "edges_back (targets_of ents refs) (set (map fst ents)) (gr_dependents g)"
proof -
  have "targets_of ents refs i = []" if "i \<notin> set (map fst ents)" for i
    using that map_of_eq_None_iff [of ents i] by (simp add: targets_of_def)
  then show ?thesis using assms by (simp add: graph_counts_def edges_back_def)
qed

lemma order_entries_inv:
  assumes "dependency_graph ents refs ask = Inr g" "indexed ents" "order_entries ents g = (out, d)"
  shows "loop_inv (targets_of ents refs) (set (map fst ents)) d [] out"
proof -
  note g = dependency_graph_result [OF assms(1,2)]
  have "loop_inv (targets_of ents refs) (set (map fst ents)) (gr_degree g) (sort (map fst (filter (\<lambda>(_, n). n = 0) (gr_degree g)))) []"
    using g(1,2) by (intro loop_start [OF edges_of_graph [OF g(1)]]) (auto simp: graph_counts_def)
  from order_loop_result [OF this edges_of_graph [OF g(1)]] assms(3) show ?thesis by (simp add: order_entries_def)
qed

lemma order_complete:
  assumes "loop_inv targets N d [] out" "finite N" "length out = card N"
  shows "set out = N"
  using assms by (intro card_subset_eq) (auto simp: loop_inv_def distinct_card)

text \<open>What is left when the loop ends early is held up by a cycle of references.\<close>

lemma order_stuck:
  assumes inv: "loop_inv targets N d [] out" and N: "finite N" "length out \<noteq> card N" and local: "\<And>i. set (targets i) \<subseteq> N"
  shows "\<exists>c. is_cycle targets c \<and> set c \<subseteq> N"
proof -
  have sub: "set out \<subseteq> N" "distinct out" using inv by (auto simp: loop_inv_def)
  then have "set out \<noteq> N" using N(2) distinct_card [of out] by auto
  then obtain i where i: "i \<in> N" "i \<notin> set out" using sub by blast
  have step: "\<exists>t \<in> set (targets x). t \<notin> set out" if "x \<in> N" "x \<notin> set out" for x
    using inv that by (auto simp: loop_inv_def)
  have "\<exists>c. cycle_through (Suc (card N)) targets i = Some c"
    by (rule cycle_through_found [where P = "\<lambda>x. x \<notin> set out", OF N(1) local i(1) _ i(2)]) (simp_all add: step)
  then obtain c where c: "cycle_through (Suc (card N)) targets i = Some c" by blast
  from cycle_through_cycle [OF c] have cyc: "is_cycle targets c" .
  have "set c \<subseteq> N"
  proof
    fix x
    assume "x \<in> set c"
    then obtain k where k: "k < length c" "x = c ! k" by (auto simp: in_set_conv_nth)
    have c2: "2 \<le> length c" "hd c = last c" "\<And>j. Suc j < length c \<Longrightarrow> c ! Suc j \<in> set (targets (c ! j))"
      using cyc by (auto simp: is_cycle_def successively_conv_nth)
    have "\<exists>y. x \<in> set (targets y)"
    proof (cases k)
      case 0
      have "c \<noteq> []" using c2(1) by auto
      then have "x = c ! Suc (length c - 2)" using 0 k c2(1,2) by (simp add: hd_conv_nth last_conv_nth numeral_2_eq_2 Suc_diff_Suc)
      then show ?thesis using c2(1,3) by force
    next
      case (Suc j)
      then show ?thesis using c2(3) [of j] k by blast
    qed
    then show "x \<in> N" using local by blast
  qed
  with cyc show ?thesis by blast
qed


definition declares :: "seed_document list \<Rightarrow> string \<Rightarrow> bool" where
  "declares docs name \<longleftrightarrow> list_ex (\<lambda>e. entry_identity e = name) (declared_entries docs)"

text \<open>What a reference may mean: a record placed before, or one outside the files that the tenant holds.\<close>

definition reference_kept :: "seed_document list \<Rightarrow> seed_exists \<Rightarrow> seed_entry list \<Rightarrow> seed_reference \<Rightarrow> seed_value \<Rightarrow> bool" where
  "reference_kept docs ask placed r v \<longleftrightarrow> (\<exists>name. v = VText name
     \<and> (name \<in> entry_identity ` set placed
        \<or> (\<not> declares docs name \<and> (\<exists>f al key. ask = Some f \<and> name = identity_in al key \<and> al = rf_target r \<and> f al key = Some True))))"

lemma indexed_empty [simp]: "indexed []"
  by (simp add: indexed_def)

lemma order_seeds_parts:
  assumes "order_seeds docs references ask = res" "validate_references [] references = None" "index_entries [] docs = Inr ents"
    "dependency_graph ents (sort_key rf_resource (sort_key rf_path references)) ask = Inr g" "order_entries ents g = (out, d)"
  shows "res = (if length out \<noteq> length ents then Inl (reference_cycle ents (sort_key rf_resource (sort_key rf_path references)) d)
    else Inr (map (\<lambda>i. the (map_of ents i)) out, gr_found g))"
  using assms by (simp add: order_seeds_def Let_def)

lemma declares_iff: "indexed ents \<Longrightarrow> map snd ents = declared_entries docs \<Longrightarrow> declares docs name \<longleftrightarrow> map_of ents name \<noteq> None"
proof -
  assume i: "indexed ents" and s: "map snd ents = declared_entries docs"
  have "declares docs name \<longleftrightarrow> name \<in> entry_identity ` snd ` set ents"
    using arg_cong [OF s, of set] by (auto simp: declares_def list_ex_iff)
  also have "\<dots> \<longleftrightarrow> name \<in> fst ` set ents" using i by (force simp: indexed_def list_all_iff)
  finally show ?thesis by (simp add: map_of_eq_None_iff)
qed

lemma map_of_all: "distinct (map fst ents) \<Longrightarrow> map (\<lambda>i. the (map_of ents i)) (map fst ents) = map snd ents"
  by (auto simp: map_of_eq_Some_iff)


lemma order_seeds_Inr:
  assumes "order_seeds docs references ask = Inr (out, found)"
  obtains ents g ids d where "indexed ents" "map snd ents = declared_entries docs"
    "dependency_graph ents (sort_key rf_resource (sort_key rf_path references)) ask = Inr g" "order_entries ents g = (ids, d)"
    "length ids = length ents" "out = map (\<lambda>i. the (map_of ents i)) ids"
proof -
  obtain ents where v: "validate_references [] references = None" and e: "index_entries [] docs = Inr ents"
    using assms by (auto simp: order_seeds_def Let_def split: option.splits sum.splits)
  obtain g where g: "dependency_graph ents (sort_key rf_resource (sort_key rf_path references)) ask = Inr g"
    using assms v e by (auto simp: order_seeds_def Let_def split: sum.splits)
  obtain ids d where o: "order_entries ents g = (ids, d)" by (cases "order_entries ents g")
  from order_seeds_parts [OF assms v e g o] index_entries_result [OF e indexed_empty] g o that show ?thesis
    by (auto split: if_splits)
qed

lemma order_places_targets_first:
  assumes "order_seeds docs references ask = Inr (out, found)"
  shows "mset out = mset (declared_entries docs)"
    and "out = pre @ e # post \<Longrightarrow> r \<in> set references \<Longrightarrow> reference_value e r = Some v \<Longrightarrow> reference_kept docs ask pre r v"
proof -
  let ?refs = "sort_key rf_resource (sort_key rf_path references)"
  obtain ents g ids d where ents: "indexed ents" "map snd ents = declared_entries docs" and g: "dependency_graph ents ?refs ask = Inr g"
    and o: "order_entries ents g = (ids, d)" and len: "length ids = length ents" and out: "out = map (\<lambda>i. the (map_of ents i)) ids"
    using assms by (rule order_seeds_Inr)
  note inv = order_entries_inv [OF g ents(1) o]
  have dist: "distinct (map fst ents)" using ents(1) by (simp add: indexed_def)
  have ids: "set ids = set (map fst ents)" using order_complete [OF inv] len distinct_card [OF dist] by simp
  have "distinct ids" using inv by (simp add: loop_inv_def)
  then have "mset ids = mset (map fst ents)" using set_eq_iff_mset_eq_distinct [OF _ dist] ids by (simp only:)
  then have "mset out = mset (map (\<lambda>i. the (map_of ents i)) (map fst ents))" unfolding out by (simp only: mset_map)
  then show "mset out = mset (declared_entries docs)" unfolding map_of_all [OF dist] ents(2) .
  assume split: "out = pre @ e # post" and r: "r \<in> set references" and v: "reference_value e r = Some v"
  obtain pre' i post' where i: "ids = pre' @ i # post'" "pre = map (\<lambda>i. the (map_of ents i)) pre'" "e = the (map_of ents i)"
    using split unfolding out by (auto simp: map_eq_append_conv map_eq_Cons_conv)
  have "map_of ents j \<noteq> None" if "j \<in> set ids" for j using that ids by (simp add: map_of_eq_None_iff)
  then have e: "map_of ents i = Some e" using i by auto
  have met: "reference_met ents ask e r" using dependency_graph_result(3) [OF g ents(1) e] r by (simp add: list_all_iff)
  then obtain name where name: "v = VText name" using v by (cases v) (auto simp: reference_met_def)
  show "reference_kept docs ask pre r v"
  proof (cases "map_of ents name")
    case None
    then show ?thesis using met v name declares_iff [OF ents] by (auto simp: reference_met_def reference_kept_def)
  next
    case (Some t)
    have "name \<in> set (local_target ents e r)" using Some v name by (simp add: local_target_def)
    then have "name \<in> set (targets_of ents ?refs i)" using r e by (auto simp: targets_of_def local_targets_def)
    moreover have "topo_from (targets_of ents ?refs) {} (pre' @ i # post')" using inv i(1) by (simp add: loop_inv_def)
    ultimately have "name \<in> set pre'" using topo_from_before by fast
    moreover have "entry_identity (the (map_of ents name)) = name" using indexed_identity [OF ents(1) Some] Some by simp
    ultimately have "name \<in> entry_identity ` set pre" unfolding i(2) by force
    then show ?thesis using name by (simp add: reference_kept_def)
  qed
qed

definition cycle_of_references :: "seed_document list \<Rightarrow> seed_reference list \<Rightarrow> string list \<Rightarrow> bool" where
  "cycle_of_references docs references c \<longleftrightarrow> 2 \<le> length c \<and> hd c = last c
     \<and> successively (\<lambda>a b. list_ex (\<lambda>e. entry_identity e = a \<and> list_ex (\<lambda>r. refers e r b) references) (declared_entries docs)) c"


definition cycle_error :: "seed_error \<Rightarrow> bool" where
  "cycle_error e \<longleftrightarrow> (case e of InOrder (ClosesCycle _ _ _ _) \<Rightarrow> True | InOrder (CycleIncludes _ _) \<Rightarrow> True | _ \<Rightarrow> False)"

lemma validate_names_no_cycle: "validate_references paths rs = Some e \<Longrightarrow> \<not> cycle_error e"
  by (induction paths rs rule: validate_references.induct) (auto simp: cycle_error_def split: if_splits)

lemma index_records_no_cycle: "index_records kind resource ents recs = Inl e \<Longrightarrow> \<not> cycle_error e"
  by (induction kind resource ents recs rule: index_records.induct) (auto simp: cycle_error_def split: option.splits)

lemma index_names_no_cycle: "index_entries ents docs = Inl e \<Longrightarrow> \<not> cycle_error e"
  using index_records_no_cycle by (induction docs arbitrary: ents) (auto split: sum.splits)

lemma graph_references_no_cycle: "graph_references ents ask i ent rs g = Inl e \<Longrightarrow> \<not> cycle_error e"
proof (induction rs arbitrary: g)
  case (Cons r rs)
  then show ?case
    by (auto simp: cycle_error_def [of "InOrder x" for x] Let_def split: if_splits option.splits seed_value.splits bool.splits)
qed simp

lemma graph_names_no_cycle: "graph_entries ents ask refs rest g = Inl e \<Longrightarrow> \<not> cycle_error e"
  using graph_references_no_cycle by (induction rest arbitrary: g) (auto split: sum.splits)

lemma order_reports_cycles:
  assumes "order_seeds docs references ask = Inl err" "cycle_error err"
  shows "\<exists>c. cycle_of_references docs references c"
proof -
  let ?refs = "sort_key rf_resource (sort_key rf_path references)"
  have v: "validate_references [] references = None"
    using assms validate_names_no_cycle by (cases "validate_references [] references") (auto simp: order_seeds_def)
  obtain ents where e: "index_entries [] docs = Inr ents"
    using assms v index_names_no_cycle by (cases "index_entries [] docs") (auto simp: order_seeds_def Let_def)
  obtain g where g: "dependency_graph ents ?refs ask = Inr g"
    using assms v e graph_names_no_cycle by (cases "dependency_graph ents ?refs ask") (auto simp: order_seeds_def Let_def dependency_graph_def)
  obtain ids d where o: "order_entries ents g = (ids, d)" by (cases "order_entries ents g")
  have ents: "indexed ents" "map snd ents = declared_entries docs" using index_entries_result [OF e indexed_empty] by simp_all
  have dist: "distinct (map fst ents)" using ents(1) by (simp add: indexed_def)
  have "length ids \<noteq> length ents" using order_seeds_parts [OF assms(1) v e g o] by (auto split: if_splits)
  then have "length ids \<noteq> card (set (map fst ents))" using distinct_card [OF dist] by simp
  from order_stuck [OF order_entries_inv [OF g ents(1) o] _ this targets_local]
  obtain c where c: "is_cycle (targets_of ents ?refs) c" by auto
  have "list_ex (\<lambda>e. entry_identity e = a \<and> list_ex (\<lambda>r. refers e r b) references) (declared_entries docs)"
    if b: "b \<in> set (targets_of ents ?refs a)" for a b
  proof -
    obtain e where e: "map_of ents a = Some e" "b \<in> set (local_targets ents ?refs e)" using b by (cases "map_of ents a") (auto simp: targets_of_def)
    then obtain r where r: "r \<in> set references" "b \<in> set (local_target ents e r)" by (auto simp: local_targets_def)
    have "refers e r b" using r(2) by (auto simp: local_target_def refers_def split: option.splits seed_value.splits if_splits)
    moreover have "e \<in> set (declared_entries docs)" using map_of_SomeD [OF e(1)] arg_cong [OF ents(2), of set] by force
    ultimately show ?thesis using r(1) indexed_identity [OF ents(1) e(1)] by (auto simp: list_ex_iff)
  qed
  then have "cycle_of_references docs references c"
    using c unfolding is_cycle_def cycle_of_references_def by (auto elim!: successively_mono)
  then show ?thesis by blast
qed

end
