(* ===== verification/SeedAgain.thy ===== *)
theory SeedAgain
  imports SeedRun SeedOrder
begin

section \<open>A second run of the same files\<close>

text \<open>
  What the seeder relies on of an owner's writer is the locale \<open>lawful_writers\<close>: a row found is found by its
  identifier, what a create or an update answers is what a read finds and settles the record, a write of
  one row leaves the others as a read finds them, and the clock moves nothing but create-only values.
  Under it every record of a run is \<open>settled\<close> afterwards, and a run over settled records writes nothing.
\<close>

definition key_of_id :: "seed_key \<Rightarrow> uuid \<Rightarrow> bool" where
  "key_of_id k i \<longleftrightarrow> sk_record k = i"

definition same_instruction :: "seed_target \<Rightarrow> seed_target \<Rightarrow> bool" where
  "same_instruction t t' \<longleftrightarrow> tg_fields t' = tg_fields t \<and> tg_commands t' = tg_commands t
     \<and> map fst (tg_create_only t') = map fst (tg_create_only t)"

locale lawful_writers =
  fixes ws :: "(string \<times> 's seed_writer) list"
    and sound :: "'s \<Rightarrow> bool"
    and unwritten :: "string \<Rightarrow> string list"
  assumes canonical: "(al, w) \<in> set ws \<Longrightarrow> canonical_key (sw_resource w) (canonical_key (sw_resource w) key) = canonical_key (sw_resource w) key"
    and found: "(al, w) \<in> set ws \<Longrightarrow> sound s \<Longrightarrow> sw_read w k s = Some row \<Longrightarrow> sn_present row
      \<Longrightarrow> sn_id row \<noteq> uuid_nil \<and> (key_of_id k' (sn_id row) \<longrightarrow> sw_read w k' s = Some row)"
    and created: "(al, w) \<in> set ws \<Longrightarrow> sound s \<Longrightarrow> sw_target w rec res at = Some t \<Longrightarrow> sw_create w t s = Some (s', row) \<Longrightarrow> sn_present row
      \<Longrightarrow> sound s' \<and> sn_id row \<noteq> uuid_nil \<and> decide_seed row t = (SeedUnchanged, []) \<and> (key_of_id k (sn_id row) \<longrightarrow> sw_read w k s' = Some row)"
    and updated: "(al, w) \<in> set ws \<Longrightarrow> sound s \<Longrightarrow> sw_target w rec res at = Some t \<Longrightarrow> sw_read w k0 s = Some cur
      \<Longrightarrow> decide_seed cur t = (SeedUpdate, changed) \<Longrightarrow> set changed \<inter> set (unwritten al) = {} \<Longrightarrow> sw_update w cur t s = Some (s', row) \<Longrightarrow> sn_present row
      \<Longrightarrow> sound s' \<and> sn_id row \<noteq> uuid_nil \<and> decide_seed row t = (SeedUnchanged, []) \<and> (key_of_id k (sn_id row) \<longrightarrow> sw_read w k s' = Some row)"
    and deleted: "(al, w) \<in> set ws \<Longrightarrow> sound s \<Longrightarrow> sw_read w k s = Some row \<Longrightarrow> sw_delete w row s = Some s' \<Longrightarrow> sound s'"
    and create_frame: "(al, w) \<in> set ws \<Longrightarrow> (bl, v) \<in> set ws \<Longrightarrow> sound s \<Longrightarrow> sw_create w t s = Some (s', row) \<Longrightarrow> sw_read v k s = Some other
      \<Longrightarrow> sn_present other \<Longrightarrow> (bl, sn_id other) \<noteq> (al, sn_id row) \<Longrightarrow> sw_read v k s' = Some other"
    and update_frame: "(al, w) \<in> set ws \<Longrightarrow> (bl, v) \<in> set ws \<Longrightarrow> sound s \<Longrightarrow> sw_read w k0 s = Some cur \<Longrightarrow> sn_present cur
      \<Longrightarrow> sw_update w cur t s = Some (s', row) \<Longrightarrow> sn_id row = sn_id cur
        \<and> (sw_read v k s = Some other \<longrightarrow> sn_present other \<longrightarrow> (bl, sn_id other) \<noteq> (al, sn_id cur) \<longrightarrow> sw_read v k s' = Some other)"
    and delete_frame: "(al, w) \<in> set ws \<Longrightarrow> (bl, v) \<in> set ws \<Longrightarrow> sound s \<Longrightarrow> sw_read w k0 s = Some cur \<Longrightarrow> sw_delete w cur s = Some s'
      \<Longrightarrow> sw_read v k s = Some other \<Longrightarrow> sn_present other \<Longrightarrow> (bl, sn_id other) \<noteq> (al, sn_id cur) \<Longrightarrow> sw_read v k s' = Some other"
    and instruction: "(al, w) \<in> set ws \<Longrightarrow> sw_target w rec res at = Some t \<Longrightarrow> \<exists>t'. sw_target w rec res at' = Some t' \<and> same_instruction t t'"

subsection \<open>Provenance\<close>

definition key_table :: "seed_mapping list \<Rightarrow> bool" where
  "key_table keys \<longleftrightarrow> distinct (map (\<lambda>m. (sm_module m, sm_entity m, sm_key m)) keys)"

definition key_place :: "seed_resource \<Rightarrow> string \<Rightarrow> string \<times> string \<times> string" where
  "key_place r value = (rs_module r, rs_entity r, value)"

lemma maps_key_place: "maps_key r value m \<longleftrightarrow> (sm_module m, sm_entity m, sm_key m) = key_place r value"
  by (auto simp: maps_key_def key_place_def)

lemma find_map: "(\<And>x. x \<in> set xs \<Longrightarrow> P (f x) = P x) \<Longrightarrow> List.find P (map f xs) = map_option f (List.find P xs)"
  by (induction xs) auto

lemma find_append: "List.find P (xs @ ys) = (case List.find P xs of None \<Rightarrow> List.find P ys | Some x \<Rightarrow> Some x)"
  by (induction xs) auto

lemma put_key_keys:
  assumes "put_key r value kind i keys = keys'" "key_table keys"
  shows "key_table keys'"
proof (cases "list_ex (maps_key r value) keys")
  case True
  then have "map (\<lambda>m. (sm_module m, sm_entity m, sm_key m)) keys' = map (\<lambda>m. (sm_module m, sm_entity m, sm_key m)) keys"
    using assms(1) by (auto simp: put_key_def Let_def)
  then show ?thesis using assms(2) by (simp add: key_table_def)
next
  case False
  then have k: "keys' = keys @ [\<lparr>sm_module = rs_module r, sm_entity = rs_entity r, sm_key = value, sm_kind = kind, sm_record = (if i = uuid_nil then None else Some i)\<rparr>]"
    using assms(1) by (simp add: put_key_def Let_def)
  show ?thesis using False assms(2) by (auto simp: k key_table_def list_ex_iff maps_key_def image_iff)
qed

lemma find_put_other:
  assumes "key_place r value \<noteq> key_place r' value'"
  shows "List.find (maps_key r' value') (put_key r value kind i keys) = List.find (maps_key r' value') keys"
proof (cases "list_ex (maps_key r value) keys")
  case True
  have "maps_key r' value' (if maps_key r value m then m\<lparr>sm_kind := kind, sm_record := rec\<rparr> else m) = maps_key r' value' m" for m rec
    by (simp add: maps_key_def)
  then have "List.find (maps_key r' value') (put_key r value kind i keys)
    = map_option (\<lambda>m. if maps_key r value m then m\<lparr>sm_kind := kind, sm_record := (if i = uuid_nil then None else Some i)\<rparr> else m) (List.find (maps_key r' value') keys)"
    using True by (simp add: put_key_def Let_def find_map)
  moreover have "\<not> maps_key r value m" if "List.find (maps_key r' value') keys = Some m" for m
    using find_SomeD [OF that] assms by (auto simp: maps_key_place)
  ultimately show ?thesis by (cases "List.find (maps_key r' value') keys") auto
next
  case False
  then show ?thesis using assms by (auto simp: put_key_def Let_def find_append maps_key_def key_place_def split: option.splits)
qed

lemma lookup_put_other: "key_place r value \<noteq> key_place r' value' \<Longrightarrow> lookup_key r' value' (put_key r value kind i keys) = lookup_key r' value' keys"
  by (simp add: lookup_key_def find_put_other)

lemma lookup_put_same:
  assumes "i \<noteq> uuid_nil"
  shows "lookup_key r value (put_key r value kind i keys) = (\<lparr>sk_value = value, sk_record = i, sk_kind = kind\<rparr>, True)"
proof (cases "list_ex (maps_key r value) keys")
  case True
  then obtain m where m: "List.find (maps_key r value) keys = Some m" using find_None_all [of "maps_key r value" keys]
    by (cases "List.find (maps_key r value) keys") (auto simp: list_ex_iff list_all_iff)
  have "maps_key r value (if maps_key r value m then m\<lparr>sm_kind := kind, sm_record := Some i\<rparr> else m) = maps_key r value m" for m
    by (simp add: maps_key_def)
  with True m find_SomeD [OF m] assms show ?thesis by (simp add: put_key_def Let_def lookup_key_def find_map)
next
  case False
  then have "List.find (maps_key r value) keys = None" by (auto simp: find_None_all list_all_iff list_ex_iff)
  with False assms show ?thesis by (simp add: put_key_def Let_def lookup_key_def find_append maps_key_def)
qed


lemma put_same_key:
  assumes "key_table keys" "List.find (maps_key r value) keys = Some m" "sm_kind m = kind" "sm_record m = Some i" "i \<noteq> uuid_nil"
  shows "put_key r value kind i keys = keys"
proof -
  have m: "m \<in> set keys" "maps_key r value m" using find_SomeD [OF assms(2)] by auto
  have "x\<lparr>sm_kind := kind, sm_record := Some i\<rparr> = x" if "x \<in> set keys" "maps_key r value x" for x
  proof -
    have "inj_on (\<lambda>m. (sm_module m, sm_entity m, sm_key m)) (set keys)" using assms(1) by (simp add: key_table_def distinct_map)
    moreover have "(sm_module x, sm_entity x, sm_key x) = (sm_module m, sm_entity m, sm_key m)" using that m by (simp only: maps_key_place)
    ultimately have "x = m" using that(1) m(1) by (rule inj_onD)
    then show ?thesis using assms(3,4) by simp
  qed
  then have "map (\<lambda>x. if maps_key r value x then x\<lparr>sm_kind := kind, sm_record := Some i\<rparr> else x) keys = keys" by (auto intro: map_idI)
  moreover have "list_ex (maps_key r value) keys" using m by (auto simp: list_ex_iff)
  ultimately show ?thesis using assms(5) by (simp add: put_key_def Let_def)
qed

subsection \<open>Settled records\<close>

definition place_of :: "(string \<times> 's seed_writer) list \<Rightarrow> seed_entry \<Rightarrow> string \<times> string \<times> string" where
  "place_of ws e = key_place (sw_resource (the (map_of ws (se_resource e))))
     (canonical_key (sw_resource (the (map_of ws (se_resource e)))) (sr_key (se_record e)))"

definition canonical_of :: "(string \<times> 's seed_writer) list \<Rightarrow> seed_entry \<Rightarrow> string" where
  "canonical_of ws e = canonical_key (sw_resource (the (map_of ws (se_resource e)))) (sr_key (se_record e))"

definition resolves_to :: "(string \<times> 's seed_writer) list \<Rightarrow> seed_entry \<Rightarrow> uuid \<Rightarrow> (string \<times> uuid) list" where
  "resolves_to ws e i = [(identity_in (se_resource e) (sr_key (se_record e)), i), (identity_in (se_resource e) (canonical_of ws e), i)]"

definition settled_record :: "(string \<times> 's seed_writer) list \<Rightarrow> seed_entry \<Rightarrow> (string \<times> uuid) list \<Rightarrow> 's seed_db \<Rightarrow> seed_snapshot \<Rightarrow> bool" where
  "settled_record ws e res db row \<longleftrightarrow>
     (let w = the (map_of ws (se_resource e)); r = sw_resource w; rec = se_record e
      in case lookup_key r (canonical_of ws e) (sdb_keys db) of
           (key, owned) \<Rightarrow> sw_read w key (sdb_rows db) = Some row \<and> sn_present row \<and> (owned \<longrightarrow> sk_kind key = se_kind e)
             \<and> (\<forall>at. \<exists>t. sw_target w rec res at = Some t \<and> unapplied_field rec t = None \<and> decide_seed row t = (SeedUnchanged, [])))"

lemma settled_again:
  assumes "settled_record (sv_writers sv) e res db row" "sv_may sv False (sw_resource (the (map_of (sv_writers sv) (se_resource e)))) SeedUpdate (sdb_rows db)"
  shows "\<exists>item. reconcile sv False True at e res db = Inr (db, resolves_to (sv_writers sv) e (sn_id row) @ res, item) \<and> it_action item = SeedUnchanged"
proof -
  let ?w = "the (map_of (sv_writers sv) (se_resource e))"
  obtain key owned where k: "lookup_key (sw_resource ?w) (canonical_of (sv_writers sv) e) (sdb_keys db) = (key, owned)"
    by (cases "lookup_key (sw_resource ?w) (canonical_of (sv_writers sv) e) (sdb_keys db)")
  obtain t where t: "sw_target ?w (se_record e) res at = Some t" "unapplied_field (se_record e) t = None" "decide_seed row t = (SeedUnchanged, [])"
    using assms(1) by (auto simp: settled_record_def Let_def k)
  have r: "sw_read ?w key (sdb_rows db) = Some row" "owned \<longrightarrow> sk_kind key = se_kind e" using assms(1) by (auto simp: settled_record_def Let_def k)
  show ?thesis using k t r assms(2)
    by (auto simp: reconcile_def Let_def canonical_of_def reconcile_apply_def resolves_to_def)
qed

lemma same_instruction_decides:
  assumes "same_instruction t t'"
  shows "decide_seed row t' = decide_seed row t" "unapplied_field rec t' = unapplied_field rec t"
proof -
  have m: "map_of (tg_create_only t') n = None \<longleftrightarrow> map_of (tg_create_only t) n = None" for n
    using assms by (metis same_instruction_def map_of_eq_None_iff set_map)
  show "decide_seed row t' = decide_seed row t" "unapplied_field rec t' = unapplied_field rec t"
    using assms m by (simp_all add: same_instruction_def decide_seed_def unapplied_field_def)
qed

context lawful_writers
begin

lemma instruction_always:
  assumes "(al, w) \<in> set ws" "sw_target w rec res at = Some t" "unapplied_field rec t = None" "decide_seed row t = (SeedUnchanged, [])"
  shows "\<forall>at. \<exists>t. sw_target w rec res at = Some t \<and> unapplied_field rec t = None \<and> decide_seed row t = (SeedUnchanged, [])"
  using instruction [OF assms(1,2)] assms(3,4) same_instruction_decides by metis

lemma reconcile_settles:
  assumes w: "map_of ws (se_resource e) = Some w" and sv: "sv_writers sv = ws" and sound: "sound (sdb_rows db)" and keys: "key_table (sdb_keys db)"
    and run: "reconcile sv False True at e res db = Inr (db', res', item)"
    and fixed: "it_action item = SeedUpdate \<Longrightarrow> set (it_changed item) \<inter> set (unwritten (se_resource e)) = {}"
  shows "\<exists>row. settled_record ws e res db' row \<and> sound (sdb_rows db') \<and> key_table (sdb_keys db') \<and> res' = resolves_to ws e (sn_id row) @ res
    \<and> it_resource item = se_resource e \<and> it_record item = sn_id row \<and> it_action item \<noteq> SeedPrune \<and> sn_id row \<noteq> uuid_nil"
proof -
  let ?r = "sw_resource w" and ?c = "canonical_key (sw_resource w) (sr_key (se_record e))" and ?rec = "se_record e"
  have m: "(se_resource e, w) \<in> set ws" using map_of_SomeD [OF w] .
  obtain key owned where k: "lookup_key ?r ?c (sdb_keys db) = (key, owned)" by (cases "lookup_key ?r ?c (sdb_keys db)")
  obtain cur where cur: "sw_read w key (sdb_rows db) = Some cur" using run by (auto simp: reconcile_def Let_def sv w k split: if_splits option.splits)
  obtain t where t: "sw_target w ?rec res at = Some t" "unapplied_field ?rec t = None"
    using run cur by (auto simp: reconcile_def Let_def sv w k split: if_splits option.splits)
  obtain action changed where d: "decide_seed cur t = (action, changed)" by (cases "decide_seed cur t")
  have act: "action \<noteq> SeedPrune" "action = SeedCreate \<longleftrightarrow> \<not> sn_present cur" "action = SeedUnchanged \<Longrightarrow> changed = []"
    using d by (auto simp: decide_seed_def Let_def split: if_splits)
  obtain row where ap: "reconcile_apply w ?c key owned e cur t action db = Inr (db', row)"
    and res': "res' = resolves_to ws e (sn_id row) @ res"
    and item: "it_resource item = se_resource e" "it_action item = action" "it_changed item = changed"
      "it_record item = (if action \<noteq> SeedUnchanged then sn_id row else sn_id cur)"
    using run cur t d by (auto simp: reconcile_def Let_def sv w k resolves_to_def canonical_of_def split: if_splits sum.splits)
  have canon: "canonical_of ws e = ?c" by (simp add: canonical_of_def w)
  show ?thesis
  proof (cases "action = SeedUnchanged")
    case True
    then have row: "row = cur" using ap by (auto simp: reconcile_apply_def Let_def split: if_splits)
    have present: "sn_present cur" using act True by auto
    note f = found [OF m sound cur present]
    have d: "decide_seed cur t = (SeedUnchanged, [])" using d act(3) True by simp
    note always = instruction_always [OF m t d]
    show ?thesis
    proof (cases "owned \<and> sk_kind key \<noteq> se_kind e")
      case True
      then have db': "db' = db\<lparr>sdb_keys := put_key ?r ?c (se_kind e) (sn_id cur) (sdb_keys db)\<rparr>"
        using ap \<open>action = SeedUnchanged\<close> by (auto simp: reconcile_apply_def Let_def)
      have "sw_read w \<lparr>sk_value = ?c, sk_record = sn_id cur, sk_kind = se_kind e\<rparr> (sdb_rows db) = Some cur" using f by (simp add: key_of_id_def)
      then show ?thesis using always present f sound put_key_keys [OF refl keys] res' item \<open>action = SeedUnchanged\<close>
        by (intro exI [of _ cur]) (simp add: settled_record_def Let_def canon w db' row lookup_put_same)
    next
      case False
      then have db': "db' = db" using ap \<open>action = SeedUnchanged\<close> by (auto simp: reconcile_apply_def Let_def split: if_splits)
      then show ?thesis using always present f sound keys res' item \<open>action = SeedUnchanged\<close> cur k False
        by (intro exI [of _ cur]) (simp add: settled_record_def Let_def canon w row)
    qed
  next
    case False
    obtain rows where rows: "(case action of SeedCreate \<Rightarrow> sw_create w t (sdb_rows db) | SeedUpdate \<Rightarrow> sw_update w cur t (sdb_rows db) | _ \<Rightarrow> Some (sdb_rows db, cur)) = Some (rows, row)"
      and present: "sn_present row" and db': "db' = db\<lparr>sdb_rows := rows, sdb_keys := put_key ?r ?c (se_kind e) (sn_id row) (sdb_keys db)\<rparr>"
      using ap False by (auto simp: reconcile_apply_def Let_def split: option.splits if_splits prod.splits)
    have law: "sound rows \<and> sn_id row \<noteq> uuid_nil \<and> decide_seed row t = (SeedUnchanged, []) \<and> (key_of_id k (sn_id row) \<longrightarrow> sw_read w k rows = Some row)" for k
    proof (cases "action = SeedCreate")
      case True
      then show ?thesis using created [OF m sound t(1) _ present] rows by simp
    next
      case False
      then have u: "action = SeedUpdate" using act(1) \<open>action \<noteq> SeedUnchanged\<close> by (cases action) auto
      show ?thesis using updated [OF m sound t(1) cur _ _ _ present] d rows fixed item by (simp add: u)
    qed
    then have "sw_read w \<lparr>sk_value = ?c, sk_record = sn_id row, sk_kind = se_kind e\<rparr> rows = Some row" by (simp add: key_of_id_def)
    moreover note instruction_always [OF m t, of row]
    ultimately show ?thesis using law present put_key_keys [OF refl keys] res' item False act(1)
      by (intro exI [of _ row]) (simp add: settled_record_def Let_def canon w db' lookup_put_same)
  qed
qed

end


subsection \<open>Records stay settled\<close>

definition keeps_settled :: "(string \<times> 's seed_writer) list \<Rightarrow> seed_entry \<Rightarrow> uuid \<Rightarrow> 's seed_db \<Rightarrow> 's seed_db \<Rightarrow> bool" where
  "keeps_settled ws e i db db' \<longleftrightarrow>
     (let w = the (map_of ws (se_resource e))
      in lookup_key (sw_resource w) (canonical_of ws e) (sdb_keys db') = lookup_key (sw_resource w) (canonical_of ws e) (sdb_keys db)
         \<and> (\<forall>k row. sw_read w k (sdb_rows db) = Some row \<longrightarrow> sn_present row \<longrightarrow> sn_id row = i \<longrightarrow> sw_read w k (sdb_rows db') = Some row))"

lemma keeps_settled_refl: "keeps_settled ws e i db db"
  by (simp add: keeps_settled_def Let_def)

lemma keeps_settled_trans: "keeps_settled ws e i db db' \<Longrightarrow> keeps_settled ws e i db' db'' \<Longrightarrow> keeps_settled ws e i db db''"
  by (simp add: keeps_settled_def Let_def)

lemma settled_kept:
  assumes "settled_record ws e res db row" "keeps_settled ws e (sn_id row) db db'"
  shows "settled_record ws e res db' row"
  using assms by (auto simp: settled_record_def keeps_settled_def Let_def split: prod.splits)

lemma place_of_keys: "place_of ws e \<noteq> place_of ws e' \<Longrightarrow>
    lookup_key (sw_resource (the (map_of ws (se_resource e)))) (canonical_of ws e)
      (put_key (sw_resource (the (map_of ws (se_resource e')))) (canonical_of ws e') kind i keys)
    = lookup_key (sw_resource (the (map_of ws (se_resource e)))) (canonical_of ws e) keys"
  by (rule lookup_put_other) (simp add: place_of_def canonical_of_def)

context lawful_writers
begin

lemma reconcile_keeps:
  assumes w: "map_of ws (se_resource e) = Some w" and v: "map_of ws (se_resource other) = Some v"
    and sv: "sv_writers sv = ws" and sound: "sound (sdb_rows db)"
    and run: "reconcile sv False True at e res db = Inr (db', res', item)"
    and apart: "place_of ws other \<noteq> place_of ws e" "(se_resource other, i) \<noteq> (it_resource item, it_record item)"
  shows "keeps_settled ws other i db db'"
proof -
  let ?r = "sw_resource w" and ?c = "canonical_key (sw_resource w) (sr_key (se_record e))" and ?rec = "se_record e"
  have m: "(se_resource e, w) \<in> set ws" "(se_resource other, v) \<in> set ws" using map_of_SomeD [OF w] map_of_SomeD [OF v] by auto
  obtain key owned where k: "lookup_key ?r ?c (sdb_keys db) = (key, owned)" by (cases "lookup_key ?r ?c (sdb_keys db)")
  obtain cur where cur: "sw_read w key (sdb_rows db) = Some cur" using run by (auto simp: reconcile_def Let_def sv w k split: if_splits option.splits)
  obtain t where t: "sw_target w ?rec res at = Some t" "unapplied_field ?rec t = None"
    using run cur by (auto simp: reconcile_def Let_def sv w k split: if_splits option.splits)
  obtain action changed where d: "decide_seed cur t = (action, changed)" by (cases "decide_seed cur t")
  have act: "action \<noteq> SeedPrune" "action = SeedCreate \<longleftrightarrow> \<not> sn_present cur"
    using d by (auto simp: decide_seed_def Let_def split: if_splits)
  obtain row where ap: "reconcile_apply w ?c key owned e cur t action db = Inr (db', row)"
    and item: "it_resource item = se_resource e" "it_action item = action" "it_record item = (if action \<noteq> SeedUnchanged then sn_id row else sn_id cur)"
    using run cur t d by (auto simp: reconcile_def Let_def sv w k split: if_splits sum.splits)
  have canon: "canonical_of ws e = ?c" by (simp add: canonical_of_def w)
  note puts = place_of_keys [OF apart(1), unfolded w v option.sel canon]
  show ?thesis
  proof (cases "action = SeedUnchanged")
    case True
    then show ?thesis using ap puts by (auto simp: reconcile_apply_def Let_def keeps_settled_def v split: if_splits)
  next
    case False
    obtain rows where rows: "(case action of SeedCreate \<Rightarrow> sw_create w t (sdb_rows db) | SeedUpdate \<Rightarrow> sw_update w cur t (sdb_rows db) | _ \<Rightarrow> Some (sdb_rows db, cur)) = Some (rows, row)"
      and db': "db' = db\<lparr>sdb_rows := rows, sdb_keys := put_key ?r ?c (se_kind e) (sn_id row) (sdb_keys db)\<rparr>"
      using ap False by (auto simp: reconcile_apply_def Let_def split: option.splits if_splits prod.splits)
    have kept: "sw_read v k rows = Some x" if "sw_read v k (sdb_rows db) = Some x" "sn_present x" "sn_id x = i" for k x
    proof (cases "action = SeedCreate")
      case True
      then show ?thesis using create_frame [OF m sound _ that(1,2)] rows apart(2) item that(3) by simp
    next
      case False
      then have u: "action = SeedUpdate" using act(1) \<open>action \<noteq> SeedUnchanged\<close> by (cases action) auto
      then have p: "sn_present cur" using act(2) by simp
      show ?thesis using update_frame [OF m sound cur p] rows apart(2) item that by (simp add: u)
    qed
    then show ?thesis using puts by (simp add: keeps_settled_def v db')
  qed
qed

end


subsection \<open>A whole run settles its records\<close>

definition item_row :: "seed_item \<Rightarrow> string \<times> uuid" where
  "item_row item = (it_resource item, it_record item)"

text \<open>The updates an owner's command cannot make are not among the changes.\<close>

definition writable :: "(string \<Rightarrow> string list) \<Rightarrow> seed_item list \<Rightarrow> bool" where
  "writable unwritten items \<longleftrightarrow>
     list_all (\<lambda>item. it_action item = SeedUpdate \<longrightarrow> set (it_changed item) \<inter> set (unwritten (it_resource item)) = {}) items"

fun settled_all :: "(string \<times> 's seed_writer) list \<Rightarrow> seed_entry list \<Rightarrow> (string \<times> uuid) list \<Rightarrow> 's seed_db \<Rightarrow> seed_snapshot list \<Rightarrow> bool" where
  "settled_all ws (e # es) res db (row # rows) \<longleftrightarrow>
     settled_record ws e res db row \<and> settled_all ws es (resolves_to ws e (sn_id row) @ res) db rows"
| "settled_all ws es res db rows \<longleftrightarrow> es = [] \<and> rows = []"

fun resolved_after :: "(string \<times> 's seed_writer) list \<Rightarrow> seed_entry list \<Rightarrow> seed_snapshot list \<Rightarrow> (string \<times> uuid) list \<Rightarrow> (string \<times> uuid) list" where
  "resolved_after ws (e # es) (row # rows) res = resolved_after ws es rows (resolves_to ws e (sn_id row) @ res)"
| "resolved_after ws es rows res = res"

definition written :: "(string \<times> 's seed_writer) list \<Rightarrow> seed_entry list \<Rightarrow> bool" where
  "written ws es \<longleftrightarrow> list_all (\<lambda>e. map_of ws (se_resource e) \<noteq> None) es"

definition granted :: "'s seed_service \<Rightarrow> 's seed_db \<Rightarrow> bool" where
  "granted sv db \<longleftrightarrow> (\<forall>r action. sv_may sv False r action (sdb_rows db))"

lemma settled_all_again:
  assumes "settled_all (sv_writers sv) es res db rows" "granted sv db"
  shows "\<exists>items. reconcile_all sv False True at es res db = Inr (db, resolved_after (sv_writers sv) es rows res, items)
    \<and> list_all (\<lambda>item. it_action item = SeedUnchanged) items"
  using assms(1)
proof (induction es arbitrary: res rows)
  case (Cons e es)
  then obtain row rows' where rows: "rows = row # rows'" by (cases rows) auto
  with Cons.prems have s: "settled_record (sv_writers sv) e res db row" by simp
  then obtain item where item: "reconcile sv False True at e res db = Inr (db, resolves_to (sv_writers sv) e (sn_id row) @ res, item)" "it_action item = SeedUnchanged"
    using settled_again [OF s, where at = at] assms(2) unfolding granted_def by blast
  from Cons rows obtain items where "reconcile_all sv False True at es (resolves_to (sv_writers sv) e (sn_id row) @ res) db
      = Inr (db, resolved_after (sv_writers sv) es rows' (resolves_to (sv_writers sv) e (sn_id row) @ res), items)"
    "list_all (\<lambda>item. it_action item = SeedUnchanged) items" by auto
  with item rows show ?case by simp
qed simp

context lawful_writers
begin

lemma reconcile_all_keeps:
  assumes "sv_writers sv = ws" "sound (sdb_rows db)" "key_table (sdb_keys db)" "written ws (other # es)"
    "reconcile_all sv False True at es res db = Inr (db', res', items)" "writable unwritten items"
    "place_of ws other \<notin> set (map (place_of ws) es)" "(se_resource other, i) \<notin> set (map item_row items)"
  shows "keeps_settled ws other i db db'"
  using assms
proof (induction es arbitrary: res db items)
  case Nil
  then show ?case by (simp add: keeps_settled_refl)
next
  case (Cons e es)
  obtain db1 res1 item items' where one: "reconcile sv False True at e res db = Inr (db1, res1, item)"
    and more: "reconcile_all sv False True at es res1 db1 = Inr (db', res', items')" and items: "items = item # items'"
    using Cons.prems(5) by (auto split: sum.splits)
  obtain w v where w: "map_of ws (se_resource e) = Some w" "map_of ws (se_resource other) = Some v" using Cons.prems(4) by (auto simp: written_def)
  have fixed: "it_action item = SeedUpdate \<Longrightarrow> set (it_changed item) \<inter> set (unwritten (se_resource e)) = {}"
    using Cons.prems(6) one by (auto simp: items writable_def reconcile_def Let_def split: if_splits option.splits prod.splits sum.splits)
  from reconcile_settles [OF w(1) Cons.prems(1-3) one fixed] have ok: "sound (sdb_rows db1)" "key_table (sdb_keys db1)" by auto
  have "keeps_settled ws other i db db1"
    using Cons.prems(7,8) by (intro reconcile_keeps [OF w Cons.prems(1,2) one]) (auto simp: items item_row_def)
  moreover have "keeps_settled ws other i db1 db'"
    using Cons.prems(4,6-8) by (intro Cons.IH [OF Cons.prems(1) ok _ more]) (auto simp: items written_def writable_def)
  ultimately show ?case by (rule keeps_settled_trans)
qed

lemma reconcile_all_settles:
  assumes "sv_writers sv = ws" "sound (sdb_rows db)" "key_table (sdb_keys db)" "written ws es"
    "reconcile_all sv False True at es res db = Inr (db', res', items)" "writable unwritten items"
    "distinct (map (place_of ws) es)" "distinct (map item_row items)"
  shows "\<exists>rows. settled_all ws es res db' rows \<and> res' = resolved_after ws es rows res \<and> sound (sdb_rows db') \<and> key_table (sdb_keys db')
    \<and> map item_row items = map2 (\<lambda>e row. (se_resource e, sn_id row)) es rows \<and> length rows = length es \<and> list_all (\<lambda>item. it_action item \<noteq> SeedPrune) items
    \<and> list_all (\<lambda>row. sn_id row \<noteq> uuid_nil) rows"
  using assms
proof (induction es arbitrary: res db items)
  case Nil
  then show ?case by (intro exI [of _ "[]"]) simp
next
  case (Cons e es)
  obtain db1 res1 item items' where one: "reconcile sv False True at e res db = Inr (db1, res1, item)"
    and more: "reconcile_all sv False True at es res1 db1 = Inr (db', res', items')" and items: "items = item # items'"
    using Cons.prems(5) by (auto split: sum.splits)
  obtain w where w: "map_of ws (se_resource e) = Some w" using Cons.prems(4) by (auto simp: written_def)
  have fixed: "it_action item = SeedUpdate \<Longrightarrow> set (it_changed item) \<inter> set (unwritten (se_resource e)) = {}"
    using Cons.prems(6) one by (auto simp: items writable_def reconcile_def Let_def split: if_splits option.splits prod.splits sum.splits)
  from reconcile_settles [OF w Cons.prems(1-3) one fixed] obtain row where row: "settled_record ws e res db1 row"
    and ok: "sound (sdb_rows db1)" "key_table (sdb_keys db1)" and res1: "res1 = resolves_to ws e (sn_id row) @ res"
    and item: "it_resource item = se_resource e" "it_record item = sn_id row" "it_action item \<noteq> SeedPrune" "sn_id row \<noteq> uuid_nil" by auto
  have tl: "written ws es" "writable unwritten items'" "distinct (map (place_of ws) es)" "distinct (map item_row items')"
    "place_of ws e \<notin> set (map (place_of ws) es)" "(se_resource e, sn_id row) \<notin> set (map item_row items')"
    using Cons.prems(4,6-8) item_row_def [of item, unfolded item(1,2)] by (auto simp: items written_def writable_def)
  from Cons.IH [OF Cons.prems(1) ok tl(1) more tl(2-4)] obtain rows where rows: "settled_all ws es res1 db' rows"
    "res' = resolved_after ws es rows res1" "sound (sdb_rows db')" "key_table (sdb_keys db')"
    "map item_row items' = map2 (\<lambda>e row. (se_resource e, sn_id row)) es rows" "length rows = length es" "list_all (\<lambda>item. it_action item \<noteq> SeedPrune) items'"
    "list_all (\<lambda>row. sn_id row \<noteq> uuid_nil) rows" by blast
  have "keeps_settled ws e (sn_id row) db1 db'"
    by (rule reconcile_all_keeps [OF Cons.prems(1) ok Cons.prems(4) more tl(2,5,6)])
  then have "settled_record ws e res db' row" by (rule settled_kept [OF row])
  with rows item item_row_def [of item, unfolded item(1,2)] show ?case by (intro exI [of _ "row # rows"]) (simp add: res1 items)
qed

end

end
