(* ===== verification/SeedPruned.thy ===== *)
theory SeedPruned
  imports SeedAgain
begin

section \<open>Pruning, twice\<close>

text \<open>
  What a prune leaves: the records the files declare as they were, and of the mappings it owned only those
  it has reason to keep (\<open>spared\<close>).  A prune over spared mappings does nothing.  With \<open>SeedAgain\<close>, a
  second run over the same closed files writes nothing.
\<close>

text \<open>One resource, one writer: what \<open>New\<close> sees to.\<close>

definition writer_table :: "(string \<times> 's seed_writer) list \<Rightarrow> bool" where
  "writer_table ws \<longleftrightarrow> distinct (map fst ws) \<and> distinct (map (\<lambda>(al, w). (rs_module (sw_resource w), rs_entity (sw_resource w))) ws)
     \<and> list_all (\<lambda>(al, w). rs_alias (sw_resource w) = al \<and> valid_seed_name al) ws"

definition protected_row :: "(string \<times> 's seed_writer) list \<Rightarrow> seed_document list \<Rightarrow> (string \<times> uuid) list \<Rightarrow> string \<Rightarrow> seed_snapshot \<Rightarrow> bool" where
  "protected_row ws docs resolved al row \<longleftrightarrow> sn_present row \<and> sn_id row \<in> set (declared_rows ws docs resolved al)"

definition pruned :: "(string \<times> 's seed_writer) list \<Rightarrow> ('s \<Rightarrow> bool) \<Rightarrow> seed_document list \<Rightarrow> (string \<times> uuid) list \<Rightarrow> 's seed_db \<Rightarrow> 's seed_db \<Rightarrow> bool" where
  "pruned ws sound docs resolved db db' \<longleftrightarrow>
     (\<exists>P. sdb_keys db' = filter P (sdb_keys db)
        \<and> (\<forall>(al, w) \<in> set ws. \<forall>m \<in> set (sdb_keys db). sm_module m = rs_module (sw_resource w) \<longrightarrow> sm_entity m = rs_entity (sw_resource w)
             \<longrightarrow> sm_key m \<in> set (keep_keys ws docs al) \<longrightarrow> P m))
     \<and> (sound (sdb_rows db) \<longrightarrow> sound (sdb_rows db'))
     \<and> (\<forall>(al, w) \<in> set ws. \<forall>k row. sw_read w k (sdb_rows db) = Some row \<longrightarrow> protected_row ws docs resolved al row \<longrightarrow> sw_read w k (sdb_rows db') = Some row)"

lemma pruned_refl: "pruned ws sound docs resolved db db"
  unfolding pruned_def by (intro conjI exI [of _ "\<lambda>_. True"]) auto

lemma pruned_trans:
  assumes "pruned ws sound docs resolved db db'" "pruned ws sound docs resolved db' db''"
  shows "pruned ws sound docs resolved db db''"
proof -
  obtain P where P: "sdb_keys db' = filter P (sdb_keys db)" "\<And>al w m. (al, w) \<in> set ws \<Longrightarrow> m \<in> set (sdb_keys db) \<Longrightarrow> sm_module m = rs_module (sw_resource w)
      \<Longrightarrow> sm_entity m = rs_entity (sw_resource w) \<Longrightarrow> sm_key m \<in> set (keep_keys ws docs al) \<Longrightarrow> P m"
    using assms(1) unfolding pruned_def by fast
  obtain Q where Q: "sdb_keys db'' = filter Q (sdb_keys db')" "\<And>al w m. (al, w) \<in> set ws \<Longrightarrow> m \<in> set (sdb_keys db') \<Longrightarrow> sm_module m = rs_module (sw_resource w)
      \<Longrightarrow> sm_entity m = rs_entity (sw_resource w) \<Longrightarrow> sm_key m \<in> set (keep_keys ws docs al) \<Longrightarrow> Q m"
    using assms(2) unfolding pruned_def by fast
  have "\<exists>R. sdb_keys db'' = filter R (sdb_keys db)
        \<and> (\<forall>(al, w) \<in> set ws. \<forall>m \<in> set (sdb_keys db). sm_module m = rs_module (sw_resource w) \<longrightarrow> sm_entity m = rs_entity (sw_resource w)
             \<longrightarrow> sm_key m \<in> set (keep_keys ws docs al) \<longrightarrow> R m)"
    by (rule exI [of _ "\<lambda>m. P m \<and> Q m"]) (use P Q in auto)
  with assms show ?thesis unfolding pruned_def by fast
qed

lemma pruned_keys: "pruned ws sound docs resolved db db' \<Longrightarrow> set (sdb_keys db') \<subseteq> set (sdb_keys db)"
  by (auto simp: pruned_def)

lemma pruned_table:
  assumes "pruned ws sound docs resolved db db'" "key_table (sdb_keys db)"
  shows "key_table (sdb_keys db')"
  using assms by (auto simp: pruned_def key_table_def intro: distinct_map_filter)

lemma find_filter:
  assumes "\<And>x. x \<in> set xs \<Longrightarrow> Q x \<Longrightarrow> P x"
  shows "List.find Q (filter P xs) = List.find Q xs"
  using assms by (induction xs) auto

lemma pruned_lookup:
  assumes "pruned ws sound docs resolved db db'" "(al, w) \<in> set ws" "value \<in> set (keep_keys ws docs al)"
  shows "lookup_key (sw_resource w) value (sdb_keys db') = lookup_key (sw_resource w) value (sdb_keys db)"
proof -
  obtain P where "sdb_keys db' = filter P (sdb_keys db)" "\<And>m. m \<in> set (sdb_keys db) \<Longrightarrow> maps_key (sw_resource w) value m \<Longrightarrow> P m"
    using assms unfolding pruned_def maps_key_def by fast
  then show ?thesis by (simp add: lookup_key_def find_filter)
qed

lemma pruned_keeps_settled:
  assumes "pruned ws sound docs resolved db db'" "map_of ws (se_resource e) = Some w"
    "canonical_of ws e \<in> set (keep_keys ws docs (se_resource e))" "i \<in> set (declared_rows ws docs resolved (se_resource e))"
  shows "keeps_settled ws e i db db'"
proof -
  have "(se_resource e, w) \<in> set ws" using map_of_SomeD [OF assms(2)] .
  with pruned_lookup [OF assms(1) this assms(3)] assms(1,2,4) show ?thesis
    unfolding keeps_settled_def pruned_def protected_row_def by fastforce
qed


subsection \<open>Every step of a prune\<close>

definition spared :: "(string \<times> 's seed_writer) list \<Rightarrow> seed_document list \<Rightarrow> (string \<times> uuid) list \<Rightarrow> string \<Rightarrow> 's seed_writer \<Rightarrow> 's seed_db \<Rightarrow> seed_key \<Rightarrow> bool" where
  "spared ws docs resolved al w db k \<longleftrightarrow> sk_value k \<in> set (keep_keys ws docs al)
     \<or> (\<exists>row. sw_read w k (sdb_rows db) = Some row \<and> protected_row ws docs resolved al row)"

lemma spared_kept: "pruned ws sound docs resolved db db' \<Longrightarrow> (al, w) \<in> set ws \<Longrightarrow> spared ws docs resolved al w db k \<Longrightarrow> spared ws docs resolved al w db' k"
  unfolding spared_def pruned_def by fast

definition spares :: "(string \<times> 's seed_writer) list \<Rightarrow> seed_document list \<Rightarrow> (string \<times> uuid) list \<Rightarrow> string \<Rightarrow> 's seed_writer \<Rightarrow> string \<Rightarrow> 's seed_db \<Rightarrow> bool" where
  "spares ws docs resolved al w kind db \<longleftrightarrow> list_all (spared ws docs resolved al w db) (owned_keys (sw_resource w) kind (sdb_keys db))"

lemma set_owned_keys: "set (owned_keys r kind keys) = (\<lambda>m. \<lparr>sk_value = sm_key m, sk_record = (case sm_record m of None \<Rightarrow> uuid_nil | Some i \<Rightarrow> i), sk_kind = ''''\<rparr>)
    ` {m \<in> set keys. sm_module m = rs_module r \<and> sm_entity m = rs_entity r \<and> sm_kind m = kind}"
  by (simp add: owned_keys_def)

lemma spares_kept:
  assumes "pruned ws sound docs resolved db db'" "(al, w) \<in> set ws" "spares ws docs resolved al w kind db"
  shows "spares ws docs resolved al w kind db'"
  using assms(3) spared_kept [OF assms(1,2)] pruned_keys [OF assms(1)] by (auto simp: spares_def list_all_iff set_owned_keys)

lemma writer_table_unique:
  assumes "writer_table ws" "(al, w) \<in> set ws" "(bl, v) \<in> set ws" "rs_module (sw_resource w) = rs_module (sw_resource v)" "rs_entity (sw_resource w) = rs_entity (sw_resource v)"
  shows "(bl, v) = (al, w)"
proof -
  have "inj_on (\<lambda>(al, w). (rs_module (sw_resource w), rs_entity (sw_resource w))) (set ws)" using assms(1) by (simp add: writer_table_def distinct_map)
  from inj_onD [OF this _ assms(3,2)] assms(4,5) show ?thesis by simp
qed

lemma prune_keys_nothing:
  assumes "list_all (spared ws docs resolved al w db) ks" "granted sv db"
  shows "prune_keys sv False True w d (keep_keys ws docs al) (declared_rows ws docs resolved al) ks db = Inr (db, [])"
  using assms(1)
proof (induction ks)
  case (Cons k ks)
  then show ?case using assms(2)
    by (auto simp: spared_def prune_candidate_def Let_def granted_def protected_row_def)
qed simp

context lawful_writers
begin

lemma prune_candidate_pruned:
  assumes ws: "writer_table ws" "(al, w) \<in> set ws" and sound: "sound (sdb_rows db)"
    and key: "sk_value key \<notin> set (keep_keys ws docs al)"
    and run: "prune_candidate sv False True w d (declared_rows ws docs resolved al) key db = Inr (db', items)"
  shows "pruned ws sound docs resolved db db'"
    and "spared ws docs resolved al w db' key \<or> (\<forall>m \<in> set (sdb_keys db'). \<not> maps_key (sw_resource w) (sk_value key) m)"
proof -
  obtain row where row: "sw_read w key (sdb_rows db) = Some row"
    using run by (auto simp: prune_candidate_def Let_def split: if_splits option.splits)
  have "pruned ws sound docs resolved db db' \<and>
    (spared ws docs resolved al w db' key \<or> (\<forall>m \<in> set (sdb_keys db'). \<not> maps_key (sw_resource w) (sk_value key) m))"
  proof (cases "protected_row ws docs resolved al row")
    case True
    then have "sn_present row \<and> sn_id row \<in> set (declared_rows ws docs resolved al)" by (simp add: protected_row_def)
    then have "db' = db" using run row by (simp add: prune_candidate_def Let_def split: if_splits)
    moreover have "spared ws docs resolved al w db key" using True row by (simp add: spared_def)
    ultimately show ?thesis by (simp add: pruned_refl)
  next
    case False
    then have no: "\<not> (sn_present row \<and> sn_id row \<in> set (declared_rows ws docs resolved al))" by (simp add: protected_row_def)
    obtain owners where o: "(if sn_present row then sw_delete w row (sdb_rows db) else Some (sdb_rows db)) = Some owners"
      using run row no by (cases "if sn_present row then sw_delete w row (sdb_rows db) else Some (sdb_rows db)") (simp_all only: prune_candidate_def Let_def split: if_splits, simp_all)
    obtain keys where k: "delete_key (sw_resource w) (sk_value key) (sdb_keys db) = Some keys"
      using run row no o by (cases "delete_key (sw_resource w) (sk_value key) (sdb_keys db)") (simp_all only: prune_candidate_def Let_def split: if_splits, simp_all)
    have db': "db' = db\<lparr>sdb_rows := owners, sdb_keys := keys\<rparr>"
      using run row no o k by (simp only: prune_candidate_def Let_def option.case split: if_splits) simp_all
    have keys: "keys = filter (\<lambda>m. \<not> maps_key (sw_resource w) (sk_value key) m) (sdb_keys db)" using k by (simp add: delete_key_def split: if_splits)
    have "\<not> maps_key (sw_resource w) (sk_value key) m"
      if "(bl, v) \<in> set ws" "sm_module m = rs_module (sw_resource v)" "sm_entity m = rs_entity (sw_resource v)" "sm_key m \<in> set (keep_keys ws docs bl)" for bl v m
      using writer_table_unique [OF ws that(1)] that(2-4) key by (auto simp: maps_key_def)
    moreover have "sw_read v k owners = Some other" if "(bl, v) \<in> set ws" "sw_read v k (sdb_rows db) = Some other" "protected_row ws docs resolved bl other" for bl v k other
    proof (cases "sn_present row")
      case True
      with o have del: "sw_delete w row (sdb_rows db) = Some owners" by simp
      have "(bl, sn_id other) \<noteq> (al, sn_id row)" using that(3) False True by (auto simp: protected_row_def)
      then show ?thesis using delete_frame [OF ws(2) that(1) sound row del that(2)] that(3) by (simp add: protected_row_def)
    next
      case False
      with o that(2) show ?thesis by simp
    qed
    moreover have "sound owners" using o sound deleted [OF ws(2) sound row] by (cases "sn_present row") auto
    ultimately have "pruned ws sound docs resolved db db'"
      unfolding pruned_def db' keys by (intro conjI exI [of _ "\<lambda>m. \<not> maps_key (sw_resource w) (sk_value key) m"]) auto
    then show ?thesis by (simp add: db' keys)
  qed
  then show "pruned ws sound docs resolved db db'"
    and "spared ws docs resolved al w db' key \<or> (\<forall>m \<in> set (sdb_keys db'). \<not> maps_key (sw_resource w) (sk_value key) m)" by auto
qed

lemma prune_keys_pruned:
  assumes "writer_table ws" "(al, w) \<in> set ws" "sound (sdb_rows db)"
    "prune_keys sv False True w d (keep_keys ws docs al) (declared_rows ws docs resolved al) ks db = Inr (db', items)"
  shows "pruned ws sound docs resolved db db' \<and> (\<forall>k \<in> set ks. spared ws docs resolved al w db' k \<or> (\<forall>m \<in> set (sdb_keys db'). \<not> maps_key (sw_resource w) (sk_value k) m))"
  using assms(3,4)
proof (induction ks arbitrary: db items)
  case Nil
  then show ?case by (simp add: pruned_refl)
next
  case (Cons k ks)
  show ?case
  proof (cases "sk_value k \<in> set (keep_keys ws docs al)")
    case True
    with Cons.IH [OF Cons.prems(1)] Cons.prems(2) show ?thesis by (auto simp: spared_def)
  next
    case False
    obtain db1 items1 items2 where one: "prune_candidate sv False True w d (declared_rows ws docs resolved al) k db = Inr (db1, items1)"
      and more: "prune_keys sv False True w d (keep_keys ws docs al) (declared_rows ws docs resolved al) ks db1 = Inr (db', items2)"
      using Cons.prems(2) False by (auto split: sum.splits)
    note c = prune_candidate_pruned [OF assms(1,2) Cons.prems(1) False one]
    have "sound (sdb_rows db1)" using c(1) Cons.prems(1) by (simp add: pruned_def)
    from Cons.IH [OF this more] have r: "pruned ws sound docs resolved db1 db'"
      "\<forall>k \<in> set ks. spared ws docs resolved al w db' k \<or> (\<forall>m \<in> set (sdb_keys db'). \<not> maps_key (sw_resource w) (sk_value k) m)" by auto
    have "spared ws docs resolved al w db' k \<or> (\<forall>m \<in> set (sdb_keys db'). \<not> maps_key (sw_resource w) (sk_value k) m)"
      using c(2) spared_kept [OF r(1) assms(2)] pruned_keys [OF r(1)] by fast
    with r pruned_trans [OF c(1) r(1)] show ?thesis by simp
  qed
qed

lemma prune_document_pruned:
  assumes "writer_table ws" "(al, w) \<in> set ws" "sound (sdb_rows db)"
    "prune_keys sv False True w d (keep_keys ws docs al) (declared_rows ws docs resolved al) (owned_keys (sw_resource w) kind (sdb_keys db)) db = Inr (db', items)"
  shows "pruned ws sound docs resolved db db'" "spares ws docs resolved al w kind db'"
proof -
  note r = prune_keys_pruned [OF assms]
  then show p: "pruned ws sound docs resolved db db'" ..
  show "spares ws docs resolved al w kind db'"
    using r pruned_keys [OF p] unfolding spares_def list_all_iff set_owned_keys maps_key_def by fastforce
qed

end


subsection \<open>All of a prune\<close>

lemma visit_within:
  assumes "visit n deps ds stack seen = Some (Inr seen')" "\<And>x. x \<in> N \<Longrightarrow> set (deps x) \<subseteq> N" "set ds \<subseteq> N" "set seen \<subseteq> N"
  shows "set seen' \<subseteq> N"
  using assms
proof (induction n deps ds stack seen arbitrary: seen' rule: visit.induct)
  case (3 n deps d ds stack seen)
  show ?case
  proof (cases "d \<in> set stack \<or> d \<in> set seen")
    case True
    with 3 show ?thesis by (auto split: if_splits)
  next
    case False
    then obtain s where s: "visit n deps (deps d) (stack @ [d]) seen = Some (Inr s)" "visit (Suc n) deps ds stack (d # s) = Some (Inr seen')"
      using "3.prems"(1) by (auto split: option.splits sum.splits)
    have "set s \<subseteq> N" using "3.IH"(2) [OF _ _ s(1)] "3.prems" False by simp
    then show ?thesis using "3.IH"(3) [OF _ _ s(1) refl s(2)] "3.prems" False by simp
  qed
qed auto

lemma prune_order_within:
  assumes "prune_order ws docs = Inr als" "al \<in> set als"
  shows "\<exists>d \<in> set docs. sd_resource d = al"
proof -
  obtain placed where "visit (length (pruning_aliases docs) + 1) (prune_targets ws docs) (pruning_aliases docs) [] [] = Some (Inr placed)" "als = rev placed"
    using assms(1) by (auto simp: prune_order_def split: option.splits sum.splits)
  moreover have "set (prune_targets ws docs x) \<subseteq> sd_resource ` set docs" for x
    by (auto simp: prune_targets_def pruning_documents_def filter_empty_conv image_iff) metis
  moreover have "set (pruning_aliases docs) \<subseteq> sd_resource ` set docs" by (auto simp: pruning_aliases_def)
  ultimately have "set als \<subseteq> sd_resource ` set docs" using visit_within [where N = "sd_resource ` set docs"] by simp
  then show ?thesis using assms(2) by fast
qed

context lawful_writers
begin

lemma prune_documents_pruned:
  assumes "writer_table ws" "(al, w) \<in> set ws" "sound (sdb_rows db)"
    "prune_documents sv False True w (keep_keys ws docs al) (declared_rows ws docs resolved al) ds db = Inr (db', items)"
  shows "pruned ws sound docs resolved db db' \<and> list_all (\<lambda>d. spares ws docs resolved al w (sd_kind d) db') ds"
  using assms(3,4)
proof (induction ds arbitrary: db items)
  case Nil
  then show ?case by (simp add: pruned_refl)
next
  case (Cons d ds)
  obtain db1 items1 items2 where one: "prune_keys sv False True w d (keep_keys ws docs al) (declared_rows ws docs resolved al)
      (owned_keys (sw_resource w) (sd_kind d) (sdb_keys db)) db = Inr (db1, items1)"
    and more: "prune_documents sv False True w (keep_keys ws docs al) (declared_rows ws docs resolved al) ds db1 = Inr (db', items2)"
    using Cons.prems(2) by (auto split: sum.splits)
  note c = prune_document_pruned [OF assms(1,2) Cons.prems(1) one]
  have "sound (sdb_rows db1)" using c(1) Cons.prems(1) by (simp add: pruned_def)
  from Cons.IH [OF this more] have r: "pruned ws sound docs resolved db1 db'" "list_all (\<lambda>d. spares ws docs resolved al w (sd_kind d) db') ds" by auto
  from pruned_trans [OF c(1) r(1)] spares_kept [OF r(1) assms(2) c(2)] r(2) show ?case by simp
qed

lemma prune_aliases_pruned:
  assumes "writer_table ws" "sv_writers sv = ws" "sound (sdb_rows db)" "list_all (\<lambda>al. map_of ws al \<noteq> None) als"
    "prune_aliases sv False True docs resolved als db = Inr (db', items)"
  shows "pruned ws sound docs resolved db db'
    \<and> list_all (\<lambda>al. list_all (\<lambda>d. spares ws docs resolved al (the (map_of ws al)) (sd_kind d) db') (pruning_documents docs al)) als"
  using assms(3-5)
proof (induction als arbitrary: db items)
  case Nil
  then show ?case by (simp add: pruned_refl)
next
  case (Cons al als)
  obtain w where w: "map_of ws al = Some w" using Cons.prems(2) by auto
  obtain db1 items1 items2 where one: "prune_documents sv False True w (keep_keys ws docs al) (declared_rows ws docs resolved al) (pruning_documents docs al) db = Inr (db1, items1)"
    and more: "prune_aliases sv False True docs resolved als db1 = Inr (db', items2)"
    using Cons.prems(3) w assms(2) by (auto split: sum.splits)
  from prune_documents_pruned [OF assms(1) map_of_SomeD [OF w] Cons.prems(1) one]
  have c: "pruned ws sound docs resolved db db1" "list_all (\<lambda>d. spares ws docs resolved al w (sd_kind d) db1) (pruning_documents docs al)" by auto
  have "sound (sdb_rows db1)" using c(1) Cons.prems(1) by (simp add: pruned_def)
  moreover have "list_all (\<lambda>al. map_of ws al \<noteq> None) als" using Cons.prems(2) by simp
  ultimately have r: "pruned ws sound docs resolved db1 db'"
    "list_all (\<lambda>al. list_all (\<lambda>d. spares ws docs resolved al (the (map_of ws al)) (sd_kind d) db') (pruning_documents docs al)) als"
    using Cons.IH [OF _ _ more] by auto
  have "list_all (\<lambda>d. spares ws docs resolved al w (sd_kind d) db') (pruning_documents docs al)"
    using c(2) spares_kept [OF r(1) map_of_SomeD [OF w]] by (simp add: list_all_iff)
  with pruned_trans [OF c(1) r(1)] r(2) w show ?case by simp
qed

lemma prune_aliases_nothing:
  assumes "sv_writers sv = ws" "granted sv db"
    "list_all (\<lambda>al. list_all (\<lambda>d. spares ws docs resolved al (the (map_of ws al)) (sd_kind d) db) (pruning_documents docs al)) als"
  shows "prune_aliases sv False True docs resolved als db = Inr (db, [])"
proof -
  have doc: "prune_documents sv False True w (keep_keys ws docs al) (declared_rows ws docs resolved al) ds db = Inr (db, [])"
    if "list_all (\<lambda>d. spares ws docs resolved al w (sd_kind d) db) ds" for al w ds
    using that by (induction ds) (simp_all add: prune_keys_nothing [OF _ assms(2)] spares_def)
  show ?thesis using assms(3) by (induction als) (simp_all add: doc assms(1))
qed

text \<open>A prune leaves the declared records settled, and a second one nothing to do.\<close>

lemma prune_seeds_twice:
  assumes "writer_table ws" "sv_writers sv = ws" "sound (sdb_rows db)" "list_all (\<lambda>d. map_of ws (sd_resource d) \<noteq> None) docs"
    "prune_seeds sv False True docs resolved db = Inr (db', items)"
  shows "pruned ws sound docs resolved db db' \<and> (granted sv db' \<longrightarrow> prune_seeds sv False True docs resolved db' = Inr (db', []))"
proof (cases "pruning_aliases docs = []")
  case True
  with assms(5) show ?thesis by (simp add: prune_seeds_def pruned_refl)
next
  case False
  then obtain als where als: "prune_order ws docs = Inr als" "prune_aliases sv False True docs resolved (rev als) db = Inr (db', items)"
    using assms(2,5) by (auto simp: prune_seeds_def split: sum.splits)
  have "list_all (\<lambda>al. map_of ws al \<noteq> None) (rev als)"
    using prune_order_within [OF als(1)] assms(4) by (fastforce simp: list_all_iff)
  from prune_aliases_pruned [OF assms(1-3) this als(2)] prune_aliases_nothing [OF assms(2)] als(1) False assms(2)
  show ?thesis by (auto simp: prune_seeds_def)
qed

end

end
