(* ===== verification/SeedTwice.thy ===== *)
theory SeedTwice
  imports SeedPruned
begin

section \<open>The same closed files, run again\<close>

text \<open>
  The checks of a run give each record a place of its own (\<open>checked_places\<close>); the identifiers a run
  resolved protect its records from the prune (\<open>resolved_protects\<close>); closed files are ordered the same
  way whatever the tenant holds (\<open>order_closed\<close>).  Together with the theories before, a second run of
  closed files writes nothing (\<open>second_run\<close>).
\<close>

subsection \<open>What a prune reports and what it leaves alone\<close>

definition prune_only :: "'s seed_db \<Rightarrow> 's seed_db \<Rightarrow> seed_item list \<Rightarrow> bool" where
  "prune_only db db' items \<longleftrightarrow> list_all (\<lambda>item. it_action item = SeedPrune) items \<and> sdb_demo db' = sdb_demo db"

lemma prune_candidate_only: "prune_candidate sv provisioning apply w d rows key db = Inr (db', items) \<Longrightarrow> prune_only db db' items"
  unfolding prune_candidate_def Let_def prune_only_def prune_item_def by (simp split: if_splits option.splits; auto)

lemma prune_keys_only: "prune_keys sv provisioning apply w d keeps rows ks db = Inr (db', items) \<Longrightarrow> prune_only db db' items"
proof (induction ks arbitrary: db items)
  case (Cons k ks)
  then show ?case by (fastforce simp: prune_only_def split: if_splits sum.splits dest: prune_candidate_only)
qed (simp add: prune_only_def)

lemma prune_documents_only: "prune_documents sv provisioning apply w keeps rows ds db = Inr (db', items) \<Longrightarrow> prune_only db db' items"
proof (induction ds arbitrary: db items)
  case (Cons d ds)
  then show ?case by (fastforce simp: prune_only_def split: sum.splits dest: prune_keys_only)
qed (simp add: prune_only_def)

lemma prune_aliases_only: "prune_aliases sv provisioning apply docs resolved als db = Inr (db', items) \<Longrightarrow> prune_only db db' items"
proof (induction als arbitrary: db items)
  case (Cons al als)
  then show ?case by (fastforce simp: prune_only_def split: sum.splits dest: prune_documents_only)
qed (simp add: prune_only_def)

lemma prune_seeds_only: "prune_seeds sv provisioning apply docs resolved db = Inr (db', items) \<Longrightarrow> prune_only db db' items"
  by (auto simp: prune_seeds_def split: if_splits sum.splits dest: prune_aliases_only) (simp_all add: prune_only_def)

lemmas prune_items = prune_seeds_only [unfolded prune_only_def, THEN conjunct1]

lemma reconcile_demo: "reconcile sv provisioning apply at e res db = Inr (db', res', item) \<Longrightarrow> sdb_demo db' = sdb_demo db"
  by (auto simp: reconcile_def reconcile_apply_def Let_def split: if_splits option.splits prod.splits sum.splits seed_action.splits)

lemma reconcile_all_demo: "reconcile_all sv provisioning apply at es res db = Inr (db', res', items) \<Longrightarrow> sdb_demo db' = sdb_demo db"
proof (induction es arbitrary: res db items)
  case (Cons e es)
  then show ?case by (auto split: sum.splits dest!: reconcile_demo)
qed simp

lemma run_documents_demo: "run_documents sv provisioning apply at kinds docs db = Inr (db', plan) \<Longrightarrow> sdb_demo db' = sdb_demo db"
  by (auto simp: run_documents_def prune_only_def split: sum.splits dest!: reconcile_all_demo prune_seeds_only)

subsection \<open>Closed files\<close>

definition closed_files :: "seed_document list \<Rightarrow> seed_reference list \<Rightarrow> bool" where
  "closed_files docs refs \<longleftrightarrow> (case order_seeds docs refs None of Inl _ \<Rightarrow> False | Inr _ \<Rightarrow> True)"

lemma graph_references_closed:
  "graph_references ents None i e rs g = Inr g' \<Longrightarrow> graph_references ents ask i e rs g = Inr g' \<and> gr_found g' = gr_found g"
proof (induction rs arbitrary: g)
  case (Cons r rs)
  then show ?case
    by (auto simp: Let_def split: if_splits option.splits seed_value.splits bool.splits)
qed simp

lemma graph_entries_closed:
  "graph_entries ents None refs rest g = Inr g' \<Longrightarrow> graph_entries ents ask refs rest g = Inr g' \<and> gr_found g' = gr_found g"
proof (induction rest arbitrary: g)
  case (Cons p rest)
  obtain i e where p: "p = (i, e)" by (cases p)
  obtain g1 where one: "graph_references ents None i e refs g = Inr g1" and more: "graph_entries ents None refs rest g1 = Inr g'"
    using Cons.prems by (auto simp: p split: sum.splits)
  from graph_references_closed [OF one, of ask] Cons.IH [OF more] show ?case by (simp add: p)
qed simp

lemma order_closed:
  assumes "closed_files docs refs"
  shows "\<exists>out. (\<forall>ask. order_seeds docs refs ask = Inr (out, [])) \<and> mset out = mset (declared_entries docs)"
proof -
  obtain out f where o: "order_seeds docs refs None = Inr (out, f)"
    using assms by (auto simp: closed_files_def split: sum.splits)
  let ?refs = "sort_key rf_resource (sort_key rf_path refs)"
  have v: "validate_references [] refs = None" using o by (simp add: order_seeds_def split: option.splits)
  obtain ents where e: "index_entries [] docs = Inr ents" using o v by (auto simp: order_seeds_def Let_def split: sum.splits)
  obtain g where g: "dependency_graph ents ?refs None = Inr g" using o v e by (auto simp: order_seeds_def Let_def split: sum.splits)
  obtain ids d where ids: "order_entries ents g = (ids, d)" by (cases "order_entries ents g")
  have g': "dependency_graph ents ?refs ask = Inr g" "gr_found g = []" for ask
    using graph_entries_closed [OF g [unfolded dependency_graph_def], of ask] by (simp_all add: dependency_graph_def)
  have "order_seeds docs refs ask = order_seeds docs refs None" for ask
    using order_seeds_parts [OF refl v e g ids] order_seeds_parts [OF refl v e g'(1) ids] by simp
  moreover have "f = []" using order_seeds_parts [OF o v e g ids] g'(2) by (simp split: if_splits)
  ultimately show ?thesis using o order_places_targets_first(1) [OF o] by simp
qed

subsection \<open>What the checks of a run see to\<close>

definition canonical_identity :: "(string \<times> 's seed_writer) list \<Rightarrow> seed_entry \<Rightarrow> string" where
  "canonical_identity ws e = identity_in (se_resource e) (canonical_of ws e)"

lemma check_records_result:
  assumes "map_of ws (sd_resource d) = Some w" "rs_alias (sw_resource w) = sd_resource d" "check_records (sw_resource w) seen recs = Inr seen'" "distinct (map fst seen)"
  shows "distinct (map fst seen')"
    and "map fst seen' = rev (map (canonical_identity ws) (map (\<lambda>r. \<lparr>se_kind = sd_kind d, se_resource = sd_resource d, se_record = r\<rparr>) recs)) @ map fst seen"
proof -
  have "distinct (map fst seen') \<and> map fst seen' = rev (map (canonical_identity ws) (map (\<lambda>r. \<lparr>se_kind = sd_kind d, se_resource = sd_resource d, se_record = r\<rparr>) recs)) @ map fst seen"
    using assms(3,4)
  proof (induction recs arbitrary: seen)
    case (Cons r recs)
    let ?e = "\<lparr>se_kind = sd_kind d, se_resource = sd_resource d, se_record = r\<rparr>"
    have i: "identity_in (rs_alias (sw_resource w)) (canonical_key (sw_resource w) (sr_key r)) = canonical_identity ws ?e"
      by (simp add: canonical_identity_def canonical_of_def assms(1,2))
    have new: "canonical_identity ws ?e \<notin> set (map fst seen)" and rest: "check_records (sw_resource w) ((canonical_identity ws ?e, sr_source r) # seen) recs = Inr seen'"
      using Cons.prems(1) by (auto simp: Let_def i map_of_eq_None_iff split: option.splits)
    have "distinct (map fst ((canonical_identity ws ?e, sr_source r) # seen))" using Cons.prems(2) new by simp
    note ih = Cons.IH [OF rest this]
    have "map fst seen' = rev (map (canonical_identity ws) (map (\<lambda>r. \<lparr>se_kind = sd_kind d, se_resource = sd_resource d, se_record = r\<rparr>) (r # recs))) @ map fst seen"
      using ih [THEN conjunct2] by (simp only: list.map rev.simps append_assoc append.simps fst_conv)
    with ih [THEN conjunct1] show ?case by (rule conjI)
  qed simp
  then show "distinct (map fst seen')"
    and "map fst seen' = rev (map (canonical_identity ws) (map (\<lambda>r. \<lparr>se_kind = sd_kind d, se_resource = sd_resource d, se_record = r\<rparr>) recs)) @ map fst seen" by blast+
qed

lemma check_documents_result:
  assumes "list_all (\<lambda>(al, w). rs_alias (sw_resource w) = al) ws" "check_documents ws seen listed docs = Inr refs" "distinct (map fst seen)"
  shows "list_all (\<lambda>d. map_of ws (sd_resource d) \<noteq> None) docs \<and> distinct (map (canonical_identity ws) (declared_entries docs) @ map fst seen)"
  using assms(2,3)
proof (induction docs arbitrary: seen listed refs)
  case (Cons d docs)
  obtain w where w: "map_of ws (sd_resource d) = Some w" using Cons.prems(1) by (auto split: option.splits)
  have named: "rs_alias (sw_resource w) = sd_resource d" using map_of_SomeD [OF w] assms(1) by (auto simp: list_all_iff)
  obtain seen1 listed1 refs1 where one: "check_records (sw_resource w) seen (sd_records d) = Inr seen1" and rest: "check_documents ws seen1 listed1 docs = Inr refs1"
    using Cons.prems(1) w by (auto simp: Let_def split: if_splits sum.splits)
  note s = check_records_result [OF w named one Cons.prems(2), folded document_entries_def]
  from Cons.IH [OF rest s(1)] have "distinct (map (canonical_identity ws) (declared_entries docs) @ rev (map (canonical_identity ws) (document_entries d)) @ map fst seen)"
    unfolding s(2) by blast
  then have "distinct ((map (canonical_identity ws) (document_entries d) @ map (canonical_identity ws) (declared_entries docs)) @ map fst seen)"
    by (simp only: distinct_append set_append set_rev distinct_rev) blast
  moreover have "declared_entries (d # docs) = document_entries d @ declared_entries docs" by (simp add: declared_entries_def)
  ultimately show ?case using Cons.IH [OF rest s(1), THEN conjunct1] w by (simp only: map_append list.pred_inject) blast
qed (simp add: declared_entries_def)

lemma slash_free: "valid_seed_name al \<Longrightarrow> CHR ''/'' \<notin> set al"
proof
  assume "valid_seed_name al" "CHR ''/'' \<in> set al"
  then have "is_alnum (CHR ''/'') \<or> CHR ''/'' = CHR ''-'' \<or> CHR ''/'' = CHR ''_''" unfolding valid_seed_name_def list_all_iff by blast
  then show False by (simp add: is_alnum_def)
qed

lemma identity_in_inj:
  assumes "identity_in al k = identity_in bl m" "CHR ''/'' \<notin> set al" "CHR ''/'' \<notin> set bl"
  shows "al = bl \<and> k = m"
proof -
  have "takeWhile (\<lambda>c. c \<noteq> CHR ''/'') (identity_in x y) = x" if "CHR ''/'' \<notin> set x" for x y
    using that by (induction x) (auto simp: identity_in_def)
  with assms have "al = bl" by metis
  then show ?thesis using assms(1) by (simp add: identity_in_def)
qed


subsection \<open>Places and identities\<close>

lemma distinct_map_via:
  assumes "distinct (map f xs)" "\<And>x y. x \<in> set xs \<Longrightarrow> y \<in> set xs \<Longrightarrow> g x = g y \<Longrightarrow> f x = f y"
  shows "distinct (map g xs)"
  using assms by (induction xs) (auto simp: image_iff)

lemma written_Some: "written ws es \<Longrightarrow> e \<in> set es \<Longrightarrow> \<exists>w. map_of ws (se_resource e) = Some w"
  by (simp add: written_def list_all_iff)

lemma checked_places:
  assumes "writer_table ws" "written ws es" "distinct (map (canonical_identity ws) es)"
  shows "distinct (map (place_of ws) es)"
proof (rule distinct_map_via [OF assms(3)])
  fix x y
  assume x: "x \<in> set es" and y: "y \<in> set es" and same: "place_of ws x = place_of ws y"
  obtain w v where w: "map_of ws (se_resource x) = Some w" and v: "map_of ws (se_resource y) = Some v"
    using written_Some [OF assms(2) x] written_Some [OF assms(2) y] by blast
  have eq: "rs_module (sw_resource w) = rs_module (sw_resource v)" "rs_entity (sw_resource w) = rs_entity (sw_resource v)" "canonical_of ws x = canonical_of ws y"
    using same by (simp_all add: place_of_def key_place_def canonical_of_def w v)
  from writer_table_unique [OF assms(1) map_of_SomeD [OF w] map_of_SomeD [OF v] eq(1,2)] eq(3)
  show "canonical_identity ws x = canonical_identity ws y" by (simp add: canonical_identity_def)
qed

lemma resolved_after_other:
  assumes "length rows = length es" "name \<notin> entry_identity ` set es" "name \<notin> canonical_identity ws ` set es"
  shows "map_of (resolved_after ws es rows res) name = map_of res name"
  using assms by (induction es rows arbitrary: res rule: list_induct2') (auto simp: resolves_to_def entry_identity_def canonical_identity_def)

lemma declared_entry_parts:
  assumes "e \<in> set (declared_entries docs)"
  shows "\<exists>d \<in> set docs. sd_resource d = se_resource e \<and> se_record e \<in> set (sd_records d)"
  using assms by (auto simp: declared_entries_def document_entries_def)

lemma declared_key: "e \<in> set (declared_entries docs) \<Longrightarrow> canonical_of ws e \<in> set (keep_keys ws docs (se_resource e))"
  using declared_entry_parts [of e docs] by (auto simp: keep_keys_def canonical_of_def)

lemma declared_row:
  assumes "e \<in> set (declared_entries docs)" "map_of resolved (canonical_identity ws e) = Some i" "i \<noteq> uuid_nil"
  shows "i \<in> set (declared_rows ws docs resolved (se_resource e))"
proof -
  obtain d where d: "d \<in> set docs" "sd_resource d = se_resource e" "se_record e \<in> set (sd_records d)" using declared_entry_parts [OF assms(1)] by blast
  have "map_of resolved (identity_in (se_resource e) (canonical_key (sw_resource (the (map_of ws (se_resource e)))) (sr_key (se_record e)))) = Some i"
    using assms(2) by (simp add: canonical_identity_def canonical_of_def)
  then show ?thesis using d assms(3) unfolding declared_rows_def by (auto intro!: bexI [of _ d] bexI [of _ "se_record e"])
qed

lemma settled_all_kept:
  assumes "settled_all ws es res db rows" "\<And>e row. (e, row) \<in> set (zip es rows) \<Longrightarrow> keeps_settled ws e (sn_id row) db db'"
  shows "settled_all ws es res db' rows"
  using assms
proof (induction es arbitrary: res rows)
  case (Cons e es)
  then obtain row rows' where "rows = row # rows'" by (cases rows) auto
  with Cons show ?case by (auto intro: settled_kept)
qed simp

lemma reconcile_all_no_prune: "reconcile_all sv provisioning apply at es res db = Inr (db', res', items) \<Longrightarrow> list_all (\<lambda>item. it_action item \<noteq> SeedPrune) items"
proof (induction es arbitrary: res db items)
  case (Cons e es)
  obtain db1 res1 item items' where one: "reconcile sv provisioning apply at e res db = Inr (db1, res1, item)"
    and rest: "reconcile_all sv provisioning apply at es res1 db1 = Inr (db', res', items')" and items: "items = item # items'"
    using Cons.prems by (auto split: sum.splits)
  have "it_action item \<noteq> SeedPrune"
    using one by (auto simp: reconcile_def Let_def decide_seed_def split: if_splits option.splits prod.splits sum.splits)
  with Cons.IH [OF rest] show ?case by (simp add: items)
qed simp

lemma reconcile_all_keys: "reconcile_all sv provisioning apply at es res db = Inr (db', res', items) \<Longrightarrow> map it_key items = map (\<lambda>e. sr_key (se_record e)) es"
proof (induction es arbitrary: res db items)
  case (Cons e es)
  obtain db1 res1 item items' where one: "reconcile sv provisioning apply at e res db = Inr (db1, res1, item)"
    and rest: "reconcile_all sv provisioning apply at es res1 db1 = Inr (db', res', items')" and items: "items = item # items'"
    using Cons.prems by (auto split: sum.splits)
  have "it_key item = sr_key (se_record e)"
    using one by (auto simp: reconcile_def Let_def split: if_splits option.splits prod.splits sum.splits)
  with Cons.IH [OF rest] show ?case by (simp add: items)
qed simp

context lawful_writers
begin

lemma resolved_protects:
  assumes "writer_table ws" "written ws es" "distinct (map (canonical_identity ws) es)" "length rows = length es" "(e, row) \<in> set (zip es rows)"
  shows "map_of (resolved_after ws es rows res) (canonical_identity ws e) = Some (sn_id row)"
  using assms(2-5)
proof (induction es arbitrary: rows res)
  case (Cons x es)
  obtain r rows' where rows: "rows = r # rows'" using Cons.prems(3) by (cases rows) auto
  have tl: "written ws es" "distinct (map (canonical_identity ws) es)" "length rows' = length es" using Cons.prems(1-3) by (auto simp: written_def rows)
  show ?case
  proof (cases "(e, row) \<in> set (zip es rows')")
    case True
    from Cons.IH [OF tl this] show ?thesis by (simp add: rows)
  next
    case False
    then have x: "x = e" "r = row" using Cons.prems(4) by (auto simp: rows)
    have ci: "canonical_identity ws e \<notin> canonical_identity ws ` set es" using Cons.prems(2) by (simp add: x)
    have "canonical_identity ws e \<notin> entry_identity ` set es"
    proof
      assume "canonical_identity ws e \<in> entry_identity ` set es"
      then obtain y where y: "y \<in> set es" "canonical_identity ws e = entry_identity y" by blast
      obtain w v where w: "map_of ws (se_resource e) = Some w" and v: "map_of ws (se_resource y) = Some v"
        using written_Some [OF Cons.prems(1), of e] written_Some [OF Cons.prems(1), of y] y(1) x(1) by auto
      have "CHR ''/'' \<notin> set (se_resource e)" "CHR ''/'' \<notin> set (se_resource y)"
        using map_of_SomeD [OF w] map_of_SomeD [OF v] assms(1) slash_free by (fastforce simp: writer_table_def list_all_iff)+
      with y(2) have "se_resource e = se_resource y \<and> canonical_of ws e = sr_key (se_record y)"
        unfolding canonical_identity_def entry_identity_def by (rule identity_in_inj)
      then have "canonical_identity ws y = canonical_identity ws e"
        using canonical [OF map_of_SomeD [OF w], of "sr_key (se_record e)"] w by (simp add: canonical_identity_def canonical_of_def)
      then show False using y(1) Cons.prems(2) by (metis distinct.simps(2) image_eqI list.simps(9) set_map x(1))
    qed
    from resolved_after_other [OF tl(3) this ci] show ?thesis by (simp add: rows x resolves_to_def canonical_identity_def)
  qed
qed simp

lemma second_run:
  assumes sv: "sv_writers sv = ws" and sound: "sound (sdb_rows db)" and keys: "key_table (sdb_keys db)" and table: "writer_table ws"
    and refs: "check_documents ws [] [] docs = Inr refs" and closed: "closed_files docs refs"
    and run: "run_documents sv False True at kinds docs db = Inr (db2, plan)"
    and apart: "distinct (map item_row (filter (\<lambda>item. it_action item \<noteq> SeedPrune) (pl_items plan)))"
    and fixed: "writable unwritten (pl_items plan)" and may: "granted sv db2"
  shows "\<exists>plan'. run_documents sv False True at' kinds docs db2 = Inr (db2, plan') \<and> list_all (\<lambda>item. it_action item = SeedUnchanged) (pl_items plan')
    \<and> map it_key (pl_items plan') = map it_key (filter (\<lambda>item. it_action item \<noteq> SeedPrune) (pl_items plan))"
proof -
  obtain es where es: "\<And>ask. order_seeds docs refs ask = Inr (es, [])" and m: "mset es = mset (declared_entries docs)"
    using order_closed [OF closed] by blast
  obtain db1 resolved items pr where rec: "reconcile_all sv False True at es [] db = Inr (db1, resolved, items)"
    and pr: "prune_seeds sv False True docs resolved db1 = Inr (db2, pr)" and items: "pl_items plan = items @ pr"
    using run by (auto simp: run_documents_def sv refs es resolved_outside_def split: sum.splits)
  have named: "list_all (\<lambda>(al, w). rs_alias (sw_resource w) = al) ws" using table by (auto simp: writer_table_def list_all_iff)
  have docs: "list_all (\<lambda>d. map_of ws (sd_resource d) \<noteq> None) docs" "distinct (map (canonical_identity ws) (declared_entries docs))"
    using check_documents_result [OF named refs] by simp_all
  have set_es: "set es = set (declared_entries docs)" using mset_eq_setD [OF m] .
  have wr: "written ws es" using docs(1) declared_entry_parts [of _ docs] by (fastforce simp: written_def list_all_iff set_es)
  have ci: "distinct (map (canonical_identity ws) es)"
    using docs(2) mset_eq_imp_distinct_iff [of "map (canonical_identity ws) es" "map (canonical_identity ws) (declared_entries docs)"] m by simp
  have kept: "filter (\<lambda>item. it_action item \<noteq> SeedPrune) items = items" using reconcile_all_no_prune [OF rec] by (simp add: filter_id_conv list_all_iff)
  then have it: "distinct (map item_row items)" "writable unwritten items" using apart fixed by (simp_all add: items writable_def)
  from reconcile_all_settles [OF sv sound keys wr rec it(2) checked_places [OF table wr ci] it(1)]
  obtain rows where rows: "settled_all ws es [] db1 rows" "resolved = resolved_after ws es rows []" "sound (sdb_rows db1)" "length rows = length es"
    "list_all (\<lambda>row. sn_id row \<noteq> uuid_nil) rows" by blast
  from prune_seeds_twice [OF table sv rows(3) docs(1) pr] may
  have p: "pruned ws sound docs resolved db1 db2" "prune_seeds sv False True docs resolved db2 = Inr (db2, [])" by simp_all
  have "settled_all ws es [] db2 rows"
  proof (rule settled_all_kept [OF rows(1)])
    fix e row
    assume z: "(e, row) \<in> set (zip es rows)"
    then have e: "e \<in> set (declared_entries docs)" "e \<in> set es" "sn_id row \<noteq> uuid_nil"
      using set_zip_leftD [OF z] set_zip_rightD [OF z] rows(5) by (auto simp: set_es list_all_iff)
    obtain w where w: "map_of ws (se_resource e) = Some w" using written_Some [OF wr e(2)] by blast
    have "map_of resolved (canonical_identity ws e) = Some (sn_id row)"
      unfolding rows(2) by (rule resolved_protects [OF table wr ci rows(4) z])
    from pruned_keeps_settled [OF p(1) w declared_key [OF e(1)] declared_row [OF e(1) this e(3)]]
    show "keeps_settled ws e (sn_id row) db1 db2" .
  qed
  from settled_all_again [of sv es "[]" db2 rows at'] this may
  obtain items' where "reconcile_all sv False True at' es [] db2 = Inr (db2, resolved, items')" "list_all (\<lambda>item. it_action item = SeedUnchanged) items'"
    by (auto simp: sv rows(2))
  moreover from this(1) have "map it_key items' = map it_key items" using reconcile_all_keys rec by metis
  moreover have "filter (\<lambda>item. it_action item \<noteq> SeedPrune) pr = []" using prune_items [OF pr] by (simp add: filter_empty_conv list_all_iff)
  ultimately show ?thesis using p(2) kept by (simp add: run_documents_def sv refs es resolved_outside_def items)
qed

end

end
