(* ===== verification/SeedUsers.thy ===== *)
theory SeedUsers
  imports SeedTwice Administration
begin

section \<open>The writer of seeded people\<close>

text \<open>
  \<open>apps/platformkit/seed.go\<close>: \<open>userSeeder\<close> over the user module's own operations, and the grant a run asks
  for (\<open>seedGrants\<close>).  The new identifiers, the clock, the hash, the deployment's demo password and the ones
  the run mints are the fields of \<open>seed_owners\<close>; an owner's error ends the run, so its words are dropped.
\<close>

record seed_owners =
  so_fresh :: "directory \<Rightarrow> uuid"
  so_now :: time
  so_enc :: "string \<Rightarrow> string"
  so_demo :: string
  so_mint :: "string \<Rightarrow> string option"
  so_live :: bool
  so_may :: "bool option"

subsection \<open>What a record declares\<close>

fun seed_texts :: "seed_record \<Rightarrow> string list \<Rightarrow> (string \<times> string) list option" where
  "seed_texts r [] = Some []"
| "seed_texts r (n # ns) =
     (case map_of (sr_fields r) n of
        None \<Rightarrow> seed_texts r ns
      | Some VNull \<Rightarrow> seed_texts r ns
      | Some (VText s) \<Rightarrow> map_option (\<lambda>text. (n, trim_space s) # text) (seed_texts r ns)
      | Some _ \<Rightarrow> None)"

fun role_names :: "seed_value list \<Rightarrow> string list option" where
  "role_names [] = Some []"
| "role_names (v # vs) = (case v of VText s \<Rightarrow> map_option (Cons s) (role_names vs) | _ \<Rightarrow> None)"

definition declared_roles :: "seed_value \<Rightarrow> string list option" where
  "declared_roles v = (case v of VNull \<Rightarrow> Some [] | VList vs \<Rightarrow> map_option canonical_roles (role_names vs) | _ \<Rightarrow> None)"

definition roles_value :: "string list \<Rightarrow> seed_value" where
  "roles_value roles = VList (map VText roles)"

definition sign_in_declared :: string where "sign_in_declared = ''demo''"

definition text_at :: "(string \<times> string) list \<Rightarrow> string \<Rightarrow> string" where
  "text_at text n = (case map_of text n of None \<Rightarrow> '''' | Some s \<Rightarrow> s)"

definition user_resource :: seed_resource where
  "user_resource = \<lparr>rs_alias = ''users'', rs_module = ''user'', rs_entity = ''user'', rs_natural = ''email'', rs_grant = ''user:manage'',
     rs_prunable = False, rs_references = [], rs_commands = [], rs_canonical = Some canonical_email\<rparr>"

definition user_target :: "seed_record \<Rightarrow> (string \<times> uuid) list \<Rightarrow> time \<Rightarrow> seed_target option" where
  "user_target r resolved at =
     (case seed_texts r [''displayName'', ''signIn''] of
        None \<Rightarrow> None
      | Some text \<Rightarrow>
          (case declared_roles (value_of (sr_fields r) ''roles'') of
             None \<Rightarrow> None
           | Some roles \<Rightarrow>
               Some \<lparr>tg_fields = [(''email'', VText (canonical_email (sr_key r))), (''displayName'', VText (text_at text ''displayName'')),
                   (''roles'', roles_value roles)] @ (if text_at text ''signIn'' = sign_in_declared then [(''signIn'', VText sign_in_declared)] else []),
                 tg_commands = [], tg_create_only = []\<rparr>))"

subsection \<open>The person behind it\<close>

definition sign_in_held :: "person \<Rightarrow> string" where
  "sign_in_held u = (if pn_hash u \<noteq> '''' then sign_in_declared else '''')"

definition user_snapshot :: "person \<Rightarrow> seed_snapshot" where
  "user_snapshot u = \<lparr>sn_present = True, sn_id = pn_id u,
     sn_fields = [(''email'', VText (pn_email u)), (''displayName'', VText (pn_display u)), (''roles'', roles_value (canonical_roles (pn_roles u))),
       (''signIn'', VText (sign_in_held u))], sn_commands = []\<rparr>"

definition user_read :: "seed_key \<Rightarrow> directory \<Rightarrow> seed_snapshot option" where
  "user_read key db =
     (case (if sk_record key \<noteq> uuid_nil then get_person (sk_record key) db else by_email (sk_value key) db) of
        None \<Rightarrow> Some absent_row
      | Some u \<Rightarrow> Some (user_snapshot u))"

definition given_password :: "seed_owners \<Rightarrow> string \<Rightarrow> string option" where
  "given_password p email = (if so_demo p = '''' then so_mint p email else Some (so_demo p))"

definition user_set_roles :: "seed_owners \<Rightarrow> person \<Rightarrow> string list \<Rightarrow> directory \<Rightarrow> (directory \<times> person) option" where
  "user_set_roles p u roles db =
     (if pn_roles u \<noteq> roles
      then (case set_roles (administering_port (so_live p)) (so_may p) False (so_now p) (pn_id u) roles db of (db', Inr v) \<Rightarrow> Some (db', v) | _ \<Rightarrow> None)
      else Some (db, u))"

definition user_sign_in :: "seed_owners \<Rightarrow> person \<Rightarrow> seed_target \<Rightarrow> directory \<Rightarrow> (directory \<times> person) option" where
  "user_sign_in p u t db =
     (if map_of (tg_fields t) ''signIn'' = Some (VText sign_in_declared) \<and> pn_hash u = ''''
      then (case given_password p (pn_email u) of
              None \<Rightarrow> None
            | Some pw \<Rightarrow>
                (case set_password (so_enc p) (so_now p) (pn_id u) pw db of
                   (db', Inr _) \<Rightarrow> map_option (Pair db') (get_person (pn_id u) db')
                 | _ \<Rightarrow> None))
      else Some (db, u))"

definition user_commands :: "seed_owners \<Rightarrow> person \<Rightarrow> seed_target \<Rightarrow> directory \<Rightarrow> (directory \<times> seed_snapshot) option" where
  "user_commands p u t db =
     (case declared_roles (value_of (tg_fields t) ''roles'') of
        None \<Rightarrow> None
      | Some roles \<Rightarrow>
          (case user_set_roles p u roles db of
             None \<Rightarrow> None
           | Some (db1, u1) \<Rightarrow> map_option (\<lambda>(db2, u2). (db2, user_snapshot u2)) (user_sign_in p u1 t db1)))"

text \<open>A field asserted to be text that is none is a panic.\<close>

definition asserted_text :: "(string \<times> seed_value) list \<Rightarrow> string \<Rightarrow> string option" where
  "asserted_text m n = (case map_of m n of Some (VText s) \<Rightarrow> Some s | _ \<Rightarrow> None)"

definition user_create :: "seed_owners \<Rightarrow> seed_target \<Rightarrow> directory \<Rightarrow> (directory \<times> seed_snapshot) option" where
  "user_create p t db =
     (case (asserted_text (tg_fields t) ''email'', asserted_text (tg_fields t) ''displayName'') of
        (Some email, Some display) \<Rightarrow>
          (case invite (so_fresh p db) (so_now p) email display db of
             (db', Inr u) \<Rightarrow> user_commands p u t db'
           | _ \<Rightarrow> None)
      | _ \<Rightarrow> None)"

definition user_update :: "seed_owners \<Rightarrow> seed_snapshot \<Rightarrow> seed_target \<Rightarrow> directory \<Rightarrow> (directory \<times> seed_snapshot) option" where
  "user_update p cur t db =
     (case (asserted_text (tg_fields t) ''displayName'', asserted_text (sn_fields cur) ''displayName'') of
        (Some want, Some have_name) \<Rightarrow>
          if want \<noteq> have_name then None
          else (case get_person (sn_id cur) db of None \<Rightarrow> None | Some u \<Rightarrow> user_commands p u t db)
      | _ \<Rightarrow> None)"

definition user_delete :: "seed_snapshot \<Rightarrow> directory \<Rightarrow> directory option" where
  "user_delete cur db = None"

definition user_writer :: "seed_owners \<Rightarrow> directory seed_writer" where
  "user_writer p = \<lparr>sw_resource = user_resource, sw_target = user_target, sw_read = user_read, sw_create = user_create p,
     sw_update = user_update p, sw_delete = user_delete\<rparr>"

text \<open>\<open>seedGrants.Check\<close>: the person a run writes as, read again; a provisioning run asks nobody.\<close>

definition seed_grants :: "bool \<Rightarrow> principal option \<Rightarrow> bool \<Rightarrow> seed_resource \<Rightarrow> seed_action \<Rightarrow> directory \<Rightarrow> bool" where
  "seed_grants live caller provisioning r action db \<longleftrightarrow>
     (if provisioning then True
      else case caller of
        None \<Rightarrow> False
      | Some c \<Rightarrow>
          if pr_roles c = [] then False
          else (case get_person (pr_user c) db of
             None \<Rightarrow> False
           | Some u \<Rightarrow>
               if pn_status u \<noteq> status_active \<or> pn_roles u = [] then False
               else (case role_permissions live db (pn_roles u) of
                  Inl _ \<Rightarrow> False
                | Inr held \<Rightarrow> grant_match held \<lparr>gt_permission = rs_grant r, gt_operator = False\<rparr>)))"

subsection \<open>One row at a time\<close>

text \<open>What one person's commands leave of the others: the rows keep their place, identifier, address and mark.\<close>

definition stays_put :: "uuid \<Rightarrow> person \<Rightarrow> person \<Rightarrow> bool" where
  "stays_put i v v' \<longleftrightarrow> pn_id v' = pn_id v \<and> pn_email v' = pn_email v \<and> pn_deleted v' = pn_deleted v \<and> (pn_id v \<noteq> i \<longrightarrow> v' = v)"

definition only_moves :: "uuid \<Rightarrow> directory \<Rightarrow> directory \<Rightarrow> bool" where
  "only_moves i db db' \<longleftrightarrow>
     (\<exists>xs tail. dr_people db' = xs @ tail \<and> list_all (\<lambda>v. pn_id v = i) tail
        \<and> list_all2 (stays_put i) (dr_people db) xs)"

lemma only_moves_refl: "only_moves i db db"
proof -
  have "list_all2 (stays_put i) (dr_people db) (dr_people db)" by (rule list.rel_refl) (simp add: stays_put_def)
  then show ?thesis unfolding only_moves_def by (intro exI [of _ "dr_people db"] exI [of _ "[]"]) simp
qed

lemma find_moves:
  assumes "list_all2 (stays_put i) vs xs"
    "\<And>v v'. pn_id v' = pn_id v \<Longrightarrow> pn_email v' = pn_email v \<Longrightarrow> pn_deleted v' = pn_deleted v \<Longrightarrow> Q v' = Q v"
    "List.find Q vs = Some u" "pn_id u \<noteq> i"
  shows "List.find Q xs = Some u"
  using assms(1,3,4)
proof (induction rule: list_all2_induct)
  case (Cons v vs v' xs)
  have "Q v' = Q v" using Cons.hyps(1) by (intro assms(2)) (simp_all add: stays_put_def)
  with Cons show ?case by (auto simp: stays_put_def split: if_splits)
qed simp

lemma only_moves_read:
  assumes "only_moves i db db'"
  shows "get_person j db = Some u \<Longrightarrow> pn_id u \<noteq> i \<Longrightarrow> get_person j db' = Some u"
    and "by_email e db = Some u \<Longrightarrow> pn_id u \<noteq> i \<Longrightarrow> by_email e db' = Some u"
proof -
  obtain xs tail where x: "dr_people db' = xs @ tail" "list_all2 (stays_put i) (dr_people db) xs"
    using assms by (auto simp: only_moves_def)
  show "get_person j db' = Some u" if "get_person j db = Some u" "pn_id u \<noteq> i"
    using find_moves [OF x(2) _ that(1) [unfolded get_person_def] that(2)] by (simp add: get_person_def x(1) find_append shown_def)
  show "by_email e db' = Some u" if "by_email e db = Some u" "pn_id u \<noteq> i"
    using find_moves [OF x(2) _ that(1) [unfolded by_email_def] that(2)] by (simp add: by_email_def x(1) find_append shown_def)
qed


lemma stays_put_ids: "list_all2 (stays_put i) vs xs \<Longrightarrow> list_all (\<lambda>v. P (pn_id v)) vs \<Longrightarrow> list_all (\<lambda>v. P (pn_id v)) xs"
  by (induction rule: list_all2_induct) (auto simp: stays_put_def)

lemma only_moves_trans:
  assumes "only_moves i db db'" "only_moves i db' db''"
  shows "only_moves i db db''"
proof -
  obtain xs tail where x: "dr_people db' = xs @ tail" "list_all (\<lambda>v. pn_id v = i) tail" "list_all2 (stays_put i) (dr_people db) xs"
    using assms(1) by (auto simp: only_moves_def)
  obtain ys end_rows where y: "dr_people db'' = ys @ end_rows" "list_all (\<lambda>v. pn_id v = i) end_rows" "list_all2 (stays_put i) (xs @ tail) ys"
    using assms(2) x(1) by (auto simp: only_moves_def)
  obtain ys1 ys2 where s: "ys = ys1 @ ys2" "list_all2 (stays_put i) xs ys1" "list_all2 (stays_put i) tail ys2"
    using y(3) by (auto simp: list_all2_append1)
  have "stays_put i a c" if "stays_put i a b" "stays_put i b c" for a b c using that by (auto simp: stays_put_def)
  then have "list_all2 (stays_put i) (dr_people db) ys1" using list_all2_trans [OF _ x(3) s(2)] by blast
  moreover have "list_all (\<lambda>v. pn_id v = i) (ys2 @ end_rows)"
    using stays_put_ids [OF s(3) x(2)] y(2) by simp
  ultimately show ?thesis unfolding only_moves_def y(1) s(1) by (intro exI [of _ ys1] exI [of _ "ys2 @ end_rows"]) simp
qed

lemma only_moves_people: "dr_people db1 = dr_people db1' \<Longrightarrow> only_moves i db db1 = only_moves i db db1'"
  by (simp add: only_moves_def)

lemma insert_moves: "insert_person u db = Inr db' \<Longrightarrow> only_moves (pn_id u) db db'"
proof -
  assume "insert_person u db = Inr db'"
  then have "dr_people db' = dr_people db @ [u]" by (auto simp: insert_person_def split: if_splits option.splits)
  moreover have "list_all2 (stays_put (pn_id u)) (dr_people db) (dr_people db)" by (rule list.rel_refl) (simp add: stays_put_def)
  ultimately show ?thesis unfolding only_moves_def by (intro exI [of _ "dr_people db"] exI [of _ "[u]"]) simp
qed

lemma replace_moves:
  assumes "directory_ok db" "get_person i db = Some u" "pn_id v = i" "pn_email v = pn_email u" "pn_deleted v = pn_deleted u"
  shows "only_moves i db (replace_person v db)" "get_person i (replace_person v db) = Some v"
proof -
  note u = got_person(1) [OF assms(2)]
  have same: "x = u" if "x \<in> set (dr_people db)" "pn_id x = i" for x using one_row [OF assms(1) that(1)] u that(2) by simp
  have "list_all2 (stays_put i) (dr_people db) (map (\<lambda>x. if pn_id x = i then v else x) (dr_people db))"
    unfolding list.rel_map by (rule list.rel_refl_strong) (use same assms(3-5) in \<open>auto simp: stays_put_def\<close>)
  then show "only_moves i db (replace_person v db)"
    unfolding only_moves_def replace_person_def assms(3)
    by (intro exI [of _ "map (\<lambda>x. if pn_id x = i then v else x) (dr_people db)"] exI [of _ "[]"]) simp
  show "get_person i (replace_person v db) = Some v"
    unfolding get_person_def replace_person_def
    by (rule find_only) (use u assms(3,5) same in \<open>auto simp: shown_def split: if_splits\<close>)
qed

subsection \<open>What a person's commands come to\<close>

definition users_sound :: "directory \<Rightarrow> bool" where
  "users_sound db \<longleftrightarrow> directory_ok db \<and> list_all (\<lambda>u. pn_id u \<noteq> uuid_nil) (dr_people db)"

lemma moves_sound:
  assumes "users_sound db" "only_moves i db db'" "directory_ok db'" "i \<noteq> uuid_nil"
  shows "users_sound db'"
proof -
  obtain xs tail where x: "dr_people db' = xs @ tail" "list_all (\<lambda>v. pn_id v = i) tail" "list_all2 (stays_put i) (dr_people db) xs"
    using assms(2) by (auto simp: only_moves_def)
  have "list_all (\<lambda>u. pn_id u \<noteq> uuid_nil) xs" using stays_put_ids [OF x(3), of "\<lambda>i. i \<noteq> uuid_nil"] assms(1) by (simp add: users_sound_def)
  with x assms(3,4) show ?thesis by (auto simp: users_sound_def list_all_iff)
qed

lemma valid_as_it_is:
  assumes "validate_person p = Inr u" "person_ok q" "pn_email p = pn_email q" "pn_display p = pn_display q" "pn_handle p = pn_handle q" "pn_status p \<noteq> ''''"
  shows "u = p"
proof -
  have "folded (pn_handle q) = pn_handle q" using assms(2) by (auto simp: person_ok_def handle_ok_def folded_def trim_space_def)
  then show ?thesis using validated_row [OF assms(1)] assms(2-6) by (simp add: person_ok_def email_ok_def canonical_email_def)
qed

lemma command_settles:
  assumes "directory_ok db" "get_person i db = Some u" "pn_id p = i" "pn_email p = pn_email u" "pn_display p = pn_display u" "pn_handle p = pn_handle u"
    "pn_status p \<noteq> ''''" "pn_deleted p = pn_deleted u" "copy p u = p" "good_copy copy" "sorted (pn_roles p)" "distinct (pn_roles p)" "hash_ok (pn_hash p)"
    "saved (crud_update now copy p db) ev db = (db', Inr v)"
  shows "v = p\<lparr>pn_updated := now\<rparr> \<and> get_person i db' = Some v \<and> only_moves i db db' \<and> directory_ok db'"
proof -
  obtain d where d: "crud_update now copy p db = Inr (d, v)" "db' = publish_person (ev v) d"
    using assms(14) by (auto simp: saved_def split: sum.splits)
  obtain w row where w: "validate_person p = Inr w" "get_person (pn_id p) db = Some row" "d = replace_person ((copy w row)\<lparr>pn_updated := now\<rparr>) db"
    "v = w\<lparr>pn_updated := now\<rparr>" using d(1) by (rule crud_update_row)
  have row: "row = u" using w(2) assms(2,3) by simp
  have "person_ok u" using got_person(1) [OF assms(2)] row_ok(1) [OF assms(1)] by blast
  then have "w = p" using valid_as_it_is [OF w(1)] assms(4-7) by blast
  then have v: "v = p\<lparr>pn_updated := now\<rparr>" "d = replace_person v db" using w(3,4) row assms(9) by simp_all
  have "get_person i d = Some v" "only_moves i db d"
    using replace_moves [OF assms(1,2), of v] assms(3,4,8) by (simp_all add: v)
  moreover have "directory_ok d" by (rule crud_update_ok [OF assms(1) d(1) assms(10-13)])
  moreover have "dr_people db' = dr_people d" by (simp add: d(2))
  ultimately show ?thesis using v(1) only_moves_people [of db' d] by (simp add: d(2) get_person_def)
qed


text \<open>Roles as \<open>CanonicalRoles\<close> leaves them are left as they are.\<close>

lemma canonical_from_kept: "list_all (\<lambda>r. folded r = r \<and> r \<noteq> '''') xs \<Longrightarrow> distinct (out @ xs) \<Longrightarrow> canonical_from out xs = out @ xs"
  by (induction xs arbitrary: out) (simp_all add: Let_def)

lemma canonical_from_members:
  "list_all (\<lambda>r. folded r = r \<and> r \<noteq> '''') out \<Longrightarrow> list_all (\<lambda>r. folded r = r \<and> r \<noteq> '''') (canonical_from out xs)"
  by (induction xs arbitrary: out) (simp_all add: Let_def)

lemma canonical_roles_idem [simp]: "canonical_roles (canonical_roles roles) = canonical_roles roles"
proof -
  have "list_all (\<lambda>r. folded r = r \<and> r \<noteq> '''') (canonical_roles roles)"
    using canonical_from_members [of "[]" roles] by (simp add: canonical_roles_def list_all_iff)
  from canonical_from_kept [OF this, of "[]"] have "canonical_from [] (canonical_roles roles) = canonical_roles roles" by simp
  then show ?thesis using canonical_roles_sorted(1) [of roles] by (simp add: canonical_roles_def [of "canonical_roles roles"] sorted_sort_id)
qed

lemma role_names_texts [simp]: "role_names (map VText roles) = Some roles"
  by (induction roles) simp_all

lemma declared_roles_value [simp]: "declared_roles (roles_value roles) = Some (canonical_roles roles)"
  by (simp add: declared_roles_def roles_value_def)

lemma user_set_roles_settles:
  assumes "users_sound db" "get_person (pn_id u) db = Some u" "canonical_roles roles = roles" "user_set_roles p u roles db = Some (db', v)"
  shows "users_sound db' \<and> get_person (pn_id u) db' = Some v \<and> only_moves (pn_id u) db db' \<and> pn_id v = pn_id u \<and> pn_email v = pn_email u
    \<and> pn_display v = pn_display u \<and> pn_roles v = roles"
proof (cases "pn_roles u = roles")
  case True
  with assms show ?thesis by (simp add: user_set_roles_def only_moves_refl)
next
  case False
  have ok: "directory_ok db" using assms(1) by (simp add: users_sound_def)
  have u: "u \<in> set (dr_people db)" using got_person(1) [OF assms(2)] by blast
  have nn: "pn_id u \<noteq> uuid_nil" using u assms(1) by (simp add: users_sound_def list_all_iff)
  have st: "pn_status u \<noteq> ''''" using row_ok(1) [OF ok u] by (auto simp: person_ok_def statuses_def status_defs)
  let ?p = "u\<lparr>pn_roles := roles\<rparr>"
  have s: "saved (crud_update (so_now p) copy_roles ?p db) (\<lambda>v. [EvRolesSet (pn_id v) (pn_roles u) roles]) db = (db', Inr v)"
    using assms(2-4) False by (auto simp: user_set_roles_def set_roles_def locked_user_def Let_def split: prod.splits sum.splits option.splits if_splits)
  have "v = ?p\<lparr>pn_updated := so_now p\<rparr> \<and> get_person (pn_id u) db' = Some v \<and> only_moves (pn_id u) db db' \<and> directory_ok db'"
    by (rule command_settles [OF ok assms(2) _ _ _ _ _ _ _ _ _ _ _ s])
      (use st row_ok(4) [OF ok u] canonical_roles_sorted [of roles] assms(3) in \<open>simp_all add: copy_roles_def\<close>)
  with moves_sound [OF assms(1) _ _ nn] show ?thesis by auto
qed

lemma user_sign_in_settles:
  assumes "users_sound db" "get_person (pn_id u) db = Some u" "user_sign_in p u t db = Some (db', v)"
  shows "users_sound db' \<and> get_person (pn_id u) db' = Some v \<and> only_moves (pn_id u) db db' \<and> pn_id v = pn_id u \<and> pn_email v = pn_email u
    \<and> pn_display v = pn_display u \<and> pn_roles v = pn_roles u \<and> (map_of (tg_fields t) ''signIn'' = Some (VText sign_in_declared) \<longrightarrow> pn_hash v \<noteq> '''')"
proof (cases "map_of (tg_fields t) ''signIn'' = Some (VText sign_in_declared) \<and> pn_hash u = ''''")
  case False
  with assms show ?thesis by (auto simp: user_sign_in_def only_moves_refl)
next
  case True
  have ok: "directory_ok db" using assms(1) by (simp add: users_sound_def)
  have u: "u \<in> set (dr_people db)" using got_person(1) [OF assms(2)] by blast
  have nn: "pn_id u \<noteq> uuid_nil" using u assms(1) by (simp add: users_sound_def list_all_iff)
  obtain pw w where pw: "set_password (so_enc p) (so_now p) (pn_id u) pw db = (db', Inr w)" "get_person (pn_id u) db' = Some v"
    using assms(3) True by (auto simp: user_sign_in_def split: option.splits prod.splits sum.splits)
  obtain h where h: "hash_password (so_enc p) pw = Inr h"
    and s: "saved (crud_update (so_now p) copy_password (u\<lparr>pn_hash := h, pn_status := status_active\<rparr>) db) (\<lambda>u. [EvPasswordSet (pn_id u)]) db = (db', Inr w)"
    using pw(1) assms(2) by (auto simp: set_password_def locked_user_def split: if_splits sum.splits)
  have "w = (u\<lparr>pn_hash := h, pn_status := status_active\<rparr>)\<lparr>pn_updated := so_now p\<rparr> \<and> get_person (pn_id u) db' = Some w \<and> only_moves (pn_id u) db db' \<and> directory_ok db'"
    by (rule command_settles [OF ok assms(2) _ _ _ _ _ _ _ _ _ _ _ s])
      (use row_ok [OF ok u] hash_password_ok [OF h] in \<open>simp_all add: copy_password_def status_active_def\<close>)
  with pw(2) moves_sound [OF assms(1) _ _ nn] hash_password_ok [OF h] show ?thesis by auto
qed


lemma declared_roles_canonical: "declared_roles v = Some roles \<Longrightarrow> canonical_roles roles = roles"
  by (auto simp: declared_roles_def canonical_roles_def [of "[]"] split: seed_value.splits)

lemma user_commands_settles:
  assumes "users_sound db" "get_person (pn_id u) db = Some u" "user_commands p u t db = Some (db', row)"
  shows "\<exists>v. row = user_snapshot v \<and> users_sound db' \<and> get_person (pn_id u) db' = Some v \<and> only_moves (pn_id u) db db' \<and> pn_id v = pn_id u
    \<and> pn_email v = pn_email u \<and> pn_display v = pn_display u \<and> declared_roles (value_of (tg_fields t) ''roles'') = Some (pn_roles v)
    \<and> (map_of (tg_fields t) ''signIn'' = Some (VText sign_in_declared) \<longrightarrow> pn_hash v \<noteq> '''')"
proof -
  obtain roles where roles: "declared_roles (value_of (tg_fields t) ''roles'') = Some roles"
    using assms(3) by (auto simp: user_commands_def split: option.splits)
  obtain db1 u1 where one: "user_set_roles p u roles db = Some (db1, u1)"
    using assms(3) roles by (auto simp: user_commands_def split: option.splits)
  obtain v where two: "user_sign_in p u1 t db1 = Some (db', v)" and row: "row = user_snapshot v"
    using assms(3) roles one by (auto simp: user_commands_def)
  note s1 = user_set_roles_settles [OF assms(1,2) declared_roles_canonical [OF roles] one]
  then have "users_sound db1" "get_person (pn_id u1) db1 = Some u1" by simp_all
  note s2 = user_sign_in_settles [OF this two]
  have "only_moves (pn_id u) db db'" by (rule only_moves_trans [of _ _ db1]) (use s1 s2 in simp_all)
  with s1 s2 roles row show ?thesis by (intro exI [of _ v]) simp
qed

lemma user_create_settles:
  assumes "users_sound db" "so_fresh p db \<noteq> uuid_nil" "user_create p t db = Some (db', row)"
  shows "\<exists>v email display. row = user_snapshot v \<and> users_sound db' \<and> get_person (so_fresh p db) db' = Some v \<and> only_moves (so_fresh p db) db db'
    \<and> pn_id v = so_fresh p db \<and> asserted_text (tg_fields t) ''email'' = Some email \<and> asserted_text (tg_fields t) ''displayName'' = Some display
    \<and> pn_email v = canonical_email email \<and> pn_display v = trim_space display \<and> declared_roles (value_of (tg_fields t) ''roles'') = Some (pn_roles v)
    \<and> (map_of (tg_fields t) ''signIn'' = Some (VText sign_in_declared) \<longrightarrow> pn_hash v \<noteq> '''')"
proof -
  obtain email display where t: "asserted_text (tg_fields t) ''email'' = Some email" "asserted_text (tg_fields t) ''displayName'' = Some display"
    using assms(3) by (auto simp: user_create_def split: option.splits)
  obtain db1 u where one: "invite (so_fresh p db) (so_now p) email display db = (db1, Inr u)" and two: "user_commands p u t db1 = Some (db', row)"
    using assms(3) t by (auto simp: user_create_def split: prod.splits sum.splits)
  let ?p = "blank_person\<lparr>pn_email := email, pn_display := display, pn_status := status_invited\<rparr>"
  obtain d where d: "crud_create (so_fresh p db) (so_now p) ?p db = Inr (d, u)" "dr_people db1 = dr_people d"
    using one by (auto simp: invite_def saved_def split: sum.splits)
  have ok: "directory_ok d" by (rule crud_create_ok [OF _ d(1)]) (use assms(1) in \<open>simp_all add: users_sound_def blank_person_def\<close>)
  obtain w where w: "validate_person (?p\<lparr>pn_id := so_fresh p db, pn_deleted := None\<rparr>) = Inr w" "u = w\<lparr>pn_created := so_now p, pn_updated := so_now p\<rparr>"
    "insert_person u db = Inr d" using crud_create_row [OF d(1)] by blast
  have u: "pn_id u = so_fresh p db" "pn_email u = canonical_email email" "pn_display u = trim_space display" "pn_deleted u = None"
    using validated_row [OF w(1)] by (simp_all add: w(2))
  have rows: "dr_people d = dr_people db @ [u]" "\<forall>x \<in> set (dr_people db). pn_id x \<noteq> pn_id u"
    using w(3) by (auto simp: insert_person_def list_ex_iff split: if_splits option.splits)
  have "get_person (pn_id u) db1 = Some u"
    unfolding get_person_def d(2) by (rule find_only) (use rows u(4) in \<open>auto simp: shown_def\<close>)
  moreover have moved: "only_moves (pn_id u) db db1" using insert_moves [OF w(3)] only_moves_people [of db1 d] d(2) by simp
  moreover have "directory_ok db1" using one ok d by (auto simp: invite_def saved_def)
  ultimately have "users_sound db1" using moves_sound [OF assms(1)] assms(2) u(1) by simp
  from user_commands_settles [OF this \<open>get_person (pn_id u) db1 = Some u\<close> two] moved only_moves_trans t u show ?thesis by metis
qed

lemma user_update_settles:
  assumes "users_sound db" "user_update p cur t db = Some (db', row)"
  shows "\<exists>v u name. row = user_snapshot v \<and> users_sound db' \<and> get_person (sn_id cur) db = Some u \<and> get_person (sn_id cur) db' = Some v \<and> only_moves (sn_id cur) db db'
    \<and> pn_id v = sn_id cur \<and> asserted_text (tg_fields t) ''displayName'' = Some name \<and> asserted_text (sn_fields cur) ''displayName'' = Some name
    \<and> pn_email v = pn_email u \<and> pn_display v = pn_display u \<and> declared_roles (value_of (tg_fields t) ''roles'') = Some (pn_roles v)
    \<and> (map_of (tg_fields t) ''signIn'' = Some (VText sign_in_declared) \<longrightarrow> pn_hash v \<noteq> '''')"
proof -
  obtain name u where u: "asserted_text (tg_fields t) ''displayName'' = Some name" "asserted_text (sn_fields cur) ''displayName'' = Some name"
    "get_person (sn_id cur) db = Some u" "user_commands p u t db = Some (db', row)"
    using assms(2) by (auto simp: user_update_def split: option.splits if_splits)
  have "pn_id u = sn_id cur" using got_person(1) [OF u(3)] by simp
  with user_commands_settles [OF assms(1) _ u(4)] u show ?thesis by metis
qed

subsection \<open>The writer keeps its side\<close>

lemma seed_texts_trimmed: "seed_texts r ns = Some ws \<Longrightarrow> list_all (\<lambda>(n, s). trim_space s = s) ws"
  by (induction ns arbitrary: ws) (auto split: option.splits seed_value.splits)

definition user_shape :: "seed_record \<Rightarrow> seed_target \<Rightarrow> bool" where
  "user_shape r t \<longleftrightarrow> (\<exists>d roles sign. trim_space d = d \<and> canonical_roles roles = roles \<and> tg_commands t = [] \<and> tg_create_only t = []
     \<and> tg_fields t = [(''email'', VText (canonical_email (sr_key r))), (''displayName'', VText d), (''roles'', roles_value roles)]
         @ (if sign then [(''signIn'', VText sign_in_declared)] else []))"

lemma user_target_shape:
  assumes "user_target r res at = Some t"
  shows "user_shape r t"
proof -
  obtain words roles where words: "seed_texts r [''displayName'', ''signIn''] = Some words" and roles: "declared_roles (value_of (sr_fields r) ''roles'') = Some roles"
    using assms by (auto simp: user_target_def simp del: seed_texts.simps split: option.splits)
  have "trim_space (text_at words ''displayName'') = text_at words ''displayName''"
    using seed_texts_trimmed [OF words] by (auto simp: text_at_def list_all_iff trim_space_def [of "[]"] dest: map_of_SomeD split: option.splits)
  with assms words declared_roles_canonical [OF roles] roles show ?thesis
    unfolding user_shape_def
    by (intro exI [of _ "text_at words ''displayName''"] exI [of _ roles] exI [of _ "text_at words ''signIn'' = sign_in_declared"])
      (auto simp: user_target_def simp del: seed_texts.simps)
qed

lemma user_settled:
  assumes "user_shape r t" "pn_email v = canonical_email (sr_key r)" "asserted_text (tg_fields t) ''displayName'' = Some (pn_display v)"
    "declared_roles (value_of (tg_fields t) ''roles'') = Some (pn_roles v)"
    "map_of (tg_fields t) ''signIn'' = Some (VText sign_in_declared) \<longrightarrow> pn_hash v \<noteq> ''''"
  shows "decide_seed (user_snapshot v) t = (SeedUnchanged, [])"
proof -
  obtain d roles sign where t: "trim_space d = d" "canonical_roles roles = roles" "tg_commands t = []"
    "tg_fields t = [(''email'', VText (canonical_email (sr_key r))), (''displayName'', VText d), (''roles'', roles_value roles)]
         @ (if sign then [(''signIn'', VText sign_in_declared)] else [])" using assms(1) by (auto simp: user_shape_def)
  have "pn_display v = d" "pn_roles v = roles" using assms(3,4) t(2) by (simp_all add: t(4) asserted_text_def value_of_def)
  then have "value_of (sn_fields (user_snapshot v)) n = value_of (tg_fields t) n" if "n \<in> fst ` set (tg_fields t)" for n
    using that assms(2,5) t(2) by (auto simp: t(4) user_snapshot_def value_of_def sign_in_held_def split: if_splits)
  then show ?thesis by (auto simp: decide_seed_def Let_def changed_in_def t(3) filter_empty_conv) (simp add: user_snapshot_def)
qed


lemma folded_twice [simp]: "canonical_email (canonical_email e) = canonical_email e"
  by (simp add: canonical_email_def)

lemma user_read_found:
  assumes "users_sound db" "user_read k db = Some row" "sn_present row"
  shows "\<exists>u. row = user_snapshot u \<and> get_person (pn_id u) db = Some u \<and> pn_id u \<noteq> uuid_nil"
proof -
  obtain u where u: "row = user_snapshot u" "u \<in> set (dr_people db)" "shown u"
    using assms(2,3) by (auto simp: user_read_def absent_row_def by_email_def get_person_def dest: find_SomeD split: option.splits if_splits)
  have ok: "directory_ok db" using assms(1) by (simp add: users_sound_def)
  have "get_person (pn_id u) db = Some u" unfolding get_person_def
    by (rule find_only) (use u one_row [OF ok] in auto)
  moreover have "pn_id u \<noteq> uuid_nil" using assms(1) u(2) by (simp add: users_sound_def list_all_iff)
  ultimately show ?thesis using u(1) by blast
qed

lemma snapshot_parts [simp]: "sn_id (user_snapshot u) = pn_id u" "sn_present (user_snapshot u)" "\<not> sn_present absent_row"
  by (simp_all add: user_snapshot_def absent_row_def)

lemma user_read_kept:
  assumes "only_moves i db db'" "user_read k db = Some row" "sn_present row" "sn_id row \<noteq> i"
  shows "user_read k db' = Some row"
  using assms(2-4) only_moves_read [OF assms(1)] by (auto simp: user_read_def split: option.splits if_splits)

lemma user_read_id: "key_of_id k i \<Longrightarrow> i \<noteq> uuid_nil \<Longrightarrow> get_person i db = Some u \<Longrightarrow> user_read k db = Some (user_snapshot u)"
  by (simp add: user_read_def key_of_id_def)

definition user_writers :: "seed_owners \<Rightarrow> (string \<times> directory seed_writer) list" where
  "user_writers p = [(''users'', user_writer p)]"

lemma in_user_writers [simp]: "(al, w) \<in> set (user_writers p) \<longleftrightarrow> al = ''users'' \<and> w = user_writer p"
  by (simp add: user_writers_def)

lemma user_writer_parts [simp]:
  "sw_resource (user_writer p) = user_resource" "sw_target (user_writer p) = user_target" "sw_read (user_writer p) = user_read"
  "sw_create (user_writer p) = user_create p" "sw_update (user_writer p) = user_update p" "sw_delete (user_writer p) = user_delete"
  by (simp_all add: user_writer_def)

lemma shape_texts:
  assumes "user_shape r t"
  shows "asserted_text (tg_fields t) ''email'' = Some (canonical_email (sr_key r))" "value_of (tg_fields t) ''email'' = VText (canonical_email (sr_key r))"
    "''email'' \<in> set (map fst (tg_fields t))" "asserted_text (tg_fields t) ''displayName'' = Some d \<Longrightarrow> trim_space d = d"
proof -
  obtain d' roles sign where "trim_space d' = d'" and t: "tg_fields t = [(''email'', VText (canonical_email (sr_key r))), (''displayName'', VText d'), (''roles'', roles_value roles)]
         @ (if sign then [(''signIn'', VText sign_in_declared)] else [])" using assms unfolding user_shape_def by blast
  then show "asserted_text (tg_fields t) ''displayName'' = Some d \<Longrightarrow> trim_space d = d" unfolding t by (simp add: asserted_text_def)
qed (use assms in \<open>auto simp: user_shape_def asserted_text_def value_of_def\<close>)

lemma user_created:
  assumes "users_sound db" "so_fresh p db \<noteq> uuid_nil" "user_target r res at = Some t" "user_create p t db = Some (db', row)"
  shows "users_sound db' \<and> sn_id row \<noteq> uuid_nil \<and> decide_seed row t = (SeedUnchanged, []) \<and> (key_of_id k (sn_id row) \<longrightarrow> user_read k db' = Some row)"
proof -
  obtain v email display where v: "row = user_snapshot v" "users_sound db'" "get_person (so_fresh p db) db' = Some v" "pn_id v = so_fresh p db"
    "asserted_text (tg_fields t) ''email'' = Some email" "asserted_text (tg_fields t) ''displayName'' = Some display"
    "pn_email v = canonical_email email" "pn_display v = trim_space display" "declared_roles (value_of (tg_fields t) ''roles'') = Some (pn_roles v)"
    "map_of (tg_fields t) ''signIn'' = Some (VText sign_in_declared) \<longrightarrow> pn_hash v \<noteq> ''''"
    using user_create_settles [OF assms(1,2,4)] by blast
  note shape = user_target_shape [OF assms(3)]
  have e: "pn_email v = canonical_email (sr_key r)" using shape_texts(1) [OF shape] v(5,7) by simp
  have d: "asserted_text (tg_fields t) ''displayName'' = Some (pn_display v)" using shape_texts(4) [OF shape v(6)] v(6,8) by simp
  from user_settled [OF shape e d v(9,10)] user_read_id [of k "pn_id v" db' v] v(1-4) assms(2) show ?thesis by simp
qed

lemma changed_in_names: "n \<in> set (map fst want) \<Longrightarrow> value_of current n \<noteq> value_of want n \<Longrightarrow> at @ n \<in> set (changed_in at current want)"
  by (simp add: changed_in_def)

lemma user_updated:
  assumes "users_sound db" "user_target r res at = Some t" "user_read k0 db = Some cur" "decide_seed cur t = (SeedUpdate, changed)"
    "set changed \<inter> {''fields/email''} = {}" "user_update p cur t db = Some (db', row)"
  shows "users_sound db' \<and> sn_id row \<noteq> uuid_nil \<and> decide_seed row t = (SeedUnchanged, []) \<and> (key_of_id k (sn_id row) \<longrightarrow> user_read k db' = Some row)"
proof -
  have present: "sn_present cur" using assms(4) by (auto simp: decide_seed_def split: if_splits)
  obtain c where c: "cur = user_snapshot c" "get_person (pn_id c) db = Some c" "pn_id c \<noteq> uuid_nil"
    using user_read_found [OF assms(1,3) present] by blast
  obtain v u name where v: "row = user_snapshot v" "users_sound db'" "get_person (sn_id cur) db = Some u" "get_person (sn_id cur) db' = Some v" "pn_id v = sn_id cur"
    "asserted_text (tg_fields t) ''displayName'' = Some name" "asserted_text (sn_fields cur) ''displayName'' = Some name"
    "pn_email v = pn_email u" "pn_display v = pn_display u" "declared_roles (value_of (tg_fields t) ''roles'') = Some (pn_roles v)"
    "map_of (tg_fields t) ''signIn'' = Some (VText sign_in_declared) \<longrightarrow> pn_hash v \<noteq> ''''"
    using user_update_settles [OF assms(1,6)] by blast
  have u: "u = c" using v(3) c by simp
  note shape = user_target_shape [OF assms(2)]
  have "''fields/email'' \<notin> set (changed_in ''fields/'' (sn_fields cur) (tg_fields t))"
    using assms(4,5) present by (auto simp: decide_seed_def Let_def split: if_splits)
  then have "value_of (sn_fields cur) ''email'' = value_of (tg_fields t) ''email''"
    using changed_in_names [OF shape_texts(3) [OF shape], of "sn_fields cur" "''fields/''"] by auto
  then have e: "pn_email v = canonical_email (sr_key r)" unfolding shape_texts(2) [OF shape] by (simp add: v(8) u c(1) user_snapshot_def value_of_def)
  have "name = pn_display v" using v(7,9) by (simp add: c(1) u user_snapshot_def asserted_text_def)
  then have d: "asserted_text (tg_fields t) ''displayName'' = Some (pn_display v)" using v(6) by simp
  from user_settled [OF shape e d v(10,11)] user_read_id [of k "pn_id v" db' v] v(1-5) c show ?thesis by simp
qed

text \<open>New identifiers are never the nil one, as version 4 identifiers are not.\<close>

locale user_seeding =
  fixes p :: seed_owners
  assumes fresh: "so_fresh p db \<noteq> uuid_nil"

sublocale user_seeding \<subseteq> seeded_users: lawful_writers "user_writers p" users_sound "\<lambda>_. [''fields/email'']"
proof (unfold_locales, goal_cases)
  case (1 al w key)
  then show ?case by (simp add: user_resource_def canonical_key_def)
next
  case (2 al w s k row k')
  then show ?case using user_read_found [of s k row] by (auto intro: user_read_id)
next
  case (3 al w s rec res at t s' row k)
  then show ?case using user_created [OF 3(2) fresh, of rec res at t s' row k] by simp
next
  case (4 al w s rec res at t k0 cur changed s' row k)
  then show ?case using user_updated [OF 4(2), of rec res at t k0 cur changed p s' row k] by simp
next
  case (5 al w s k row s')
  then show ?case by (simp add: user_delete_def)
next
  case (6 al w bl v s t s' row k other)
  then show ?case using user_create_settles [OF 6(3) fresh, of t s' row] user_read_kept [of "so_fresh p s" s s' k other] by auto
next
  case (7 al w bl v s k0 cur t s' row k other)
  then show ?case using user_update_settles [OF 7(3), of p cur t s' row] user_read_kept [of "sn_id cur" s s' k other] by auto
next
  case (8 al w bl v s k0 cur s' k other)
  then show ?case by (simp add: user_delete_def)
next
  case (9 al w rec res at t at')
  then show ?case by (auto simp: user_target_def same_instruction_def simp del: seed_texts.simps split: option.splits)
qed

context user_seeding
begin

lemmas second_user_run = seeded_users.second_run

end

end
