(* ===== verification/SeedProperties.thy ===== *)
theory SeedProperties
  imports SeedUsers
begin

section \<open>What holds of the seeds\<close>

text \<open>
  The properties of \<open>kit/seed\<close>: the order of the records (\<open>SeedOrder\<close>) and a second run of the people an
  application's files name (\<open>SeedTwice\<close> on the writer of \<open>SeedUsers\<close>), with their witnesses on the three people of
  \<open>apps/platformkit/seed/demo/users.yaml\<close>.
\<close>

subsection \<open>The demo files\<close>

fun node_value :: "yaml \<Rightarrow> seed_value" where
  "node_value (YScalar tag v l c) = VText v"
| "node_value (YSeq ns l c) = VList (map (\<lambda>n. case n of YScalar _ v _ _ \<Rightarrow> VText v | _ \<Rightarrow> VNull) ns)"
| "node_value _ = VNull"

fun node_pairs :: "yaml list \<Rightarrow> (string \<times> seed_value) list" where
  "node_pairs (YScalar tag k l c # v # ns) = (k, node_value v) # node_pairs ns"
| "node_pairs _ = []"

definition demo_yaml :: yaml_port where
  "demo_yaml = \<lparr>yp_value = (\<lambda>n. Some (node_value n)), yp_map = (\<lambda>n. case n of YMap ns _ _ \<Rightarrow> Some (node_pairs ns) | _ \<Rightarrow> None),
     yp_i18n = (\<lambda>_. None), yp_letter = (\<lambda>_. True)\<rparr>"

definition word :: "string \<Rightarrow> nat \<Rightarrow> yaml" where
  "word s l = YScalar ''!!str'' s l 1"

definition demo_person :: "string \<Rightarrow> string \<Rightarrow> string \<Rightarrow> nat \<Rightarrow> yaml" where
  "demo_person key name role_name l =
     YMap [word ''key'' l, word key l, word ''fields'' (l + 1),
       YMap [word ''displayName'' (l + 2), word name (l + 2), word ''roles'' (l + 3), YSeq [word role_name (l + 3)] (l + 3) 1,
         word ''signIn'' (l + 4), word ''demo'' (l + 4)] (l + 2) 1] l 1"

definition demo_body :: yaml where
  "demo_body = YMap [word ''apiVersion'' 22, word seed_version 22, word ''resource'' 23, word ''users'' 23, word ''records'' 24,
     YSeq [demo_person ''marta@example.test'' ''Marta Oliveira'' ''coordinator'' 25, demo_person ''devin@example.test'' ''Devin Ali'' ''observer'' 30,
       demo_person ''amara@example.test'' ''Amara Bock'' ''member'' 35] 25 1] 22 1"

definition demo_tree :: seed_tree where
  "demo_tree = \<lparr>st_dir = (\<lambda>d. if d = ''seed/starter'' then Some [] else if d = ''seed/demo'' then Some [(''assets'', True), (''users.yaml'', False)] else None),
     st_regular = (\<lambda>f. f = ''seed/demo/users.yaml''), st_file = (\<lambda>f. if f = ''seed/demo/users.yaml'' then Some (Decoded [demo_body] False) else None)\<rparr>"

definition demo_owners :: seed_owners where
  "demo_owners = \<lparr>so_fresh = (\<lambda>db. let i = word_of_nat (length (dr_people db) + 1) in if i = 0 then 1 else i), so_now = 30, so_enc = (\<lambda>pw. pw), so_demo = ''correct horse'',
     so_mint = (\<lambda>_. None), so_live = True, so_may = Some True\<rparr>"

text \<open>A tenant of one person, Ada, who administers it and runs the seeds.\<close>

definition ada :: person where
  "ada = \<lparr>pn_id = 1, pn_created = 10, pn_updated = 10, pn_deleted = None, pn_email = ''ada@example.org'', pn_display = ''Ada'', pn_handle = '''',
     pn_status = ''active'', pn_roles = [''admin''], pn_hash = ''$argon2id$''\<rparr>"

definition demo_tenant :: directory where
  "demo_tenant = \<lparr>dr_people = [ada], dr_roles = [\<lparr>ro_name = ''admin'', ro_grants = [''*'']\<rparr>], dr_log = []\<rparr>"

definition demo_seeds :: "directory seed_service" where
  "demo_seeds = \<lparr>sv_yaml = demo_yaml, sv_tree = demo_tree, sv_root = ''seed'', sv_writers = user_writers demo_owners,
     sv_may = seed_grants True (Some \<lparr>pr_user = 1, pr_roles = [role_admin], pr_permissions = None\<rparr>)\<rparr>"

definition demo_start :: "directory seed_db" where
  "demo_start = \<lparr>sdb_rows = demo_tenant, sdb_keys = [], sdb_demo = True\<rparr>"

interpretation demo_seeding: user_seeding demo_owners
  by unfold_locales (simp add: demo_owners_def Let_def)


definition at_line :: "nat \<Rightarrow> seed_source" where
  "at_line l = \<lparr>ss_file = ''seed/demo/users.yaml'', ss_line = l, ss_column = 1\<rparr>"

definition demo_record :: "string \<Rightarrow> string \<Rightarrow> string \<Rightarrow> nat \<Rightarrow> seed_record" where
  "demo_record key name role_name l = \<lparr>sr_key = key, sr_fields = [(''displayName'', VText name), (''roles'', VList [VText role_name]), (''signIn'', VText ''demo'')],
     sr_commands = [], sr_i18n = [], sr_asset = [], sr_source = at_line l,
     sr_values = [(''fields/displayName'', at_line (l + 2)), (''fields/roles'', at_line (l + 3)), (''fields/signIn'', at_line (l + 4))]\<rparr>"

definition demo_docs :: "seed_document list" where
  "demo_docs = [\<lparr>sd_kind = ''demo'', sd_resource = ''users'', sd_prune = False,
     sd_records = [demo_record ''marta@example.test'' ''Marta Oliveira'' ''coordinator'' 25, demo_record ''devin@example.test'' ''Devin Ali'' ''observer'' 30,
       demo_record ''amara@example.test'' ''Amara Bock'' ''member'' 35], sd_source = at_line 22\<rparr>]"

definition demo_entry :: "seed_record \<Rightarrow> seed_entry" where
  "demo_entry r = \<lparr>se_kind = ''demo'', se_resource = ''users'', se_record = r\<rparr>"

definition amara :: seed_entry where "amara = demo_entry (demo_record ''amara@example.test'' ''Amara Bock'' ''member'' 35)"
definition devin :: seed_entry where "devin = demo_entry (demo_record ''devin@example.test'' ''Devin Ali'' ''observer'' 30)"
definition marta :: seed_entry where "marta = demo_entry (demo_record ''marta@example.test'' ''Marta Oliveira'' ''coordinator'' 25)"

definition demo_made :: "person list" where
  "demo_made = map (\<lambda>(i, email, name, role_name). \<lparr>pn_id = i, pn_created = 30, pn_updated = 30, pn_deleted = None, pn_email = email, pn_display = name,
       pn_handle = '''', pn_status = ''active'', pn_roles = [role_name], pn_hash = ''$argon2id$v=19$m=65536,t=1,p=4$correct horse''\<rparr>)
     [(2, ''amara@example.test'', ''Amara Bock'', ''member''), (3, ''devin@example.test'', ''Devin Ali'', ''observer''), (4, ''marta@example.test'', ''Marta Oliveira'', ''coordinator'')]"

definition demo_after :: "nat \<Rightarrow> directory seed_db" where
  "demo_after n = \<lparr>sdb_rows = demo_tenant\<lparr>dr_people := dr_people demo_tenant @ take n demo_made,
       dr_log := dr_log demo_tenant @ concat (map (\<lambda>u. [EvInvited (pn_id u) (pn_email u) ''invited'', EvRolesSet (pn_id u) [] (pn_roles u), EvPasswordSet (pn_id u)]) (take n demo_made))\<rparr>,
     sdb_keys = map (\<lambda>u. \<lparr>sm_module = ''user'', sm_entity = ''user'', sm_key = pn_email u, sm_kind = ''demo'', sm_record = Some (pn_id u)\<rparr>) (take n demo_made), sdb_demo = True\<rparr>"

definition demo_item :: "seed_entry \<Rightarrow> uuid \<Rightarrow> seed_item" where
  "demo_item e i = \<lparr>it_action = SeedCreate, it_resource = ''users'', it_key = sr_key (se_record e), it_source = sr_source (se_record e), it_changed = [], it_record = i\<rparr>"

lemma demo_loaded: "load_seeds demo_yaml demo_tree ''seed'' [''starter'', ''demo''] = Inr demo_docs"
  by code_simp

lemma demo_checked: "check_documents (user_writers demo_owners) [] [] demo_docs = Inr []"
  by code_simp

lemma demo_order: "order_seeds demo_docs [] ask = Inr ([amara, devin, marta], [])"
  by code_simp

definition demo_resolved :: "nat \<Rightarrow> (string \<times> uuid) list" where
  "demo_resolved n = concat (rev (map (\<lambda>u. [(''users/'' @ pn_email u, pn_id u), (''users/'' @ pn_email u, pn_id u)]) (take n demo_made)))"

lemma demo_step1:
  fixes P :: "_ \<Rightarrow> bool"
  shows "P (reconcile demo_seeds False True 30 amara (demo_resolved 0) demo_start) = P (Inr (demo_after 1, demo_resolved 1, demo_item amara 2))"
  by (code_simp, simp)

lemma demo_step2:
  fixes P :: "_ \<Rightarrow> bool"
  shows "P (reconcile demo_seeds False True 30 devin (demo_resolved 1) (demo_after 1)) = P (Inr (demo_after 2, demo_resolved 2, demo_item devin 3))"
  by (code_simp, simp)

lemma demo_step3:
  fixes P :: "_ \<Rightarrow> bool"
  shows "P (reconcile demo_seeds False True 30 marta (demo_resolved 2) (demo_after 2)) = P (Inr (demo_after 3, demo_resolved 3, demo_item marta 4))"
  by (code_simp, simp)

lemma same_by_all:
  assumes "\<And>P :: 'a \<Rightarrow> bool. P x = P y"
  shows "x = y"
  using assms [of "\<lambda>z. x = z"] by simp

lemma demo_reconciled:
  "reconcile demo_seeds False True 30 amara (demo_resolved 0) demo_start = Inr (demo_after 1, demo_resolved 1, demo_item amara 2)"
  "reconcile demo_seeds False True 30 devin (demo_resolved 1) (demo_after 1) = Inr (demo_after 2, demo_resolved 2, demo_item devin 3)"
  "reconcile demo_seeds False True 30 marta (demo_resolved 2) (demo_after 2) = Inr (demo_after 3, demo_resolved 3, demo_item marta 4)"
  by (rule same_by_all, rule demo_step1, rule same_by_all, rule demo_step2, rule same_by_all, rule demo_step3)

definition demo_plan :: seed_plan where
  "demo_plan = \<lparr>pl_kinds = [''starter'', ''demo''], pl_at = 30, pl_items = [demo_item amara 2, demo_item devin 3, demo_item marta 4], pl_warnings = i18n_warnings demo_docs\<rparr>"

lemma demo_applied: "seed_apply demo_seeds True 30 demo_start = (demo_after 3, Inr demo_plan)"
proof -
  have p: "pruning_aliases demo_docs = []" by (simp add: pruning_aliases_def demo_docs_def)
  have sv: "sv_yaml demo_seeds = demo_yaml" "sv_tree demo_seeds = demo_tree" "sv_root demo_seeds = ''seed''" "sv_writers demo_seeds = user_writers demo_owners"
    by (simp_all add: demo_seeds_def)
  have d: "sdb_demo demo_start" by (simp add: demo_start_def)
  have demo_none: "demo_resolved 0 = []" by (simp add: demo_resolved_def)
  show ?thesis
    by (simp only: seed_apply_def seed_run_def select_kinds_def run_documents_def sv d simp_thms if_True if_False demo_loaded demo_checked demo_order sum.case prod.case
        reconcile_all.simps resolved_outside_def fold.simps id_apply demo_none [symmetric] demo_reconciled prune_seeds_def p demo_plan_def append_Nil2)
qed


subsection \<open>The order of the records\<close>

text \<open>C39: The order answered holds every declared record once and each after the records its references
name; a reference to none of them names a row the tenant holds.  When the refusal is a cycle, some declared
records do refer to one another in a circle.\<close>

theorem seeds_follow_their_references:
  "case order_seeds docs references ask of
     Inr (out, found) \<Rightarrow> mset out = mset (declared_entries docs)
       \<and> (\<forall>pre e post r v. out = pre @ e # post \<longrightarrow> r \<in> set references \<longrightarrow> reference_value e r = Some v \<longrightarrow> reference_kept docs ask pre r v)
   | Inl err \<Rightarrow> cycle_error err \<longrightarrow> (\<exists>c. cycle_of_references docs references c)"
proof (cases "order_seeds docs references ask")
  case (Inl err)
  with order_reports_cycles [OF Inl] show ?thesis by simp
next
  case (Inr p)
  obtain out found where p: "p = (out, found)" by (cases p)
  note o = order_places_targets_first [OF Inr [unfolded p]]
  show ?thesis unfolding Inr p sum.case prod.case using o by blast
qed

definition task_record :: "string \<Rightarrow> string \<Rightarrow> seed_record" where
  "task_record key assignee = \<lparr>sr_key = key, sr_fields = [(''assignee'', VText assignee)], sr_commands = [], sr_i18n = [], sr_asset = '''',
     sr_source = at_line 1, sr_values = []\<rparr>"

definition task_docs :: "seed_document list" where
  "task_docs = \<lparr>sd_kind = ''demo'', sd_resource = ''tasks'', sd_prune = False, sd_records = [task_record ''Tour'' ''users/devin@example.test''], sd_source = at_line 1\<rparr> # demo_docs"

definition assignee_reference :: seed_reference where
  "assignee_reference = \<lparr>rf_resource = ''tasks'', rf_path = ''fields/assignee'', rf_target = ''users''\<rparr>"

definition tour :: seed_entry where
  "tour = \<lparr>se_kind = ''demo'', se_resource = ''tasks'', se_record = task_record ''Tour'' ''users/devin@example.test''\<rparr>"

lemma task_order: "order_seeds task_docs [assignee_reference] None = Inr ([amara, devin, tour, marta], [])"
  by code_simp

theorem seeds_follow_their_references_witness:
  "reference_kept task_docs None [amara, devin] assignee_reference (VText ''users/devin@example.test'')"
proof -
  have "reference_value tour assignee_reference = Some (VText ''users/devin@example.test'')" by code_simp
  with seeds_follow_their_references [of task_docs "[assignee_reference]" None] show ?thesis
    by (fastforce simp: task_order)
qed

subsection \<open>The same people again\<close>

lemma new_user_writers:
  assumes "new_writers [] [] [user_writer p] = Inr ws"
  shows "ws = user_writers p"
  using assms by (simp add: user_writers_def user_resource_def split: if_splits)

lemma user_writer_table: "writer_table (user_writers p)"
  by (simp add: writer_table_def user_writers_def user_resource_def) code_simp

lemma user_files_no_references:
  "check_documents (user_writers p) seen listed docs = Inr refs \<Longrightarrow> refs = []"
proof (induction docs arbitrary: seen listed refs)
  case (Cons d docs)
  then show ?case by (auto simp: Let_def user_writers_def user_resource_def split: if_splits sum.splits option.splits)
qed simp

lemma graph_entries_none: "graph_entries ents ask [] rest g = Inr g"
  by (induction rest) auto

lemma closed_without_references: "order_seeds docs [] ask = Inr r \<Longrightarrow> closed_files docs []"
  by (auto simp: closed_files_def order_seeds_def Let_def dependency_graph_def graph_entries_none split: sum.splits prod.splits if_splits)

text \<open>C40: Seeding the same people again, later and from the same files, writes nothing: if no two of their
records met the same row and no record asked for an address that an invited person has since changed, and
the one who ran it still may, every line of the second plan says unchanged and the tenant is as it was.\<close>

theorem same_people_again:
  assumes fresh: "\<forall>db. so_fresh p db \<noteq> uuid_nil" and writers: "new_writers [] [] [user_writer p] = Inr (sv_writers sv)"
    and sound: "users_sound (sdb_rows db)" and keys: "key_table (sdb_keys db)"
    and first: "seed_apply sv demo at db = (db', Inr plan)"
    and apart: "distinct (map item_row (filter (\<lambda>item. it_action item \<noteq> SeedPrune) (pl_items plan)))"
    and unmoved: "\<forall>item \<in> set (pl_items plan). ''fields/email'' \<notin> set (it_changed item)"
    and may: "granted sv db'"
  shows "\<exists>plan'. seed_apply sv demo at' db' = (db', Inr plan') \<and> (\<forall>item \<in> set (pl_items plan'). it_action item = SeedUnchanged)
    \<and> map it_key (pl_items plan') = map it_key (filter (\<lambda>item. it_action item \<noteq> SeedPrune) (pl_items plan))"
proof -
  note ws = new_user_writers [OF writers]
  have seeding: "user_seeding p" using fresh by unfold_locales simp
  obtain kinds docs where kinds: "select_kinds demo db = Inr kinds" and docs: "load_seeds (sv_yaml sv) (sv_tree sv) (sv_root sv) kinds = Inr docs"
    and run: "run_documents sv False True at kinds docs db = Inr (db', plan)"
    using first by (auto simp: seed_apply_def seed_run_def split: sum.splits)
  obtain refs where checked: "check_documents (user_writers p) [] [] docs = Inr refs" using run by (auto simp: run_documents_def ws split: sum.splits)
  have refs: "refs = []" by (rule user_files_no_references [OF checked])
  have closed: "closed_files docs refs" unfolding refs using run checked
    by (auto simp: run_documents_def ws refs split: sum.splits prod.splits dest: closed_without_references)
  have fixed: "writable (\<lambda>_. [''fields/email'']) (pl_items plan)" using unmoved by (simp add: writable_def list_all_iff)
  from user_seeding.second_user_run [OF seeding ws sound keys user_writer_table checked closed run apart fixed may]
  obtain plan' where plan': "run_documents sv False True at' kinds docs db' = Inr (db', plan')"
    "list_all (\<lambda>item. it_action item = SeedUnchanged) (pl_items plan')"
    "map it_key (pl_items plan') = map it_key (filter (\<lambda>item. it_action item \<noteq> SeedPrune) (pl_items plan))" by blast
  moreover have "select_kinds demo db' = Inr kinds" unfolding select_kinds_def run_documents_demo [OF run] using kinds unfolding select_kinds_def .
  ultimately show ?thesis using docs by (auto simp: seed_apply_def seed_run_def list_all_iff)
qed

lemma demo_sound: "users_sound demo_tenant"
proof -
  have "folded ''ada@example.org'' = ''ada@example.org''" "trim_space ''Ada'' = ''Ada''" "valid_role_name ''admin'' = Inr ''admin''"
    "at_index ''ada@example.org'' = 3" "\<not> list_ex email_blank ''ada@example.org''" "role_pattern ''admin''" "prefix ''$argon2id$'' ''$argon2id$''" by code_simp+
  then have "person_ok ada \<and> role_ok \<lparr>ro_name = ''admin'', ro_grants = [''*'']\<rparr>"
    by (simp add: person_ok_def ada_def email_ok_def handle_ok_def hash_ok_def role_ok_def statuses_def status_defs)
  then show ?thesis by (simp add: users_sound_def directory_ok_def demo_tenant_def apart_def) (simp add: ada_def)
qed

lemma demo_granted: "granted demo_seeds (demo_after 3)"
proof -
  have "get_person 1 (sdb_rows (demo_after 3)) = Some ada"
    by (simp add: get_person_def demo_after_def demo_tenant_def ada_def shown_def)
  moreover have "role_permissions True (sdb_rows (demo_after 3)) [''admin''] = Inr [''*'']" by code_simp
  ultimately show ?thesis
    by (simp add: granted_def demo_seeds_def seed_grants_def ada_def status_active_def role_admin_def grant_match_def wildcard_def)
qed

lemma demo_named: "valid_seed_name ''users''" "valid_seed_name ''user''"
  by code_simp+

theorem same_people_again_witness:
  "\<exists>plan'. seed_apply demo_seeds True 9000 (demo_after 3) = (demo_after 3, Inr plan')
     \<and> map it_key (pl_items plan') = [''amara@example.test'', ''devin@example.test'', ''marta@example.test'']"
proof -
  have writers: "new_writers [] [] [user_writer demo_owners] = Inr (sv_writers demo_seeds)" using demo_named by (simp add: demo_seeds_def user_writers_def writer_refused_def Let_def user_resource_def)
  have items: "pl_items demo_plan = [demo_item amara 2, demo_item devin 3, demo_item marta 4]" by (simp add: demo_plan_def)
  have start: "users_sound (sdb_rows demo_start)" "key_table (sdb_keys demo_start)" by (simp_all add: demo_start_def demo_sound key_table_def)
  from same_people_again [OF _ writers start demo_applied _ _ demo_granted, of 9000] demo_seeding.fresh
  show ?thesis by (auto simp: items demo_item_def item_row_def amara_def devin_def marta_def demo_entry_def demo_record_def)
qed

end
