(* ===== verification/Calendar.thy ===== *)
theory Calendar
  imports Prelude
begin

section \<open>Dates\<close>

text \<open>
  What \<open>modules/billing/contracts/billing.go\<close> uses of Go's \<open>time\<close>: the date of an instant,
  \<open>time.Date\<close> with its normalisation of months and days, and \<open>AddDate\<close>, in UTC; then
  \<open>Advance\<close> and \<open>AnchorOf\<close>, the end of the next billing period.  An instant is nanoseconds since the
  first of January of year 1, which is day 0; months are counted from there too, which makes the
  arithmetic of a date that of one number.
\<close>

definition day_ns :: duration where "day_ns = 24 * hour"

definition leap :: "int \<Rightarrow> bool" where
  "leap y \<longleftrightarrow> y mod 4 = 0 \<and> (y mod 100 \<noteq> 0 \<or> y mod 400 = 0)"

text \<open>The day a year starts on, and the days of it before a month (from 0) of a common year.\<close>

definition year_start :: "int \<Rightarrow> int" where
  "year_start y = 365 * (y - 1) + (y - 1) div 4 - (y - 1) div 100 + (y - 1) div 400"

definition days_before :: "bool \<Rightarrow> int \<Rightarrow> int" where
  "days_before l m =
     [0, 31, 59, 90, 120, 151, 181, 212, 243, 273, 304, 334, 365] ! nat m + (if l \<and> 2 \<le> m then 1 else 0)"

text \<open>Months are counted through: the month \<open>m\<close> (from 1) of the year \<open>y\<close> is \<open>12 * y + m - 1\<close>.\<close>

definition month_start :: "int \<Rightarrow> int" where
  "month_start k = year_start (k div 12) + days_before (leap (k div 12)) (k mod 12)"

definition month_length :: "int \<Rightarrow> int" where
  "month_length k = month_start (k + 1) - month_start k"

definition year_of :: "int \<Rightarrow> int" where
  "year_of n = (let y = 400 * n div 146097 + 1 in if year_start (y + 1) \<le> n then y + 1 else y)"

definition month_in :: "bool \<Rightarrow> int \<Rightarrow> int" where
  "month_in l r = int (length (takeWhile (\<lambda>m. days_before l m \<le> r) [1, 2, 3, 4, 5, 6, 7, 8, 9, 10, 11]))"

definition month_of :: "int \<Rightarrow> int" where
  "month_of n = (let y = year_of n in 12 * y + month_in (leap y) (n - year_start y))"

definition day_of_month :: "int \<Rightarrow> int" where
  "day_of_month n = n - month_start (month_of n) + 1"

subsection \<open>What the code calls\<close>

definition t_month :: "time \<Rightarrow> int" where "t_month t = month_of (t div day_ns)"
definition t_day :: "time \<Rightarrow> int" where "t_day t = day_of_month (t div day_ns)"
definition t_clock :: "time \<Rightarrow> duration" where "t_clock t = t mod day_ns"

definition time_date :: "int \<Rightarrow> int \<Rightarrow> duration \<Rightarrow> time" where
  "time_date k d c = (month_start k + (d - 1)) * day_ns + c"

definition add_date :: "int \<Rightarrow> int \<Rightarrow> int \<Rightarrow> time \<Rightarrow> time" where
  "add_date years months days t = time_date (t_month t + 12 * years + months) (t_day t + days) (t_clock t)"

definition interval_month :: string where "interval_month = ''month''"
definition interval_year :: string where "interval_year = ''year''"

definition advance_date :: "time \<Rightarrow> string \<Rightarrow> int \<Rightarrow> time" where
  "advance_date from interval anchor =
     (let (years, months) = (if interval = interval_year then (1, 0) else (0, 1));
          anchor = (if anchor \<le> 0 then t_day from else anchor);
          first = add_date years months 0 (time_date (t_month from) 1 (t_clock from))
      in add_date 0 0 (min anchor (t_day (add_date 0 1 (-1) first)) - 1) first)"

definition anchor_of :: "time \<Rightarrow> int" where
  "anchor_of t = t_day t"

subsection \<open>Years and months\<close>

lemma div_near: "numeral k * (x div numeral k) \<le> x \<and> x < numeral k * (x div numeral k) + numeral k" for x :: int
  using pos_mod_bound [OF zero_less_numeral, of x k] pos_mod_sign [OF zero_less_numeral, of x k] mult_div_mod_eq [of "numeral k" x]
  by linarith

lemma div_pred: "0 < k \<Longrightarrow> x div k = (x - 1) div k + (if x mod k = 0 then 1 else 0)" for k x :: int
proof -
  assume k: "0 < k"
  have m: "0 \<le> x mod k" "x mod k < k" and x: "x = k * (x div k) + x mod k" using k by simp_all
  show ?thesis
  proof (cases "x mod k = 0")
    case True
    then have "x - 1 = k * (x div k - 1) + (k - 1)" using x by (simp add: algebra_simps)
    with True k show ?thesis by (simp add: int_div_pos_eq [of "x - 1" k "x div k - 1" "k - 1"])
  next
    case False
    then have "x - 1 = k * (x div k) + (x mod k - 1)" using x by simp
    with False m show ?thesis by (simp add: int_div_pos_eq [of "x - 1" k "x div k" "x mod k - 1"])
  qed
qed

lemma year_step:
  "a' = a + p \<Longrightarrow> b' = b + q \<Longrightarrow> c' = c + r \<Longrightarrow> l = p - q + r \<Longrightarrow> 365 * y + a' - b' + c' = 365 * (y - 1) + a - b + c + 365 + l"
  for a b c y l :: int
  by simp

lemma year_start_step: "year_start (y + 1) = year_start y + 365 + (if leap y then 1 else 0)"
proof -
  have "(4::int) dvd 100" "(100::int) dvd 400" by simp_all
  then have "y mod 100 = 0 \<Longrightarrow> y mod 4 = 0" "y mod 400 = 0 \<Longrightarrow> y mod 100 = 0"
    by (auto simp: dvd_eq_mod_eq_0 [symmetric] intro: dvd_trans)
  then have l: "(if leap y then 1 else (0::int)) =
      (if y mod 4 = 0 then 1 else 0) - (if y mod 100 = 0 then 1 else 0) + (if y mod 400 = 0 then 1 else 0)"
    by (cases "y mod 4 = 0"; cases "y mod 100 = 0"; cases "y mod 400 = 0") (simp_all add: leap_def)
  show ?thesis unfolding year_start_def add_diff_cancel_right'
    by (rule year_step [OF div_pred div_pred div_pred l]) simp_all
qed

lemma year_below:
  "y < 4 * a + 4 \<Longrightarrow> 100 * b \<le> y \<Longrightarrow> y < 400 * c + 400 \<Longrightarrow> 146097 * y - 699 \<le> 400 * (365 * y + a - b + c)" for a b c y :: int
  by simp

lemma year_above:
  "4 * a \<le> y \<Longrightarrow> y < 100 * b + 100 \<Longrightarrow> 400 * c \<le> y \<Longrightarrow> 400 * (365 * y + a - b + c) \<le> 146097 * y + 396" for a b c y :: int
  by simp

lemma year_of_bounds: "year_start (year_of n) \<le> n \<and> n < year_start (year_of n + 1)"
proof -
  define x where "x = 400 * n div 146097"
  have x: "146097 * x \<le> 400 * n" "400 * n < 146097 * x + 146097" unfolding x_def
    using div_near by blast+
  define y where "y = x + 1"
  have d: "4 * (x div 4) \<le> x" "x < 100 * (x div 100) + 100" "400 * (x div 400) \<le> x" using div_near by blast+
  have lo: "year_start y \<le> n" using year_above [OF d] x unfolding year_start_def y_def add_diff_cancel_right' by simp
  have e: "y < 4 * (y div 4) + 4" "100 * (y div 100) \<le> y" "y < 400 * (y div 400) + 400" using div_near by blast+
  have "400 * year_start (y + 1) \<ge> 146097 * y - 699"
    unfolding year_start_def add_diff_cancel_right' by (rule year_below [OF e])
  then have "n < year_start (y + 1) + 2" using x unfolding y_def by simp
  moreover have "year_start (y + 1 + 1) \<ge> year_start (y + 1) + 365" using year_start_step [of "y + 1"] by simp
  ultimately have "n < year_start (y + 1 + 1)" by simp
  with lo show ?thesis unfolding year_of_def Let_def x_def [symmetric] y_def [symmetric] by auto
qed

lemma year_start_mono: "a \<le> b \<Longrightarrow> year_start a + 365 * (b - a) \<le> year_start b"
proof (induction "nat (b - a)" arbitrary: b)
  case 0
  then show ?case by simp
next
  case (Suc k)
  then have "k = nat (b - 1 - a)" "a \<le> b - 1" by simp_all
  with Suc.hyps(1) [of "b - 1"] have "year_start a + 365 * (b - 1 - a) \<le> year_start (b - 1)" by simp
  moreover have "year_start (b - 1) + 365 \<le> year_start b" using year_start_step [of "b - 1"] by simp
  ultimately show ?case by simp
qed

lemma year_of_unique:
  assumes "year_start y \<le> n" and "n < year_start (y + 1)"
  shows "year_of n = y"
proof -
  note b = year_of_bounds [of n]
  have "\<not> y + 1 \<le> year_of n" using year_start_mono [of "y + 1" "year_of n"] b assms by fastforce
  moreover have "\<not> year_of n + 1 \<le> y" using year_start_mono [of "year_of n + 1" y] b assms by fastforce
  ultimately show ?thesis by simp
qed

lemma month_cases:
  fixes m :: int
  assumes "0 \<le> m" and "m < 12"
  shows "m = 0 \<or> m = 1 \<or> m = 2 \<or> m = 3 \<or> m = 4 \<or> m = 5 \<or> m = 6 \<or> m = 7 \<or> m = 8 \<or> m = 9 \<or> m = 10 \<or> m = 11"
  using assms by presburger

lemma days_before_eqs [simp]:
  "days_before l 0 = 0" "days_before l 1 = 31" "days_before l 2 = 59 + (if l then 1 else 0)"
  "days_before l 3 = 90 + (if l then 1 else 0)" "days_before l 4 = 120 + (if l then 1 else 0)"
  "days_before l 5 = 151 + (if l then 1 else 0)" "days_before l 6 = 181 + (if l then 1 else 0)"
  "days_before l 7 = 212 + (if l then 1 else 0)" "days_before l 8 = 243 + (if l then 1 else 0)"
  "days_before l 9 = 273 + (if l then 1 else 0)" "days_before l 10 = 304 + (if l then 1 else 0)"
  "days_before l 11 = 334 + (if l then 1 else 0)" "days_before l 12 = 365 + (if l then 1 else 0)"
  by (simp_all add: days_before_def)

lemma month_split: "month_start (12 * y + m) = year_start y + days_before (leap y) m" if "0 \<le> m" "m < 12"
proof -
  have "(12 * y + m) div 12 = y" "(12 * y + m) mod 12 = m" using that by presburger+
  then show ?thesis by (simp add: month_start_def)
qed

lemma next_month_split: "month_start (12 * y + m + 1) = year_start y + days_before (leap y) (m + 1)" if "0 \<le> m" "m < 12"
proof (cases "m = 11")
  case True
  then have e: "12 * y + m + 1 = 12 * (y + 1) + 0" by simp
  have "month_start (12 * y + m + 1) = year_start (y + 1)" unfolding e by (subst month_split) simp_all
  then show ?thesis unfolding True using year_start_step [of y] by simp
next
  case False
  then show ?thesis using month_split [of "m + 1" y] that by (simp add: add.assoc)
qed

lemma month_in_bounds:
  assumes "0 \<le> r" and "r < days_before l 12"
  shows "0 \<le> month_in l r \<and> month_in l r < 12 \<and> days_before l (month_in l r) \<le> r \<and> r < days_before l (month_in l r + 1)"
  using assms by (cases l) (auto simp: month_in_def)

lemma month_of_bounds: "month_start (month_of n) \<le> n \<and> n < month_start (month_of n + 1)"
proof -
  define y where "y = year_of n"
  have y: "year_start y \<le> n" "n < year_start y + days_before (leap y) 12"
    using year_of_bounds [of n] year_start_step [of y] unfolding y_def by simp_all
  define m where "m = month_in (leap y) (n - year_start y)"
  have m: "0 \<le> m" "m < 12" "days_before (leap y) m \<le> n - year_start y" "n - year_start y < days_before (leap y) (m + 1)"
    using month_in_bounds [of "n - year_start y" "leap y"] y unfolding m_def by linarith+
  have "month_of n = 12 * y + m" by (simp add: month_of_def y_def m_def Let_def)
  then show ?thesis using m(3,4) by (simp only: month_split [OF m(1,2)] next_month_split [OF m(1,2)]) linarith
qed

lemma month_length_bounds: "28 \<le> month_length k \<and> month_length k \<le> 31"
proof -
  define y m where "y = k div 12" and "m = k mod 12"
  have k: "k = 12 * y + m" and m: "0 \<le> m" "m < 12" unfolding y_def m_def by simp_all
  have "month_length k = days_before (leap y) (m + 1) - days_before (leap y) m"
    unfolding month_length_def k by (simp only: month_split [OF m] next_month_split [OF m])
  then show ?thesis using month_cases [OF m] by auto
qed

lemma month_start_mono: "a \<le> b \<Longrightarrow> month_start a + 28 * (b - a) \<le> month_start b"
proof (induction "nat (b - a)" arbitrary: b)
  case 0
  then show ?case by simp
next
  case (Suc k)
  then have "k = nat (b - 1 - a)" "a \<le> b - 1" by simp_all
  with Suc.hyps(1) [of "b - 1"] have "month_start a + 28 * (b - 1 - a) \<le> month_start (b - 1)" by simp
  moreover have "month_start (b - 1) + 28 \<le> month_start b"
    using month_length_bounds [of "b - 1"] by (simp add: month_length_def)
  ultimately show ?case by simp
qed

lemma month_of_unique:
  assumes "month_start k \<le> n" and "n < month_start (k + 1)"
  shows "month_of n = k"
proof -
  note b = month_of_bounds [of n]
  have "\<not> k + 1 \<le> month_of n" using month_start_mono [of "k + 1" "month_of n"] b assms by fastforce
  moreover have "\<not> month_of n + 1 \<le> k" using month_start_mono [of "month_of n + 1" k] b assms by fastforce
  ultimately show ?thesis by simp
qed

subsection \<open>The parts of an instant\<close>

lemma day_ns_pos [simp]: "0 < day_ns" "day_ns \<noteq> 0"
  by (simp_all add: day_ns_def duration_defs)

lemma t_clock_bounds [simp]: "0 \<le> t_clock t" "t_clock t < day_ns"
  by (simp_all add: t_clock_def)

lemma t_day_bounds: "1 \<le> t_day t \<and> t_day t \<le> month_length (t_month t)"
  using month_of_bounds [of "t div day_ns"]
  by (simp add: t_day_def day_of_month_def t_month_def month_length_def)

text \<open>A date in range is the date of its instant, and every instant is the instant of its date.\<close>

lemma time_date_parts:
  assumes "1 \<le> d" and "d \<le> month_length k" and "0 \<le> c" and "c < day_ns"
  shows "t_month (time_date k d c) = k" "t_day (time_date k d c) = d" "t_clock (time_date k d c) = c"
proof -
  have div: "time_date k d c div day_ns = month_start k + (d - 1)"
    using assms(3,4) unfolding time_date_def by (simp add: div_pos_pos_trivial)
  show m: "t_month (time_date k d c) = k"
    unfolding t_month_def div using assms(1,2) by (intro month_of_unique) (simp_all add: month_length_def)
  show "t_day (time_date k d c) = d"
    using m unfolding t_day_def day_of_month_def t_month_def div by simp
  show "t_clock (time_date k d c) = c"
    using assms(3,4) unfolding t_clock_def time_date_def by simp
qed

lemma time_of_parts: "time_date (t_month t) (t_day t) (t_clock t) = t"
  by (simp add: time_date_def t_day_def day_of_month_def t_month_def t_clock_def)

lemma time_date_less:
  assumes "a < b" and "d \<le> month_length a" and "1 \<le> e" and "c < day_ns" and "0 \<le> f"
  shows "time_date a d c < time_date b e f"
proof -
  have "month_start (a + 1) \<le> month_start b" using month_start_mono [of "a + 1" b] assms(1) by simp
  then have "month_start a + (d - 1) + 1 \<le> month_start b + (e - 1)" using assms(2,3) by (simp add: month_length_def)
  then have "(month_start a + (d - 1) + 1) * day_ns \<le> (month_start b + (e - 1)) * day_ns"
    by (intro mult_right_mono) (simp_all add: order_less_imp_le)
  then show ?thesis using assms(4,5) unfolding time_date_def by (simp add: algebra_simps)
qed

lemma t_month_mono: "s \<le> t \<Longrightarrow> t_month s \<le> t_month t"
  using time_date_less [of "t_month t" "t_month s" "t_day t" "t_day s" "t_clock t" "t_clock s"]
    t_day_bounds [of s] t_day_bounds [of t] by (simp add: time_of_parts) force

subsection \<open>The end of the next period\<close>

definition interval_months :: "string \<Rightarrow> int" where
  "interval_months i = (if i = interval_year then 12 else 1)"

lemma time_date_zero: "time_date (k + 1) 0 c = time_date k (month_length k) c"
  by (simp add: time_date_def month_length_def)

lemma advance_date_eq:
  "advance_date t i a =
     time_date (t_month t + interval_months i)
       (min (if a \<le> 0 then t_day t else a) (month_length (t_month t + interval_months i))) (t_clock t)"
proof -
  define k where "k = t_month t + interval_months i"
  have one: "t_month (time_date j 1 (t_clock t)) = j" "t_day (time_date j 1 (t_clock t)) = 1"
      "t_clock (time_date j 1 (t_clock t)) = t_clock t" for j
    using month_length_bounds [of j] by (simp_all add: time_date_parts)
  have first: "add_date 1 0 0 (time_date (t_month t) 1 (t_clock t)) = time_date k 1 (t_clock t)" if "i = interval_year"
    using that by (simp add: add_date_def one k_def interval_months_def)
  have first': "add_date 0 1 0 (time_date (t_month t) 1 (t_clock t)) = time_date k 1 (t_clock t)" if "i \<noteq> interval_year"
    using that by (simp add: add_date_def one k_def interval_months_def)
  have "add_date 0 1 (-1) (time_date k 1 (t_clock t)) = time_date k (month_length k) (t_clock t)"
    by (simp add: add_date_def one time_date_zero)
  then have last: "t_day (add_date 0 1 (-1) (time_date k 1 (t_clock t))) = month_length k"
    using month_length_bounds [of k] by (simp add: time_date_parts)
  have "add_date 0 0 (d - 1) (time_date k 1 (t_clock t)) = time_date k d (t_clock t)" for d
    by (simp add: add_date_def one)
  then show ?thesis
    unfolding advance_date_def by (simp add: first first' last k_def [symmetric] Let_def)
qed

lemma advance_date_parts:
  "t_month (advance_date t i a) = t_month t + interval_months i"
  "t_day (advance_date t i a) = min (if a \<le> 0 then t_day t else a) (month_length (t_month t + interval_months i))"
  "t_clock (advance_date t i a) = t_clock t"
  using month_length_bounds [of "t_month t + interval_months i"] t_day_bounds [of t]
  by (simp_all add: advance_date_eq time_date_parts)

lemma interval_months_pos: "1 \<le> interval_months i"
  by (simp add: interval_months_def)

lemma advance_date_later: "t < advance_date t i a"
  using time_date_less [of "t_month t" "t_month t + interval_months i" "t_day t"
      "min (if a \<le> 0 then t_day t else a) (month_length (t_month t + interval_months i))" "t_clock t" "t_clock t"]
    interval_months_pos [of i] t_day_bounds [of t] month_length_bounds [of "t_month t + interval_months i"]
  by (simp add: advance_date_eq time_of_parts)

text \<open>The reference: the period a number of intervals after the start, on the day of the start.\<close>

definition anniversary :: "time \<Rightarrow> string \<Rightarrow> nat \<Rightarrow> time" where
  "anniversary t i n =
     (let k = t_month t + int n * interval_months i in time_date k (min (t_day t) (month_length k)) (t_clock t))"

lemma advance_anniversary: "advance_date (anniversary t i n) i (anchor_of t) = anniversary t i (Suc n)"
proof -
  define k where "k = t_month t + int n * interval_months i"
  have "t_month (anniversary t i n) = k" "t_clock (anniversary t i n) = t_clock t"
    using month_length_bounds [of k] t_day_bounds [of t]
    unfolding anniversary_def Let_def k_def [symmetric] by (simp_all add: time_date_parts)
  moreover have "0 < t_day t" using t_day_bounds [of t] by simp
  ultimately show ?thesis
    by (simp add: advance_date_eq anchor_of_def anniversary_def Let_def k_def algebra_simps)
qed

lemma anniversary_0: "anniversary t i 0 = t"
  using t_day_bounds [of t] by (simp add: anniversary_def Let_def min_absorb1 time_of_parts)

lemma advance_date_iterate: "((\<lambda>e. advance_date e i (anchor_of t)) ^^ n) t = anniversary t i n"
  by (induction n) (simp_all add: anniversary_0 advance_anniversary)

text \<open>A step back of one interval is earlier, also when the day of the month overflows.\<close>

lemma add_date_back:
  assumes "k = t_month t + 12 * y + m" and "k < t_month t"
  shows "add_date y m 0 t < t"
proof -
  have "month_start k \<le> month_start (t_month t) - 28" using month_start_mono [of k "t_month t"] assms(2) by simp
  then have "(month_start k + (t_day t - 1)) * day_ns < (month_start (t_month t) + (t_day t - 1)) * day_ns"
    by (intro mult_strict_right_mono) simp_all
  then have "time_date k (t_day t) (t_clock t) < time_date (t_month t) (t_day t) (t_clock t)"
    by (simp add: time_date_def)
  then show ?thesis using assms(1) by (simp add: add_date_def time_of_parts)
qed

end
