(* ===== verification/Billing.thy ===== *)
theory Billing
  imports People Calendar Decimals
begin

section \<open>Plans and subscriptions\<close>

text \<open>
  \<open>modules/billing/contracts/billing.go\<close> and \<open>events.go\<close>: the two entities with their rules, the
  charge, the receipt and the events; then the tables (\<open>migrations/000016\<close>, \<open>000022\<close>) with the
  statements of \<open>kit/crud\<close> over them.  The catalogue is one list every tenant reads; a subscription row
  is seen by its tenant's transactions.  Which codes are ISO 4217 currencies is the table of a
  third-party package, the argument \<open>money\<close>.  Text is bytes, letters are folded as ASCII; prices are
  \<open>int64\<close> within bounds far from its ends.
\<close>

subsection \<open>The closed sets and bounds\<close>

definition status_trial :: string where "status_trial = ''trial''"
definition status_paying :: string where "status_paying = ''active''"
definition status_past_due :: string where "status_past_due = ''past_due''"
definition status_cancelled :: string where "status_cancelled = ''cancelled''"

lemmas bill_status_defs = status_trial_def status_paying_def status_past_due_def status_cancelled_def

definition bill_statuses :: "string list" where
  "bill_statuses = [status_trial, status_paying, status_past_due, status_cancelled]"

definition bill_intervals :: "string list" where
  "bill_intervals = [interval_month, interval_year]"

definition max_price_cents :: int where "max_price_cents = 100000000"
definition max_plan_name :: nat where "max_plan_name = 120"

text \<open>The pattern \<open>^[a-z0-9][a-z0-9-]{1,39}$\<close>.\<close>

definition plan_code :: "string \<Rightarrow> bool" where
  "plan_code s \<longleftrightarrow> 2 \<le> length s \<and> length s \<le> 40 \<and> is_alnum (hd s)
     \<and> list_all (\<lambda>c. is_alnum c \<or> c = CHR ''-'') (tl s)"

definition ascii_upper :: "char \<Rightarrow> char" where
  "ascii_upper c = (if 97 \<le> (of_char c :: nat) \<and> (of_char c :: nat) \<le> 122 then char_of (of_char c - 32 :: nat) else c)"

definition shouted :: "string \<Rightarrow> string" where
  "shouted s = map ascii_upper (trim_space s)"

text \<open>\<open>ValidCurrency\<close> asks the table of the currency package.\<close>

definition valid_currency :: "(string \<Rightarrow> bool) \<Rightarrow> string \<Rightarrow> bool" where
  "valid_currency money code \<longleftrightarrow> money code"

definition serving :: "string \<Rightarrow> bool" where
  "serving status \<longleftrightarrow> status = status_trial \<or> status = status_paying \<or> status = status_past_due"

subsection \<open>The entities\<close>

record bill_plan =
  bp_id :: uuid
  bp_tenant :: uuid
  bp_created :: time
  bp_updated :: time
  bp_deleted :: "time option"
  bp_code :: string
  bp_name :: string
  bp_price :: int
  bp_currency :: string
  bp_interval :: string
  bp_features :: "string list"
  bp_active :: bool

record bill_sub =
  sb_id :: uuid
  sb_tenant :: uuid
  sb_created :: time
  sb_updated :: time
  sb_deleted :: "time option"
  sb_plan :: uuid
  sb_status :: string
  sb_start :: time
  sb_end :: time
  sb_leaving :: bool
  sb_price :: int
  sb_currency :: string
  sb_trial :: "time option"
  sb_attempts :: int
  sb_past_due :: "time option"
  sb_anchor :: int

datatype bill_refusal =
    NeedsCode | BadPlanCode | NeedsPlanName | LongPlanName | BadCurrency | NegativePrice | HugePrice
  | BadInterval | NeedsFeature
  | NoPlanNamed | BadLifecycle | EmptyPeriod | BadStampedPrice | BadStampedCurrency
  | NegativeAttempts | BadAnchor

datatype bill_conflict =
    InactivePlan string | OwesFor time | AlreadyEnded | StillBilled string nat
  | OneCode | OneSubscription | OneKey

datatype bill_error =
    BillNotFound
  | BillInvalid bill_refusal
  | BillConflict bill_conflict
  | BillPlanGone uuid
  | NoConnection
  | ChargeFailed

definition validate_plan :: "(string \<Rightarrow> bool) \<Rightarrow> bill_plan \<Rightarrow> bill_refusal + bill_plan" where
  "validate_plan money q =
     (let p = q\<lparr>bp_code := map ascii_lower (trim_space (bp_code q)), bp_name := trim_space (bp_name q),
                bp_currency := shouted (bp_currency q),
                bp_interval := (if bp_interval q = '''' then interval_month else bp_interval q)\<rparr>
      in if bp_code p = '''' then Inl NeedsCode
         else if \<not> plan_code (bp_code p) then Inl BadPlanCode
         else if bp_name p = '''' then Inl NeedsPlanName
         else if rune_count (bp_name p) > max_plan_name then Inl LongPlanName
         else if \<not> valid_currency money (bp_currency p) then Inl BadCurrency
         else if bp_price p < 0 then Inl NegativePrice
         else if bp_price p > max_price_cents then Inl HugePrice
         else if bp_interval p \<notin> set bill_intervals then Inl BadInterval
         else if list_ex (\<lambda>f. trim_space f = '''') (bp_features p) then Inl NeedsFeature
         else Inr p)"

definition validate_sub :: "(string \<Rightarrow> bool) \<Rightarrow> bill_sub \<Rightarrow> bill_refusal + bill_sub" where
  "validate_sub money q =
     (let s = q\<lparr>sb_status := (if sb_status q = '''' then status_trial else sb_status q),
                sb_currency := shouted (sb_currency q)\<rparr>
      in if sb_plan s = uuid_nil then Inl NoPlanNamed
         else if sb_status s \<notin> set bill_statuses then Inl BadLifecycle
         else if \<not> sb_end s > sb_start s then Inl EmptyPeriod
         else if sb_price s < 0 \<or> sb_price s > max_price_cents then Inl BadStampedPrice
         else if sb_price s > 0 \<and> \<not> valid_currency money (sb_currency s) then Inl BadStampedCurrency
         else if sb_attempts s < 0 then Inl NegativeAttempts
         else if sb_anchor s < 0 \<or> sb_anchor s > 31 then Inl BadAnchor
         else Inr s)"

subsection \<open>What a subscription says of itself\<close>

definition grace_period :: duration where "grace_period = 7 * 24 * hour"

definition cancelled_by_dunning :: string where "cancelled_by_dunning = ''dunning''"

definition run_out :: "time \<Rightarrow> bill_sub \<Rightarrow> bool" where
  "run_out now s \<longleftrightarrow> \<not> now < sb_end s"

definition grace_expired :: "time \<Rightarrow> bill_sub \<Rightarrow> bool" where
  "grace_expired now s \<longleftrightarrow> (case sb_past_due s of None \<Rightarrow> False | Some d \<Rightarrow> time_sub now d \<ge> grace_period)"

definition outstanding :: "bill_sub \<Rightarrow> time option" where
  "outstanding s = (case sb_past_due s of None \<Rightarrow> None | Some _ \<Rightarrow> Some (sb_end s))"

text \<open>One interval before now, the period a tenant that comes back is given.\<close>

definition back_from :: "time \<Rightarrow> string \<Rightarrow> time" where
  "back_from now interval = (if interval = interval_year then add_date (-1) 0 0 now else add_date 0 (-1) 0 now)"

subsection \<open>Charges, receipts and events\<close>

text \<open>\<open>time.RFC3339\<close> of an instant in UTC: years of four digits, no fraction of a second.\<close>

definition pad :: "nat \<Rightarrow> int \<Rightarrow> string" where
  "pad w z = (let ds = dec (nat z) in replicate (w - length ds) (CHR ''0'') @ ds)"

definition rfc3339 :: "time \<Rightarrow> string" where
  "rfc3339 t =
     pad 4 (t_month t div 12) @ ''-'' @ pad 2 (t_month t mod 12 + 1) @ ''-'' @ pad 2 (t_day t) @ ''T''
     @ pad 2 (t_clock t div hour) @ '':'' @ pad 2 (t_clock t div minute mod 60) @ '':''
     @ pad 2 (t_clock t div second mod 60) @ ''Z''"

record bill_charge =
  bc_subject :: uuid
  bc_code :: string
  bc_amount :: int
  bc_currency :: string
  bc_end :: time
  bc_key :: string

definition charge_key :: "(uuid \<Rightarrow> string) \<Rightarrow> uuid \<Rightarrow> time \<Rightarrow> string" where
  "charge_key us who e = us who @ '':'' @ rfc3339 e"

record bill_receipt =
  br_reference :: string
  br_settled :: bool
  br_pending :: bool
  br_at :: time

text \<open>The provider that records what is due and takes nothing.\<close>

definition manual_charge :: "time \<Rightarrow> bill_charge \<Rightarrow> bill_receipt" where
  "manual_charge now c = \<lparr>br_reference = ''manual:'' @ bc_key c, br_settled = False, br_pending = False, br_at = now\<rparr>"

datatype bill_event =
    PlanCreated uuid
  | PlanUpdated uuid
  | PlanDeleted uuid
  | SubSubscribed uuid uuid string string time time
  | SubCancelled uuid time bool string time
  | SubRenewed uuid time time string time
  | SubPastDue uuid int string time int time time

definition event_subscribed :: string where "event_subscribed = ''billing.subscribed''"
definition event_cancelled :: string where "event_cancelled = ''billing.cancelled''"
definition event_renewed :: string where "event_renewed = ''billing.renewed''"
definition event_past_due :: string where "event_past_due = ''billing.past_due''"

fun event_label :: "bill_event \<Rightarrow> string" where
  "event_label (PlanCreated _) = ''billing.plan.created''"
| "event_label (PlanUpdated _) = ''billing.plan.updated''"
| "event_label (PlanDeleted _) = ''billing.plan.deleted''"
| "event_label (SubSubscribed _ _ _ _ _ _) = event_subscribed"
| "event_label (SubCancelled _ _ _ _ _) = event_cancelled"
| "event_label (SubRenewed _ _ _ _ _) = event_renewed"
| "event_label (SubPastDue _ _ _ _ _ _ _) = event_past_due"

subsection \<open>The tables\<close>

record bill_db =
  bl_plans :: "bill_plan list"
  bl_subs :: "bill_sub list"
  bl_log :: "(uuid \<times> bill_event) list"

definition empty_bills :: bill_db where
  "empty_bills = \<lparr>bl_plans = [], bl_subs = [], bl_log = []\<rparr>"

definition publish_bill :: "uuid \<Rightarrow> bill_event \<Rightarrow> bill_db \<Rightarrow> bill_db" where
  "publish_bill t e db = db\<lparr>bl_log := bl_log db @ [(t, e)]\<rparr>"

definition get_plan :: "uuid \<Rightarrow> bill_db \<Rightarrow> bill_plan option" where
  "get_plan i db = List.find (\<lambda>p. bp_id p = i \<and> bp_deleted p = None) (bl_plans db)"

definition current_sub :: "uuid \<Rightarrow> bill_db \<Rightarrow> bill_sub option" where
  "current_sub t db = List.find (\<lambda>s. sb_tenant s = t \<and> sb_deleted s = None) (bl_subs db)"

text \<open>The oldest \<open>trial_used_at\<close> of the tenant's rows, the deleted among them.\<close>

definition trial_used_at :: "uuid \<Rightarrow> bill_db \<Rightarrow> time option" where
  "trial_used_at t db =
     (case List.map_filter sb_trial (filter (\<lambda>s. sb_tenant s = t) (bl_subs db)) of
        [] \<Rightarrow> None
      | x # xs \<Rightarrow> Some (fold min xs x))"

text \<open>\<open>crud.Create\<close> and \<open>crud.Update\<close> for this entity; \<open>copy\<close> writes the columns named.\<close>

definition create_sub ::
    "(string \<Rightarrow> bool) \<Rightarrow> uuid \<Rightarrow> time \<Rightarrow> uuid \<Rightarrow> bill_sub \<Rightarrow> bill_db \<Rightarrow> bill_error + (bill_db \<times> bill_sub)" where
  "create_sub money new now t q db =
     (case validate_sub money (q\<lparr>sb_id := new, sb_tenant := t, sb_deleted := None\<rparr>) of
        Inl w \<Rightarrow> Inl (BillInvalid w)
      | Inr v \<Rightarrow>
          let s = v\<lparr>sb_created := now, sb_updated := now\<rparr>
          in if list_ex (\<lambda>r. sb_id r = new) (bl_subs db) then Inl (BillConflict OneKey)
             else if list_ex (\<lambda>r. sb_tenant r = t \<and> sb_deleted r = None) (bl_subs db) then Inl (BillConflict OneSubscription)
             else Inr (db\<lparr>bl_subs := bl_subs db @ [s]\<rparr>, s))"

text \<open>\<open>RecheckTenant\<close>: whether an identity with this owner is not the transaction's to write.\<close>

definition not_ours :: "uuid \<Rightarrow> uuid \<Rightarrow> uuid \<Rightarrow> bool" where
  "not_ours t i owner \<longleftrightarrow> i = uuid_nil \<or> (owner \<noteq> uuid_nil \<and> owner \<noteq> t)"

definition update_sub ::
    "(string \<Rightarrow> bool) \<Rightarrow> time \<Rightarrow> uuid \<Rightarrow> (bill_sub \<Rightarrow> bill_sub \<Rightarrow> bill_sub) \<Rightarrow> bill_sub \<Rightarrow> bill_db
      \<Rightarrow> bill_error + (bill_db \<times> bill_sub)" where
  "update_sub money now t copy q db =
     (if not_ours t (sb_id q) (sb_tenant q) then Inl BillNotFound
      else case validate_sub money (q\<lparr>sb_tenant := t\<rparr>) of
        Inl w \<Rightarrow> Inl (BillInvalid w)
      | Inr v \<Rightarrow>
          let s = v\<lparr>sb_updated := now\<rparr>;
              hit = (\<lambda>r. sb_id r = sb_id s \<and> sb_tenant r = t \<and> sb_deleted r = None)
          in if list_ex hit (bl_subs db)
             then Inr (db\<lparr>bl_subs := map (\<lambda>r. if hit r then (copy s r)\<lparr>sb_updated := now\<rparr> else r) (bl_subs db)\<rparr>, s)
             else Inl BillNotFound)"

definition write_enrollment :: "bill_sub \<Rightarrow> bill_sub \<Rightarrow> bill_sub" where
  "write_enrollment s r = r\<lparr>sb_plan := sb_plan s, sb_leaving := sb_leaving s\<rparr>"

definition write_status :: "bill_sub \<Rightarrow> bill_sub \<Rightarrow> bill_sub" where
  "write_status s r = r\<lparr>sb_status := sb_status s\<rparr>"

definition write_leaving :: "bill_sub \<Rightarrow> bill_sub \<Rightarrow> bill_sub" where
  "write_leaving s r = r\<lparr>sb_leaving := sb_leaving s\<rparr>"

definition write_period :: "bill_sub \<Rightarrow> bill_sub \<Rightarrow> bill_sub" where
  "write_period s r = r\<lparr>sb_start := sb_start s, sb_end := sb_end s, sb_price := sb_price s, sb_currency := sb_currency s\<rparr>"

definition write_anchor :: "bill_sub \<Rightarrow> bill_sub \<Rightarrow> bill_sub" where
  "write_anchor s r = r\<lparr>sb_anchor := sb_anchor s\<rparr>"

definition write_dunning :: "bill_sub \<Rightarrow> bill_sub \<Rightarrow> bill_sub" where
  "write_dunning s r = r\<lparr>sb_attempts := sb_attempts s, sb_past_due := sb_past_due s\<rparr>"

lemmas write_defs = write_enrollment_def write_status_def write_leaving_def write_period_def
  write_anchor_def write_dunning_def

end
