(* ===== verification/BillingService.thy ===== *)
theory BillingService
  imports Billing
begin

section \<open>The lifecycle of a subscription\<close>

text \<open>
  \<open>modules/billing/internal/service.go\<close>, \<open>renew.go\<close> and \<open>kernel.go\<close>: each command is one transaction
  of a tenant and answers the tables it commits beside its answer; an error leaves them as they were.
  Identifiers and the clock are arguments, and the payment provider is the argument \<open>pay\<close>, whose
  \<open>None\<close> is its error.  Publishing does not fail.
\<close>

type_synonym bill_answer = "bill_error + (bill_db \<times> bill_sub)"

definition publish_subscribed :: "uuid \<Rightarrow> bill_sub \<Rightarrow> bill_plan \<Rightarrow> time \<Rightarrow> bill_db \<Rightarrow> bill_db" where
  "publish_subscribed t s p at db =
     publish_bill t (SubSubscribed (sb_id s) (bp_id p) (bp_code p) (sb_status s) (sb_end s) at) db"

subsection \<open>Subscribe\<close>

definition new_sub :: "uuid \<Rightarrow> time \<Rightarrow> time option \<Rightarrow> bill_plan \<Rightarrow> bill_sub" where
  "new_sub i now used p =
     (let s = \<lparr>sb_id = uuid_nil, sb_tenant = uuid_nil, sb_created = 0, sb_updated = 0, sb_deleted = None,
               sb_plan = i, sb_status = '''', sb_start = 0, sb_end = 0, sb_leaving = False,
               sb_price = bp_price p, sb_currency = bp_currency p, sb_trial = used,
               sb_attempts = 0, sb_past_due = None, sb_anchor = anchor_of now\<rparr>
      in case used of
           None \<Rightarrow> s\<lparr>sb_status := status_trial, sb_trial := Some now,
                    sb_start := now, sb_end := advance_date now (bp_interval p) (sb_anchor s)\<rparr>
         | Some _ \<Rightarrow> s\<lparr>sb_status := status_paying, sb_start := back_from now (bp_interval p), sb_end := now\<rparr>)"

definition subscribe_first ::
    "(string \<Rightarrow> bool) \<Rightarrow> uuid \<Rightarrow> time \<Rightarrow> uuid \<Rightarrow> uuid \<Rightarrow> bill_plan \<Rightarrow> bill_db \<Rightarrow> bill_answer" where
  "subscribe_first money new now t i p db =
     (case create_sub money new now t (new_sub i now (trial_used_at t db) p) db of
        Inl e \<Rightarrow> Inl e
      | Inr (db', s) \<Rightarrow> Inr (publish_subscribed t s p now db', s))"

definition come_back :: "time \<Rightarrow> bill_plan \<Rightarrow> bill_sub \<Rightarrow> bill_sub" where
  "come_back now p q =
     (let s = q\<lparr>sb_status := status_past_due\<rparr>
      in if outstanding s = None
         then s\<lparr>sb_status := status_paying,
                sb_start := back_from now (bp_interval p), sb_end := now,
                sb_price := bp_price p, sb_currency := bp_currency p, sb_anchor := anchor_of now\<rparr>
         else s)"

definition come_back_columns :: "bill_sub \<Rightarrow> bill_sub \<Rightarrow> bill_sub \<Rightarrow> bill_sub" where
  "come_back_columns q s r =
     (let r = write_status s (write_enrollment s r)
      in if outstanding q = None then write_anchor s (write_period s r) else r)"

definition subscribe_again ::
    "(string \<Rightarrow> bool) \<Rightarrow> time \<Rightarrow> uuid \<Rightarrow> uuid \<Rightarrow> bill_plan \<Rightarrow> bill_sub \<Rightarrow> bill_db \<Rightarrow> bill_answer" where
  "subscribe_again money now t i p q db =
     (let s = q\<lparr>sb_plan := i, sb_leaving := False\<rparr>;
          (s', columns) = (if sb_status s = status_cancelled then (come_back now p s, come_back_columns s)
                           else (s, write_enrollment))
      in case update_sub money now t columns s' db of
           Inl e \<Rightarrow> Inl e
         | Inr (db', v) \<Rightarrow> Inr (publish_subscribed t v p now db', v))"

definition subscribe ::
    "(string \<Rightarrow> bool) \<Rightarrow> uuid \<Rightarrow> time \<Rightarrow> uuid \<Rightarrow> uuid \<Rightarrow> bill_db \<Rightarrow> bill_answer" where
  "subscribe money new now t i db =
     (if i = uuid_nil then Inl (BillInvalid NoPlanNamed)
      else case get_plan i db of
        None \<Rightarrow> Inl BillNotFound
      | Some p \<Rightarrow>
          if \<not> bp_active p then Inl (BillConflict (InactivePlan (bp_code p)))
          else (case current_sub t db of
            None \<Rightarrow> subscribe_first money new now t i p db
          | Some s \<Rightarrow>
              if sb_plan s = i \<and> sb_status s \<noteq> status_cancelled \<and> \<not> sb_leaving s then Inr (db, s)
              else if outstanding s \<noteq> None \<and> sb_plan s \<noteq> i then Inl (BillConflict (OwesFor (sb_end s)))
              else subscribe_again money now t i p s db))"

subsection \<open>Cancel\<close>

definition cancel_later :: "(string \<Rightarrow> bool) \<Rightarrow> time \<Rightarrow> uuid \<Rightarrow> bill_sub \<Rightarrow> bill_db \<Rightarrow> bill_answer" where
  "cancel_later money now t s db =
     (if sb_status s = status_cancelled then Inl (BillConflict AlreadyEnded)
      else if sb_leaving s then Inr (db, s)
      else case update_sub money now t write_leaving (s\<lparr>sb_leaving := True\<rparr>) db of
        Inl e \<Rightarrow> Inl e
      | Inr (db', v) \<Rightarrow> Inr (publish_bill t (SubCancelled (sb_id v) (sb_end v) False '''' now) db', v))"

definition cancel_now :: "(string \<Rightarrow> bool) \<Rightarrow> time \<Rightarrow> uuid \<Rightarrow> bill_sub \<Rightarrow> bill_db \<Rightarrow> bill_answer" where
  "cancel_now money now t s db =
     (if sb_status s = status_cancelled then Inr (db, s)
      else if outstanding s \<noteq> None then Inl (BillConflict (OwesFor (sb_end s)))
      else case update_sub money now t (\<lambda>s r. write_leaving s (write_status s r))
                  (s\<lparr>sb_status := status_cancelled, sb_leaving := False\<rparr>) db of
        Inl e \<Rightarrow> Inl e
      | Inr (db', v) \<Rightarrow> Inr (publish_bill t (SubCancelled (sb_id v) now True '''' now) db', v))"

definition cancel_sub :: "(string \<Rightarrow> bool) \<Rightarrow> time \<Rightarrow> uuid \<Rightarrow> bool \<Rightarrow> bill_db \<Rightarrow> bill_answer" where
  "cancel_sub money now t at_period_end db =
     (case current_sub t db of
        None \<Rightarrow> Inl BillNotFound
      | Some s \<Rightarrow> if at_period_end then cancel_later money now t s db else cancel_now money now t s db)"

subsection \<open>Renew and settle\<close>

definition plan_of :: "bill_sub \<Rightarrow> bill_db \<Rightarrow> bill_error + bill_plan" where
  "plan_of s db = (case get_plan (sb_plan s) db of None \<Rightarrow> Inl (BillPlanGone (sb_id s)) | Some p \<Rightarrow> Inr p)"

definition next_period :: "bill_plan \<Rightarrow> bill_sub \<Rightarrow> bill_sub" where
  "next_period p s =
     s\<lparr>sb_start := sb_end s, sb_end := advance_date (sb_end s) (bp_interval p) (sb_anchor s),
       sb_status := status_paying, sb_price := bp_price p, sb_currency := bp_currency p,
       sb_attempts := 0, sb_past_due := None\<rparr>"

definition advance_sub ::
    "(string \<Rightarrow> bool) \<Rightarrow> time \<Rightarrow> uuid \<Rightarrow> bill_plan \<Rightarrow> string \<Rightarrow> bill_sub \<Rightarrow> bill_db \<Rightarrow> bill_answer" where
  "advance_sub money now t p receipt s db =
     (case update_sub money now t (\<lambda>s r. write_dunning s (write_period s (write_status s r))) (next_period p s) db of
        Inl e \<Rightarrow> Inl e
      | Inr (db', v) \<Rightarrow> Inr (publish_bill t (SubRenewed (sb_id v) (sb_start v) (sb_end v) receipt now) db', v))"

definition charge_of :: "(uuid \<Rightarrow> string) \<Rightarrow> bill_plan \<Rightarrow> bill_sub \<Rightarrow> bill_charge" where
  "charge_of us p s =
     \<lparr>bc_subject = sb_id s, bc_code = bp_code p, bc_amount = sb_price s, bc_currency = sb_currency s,
      bc_end = sb_end s, bc_key = charge_key us (sb_id s) (sb_end s)\<rparr>"

definition end_sub :: "(string \<Rightarrow> bool) \<Rightarrow> time \<Rightarrow> uuid \<Rightarrow> bill_sub \<Rightarrow> bill_db \<Rightarrow> bill_answer" where
  "end_sub money now t s db = update_sub money now t write_status (s\<lparr>sb_status := status_cancelled\<rparr>) db"

definition renew ::
    "(string \<Rightarrow> bool) \<Rightarrow> (uuid \<Rightarrow> string) \<Rightarrow> time \<Rightarrow> uuid \<Rightarrow> bill_db
      \<Rightarrow> bill_error + (bill_db \<times> bill_sub \<times> bill_charge option)" where
  "renew money us now t db =
     (case current_sub t db of
        None \<Rightarrow> Inl BillNotFound
      | Some s \<Rightarrow>
          if sb_status s = status_cancelled \<or> \<not> run_out now s then Inr (db, s, None)
          else if sb_leaving s then
            (case end_sub money now t s db of Inl e \<Rightarrow> Inl e | Inr (db', v) \<Rightarrow> Inr (db', v, None))
          else if grace_expired now s then
            (case end_sub money now t s db of
               Inl e \<Rightarrow> Inl e
             | Inr (db', v) \<Rightarrow> Inr (publish_bill t (SubCancelled (sb_id v) now True cancelled_by_dunning now) db', v, None))
          else case plan_of s db of
            Inl e \<Rightarrow> Inl e
          | Inr p \<Rightarrow>
              if sb_price s = 0
              then (case advance_sub money now t p '''' s db of Inl e \<Rightarrow> Inl e | Inr (db', v) \<Rightarrow> Inr (db', v, None))
              else Inr (db, s, Some (charge_of us p s)))"

definition refused_once :: "time \<Rightarrow> bill_sub \<Rightarrow> bill_sub" where
  "refused_once now s =
     s\<lparr>sb_attempts := sb_attempts s + 1,
       sb_past_due := (case sb_past_due s of None \<Rightarrow> Some now | Some d \<Rightarrow> Some d),
       sb_status := status_past_due\<rparr>"

definition settle ::
    "(string \<Rightarrow> bool) \<Rightarrow> time \<Rightarrow> uuid \<Rightarrow> bill_charge \<Rightarrow> bill_receipt \<Rightarrow> bill_db \<Rightarrow> bill_answer" where
  "settle money now t c r db =
     (case current_sub t db of
        None \<Rightarrow> Inl BillNotFound
      | Some s \<Rightarrow>
          if sb_id s \<noteq> bc_subject c \<or> sb_end s \<noteq> bc_end c \<or> sb_status s = status_cancelled then Inr (db, s)
          else if br_settled r then
            (case plan_of s db of Inl e \<Rightarrow> Inl e | Inr p \<Rightarrow> advance_sub money now t p (br_reference r) s db)
          else if br_pending r then Inr (db, s)
          else case update_sub money now t (\<lambda>s r. write_dunning s (write_status s r)) (refused_once now s) db of
            Inl e \<Rightarrow> Inl e
          | Inr (db', v) \<Rightarrow>
              if sb_status s = status_past_due then Inr (db', v)
              else Inr (publish_bill t
                     (SubPastDue (sb_id v) (bc_amount c) (bc_currency c) (bc_end c) (sb_attempts v)
                        (the (sb_past_due v) + grace_period) now) db', v))"

subsection \<open>The nightly job\<close>

definition is_not_found :: "bill_error \<Rightarrow> bool" where
  "is_not_found e \<longleftrightarrow> (case e of BillNotFound \<Rightarrow> True | BillPlanGone _ \<Rightarrow> True | _ \<Rightarrow> False)"

text \<open>One tenant's renewal: two transactions, at \<open>now\<close> and \<open>later\<close>, and the charge between them.\<close>

definition renew_tenant ::
    "(string \<Rightarrow> bool) \<Rightarrow> (uuid \<Rightarrow> string) \<Rightarrow> (bill_charge \<Rightarrow> bill_receipt option) \<Rightarrow> time \<Rightarrow> time \<Rightarrow> uuid
      \<Rightarrow> bill_db \<Rightarrow> bill_db \<times> bill_error option" where
  "renew_tenant money us pay now later t db =
     (case renew money us now t db of
        Inl e \<Rightarrow> if is_not_found e then (db, None) else (db, Some e)
      | Inr (db', s, None) \<Rightarrow> (db', None)
      | Inr (db', s, Some c) \<Rightarrow>
          (case pay c of
             None \<Rightarrow> (db', Some ChargeFailed)
           | Some r \<Rightarrow> (case settle money later t c r db' of Inl e \<Rightarrow> (db', Some e) | Inr (db'', v) \<Rightarrow> (db'', None))))"

text \<open>A night over the tenants of the installation; one tenant's failure does not stop the others.\<close>

fun renew_night ::
    "(string \<Rightarrow> bool) \<Rightarrow> (uuid \<Rightarrow> string) \<Rightarrow> (bill_charge \<Rightarrow> bill_receipt option) \<Rightarrow> (uuid \<times> time \<times> time) list
      \<Rightarrow> bill_db \<Rightarrow> bill_db \<times> bill_error list" where
  "renew_night money us pay [] db = (db, [])"
| "renew_night money us pay ((t, now, later) # rest) db =
     (case renew_tenant money us pay now later t db of
        (db', e) \<Rightarrow> (case renew_night money us pay rest db' of
          (db'', es) \<Rightarrow> (db'', (case e of None \<Rightarrow> es | Some x \<Rightarrow> x # es))))"

subsection \<open>What a plan includes\<close>

definition includes_feature :: "uuid \<Rightarrow> string \<Rightarrow> bill_db \<Rightarrow> bill_error + bool" where
  "includes_feature t feature db =
     (case current_sub t db of
        None \<Rightarrow> Inr False
      | Some s \<Rightarrow>
          if \<not> serving (sb_status s) then Inr False
          else case get_plan (sb_plan s) db of
            None \<Rightarrow> Inl BillNotFound
          | Some p \<Rightarrow> Inr (feature \<in> set (bp_features p)))"

subsection \<open>The catalogue\<close>

text \<open>Every live row of any tenant counts; without a connection in the request the hook refuses.\<close>

definition refuse_while_subscribed :: "bool \<Rightarrow> bill_plan \<Rightarrow> bill_db \<Rightarrow> bill_error option" where
  "refuse_while_subscribed conn p db =
     (if \<not> conn then Some NoConnection
      else let live = length (filter (\<lambda>s. sb_plan s = bp_id p \<and> sb_status s \<noteq> status_cancelled \<and> sb_deleted s = None) (bl_subs db))
           in if live > 0 then Some (BillConflict (StillBilled (bp_code p) live)) else None)"

definition code_taken :: "bill_plan \<Rightarrow> bill_plan \<Rightarrow> bool" where
  "code_taken p r \<longleftrightarrow> bp_deleted r = None \<and> bp_code r = bp_code p"

definition create_plan ::
    "(string \<Rightarrow> bool) \<Rightarrow> uuid \<Rightarrow> time \<Rightarrow> uuid \<Rightarrow> bill_plan \<Rightarrow> bill_db \<Rightarrow> bill_error + (bill_db \<times> bill_plan)" where
  "create_plan money new now t q db =
     (case validate_plan money (q\<lparr>bp_id := new, bp_tenant := t, bp_deleted := None\<rparr>) of
        Inl w \<Rightarrow> Inl (BillInvalid w)
      | Inr v \<Rightarrow>
          let p = v\<lparr>bp_created := now, bp_updated := now\<rparr>
          in if list_ex (\<lambda>r. bp_id r = new) (bl_plans db) then Inl (BillConflict OneKey)
             else if list_ex (code_taken p) (bl_plans db) then Inl (BillConflict OneCode)
             else Inr (publish_bill t (PlanCreated new) (db\<lparr>bl_plans := bl_plans db @ [p]\<rparr>), p))"

text \<open>A save of at least one field merges them into the row it locked; what they cannot reach stays the row's.\<close>

definition update_plan ::
    "(string \<Rightarrow> bool) \<Rightarrow> time \<Rightarrow> uuid \<Rightarrow> uuid \<Rightarrow> (bill_plan \<Rightarrow> bill_plan) \<Rightarrow> bill_db \<Rightarrow> bill_error + (bill_db \<times> bill_plan)" where
  "update_plan money now t i merge db =
     (case get_plan i db of
        None \<Rightarrow> Inl BillNotFound
      | Some row \<Rightarrow>
          if not_ours t i (bp_tenant row) then Inl BillNotFound
          else case validate_plan money ((merge row)\<lparr>bp_id := i, bp_tenant := t, bp_created := bp_created row, bp_deleted := None\<rparr>) of
            Inl w \<Rightarrow> Inl (BillInvalid w)
          | Inr v \<Rightarrow>
              let p = v\<lparr>bp_updated := now\<rparr>
              in if list_ex (\<lambda>r. bp_id r \<noteq> i \<and> code_taken p r) (bl_plans db) then Inl (BillConflict OneCode)
                 else Inr (publish_bill t (PlanUpdated i)
                        (db\<lparr>bl_plans := map (\<lambda>r. if bp_id r = i \<and> bp_deleted r = None then p else r) (bl_plans db)\<rparr>), p))"

definition delete_plan :: "bool \<Rightarrow> time \<Rightarrow> uuid \<Rightarrow> uuid \<Rightarrow> bill_db \<Rightarrow> bill_error + bill_db" where
  "delete_plan conn now t i db =
     (case get_plan i db of
        None \<Rightarrow> Inl BillNotFound
      | Some p \<Rightarrow>
          if not_ours t i (bp_tenant p) then Inl BillNotFound
          else let db' = db\<lparr>bl_plans := map (\<lambda>r. if bp_id r = i \<and> bp_deleted r = None then r\<lparr>bp_deleted := Some now\<rparr> else r) (bl_plans db)\<rparr>
               in case refuse_while_subscribed conn p db' of
                    Some e \<Rightarrow> Inl e
                  | None \<Rightarrow> Inr (publish_bill t (PlanDeleted i) db'))"

text \<open>\<open>crud.SoftDelete\<close> of the live row: no route of the module reaches it, and \<open>trialUsedAt\<close> is about it.\<close>

definition remove_sub :: "time \<Rightarrow> uuid \<Rightarrow> bill_db \<Rightarrow> bill_error + bill_db" where
  "remove_sub now t db =
     (case current_sub t db of
        None \<Rightarrow> Inl BillNotFound
      | Some s \<Rightarrow> Inr (db\<lparr>bl_subs := map (\<lambda>r. if sb_id r = sb_id s \<and> sb_tenant r = t \<and> sb_deleted r = None
                              then r\<lparr>sb_deleted := Some now\<rparr> else r) (bl_subs db)\<rparr>))"

end
