(* ===== verification/BillingRows.thy ===== *)
theory BillingRows
  imports BillingService Administration
begin

section \<open>Rows that pass their own rules, and how a command changes one\<close>

text \<open>
  What \<open>Validate\<close> lets through it lets through again as it is, so a row written once is never refused;
  each command of a tenant either leaves the tables as they were, adds the tenant's row, or replaces it
  by one of the moves of \<open>bill_move\<close>, which say what was so before, what the row becomes and what is
  published.
\<close>

subsection \<open>Upper case\<close>

lemma upper_space [simp]: "ascii_space (ascii_upper c) = ascii_space c"
  by (auto simp: ascii_space_def ascii_upper_def)

lemma upper_idem [simp]: "ascii_upper (ascii_upper c) = ascii_upper c"
  by (auto simp: ascii_upper_def)

lemma dropWhile_upper: "dropWhile ascii_space (map ascii_upper s) = map ascii_upper (dropWhile ascii_space s)"
  by (induction s) auto

lemma trim_upper: "trim_space (map ascii_upper s) = map ascii_upper (trim_space s)"
  by (simp add: trim_space_def dropWhile_upper rev_map)

lemma shouted_idem [simp]: "shouted (shouted s) = shouted s"
  by (simp add: shouted_def trim_upper comp_def)

subsection \<open>Rows as they are written\<close>

definition plan_fit :: "(string \<Rightarrow> bool) \<Rightarrow> bill_plan \<Rightarrow> bool" where
  "plan_fit money p \<longleftrightarrow> validate_plan money p = Inr p"

definition sub_fit :: "(string \<Rightarrow> bool) \<Rightarrow> bill_sub \<Rightarrow> bool" where
  "sub_fit money s \<longleftrightarrow> validate_sub money s = Inr s"

lemma validate_plan_fit:
  assumes "validate_plan money q = Inr p"
  shows "plan_fit money p"
proof -
  define v where "v = q\<lparr>bp_code := map ascii_lower (trim_space (bp_code q)), bp_name := trim_space (bp_name q),
      bp_currency := shouted (bp_currency q), bp_interval := (if bp_interval q = '''' then interval_month else bp_interval q)\<rparr>"
  have p: "p = v" using assms unfolding validate_plan_def v_def Let_def by (simp split: if_splits)
  have "v\<lparr>bp_code := map ascii_lower (trim_space (bp_code v)), bp_name := trim_space (bp_name v),
      bp_currency := shouted (bp_currency v), bp_interval := (if bp_interval v = '''' then interval_month else bp_interval v)\<rparr> = v"
    unfolding v_def by (simp add: trim_lower comp_def interval_month_def)
  then show ?thesis
    using assms unfolding plan_fit_def p validate_plan_def Let_def v_def [symmetric] by (simp split: if_splits)
qed

lemma validate_plan_id:
  assumes "validate_plan money q = Inr p"
  shows "bp_id p = bp_id q" "bp_deleted p = bp_deleted q"
  using assms by (auto simp: validate_plan_def Let_def split: if_splits)

lemma plan_fit_stamp: "plan_fit money p \<Longrightarrow> plan_fit money (p\<lparr>bp_created := c, bp_updated := u\<rparr>)"
  by (cases p) (auto simp: plan_fit_def validate_plan_def Let_def split: if_splits)

lemma plan_fit_D:
  assumes "plan_fit money p"
  shows "money (bp_currency p)" "shouted (bp_currency p) = bp_currency p" "0 \<le> bp_price p"
    "bp_price p \<le> max_price_cents" "bp_interval p \<in> set bill_intervals"
  using assms by (cases p; auto simp: plan_fit_def validate_plan_def Let_def valid_currency_def split: if_splits)+

lemma sub_fit_iff:
  "sub_fit money s \<longleftrightarrow> sb_status s \<in> set bill_statuses \<and> shouted (sb_currency s) = sb_currency s \<and> sb_plan s \<noteq> uuid_nil
     \<and> sb_start s < sb_end s \<and> 0 \<le> sb_price s \<and> sb_price s \<le> max_price_cents
     \<and> (0 < sb_price s \<longrightarrow> money (sb_currency s)) \<and> 0 \<le> sb_attempts s \<and> 0 \<le> sb_anchor s \<and> sb_anchor s \<le> 31"
  by (cases s) (auto simp: sub_fit_def validate_sub_def Let_def valid_currency_def bill_statuses_def bill_status_defs)

lemma validate_sub_fit:
  assumes "validate_sub money q = Inr s"
  shows "sub_fit money s"
  using assms by (auto simp: sub_fit_iff validate_sub_def Let_def valid_currency_def split: if_splits)

lemma anchor_of_bounds: "1 \<le> anchor_of t \<and> anchor_of t \<le> 31"
  using t_day_bounds [of t] month_length_bounds [of "t_month t"] by (simp add: anchor_of_def)

lemma back_from_before: "back_from now i < now"
  unfolding back_from_def by (auto intro: add_date_back [OF refl])

text \<open>What every row a command wrote says of itself, beyond \<open>Validate\<close>.\<close>

definition sub_kept :: "bill_sub \<Rightarrow> bool" where
  "sub_kept s \<longleftrightarrow> (sb_status s = status_past_due \<longrightarrow> sb_past_due s \<noteq> None)
     \<and> (sb_past_due s \<noteq> None \<longrightarrow> sb_status s \<in> {status_past_due, status_cancelled} \<and> 1 \<le> sb_attempts s)
     \<and> (sb_past_due s = None \<longrightarrow> sb_attempts s = 0)
     \<and> 1 \<le> sb_anchor s \<and> sb_trial s \<noteq> None
     \<and> (sb_status s = status_trial \<longrightarrow> sb_trial s = Some (sb_start s)
          \<and> (\<exists>i \<in> set bill_intervals. sb_end s = advance_date (sb_start s) i (anchor_of (sb_start s))))"

subsection \<open>The calls of a tenant\<close>

datatype bill_call =
    AskSubscribe uuid uuid
  | AskCancel bool
  | AskRenew
  | AskSettle bill_charge bill_receipt

definition no_charge :: "bill_answer \<Rightarrow> bill_error + (bill_db \<times> bill_sub \<times> bill_charge option)" where
  "no_charge a = (case a of Inl e \<Rightarrow> Inl e | Inr (db, s) \<Rightarrow> Inr (db, s, None))"

fun bill_ask ::
    "(string \<Rightarrow> bool) \<Rightarrow> (uuid \<Rightarrow> string) \<Rightarrow> time \<Rightarrow> uuid \<Rightarrow> bill_call \<Rightarrow> bill_db
      \<Rightarrow> bill_error + (bill_db \<times> bill_sub \<times> bill_charge option)" where
  "bill_ask money us now t (AskSubscribe new i) db = no_charge (subscribe money new now t i db)"
| "bill_ask money us now t (AskCancel later) db = no_charge (cancel_sub money now t later db)"
| "bill_ask money us now t AskRenew db = renew money us now t db"
| "bill_ask money us now t (AskSettle c r) db = no_charge (settle money now t c r db)"

text \<open>The row \<open>s\<close> of a call at \<open>now\<close>, what it becomes (but for its stamp) and what is published.\<close>

inductive bill_move :: "bill_db \<Rightarrow> time \<Rightarrow> bill_call \<Rightarrow> bill_sub \<Rightarrow> bill_sub \<Rightarrow> bill_event option \<Rightarrow> bool"
  for db :: bill_db and now :: time where
  enrol: "bill_move db now (AskSubscribe new i) s (s\<lparr>sb_plan := i, sb_leaving := False\<rparr>)
            (Some (SubSubscribed (sb_id s) i (bp_code p) (sb_status s) (sb_end s) now))"
    if "sb_status s \<noteq> status_cancelled" "sb_leaving s \<or> sb_plan s \<noteq> i" "outstanding s = None \<or> sb_plan s = i"
      "get_plan i db = Some p" "bp_active p" "i \<noteq> uuid_nil"
| comes_back: "bill_move db now (AskSubscribe new i) s v
            (Some (SubSubscribed (sb_id s) i (bp_code p) (sb_status v) (sb_end v) now))"
    if "sb_status s = status_cancelled" "outstanding s = None \<or> sb_plan s = i"
      "get_plan i db = Some p" "bp_active p" "i \<noteq> uuid_nil"
      "v = come_back now p (s\<lparr>sb_plan := i, sb_leaving := False\<rparr>)"
| leaves: "bill_move db now (AskCancel True) s (s\<lparr>sb_leaving := True\<rparr>)
            (Some (SubCancelled (sb_id s) (sb_end s) False '''' now))"
    if "sb_status s \<noteq> status_cancelled" "\<not> sb_leaving s"
| stops: "bill_move db now (AskCancel False) s (s\<lparr>sb_status := status_cancelled, sb_leaving := False\<rparr>)
            (Some (SubCancelled (sb_id s) now True '''' now))"
    if "sb_status s \<noteq> status_cancelled" "outstanding s = None"
| lapses: "bill_move db now AskRenew s (s\<lparr>sb_status := status_cancelled\<rparr>) None"
    if "sb_status s \<noteq> status_cancelled" "run_out now s" "sb_leaving s"
| dunned: "bill_move db now AskRenew s (s\<lparr>sb_status := status_cancelled\<rparr>)
            (Some (SubCancelled (sb_id s) now True cancelled_by_dunning now))"
    if "sb_status s \<noteq> status_cancelled" "run_out now s" "\<not> sb_leaving s" "grace_expired now s"
| free: "bill_move db now AskRenew s (next_period p s)
            (Some (SubRenewed (sb_id s) (sb_end s) (sb_end (next_period p s)) '''' now))"
    if "sb_status s \<noteq> status_cancelled" "run_out now s" "\<not> sb_leaving s" "\<not> grace_expired now s"
      "get_plan (sb_plan s) db = Some p" "sb_price s = 0"
| paid: "bill_move db now (AskSettle c r) s (next_period p s)
            (Some (SubRenewed (sb_id s) (sb_end s) (sb_end (next_period p s)) (br_reference r) now))"
    if "sb_status s \<noteq> status_cancelled" "bc_subject c = sb_id s" "bc_end c = sb_end s" "br_settled r"
      "get_plan (sb_plan s) db = Some p"
| refused: "bill_move db now (AskSettle c r) s (refused_once now s) ev"
    if "sb_status s \<noteq> status_cancelled" "bc_subject c = sb_id s" "bc_end c = sb_end s" "\<not> br_settled r" "\<not> br_pending r"
      "ev = (if sb_status s = status_past_due then None
             else Some (SubPastDue (sb_id s) (bc_amount c) (bc_currency c) (bc_end c) (sb_attempts s + 1)
                         (the (sb_past_due (refused_once now s)) + grace_period) now))"

lemma bill_move_frame:
  "bill_move db now call s v ev \<Longrightarrow>
     sb_id v = sb_id s \<and> sb_tenant v = sb_tenant s \<and> sb_deleted v = sb_deleted s \<and> sb_created v = sb_created s
     \<and> sb_trial v = sb_trial s"
  by (induction rule: bill_move.induct) (simp_all add: come_back_def next_period_def refused_once_def Let_def)

lemma statuses_distinct [simp]:
  "status_trial \<noteq> status_cancelled" "status_paying \<noteq> status_cancelled" "status_past_due \<noteq> status_cancelled"
  "status_trial \<noteq> status_paying" "status_trial \<noteq> status_past_due" "status_paying \<noteq> status_past_due"
  "status_cancelled \<noteq> status_trial" "status_cancelled \<noteq> status_paying" "status_cancelled \<noteq> status_past_due"
  "status_paying \<noteq> status_trial" "status_past_due \<noteq> status_trial" "status_past_due \<noteq> status_paying"
  by (simp_all add: bill_status_defs)

lemma statuses_known [simp]:
  "status_trial \<in> set bill_statuses" "status_paying \<in> set bill_statuses"
  "status_past_due \<in> set bill_statuses" "status_cancelled \<in> set bill_statuses"
  by (simp_all add: bill_statuses_def)

lemma get_plan_D:
  assumes "get_plan i db = Some p"
  shows "p \<in> set (bl_plans db)" "bp_id p = i" "bp_deleted p = None"
  using find_SomeD [OF assms [unfolded get_plan_def]] by simp_all

lemma current_sub_D:
  assumes "current_sub t db = Some s"
  shows "s \<in> set (bl_subs db)" "sb_tenant s = t" "sb_deleted s = None"
  using find_SomeD [OF assms [unfolded current_sub_def]] by simp_all

lemma next_period_fit:
  assumes "plan_fit money p" and "sub_fit money s"
  shows "sub_fit money (next_period p s)"
  using plan_fit_D [OF assms(1)] assms(2) advance_date_later by (simp add: sub_fit_iff next_period_def)

lemma come_back_fit:
  assumes "plan_fit money p" and "sub_fit money s"
  shows "sub_fit money (come_back now p s)"
  using plan_fit_D [OF assms(1)] assms(2) back_from_before [of now] anchor_of_bounds [of now]
  by (simp add: sub_fit_iff come_back_def Let_def)

lemma bill_move_fit:
  assumes "bill_move db now call s v ev" and "\<And>i p. get_plan i db = Some p \<Longrightarrow> plan_fit money p" and "sub_fit money s"
  shows "sub_fit money v"
  using assms
proof (induction rule: bill_move.induct)
  case (comes_back s i p v new)
  then show ?case using come_back_fit [of money p "s\<lparr>sb_plan := i, sb_leaving := False\<rparr>" now]
    by (simp add: sub_fit_iff)
next
  case (free s p)
  then show ?case by (intro next_period_fit)
next
  case (paid s c r p)
  then show ?case by (intro next_period_fit)
qed (simp_all add: sub_fit_iff refused_once_def)

lemma bill_move_kept:
  assumes "bill_move db now call s v ev" and "sub_kept s"
  shows "sub_kept v"
  using assms
proof (induction rule: bill_move.induct)
  case (comes_back s i p v new)
  then show ?case using anchor_of_bounds [of now]
    by (auto simp: sub_kept_def come_back_def Let_def outstanding_def split: option.splits)
qed (auto simp: sub_kept_def refused_once_def next_period_def outstanding_def split: option.splits)

subsection \<open>The tables between calls\<close>

definition rows_fit :: "(string \<Rightarrow> bool) \<Rightarrow> bill_db \<Rightarrow> bool" where
  "rows_fit money db \<longleftrightarrow> (\<forall>p \<in> set (bl_plans db). plan_fit money p) \<and> (\<forall>s \<in> set (bl_subs db). sub_fit money s \<and> sub_kept s)"

definition rows_distinct :: "bill_db \<Rightarrow> bool" where
  "rows_distinct db \<longleftrightarrow> distinct (map bp_id (bl_plans db)) \<and> distinct (map sb_id (bl_subs db))
     \<and> uuid_nil \<notin> sb_id ` set (bl_subs db)"

definition one_live :: "bill_db \<Rightarrow> bool" where
  "one_live db \<longleftrightarrow> (\<forall>s \<in> set (bl_subs db). \<forall>r \<in> set (bl_subs db).
     sb_deleted s = None \<and> sb_deleted r = None \<and> sb_tenant s = sb_tenant r \<longrightarrow> s = r)"

definition plans_there :: "bill_db \<Rightarrow> bool" where
  "plans_there db \<longleftrightarrow> (\<forall>s \<in> set (bl_subs db).
     sb_deleted s = None \<and> sb_status s \<noteq> status_cancelled \<longrightarrow> get_plan (sb_plan s) db \<noteq> None)"

definition one_trial :: "bill_db \<Rightarrow> bool" where
  "one_trial db \<longleftrightarrow> (\<forall>s \<in> set (bl_subs db). \<forall>r \<in> set (bl_subs db). sb_tenant s = sb_tenant r \<longrightarrow>
     sb_trial s = sb_trial r \<and> (sb_status s = status_trial \<and> sb_status r = status_trial \<longrightarrow> s = r))"

definition bills_ok :: "(string \<Rightarrow> bool) \<Rightarrow> bill_db \<Rightarrow> bool" where
  "bills_ok money db \<longleftrightarrow> rows_fit money db \<and> rows_distinct db \<and> one_live db \<and> plans_there db \<and> one_trial db"

lemma bills_okD:
  assumes "bills_ok money db"
  shows "rows_fit money db" "rows_distinct db" "one_live db" "plans_there db" "one_trial db"
  using assms by (simp_all add: bills_ok_def)

lemma current_sub_iff:
  assumes "one_live db"
  shows "current_sub t db = Some s \<longleftrightarrow> s \<in> set (bl_subs db) \<and> sb_tenant s = t \<and> sb_deleted s = None"
proof
  assume s: "s \<in> set (bl_subs db) \<and> sb_tenant s = t \<and> sb_deleted s = None"
  then obtain r where r: "current_sub t db = Some r"
    unfolding current_sub_def by (cases "List.find (\<lambda>s. sb_tenant s = t \<and> sb_deleted s = None) (bl_subs db)") (auto simp: find_None_iff)
  with current_sub_D [OF r] s assms show "current_sub t db = Some s" by (auto simp: one_live_def)
qed (auto dest: current_sub_D)

lemma current_sub_None:
  "current_sub t db = None \<longleftrightarrow> (\<forall>s \<in> set (bl_subs db). \<not> (sb_tenant s = t \<and> sb_deleted s = None))"
  by (auto simp: current_sub_def find_None_iff)

definition put_row :: "bill_sub \<Rightarrow> bill_db \<Rightarrow> bill_db" where
  "put_row v db = db\<lparr>bl_subs := map (\<lambda>r. if sb_id r = sb_id v then v else r) (bl_subs db)\<rparr>"

definition add_row :: "bill_sub \<Rightarrow> bill_db \<Rightarrow> bill_db" where
  "add_row v db = db\<lparr>bl_subs := bl_subs db @ [v]\<rparr>"

definition tell :: "uuid \<Rightarrow> bill_event option \<Rightarrow> bill_db \<Rightarrow> bill_db" where
  "tell t ev db = (case ev of None \<Rightarrow> db | Some e \<Rightarrow> publish_bill t e db)"

lemma tell_simps [simp]:
  "tell t None db = db" "tell t (Some e) db = publish_bill t e db"
  "bl_subs (tell t ev db) = bl_subs db" "bl_plans (tell t ev db) = bl_plans db"
  "bl_plans (put_row v db) = bl_plans db" "bl_log (put_row v db) = bl_log db"
  "bl_plans (add_row v db) = bl_plans db" "bl_log (add_row v db) = bl_log db"
  "bl_subs (publish_bill t e db) = bl_subs db" "bl_plans (publish_bill t e db) = bl_plans db"
  by (simp_all add: tell_def put_row_def add_row_def publish_bill_def split: option.split)

lemma publish_log [simp]: "bl_log (publish_bill t e db) = bl_log db @ [(t, e)]"
  by (simp add: publish_bill_def)

lemma add_row_set [simp]: "set (bl_subs (add_row v db)) = insert v (set (bl_subs db))"
  by (simp add: add_row_def)

lemma get_plan_cong: "bl_plans db' = bl_plans db \<Longrightarrow> get_plan i db' = get_plan i db"
  by (simp add: get_plan_def)

lemma update_sub_put:
  assumes db: "rows_distinct db" and s: "s \<in> set (bl_subs db)" "sb_tenant s = t" "sb_deleted s = None"
    and q: "sub_fit money q" "sb_id q = sb_id s" "sb_tenant q = sb_tenant s"
    and copy: "(copy (q\<lparr>sb_updated := now\<rparr>) s)\<lparr>sb_updated := now\<rparr> = q\<lparr>sb_updated := now\<rparr>"
  shows "update_sub money now t copy q db = Inr (put_row (q\<lparr>sb_updated := now\<rparr>) db, q\<lparr>sb_updated := now\<rparr>)"
proof -
  let ?q = "q\<lparr>sb_updated := now\<rparr>"
  have "q\<lparr>sb_tenant := t\<rparr> = q" using q(3) s(2) by simp
  then have v: "validate_sub money (q\<lparr>sb_tenant := t\<rparr>) = Inr q" using q(1) by (simp add: sub_fit_def)
  have "sb_id s \<noteq> uuid_nil" using db s(1) by (auto simp: rows_distinct_def)
  then have ours: "\<not> not_ours t (sb_id q) (sb_tenant q)" using q(2,3) s(2) by (simp add: not_ours_def)
  have one: "sb_id r = sb_id s \<longleftrightarrow> r = s" if "r \<in> set (bl_subs db)" for r
    using db s(1) that by (auto simp: rows_distinct_def distinct_map dest: inj_onD)
  have "map (\<lambda>r. if sb_id r = sb_id ?q \<and> sb_tenant r = t \<and> sb_deleted r = None then (copy ?q r)\<lparr>sb_updated := now\<rparr> else r) (bl_subs db)
      = map (\<lambda>r. if sb_id r = sb_id ?q then ?q else r) (bl_subs db)"
    using one s q(2) copy by (intro map_cong) auto
  moreover have "list_ex (\<lambda>r. sb_id r = sb_id ?q \<and> sb_tenant r = t \<and> sb_deleted r = None) (bl_subs db)"
    using s q(2) by (auto simp: list_ex_iff)
  ultimately show ?thesis using v ours q(2,3) s(2) by (simp add: update_sub_def put_row_def Let_def)
qed

text \<open>What one call answers: a refusal, the row as it is, a charge, a move of the row, or the first row.\<close>

inductive bill_turn ::
    "(string \<Rightarrow> bool) \<Rightarrow> (uuid \<Rightarrow> string) \<Rightarrow> time \<Rightarrow> uuid \<Rightarrow> bill_call \<Rightarrow> bill_db
      \<Rightarrow> bill_error + (bill_db \<times> bill_sub \<times> bill_charge option) \<Rightarrow> bool"
  for money :: "string \<Rightarrow> bool" and us :: "uuid \<Rightarrow> string" and now :: time and t :: uuid and call :: bill_call and db :: bill_db where
  refused: "bill_turn money us now t call db (Inl e)"
    if "e = BillNotFound \<and> current_sub t db = None \<or> e \<in> {BillNotFound, BillInvalid NoPlanNamed} \<and> (\<exists>new i. call = AskSubscribe new i)
        \<or> (\<exists>w. e = BillConflict w)"
| same: "bill_turn money us now t call db (Inr (db, s, None))"
    if "current_sub t db = Some s"
| charged: "bill_turn money us now t call db (Inr (db, s, Some (charge_of us p s)))"
    if "current_sub t db = Some s" "call = AskRenew" "get_plan (sb_plan s) db = Some p"
      "sb_status s \<noteq> status_cancelled" "run_out now s" "\<not> sb_leaving s" "\<not> grace_expired now s" "sb_price s \<noteq> 0"
| moved: "bill_turn money us now t call db (Inr (tell t ev (put_row (v\<lparr>sb_updated := now\<rparr>) db), v\<lparr>sb_updated := now\<rparr>, None))"
    if "current_sub t db = Some s" "bill_move db now call s v ev"
| added: "bill_turn money us now t call db
        (Inr (publish_bill t (SubSubscribed new i (bp_code p) (sb_status v) (sb_end v) now) (add_row v db), v, None))"
    if "call = AskSubscribe new i" "current_sub t db = None" "get_plan i db = Some p" "bp_active p" "i \<noteq> uuid_nil"
      "new \<notin> sb_id ` set (bl_subs db)"
      "v = (new_sub i now (trial_used_at t db) p)\<lparr>sb_id := new, sb_tenant := t, sb_created := now, sb_updated := now\<rparr>"
      "sub_fit money v"

lemma moved_update:
  assumes ok: "bills_ok money db" and s: "current_sub t db = Some s" and m: "bill_move db now call s v ev"
    and copy: "(copy (v\<lparr>sb_updated := now\<rparr>) s)\<lparr>sb_updated := now\<rparr> = v\<lparr>sb_updated := now\<rparr>"
  shows "update_sub money now t copy v db = Inr (put_row (v\<lparr>sb_updated := now\<rparr>) db, v\<lparr>sb_updated := now\<rparr>)"
proof (rule update_sub_put)
  note fit = bills_okD(1) [OF ok, unfolded rows_fit_def]
  show "sub_fit money v"
    using fit current_sub_D(1) [OF s] get_plan_D(1) by (intro bill_move_fit [OF m]) blast+
qed (use bills_okD(2) [OF ok] current_sub_D [OF s] bill_move_frame [OF m] copy in simp_all)

lemma cancel_turn:
  assumes ok: "bills_ok money db"
  shows "bill_turn money us now t (AskCancel later) db (no_charge (cancel_sub money now t later db))"
proof (cases "current_sub t db")
  case None
  then show ?thesis by (auto simp: cancel_sub_def no_charge_def intro: bill_turn.refused)
next
  case (Some s)
  note id = bill_move_frame
  show ?thesis
  proof (cases later)
    case True
    show ?thesis
    proof (cases "sb_status s = status_cancelled \<or> sb_leaving s")
      case True
      then show ?thesis using Some \<open>later\<close>
        by (auto simp: cancel_sub_def cancel_later_def no_charge_def intro: bill_turn.refused bill_turn.same)
    next
      case False
      then have m: "bill_move db now (AskCancel later) s (s\<lparr>sb_leaving := True\<rparr>) (Some (SubCancelled (sb_id s) (sb_end s) False '''' now))"
        using \<open>later\<close> by (auto intro: bill_move.leaves)
      from bill_turn.moved [OF Some m, of money us] moved_update [OF ok Some m, of write_leaving] show ?thesis
        using False Some \<open>later\<close> by (simp add: cancel_sub_def cancel_later_def no_charge_def write_leaving_def)
    qed
  next
    case False
    show ?thesis
    proof (cases "sb_status s = status_cancelled \<or> outstanding s \<noteq> None")
      case True
      then show ?thesis using Some \<open>\<not> later\<close>
        by (auto simp: cancel_sub_def cancel_now_def no_charge_def intro: bill_turn.refused bill_turn.same)
    next
      case False
      then have m: "bill_move db now (AskCancel later) s (s\<lparr>sb_status := status_cancelled, sb_leaving := False\<rparr>)
          (Some (SubCancelled (sb_id s) now True '''' now))"
        using \<open>\<not> later\<close> by (auto intro: bill_move.stops)
      from bill_turn.moved [OF Some m, of money us] moved_update [OF ok Some m, of "\<lambda>s r. write_leaving s (write_status s r)"]
      show ?thesis
        using False Some \<open>\<not> later\<close> by (simp add: cancel_sub_def cancel_now_def no_charge_def write_leaving_def write_status_def)
    qed
  qed
qed

lemma plan_of_current:
  assumes "bills_ok money db" and "current_sub t db = Some s" and "sb_status s \<noteq> status_cancelled"
  obtains p where "get_plan (sb_plan s) db = Some p" "plan_of s db = Inr p"
  using bills_okD(4) [OF assms(1)] current_sub_D [OF assms(2)] assms(3)
  by (auto simp: plans_there_def plan_of_def)

lemma end_turn:
  assumes ok: "bills_ok money db" and s: "current_sub t db = Some s"
    and m: "bill_move db now call s (s\<lparr>sb_status := status_cancelled\<rparr>) ev"
  shows "end_sub money now t s db =
    Inr (put_row (s\<lparr>sb_status := status_cancelled, sb_updated := now\<rparr>) db, s\<lparr>sb_status := status_cancelled, sb_updated := now\<rparr>)"
  using moved_update [OF ok s m, of write_status] by (simp add: end_sub_def write_status_def)

lemma advance_turn:
  assumes ok: "bills_ok money db" and s: "current_sub t db = Some s"
    and m: "bill_move db now call s (next_period p s) ev"
    and ev: "ev = Some (SubRenewed (sb_id s) (sb_end s) (sb_end (next_period p s)) receipt now)"
  shows "advance_sub money now t p receipt s db =
    Inr (tell t ev (put_row ((next_period p s)\<lparr>sb_updated := now\<rparr>) db), (next_period p s)\<lparr>sb_updated := now\<rparr>)"
  using moved_update [OF ok s m, of "\<lambda>s r. write_dunning s (write_period s (write_status s r))"]
  by (simp add: advance_sub_def write_dunning_def write_period_def write_status_def next_period_def ev)

lemma renew_turn:
  assumes ok: "bills_ok money db"
  shows "bill_turn money us now t AskRenew db (renew money us now t db)"
proof (cases "current_sub t db")
  case None
  then show ?thesis by (auto simp: renew_def intro: bill_turn.refused)
next
  case (Some s)
  show ?thesis
  proof (cases "sb_status s = status_cancelled \<or> \<not> run_out now s")
    case True
    then show ?thesis using Some by (auto simp: renew_def intro: bill_turn.same)
  next
    case on: False
    then obtain p where p: "get_plan (sb_plan s) db = Some p" "plan_of s db = Inr p"
      using plan_of_current [OF ok Some] by blast
    consider "sb_leaving s" | "\<not> sb_leaving s" "grace_expired now s"
      | "\<not> sb_leaving s" "\<not> grace_expired now s" "sb_price s = 0"
      | "\<not> sb_leaving s" "\<not> grace_expired now s" "sb_price s \<noteq> 0" by blast
    then show ?thesis
    proof cases
      case 1
      then have m: "bill_move db now AskRenew s (s\<lparr>sb_status := status_cancelled\<rparr>) None"
        using on by (auto intro: bill_move.lapses)
      from bill_turn.moved [OF Some m, of money us] end_turn [OF ok Some m] show ?thesis
        using on 1 Some by (simp add: renew_def)
    next
      case 2
      then have m: "bill_move db now AskRenew s (s\<lparr>sb_status := status_cancelled\<rparr>)
          (Some (SubCancelled (sb_id s) now True cancelled_by_dunning now))"
        using on by (auto intro: bill_move.dunned)
      from bill_turn.moved [OF Some m, of money us] end_turn [OF ok Some m] show ?thesis
        using on 2 Some by (simp add: renew_def)
    next
      case 3
      then have m: "bill_move db now AskRenew s (next_period p s)
          (Some (SubRenewed (sb_id s) (sb_end s) (sb_end (next_period p s)) '''' now))"
        using on p by (auto intro: bill_move.free)
      from bill_turn.moved [OF Some m, of money us] advance_turn [OF ok Some m refl] show ?thesis
        using on 3 Some p by (simp add: renew_def)
    next
      case 4
      then show ?thesis using on Some p by (auto simp: renew_def intro!: bill_turn.charged)
    qed
  qed
qed

lemma settle_turn:
  assumes ok: "bills_ok money db"
  shows "bill_turn money us now t (AskSettle c r) db (no_charge (settle money now t c r db))"
proof (cases "current_sub t db")
  case None
  then show ?thesis by (auto simp: settle_def no_charge_def intro: bill_turn.refused)
next
  case (Some s)
  show ?thesis
  proof (cases "sb_id s \<noteq> bc_subject c \<or> sb_end s \<noteq> bc_end c \<or> sb_status s = status_cancelled")
    case True
    then show ?thesis using Some by (auto simp: settle_def no_charge_def intro: bill_turn.same)
  next
    case on: False
    then have c: "bc_subject c = sb_id s" "bc_end c = sb_end s" "sb_status s \<noteq> status_cancelled" by auto
    obtain p where p: "get_plan (sb_plan s) db = Some p" "plan_of s db = Inr p"
      using plan_of_current [OF ok Some c(3)] by blast
    consider "br_settled r" | "\<not> br_settled r" "br_pending r" | "\<not> br_settled r" "\<not> br_pending r" by blast
    then show ?thesis
    proof cases
      case 1
      have m: "bill_move db now (AskSettle c r) s (next_period p s)
          (Some (SubRenewed (sb_id s) (sb_end s) (sb_end (next_period p s)) (br_reference r) now))"
        by (rule bill_move.paid [OF c(3,1,2) 1 p(1)])
      from bill_turn.moved [OF Some m, of money us] advance_turn [OF ok Some m refl] show ?thesis
        using on 1 Some p by (simp add: settle_def no_charge_def)
    next
      case 2
      then show ?thesis using on Some by (auto simp: settle_def no_charge_def intro: bill_turn.same)
    next
      case 3
      note m = bill_move.refused [OF c(3,1,2) 3 refl, of db now]
      from bill_turn.moved [OF Some m, of money us]
        moved_update [OF ok Some m, of "\<lambda>s r. write_dunning s (write_status s r)"] show ?thesis
        using on 3 Some
        by (cases "sb_status s = status_past_due")
          (simp_all add: settle_def no_charge_def write_dunning_def write_status_def refused_once_def)
    qed
  qed
qed

text \<open>The second enrollment, of a subscription that ended and of one that runs.\<close>

lemma again_back:
  fixes i :: uuid and now :: time and p :: bill_plan
  assumes ok: "bills_ok money db" and s: "current_sub t db = Some s"
    and m: "bill_move db now (AskSubscribe new i) s (come_back now p (s\<lparr>sb_plan := i, sb_leaving := False\<rparr>)) ev"
    and p: "sb_status s = status_cancelled" "bp_id p = i"
  defines "v \<equiv> (come_back now p (s\<lparr>sb_plan := i, sb_leaving := False\<rparr>))\<lparr>sb_updated := now\<rparr>"
  shows "subscribe_again money now t i p s db =
    Inr (publish_bill t (SubSubscribed (sb_id s) i (bp_code p) (sb_status v) (sb_end v) now) (put_row v db), v)"
proof -
  let ?s = "s\<lparr>sb_plan := i, sb_leaving := False\<rparr>"
  have "(come_back_columns ?s v s)\<lparr>sb_updated := now\<rparr> = v"
    by (simp add: v_def come_back_columns_def come_back_def Let_def write_defs outstanding_def split: option.split)
  with moved_update [OF ok s m, of "come_back_columns ?s"] show ?thesis
    using p bill_move_frame [OF m] by (simp add: subscribe_again_def publish_subscribed_def Let_def v_def)
qed

lemma again_enrol:
  fixes i :: uuid and now :: time
  assumes ok: "bills_ok money db" and s: "current_sub t db = Some s"
    and m: "bill_move db now (AskSubscribe new i) s (s\<lparr>sb_plan := i, sb_leaving := False\<rparr>) ev"
    and p: "sb_status s \<noteq> status_cancelled" "bp_id p = i"
  defines "v \<equiv> s\<lparr>sb_plan := i, sb_leaving := False, sb_updated := now\<rparr>"
  shows "subscribe_again money now t i p s db =
    Inr (publish_bill t (SubSubscribed (sb_id s) i (bp_code p) (sb_status s) (sb_end s) now) (put_row v db), v)"
  using moved_update [OF ok s m, of write_enrollment] p
  by (simp add: subscribe_again_def publish_subscribed_def Let_def v_def write_enrollment_def)

lemma subscribe_again_turn:
  assumes ok: "bills_ok money db" and s: "current_sub t db = Some s" and p: "get_plan i db = Some p" "bp_active p" "i \<noteq> uuid_nil"
    and on: "\<not> (sb_plan s = i \<and> sb_status s \<noteq> status_cancelled \<and> \<not> sb_leaving s)"
      "\<not> (outstanding s \<noteq> None \<and> sb_plan s \<noteq> i)"
  shows "bill_turn money us now t (AskSubscribe new i) db (no_charge (subscribe_again money now t i p s db))"
proof (cases "sb_status s = status_cancelled")
  case True
  have m: "bill_move db now (AskSubscribe new i) s (come_back now p (s\<lparr>sb_plan := i, sb_leaving := False\<rparr>))
      (Some (SubSubscribed (sb_id s) i (bp_code p) (sb_status (come_back now p (s\<lparr>sb_plan := i, sb_leaving := False\<rparr>)))
        (sb_end (come_back now p (s\<lparr>sb_plan := i, sb_leaving := False\<rparr>))) now))"
    by (rule bill_move.comes_back [OF True _ p refl]) (use on(2) in auto)
  from bill_turn.moved [OF s m, of money us] again_back [OF ok s m True get_plan_D(2) [OF p(1)]] show ?thesis
    by (simp add: no_charge_def)
next
  case False
  have m: "bill_move db now (AskSubscribe new i) s (s\<lparr>sb_plan := i, sb_leaving := False\<rparr>)
      (Some (SubSubscribed (sb_id s) i (bp_code p) (sb_status s) (sb_end s) now))"
    by (rule bill_move.enrol [OF False _ _ p]) (use on False in auto)
  from bill_turn.moved [OF s m, of money us] again_enrol [OF ok s m False get_plan_D(2) [OF p(1)]] show ?thesis
    by (simp add: no_charge_def)
qed

lemma first_row:
  fixes new i :: uuid and now :: time and p :: bill_plan and t :: uuid
  assumes s: "current_sub t db = None" and p: "get_plan i db = Some p" "i \<noteq> uuid_nil" and fit: "plan_fit money p"
  defines "v \<equiv> (new_sub i now (trial_used_at t db) p)\<lparr>sb_id := new, sb_tenant := t, sb_created := now, sb_updated := now\<rparr>"
  shows "sub_fit money v"
    "subscribe_first money new now t i p db =
      (if new \<in> sb_id ` set (bl_subs db) then Inl (BillConflict OneKey)
       else Inr (publish_bill t (SubSubscribed new i (bp_code p) (sb_status v) (sb_end v) now) (add_row v db), v))"
proof -
  let ?q = "(new_sub i now (trial_used_at t db) p)\<lparr>sb_id := new, sb_tenant := t, sb_deleted := None\<rparr>"
  have q: "sub_fit money ?q"
    using plan_fit_D [OF fit] p(2) anchor_of_bounds [of now] back_from_before [of now "bp_interval p"]
      advance_date_later [of now "bp_interval p"]
    by (auto simp: sub_fit_iff new_sub_def Let_def split: option.split)
  then show "sub_fit money v" by (simp add: sub_fit_iff v_def)
  have valid: "validate_sub money ?q = Inr ?q" using q by (simp add: sub_fit_def)
  have none: "\<not> list_ex (\<lambda>r. sb_tenant r = t \<and> sb_deleted r = None) (bl_subs db)"
    using s by (auto simp: current_sub_None list_ex_iff)
  have v: "?q\<lparr>sb_created := now, sb_updated := now\<rparr> = v"
    by (simp add: v_def new_sub_def Let_def split: option.split)
  have taken: "list_ex (\<lambda>r. sb_id r = new) (bl_subs db) \<longleftrightarrow> new \<in> sb_id ` set (bl_subs db)"
    by (auto simp: list_ex_iff)
  have "sb_id v = new" by (simp add: v_def)
  then show "subscribe_first money new now t i p db =
      (if new \<in> sb_id ` set (bl_subs db) then Inl (BillConflict OneKey)
       else Inr (publish_bill t (SubSubscribed new i (bp_code p) (sb_status v) (sb_end v) now) (add_row v db), v))"
    using valid none taken get_plan_D(2) [OF p(1)] v
    by (simp add: subscribe_first_def create_sub_def Let_def publish_subscribed_def add_row_def)
qed

lemma subscribe_first_turn:
  assumes s: "current_sub t db = None" and p: "get_plan i db = Some p" "bp_active p" "i \<noteq> uuid_nil" and fit: "plan_fit money p"
  shows "bill_turn money us now t (AskSubscribe new i) db (no_charge (subscribe_first money new now t i p db))"
proof (cases "new \<in> sb_id ` set (bl_subs db)")
  case True
  then show ?thesis using first_row(2) [OF s p(1,3) fit] by (auto simp: no_charge_def intro: bill_turn.refused)
next
  case False
  from bill_turn.added [OF refl s p False refl first_row(1) [OF s p(1,3) fit], of us] first_row(2) [OF s p(1,3) fit] False
  show ?thesis by (simp add: no_charge_def)
qed

lemma bill_ask_turn:
  assumes ok: "bills_ok money db"
  shows "bill_turn money us now t call db (bill_ask money us now t call db)"
proof (cases call)
  case (AskSubscribe new i)
  have fit: "plan_fit money p" if "get_plan i db = Some p" for p
    using bills_okD(1) [OF ok] get_plan_D(1) [OF that] by (simp add: rows_fit_def)
  have "bill_turn money us now t (AskSubscribe new i) db (no_charge (subscribe money new now t i db))"
  proof (cases "i = uuid_nil \<or> get_plan i db = None \<or> \<not> bp_active (the (get_plan i db))")
    case True
    then show ?thesis
      by (auto simp: subscribe_def no_charge_def intro!: bill_turn.refused split: option.splits)
  next
    case False
    then obtain p where p: "get_plan i db = Some p" "bp_active p" "i \<noteq> uuid_nil" by auto
    show ?thesis
    proof (cases "current_sub t db")
      case None
      then show ?thesis using subscribe_first_turn [OF None p fit [OF p(1)]] p by (simp add: subscribe_def)
    next
      case (Some s)
      then show ?thesis using subscribe_again_turn [OF ok Some p] p
        by (auto simp: subscribe_def no_charge_def intro: bill_turn.same bill_turn.refused)
    qed
  qed
  then show ?thesis using AskSubscribe by simp
qed (simp_all add: cancel_turn [OF ok] renew_turn [OF ok] settle_turn [OF ok])

end
