(* ===== verification/BillingRuns.thy ===== *)
theory BillingRuns
  imports BillingRows
begin

section \<open>Runs of calls over one installation\<close>

text \<open>
  Any sequence of calls: of any tenants, of the operator who maintains the catalogue, and of the job that
  brings receipts for charges it was given.  Each call comes at an instant later than the one before it
  (\<open>db.Now\<close> counts microseconds and a command is a transaction).  \<open>bw_due\<close> are the charges answered so
  far and \<open>bw_taken\<close> the receipts brought; the code keeps neither.
\<close>

datatype bill_act =
    Tenant uuid bill_call
  | MakePlan uuid uuid bill_plan
  | SavePlan uuid uuid "bill_plan \<Rightarrow> bill_plan"
  | DropPlan uuid uuid bool
  | RemoveSub uuid

record bill_world =
  bw_db :: bill_db
  bw_clock :: time
  bw_due :: "bill_charge list"
  bw_taken :: "(bill_charge \<times> bill_receipt) list"

definition fresh_bills :: "time \<Rightarrow> bill_world" where
  "fresh_bills c = \<lparr>bw_db = empty_bills, bw_clock = c, bw_due = [], bw_taken = []\<rparr>"

definition kept_db :: "'d \<Rightarrow> bill_error + ('d \<times> 'a) \<Rightarrow> 'd" where
  "kept_db db a = (case a of Inl _ \<Rightarrow> db | Inr (db', _) \<Rightarrow> db')"

fun bill_step ::
    "(string \<Rightarrow> bool) \<Rightarrow> (uuid \<Rightarrow> string) \<Rightarrow> time \<Rightarrow> bill_act \<Rightarrow> bill_world \<Rightarrow> bill_world" where
  "bill_step money us now (Tenant t call) w =
     (let a = bill_ask money us now t call (bw_db w)
      in w\<lparr>bw_db := kept_db (bw_db w) a, bw_clock := now,
           bw_due := bw_due w @ (case a of Inr (_, _, Some c) \<Rightarrow> [c] | _ \<Rightarrow> []),
           bw_taken := bw_taken w @ (case call of AskSettle c r \<Rightarrow> [(c, r)] | _ \<Rightarrow> [])\<rparr>)"
| "bill_step money us now (MakePlan new t q) w =
     w\<lparr>bw_db := kept_db (bw_db w) (create_plan money new now t q (bw_db w)), bw_clock := now\<rparr>"
| "bill_step money us now (SavePlan t i merge) w =
     w\<lparr>bw_db := kept_db (bw_db w) (update_plan money now t i merge (bw_db w)), bw_clock := now\<rparr>"
| "bill_step money us now (DropPlan t i conn) w =
     w\<lparr>bw_db := (case delete_plan conn now t i (bw_db w) of Inl _ \<Rightarrow> bw_db w | Inr db \<Rightarrow> db), bw_clock := now\<rparr>"
| "bill_step money us now (RemoveSub t) w =
     w\<lparr>bw_db := (case remove_sub now t (bw_db w) of Inl _ \<Rightarrow> bw_db w | Inr db \<Rightarrow> db), bw_clock := now\<rparr>"

text \<open>The job brings a receipt only for a charge it was given; an identifier made is not nil.\<close>

definition bill_allowed :: "bill_world \<Rightarrow> bill_act \<Rightarrow> bool" where
  "bill_allowed w act \<longleftrightarrow> (case act of
       Tenant t (AskSettle c r) \<Rightarrow> c \<in> set (bw_due w)
     | Tenant t (AskSubscribe new i) \<Rightarrow> new \<noteq> uuid_nil
     | _ \<Rightarrow> True)"

inductive bill_run ::
    "(string \<Rightarrow> bool) \<Rightarrow> (uuid \<Rightarrow> string) \<Rightarrow> bill_world \<Rightarrow> (time \<times> bill_act) list \<Rightarrow> bill_world \<Rightarrow> bool"
  for money :: "string \<Rightarrow> bool" and us :: "uuid \<Rightarrow> string" and w :: bill_world where
  none: "bill_run money us w [] w"
| more: "bill_run money us w (acts @ [(now, act)]) (bill_step money us now act v)"
    if "bill_run money us w acts v" "bw_clock v < now" "bill_allowed v act"

definition bill_reach :: "(string \<Rightarrow> bool) \<Rightarrow> (uuid \<Rightarrow> string) \<Rightarrow> bill_world \<Rightarrow> bool" where
  "bill_reach money us w \<longleftrightarrow> (\<exists>c acts. bill_run money us (fresh_bills c) acts w)"

lemma bill_run_trans:
  assumes "bill_run money us v acts' w" and "bill_run money us u acts v"
  shows "bill_run money us u (acts @ acts') w"
  using assms
proof (induction rule: bill_run.induct)
  case (more acts' x now act)
  then show ?case using bill_run.more [of money us u "acts @ acts'" x now act] by simp
qed simp

lemma bill_reach_run:
  assumes "bill_reach money us v" and "bill_run money us v acts w"
  shows "bill_reach money us w"
  using assms bill_run_trans unfolding bill_reach_def by blast

lemma bill_reach_induct [consumes 1, case_names new step]:
  assumes "bill_reach money us w"
    and "\<And>c. P (fresh_bills c)"
    and "\<And>v now act. bill_reach money us v \<Longrightarrow> P v \<Longrightarrow> bw_clock v < now \<Longrightarrow> bill_allowed v act \<Longrightarrow> P (bill_step money us now act v)"
  shows "P w"
proof -
  from assms(1) obtain c acts where "bill_run money us (fresh_bills c) acts w" by (auto simp: bill_reach_def)
  then show ?thesis
  proof (induction rule: bill_run.induct)
    case none
    then show ?case by (rule assms(2))
  next
    case (more acts v now act)
    then have "bill_reach money us v" by (auto simp: bill_reach_def)
    from assms(3) [OF this more.IH more.hyps(2,3)] show ?case .
  qed
qed

text \<open>The run as a function, for a concrete sequence.\<close>

fun bill_steps :: "(string \<Rightarrow> bool) \<Rightarrow> (uuid \<Rightarrow> string) \<Rightarrow> (time \<times> bill_act) list \<Rightarrow> bill_world \<Rightarrow> bill_world option" where
  "bill_steps money us [] w = Some w"
| "bill_steps money us ((now, act) # rest) w =
     (if bw_clock w < now \<and> bill_allowed w act then bill_steps money us rest (bill_step money us now act w) else None)"

lemma bill_steps_run: "bill_steps money us acts v = Some w \<Longrightarrow> bill_run money us v acts w"
proof (induction acts arbitrary: v)
  case Nil
  then show ?case by (auto intro: bill_run.none)
next
  case (Cons a acts)
  obtain now act where a: "a = (now, act)" by (cases a)
  with Cons.prems have ok: "bw_clock v < now" "bill_allowed v act" "bill_steps money us acts (bill_step money us now act v) = Some w"
    by (auto split: if_splits)
  have one: "bill_run money us v [a] (bill_step money us now act v)"
    using bill_run.more [OF bill_run.none, of v now act money us] ok a by simp
  from bill_run_trans [OF Cons.IH [OF ok(3)] one] show ?case by simp
qed

subsection \<open>What a call does to the tables\<close>

text \<open>
  A call of a tenant, seen from the rows: nothing, a charge, a move of the tenant's row, or its first
  row; a call of the operator leaves the rows of subscriptions as they are.
\<close>

inductive row_step ::
    "(string \<Rightarrow> bool) \<Rightarrow> (uuid \<Rightarrow> string) \<Rightarrow> time \<Rightarrow> bill_act \<Rightarrow> bill_world \<Rightarrow> bill_world \<Rightarrow> bool"
  for money :: "string \<Rightarrow> bool" and us :: "uuid \<Rightarrow> string" and now :: time and act :: bill_act and w :: bill_world where
  quiet: "row_step money us now act w (w\<lparr>bw_clock := now, bw_taken := bw_taken w @ taken\<rparr>)"
    if "taken = [] \<or> (\<exists>t c r. act = Tenant t (AskSettle c r) \<and> taken = [(c, r)])"
| charged: "row_step money us now act w (w\<lparr>bw_clock := now, bw_due := bw_due w @ [charge_of us p s]\<rparr>)"
    if "act = Tenant t AskRenew" "current_sub t (bw_db w) = Some s" "get_plan (sb_plan s) (bw_db w) = Some p"
      "sb_status s \<noteq> status_cancelled" "run_out now s" "\<not> sb_leaving s" "\<not> grace_expired now s" "sb_price s \<noteq> 0"
| moved: "row_step money us now act w
        (w\<lparr>bw_db := tell t ev (put_row (v\<lparr>sb_updated := now\<rparr>) (bw_db w)), bw_clock := now, bw_taken := bw_taken w @ taken\<rparr>)"
    if "act = Tenant t call" "current_sub t (bw_db w) = Some s" "bill_move (bw_db w) now call s v ev"
      "taken = (case call of AskSettle c r \<Rightarrow> [(c, r)] | _ \<Rightarrow> [])"
| added: "row_step money us now act w
        (w\<lparr>bw_db := publish_bill t (SubSubscribed new i (bp_code p) (sb_status v) (sb_end v) now) (add_row v (bw_db w)), bw_clock := now\<rparr>)"
    if "act = Tenant t (AskSubscribe new i)" "current_sub t (bw_db w) = None" "get_plan i (bw_db w) = Some p" "i \<noteq> uuid_nil"
      "new \<notin> sb_id ` set (bl_subs (bw_db w))"
      "v = (new_sub i now (trial_used_at t (bw_db w)) p)\<lparr>sb_id := new, sb_tenant := t, sb_created := now, sb_updated := now\<rparr>"
      "sub_fit money v"
| made: "row_step money us now act w
        (w\<lparr>bw_db := publish_bill t (PlanCreated (bp_id p)) ((bw_db w)\<lparr>bl_plans := bl_plans (bw_db w) @ [p]\<rparr>), bw_clock := now\<rparr>)"
    if "plan_fit money p" "bp_id p \<notin> bp_id ` set (bl_plans (bw_db w))"
| saved: "row_step money us now act w
        (w\<lparr>bw_db := publish_bill t (PlanUpdated i) ((bw_db w)\<lparr>bl_plans :=
             map (\<lambda>r. if bp_id r = i \<and> bp_deleted r = None then p else r) (bl_plans (bw_db w))\<rparr>), bw_clock := now\<rparr>)"
    if "plan_fit money p" "bp_id p = i" "bp_deleted p = None"
| dropped: "row_step money us now act w
        (w\<lparr>bw_db := publish_bill t (PlanDeleted i) ((bw_db w)\<lparr>bl_plans :=
             map (\<lambda>r. if bp_id r = i \<and> bp_deleted r = None then r\<lparr>bp_deleted := Some now\<rparr> else r) (bl_plans (bw_db w))\<rparr>), bw_clock := now\<rparr>)"
    if "\<And>s. s \<in> set (bl_subs (bw_db w)) \<Longrightarrow> sb_deleted s = None \<Longrightarrow> sb_status s \<noteq> status_cancelled \<Longrightarrow> sb_plan s \<noteq> i"
| removed: "row_step money us now act w
        (w\<lparr>bw_db := put_row (s\<lparr>sb_deleted := Some now\<rparr>) (bw_db w), bw_clock := now\<rparr>)"
    if "act = RemoveSub t" "current_sub t (bw_db w) = Some s"

lemma row_step_same: "row_step money us now act w (w\<lparr>bw_clock := now\<rparr>)"
  using row_step.quiet [of "[]" act money us now w] by simp

lemma tenant_row_step:
  assumes ok: "bills_ok money (bw_db w)"
  shows "row_step money us now (Tenant t call) w (bill_step money us now (Tenant t call) w)"
  using bill_ask_turn [OF ok, of us now t call]
proof (cases rule: bill_turn.cases)
  case (refused e)
  then show ?thesis
    using row_step.quiet [of "case call of AskSettle c r \<Rightarrow> [(c, r)] | _ \<Rightarrow> []" "Tenant t call" money us now w]
    by (auto simp: kept_db_def split: bill_call.splits)
next
  case (same s)
  then show ?thesis
    using row_step.quiet [of "case call of AskSettle c r \<Rightarrow> [(c, r)] | _ \<Rightarrow> []" "Tenant t call" money us now w]
    by (auto simp: kept_db_def split: bill_call.splits)
next
  case (charged s p)
  then show ?thesis using row_step.charged [OF refl, of t w s p now money us] by (simp add: kept_db_def)
next
  case (moved s ev v)
  then show ?thesis using row_step.moved [OF refl moved(2,3) refl, of money us] by (simp add: kept_db_def)
next
  case (added new i p v)
  then show ?thesis using row_step.added [OF refl added(3,4,6,7,8,9), of us] by (simp add: kept_db_def)
qed

lemma find_updated_id:
  assumes "distinct (map sb_id rows)" and "s \<in> set rows" and "sb_tenant s = t" and "sb_deleted s = None"
  shows "map (\<lambda>r. if sb_id r = sb_id s \<and> sb_tenant r = t \<and> sb_deleted r = None then f r else r) rows
    = map (\<lambda>r. if sb_id r = sb_id s then f s else r) rows"
proof -
  have "sb_id r = sb_id s \<longleftrightarrow> r = s" if "r \<in> set rows" for r
    using assms(1,2) that by (metis distinct_map inj_onD)
  then show ?thesis using assms(3,4) by (intro map_cong) auto
qed

lemma row_step:
  assumes ok: "bills_ok money (bw_db w)"
  shows "row_step money us now act w (bill_step money us now act w)"
proof (cases act)
  case (Tenant t call)
  with tenant_row_step [OF ok] show ?thesis by simp
next
  case (MakePlan new t q)
  show ?thesis
  proof (cases "create_plan money new now t q (bw_db w)")
    case (Inl e)
    then show ?thesis using row_step_same MakePlan by (simp add: kept_db_def)
  next
    case (Inr a)
    then obtain v where v: "validate_plan money (q\<lparr>bp_id := new, bp_tenant := t, bp_deleted := None\<rparr>) = Inr v"
        "new \<notin> bp_id ` set (bl_plans (bw_db w))"
        "a = (publish_bill t (PlanCreated new) ((bw_db w)\<lparr>bl_plans := bl_plans (bw_db w) @ [v\<lparr>bp_created := now, bp_updated := now\<rparr>]\<rparr>),
              v\<lparr>bp_created := now, bp_updated := now\<rparr>)"
      by (auto simp: create_plan_def Let_def list_ex_iff split: sum.splits if_splits)
    have fit: "plan_fit money (v\<lparr>bp_created := now, bp_updated := now\<rparr>)"
      using validate_plan_fit [OF v(1)] by (rule plan_fit_stamp)
    have id: "bp_id v = new" using validate_plan_id [OF v(1)] by simp
    from row_step.made [of money "v\<lparr>bp_created := now, bp_updated := now\<rparr>" w us now act t] fit v(2) id Inr MakePlan v(3)
    show ?thesis by (simp add: kept_db_def)
  qed
next
  case (SavePlan t i merge)
  show ?thesis
  proof (cases "update_plan money now t i merge (bw_db w)")
    case (Inl e)
    then show ?thesis using row_step_same SavePlan by (simp add: kept_db_def)
  next
    case (Inr a)
    then obtain row v where v: "validate_plan money ((merge row)\<lparr>bp_id := i, bp_tenant := t, bp_created := bp_created row, bp_deleted := None\<rparr>) = Inr v"
        "a = (publish_bill t (PlanUpdated i) ((bw_db w)\<lparr>bl_plans :=
                map (\<lambda>r. if bp_id r = i \<and> bp_deleted r = None then v\<lparr>bp_updated := now\<rparr> else r) (bl_plans (bw_db w))\<rparr>),
              v\<lparr>bp_updated := now\<rparr>)"
      by (auto simp: update_plan_def Let_def split: sum.splits if_splits option.splits)
    have fit: "plan_fit money (v\<lparr>bp_updated := now\<rparr>)"
      using plan_fit_stamp [OF validate_plan_fit [OF v(1)], where c = "bp_created v" and u = now] by simp
    have id: "bp_id v = i" "bp_deleted v = None" using validate_plan_id [OF v(1)] by simp_all
    from row_step.saved [of money "v\<lparr>bp_updated := now\<rparr>" i us now act w t] fit id Inr SavePlan v(2)
    show ?thesis by (simp add: kept_db_def)
  qed
next
  case (DropPlan t i conn)
  show ?thesis
  proof (cases "delete_plan conn now t i (bw_db w)")
    case (Inl e)
    then show ?thesis using row_step_same DropPlan by simp
  next
    case (Inr a)
    then obtain p where p: "get_plan i (bw_db w) = Some p"
        "filter (\<lambda>s. sb_plan s = bp_id p \<and> sb_status s \<noteq> status_cancelled \<and> sb_deleted s = None) (bl_subs (bw_db w)) = []"
        "a = publish_bill t (PlanDeleted i) ((bw_db w)\<lparr>bl_plans :=
             map (\<lambda>r. if bp_id r = i \<and> bp_deleted r = None then r\<lparr>bp_deleted := Some now\<rparr> else r) (bl_plans (bw_db w))\<rparr>)"
      by (auto simp: delete_plan_def refuse_while_subscribed_def Let_def split: option.splits if_splits)
    have "sb_plan s \<noteq> i" if "s \<in> set (bl_subs (bw_db w))" "sb_deleted s = None" "sb_status s \<noteq> status_cancelled" for s
      using p(2) that get_plan_D(2) [OF p(1)] by (auto simp: filter_empty_conv)
    from row_step.dropped [OF this, where us = us and money = money and act = act and now = now and t = t] Inr DropPlan p(3)
    show ?thesis by simp
  qed
next
  case (RemoveSub t)
  show ?thesis
  proof (cases "current_sub t (bw_db w)")
    case None
    then show ?thesis using row_step_same RemoveSub by (simp add: remove_sub_def)
  next
    case (Some s)
    have "remove_sub now t (bw_db w) = Inr (put_row (s\<lparr>sb_deleted := Some now\<rparr>) (bw_db w))"
      using Some find_updated_id [OF _ current_sub_D [OF Some], of "\<lambda>r. r\<lparr>sb_deleted := Some now\<rparr>"] bills_okD(2) [OF ok]
      by (simp add: remove_sub_def put_row_def rows_distinct_def)
    then show ?thesis using row_step.removed [OF RemoveSub Some, of money us now] RemoveSub by simp
  qed
qed

subsection \<open>The tables stay well formed\<close>

lemma put_row_subs:
  "bl_subs (put_row v db) = map (\<lambda>r. if sb_id r = sb_id v then v else r) (bl_subs db)"
  by (simp add: put_row_def)

lemma put_row_set: "r \<in> set (bl_subs (put_row v db)) \<Longrightarrow> r = v \<or> r \<in> set (bl_subs db) \<and> sb_id r \<noteq> sb_id v"
  by (auto simp: put_row_subs split: if_splits)

lemma put_row_ids: "map sb_id (bl_subs (put_row v db)) = map sb_id (bl_subs db)"
  by (simp add: put_row_subs comp_def)

lemma put_row_ok:
  assumes ok: "bills_ok money db" and s: "s \<in> set (bl_subs db)"
    and v: "sb_id v = sb_id s" "sb_tenant v = sb_tenant s" "sb_deleted v = None \<Longrightarrow> sb_deleted s = None" "sb_trial v = sb_trial s"
    and fit: "sub_fit money v" "sub_kept v"
    and plan: "sb_deleted v = None \<Longrightarrow> sb_status v \<noteq> status_cancelled \<Longrightarrow> get_plan (sb_plan v) db \<noteq> None"
    and trial: "sb_status v = status_trial \<Longrightarrow> sb_status s = status_trial"
  shows "bills_ok money (put_row v db)"
proof -
  note ok' = bills_okD [OF ok]
  have other: "r = s \<longleftrightarrow> sb_id r = sb_id s" if "r \<in> set (bl_subs db)" for r
    using ok'(2) s that by (auto simp: rows_distinct_def distinct_map dest: inj_onD)
  have plans: "get_plan i (put_row v db) = get_plan i db" for i by (rule get_plan_cong) simp
  have "rows_fit money (put_row v db)"
    using ok'(1) fit by (auto simp: rows_fit_def dest: put_row_set)
  moreover have "rows_distinct (put_row v db)"
  proof -
    have "sb_id ` set (bl_subs (put_row v db)) = sb_id ` set (bl_subs db)"
      by (metis put_row_ids list.set_map)
    then show ?thesis using ok'(2) by (simp add: rows_distinct_def put_row_ids)
  qed
  moreover have "one_live (put_row v db)"
    unfolding one_live_def
  proof (intro ballI impI)
    fix a b
    assume a: "a \<in> set (bl_subs (put_row v db))" "b \<in> set (bl_subs (put_row v db))"
      and l: "sb_deleted a = None \<and> sb_deleted b = None \<and> sb_tenant a = sb_tenant b"
    have live: "c = s" if "c \<in> set (bl_subs db)" "sb_deleted c = None" "sb_deleted v = None" "sb_tenant c = sb_tenant v" for c
      using ok'(3) s v that by (simp add: one_live_def)
    show "a = b"
      using put_row_set [OF a(1)] put_row_set [OF a(2)] l live v(1) ok'(3) by (auto simp: one_live_def)
  qed
  moreover have "plans_there (put_row v db)"
    using ok'(4) plan unfolding plans_there_def plans by (auto dest: put_row_set)
  moreover have "one_trial (put_row v db)"
    unfolding one_trial_def
  proof (intro ballI impI)
    fix a b
    assume a: "a \<in> set (bl_subs (put_row v db))" "b \<in> set (bl_subs (put_row v db))" and t: "sb_tenant a = sb_tenant b"
    have old: "sb_trial c = sb_trial d \<and> (sb_status c = status_trial \<and> sb_status d = status_trial \<longrightarrow> c = d)"
      if "c \<in> set (bl_subs db)" "d \<in> set (bl_subs db)" "sb_tenant c = sb_tenant d" for c d
      using ok'(5) [unfolded one_trial_def] that by blast
    show "sb_trial a = sb_trial b \<and> (sb_status a = status_trial \<and> sb_status b = status_trial \<longrightarrow> a = b)"
      using put_row_set [OF a(1)] put_row_set [OF a(2)]
    proof (elim disjE conjE)
      assume "a = v" "b \<in> set (bl_subs db)" "sb_id b \<noteq> sb_id v"
      then show ?thesis using old [OF s, of b] t v(1,2,4) trial by auto
    next
      assume "b = v" "a \<in> set (bl_subs db)" "sb_id a \<noteq> sb_id v"
      then show ?thesis using old [OF _ s, of a] t v(1,2,4) trial by auto
    next
      assume "a \<in> set (bl_subs db)" "b \<in> set (bl_subs db)"
      then show ?thesis using old t by blast
    qed simp
  qed
  ultimately show ?thesis by (simp add: bills_ok_def)
qed

lemma bill_move_trial: "bill_move db now call s v ev \<Longrightarrow> sb_status v = status_trial \<Longrightarrow> sb_status s = status_trial"
  by (induction rule: bill_move.induct) (auto simp: come_back_def next_period_def refused_once_def Let_def split: if_splits)

lemma bill_move_plan:
  assumes "bill_move db now call s v ev" and "plans_there db" and "s \<in> set (bl_subs db)" and "sb_deleted s = None"
    and "sb_status v \<noteq> status_cancelled"
  shows "get_plan (sb_plan v) db \<noteq> None"
  using assms
  by (induction rule: bill_move.induct)
    (auto simp: come_back_def next_period_def refused_once_def Let_def plans_there_def split: if_splits)

lemma tell_ok: "bills_ok money (tell t ev db) = bills_ok money db"
  by (simp add: bills_ok_def rows_fit_def rows_distinct_def one_live_def plans_there_def one_trial_def get_plan_def)

lemmas publish_ok = tell_ok [of _ _ "Some e" for e, simplified]

lemma stamp_fit:
  "sub_fit money (s\<lparr>sb_updated := u\<rparr>) = sub_fit money s" "sub_kept (s\<lparr>sb_updated := u\<rparr>) = sub_kept s"
  "sub_fit money (s\<lparr>sb_deleted := d\<rparr>) = sub_fit money s" "sub_kept (s\<lparr>sb_deleted := d\<rparr>) = sub_kept s"
  by (simp_all add: sub_fit_iff sub_kept_def)

lemma moved_ok:
  assumes ok: "bills_ok money db" and s: "current_sub t db = Some s" and m: "bill_move db now call s v ev"
  shows "bills_ok money (put_row (v\<lparr>sb_updated := now\<rparr>) db)"
proof -
  note fit = bills_okD(1) [OF ok, unfolded rows_fit_def] and s' = current_sub_D [OF s] and f = bill_move_frame [OF m]
  have "sub_fit money v" using fit s'(1) get_plan_D(1) by (intro bill_move_fit [OF m]) blast+
  moreover have "sub_kept v" using fit s'(1) by (intro bill_move_kept [OF m]) blast
  moreover have "get_plan (sb_plan v) db \<noteq> None" if "sb_status v \<noteq> status_cancelled"
    by (rule bill_move_plan [OF m bills_okD(4) [OF ok] s'(1,3) that])
  ultimately show ?thesis
    using f bill_move_trial [OF m] by (intro put_row_ok [OF ok s'(1)]) (simp_all add: stamp_fit)
qed

lemma fold_min_in: "fold min xs (x :: time) \<in> set (x # xs)"
proof (induction xs arbitrary: x)
  case (Cons y xs)
  show ?case using Cons [of "min y x"] by (auto simp: min_def split: if_splits)
qed simp

lemma trial_used_None:
  "trial_used_at t db = None \<Longrightarrow> s \<in> set (bl_subs db) \<Longrightarrow> sb_tenant s = t \<Longrightarrow> sb_trial s = None"
  by (cases "sb_trial s")
    (auto simp: trial_used_at_def List.map_filter_def filter_empty_conv split: list.splits)

lemma trial_used_Some:
  assumes "trial_used_at t db = Some x"
  obtains s where "s \<in> set (bl_subs db)" "sb_tenant s = t" "sb_trial s = Some x"
proof -
  define xs where "xs = List.map_filter sb_trial (filter (\<lambda>s. sb_tenant s = t) (bl_subs db))"
  obtain y ys where ys: "xs = y # ys" "x = fold min ys y"
    using assms by (auto simp: trial_used_at_def xs_def split: list.splits)
  with fold_min_in [of ys y] have "x \<in> set xs" by simp
  then show thesis using that by (auto simp: xs_def List.map_filter_def)
qed

lemma row_added_ok:
  assumes ok: "bills_ok money db" and none: "current_sub t db = None" and p: "get_plan i db = Some p"
    and new: "new \<notin> sb_id ` set (bl_subs db)" "new \<noteq> uuid_nil"
    and v: "v = (new_sub i now (trial_used_at t db) p)\<lparr>sb_id := new, sb_tenant := t, sb_created := now, sb_updated := now\<rparr>"
    and fit: "sub_fit money v"
  shows "bills_ok money (add_row v db)"
proof -
  note ok' = bills_okD [OF ok]
  have i: "bp_interval p \<in> set bill_intervals"
    using plan_fit_D(5) get_plan_D(1) [OF p] ok'(1) by (auto simp: rows_fit_def)
  have eqs: "sb_id v = new" "sb_tenant v = t" "sb_deleted v = None" "sb_plan v = i"
    unfolding v new_sub_def by (simp_all add: Let_def split: option.split)
  have st: "sb_status v = status_trial \<longleftrightarrow> trial_used_at t db = None"
    unfolding v new_sub_def by (auto simp: Let_def split: option.split)
  have kept: "sub_kept v"
    using anchor_of_bounds [of now] i unfolding v new_sub_def by (auto simp: sub_kept_def Let_def split: option.split)
  have set: "set (bl_subs (add_row v db)) = insert v (set (bl_subs db))" by (simp add: add_row_def)
  have mine: "sb_trial s = sb_trial v \<and> sb_status v \<noteq> status_trial" if s: "s \<in> set (bl_subs db)" "sb_tenant s = t" for s
  proof (cases "trial_used_at t db")
    case None
    with trial_used_None [OF None s] ok'(1) s show ?thesis by (auto simp: rows_fit_def sub_kept_def)
  next
    case (Some x)
    then obtain r where r: "r \<in> set (bl_subs db)" "sb_tenant r = t" "sb_trial r = Some x" by (rule trial_used_Some)
    have "sb_tenant s = sb_tenant r" using s r by simp
    then have "sb_trial s = sb_trial r" using ok'(5) [unfolded one_trial_def] s(1) r(1) by blast
    moreover have "sb_trial v = Some x" using Some unfolding v new_sub_def by (simp add: Let_def)
    ultimately show ?thesis using r st Some by simp
  qed
  have "rows_fit money (add_row v db)" using ok'(1) fit kept by (simp add: rows_fit_def set)
  moreover have "rows_distinct (add_row v db)"
    using ok'(2) new eqs(1) by (simp add: rows_distinct_def add_row_def)
  moreover have "one_live (add_row v db)"
    using ok'(3) none eqs unfolding one_live_def set current_sub_None by (metis insert_iff)
  moreover have "plans_there (add_row v db)"
    using ok'(4) p eqs unfolding plans_there_def set by (auto simp: get_plan_def)
  moreover have "one_trial (add_row v db)"
    using ok'(5) mine eqs(2) unfolding one_trial_def set by (metis insert_iff)
  ultimately show ?thesis by (simp add: bills_ok_def)
qed

lemma plans_ok:
  assumes ok: "bills_ok money db" and subs: "bl_subs db' = bl_subs db"
    and fit: "\<And>p. p \<in> set (bl_plans db') \<Longrightarrow> plan_fit money p" and ids: "distinct (map bp_id (bl_plans db'))"
    and there: "\<And>s. s \<in> set (bl_subs db) \<Longrightarrow> sb_deleted s = None \<Longrightarrow> sb_status s \<noteq> status_cancelled
      \<Longrightarrow> get_plan (sb_plan s) db \<noteq> None \<Longrightarrow> get_plan (sb_plan s) db' \<noteq> None"
  shows "bills_ok money db'"
  using bills_okD [OF ok] fit ids there
  unfolding bills_ok_def rows_fit_def rows_distinct_def one_live_def plans_there_def one_trial_def subs by blast

lemma get_plan_None: "get_plan i db = None \<longleftrightarrow> (\<forall>p \<in> set (bl_plans db). \<not> (bp_id p = i \<and> bp_deleted p = None))"
  by (auto simp: get_plan_def find_None_iff)

lemma map_plans_ok:
  assumes ok: "bills_ok money db" and f: "\<And>p. p \<in> set (bl_plans db) \<Longrightarrow> bp_id (f p) = bp_id p \<and> plan_fit money (f p)"
    and there: "\<And>s p. s \<in> set (bl_subs db) \<Longrightarrow> sb_deleted s = None \<Longrightarrow> sb_status s \<noteq> status_cancelled
      \<Longrightarrow> p \<in> set (bl_plans db) \<Longrightarrow> bp_id p = sb_plan s \<Longrightarrow> bp_deleted p = None \<Longrightarrow> bp_deleted (f p) = None"
  shows "bills_ok money (db\<lparr>bl_plans := map f (bl_plans db)\<rparr>)"
proof (rule plans_ok [OF ok])
  have "map (bp_id \<circ> f) (bl_plans db) = map bp_id (bl_plans db)" using f by simp
  moreover have "distinct (map bp_id (bl_plans db))" using bills_okD(2) [OF ok] by (simp add: rows_distinct_def)
  ultimately have "distinct (map (bp_id \<circ> f) (bl_plans db))" by (simp only:)
  then show "distinct (map bp_id (bl_plans (db\<lparr>bl_plans := map f (bl_plans db)\<rparr>)))" by simp
next
  fix s
  assume s: "s \<in> set (bl_subs db)" "sb_deleted s = None" "sb_status s \<noteq> status_cancelled" "get_plan (sb_plan s) db \<noteq> None"
  then obtain p where p: "p \<in> set (bl_plans db)" "bp_id p = sb_plan s" "bp_deleted p = None"
    using get_plan_D by blast
  then have "f p \<in> set (map f (bl_plans db))" "bp_id (f p) = sb_plan s" "bp_deleted (f p) = None"
    using f there [OF s(1-3)] by simp_all
  then show "get_plan (sb_plan s) (db\<lparr>bl_plans := map f (bl_plans db)\<rparr>) \<noteq> None" by (auto simp: get_plan_None)
qed (use f in auto)

lemma row_step_ok:
  assumes "row_step money us now act w w'" and "bills_ok money (bw_db w)" and "bill_allowed w act"
  shows "bills_ok money (bw_db w')"
  using assms
proof (induction rule: row_step.induct)
  case (moved t call s v ev taken)
  then show ?case by (simp add: tell_ok moved_ok)
next
  case (added t new i p v)
  then have "new \<noteq> uuid_nil" by (simp add: bill_allowed_def)
  with added show ?case by (simp add: publish_ok row_added_ok)
next
  case (made p t)
  then have "bills_ok money ((bw_db w)\<lparr>bl_plans := bl_plans (bw_db w) @ [p]\<rparr>)"
    by (intro plans_ok [OF made.prems(1)])
      (use bills_okD(1,2) [OF made.prems(1)] in \<open>auto simp: rows_fit_def rows_distinct_def get_plan_None\<close>)
  then show ?case by (simp add: publish_ok)
next
  case (saved p i t)
  then have "bills_ok money ((bw_db w)\<lparr>bl_plans :=
      map (\<lambda>r. if bp_id r = i \<and> bp_deleted r = None then p else r) (bl_plans (bw_db w))\<rparr>)"
    by (intro map_plans_ok) (auto simp: bills_ok_def rows_fit_def)
  then show ?case by (simp add: publish_ok)
next
  case (dropped i t)
  have fit: "plan_fit money (r\<lparr>bp_deleted := d\<rparr>)" if "plan_fit money r" for r d
    using that by (cases r) (auto simp: plan_fit_def validate_plan_def Let_def split: if_splits)
  have "bills_ok money ((bw_db w)\<lparr>bl_plans :=
      map (\<lambda>r. if bp_id r = i \<and> bp_deleted r = None then r\<lparr>bp_deleted := Some now\<rparr> else r) (bl_plans (bw_db w))\<rparr>)"
    by (intro map_plans_ok [OF dropped.prems(1)])
      (use bills_okD(1) [OF dropped.prems(1)] dropped.hyps fit in \<open>auto simp: rows_fit_def\<close>)
  then show ?case by (simp add: publish_ok)
next
  case (removed t s)
  note s = current_sub_D [OF removed.hyps(2)] and fit = bills_okD(1) [OF removed.prems(1), unfolded rows_fit_def]
  show ?case
    using s fit by (simp, intro put_row_ok [OF removed.prems(1) s(1)]) (simp_all add: stamp_fit)
qed (simp_all add: tell_ok)

lemma no_rows_ok: "bills_ok money empty_bills"
  by (simp add: bills_ok_def rows_fit_def rows_distinct_def one_live_def plans_there_def one_trial_def empty_bills_def)

lemma reach_ok: "bill_reach money us w \<Longrightarrow> bills_ok money (bw_db w)"
proof (induction rule: bill_reach_induct)
  case (new c)
  then show ?case by (simp add: fresh_bills_def no_rows_ok)
next
  case (step v now act)
  then show ?case using row_step_ok [OF row_step] by blast
qed

lemma reach_row_step:
  "bill_reach money us v \<Longrightarrow> row_step money us now act v (bill_step money us now act v)"
  by (intro row_step reach_ok)

lemma put_row_in: "s \<in> set (bl_subs db) \<Longrightarrow> sb_id v = sb_id s \<Longrightarrow> v \<in> set (bl_subs (put_row v db))"
  by (force simp: put_row_subs)

lemma current_moved:
  assumes ok: "bills_ok money db" and s: "current_sub t db = Some s" and m: "bill_move db now call s v ev"
  shows "current_sub t (tell t' ev (put_row (v\<lparr>sb_updated := now\<rparr>) db)) = Some (v\<lparr>sb_updated := now\<rparr>)"
proof -
  note f = bill_move_frame [OF m] and s' = current_sub_D [OF s]
  have ok': "bills_ok money (tell t' ev (put_row (v\<lparr>sb_updated := now\<rparr>) db))"
    using moved_ok [OF ok s m] by (simp add: tell_ok)
  have "v\<lparr>sb_updated := now\<rparr> \<in> set (bl_subs (put_row (v\<lparr>sb_updated := now\<rparr>) db))"
    using f s'(1) by (intro put_row_in [of s]) simp_all
  then show ?thesis using current_sub_iff [OF bills_okD(3) [OF ok']] f s'(2,3) by simp
qed

end
