(* ===== verification/BillingLedger.thy ===== *)
theory BillingLedger
  imports BillingRuns
begin

section \<open>Charges, receipts and debts along a run\<close>

text \<open>
  What ties the rows to the charges answered, the receipts brought and the events published: a charge is
  for a period its subscription has not passed or has passed for good, a debt is for the period of a
  charge, and each renewal of a subscription starts later than the one before it.
\<close>

definition due_ok :: "bill_world \<Rightarrow> bool" where
  "due_ok w \<longleftrightarrow> (\<forall>c \<in> set (bw_due w). 0 < bc_amount c \<and> bc_end c \<le> bw_clock w
     \<and> bc_subject c \<in> sb_id ` set (bl_subs (bw_db w))
     \<and> (\<forall>s \<in> set (bl_subs (bw_db w)). sb_id s = bc_subject c \<longrightarrow>
          bc_end c \<le> sb_end s \<and> (bc_end c = sb_end s \<longrightarrow> sb_price s = bc_amount c)))"

definition debts_ok :: "bill_world \<Rightarrow> bool" where
  "debts_ok w \<longleftrightarrow> (\<forall>s \<in> set (bl_subs (bw_db w)). sb_past_due s \<noteq> None \<longrightarrow>
     (\<exists>c \<in> set (bw_due w). bc_subject c = sb_id s \<and> bc_end c = sb_end s))"

text \<open>The renewals of one subscription, each with its start, its end and its receipt.\<close>

definition renewals :: "uuid \<Rightarrow> (uuid \<times> bill_event) list \<Rightarrow> (time \<times> time \<times> string) list" where
  "renewals i log = List.map_filter (\<lambda>(t, e). case e of
       SubRenewed j a b receipt at \<Rightarrow> if j = i then Some (a, b, receipt) else None | _ \<Rightarrow> None) log"

definition settled_for :: "(bill_charge \<times> bill_receipt) list \<Rightarrow> uuid \<Rightarrow> time \<Rightarrow> string \<Rightarrow> bool" where
  "settled_for taken i e reference \<longleftrightarrow> (\<exists>(c, r) \<in> set taken. bc_subject c = i \<and> bc_end c = e \<and> 0 < bc_amount c
     \<and> br_settled r \<and> br_reference r = reference)"

definition renewals_ok :: "bill_world \<Rightarrow> bool" where
  "renewals_ok w \<longleftrightarrow> (\<forall>i. sorted_wrt (<) (map fst (renewals i (bl_log (bw_db w))))
     \<and> (\<forall>(a, b, receipt) \<in> set (renewals i (bl_log (bw_db w))).
          a < b \<and> a \<le> bw_clock w \<and> i \<in> sb_id ` set (bl_subs (bw_db w))
          \<and> (\<forall>s \<in> set (bl_subs (bw_db w)). sb_id s = i \<longrightarrow> a < sb_end s)
          \<and> (receipt = '''' \<or> settled_for (bw_taken w) i a receipt)))"

lemma renewals_simps [simp]:
  "renewals i [] = []" "renewals i (xs @ ys) = renewals i xs @ renewals i ys"
  "renewals i [(t, SubRenewed j a b receipt at)] = (if j = i then [(a, b, receipt)] else [])"
  "renewals i [(t, PlanCreated p)] = []" "renewals i [(t, PlanUpdated p)] = []" "renewals i [(t, PlanDeleted p)] = []"
  "renewals i [(t, SubSubscribed s j c st e at)] = []" "renewals i [(t, SubCancelled s e im re at)] = []"
  "renewals i [(t, SubPastDue s am cu e at en n)] = []"
  by (simp_all add: renewals_def List.map_filter_def)

subsection \<open>Ends of periods along a move\<close>

lemma next_period_end: "sb_end s < sb_end (next_period p s)"
  by (simp add: next_period_def advance_date_later)

text \<open>A move keeps the period, gives one that ends now, or starts the next and says so.\<close>

lemma bill_move_period:
  assumes "bill_move db now call s v ev"
  shows "sb_end v = sb_end s \<and> sb_price v = sb_price s \<and> (\<forall>i t. renewals i (bl_log (tell t ev db)) = renewals i (bl_log db))
    \<or> sb_end v = now \<and> sb_past_due v = None \<and> (\<forall>i t. renewals i (bl_log (tell t ev db)) = renewals i (bl_log db))
    \<or> sb_end s < sb_end v \<and> sb_past_due v = None
      \<and> (\<exists>receipt. ev = Some (SubRenewed (sb_id s) (sb_end s) (sb_end v) receipt now)
          \<and> (call = AskRenew \<and> sb_end s \<le> now \<and> receipt = ''''
             \<or> (\<exists>c r. call = AskSettle c r \<and> bc_subject c = sb_id s \<and> bc_end c = sb_end s \<and> br_settled r \<and> receipt = br_reference r)))"
  using assms
proof (induction rule: bill_move.induct)
  case (free s p)
  then show ?case using next_period_end [of s p] by (auto simp: next_period_def run_out_def)
next
  case (paid s c r p)
  then show ?case using next_period_end [of s p] by (auto simp: next_period_def)
next
  case (comes_back s i p v new)
  then show ?case by (auto simp: come_back_def Let_def outstanding_def split: option.splits)
qed (auto simp: refused_once_def)

lemma bill_move_debt:
  assumes "bill_move db now call s v ev" and "sb_past_due v \<noteq> None"
  shows "sb_end v = sb_end s \<and> (sb_past_due s \<noteq> None \<or> (\<exists>c r. call = AskSettle c r \<and> bc_subject c = sb_id s \<and> bc_end c = sb_end s))"
  using assms
  by (induction rule: bill_move.induct)
    (auto simp: come_back_def next_period_def refused_once_def Let_def outstanding_def split: option.splits if_splits)

subsection \<open>Each step keeps them\<close>

lemma put_row_id_set: "sb_id ` set (bl_subs (put_row v db)) = sb_id ` set (bl_subs db)"
  by (metis put_row_ids list.set_map)

lemma row_step_clock: "row_step money us now act w w' \<Longrightarrow> bw_clock w' = now"
  by (induction rule: row_step.induct) simp_all

lemma due_ok_step:
  assumes "row_step money us now act w w'" and "bills_ok money (bw_db w)" and "bw_clock w < now" and "due_ok w"
  shows "due_ok w'"
  using assms
proof (induction rule: row_step.induct)
  case (quiet taken)
  then show ?case by (fastforce simp: due_ok_def)
next
  case (charged t s p)
  note s = current_sub_D [OF charged.hyps(2)]
  have price: "0 < sb_price s"
    using bills_okD(1) [OF charged.prems(1)] s(1) charged.hyps(8) by (fastforce simp: rows_fit_def sub_fit_iff)
  have one: "r = s" if "r \<in> set (bl_subs (bw_db w))" "sb_id r = sb_id s" for r
    using bills_okD(2) [OF charged.prems(1)] s(1) that by (auto simp: rows_distinct_def distinct_map dest: inj_onD)
  have "sb_end s \<le> now" using charged.hyps(5) by (simp add: run_out_def)
  then show ?case using charged.prems(2,3) s(1) price one
    by (fastforce simp: due_ok_def charge_of_def)
next
  case (moved t call s v ev taken)
  note s = current_sub_D [OF moved.hyps(2)] and f = bill_move_frame [OF moved.hyps(3)]
  let ?v = "v\<lparr>sb_updated := now\<rparr>"
  have mine: "bc_end c \<le> sb_end ?v \<and> (bc_end c = sb_end ?v \<longrightarrow> sb_price ?v = bc_amount c)"
    if "c \<in> set (bw_due w)" "bc_subject c = sb_id s" for c
    using bill_move_period [OF moved.hyps(3)] moved.prems(2,3) s(1) that unfolding due_ok_def by fastforce
  show ?case unfolding due_ok_def
  proof (intro ballI conjI impI)
    fix c r
    assume c: "c \<in> set (bw_due (w\<lparr>bw_db := tell t ev (put_row ?v (bw_db w)), bw_clock := now, bw_taken := bw_taken w @ taken\<rparr>))"
      and r: "r \<in> set (bl_subs (bw_db (w\<lparr>bw_db := tell t ev (put_row ?v (bw_db w)), bw_clock := now, bw_taken := bw_taken w @ taken\<rparr>)))"
        "sb_id r = bc_subject c"
    then have "r = ?v \<or> r \<in> set (bl_subs (bw_db w))" using put_row_set by simp blast
    then show "bc_end c \<le> sb_end r" "bc_end c = sb_end r \<Longrightarrow> sb_price r = bc_amount c"
      using c r(2) mine [of c] f moved.prems(3) by (auto simp: due_ok_def)
  qed (use moved.prems(2,3) put_row_id_set in \<open>auto simp: due_ok_def intro: order_trans\<close>)
next
  case (added t new i p v)
  then have "sb_id v \<notin> bc_subject ` set (bw_due w)" by (auto simp: due_ok_def)
  with added.prems(2,3) show ?case by (fastforce simp: due_ok_def)
next
  case (removed t s)
  let ?v = "s\<lparr>sb_deleted := Some now\<rparr>"
  note s = current_sub_D [OF removed.hyps(2)]
  have "\<forall>r \<in> set (bl_subs (put_row ?v (bw_db w))). \<exists>q \<in> set (bl_subs (bw_db w)). sb_id r = sb_id q \<and> sb_end r = sb_end q \<and> sb_price r = sb_price q"
    using s(1) by (auto dest!: put_row_set)
  then show ?case using removed.prems(2,3) unfolding due_ok_def
    by (simp add: put_row_id_set) (metis order_trans order_less_imp_le)
qed (fastforce simp: due_ok_def)+

lemma debts_ok_step:
  assumes "row_step money us now act w w'" and "bill_allowed w act" and "debts_ok w"
  shows "debts_ok w'"
  using assms
proof (induction rule: row_step.induct)
  case (charged t s p)
  then show ?case by (fastforce simp: debts_ok_def)
next
  case (moved t call s v ev taken)
  note s = current_sub_D [OF moved.hyps(2)] and f = bill_move_frame [OF moved.hyps(3)]
  let ?v = "v\<lparr>sb_updated := now\<rparr>"
  have mine: "\<exists>c \<in> set (bw_due w). bc_subject c = sb_id ?v \<and> bc_end c = sb_end ?v" if "sb_past_due v \<noteq> None"
    using bill_move_debt [OF moved.hyps(3) that]
  proof (elim conjE disjE exE)
    assume "sb_past_due s \<noteq> None" "sb_end v = sb_end s"
    then show ?thesis using moved.prems(2) s(1) f by (fastforce simp: debts_ok_def)
  next
    fix c r
    assume "call = AskSettle c r" "bc_subject c = sb_id s" "bc_end c = sb_end s" "sb_end v = sb_end s"
    then show ?thesis using moved.prems(1) moved.hyps(1) f by (auto simp: bill_allowed_def)
  qed
  show ?case using moved.prems(2) mine by (auto simp: debts_ok_def dest!: put_row_set)
next
  case (added t new i p v)
  have "sb_past_due v = None" unfolding added.hyps(6) new_sub_def by (simp add: Let_def split: option.split)
  with added.prems(2) show ?case by (auto simp: debts_ok_def)
next
  case (removed t s)
  then show ?case using current_sub_D [OF removed.hyps(2)] by (auto simp: debts_ok_def dest!: put_row_set)
qed (auto simp: debts_ok_def)

lemma renewals_okD:
  assumes "renewals_ok w" and "(a, b, receipt) \<in> set (renewals i (bl_log (bw_db w)))"
  shows "a < b \<and> a \<le> bw_clock w \<and> i \<in> sb_id ` set (bl_subs (bw_db w))
    \<and> (\<forall>s \<in> set (bl_subs (bw_db w)). sb_id s = i \<longrightarrow> a < sb_end s) \<and> (receipt = '''' \<or> settled_for (bw_taken w) i a receipt)"
  using assms unfolding renewals_ok_def by blast

lemma settled_for_more: "settled_for taken i e r \<Longrightarrow> settled_for (taken @ xs) i e r"
  by (auto simp: settled_for_def)

text \<open>A step that adds no renewal keeps what is said of them, when periods end later than before.\<close>

lemma renewals_kept:
  assumes ok: "renewals_ok w" and clock: "bw_clock w \<le> bw_clock w'"
    and log: "\<And>i. renewals i (bl_log (bw_db w')) = renewals i (bl_log (bw_db w))"
    and taken: "bw_taken w' = bw_taken w @ xs"
    and ids: "sb_id ` set (bl_subs (bw_db w)) \<subseteq> sb_id ` set (bl_subs (bw_db w'))"
    and rows: "\<And>r. r \<in> set (bl_subs (bw_db w')) \<Longrightarrow> sb_id r \<in> sb_id ` set (bl_subs (bw_db w)) \<Longrightarrow>
      bw_clock w < sb_end r \<or> (\<exists>s \<in> set (bl_subs (bw_db w)). sb_id s = sb_id r \<and> sb_end s \<le> sb_end r)"
  shows "renewals_ok w'"
  unfolding renewals_ok_def log
proof (intro allI conjI)
  fix i
  show "sorted_wrt (<) (map fst (renewals i (bl_log (bw_db w))))" using ok by (simp add: renewals_ok_def)
  have old: "a < b \<and> a \<le> bw_clock w \<and> i \<in> sb_id ` set (bl_subs (bw_db w))
      \<and> (\<forall>s \<in> set (bl_subs (bw_db w)). sb_id s = i \<longrightarrow> a < sb_end s) \<and> (receipt = '''' \<or> settled_for (bw_taken w) i a receipt)"
    if "(a, b, receipt) \<in> set (renewals i (bl_log (bw_db w)))" for a b receipt
    using renewals_okD [OF ok that] .
  have later: "a < sb_end r"
    if "(a, b, receipt) \<in> set (renewals i (bl_log (bw_db w)))" "r \<in> set (bl_subs (bw_db w'))" "sb_id r = i" for a b receipt r
    using old [OF that(1)] rows [OF that(2)] that(3) by fastforce
  show "\<forall>(a, b, receipt) \<in> set (renewals i (bl_log (bw_db w))).
      a < b \<and> a \<le> bw_clock w' \<and> i \<in> sb_id ` set (bl_subs (bw_db w'))
      \<and> (\<forall>s \<in> set (bl_subs (bw_db w')). sb_id s = i \<longrightarrow> a < sb_end s)
      \<and> (receipt = '''' \<or> settled_for (bw_taken w') i a receipt)"
    using old later clock ids taken settled_for_more [of "bw_taken w" i _ _ xs] by fastforce
qed

lemma moved_rows:
  assumes s: "s \<in> set (bl_subs db)" and v: "sb_id v = sb_id s" and e: "e < sb_end v \<or> sb_end s \<le> sb_end v"
    and r: "r \<in> set (bl_subs (put_row v db))"
  shows "e < sb_end r \<or> (\<exists>q \<in> set (bl_subs db). sb_id q = sb_id r \<and> sb_end q \<le> sb_end r)"
  using put_row_set [OF r] s v e by auto

lemma renewals_ok_step:
  assumes "row_step money us now act w w'" and "bills_ok money (bw_db w)" and "bw_clock w < now" and "bill_allowed w act"
    and "due_ok w" and "renewals_ok w"
  shows "renewals_ok w'"
  using assms
proof (induction rule: row_step.induct)
  case (moved t call s v ev taken)
  note s = current_sub_D [OF moved.hyps(2)] and f = bill_move_frame [OF moved.hyps(3)]
  let ?v = "v\<lparr>sb_updated := now\<rparr>"
  let ?w = "w\<lparr>bw_db := tell t ev (put_row ?v (bw_db w)), bw_clock := now, bw_taken := bw_taken w @ taken\<rparr>"
  have rows: "bw_clock w < sb_end r \<or> (\<exists>q \<in> set (bl_subs (bw_db w)). sb_id q = sb_id r \<and> sb_end q \<le> sb_end r)"
    if "r \<in> set (bl_subs (bw_db ?w))" for r
    using bill_move_period [OF moved.hyps(3)] moved.prems(2) f that by (intro moved_rows [OF s(1), of ?v]) auto
  have log: "renewals i (bl_log (bw_db ?w)) = renewals i (bl_log (tell t ev (bw_db w)))" for i
    by (simp add: tell_def split: option.split)
  consider (quiet) "\<forall>i t. renewals i (bl_log (tell t ev (bw_db w))) = renewals i (bl_log (bw_db w))"
    | (starts) receipt where "sb_end s < sb_end v" "ev = Some (SubRenewed (sb_id s) (sb_end s) (sb_end v) receipt now)"
        "call = AskRenew \<and> sb_end s \<le> now \<and> receipt = ''''
         \<or> (\<exists>c r. call = AskSettle c r \<and> bc_subject c = sb_id s \<and> bc_end c = sb_end s \<and> br_settled r \<and> receipt = br_reference r)"
    using bill_move_period [OF moved.hyps(3)] by blast
  then show ?case
  proof cases
    case quiet
    then show ?thesis using rows moved.prems(2,5) log
      by (intro renewals_kept [OF moved.prems(5), of ?w]) (simp_all add: put_row_id_set)
  next
    case (starts receipt)
    let ?u = "w\<lparr>bw_db := put_row ?v (bw_db w), bw_clock := now, bw_taken := bw_taken w @ taken\<rparr>"
    have "renewals_ok ?u"
      using rows moved.prems(2,5) by (intro renewals_kept [OF moved.prems(5), of ?u]) (simp_all add: put_row_id_set)
    moreover have "sb_end s \<le> now \<and> (receipt = '''' \<or> settled_for (bw_taken w @ taken) (sb_id s) (sb_end s) receipt)"
      using starts(3)
    proof (elim disjE exE conjE)
      fix c r
      assume c: "call = AskSettle c r" "bc_subject c = sb_id s" "bc_end c = sb_end s" "br_settled r" "receipt = br_reference r"
      then have "c \<in> set (bw_due w)" using moved.prems(3) moved.hyps(1) by (simp add: bill_allowed_def)
      then have "bc_end c \<le> bw_clock w" "0 < bc_amount c" using moved.prems(4) by (auto simp: due_ok_def)
      with c moved.prems(2) moved.hyps(4) show ?thesis by (auto simp: settled_for_def)
    qed simp
    moreover have "\<forall>(a, b, receipt) \<in> set (renewals (sb_id s) (bl_log (bw_db w))). a < sb_end s"
      using renewals_okD [OF moved.prems(5), of _ _ _ "sb_id s"] s(1) by blast
    moreover have "sb_end s < sb_end r" if "r \<in> set (bl_subs (put_row ?v (bw_db w)))" "sb_id r = sb_id s" for r
      using put_row_set [OF that(1)] that(2) f starts(1) by auto
    moreover have "sb_id s \<in> sb_id ` set (bl_subs (put_row ?v (bw_db w)))" using s(1) by (simp add: put_row_id_set)
    ultimately show ?thesis
      using starts(1) unfolding renewals_ok_def starts(2)
      by (auto simp: sorted_wrt_append split: if_splits)
  qed
next
  case (added t new i p v)
  then show ?case
    by (intro renewals_kept [OF added.prems(5), where xs = "[]"]) auto
next
  case (removed t s)
  note s = current_sub_D [OF removed.hyps(2)]
  show ?case
    using removed.prems(2) s moved_rows [OF s(1), of "s\<lparr>sb_deleted := Some now\<rparr>" "bw_clock w"]
    by (intro renewals_kept [OF removed.prems(5), where xs = "[]"]) (simp_all add: put_row_id_set)
next
  case (quiet taken)
  then show ?case by (intro renewals_kept [OF quiet.prems(5), where xs = taken]) auto
qed (rule renewals_kept [where xs = "[]"]; auto)+

definition ledger_ok :: "bill_world \<Rightarrow> bool" where
  "ledger_ok w \<longleftrightarrow> due_ok w \<and> debts_ok w \<and> renewals_ok w"

lemma reach_ledger: "bill_reach money us w \<Longrightarrow> ledger_ok w"
proof (induction rule: bill_reach_induct)
  case (new c)
  then show ?case by (simp add: ledger_ok_def due_ok_def debts_ok_def renewals_ok_def fresh_bills_def empty_bills_def)
next
  case (step v now act)
  have st: "row_step money us now act v (bill_step money us now act v)" "bills_ok money (bw_db v)"
    using reach_row_step reach_ok \<open>bill_reach money us v\<close> by blast+
  note clock = \<open>bw_clock v < now\<close> and allowed = \<open>bill_allowed v act\<close>
  show ?case
    using due_ok_step [OF st clock] debts_ok_step [OF st(1) allowed] renewals_ok_step [OF st clock allowed] \<open>ledger_ok v\<close>
    by (simp add: ledger_ok_def)
qed

end
