(* ===== verification/BillingDebts.thy ===== *)
theory BillingDebts
  imports BillingLedger
begin

section \<open>Debts\<close>

text \<open>
  A subscription that owes stays the same subscription, with the same debt, until a receipt settles it: it
  may be cancelled and taken up again, and is asked for the same money under the same key.  Nights of
  refused charges are counted and end when the grace period has run out.
\<close>

definition same_debt :: "bill_sub \<Rightarrow> bill_sub \<Rightarrow> bool" where
  "same_debt s s' \<longleftrightarrow> sb_id s' = sb_id s \<and> sb_tenant s' = sb_tenant s \<and> sb_plan s' = sb_plan s \<and> sb_start s' = sb_start s \<and> sb_end s' = sb_end s
     \<and> sb_price s' = sb_price s \<and> sb_currency s' = sb_currency s \<and> sb_past_due s' = sb_past_due s
     \<and> sb_attempts s \<le> sb_attempts s'"

lemma same_debt_refl: "same_debt s s"
  by (simp add: same_debt_def)

lemma same_debt_trans: "same_debt r s \<Longrightarrow> same_debt s t \<Longrightarrow> same_debt r t"
  by (simp add: same_debt_def)

definition asks_for :: "(uuid \<Rightarrow> string) \<Rightarrow> bill_sub \<Rightarrow> bill_charge \<Rightarrow> bool" where
  "asks_for us s c \<longleftrightarrow> bc_end c = sb_end s \<and> bc_amount c = sb_price s \<and> bc_currency c = sb_currency s
     \<and> bc_key c = charge_key us (sb_id s) (sb_end s)"

definition settles_debt :: "uuid \<Rightarrow> bill_sub \<Rightarrow> bill_act \<Rightarrow> bool" where
  "settles_debt t s act \<longleftrightarrow> (case act of
       Tenant t' (AskSettle c r) \<Rightarrow> t' = t \<and> bc_subject c = sb_id s \<and> bc_end c = sb_end s \<and> br_settled r
     | _ \<Rightarrow> False)"

lemma settles_debt_same: "same_debt s s' \<Longrightarrow> settles_debt t s' act = settles_debt t s act"
  by (simp add: settles_debt_def same_debt_def split: bill_act.split bill_call.split)

lemma bill_move_owing:
  assumes "bill_move db now call s v ev" and "sb_past_due s \<noteq> None" and "0 < sb_price s"
    and "\<not> settles_debt t s (Tenant t call)"
  shows "same_debt s v"
  using assms
  by (induction rule: bill_move.induct)
    (auto simp: same_debt_def settles_debt_def come_back_def refused_once_def Let_def outstanding_def split: option.splits)

lemma debt_priced:
  assumes "bills_ok money (bw_db w)" and "ledger_ok w" and "s \<in> set (bl_subs (bw_db w))" and "sb_past_due s \<noteq> None"
  shows "0 < sb_price s"
proof -
  from assms obtain c where c: "c \<in> set (bw_due w)" "bc_subject c = sb_id s" "bc_end c = sb_end s"
    by (auto simp: ledger_ok_def debts_ok_def)
  moreover have "0 < bc_amount c" and "\<forall>r \<in> set (bl_subs (bw_db w)). sb_id r = bc_subject c \<longrightarrow> bc_end c = sb_end r \<longrightarrow> sb_price r = bc_amount c"
    using c(1) assms(2) by (auto simp: ledger_ok_def due_ok_def)
  ultimately show ?thesis using assms(3) by auto
qed

lemma owing_here: "current_sub t db = Some s \<Longrightarrow> \<exists>s' \<in> set (bl_subs db). sb_deleted s' = None \<and> same_debt s s'"
  using current_sub_D same_debt_refl by blast

lemma owing_row_step:
  assumes "row_step money us now act w w'" and "bills_ok money (bw_db w)" and "ledger_ok w"
    and "current_sub t (bw_db w) = Some s" and "sb_past_due s \<noteq> None"
    and "act \<noteq> RemoveSub t" and "\<not> settles_debt t s act"
  shows "(\<exists>s' \<in> set (bl_subs (bw_db w')). sb_deleted s' = None \<and> same_debt s s')
    \<and> (\<exists>cs. bw_due w' = bw_due w @ cs \<and> (\<forall>c \<in> set cs. bc_subject c = sb_id s \<longrightarrow> asks_for us s c))"
  using assms
proof (induction rule: row_step.induct)
  case (charged t' r p)
  note s = current_sub_D [OF charged.prems(3)] and r = current_sub_D [OF charged.hyps(2)]
  have "r = s" if "sb_id r = sb_id s"
    using bills_okD(2) [OF charged.prems(1)] s(1) r(1) that by (auto simp: rows_distinct_def distinct_map dest: inj_onD)
  then show ?case using s same_debt_refl by (auto simp: charge_of_def asks_for_def)
next
  case (moved t' call r v ev taken)
  note s = current_sub_D [OF moved.prems(3)] and r = current_sub_D [OF moved.hyps(2)] and f = bill_move_frame [OF moved.hyps(3)]
  show ?case
  proof (cases "sb_id r = sb_id s")
    case True
    then have rs: "r = s"
      using bills_okD(2) [OF moved.prems(1)] s(1) r(1) by (auto simp: rows_distinct_def distinct_map dest: inj_onD)
    then have t: "t' = t" using r(2) s(2) by simp
    have "same_debt s v"
      using moved.hyps(3) moved.prems(4,6) debt_priced [OF moved.prems(1,2) s(1)] unfolding rs t moved.hyps(1)
      by (intro bill_move_owing) auto
    then have "same_debt s (v\<lparr>sb_updated := now\<rparr>)" by (simp add: same_debt_def)
    moreover have "v\<lparr>sb_updated := now\<rparr> \<in> set (bl_subs (put_row (v\<lparr>sb_updated := now\<rparr>) (bw_db w)))"
      using f r(1) by (intro put_row_in [of r]) simp_all
    moreover have "sb_deleted (v\<lparr>sb_updated := now\<rparr>) = None" using f r(3) by simp
    ultimately have "\<exists>s' \<in> set (bl_subs (put_row (v\<lparr>sb_updated := now\<rparr>) (bw_db w))). sb_deleted s' = None \<and> same_debt s s'"
      by blast
    then show ?thesis by simp
  next
    case False
    then have "s \<in> set (bl_subs (put_row (v\<lparr>sb_updated := now\<rparr>) (bw_db w)))" using s(1) f by (auto simp: put_row_subs)
    then show ?thesis using s same_debt_refl by auto
  qed
next
  case (removed t' r)
  note s = current_sub_D [OF removed.prems(3)] and r = current_sub_D [OF removed.hyps(2)]
  have "sb_id r \<noteq> sb_id s"
  proof
    assume "sb_id r = sb_id s"
    then have "r = s"
      using bills_okD(2) [OF removed.prems(1)] s(1) r(1) by (auto simp: rows_distinct_def distinct_map dest: inj_onD)
    then show False using r(2) s(2) removed.prems(5) removed.hyps(1) by simp
  qed
  then have "s \<in> set (bl_subs (put_row (r\<lparr>sb_deleted := Some now\<rparr>) (bw_db w)))" using s(1) by (auto simp: put_row_subs)
  then show ?case using s same_debt_refl by auto
qed (auto dest: owing_here)

lemma owing_run:
  assumes "bill_run money us v acts w" and "bill_reach money us v" and "current_sub t (bw_db v) = Some s" and "sb_past_due s \<noteq> None"
    and "\<forall>(now, act) \<in> set acts. act \<noteq> RemoveSub t \<and> \<not> settles_debt t s act"
  shows "(\<exists>s'. current_sub t (bw_db w) = Some s' \<and> same_debt s s')
    \<and> (\<exists>cs. bw_due w = bw_due v @ cs \<and> (\<forall>c \<in> set cs. bc_subject c = sb_id s \<longrightarrow> asks_for us s c))"
  using assms
proof (induction rule: bill_run.induct)
  case none
  then show ?case using same_debt_refl by auto
next
  case (more acts x now act)
  then obtain s' cs where s': "current_sub t (bw_db x) = Some s'" "same_debt s s'"
      and cs: "bw_due x = bw_due v @ cs" "\<forall>c \<in> set cs. bc_subject c = sb_id s \<longrightarrow> asks_for us s c" by auto
  have x: "bill_reach money us x" by (rule bill_reach_run [OF more.prems(1) more.hyps(1)])
  let ?y = "bill_step money us now act x"
  have y: "bill_reach money us ?y" by (rule bill_reach_run [OF x, of "[(now, act)]"])
      (use bill_run.more [OF bill_run.none, of x now act money us] more.hyps(2,3) in simp)
  have act: "act \<noteq> RemoveSub t" "\<not> settles_debt t s' act"
    using more.prems(4) settles_debt_same [OF s'(2)] by auto
  have owe: "sb_past_due s' \<noteq> None" using s'(2) more.prems(3) by (simp add: same_debt_def)
  obtain s'' ds where s'': "s'' \<in> set (bl_subs (bw_db ?y))" "sb_deleted s'' = None" "same_debt s' s''"
      and ds: "bw_due ?y = bw_due x @ ds" "\<forall>c \<in> set ds. bc_subject c = sb_id s' \<longrightarrow> asks_for us s' c"
    using owing_row_step [OF reach_row_step [OF x] reach_ok [OF x] reach_ledger [OF x] s'(1) owe act] by blast
  have "current_sub t (bw_db ?y) = Some s''"
    using current_sub_iff [OF bills_okD(3) [OF reach_ok [OF y]]] s'' current_sub_D(2) [OF s'(1)] by (simp add: same_debt_def)
  moreover have "\<forall>c \<in> set (cs @ ds). bc_subject c = sb_id s \<longrightarrow> asks_for us s c"
    using cs(2) ds(2) s'(2) by (auto simp: same_debt_def asks_for_def)
  ultimately show ?case using same_debt_trans [OF s'(2) s''(3)] cs(1) ds(1) by (metis append.assoc)
qed

subsection \<open>Nights of refused charges\<close>

lemma grace_expired_iff: "grace_expired now s \<longleftrightarrow> (\<exists>d. sb_past_due s = Some d \<and> d + grace_period \<le> now)"
proof -
  have "time_sub now d \<ge> grace_period \<longleftrightarrow> d + grace_period \<le> now" for d
    by (rule time_sub_ge_iff) (simp_all add: grace_period_def duration_defs min_duration_def max_duration_def)
  then show ?thesis by (auto simp: grace_expired_def split: option.split)
qed

definition refuses :: "(bill_charge \<Rightarrow> bill_receipt option) \<Rightarrow> bool" where
  "refuses pay \<longleftrightarrow> (\<forall>c. case pay c of None \<Rightarrow> False | Some r \<Rightarrow> \<not> br_settled r \<and> \<not> br_pending r)"

definition owing_at :: "time \<Rightarrow> bill_sub \<Rightarrow> bool" where
  "owing_at now s \<longleftrightarrow> sb_status s = status_past_due \<and> \<not> sb_leaving s \<and> 0 < sb_price s \<and> sb_end s \<le> now"

lemma refused_night:
  fixes later :: time
  assumes ok: "bills_ok money db" and s: "current_sub t db = Some s" and owing: "owing_at now s"
    and early: "\<not> grace_expired now s" and pay: "refuses pay"
  defines "v \<equiv> (refused_once later s)\<lparr>sb_updated := later\<rparr>"
  shows "renew_tenant money us pay now later t db = (put_row v db, None)"
    "current_sub t (put_row v db) = Some v" "bills_ok money (put_row v db)"
proof -
  have st: "sb_status s = status_past_due" "sb_status s \<noteq> status_cancelled" "\<not> sb_leaving s" "sb_price s \<noteq> 0" "run_out now s"
    using owing by (simp_all add: owing_at_def run_out_def)
  obtain p where p: "get_plan (sb_plan s) db = Some p" "plan_of s db = Inr p"
    using plan_of_current [OF ok s st(2)] by blast
  let ?c = "charge_of us p s"
  have r: "renew money us now t db = Inr (db, s, Some ?c)"
    using s st early p by (simp add: renew_def)
  obtain x where x: "pay ?c = Some x" "\<not> br_settled x" "\<not> br_pending x"
    using pay unfolding refuses_def by (auto split: option.splits dest: spec [of _ ?c])
  have c: "bc_subject ?c = sb_id s" "bc_end ?c = sb_end s" by (simp_all add: charge_of_def)
  have m: "bill_move db later (AskSettle ?c x) s (refused_once later s) None"
    using bill_move.refused [OF st(2) c x(2,3) refl, of db later] st(1) by simp
  have "settle money later t ?c x db = Inr (put_row v db, v)"
    using moved_update [OF ok s m, of "\<lambda>s r. write_dunning s (write_status s r)"] s st(1,2) c x(2,3)
    by (simp add: settle_def v_def write_dunning_def write_status_def refused_once_def)
  then show "renew_tenant money us pay now later t db = (put_row v db, None)"
    using r x(1) by (simp add: renew_tenant_def)
  show "current_sub t (put_row v db) = Some v" using current_moved [OF ok s m, of t] by (simp add: v_def)
  show "bills_ok money (put_row v db)" using moved_ok [OF ok s m] by (simp add: v_def)
qed

lemma dunned_night:
  fixes now :: time
  assumes ok: "bills_ok money db" and s: "current_sub t db = Some s" and owing: "owing_at now s" and late: "grace_expired now s"
  defines "v \<equiv> s\<lparr>sb_status := status_cancelled, sb_updated := now\<rparr>"
  shows "renew_tenant money us pay now later t db =
      (publish_bill t (SubCancelled (sb_id s) now True cancelled_by_dunning now) (put_row v db), None)"
    "current_sub t (publish_bill t (SubCancelled (sb_id s) now True cancelled_by_dunning now) (put_row v db)) = Some v"
proof -
  have st: "sb_status s \<noteq> status_cancelled" "run_out now s" "\<not> sb_leaving s"
    using owing by (simp_all add: owing_at_def run_out_def)
  note m = bill_move.dunned [OF st late, of db]
  show "renew_tenant money us pay now later t db =
      (publish_bill t (SubCancelled (sb_id s) now True cancelled_by_dunning now) (put_row v db), None)"
    using end_turn [OF ok s m] s st late by (simp add: renew_tenant_def renew_def v_def)
  show "current_sub t (publish_bill t (SubCancelled (sb_id s) now True cancelled_by_dunning now) (put_row v db)) = Some v"
    using current_moved [OF ok s m, of t] by (simp add: v_def)
qed

text \<open>One tenant's nights, each with its two instants.\<close>

definition night :: "(string \<Rightarrow> bool) \<Rightarrow> (uuid \<Rightarrow> string) \<Rightarrow> (bill_charge \<Rightarrow> bill_receipt option) \<Rightarrow> uuid \<Rightarrow> time \<times> time \<Rightarrow> bill_db \<Rightarrow> bill_db" where
  "night money us pay t n db = fst (renew_tenant money us pay (fst n) (snd n) t db)"

lemma refused_nights:
  assumes "bills_ok money db" and "current_sub t db = Some s" and "sb_past_due s = Some d" and "refuses pay"
    and "\<forall>n \<in> set nights. owing_at (fst n) s \<and> fst n < d + grace_period"
    and "sb_status s = status_past_due"
  shows "\<exists>s'. current_sub t (fold (night money us pay t) nights db) = Some s' \<and> same_debt s s' \<and> sb_status s' = status_past_due
    \<and> sb_leaving s' = sb_leaving s \<and> sb_attempts s' = sb_attempts s + int (length nights)
    \<and> bl_log (fold (night money us pay t) nights db) = bl_log db \<and> bills_ok money (fold (night money us pay t) nights db)"
  using assms
proof (induction nights arbitrary: db s)
  case Nil
  then show ?case using same_debt_refl by auto
next
  case (Cons n nights)
  let ?v = "(refused_once (snd n) s)\<lparr>sb_updated := snd n\<rparr>"
  have early: "\<not> grace_expired (fst n) s" using Cons.prems(3,5) by (auto simp: grace_expired_iff)
  have "owing_at (fst n) s" using Cons.prems(5) by simp
  note r = refused_night [OF Cons.prems(1,2) this early Cons.prems(4)]
  have v: "sb_past_due ?v = Some d" "sb_status ?v = status_past_due" "same_debt s ?v" "sb_leaving ?v = sb_leaving s"
      "sb_attempts ?v = sb_attempts s + 1" "\<And>m. owing_at m ?v = owing_at m s"
    using Cons.prems(3,6) by (simp_all add: refused_once_def same_debt_def owing_at_def)
  have "night money us pay t n db = put_row ?v db" using r(1) [of us "snd n"] by (simp add: night_def)
  then show ?case
    using Cons.IH [OF r(3,2) v(1) Cons.prems(4) _ v(2)] Cons.prems(5) v(3-6) same_debt_trans [OF v(3)] by fastforce
qed

subsection \<open>Coming back after the grace period\<close>

lemma dunned_comes_back:
  assumes ok: "bills_ok money db" and s: "current_sub t db = Some s" and st: "sb_status s = status_cancelled"
    and late: "grace_expired now s" and over: "sb_end s \<le> now" and i: "sb_plan s = i" "i \<noteq> uuid_nil"
    and p: "get_plan i db = Some p" "bp_active p" and later: "now \<le> later"
  shows "\<exists>db1 v db2 x. subscribe money new now t i db = Inr (db1, v) \<and> serving (sb_status v) \<and> same_debt s v
    \<and> renew money us later t db1 = Inr (db2, x, None) \<and> sb_status x = status_cancelled \<and> same_debt s x"
proof -
  have owes: "outstanding s \<noteq> None" using late by (auto simp: grace_expired_def outstanding_def split: option.splits)
  define v where "v = s\<lparr>sb_leaving := False, sb_status := status_past_due\<rparr>"
  have returned: "come_back now p (s\<lparr>sb_plan := i, sb_leaving := False\<rparr>) = v"
    using owes i by (auto simp: come_back_def Let_def v_def outstanding_def split: option.splits)
  have m: "bill_move db now (AskSubscribe new i) s v (Some (SubSubscribed (sb_id s) i (bp_code p) (sb_status v) (sb_end v) now))"
    using bill_move.comes_back [OF st _ p i(2), of v now new] i(1) returned by auto
  let ?v = "v\<lparr>sb_updated := now\<rparr>"
  let ?db = "tell t (Some (SubSubscribed (sb_id s) i (bp_code p) (sb_status v) (sb_end v) now)) (put_row ?v db)"
  have sub: "subscribe money new now t i db = Inr (?db, ?v)"
  proof -
    have "(come_back_columns (s\<lparr>sb_plan := i, sb_leaving := False\<rparr>) ?v s)\<lparr>sb_updated := now\<rparr> = ?v"
      using owes i by (auto simp: come_back_columns_def write_defs v_def Let_def outstanding_def split: option.splits)
    from moved_update [OF ok s m, of "come_back_columns (s\<lparr>sb_plan := i, sb_leaving := False\<rparr>)"] this show ?thesis
      using s st i p owes returned get_plan_D(2) [OF p(1)]
      by (simp add: subscribe_def subscribe_again_def publish_subscribed_def v_def)
  qed
  have ok1: "bills_ok money ?db" using moved_ok [OF ok s m] by (simp add: publish_ok)
  note s1 = current_moved [OF ok s m, of t]
  have v: "sb_status ?v \<noteq> status_cancelled" "run_out later ?v" "\<not> sb_leaving ?v" "grace_expired later ?v"
    using over later late by (auto simp: v_def run_out_def grace_expired_iff)
  note m2 = bill_move.dunned [OF v, of ?db]
  let ?x = "?v\<lparr>sb_status := status_cancelled, sb_updated := later\<rparr>"
  have "\<exists>db2. renew money us later t ?db = Inr (db2, ?x, None)"
    using end_turn [OF ok1 s1 m2] s1 v by (auto simp: renew_def)
  moreover have "serving (sb_status ?v)" "same_debt s ?v" "same_debt s ?x" "sb_status ?x = status_cancelled"
    by (simp_all add: v_def serving_def same_debt_def)
  ultimately show ?thesis using sub by blast
qed

end
