(* ===== verification/BillingFake.thy ===== *)
theory BillingFake
  imports BillingRuns
begin

section \<open>The fake service\<close>

text \<open>
  \<open>modules/billing/contracts/billingtest/fake.go\<close>: the same lifecycle over two maps and no database, which
  a consumer's tests take instead of the service.  It stands for one tenant, checks no row and stamps none
  but for a commit.  It answers what the service answers (\<open>fake_calls_agree\<close>).
\<close>

record bill_fake =
  fk_plans :: "uuid \<Rightarrow> bill_plan option"
  fk_sub :: "bill_sub option"
  fk_trial :: "time option"
  fk_published :: "string list"

definition new_fake :: bill_fake where
  "new_fake = \<lparr>fk_plans = (\<lambda>_. None), fk_sub = None, fk_trial = None, fk_published = []\<rparr>"

definition fake_put :: "uuid \<Rightarrow> bill_plan \<Rightarrow> bill_fake \<Rightarrow> bill_fake \<times> uuid" where
  "fake_put new q f =
     (let p = q\<lparr>bp_id := (if bp_id q = uuid_nil then new else bp_id q),
                bp_interval := (if bp_interval q = '''' then interval_month else bp_interval q)\<rparr>
      in (f\<lparr>fk_plans := (fk_plans f)(bp_id p \<mapsto> p)\<rparr>, bp_id p))"

definition no_plan :: bill_plan where
  "no_plan = \<lparr>bp_id = uuid_nil, bp_tenant = uuid_nil, bp_created = 0, bp_updated = 0, bp_deleted = None,
     bp_code = '''', bp_name = '''', bp_price = 0, bp_currency = '''', bp_interval = '''', bp_features = [], bp_active = False\<rparr>"

definition fake_reprice :: "uuid \<Rightarrow> int \<Rightarrow> string \<Rightarrow> bill_fake \<Rightarrow> bill_fake" where
  "fake_reprice i cents code f =
     (let p = (case fk_plans f i of None \<Rightarrow> no_plan | Some p \<Rightarrow> p)
      in f\<lparr>fk_plans := (fk_plans f)(i \<mapsto> p\<lparr>bp_price := cents, bp_currency := code\<rparr>)\<rparr>)"

definition fake_expire :: "time \<Rightarrow> bill_fake \<Rightarrow> bill_fake" where
  "fake_expire now f =
     (case fk_sub f of
        None \<Rightarrow> f
      | Some s \<Rightarrow> f\<lparr>fk_sub := Some (s\<lparr>sb_start := add_date 0 (- 1) (- 1) now, sb_end := now - 24 * hour\<rparr>)\<rparr>)"

definition fake_age :: "int \<Rightarrow> bill_fake \<Rightarrow> bill_fake" where
  "fake_age days f =
     (case fk_sub f of
        None \<Rightarrow> f
      | Some s \<Rightarrow> (case sb_past_due s of
          None \<Rightarrow> f
        | Some d \<Rightarrow> f\<lparr>fk_sub := Some (s\<lparr>sb_past_due := Some (add_date 0 0 (- days) d)\<rparr>)\<rparr>))"

definition fake_current :: "bill_fake \<Rightarrow> bill_error + bill_sub" where
  "fake_current f = (case fk_sub f of None \<Rightarrow> Inl BillNotFound | Some s \<Rightarrow> Inr s)"

type_synonym fake_answer = "bill_error + (bill_fake \<times> bill_sub \<times> bill_charge option)"

definition fake_commit :: "time \<Rightarrow> string \<Rightarrow> bill_sub \<Rightarrow> bill_fake \<Rightarrow> fake_answer" where
  "fake_commit now event s f =
     (let v = s\<lparr>sb_updated := now\<rparr>
      in Inr (f\<lparr>fk_sub := Some v, fk_published := fk_published f @ [event]\<rparr>, v, None))"

definition fake_hold :: "bill_sub \<Rightarrow> bill_fake \<Rightarrow> fake_answer" where
  "fake_hold s f = Inr (f\<lparr>fk_sub := Some s\<rparr>, s, None)"

definition fake_first :: "uuid \<Rightarrow> time \<Rightarrow> uuid \<Rightarrow> bill_plan \<Rightarrow> bill_fake \<Rightarrow> fake_answer" where
  "fake_first new now i p f =
     (let s = \<lparr>sb_id = new, sb_tenant = uuid_nil, sb_created = 0, sb_updated = 0, sb_deleted = None,
               sb_plan = i, sb_status = '''', sb_start = 0, sb_end = 0, sb_leaving = False,
               sb_price = bp_price p, sb_currency = bp_currency p, sb_trial = fk_trial f,
               sb_attempts = 0, sb_past_due = None, sb_anchor = anchor_of now\<rparr>
      in case fk_trial f of
           None \<Rightarrow> fake_commit now event_subscribed
               (s\<lparr>sb_status := status_trial, sb_trial := Some now, sb_start := now,
                  sb_end := advance_date now (bp_interval p) (sb_anchor s)\<rparr>) (f\<lparr>fk_trial := Some now\<rparr>)
         | Some _ \<Rightarrow> fake_commit now event_subscribed
               (s\<lparr>sb_status := status_paying, sb_start := back_from now (bp_interval p), sb_end := now\<rparr>) f)"

definition fake_back :: "time \<Rightarrow> bill_plan \<Rightarrow> bill_sub \<Rightarrow> bill_sub" where
  "fake_back now p q =
     (if sb_status q = status_cancelled then
        (let s = q\<lparr>sb_status := status_past_due\<rparr>
         in if outstanding s = None
            then s\<lparr>sb_status := status_paying, sb_start := back_from now (bp_interval p), sb_end := now,
                   sb_price := bp_price p, sb_currency := bp_currency p, sb_anchor := anchor_of now\<rparr>
            else s)
      else q)"

definition fake_subscribe :: "uuid \<Rightarrow> time \<Rightarrow> uuid \<Rightarrow> bill_fake \<Rightarrow> fake_answer" where
  "fake_subscribe new now i f =
     (if i = uuid_nil then Inl (BillInvalid NoPlanNamed)
      else case fk_plans f i of
        None \<Rightarrow> Inl BillNotFound
      | Some p \<Rightarrow>
          if \<not> bp_active p then Inl (BillConflict (InactivePlan (bp_code p)))
          else (case fk_sub f of
            None \<Rightarrow> fake_first new now i p f
          | Some s \<Rightarrow>
              if sb_plan s = i \<and> sb_status s \<noteq> status_cancelled \<and> \<not> sb_leaving s then fake_hold s f
              else if outstanding s \<noteq> None \<and> sb_plan s \<noteq> i then Inl (BillConflict (OwesFor (sb_end s)))
              else fake_commit now event_subscribed (fake_back now p (s\<lparr>sb_plan := i, sb_leaving := False\<rparr>)) f))"

definition fake_cancel :: "time \<Rightarrow> bool \<Rightarrow> bill_fake \<Rightarrow> fake_answer" where
  "fake_cancel now at_period_end f =
     (case fk_sub f of
        None \<Rightarrow> Inl BillNotFound
      | Some s \<Rightarrow>
          if at_period_end then
            (if sb_status s = status_cancelled then Inl (BillConflict AlreadyEnded)
             else if sb_leaving s then fake_hold s f
             else fake_commit now event_cancelled (s\<lparr>sb_leaving := True\<rparr>) f)
          else if sb_status s = status_cancelled then fake_hold s f
          else if outstanding s \<noteq> None then Inl (BillConflict (OwesFor (sb_end s)))
          else fake_commit now event_cancelled (s\<lparr>sb_status := status_cancelled, sb_leaving := False\<rparr>) f)"

definition fake_advance :: "time \<Rightarrow> bill_plan \<Rightarrow> bill_sub \<Rightarrow> bill_fake \<Rightarrow> fake_answer" where
  "fake_advance now p s f =
     fake_commit now event_renewed
       (s\<lparr>sb_start := sb_end s, sb_end := advance_date (sb_end s) (bp_interval p) (sb_anchor s),
          sb_status := status_paying, sb_price := bp_price p, sb_currency := bp_currency p,
          sb_attempts := 0, sb_past_due := None\<rparr>) f"

definition fake_renew :: "(uuid \<Rightarrow> string) \<Rightarrow> time \<Rightarrow> bill_fake \<Rightarrow> fake_answer" where
  "fake_renew us now f =
     (case fk_sub f of
        None \<Rightarrow> Inl BillNotFound
      | Some s \<Rightarrow>
          if sb_status s = status_cancelled \<or> \<not> run_out now s then fake_hold s f
          else if sb_leaving s then fake_hold (s\<lparr>sb_status := status_cancelled\<rparr>) f
          else if grace_expired now s then fake_commit now event_cancelled (s\<lparr>sb_status := status_cancelled\<rparr>) f
          else case fk_plans f (sb_plan s) of
            None \<Rightarrow> Inl BillNotFound
          | Some p \<Rightarrow>
              if sb_price s = 0 then fake_advance now p s f
              else Inr (f, s, Some \<lparr>bc_subject = sb_id s, bc_code = bp_code p, bc_amount = sb_price s,
                bc_currency = sb_currency s, bc_end = sb_end s, bc_key = charge_key us (sb_id s) (sb_end s)\<rparr>))"

definition fake_settle :: "time \<Rightarrow> bill_charge \<Rightarrow> bill_receipt \<Rightarrow> bill_fake \<Rightarrow> fake_answer" where
  "fake_settle now c r f =
     (case fk_sub f of
        None \<Rightarrow> Inl BillNotFound
      | Some s \<Rightarrow>
          if sb_id s \<noteq> bc_subject c \<or> sb_end s \<noteq> bc_end c \<or> sb_status s = status_cancelled then fake_hold s f
          else if br_settled r then
            (case fk_plans f (sb_plan s) of None \<Rightarrow> Inl BillNotFound | Some p \<Rightarrow> fake_advance now p s f)
          else if br_pending r then fake_hold s f
          else let v = s\<lparr>sb_attempts := sb_attempts s + 1,
                         sb_past_due := (case sb_past_due s of None \<Rightarrow> Some now | Some d \<Rightarrow> Some d)\<rparr>
               in if sb_status s = status_past_due then fake_hold v f
                  else fake_commit now event_past_due (v\<lparr>sb_status := status_past_due\<rparr>) f)"

fun fake_ask :: "(uuid \<Rightarrow> string) \<Rightarrow> time \<Rightarrow> bill_call \<Rightarrow> bill_fake \<Rightarrow> fake_answer" where
  "fake_ask us now (AskSubscribe new i) f = fake_subscribe new now i f"
| "fake_ask us now (AskCancel later) f = fake_cancel now later f"
| "fake_ask us now AskRenew f = fake_renew us now f"
| "fake_ask us now (AskSettle c r) f = fake_settle now c r f"

subsection \<open>What the fake does not keep\<close>

text \<open>The owner of a row and its stamps are the database's; of the log, a tenant's events by name.\<close>

definition plain_sub :: "bill_sub \<Rightarrow> bill_sub" where
  "plain_sub s = s\<lparr>sb_tenant := uuid_nil, sb_created := 0, sb_updated := 0, sb_deleted := None\<rparr>"

fun lifecycle :: "bill_event \<Rightarrow> bool" where
  "lifecycle (PlanCreated _) = False"
| "lifecycle (PlanUpdated _) = False"
| "lifecycle (PlanDeleted _) = False"
| "lifecycle _ = True"

definition told_names :: "uuid \<Rightarrow> (uuid \<times> bill_event) list \<Rightarrow> string list" where
  "told_names t log = map (event_label \<circ> snd) (filter (\<lambda>(u, e). u = t \<and> lifecycle e) log)"

definition fake_sees :: "uuid \<Rightarrow> bill_db \<Rightarrow> bill_fake \<Rightarrow> bool" where
  "fake_sees t db f \<longleftrightarrow> map_option plain_sub (fk_sub f) = map_option plain_sub (current_sub t db)
     \<and> fk_trial f = trial_used_at t db \<and> (\<forall>i. fk_plans f i = get_plan i db)
     \<and> fk_published f = told_names t (bl_log db)"

definition shown_answer :: "bill_error + ('a \<times> bill_sub \<times> bill_charge option) \<Rightarrow> bill_error + (bill_sub \<times> bill_charge option)" where
  "shown_answer a = (case a of Inl e \<Rightarrow> Inl e | Inr (_, s, c) \<Rightarrow> Inr (plain_sub s, c))"

definition agree :: "uuid \<Rightarrow> bill_db \<Rightarrow> bill_fake \<Rightarrow> bill_error + (bill_db \<times> bill_sub \<times> bill_charge option) \<Rightarrow> fake_answer \<Rightarrow> bool" where
  "agree t db f a b \<longleftrightarrow> shown_answer a = shown_answer b \<and> fake_sees t (kept_db db a) (kept_db f b)"

lemma agree_refused: "fake_sees t db f \<Longrightarrow> agree t db f (Inl e) (Inl e)"
  by (simp add: agree_def shown_answer_def kept_db_def)

lemma agree_hold:
  assumes "fake_sees t db f" and "fk_sub f = Some w" and "current_sub t db = Some s" and "plain_sub w = plain_sub s"
  shows "agree t db f (Inr (db, s, None)) (fake_hold w f)"
  using assms by (simp add: agree_def shown_answer_def kept_db_def fake_hold_def fake_sees_def)

lemma trial_used_put:
  assumes "rows_distinct db" and "s \<in> set (bl_subs db)" and "sb_id v = sb_id s" "sb_tenant v = sb_tenant s" "sb_trial v = sb_trial s"
  shows "trial_used_at t (put_row v db) = trial_used_at t db"
proof -
  have one: "sb_tenant r = sb_tenant v \<and> sb_trial r = sb_trial v" if "r \<in> set (bl_subs db)" "sb_id r = sb_id v" for r
  proof -
    have "r = s" using assms(1-3) that by (auto simp: rows_distinct_def distinct_map dest: inj_onD)
    then show ?thesis using assms(4,5) by simp
  qed
  have "List.map_filter sb_trial (filter (\<lambda>s. sb_tenant s = t) (map (\<lambda>r. if sb_id r = sb_id v then v else r) rows))
      = List.map_filter sb_trial (filter (\<lambda>s. sb_tenant s = t) rows)" if "set rows \<subseteq> set (bl_subs db)" for rows
    using that one by (induction rows) (auto simp: List.map_filter_def)
  then show ?thesis by (simp add: trial_used_at_def put_row_subs)
qed

lemma told_tell: "told_names t (bl_log (tell t ev db)) = told_names t (bl_log db) @ (case ev of None \<Rightarrow> [] | Some e \<Rightarrow> if lifecycle e then [event_label e] else [])"
  by (auto simp: tell_def told_names_def publish_bill_def split: option.split)

lemma trial_used_tell [simp]: "trial_used_at t (tell t' ev db) = trial_used_at t db"
  by (simp add: trial_used_at_def)

lemma sees_moved:
  assumes ok: "bills_ok money db" and sees: "fake_sees t db f" and s: "current_sub t db = Some s" and m: "bill_move db now call s v ev"
    and w: "plain_sub w = plain_sub v"
    and names: "names = (case ev of None \<Rightarrow> [] | Some e \<Rightarrow> if lifecycle e then [event_label e] else [])"
  shows "fake_sees t (tell t ev (put_row (v\<lparr>sb_updated := now\<rparr>) db)) (f\<lparr>fk_sub := Some w, fk_published := fk_published f @ names\<rparr>)"
proof -
  note fr = bill_move_frame [OF m] and s' = current_sub_D [OF s]
  have "current_sub t (tell t ev (put_row (v\<lparr>sb_updated := now\<rparr>) db)) = Some (v\<lparr>sb_updated := now\<rparr>)"
    by (rule current_moved [OF ok s m])
  moreover have "trial_used_at t (put_row (v\<lparr>sb_updated := now\<rparr>) db) = trial_used_at t db"
    using fr by (intro trial_used_put [OF bills_okD(2) [OF ok] s'(1)]) simp_all
  moreover have "get_plan i (tell t ev (put_row (v\<lparr>sb_updated := now\<rparr>) db)) = get_plan i db" for i
    by (rule get_plan_cong) simp
  moreover have "plain_sub (v\<lparr>sb_updated := now\<rparr>) = plain_sub v" by (simp add: plain_sub_def)
  ultimately show ?thesis using sees w by (simp add: fake_sees_def told_tell names)
qed

lemma agree_moved:
  assumes ok: "bills_ok money db" and sees: "fake_sees t db f" and s: "current_sub t db = Some s" and m: "bill_move db now call s v (Some e)"
    and w: "plain_sub w = plain_sub v" and e: "lifecycle e" "event_label e = name"
  shows "agree t db f (Inr (publish_bill t e (put_row (v\<lparr>sb_updated := now\<rparr>) db), v\<lparr>sb_updated := now\<rparr>, None)) (fake_commit now name w f)"
proof -
  have p: "plain_sub (x\<lparr>sb_updated := now\<rparr>) = plain_sub x" for x by (simp add: plain_sub_def)
  have "fake_sees t (tell t (Some e) (put_row (v\<lparr>sb_updated := now\<rparr>) db))
      (f\<lparr>fk_sub := Some (w\<lparr>sb_updated := now\<rparr>), fk_published := fk_published f @ [name]\<rparr>)"
    using e w by (intro sees_moved [OF ok sees s m]) (simp_all add: p)
  then show ?thesis using w by (simp add: agree_def shown_answer_def kept_db_def fake_commit_def Let_def p)
qed

lemma agree_moved_silent:
  assumes ok: "bills_ok money db" and sees: "fake_sees t db f" and s: "current_sub t db = Some s" and m: "bill_move db now call s v None"
    and w: "plain_sub w = plain_sub v"
  shows "agree t db f (Inr (put_row (v\<lparr>sb_updated := now\<rparr>) db, v\<lparr>sb_updated := now\<rparr>, None)) (fake_hold w f)"
proof -
  have "fake_sees t (tell t None (put_row (v\<lparr>sb_updated := now\<rparr>) db)) (f\<lparr>fk_sub := Some w, fk_published := fk_published f @ []\<rparr>)"
    by (rule sees_moved [OF ok sees s m w]) simp
  then have "fake_sees t (put_row (v\<lparr>sb_updated := now\<rparr>) db) (f\<lparr>fk_sub := Some w\<rparr>)" by simp
  moreover have "plain_sub (v\<lparr>sb_updated := now\<rparr>) = plain_sub w" using w by (simp add: plain_sub_def)
  ultimately show ?thesis by (simp add: agree_def shown_answer_def kept_db_def fake_hold_def)
qed

text \<open>Two rows alike but for owner and stamps.\<close>

lemma plain_sub_eqD:
  assumes "plain_sub w = plain_sub s"
  shows "sb_id w = sb_id s" "sb_plan w = sb_plan s" "sb_status w = sb_status s" "sb_start w = sb_start s" "sb_end w = sb_end s"
    "sb_leaving w = sb_leaving s" "sb_price w = sb_price s" "sb_currency w = sb_currency s" "sb_trial w = sb_trial s"
    "sb_attempts w = sb_attempts s" "sb_past_due w = sb_past_due s" "sb_anchor w = sb_anchor s"
  using assms by (cases w; cases s; simp add: plain_sub_def)+

lemma plain_sub_row:
  assumes "plain_sub w = plain_sub s"
  obtains a b c d where "w = s\<lparr>sb_tenant := a, sb_created := b, sb_updated := c, sb_deleted := d\<rparr>"
proof
  show "w = s\<lparr>sb_tenant := sb_tenant w, sb_created := sb_created w, sb_updated := sb_updated w, sb_deleted := sb_deleted w\<rparr>"
    using plain_sub_eqD [OF assms] by (cases w; cases s) simp
qed

subsection \<open>Call by call\<close>

lemma fake_of_None:
  assumes "fake_sees t db f" and "current_sub t db = None"
  shows "fk_sub f = None"
  using assms by (simp add: fake_sees_def)

lemma fake_of_Some:
  assumes "fake_sees t db f" and "current_sub t db = Some s"
  obtains a b c d where "fk_sub f = Some (s\<lparr>sb_tenant := a, sb_created := b, sb_updated := c, sb_deleted := d\<rparr>)"
proof -
  from assms obtain w where w: "fk_sub f = Some w" "plain_sub w = plain_sub s"
    by (cases "fk_sub f") (auto simp: fake_sees_def)
  from plain_sub_row [OF w(2)] that w(1) show thesis by metis
qed

lemma plain_stamps [simp]: "plain_sub (s\<lparr>sb_tenant := a, sb_created := b, sb_updated := c, sb_deleted := d\<rparr>) = plain_sub s"
  by (simp add: plain_sub_def)

lemma outstanding_stamps [simp]:
  "outstanding (s\<lparr>sb_tenant := a, sb_created := b, sb_updated := c, sb_deleted := d\<rparr>) = outstanding s"
  "run_out now (s\<lparr>sb_tenant := a, sb_created := b, sb_updated := c, sb_deleted := d\<rparr>) = run_out now s"
  "grace_expired now (s\<lparr>sb_tenant := a, sb_created := b, sb_updated := c, sb_deleted := d\<rparr>) = grace_expired now s"
  by (simp_all add: outstanding_def run_out_def grace_expired_def split: option.split)

lemma fake_cancel_agrees:
  assumes ok: "bills_ok money db" and sees: "fake_sees t db f"
  shows "agree t db f (no_charge (cancel_sub money now t later db)) (fake_cancel now later f)"
proof (cases "current_sub t db")
  case None
  then show ?thesis using fake_of_None [OF sees None] agree_refused [OF sees]
    by (simp add: cancel_sub_def fake_cancel_def no_charge_def)
next
  case (Some s)
  obtain a b c d where w: "fk_sub f = Some (s\<lparr>sb_tenant := a, sb_created := b, sb_updated := c, sb_deleted := d\<rparr>)"
    (is "_ = Some ?w") using fake_of_Some [OF sees Some] .
  note hold = agree_hold [OF sees w Some]
  show ?thesis
  proof (cases later)
    case True
    have m: "bill_move db now (AskCancel True) s (s\<lparr>sb_leaving := True\<rparr>) (Some (SubCancelled (sb_id s) (sb_end s) False '''' now))"
      if "sb_status s \<noteq> status_cancelled" "\<not> sb_leaving s" using that by (rule bill_move.leaves)
    have p: "plain_sub (?w\<lparr>sb_leaving := True\<rparr>) = plain_sub (s\<lparr>sb_leaving := True\<rparr>)" by (simp add: plain_sub_def)
    show ?thesis
      using True hold agree_refused [OF sees] w Some agree_moved [OF ok sees Some m p] moved_update [OF ok Some m, of write_leaving]
      by (auto simp: cancel_sub_def cancel_later_def fake_cancel_def no_charge_def write_leaving_def)
  next
    case False
    have m: "bill_move db now (AskCancel False) s (s\<lparr>sb_status := status_cancelled, sb_leaving := False\<rparr>) (Some (SubCancelled (sb_id s) now True '''' now))"
      if "sb_status s \<noteq> status_cancelled" "outstanding s = None" using that by (rule bill_move.stops)
    have p: "plain_sub (?w\<lparr>sb_status := status_cancelled, sb_leaving := False\<rparr>) = plain_sub (s\<lparr>sb_status := status_cancelled, sb_leaving := False\<rparr>)"
      by (simp add: plain_sub_def)
    show ?thesis
      using False hold agree_refused [OF sees] w Some agree_moved [OF ok sees Some m p]
        moved_update [OF ok Some m, of "\<lambda>s r. write_leaving s (write_status s r)"]
      by (auto simp: cancel_sub_def cancel_now_def fake_cancel_def no_charge_def write_leaving_def write_status_def)
  qed
qed

lemma plain_moves:
  assumes "plain_sub w = plain_sub s"
  shows "plain_sub (next_period p w) = plain_sub (next_period p s)"
    "plain_sub (refused_once now w) = plain_sub (refused_once now s)"
    "plain_sub (w\<lparr>sb_status := st\<rparr>) = plain_sub (s\<lparr>sb_status := st\<rparr>)"
    "plain_sub (w\<lparr>sb_plan := i, sb_leaving := b\<rparr>) = plain_sub (s\<lparr>sb_plan := i, sb_leaving := b\<rparr>)"
    "plain_sub (come_back now p w) = plain_sub (come_back now p s)"
proof -
  obtain a b c d where w: "w = s\<lparr>sb_tenant := a, sb_created := b, sb_updated := c, sb_deleted := d\<rparr>"
    by (rule plain_sub_row [OF assms])
  show "plain_sub (next_period p w) = plain_sub (next_period p s)"
    "plain_sub (refused_once now w) = plain_sub (refused_once now s)"
    "plain_sub (w\<lparr>sb_status := st\<rparr>) = plain_sub (s\<lparr>sb_status := st\<rparr>)"
    "plain_sub (w\<lparr>sb_plan := i, sb_leaving := b'\<rparr>) = plain_sub (s\<lparr>sb_plan := i, sb_leaving := b'\<rparr>)"
    "plain_sub (come_back now p w) = plain_sub (come_back now p s)" for b'
    unfolding w by (simp_all add: plain_sub_def next_period_def refused_once_def come_back_def Let_def outstanding_def split: option.split)
qed

lemma fake_advance_eq: "fake_advance now p s f = fake_commit now event_renewed (next_period p s) f"
  by (simp add: fake_advance_def next_period_def)

lemma fake_renew_agrees:
  assumes ok: "bills_ok money db" and sees: "fake_sees t db f"
  shows "agree t db f (renew money us now t db) (fake_renew us now f)"
proof (cases "current_sub t db")
  case None
  then show ?thesis using fake_of_None [OF sees None] agree_refused [OF sees]
    by (simp add: renew_def fake_renew_def)
next
  case (Some s)
  obtain a b c d where w: "fk_sub f = Some (s\<lparr>sb_tenant := a, sb_created := b, sb_updated := c, sb_deleted := d\<rparr>)"
    (is "_ = Some ?w") using fake_of_Some [OF sees Some] .
  note hold = agree_hold [OF sees w Some] and plain = plain_moves [of ?w s, OF plain_stamps]
  show ?thesis
  proof (cases "sb_status s = status_cancelled \<or> \<not> run_out now s")
    case True
    then show ?thesis using hold w Some by (auto simp: renew_def fake_renew_def)
  next
    case on: False
    then have st: "sb_status s \<noteq> status_cancelled" "run_out now s" by simp_all
    obtain p where p: "get_plan (sb_plan s) db = Some p" "plan_of s db = Inr p"
      using plan_of_current [OF ok Some st(1)] by blast
    then have fp: "fk_plans f (sb_plan s) = Some p" using sees by (simp add: fake_sees_def)
    consider "sb_leaving s" | "\<not> sb_leaving s" "grace_expired now s"
      | "\<not> sb_leaving s" "\<not> grace_expired now s" "sb_price s = 0"
      | "\<not> sb_leaving s" "\<not> grace_expired now s" "sb_price s \<noteq> 0" by blast
    then show ?thesis
    proof cases
      case 1
      note m = bill_move.lapses [OF st 1, of db]
      show ?thesis using agree_moved_silent [OF ok sees Some m plain(3)] end_turn [OF ok Some m] on 1 Some w
        by (simp add: renew_def fake_renew_def)
    next
      case 2
      note m = bill_move.dunned [OF st 2, of db]
      show ?thesis using agree_moved [OF ok sees Some m plain(3), where name = event_cancelled] end_turn [OF ok Some m] on 2 Some w
        by (simp add: renew_def fake_renew_def)
    next
      case 3
      note m = bill_move.free [OF st 3(1,2) p(1) 3(3)]
      show ?thesis using agree_moved [OF ok sees Some m plain(1), where name = event_renewed] advance_turn [OF ok Some m refl] on 3 Some w p fp
        by (simp add: renew_def fake_renew_def fake_advance_eq)
    next
      case 4
      then show ?thesis using on Some w p fp sees
        by (simp add: renew_def fake_renew_def agree_def shown_answer_def kept_db_def charge_of_def)
    qed
  qed
qed

lemma fake_settle_agrees:
  assumes ok: "bills_ok money db" and sees: "fake_sees t db f"
  shows "agree t db f (no_charge (settle money now t c r db)) (fake_settle now c r f)"
proof (cases "current_sub t db")
  case None
  then show ?thesis using fake_of_None [OF sees None] agree_refused [OF sees]
    by (simp add: settle_def fake_settle_def no_charge_def)
next
  case (Some s)
  obtain x y z d where w: "fk_sub f = Some (s\<lparr>sb_tenant := x, sb_created := y, sb_updated := z, sb_deleted := d\<rparr>)"
    (is "_ = Some ?w") using fake_of_Some [OF sees Some] .
  note hold = agree_hold [OF sees w Some] and plain = plain_moves [of ?w s, OF plain_stamps]
  show ?thesis
  proof (cases "sb_id s \<noteq> bc_subject c \<or> sb_end s \<noteq> bc_end c \<or> sb_status s = status_cancelled")
    case True
    then show ?thesis using hold w Some by (auto simp: settle_def fake_settle_def no_charge_def)
  next
    case on: False
    then have c: "bc_subject c = sb_id s" "bc_end c = sb_end s" "sb_status s \<noteq> status_cancelled" by auto
    obtain p where p: "get_plan (sb_plan s) db = Some p" "plan_of s db = Inr p"
      using plan_of_current [OF ok Some c(3)] by blast
    then have fp: "fk_plans f (sb_plan s) = Some p" using sees by (simp add: fake_sees_def)
    consider "br_settled r" | "\<not> br_settled r" "br_pending r" | "\<not> br_settled r" "\<not> br_pending r" by blast
    then show ?thesis
    proof cases
      case 1
      note m = bill_move.paid [OF c(3,1,2) 1 p(1), of now]
      show ?thesis using agree_moved [OF ok sees Some m plain(1), where name = event_renewed] advance_turn [OF ok Some m refl] on 1 Some w p fp
        by (simp add: settle_def fake_settle_def fake_advance_eq no_charge_def)
    next
      case 2
      then show ?thesis using hold on w Some by (simp add: settle_def fake_settle_def no_charge_def)
    next
      case 3
      note m = bill_move.refused [OF c(3,1,2) 3 refl, of db now]
      note up = moved_update [OF ok Some m, of "\<lambda>s r. write_dunning s (write_status s r)"]
      show ?thesis
      proof (cases "sb_status s = status_past_due")
        case True
        with m have m': "bill_move db now (AskSettle c r) s (refused_once now s) None" by simp
        have p': "plain_sub (?w\<lparr>sb_attempts := sb_attempts s + 1,
            sb_past_due := (case sb_past_due s of None \<Rightarrow> Some now | Some d \<Rightarrow> Some d)\<rparr>) = plain_sub (refused_once now s)"
          using True by (cases s) (simp add: plain_sub_def refused_once_def)
        show ?thesis using agree_moved_silent [OF ok sees Some m' p'] up on 3 Some w True
          by (simp add: settle_def fake_settle_def no_charge_def write_dunning_def write_status_def refused_once_def)
      next
        case False
        with m have m': "bill_move db now (AskSettle c r) s (refused_once now s)
            (Some (SubPastDue (sb_id s) (bc_amount c) (bc_currency c) (bc_end c) (sb_attempts s + 1)
               (the (sb_past_due (refused_once now s)) + grace_period) now))" by simp
        show ?thesis using agree_moved [OF ok sees Some m' plain(2), where name = event_past_due] up on 3 Some w False
          by (simp add: settle_def fake_settle_def no_charge_def write_dunning_def write_status_def refused_once_def Let_def)
      qed
    qed
  qed
qed

lemma fake_back_eq:
  "fake_back now p s = (if sb_status s = status_cancelled then come_back now p s else s)"
  by (simp add: fake_back_def come_back_def)

lemma trial_used_added:
  assumes "bl_subs db' = bl_subs db @ [v]" and "sb_tenant v = t" and "trial_used_at t db = None" and "sb_trial v = Some x"
  shows "trial_used_at t db' = Some x"
  using assms by (auto simp: trial_used_at_def List.map_filter_def split: list.splits)

lemma agree_added:
  assumes ok: "bills_ok money db" and sees: "fake_sees t db f" and none: "current_sub t db = None"
    and p: "get_plan i db = Some p" "i \<noteq> uuid_nil" and new: "new \<notin> sb_id ` set (bl_subs db)" "new \<noteq> uuid_nil"
    and v: "v = (new_sub i now (trial_used_at t db) p)\<lparr>sb_id := new, sb_tenant := t, sb_created := now, sb_updated := now\<rparr>"
    and fit: "sub_fit money v"
  shows "agree t db f
    (Inr (publish_bill t (SubSubscribed new i (bp_code p) (sb_status v) (sb_end v) now) (add_row v db), v, None))
    (fake_first new now i p f)"
proof -
  let ?db = "publish_bill t (SubSubscribed new i (bp_code p) (sb_status v) (sb_end v) now) (add_row v db)"
  have trial: "fk_trial f = trial_used_at t db" using sees by (simp add: fake_sees_def)
  have okv: "bills_ok money (add_row v db)" by (rule row_added_ok [OF ok none p(1) new v fit])
  have eqs: "sb_tenant v = t" "sb_deleted v = None" unfolding v new_sub_def by (simp_all add: Let_def split: option.split)
  have cur: "current_sub t ?db = Some v"
    using current_sub_iff [OF bills_okD(3), of money ?db t v] okv eqs by (simp add: publish_ok add_row_def)
  have plans: "get_plan j ?db = get_plan j db" for j by (rule get_plan_cong) simp
  have names: "told_names t (bl_log ?db) = told_names t (bl_log db) @ [event_subscribed]"
    by (simp add: told_names_def)
  have sbs: "bl_subs ?db = bl_subs db @ [v]" by (simp add: add_row_def)
  show ?thesis
  proof (cases "trial_used_at t db")
    case None
    have "sb_trial v = Some now" unfolding v new_sub_def by (simp add: Let_def None)
    then have "trial_used_at t ?db = Some now" by (rule trial_used_added [OF sbs eqs(1) None])
    then show ?thesis using cur plans names sees None trial unfolding agree_def fake_first_def
      by (simp add: shown_answer_def kept_db_def fake_sees_def fake_commit_def v new_sub_def plain_sub_def Let_def)
  next
    case (Some x)
    have same: "trial_used_at t ?db = trial_used_at t db"
    proof -
      have vx: "sb_trial v = Some x" unfolding v new_sub_def by (simp add: Let_def Some)
      obtain y ys where ys: "List.map_filter sb_trial (filter (\<lambda>s. sb_tenant s = t) (bl_subs db)) = y # ys" "x = fold min ys y"
        using Some by (auto simp: trial_used_at_def split: list.splits)
      have "List.map_filter sb_trial (filter (\<lambda>s. sb_tenant s = t) (bl_subs ?db)) = y # ys @ [x]"
        using ys(1) vx eqs(1) unfolding sbs by (simp add: List.map_filter_def)
      then show ?thesis using ys Some by (simp add: trial_used_at_def)
    qed
    then show ?thesis using cur plans names sees Some trial unfolding agree_def fake_first_def
      by (simp add: shown_answer_def kept_db_def fake_sees_def fake_commit_def v new_sub_def plain_sub_def Let_def)
  qed
qed

lemma fake_subscribe_agrees:
  assumes ok: "bills_ok money db" and sees: "fake_sees t db f"
    and new: "current_sub t db = None \<Longrightarrow> new \<notin> sb_id ` set (bl_subs db) \<and> new \<noteq> uuid_nil"
  shows "agree t db f (no_charge (subscribe money new now t i db)) (fake_subscribe new now i f)"
proof (cases "i = uuid_nil \<or> get_plan i db = None \<or> \<not> bp_active (the (get_plan i db))")
  case True
  then show ?thesis using sees agree_refused [OF sees]
    by (auto simp: subscribe_def fake_subscribe_def no_charge_def fake_sees_def split: option.splits)
next
  case False
  then obtain p where p: "get_plan i db = Some p" "bp_active p" "i \<noteq> uuid_nil" by auto
  have fp: "fk_plans f i = Some p" using p(1) sees by (simp add: fake_sees_def)
  show ?thesis
  proof (cases "current_sub t db")
    case None
    have fit: "plan_fit money p" using bills_okD(1) [OF ok] get_plan_D(1) [OF p(1)] by (simp add: rows_fit_def)
    note row = first_row [OF None p(1,3) fit, where new = new and now = now]
    have fresh: "new \<notin> sb_id ` set (bl_subs db)" "new \<noteq> uuid_nil" using new [OF None] by auto
    show ?thesis
      using agree_added [OF ok sees None p(1,3) fresh refl row(1)] row(2) fresh fp p None fake_of_None [OF sees None]
      by (simp add: subscribe_def fake_subscribe_def no_charge_def)
  next
    case (Some s)
    obtain a b c d where w: "fk_sub f = Some (s\<lparr>sb_tenant := a, sb_created := b, sb_updated := c, sb_deleted := d\<rparr>)"
      (is "_ = Some ?w") using fake_of_Some [OF sees Some] .
    show ?thesis
    proof (cases "sb_plan s = i \<and> sb_status s \<noteq> status_cancelled \<and> \<not> sb_leaving s \<or> outstanding s \<noteq> None \<and> sb_plan s \<noteq> i")
      case True
      then show ?thesis using agree_hold [OF sees w Some] agree_refused [OF sees] w Some p fp
        by (auto simp: subscribe_def fake_subscribe_def no_charge_def)
    next
      case False
      then have on: "\<not> (sb_plan s = i \<and> sb_status s \<noteq> status_cancelled \<and> \<not> sb_leaving s)"
          "outstanding s = None \<or> sb_plan s = i" by auto
      have service: "subscribe money new now t i db = subscribe_again money now t i p s db"
        and fake: "fake_subscribe new now i f = fake_commit now event_subscribed (fake_back now p (?w\<lparr>sb_plan := i, sb_leaving := False\<rparr>)) f"
        using on p fp w Some by (auto simp: subscribe_def fake_subscribe_def)
      have plain: "plain_sub (?w\<lparr>sb_plan := i, sb_leaving := False\<rparr>) = plain_sub (s\<lparr>sb_plan := i, sb_leaving := False\<rparr>)"
        by (simp add: plain_sub_def)
      show ?thesis
      proof (cases "sb_status s = status_cancelled")
        case True
        note m = bill_move.comes_back [OF True on(2) p refl, of now new]
        show ?thesis unfolding service fake
          using agree_moved [OF ok sees Some m plain_moves(5) [OF plain], where name = event_subscribed]
            again_back [OF ok Some m True get_plan_D(2) [OF p(1)]] True
          by (simp add: fake_back_eq no_charge_def)
      next
        case other: False
        then have move: "bill_move db now (AskSubscribe new i) s (s\<lparr>sb_plan := i, sb_leaving := False\<rparr>)
            (Some (SubSubscribed (sb_id s) i (bp_code p) (sb_status s) (sb_end s) now))"
          using on p by (intro bill_move.enrol) auto
        show ?thesis unfolding service fake
          using agree_moved [OF ok sees Some move plain, where name = event_subscribed] again_enrol [OF ok Some move other get_plan_D(2) [OF p(1)]] other
          by (simp add: fake_back_eq no_charge_def)
      qed
    qed
  qed
qed

subsection \<open>Any sequence of calls\<close>

text \<open>The calls of one tenant in their order, each with its instant, and what each answers.\<close>

fun service_calls ::
    "(string \<Rightarrow> bool) \<Rightarrow> (uuid \<Rightarrow> string) \<Rightarrow> uuid \<Rightarrow> (time \<times> bill_call) list \<Rightarrow> bill_db
      \<Rightarrow> bill_db \<times> (bill_error + (bill_sub \<times> bill_charge option)) list" where
  "service_calls money us t [] db = (db, [])"
| "service_calls money us t ((now, call) # rest) db =
     (let a = bill_ask money us now t call db; (db', as) = service_calls money us t rest (kept_db db a)
      in (db', shown_answer a # as))"

fun fake_calls ::
    "(uuid \<Rightarrow> string) \<Rightarrow> (time \<times> bill_call) list \<Rightarrow> bill_fake
      \<Rightarrow> bill_fake \<times> (bill_error + (bill_sub \<times> bill_charge option)) list" where
  "fake_calls us [] f = (f, [])"
| "fake_calls us ((now, call) # rest) f =
     (let a = fake_ask us now call f; (f', as) = fake_calls us rest (kept_db f a)
      in (f', shown_answer a # as))"

fun made_by :: "bill_call \<Rightarrow> uuid list" where
  "made_by (AskSubscribe new i) = [new]"
| "made_by _ = []"

definition fresh_for :: "bill_db \<Rightarrow> (time \<times> bill_call) list \<Rightarrow> bool" where
  "fresh_for db calls \<longleftrightarrow> (let made = concat (map (made_by \<circ> snd) calls)
     in distinct made \<and> uuid_nil \<notin> set made \<and> set made \<inter> sb_id ` set (bl_subs db) = {})"

lemma fresh_for_Cons:
  assumes "fresh_for db ((now, call) # rest)"
    and "sb_id ` set (bl_subs db') \<subseteq> sb_id ` set (bl_subs db) \<union> set (made_by call)"
  shows "fresh_for db' rest"
  using assms by (fastforce simp: fresh_for_def Let_def)

lemma bill_ask_ids:
  assumes "bills_ok money db"
  shows "sb_id ` set (bl_subs (kept_db db (bill_ask money us now t call db))) \<subseteq> sb_id ` set (bl_subs db) \<union> set (made_by call)"
  using bill_ask_turn [OF assms, of us now t call]
proof (cases rule: bill_turn.cases)
  case (moved s v ev)
  have "sb_id ` set (bl_subs (put_row (v\<lparr>sb_updated := now\<rparr>) db)) = sb_id ` set (bl_subs db)"
    by (metis put_row_ids list.set_map)
  then show ?thesis using moved(1) by (simp add: kept_db_def)
next
  case (added new i p v)
  have "sb_id v = new" unfolding added(8) by simp
  then show ?thesis using added(1,2) by (auto simp: kept_db_def)
qed (auto simp: kept_db_def)

lemma bill_ask_ok:
  assumes ok: "bills_ok money db" and new: "uuid_nil \<notin> set (made_by call)"
  shows "bills_ok money (kept_db db (bill_ask money us now t call db))"
  using bill_ask_turn [OF ok, of us now t call]
proof (cases rule: bill_turn.cases)
  case (moved s v ev)
  then show ?thesis using moved_ok [OF ok moved(2,3)] by (simp add: kept_db_def tell_ok)
next
  case (added new i p v)
  then show ?thesis using row_added_ok [OF ok added(3,4,7) _ added(8,9)] new by (simp add: kept_db_def publish_ok)
qed (use ok in \<open>auto simp: kept_db_def\<close>)

lemma fake_ask_agrees:
  assumes "bills_ok money db" and "fake_sees t db f" and "fresh_for db ((now, call) # rest)"
  shows "agree t db f (bill_ask money us now t call db) (fake_ask us now call f)"
proof (cases call)
  case (AskSubscribe new i)
  then have "new \<notin> sb_id ` set (bl_subs db)" "new \<noteq> uuid_nil"
    using assms(3) by (auto simp: fresh_for_def Let_def)
  then show ?thesis using fake_subscribe_agrees [OF assms(1,2)] AskSubscribe by simp
qed (simp_all add: fake_cancel_agrees [OF assms(1,2)] fake_renew_agrees [OF assms(1,2)] fake_settle_agrees [OF assms(1,2)])

lemma fake_calls_agree:
  assumes "bills_ok money db" and "fake_sees t db f" and "fresh_for db calls"
  shows "snd (service_calls money us t calls db) = snd (fake_calls us calls f)
    \<and> fake_sees t (fst (service_calls money us t calls db)) (fst (fake_calls us calls f))"
  using assms
proof (induction calls arbitrary: db f)
  case Nil
  then show ?case by simp
next
  case (Cons a rest)
  obtain now call where a: "a = (now, call)" by (cases a)
  have both: "agree t db f (bill_ask money us now t call db) (fake_ask us now call f)"
    using Cons.prems a by (intro fake_ask_agrees) auto
  have fresh: "fresh_for (kept_db db (bill_ask money us now t call db)) rest"
    using fresh_for_Cons [OF _ bill_ask_ids [OF Cons.prems(1)]] Cons.prems(3) a by blast
  have "uuid_nil \<notin> set (made_by call)" using Cons.prems(3) a by (auto simp: fresh_for_def Let_def)
  from Cons.IH [OF bill_ask_ok [OF Cons.prems(1) this] _ fresh] both show ?case
    unfolding a by (simp add: agree_def case_prod_beta Let_def)
qed

text \<open>A fake given the catalogue sees what a tenant without a subscription sees.\<close>

lemma new_fake_sees:
  assumes "\<forall>s \<in> set (bl_subs db). sb_tenant s \<noteq> t" and "told_names t (bl_log db) = []"
  shows "fake_sees t db (new_fake\<lparr>fk_plans := \<lambda>i. get_plan i db\<rparr>)"
proof -
  have "current_sub t db = None" using assms(1) by (auto simp: current_sub_None)
  moreover have "filter (\<lambda>s. sb_tenant s = t) (bl_subs db) = []" using assms(1) by (simp add: filter_empty_conv)
  ultimately show ?thesis using assms(2) by (simp add: fake_sees_def new_fake_def trial_used_at_def List.map_filter_def)
qed

end
