(* ===== verification/BillingProperties.thy ===== *)
theory BillingProperties
  imports BillingDebts BillingFake
begin

section \<open>What billing promises\<close>

text \<open>
  The properties of \<open>modules/billing\<close>: what every row keeps, what becomes of a debt, that the fake a
  consumer tests with answers what the service answers, how a week of refused charges ends, which
  renewals are published and when periods end; before them, an installation to evaluate with.
\<close>

subsection \<open>An installation to evaluate with\<close>

text \<open>
  A catalogue of one plan; the tenant 7 takes it up, its trial ends on the first of February of year 1,
  the charge is refused once and then paid.
\<close>

definition euros :: "string \<Rightarrow> bool" where "euros c \<longleftrightarrow> c = ''EUR''"

definition pro_plan :: bill_plan where
  "pro_plan = \<lparr>bp_id = 5, bp_tenant = 1, bp_created = 1, bp_updated = 1, bp_deleted = None,
     bp_code = ''pro'', bp_name = ''Pro'', bp_price = 900, bp_currency = ''EUR'', bp_interval = interval_month,
     bp_features = [''reports''], bp_active = True\<rparr>"

definition trial_over :: time where "trial_over = 31 * day_ns + 2"
definition next_over :: time where "next_over = advance_date trial_over interval_month 1"

definition trial_sub :: bill_sub where
  "trial_sub = \<lparr>sb_id = 9, sb_tenant = 7, sb_created = 2, sb_updated = 2, sb_deleted = None,
     sb_plan = 5, sb_status = status_trial, sb_start = 2, sb_end = trial_over, sb_leaving = False,
     sb_price = 900, sb_currency = ''EUR'', sb_trial = Some 2, sb_attempts = 0, sb_past_due = None, sb_anchor = 1\<rparr>"

definition owing_sub :: bill_sub where
  "owing_sub = trial_sub\<lparr>sb_updated := trial_over + 1, sb_status := status_past_due, sb_attempts := 1,
     sb_past_due := Some (trial_over + 1)\<rparr>"

definition paying_sub :: bill_sub where
  "paying_sub = trial_sub\<lparr>sb_updated := trial_over + 2, sb_status := status_paying, sb_start := trial_over, sb_end := next_over\<rparr>"

definition pro_charge :: bill_charge where
  "pro_charge = \<lparr>bc_subject = 9, bc_code = ''pro'', bc_amount = 900, bc_currency = ''EUR'', bc_end = trial_over,
     bc_key = charge_key uuid_text 9 trial_over\<rparr>"

definition refusal :: bill_receipt where
  "refusal = \<lparr>br_reference = ''r1'', br_settled = False, br_pending = False, br_at = 0\<rparr>"

definition payment :: bill_receipt where
  "payment = \<lparr>br_reference = ''r2'', br_settled = True, br_pending = False, br_at = 0\<rparr>"

definition plan_world :: bill_world where
  "plan_world = \<lparr>bw_db = \<lparr>bl_plans = [pro_plan], bl_subs = [], bl_log = [(1, PlanCreated 5)]\<rparr>,
     bw_clock = 1, bw_due = [], bw_taken = []\<rparr>"

definition trial_world :: bill_world where
  "trial_world = \<lparr>bw_db = \<lparr>bl_plans = [pro_plan], bl_subs = [trial_sub],
       bl_log = [(1, PlanCreated 5), (7, SubSubscribed 9 5 ''pro'' status_trial trial_over 2)]\<rparr>,
     bw_clock = 2, bw_due = [], bw_taken = []\<rparr>"

definition owing_world :: bill_world where
  "owing_world = \<lparr>bw_db = \<lparr>bl_plans = [pro_plan], bl_subs = [owing_sub],
       bl_log = [(1, PlanCreated 5), (7, SubSubscribed 9 5 ''pro'' status_trial trial_over 2),
         (7, SubPastDue 9 900 ''EUR'' trial_over 1 (trial_over + 1 + grace_period) (trial_over + 1))]\<rparr>,
     bw_clock = trial_over + 1, bw_due = [pro_charge], bw_taken = [(pro_charge, refusal)]\<rparr>"

definition paid_world :: bill_world where
  "paid_world = \<lparr>bw_db = \<lparr>bl_plans = [pro_plan], bl_subs = [paying_sub],
       bl_log = bl_log (bw_db owing_world) @ [(7, SubRenewed 9 trial_over next_over ''r2'' (trial_over + 2))]\<rparr>,
     bw_clock = trial_over + 2, bw_due = [pro_charge], bw_taken = [(pro_charge, refusal), (pro_charge, payment)]\<rparr>"

lemma demo_dates: "anchor_of 2 = 1" "advance_date 2 interval_month 1 = trial_over" "(2::int) < trial_over" "trial_over < next_over"
proof -
  have p: "t_month 2 = 12" "t_day 2 = 1" "t_clock 2 = 2" by code_simp+
  then show a: "anchor_of 2 = 1" by (simp add: anchor_of_def)
  have "month_length 13 = 28" "month_start 13 = 31" by code_simp+
  then show "advance_date 2 interval_month 1 = trial_over"
    by (simp add: advance_date_eq p interval_months_def interval_month_def interval_year_def time_date_def trial_over_def)
  then show "(2::int) < trial_over" using advance_date_later [of 2 interval_month 1] by simp
  show "trial_over < next_over" using advance_date_later [of trial_over interval_month 1] by (simp add: next_over_def)
qed

lemmas demo_defs = fresh_bills_def empty_bills_def plan_world_def trial_world_def owing_world_def paid_world_def
  trial_sub_def owing_sub_def paying_sub_def pro_plan_def pro_charge_def refusal_def payment_def

lemma shouted_eur: "shouted ''EUR'' = ''EUR''"
  by code_simp

lemma demo_valid: "validate_plan euros (pro_plan\<lparr>bp_interval := '''', bp_currency := ''eur''\<rparr>) = Inr pro_plan"
  "status_trial \<in> set bill_statuses" "status_past_due \<in> set bill_statuses" "status_paying \<in> set bill_statuses"
  "status_trial \<noteq> ''''" "status_past_due \<noteq> ''''" "status_paying \<noteq> ''''"
  "status_trial \<noteq> status_cancelled" "status_past_due \<noteq> status_cancelled" "status_paying \<noteq> status_cancelled"
  "status_trial \<noteq> status_past_due"
  by code_simp+

lemma plan_step: "bill_step euros uuid_text 1 (MakePlan 5 1 (pro_plan\<lparr>bp_interval := '''', bp_currency := ''eur''\<rparr>)) (fresh_bills 0) = plan_world"
proof -
  have "(pro_plan\<lparr>bp_interval := '''', bp_currency := ''eur''\<rparr>)\<lparr>bp_id := 5, bp_tenant := 1, bp_deleted := None\<rparr>
      = pro_plan\<lparr>bp_interval := '''', bp_currency := ''eur''\<rparr>" by (simp add: pro_plan_def)
  then show ?thesis
    by (simp add: create_plan_def demo_valid kept_db_def publish_bill_def fresh_bills_def empty_bills_def plan_world_def Let_def)
      (simp add: pro_plan_def)
qed

lemma trial_step: "bill_step euros uuid_text 2 (Tenant 7 (AskSubscribe 9 5)) plan_world = trial_world"
proof -
  let ?s = "trial_sub\<lparr>sb_created := 0, sb_updated := 0\<rparr>"
  have new: "(new_sub 5 2 None pro_plan)\<lparr>sb_id := 9, sb_tenant := 7, sb_deleted := None\<rparr> = ?s"
    by (simp add: new_sub_def demo_dates pro_plan_def trial_sub_def)
  have "validate_sub euros ?s = Inr ?s"
    using demo_dates(3) by (simp add: sub_fit_def [symmetric] sub_fit_iff trial_sub_def demo_valid shouted_eur max_price_cents_def valid_currency_def euros_def)
  then have "create_sub euros 9 2 7 (new_sub 5 2 None pro_plan) (bw_db plan_world) = Inr ((bw_db plan_world)\<lparr>bl_subs := [trial_sub]\<rparr>, trial_sub)"
    unfolding create_sub_def new by (simp add: plan_world_def trial_sub_def Let_def)
  moreover have "get_plan 5 (bw_db plan_world) = Some pro_plan" "current_sub 7 (bw_db plan_world) = None"
      "trial_used_at 7 (bw_db plan_world) = None"
    by (simp_all add: get_plan_def current_sub_def trial_used_at_def List.map_filter_def plan_world_def pro_plan_def)
  ultimately show ?thesis
    by (simp add: subscribe_def subscribe_first_def no_charge_def kept_db_def publish_subscribed_def publish_bill_def)
      (simp add: plan_world_def trial_world_def pro_plan_def trial_sub_def)
qed

lemma demo_plan_there: "get_plan 5 (bw_db trial_world) = Some pro_plan" "get_plan 5 (bw_db owing_world) = Some pro_plan"
  by (simp_all add: get_plan_def trial_world_def owing_world_def pro_plan_def)

lemma demo_current: "current_sub 7 (bw_db trial_world) = Some trial_sub" "current_sub 7 (bw_db owing_world) = Some owing_sub"
  "current_sub 7 (bw_db paid_world) = Some paying_sub"
  by (simp_all add: current_sub_def trial_world_def owing_world_def paid_world_def trial_sub_def owing_sub_def paying_sub_def)

lemma charge_step: "bill_step euros uuid_text trial_over (Tenant 7 AskRenew) trial_world = trial_world\<lparr>bw_clock := trial_over, bw_due := [pro_charge]\<rparr>"
proof -
  have "renew euros uuid_text trial_over 7 (bw_db trial_world) = Inr (bw_db trial_world, trial_sub, Some pro_charge)"
    using demo_current(1) demo_plan_there(1) demo_valid(8)
    by (simp add: renew_def plan_of_def trial_sub_def run_out_def grace_expired_def charge_of_def pro_charge_def)
      (simp add: pro_plan_def)
  then show ?thesis by (simp add: kept_db_def) (simp add: trial_world_def)
qed

lemma refused_step:
  "bill_step euros uuid_text (trial_over + 1) (Tenant 7 (AskSettle pro_charge refusal)) (trial_world\<lparr>bw_clock := trial_over, bw_due := [pro_charge]\<rparr>) = owing_world"
proof -
  let ?s = "refused_once (trial_over + 1) trial_sub"
  have "validate_sub euros (?s\<lparr>sb_tenant := 7\<rparr>) = Inr ?s"
    using demo_dates(3)
    by (simp add: sub_fit_def [symmetric] sub_fit_iff trial_sub_def refused_once_def demo_valid shouted_eur max_price_cents_def valid_currency_def euros_def)
  then have "update_sub euros (trial_over + 1) 7 (\<lambda>s r. write_dunning s (write_status s r)) ?s (bw_db trial_world)
      = Inr ((bw_db trial_world)\<lparr>bl_subs := [owing_sub]\<rparr>, owing_sub)"
    by (simp add: update_sub_def not_ours_def Let_def trial_world_def trial_sub_def refused_once_def owing_sub_def write_dunning_def write_status_def)
  then have "settle euros (trial_over + 1) 7 pro_charge refusal (bw_db trial_world) = Inr (bw_db owing_world, owing_sub)"
    using demo_current(1) demo_valid(8,11)
    by (simp add: settle_def pro_charge_def refusal_def trial_sub_def publish_bill_def)
      (simp add: owing_world_def owing_sub_def trial_sub_def trial_world_def)
  then show ?thesis by (simp add: kept_db_def no_charge_def) (simp add: owing_world_def trial_world_def)
qed

lemma paid_step: "bill_step euros uuid_text (trial_over + 2) (Tenant 7 (AskSettle pro_charge payment)) owing_world = paid_world"
proof -
  let ?s = "next_period pro_plan owing_sub"
  have s: "?s = paying_sub\<lparr>sb_updated := trial_over + 1\<rparr>"
    by (simp add: next_period_def owing_sub_def paying_sub_def trial_sub_def pro_plan_def next_over_def)
  have "validate_sub euros (?s\<lparr>sb_tenant := 7\<rparr>) = Inr ?s"
    using demo_dates(4) unfolding s
    by (simp add: sub_fit_def [symmetric] sub_fit_iff paying_sub_def trial_sub_def demo_valid shouted_eur max_price_cents_def valid_currency_def euros_def)
  then have "update_sub euros (trial_over + 2) 7 (\<lambda>s r. write_dunning s (write_period s (write_status s r))) ?s (bw_db owing_world)
      = Inr ((bw_db owing_world)\<lparr>bl_subs := [paying_sub]\<rparr>, paying_sub)"
    unfolding s
    by (simp add: update_sub_def not_ours_def Let_def owing_world_def owing_sub_def trial_sub_def paying_sub_def write_dunning_def write_status_def write_period_def)
  then have "settle euros (trial_over + 2) 7 pro_charge payment (bw_db owing_world) = Inr (bw_db paid_world, paying_sub)"
    using demo_current(2) demo_plan_there(2) demo_valid(9)
    by (simp add: settle_def pro_charge_def payment_def owing_sub_def trial_sub_def publish_bill_def plan_of_def advance_sub_def)
      (simp add: owing_world_def paid_world_def paying_sub_def trial_sub_def)
  then show ?thesis by (simp add: kept_db_def no_charge_def) (simp add: owing_world_def paid_world_def)
qed

lemma demo_reached: "bill_reach euros uuid_text plan_world" "bill_reach euros uuid_text owing_world" "bill_reach euros uuid_text paid_world"
proof -
  let ?make = "MakePlan 5 1 (pro_plan\<lparr>bp_interval := '''', bp_currency := ''eur''\<rparr>)"
  have p: "bill_steps euros uuid_text [(1, ?make)] (fresh_bills 0) = Some plan_world"
    using plan_step by (simp add: bill_allowed_def fresh_bills_def [of 0])
  let ?acts = "[(2, Tenant 7 (AskSubscribe 9 5)), (trial_over, Tenant 7 AskRenew), (trial_over + 1, Tenant 7 (AskSettle pro_charge refusal))]"
  have o: "bill_steps euros uuid_text ?acts plan_world = Some owing_world"
    using trial_step charge_step refused_step demo_dates(3)
    by (simp add: bill_allowed_def del: bill_step.simps) (simp add: plan_world_def trial_world_def)
  have l: "bill_steps euros uuid_text [(trial_over + 2, Tenant 7 (AskSettle pro_charge payment))] owing_world = Some paid_world"
    using paid_step by (simp add: bill_allowed_def del: bill_step.simps) (simp add: owing_world_def)
  show plan: "bill_reach euros uuid_text plan_world" using bill_steps_run [OF p] by (auto simp: bill_reach_def)
  show owing: "bill_reach euros uuid_text owing_world" by (rule bill_reach_run [OF plan bill_steps_run [OF o]])
  show "bill_reach euros uuid_text paid_world" by (rule bill_reach_run [OF owing bill_steps_run [OF l]])
qed

subsection \<open>What holds of every row\<close>






subsection \<open>What becomes of a debt\<close>

text \<open>
  C21: A debt is owed until it is paid: once a charge of a subscription was refused, then through any
  calls of anyone, cancelling and taking the plan up again included, the tenant's subscription is the
  same one with the same plan, period, price, currency and grace clock, and every charge it is asked
  for is for that period and price under one key, so a provider that heeds the key takes it once.  Only
  a receipt that settles the charge ends it, or the removal of the row, which no route reaches.
\<close>

theorem debt_is_owed_until_settled:
  assumes "bill_reach money us v" and "bill_run money us v acts w"
    and "current_sub t (bw_db v) = Some s" and "sb_past_due s \<noteq> None"
    and "\<forall>(now, act) \<in> set acts. act \<noteq> RemoveSub t \<and> \<not> settles_debt t s act"
  shows "(\<exists>s'. current_sub t (bw_db w) = Some s' \<and> same_debt s s')
    \<and> (\<exists>cs. bw_due w = bw_due v @ cs \<and> (\<forall>c \<in> set cs. bc_subject c = sb_id s \<longrightarrow> asks_for us s c))"
  by (rule owing_run [OF assms(2,1,3-5)])

theorem debt_is_owed_until_settled_witness:
  "\<exists>w. bill_run euros uuid_text owing_world
        [(trial_over + 2, Tenant 7 (AskCancel True)), (trial_over + 8 * day_ns, Tenant 7 AskRenew), (trial_over + 9 * day_ns, Tenant 7 (AskSubscribe 3 5))] w
     \<and> (\<exists>s'. current_sub 7 (bw_db w) = Some s' \<and> same_debt owing_sub s')"
proof -
  let ?acts = "[(trial_over + 2, Tenant 7 (AskCancel True)), (trial_over + 8 * day_ns, Tenant 7 AskRenew), (trial_over + 9 * day_ns, Tenant 7 (AskSubscribe 3 5))]"
  let ?step = "bill_step euros uuid_text"
  let ?w = "?step (trial_over + 9 * day_ns) (Tenant 7 (AskSubscribe 3 5)) (?step (trial_over + 8 * day_ns) (Tenant 7 AskRenew)
      (?step (trial_over + 2) (Tenant 7 (AskCancel True)) owing_world))"
  have "bill_steps euros uuid_text ?acts owing_world = Some ?w"
    by (simp add: bill_allowed_def Let_def owing_world_def day_ns_def duration_defs)
  then have r: "bill_run euros uuid_text owing_world ?acts ?w" by (rule bill_steps_run)
  have "sb_past_due owing_sub \<noteq> None" by (simp add: owing_sub_def)
  from debt_is_owed_until_settled [OF demo_reached(2) r demo_current(2) this] r show ?thesis
    by (auto simp: settles_debt_def)
qed

subsection \<open>The fake a consumer tests with\<close>

text \<open>
  C27: A consumer that tests against the fake tests against the service: over any sequence of calls of
  one tenant, at any instants, the fake answers each as the service does in any state it can reach,
  refusals, charges and rows (owner and stamps of a row aside, which the database writes), and ends with
  the subscription, trial and published events the service ends with, when it began with them and
  with the catalogue, and the identifiers made are new.
\<close>

theorem fake_answers_as_the_service:
  assumes "bill_reach money us w" and "fake_sees t (bw_db w) f" and "fresh_for (bw_db w) calls"
  shows "snd (fake_calls us calls f) = snd (service_calls money us t calls (bw_db w))
    \<and> fake_sees t (fst (service_calls money us t calls (bw_db w))) (fst (fake_calls us calls f))"
  using fake_calls_agree [OF reach_ok [OF assms(1)] assms(2,3)] by simp

theorem fake_answers_as_the_service_witness:
  "snd (fake_calls uuid_text [(2, AskSubscribe 9 5), (trial_over, AskRenew), (trial_over + 1, AskSettle pro_charge refusal)]
       (new_fake\<lparr>fk_plans := \<lambda>i. get_plan i (bw_db plan_world)\<rparr>))
   = snd (service_calls euros uuid_text 7 [(2, AskSubscribe 9 5), (trial_over, AskRenew), (trial_over + 1, AskSettle pro_charge refusal)]
       (bw_db plan_world))"
proof -
  have "fake_sees 7 (bw_db plan_world) (new_fake\<lparr>fk_plans := \<lambda>i. get_plan i (bw_db plan_world)\<rparr>)"
    by (rule new_fake_sees) (simp_all add: plan_world_def told_names_def)
  moreover have "fresh_for (bw_db plan_world) [(2, AskSubscribe 9 5), (trial_over, AskRenew), (trial_over + 1, AskSettle pro_charge refusal)]"
    by (simp add: fresh_for_def plan_world_def)
  ultimately show ?thesis using fake_answers_as_the_service [OF demo_reached(1)] by blast
qed

subsection \<open>A week of refused charges\<close>

text \<open>An owing subscription of a reachable installation has a price, and its period is over.\<close>

lemma owing_now:
  assumes "bill_reach money us w" and "current_sub t (bw_db w) = Some s" and "sb_past_due s \<noteq> None"
    and "sb_status s = status_past_due" and "\<not> sb_leaving s" and "bw_clock w \<le> now"
  shows "owing_at now s"
proof -
  note led = reach_ledger [OF assms(1)] and s = current_sub_D [OF assms(2)]
  have price: "0 < sb_price s" by (rule debt_priced [OF reach_ok [OF assms(1)] led s(1) assms(3)])
  obtain c where "c \<in> set (bw_due w)" "bc_end c = sb_end s"
    using led s(1) assms(3) unfolding ledger_ok_def debts_ok_def by blast
  then have "sb_end s \<le> bw_clock w" using led unfolding ledger_ok_def due_ok_def by fastforce
  with price show ?thesis using assms(4-6) by (simp add: owing_at_def)
qed

text \<open>
  C30: A subscription whose charges are refused is served for the grace period and no longer: each
  night within seven days of the first refusal presents the charge, counts one more attempt and
  publishes nothing, and the first night from the seventh day on cancels it, for dunning, and says so.
  Nights are runs of the job for its tenant with nobody else writing, the tenant not having asked to
  leave; the provider refuses each charge it is presented.
\<close>

theorem refused_charges_end_in_cancellation:
  assumes "bill_reach money us w" and "current_sub t (bw_db w) = Some s" and "sb_status s = status_past_due"
    and "sb_past_due s = Some d" and "\<not> sb_leaving s" and "refuses pay"
    and "\<forall>n \<in> set nights. bw_clock w \<le> fst n \<and> fst n < d + grace_period"
    and "bw_clock w \<le> now" and "d + grace_period \<le> now"
  shows "let db1 = fold (night money us pay t) nights (bw_db w); db2 = night money us pay t (now, later) db1
    in (\<exists>s1. current_sub t db1 = Some s1 \<and> serving (sb_status s1) \<and> same_debt s s1
          \<and> sb_attempts s1 = sb_attempts s + int (length nights) \<and> bl_log db1 = bl_log (bw_db w))
       \<and> (\<exists>s2. current_sub t db2 = Some s2 \<and> sb_status s2 = status_cancelled \<and> same_debt s s2
          \<and> bl_log db2 = bl_log (bw_db w) @ [(t, SubCancelled (sb_id s) now True cancelled_by_dunning now)])"
proof -
  have owing: "owing_at at s" if "bw_clock w \<le> at" for at
    using owing_now [OF assms(1,2) _ assms(3,5) that] assms(4) by simp
  define db1 where "db1 = fold (night money us pay t) nights (bw_db w)"
  have "\<forall>n \<in> set nights. owing_at (fst n) s \<and> fst n < d + grace_period" using assms(7) owing by blast
  from refused_nights [OF reach_ok [OF assms(1)] assms(2,4,6) this assms(3), of us]
  obtain s1 where s1: "current_sub t db1 = Some s1" "same_debt s s1" "sb_status s1 = status_past_due" "sb_leaving s1 = sb_leaving s"
      "sb_attempts s1 = sb_attempts s + int (length nights)" "bl_log db1 = bl_log (bw_db w)" "bills_ok money db1"
    unfolding db1_def by blast
  have "owing_at now s1" "grace_expired now s1" using owing [OF assms(8)] s1(2-4) assms(4,9)
    by (simp_all add: owing_at_def same_debt_def grace_expired_iff)
  note last = dunned_night(1) [OF s1(7,1) this, where us = us and pay = pay and later = later] dunned_night(2) [OF s1(7,1) this]
  have n: "night money us pay t (now, later) db1 = publish_bill t (SubCancelled (sb_id s1) now True cancelled_by_dunning now)
      (put_row (s1\<lparr>sb_status := status_cancelled, sb_updated := now\<rparr>) db1)"
    using last(1) by (simp add: night_def)
  have "same_debt s (s1\<lparr>sb_status := status_cancelled, sb_updated := now\<rparr>)" using s1(2) by (simp add: same_debt_def)
  moreover have "sb_id s1 = sb_id s" using s1(2) by (simp add: same_debt_def)
  ultimately show ?thesis
    using s1 last(2) unfolding Let_def db1_def [symmetric] n by (simp add: serving_def)
qed

theorem refused_charges_end_in_cancellation_witness:
  "let db1 = fold (night euros uuid_text (\<lambda>_. Some refusal) 7) [(trial_over + day_ns, trial_over + day_ns + 1)] (bw_db owing_world);
       db2 = night euros uuid_text (\<lambda>_. Some refusal) 7 (trial_over + 8 * day_ns, trial_over + 8 * day_ns + 1) db1
   in (\<exists>s1. current_sub 7 db1 = Some s1 \<and> sb_attempts s1 = 2) \<and> (\<exists>s2. current_sub 7 db2 = Some s2 \<and> sb_status s2 = status_cancelled)"
proof -
  have f: "sb_status owing_sub = status_past_due" "sb_past_due owing_sub = Some (trial_over + 1)" "\<not> sb_leaving owing_sub" "sb_attempts owing_sub = 1"
    by (simp_all add: owing_sub_def trial_sub_def)
  have r: "refuses (\<lambda>_. Some refusal)" by (simp add: refuses_def refusal_def)
  have t: "bw_clock owing_world \<le> trial_over + day_ns \<and> trial_over + day_ns < trial_over + 1 + grace_period"
      "bw_clock owing_world \<le> trial_over + 8 * day_ns" "trial_over + 1 + grace_period \<le> trial_over + 8 * day_ns"
    by (simp_all add: owing_world_def grace_period_def day_ns_def duration_defs)
  from refused_charges_end_in_cancellation [OF demo_reached(2) demo_current(2) f(1-3) r _ t(2,3),
      of "[(trial_over + day_ns, trial_over + day_ns + 1)]" "trial_over + 8 * day_ns + 1"] t(1) f(4)
  show ?thesis by (auto simp: Let_def)
qed

subsection \<open>Renewals and the dates of periods\<close>

text \<open>
  The renewals published of one subscription start each later than the one before, and a receipt one
  names was of a settled charge for the period that ended.
\<close>

theorem renewals_in_order:
  assumes "bill_reach money us w"
  shows "sorted_wrt (<) (map fst (renewals i (bl_log (bw_db w))))
    \<and> (\<forall>(a, b, receipt) \<in> set (renewals i (bl_log (bw_db w))). a < b \<and> a \<le> bw_clock w
         \<and> (receipt = '''' \<or> settled_for (bw_taken w) i a receipt))"
proof -
  have ok: "renewals_ok w" using reach_ledger [OF assms] by (simp add: ledger_ok_def)
  then have "sorted_wrt (<) (map fst (renewals i (bl_log (bw_db w))))" by (simp add: renewals_ok_def)
  then show ?thesis using renewals_okD [OF ok] by blast
qed

text \<open>Periods do not drift: after a trial and any renewals under one interval, each ends on an anniversary.\<close>

theorem periods_keep_the_anniversary:
  assumes "\<forall>p \<in> set (p # ps). bp_interval p = i"
  shows "sb_end (fold next_period ps (new_sub (bp_id p) now None p)) = anniversary now i (Suc (length ps))
    \<and> sb_anchor (fold next_period ps (new_sub (bp_id p) now None p)) = anchor_of now"
  using assms
proof (induction ps rule: rev_induct)
  case Nil
  then show ?case using advance_anniversary [of now i 0] by (simp add: new_sub_def anniversary_0)
next
  case (snoc q qs)
  then show ?case using advance_anniversary [of now i "Suc (length qs)"] by (simp add: next_period_def)
qed

end
