(* ===== verification/Spec2Isabelle.thy ===== *)
theory Spec2Isabelle
  imports ResolveProperties LimiterProperties IdempotencyProperties CacheProperties EventProperties PeopleProperties SeedProperties BillingProperties
begin

text \<open>
  A verification library for platformkit, a Go kit for building multi-tenant applications out of
  modules.  An application names modules; \<open>pkit\<close> resolves their declarations into a build plan; the
  modules built run over the kit's shared services, which keep one tenant's data apart from another's
  and answer a retried request once.  The library models the parts where the kit makes promises that
  its callers cannot check for themselves.

  \<^bold>\<open>Names and addresses\<close> (theory \<open>AppNames\<close>; \<open>kit/appname/appname.go\<close>,
  \<open>kit/events/transport/subject.go\<close>).  An application's name is a slug; every name it shares a
  server under (event subject, limiter and cache key, object path, cookie, job lock, durable) is one
  function here.  \<open>uuid.UUID.String\<close> is the parameter \<open>us\<close> of these functions with the law
  \<open>uuid_spelling\<close> (Prelude); \<open>uuid_text\<close> is a concrete spelling that satisfies it.

  \<^bold>\<open>Counters\<close> (\<open>RateLimit\<close>, \<open>CounterStore\<close>; \<open>kit/limit/limit.go\<close>, \<open>memory.go\<close>).  The map of
  windows and the table of rows, each operation as the code's; the statement of \<open>Reserve\<close> is read
  clause by clause, the addition of a Postgres integer failing when it overflows.  The retry of a dead
  connection is a recursion over the answers the database gives.  The locale \<open>counter_store\<close> states
  what a caller of \<open>Limiter\<close> may rely on and is interpreted on both stores.

  \<^bold>\<open>Login attempts\<close> (\<open>Lockout\<close>; \<open>modules/auth/contracts/limiter.go\<close>).  The keys, caps and
  verdicts of the attempt limiter over any \<open>Limiter\<close>; its lemmas are proved in the context of
  \<open>counter_store\<close>.  The digest of an address (SHA-256 in hex) is a parameter; the law used is that it
  has no space (\<open>digest_plain\<close>).  \<open>LimiterProperties\<close> holds the properties of the three parts.

  \<^bold>\<open>Resolver\<close> (\<open>Composition\<close>, \<open>BuildOrder\<close>, \<open>Resolver\<close>, \<open>SweepFacts\<close>, \<open>Resolution\<close>,
  \<open>ResolveProperties\<close>; \<open>pkit/declare.go\<close>, \<open>pkit/resolve.go\<close>).  Declarations, modules and deployments
  as records; \<open>resolve\<close> composed of the code's stages in its order: environment, duplicates, Choose,
  what a module says of itself, who is last, mixed contracts, the sweep of needs repeated until it
  settles, the deployment's picks, the order, the cycle.  The sweep is a \<open>function\<close> with its
  termination proof; the walk for a cycle takes fuel, the number of modules and one, which is proved
  to be enough.  The locale \<open>sweep_keeps\<close> carries an invariant of one refusal and one wiring through
  the sweep, and is interpreted for the invariants the properties need.  What
  \<open>resolveCloud\<close> and \<open>config.ApplyCloudProfile\<close> answer is a parameter (a list of issues).

  \<^bold>\<open>Remembered writes\<close> (\<open>Receipts\<close>, \<open>Idempotency\<close>, \<open>CommandOnce\<close>, \<open>ClaimStore\<close>,
  \<open>IdempotencyProperties\<close>; \<open>kit/idempotency\<close>, \<open>kit/operation\<close>).  The tables of claims, effects and
  receipts; each operation is the statements of its one transaction, the lock a claim tries and the
  identifiers it mints being arguments.  \<open>CommandOnce\<close> interleaves claims, admissions, marks, commits,
  losses, purges and receipts in the inductive relation \<open>day_step\<close>.  The locales \<open>receipt_store\<close> and
  \<open>claim_store\<close> state what both stores promise and are interpreted on the tables and on memory.

  \<^bold>\<open>Cache\<close> (\<open>Decimals\<close>, \<open>Cache\<close>, \<open>CacheSafety\<close>, \<open>CacheGroup\<close>, \<open>CacheProperties\<close>;
  \<open>kit/cache\<close>).  The port over any backend, a record of its commands; the backend in memory; the
  group of composed values with its recency list, and the pool.  \<open>cache_step\<close> interleaves the calls
  of any applications over one store; the locale \<open>cache_contract\<close> is what a backend must keep for a
  hit to be current, and the one in memory is its interpretation.  Generations are \<open>int64\<close>: they wrap
  (\<open>wrap64\<close>), and the properties ask that fewer than \<open>2 ^ 63\<close> raises were asked.  The Valkey adapter is
  a client of a server and is not modelled; of the callers \<open>singleflight\<close> joins, the first is.

  \<^bold>\<open>Events\<close> (\<open>EventCatalog\<close>, \<open>Outbox\<close>, \<open>Delivery\<close>, \<open>DeliveryOnce\<close>, \<open>MemoryTransport\<close>,
  \<open>EventProperties\<close>; \<open>kit/events\<close>).  The names a process answers for, typed by schemas that are the
  documents they marshal to; the outbox with its one insert, the relay, the two ledgers of deliveries
  with claims, effects, dead letters, the operator's replay and the move of a ledger; the ladder of a
  delivery in memory.  \<open>event_step\<close> interleaves writes, relays that stamped and relays that died
  before they could, deliveries, recoveries, terminal letters, replays, moves, purges, placements and the clock; each
  transaction that commits is one step, and \<open>event_inv\<close> is its invariant.  A transport delivers a
  copy as long as its stream retains one, \<open>event_keep\<close> (the documented retention, in \<open>deliverable\<close>); identifiers written are
  new.  Two spellings of one durable claimed in overlapping transactions are outside the model.  The
  relay's loop runs while nobody else writes and is proved to end; the ladder in memory may not end,
  which is \<open>None\<close> of a \<open>partial_function\<close>, and C35 says when it does, with a terminal hook and without.  The locale \<open>sink_contract\<close>
  is what a transport may rely on and is interpreted on the database's sink.  NATS is not modelled.

  \<^bold>\<open>People and roles\<close> (\<open>People\<close>, \<open>PeopleService\<close>, \<open>AuthRoles\<close>, \<open>Administration\<close>, \<open>PeopleSteps\<close>,
  \<open>AccountLife\<close>, \<open>PeopleProperties\<close>; \<open>modules/user\<close>, the roles of \<open>modules/auth\<close>).  The person and
  the rules of one row; the rows and unique indexes one tenant's transaction sees; each command, the
  doors of the collection and the erasure, with the floor under the last administrator; roles, what
  they grant, their writes, seeding and repair.  An operation answers the state its transaction commits
  beside its answer.  The two modules meet at a port, the names of the roles that grant the management
  of roles: the locale \<open>administration_port\<close> is what the floor relies on, interpreted on the auth module's
  answer.  \<open>people_do\<close> is one call at one door, \<open>people_reach\<close> any sequence of them; \<open>account_moves\<close> is the
  abstract machine of an account's status over the log, and every call is a step of it
  (\<open>account_step\<close>).  Text is bytes, letters are folded as ASCII; argon2 is a parameter; the tenant's
  administration lock makes each operation one step.

  \<^bold>\<open>Seeds\<close> (\<open>Seeds\<close>, \<open>SeedOrder\<close>, \<open>SeedRun\<close>, \<open>SeedAgain\<close>, \<open>SeedPruned\<close>, \<open>SeedTwice\<close>,
  \<open>SeedUsers\<close>, \<open>SeedProperties\<close>; \<open>kit/seed\<close>, the writer of people in \<open>apps/platformkit/seed.go\<close>).  The
  loader over YAML nodes (what the library makes of bytes and values is \<open>yaml_port\<close>, the embedded tree
  \<open>seed_tree\<close>), the order of the records by their references, and a run over one tenant: checks,
  reconciliation of each record with its owner's row, provenance and pruning.  The owners' rows are a
  type variable and a writer a record of functions over them; the locale \<open>lawful_writers\<close> is what the
  seeder relies on (a row found is found again by its identifier, what a write answers is what a read
  finds and settles the record, a write of one row leaves the others as a read finds them), and under it a
  second run of files that name no record outside them, prunes included, writes nothing (\<open>second_run\<close>).
  The writer of people over the user module's operations keeps these laws (the sublocale of
  \<open>user_seeding\<close>).  Its commands never change an address; \<open>same_people_again\<close> asks that none was to change.
  The loop of the order ends by what still waits (\<open>waiting\<close>); the walk of a prune takes fuel, the number
  of resources that prune and one, which is proved to be enough (\<open>prune_order_fuel\<close>).  A run is one step, as its
  lock makes it; Go maps read in any order are lists read in theirs, so of several refusals of one mapping the
  first in the file is the one answered.

  \<^bold>\<open>Billing\<close> (\<open>Calendar\<close>, \<open>Billing\<close>, \<open>BillingService\<close>, \<open>BillingRows\<close>, \<open>BillingRuns\<close>,
  \<open>BillingLedger\<close>, \<open>BillingDebts\<close>, \<open>BillingFake\<close>, \<open>BillingProperties\<close>; \<open>modules/billing\<close>).  Dates are days
  counted from the first of January of year 1 and months counted through, in UTC, as \<open>db.Now\<close> reads
  them; the end of a billing period is \<open>advance_date\<close>, and iterated it is the anniversary.  Plans and
  subscriptions are rows of two tables, each command of the lifecycle one transaction over them, the
  nightly job two with the charge between; the payment provider and the table of currencies are
  parameters.  \<open>bill_ask_turn\<close> says what one call does to the rows: nothing, a charge, the first row, or
  one of the moves of \<open>bill_move\<close>.  \<open>bill_run\<close> is any sequence of calls of tenants, the operator and the job, each
  later than the one before; \<open>reach_ok\<close> is the invariant of the rows, \<open>reach_ledger\<close> what ties them to the
  charges answered, the receipts brought and the renewals published, \<open>owing_run\<close> and \<open>refused_nights\<close> what
  becomes of a debt.  The fake of \<open>contracts/billingtest\<close> is modelled beside the service and is shown to
  agree with it call by call.  A process whose local zone is not UTC and two commands of one tenant
  in overlapping transactions are outside the model.

  Times and durations are integers of nanoseconds; a \<open>time.Duration\<close> saturates as Go's does
  (\<open>time_sub\<close>), instants are truncated to microseconds where the code truncates them.  Strings are
  lists of characters; JSON spellings of headers and limits are kept as the lists they spell.

  Not modelled: SQL, NATS and HTTP themselves, contexts and their deadlines (a call's outcome is an
  argument), goroutine scheduling inside one operation (each is one step, as its mutex or transaction
  makes it), \<open>SKIP LOCKED\<close> in the purge (no row is locked when it runs), and the modules, screens and
  adapters that are listed as not modelled in the project's manifest.
\<close>

end
